(* ===== verification/Prelude.thy ===== *)
theory Prelude
  imports Main "HOL-Library.Char_ord"
begin

text \<open>
  Shared vocabulary of the development. It holds the collections of rewrite rules the component
  theories extend, the time types, the model of a keyed SQL table (rows in insertion order, one
  row per primary key, \<open>INSERT ... ON CONFLICT DO UPDATE\<close> and \<open>DELETE\<close>) with the interface
  every such table of the bridge is used through, and a few list facts that more than one
  component needs.
\<close>

named_theorems go_str \<open>facts on the modelled Go string functions\<close>
named_theorems tbl \<open>facts on keyed tables\<close>
named_theorems op_defs \<open>definitions of state-changing operations, unfolded in their proofs\<close>

text \<open>Instants are counted in nanoseconds since the Unix epoch, durations in nanoseconds, as
  \<^verbatim>\<open>time.Time\<close> and \<^verbatim>\<open>time.Duration\<close> do. A zero \<^verbatim>\<open>time.Time\<close> is \<^term>\<open>None\<close>.\<close>

type_synonym instant = int
type_synonym duration = int

definition millisecond :: duration where "millisecond = 1000000"
definition second :: duration where "second = 1000 * millisecond"
definition minute :: duration where "minute = 60 * second"
definition hour :: duration where "hour = 60 * minute"

lemmas time_unit_defs = millisecond_def second_def minute_def hour_def

abbreviation max_int64 :: int where "max_int64 \<equiv> 9223372036854775807"

text \<open>\<^verbatim>\<open>Time.UnixMilli\<close> rounds towards minus infinity.\<close>

definition unix_milli :: "instant \<Rightarrow> int" where
  "unix_milli t = t div millisecond"

lemma unix_milli_mono: "a \<le> b \<Longrightarrow> unix_milli a \<le> unix_milli b"
  by (simp add: unix_milli_def millisecond_def zdiv_mono1)

lemma unix_milli_add: "unix_milli (t + k * millisecond) = unix_milli t + k"
  by (simp add: unix_milli_def millisecond_def)

section \<open>Keyed tables\<close>

text \<open>A table is the list of its rows, oldest first. \<open>upsert key merge row t\<close> is
  \<^verbatim>\<open>INSERT ... ON CONFLICT(key) DO UPDATE\<close>: with a row under the same key already there,
  that row becomes \<open>merge old new\<close> in place, otherwise the new row is appended.\<close>

definition has_key :: "('r \<Rightarrow> 'k) \<Rightarrow> 'k \<Rightarrow> 'r list \<Rightarrow> bool" where
  "has_key key k t \<longleftrightarrow> list_ex (\<lambda>r. key r = k) t"

definition row_of :: "('r \<Rightarrow> 'k) \<Rightarrow> 'k \<Rightarrow> 'r list \<Rightarrow> 'r option" where
  "row_of key k t = List.find (\<lambda>r. key r = k) t"

definition upsert :: "('r \<Rightarrow> 'k) \<Rightarrow> ('r \<Rightarrow> 'r \<Rightarrow> 'r) \<Rightarrow> 'r \<Rightarrow> 'r list \<Rightarrow> 'r list" where
  "upsert key merge row t =
     (if has_key key (key row) t
      then map (\<lambda>r. if key r = key row then merge r row else r) t
      else t @ [row])"

definition keyed :: "('r \<Rightarrow> 'k) \<Rightarrow> 'r list \<Rightarrow> bool" where
  "keyed key t \<longleftrightarrow> distinct (map key t)"

lemma has_key_iff [tbl]: "has_key key k t \<longleftrightarrow> k \<in> key ` set t"
  by (auto simp: has_key_def list_ex_iff)

lemma row_of_None [tbl]: "row_of key k t = None \<longleftrightarrow> k \<notin> key ` set t"
  by (auto simp: row_of_def find_None_iff)

lemma row_of_Some_in: "row_of key k t = Some r \<Longrightarrow> r \<in> set t \<and> key r = k"
  by (auto simp: row_of_def find_Some_iff)

lemma keyed_inj: "keyed key t \<Longrightarrow> r \<in> set t \<Longrightarrow> s \<in> set t \<Longrightarrow> key r = key s \<Longrightarrow> r = s"
  by (auto simp: keyed_def distinct_map dest: inj_onD)

lemma row_of_eq_Some:
  assumes "keyed key t"
  shows "row_of key k t = Some r \<longleftrightarrow> r \<in> set t \<and> key r = k"
proof
  assume r: "r \<in> set t \<and> key r = k"
  then obtain s where s: "row_of key k t = Some s"
    by (cases "row_of key k t") (auto simp: row_of_None)
  then have "s = r" using row_of_Some_in [OF s] r keyed_inj [OF assms] by auto
  with s show "row_of key k t = Some r" by simp
qed (rule row_of_Some_in)

lemma keyed_filter [tbl]: "keyed key t \<Longrightarrow> keyed key (filter P t)"
  by (simp add: keyed_def distinct_map_filter)

lemma keyed_Nil [simp, tbl]: "keyed key []"
  by (simp add: keyed_def)

lemma keyed_append_row [tbl]:
  "keyed key (t @ [row]) \<longleftrightarrow> keyed key t \<and> key row \<notin> key ` set t"
  by (auto simp: keyed_def)

lemma keyed_map_same_key [tbl]:
  "(\<And>r. r \<in> set t \<Longrightarrow> key (f r) = key r) \<Longrightarrow> keyed key (map f t) = keyed key t"
  unfolding keyed_def by (metis (no_types, lifting) comp_apply map_cong map_map)

subsection \<open>The interface of a keyed table\<close>

text \<open>What a client of an upserted table relies on: the merge of a conflicting row keeps the
  primary key. Everything else about the table follows from that once.\<close>

locale keyed_table =
  fixes key :: "'r \<Rightarrow> 'k"
    and merge :: "'r \<Rightarrow> 'r \<Rightarrow> 'r"
  assumes merge_key: "key old = key new \<Longrightarrow> key (merge old new) = key old"
begin

lemma upsert_keyed: "keyed key t \<Longrightarrow> keyed key (upsert key merge row t)"
  by (auto simp: upsert_def tbl merge_key)

lemma upsert_keys: "key ` set (upsert key merge row t) = insert (key row) (key ` set t)"
proof (cases "key row \<in> key ` set t")
  case True
  have "key ` (\<lambda>r. if key r = key row then merge r row else r) ` set t = key ` set t"
    unfolding image_image by (rule image_cong) (auto simp: merge_key)
  with True show ?thesis by (simp add: upsert_def has_key_iff insert_absorb)
qed (simp add: upsert_def has_key_iff)

lemma row_of_upsert_same:
  assumes "keyed key t"
  shows "row_of key (key row) (upsert key merge row t) =
     Some (case row_of key (key row) t of None \<Rightarrow> row | Some old \<Rightarrow> merge old row)"
proof (cases "row_of key (key row) t")
  case None
  then have "key row \<notin> key ` set t" by (simp add: row_of_None)
  then show ?thesis using None upsert_keyed [OF assms, of row]
    by (simp add: row_of_eq_Some upsert_def has_key_iff)
next
  case (Some old)
  then have old: "old \<in> set t" "key old = key row" by (auto dest: row_of_Some_in)
  then have "merge old row \<in> set (upsert key merge row t)"
    by (force simp: upsert_def has_key_iff image_iff)
  with old have "row_of key (key row) (upsert key merge row t) = Some (merge old row)"
    by (simp add: row_of_eq_Some upsert_keyed assms merge_key)
  with Some show ?thesis by simp
qed

lemma row_of_upsert_other:
  assumes "k \<noteq> key row"
  shows "row_of key k (upsert key merge row t) = row_of key k t"
proof -
  have "List.find (\<lambda>r. key r = k) (map (\<lambda>r. if key r = key row then merge r row else r) t)
      = List.find (\<lambda>r. key r = k) t"
    using assms by (induction t) (auto simp: merge_key)
  moreover have "List.find (\<lambda>r. key r = k) (t @ [row]) = List.find (\<lambda>r. key r = k) t"
    using assms by (induction t) auto
  ultimately show ?thesis by (simp add: row_of_def upsert_def)
qed

lemma length_upsert: "length (upsert key merge row t) \<le> Suc (length t)"
  by (simp add: upsert_def)

lemma set_upsert:
  "set (upsert key merge row t) \<subseteq> insert row (set t \<union> (\<lambda>old. merge old row) ` {r \<in> set t. key r = key row})"
  by (auto simp: upsert_def)

end

section \<open>Lists\<close>

lemma length_filter_mono:
  "(\<And>x. x \<in> set xs \<Longrightarrow> P x \<Longrightarrow> Q x) \<Longrightarrow> length (filter P xs) \<le> length (filter Q xs)"
  by (induction xs) auto

lemma set_map_filter_ex: "set (List.map_filter f xs) = {y. \<exists>x \<in> set xs. f x = Some y}"
  by (induction xs) (auto simp: map_filter_simps split: option.splits)

lemma map_filter_Nil_iff: "List.map_filter f xs = [] \<longleftrightarrow> (\<forall>x \<in> set xs. f x = None)"
  by (induction xs) (auto simp: map_filter_simps split: option.splits)

lemma foldl_invariant:
  assumes "P a" and "\<And>x acc. x \<in> set xs \<Longrightarrow> P acc \<Longrightarrow> P (f acc x)"
  shows "P (foldl f a xs)"
  using assms by (induction xs arbitrary: a) auto

end
