(* ===== verification/Go_Strings.thy ===== *)
theory Go_Strings
  imports Prelude "HOL-Library.Sublist"
begin

text \<open>
  The functions of Go's \<^verbatim>\<open>strings\<close> and \<^verbatim>\<open>strconv\<close> packages that the modelled code calls, on
  byte strings (a Go string is a sequence of bytes, and so is \<^typ>\<open>string\<close>).
  \<^verbatim>\<open>strings.TrimSpace\<close> is exact, the multi-byte white space of Unicode included;
  \<^verbatim>\<open>strings.ToLower\<close> is exact on ASCII strings, the letters outside ASCII keep their bytes.
\<close>

section \<open>White space and case\<close>

definition space_runes :: "string list" where
  "space_runes =
    [[CHR 0x09], [CHR 0x0A], [CHR 0x0B], [CHR 0x0C], [CHR 0x0D], [CHR 0x20],
     [CHR 0xC2, CHR 0x85], [CHR 0xC2, CHR 0xA0], [CHR 0xE1, CHR 0x9A, CHR 0x80],
     [CHR 0xE2, CHR 0x80, CHR 0x80], [CHR 0xE2, CHR 0x80, CHR 0x81],
     [CHR 0xE2, CHR 0x80, CHR 0x82], [CHR 0xE2, CHR 0x80, CHR 0x83],
     [CHR 0xE2, CHR 0x80, CHR 0x84], [CHR 0xE2, CHR 0x80, CHR 0x85],
     [CHR 0xE2, CHR 0x80, CHR 0x86], [CHR 0xE2, CHR 0x80, CHR 0x87],
     [CHR 0xE2, CHR 0x80, CHR 0x88], [CHR 0xE2, CHR 0x80, CHR 0x89],
     [CHR 0xE2, CHR 0x80, CHR 0x8A], [CHR 0xE2, CHR 0x80, CHR 0xA8],
     [CHR 0xE2, CHR 0x80, CHR 0xA9], [CHR 0xE2, CHR 0x80, CHR 0xAF],
     [CHR 0xE2, CHR 0x81, CHR 0x9F], [CHR 0xE3, CHR 0x80, CHR 0x80]]"

function trim_with :: "string list \<Rightarrow> string \<Rightarrow> string" where
  "trim_with runes s =
     (case List.find (\<lambda>r. r \<noteq> [] \<and> prefix r s) runes of
        None \<Rightarrow> s
      | Some r \<Rightarrow> trim_with runes (drop (length r) s))"
  by pat_completeness auto
termination
  by (relation "measure (\<lambda>(_, s). length s)")
    (auto simp: find_Some_iff prefix_def)

declare trim_with.simps [simp del]

definition TrimSpace :: "string \<Rightarrow> string" where
  "TrimSpace s = rev (trim_with (map rev space_runes) (rev (trim_with space_runes s)))"

definition lower_byte :: "char \<Rightarrow> char" where
  "lower_byte c = (if CHR ''A'' \<le> c \<and> c \<le> CHR ''Z'' then char_of (of_char c + 32 :: nat) else c)"

definition ToLower :: "string \<Rightarrow> string" where
  "ToLower = map lower_byte"

definition is_digit :: "char \<Rightarrow> bool" where
  "is_digit c \<longleftrightarrow> CHR ''0'' \<le> c \<and> c \<le> CHR ''9''"

lemma length_trim_with: "length (trim_with runes s) \<le> length s"
proof (induction runes s rule: trim_with.induct)
  case (1 runes s)
  show ?case
  proof (cases "List.find (\<lambda>r. r \<noteq> [] \<and> prefix r s) runes")
    case None
    then show ?thesis by (simp add: trim_with.simps [of runes s])
  next
    case (Some r)
    then have "length (trim_with runes (drop (length r) s)) \<le> length (drop (length r) s)"
      by (rule "1")
    with Some show ?thesis by (simp add: trim_with.simps [of runes s])
  qed
qed

lemma suffix_trim_with: "suffix (trim_with runes s) s"
proof (induction runes s rule: trim_with.induct)
  case (1 runes s)
  show ?case
  proof (cases "List.find (\<lambda>r. r \<noteq> [] \<and> prefix r s) runes")
    case None
    then show ?thesis by (simp add: trim_with.simps [of runes s])
  next
    case (Some r)
    then have "suffix (trim_with runes (drop (length r) s)) (drop (length r) s)"
      by (rule "1")
    with Some show ?thesis
      by (simp add: trim_with.simps [of runes s]) (meson suffix_drop suffix_order.trans)
  qed
qed

lemma trim_with_idem: "trim_with runes (trim_with runes s) = trim_with runes s"
proof (induction runes s rule: trim_with.induct)
  case (1 runes s)
  show ?case
  proof (cases "List.find (\<lambda>r. r \<noteq> [] \<and> prefix r s) runes")
    case None
    then show ?thesis by (simp add: trim_with.simps [of runes s])
  next
    case (Some r)
    with "1" show ?thesis by (simp add: trim_with.simps [of runes s])
  qed
qed

lemma set_trim_with: "set (trim_with runes s) \<subseteq> set s"
  using suffix_trim_with by (rule set_mono_suffix)

lemma set_TrimSpace [go_str]: "set (TrimSpace s) \<subseteq> set s"
  unfolding TrimSpace_def by (metis set_rev set_trim_with subset_trans)

lemma count_list_suffix: "suffix t s \<Longrightarrow> count_list t c \<le> count_list s c"
  by (auto simp: suffix_def)

lemma count_list_TrimSpace: "count_list (TrimSpace s) c \<le> count_list s c"
  using count_list_suffix [OF suffix_trim_with, of "map rev space_runes" "rev (trim_with space_runes s)" c]
    count_list_suffix [OF suffix_trim_with, of space_runes s c]
  by (simp add: TrimSpace_def)

lemma lower_byte_at [simp]: "lower_byte c = CHR ''@'' \<longleftrightarrow> c = CHR ''@''"
proof (cases "CHR ''A'' \<le> c \<and> c \<le> CHR ''Z''")
  case True
  then have r: "65 \<le> (of_char c :: nat)" "(of_char c :: nat) \<le> 90"
    by (simp_all add: less_eq_char_def)
  have "lower_byte c \<noteq> CHR ''@''"
  proof
    assume "lower_byte c = CHR ''@''"
    then have "(of_char (lower_byte c) :: nat) = 64" by simp
    moreover have "(of_char (lower_byte c) :: nat) = of_char c + 32"
      using True r by (simp add: lower_byte_def)
    ultimately show False using r by simp
  qed
  moreover from r have "c \<noteq> CHR ''@''" by auto
  ultimately show ?thesis by simp
qed (auto simp: lower_byte_def)

lemma TrimSpace_Nil [simp, go_str]: "TrimSpace [] = []"
proof -
  have "trim_with rs [] = []" for rs using length_trim_with [of rs "[]"] by simp
  then show ?thesis by (simp add: TrimSpace_def)
qed

lemma trim_with_stops:
  "r \<in> set runes \<Longrightarrow> r \<noteq> [] \<Longrightarrow> \<not> prefix r (trim_with runes s)"
proof (induction runes s rule: trim_with.induct)
  case (1 runes s)
  show ?case
  proof (cases "List.find (\<lambda>r. r \<noteq> [] \<and> prefix r s) runes")
    case None
    then have "trim_with runes s = s" by (simp add: trim_with.simps [of runes s])
    with None 1 show ?thesis by (auto simp: find_None_iff)
  next
    case (Some r)
    with 1 show ?thesis by (simp add: trim_with.simps [of runes s])
  qed
qed

lemma trim_with_id:
  assumes "\<And>r. r \<in> set runes \<Longrightarrow> r \<noteq> [] \<Longrightarrow> \<not> prefix r s"
  shows "trim_with runes s = s"
proof -
  have "List.find (\<lambda>r. r \<noteq> [] \<and> prefix r s) runes = None"
    using assms by (auto simp: find_None_iff)
  then show ?thesis by (simp add: trim_with.simps)
qed

lemma prefix_TrimSpace: "prefix (TrimSpace s) (trim_with space_runes s)"
  using suffix_trim_with [of "map rev space_runes" "rev (trim_with space_runes s)"]
  by (simp add: TrimSpace_def suffix_to_prefix)

lemma TrimSpace_idem [simp]: "TrimSpace (TrimSpace s) = TrimSpace s"
proof -
  have "\<not> prefix r (TrimSpace s)" if "r \<in> set space_runes" "r \<noteq> []" for r
    using trim_with_stops [OF that, of s] prefix_TrimSpace [of s] prefix_order.trans by blast
  then have "trim_with space_runes (TrimSpace s) = TrimSpace s" by (rule trim_with_id)
  then show ?thesis
    using trim_with_idem [of "map rev space_runes" "rev (trim_with space_runes s)"]
    by (simp add: TrimSpace_def)
qed

text \<open>A byte that no white space contains survives trimming.\<close>

lemma trim_with_keeps:
  assumes "\<And>r. r \<in> set runes \<Longrightarrow> c \<notin> set r"
  shows "c \<in> set (trim_with runes s) \<longleftrightarrow> c \<in> set s"
  using assms
proof (induction runes s rule: trim_with.induct)
  case (1 runes s)
  show ?case
  proof (cases "List.find (\<lambda>r. r \<noteq> [] \<and> prefix r s) runes")
    case None
    then show ?thesis by (simp add: trim_with.simps [of runes s])
  next
    case (Some r)
    then have r: "r \<in> set runes" "prefix r s" by (auto simp: find_Some_iff)
    with "1.prems" have "c \<in> set (drop (length r) s) \<longleftrightarrow> c \<in> set s"
      by (auto simp: prefix_def)
    with Some 1 show ?thesis by (simp add: trim_with.simps [of runes s])
  qed
qed

lemma comma_TrimSpace: "CHR '','' \<in> set (TrimSpace s) \<longleftrightarrow> CHR '','' \<in> set s"
proof -
  have no: "CHR '','' \<notin> set r" if "r \<in> set space_runes" for r
    using that by (auto simp: space_runes_def)
  have "CHR '','' \<in> set (TrimSpace s) \<longleftrightarrow> CHR '','' \<in> set (trim_with space_runes s)"
    unfolding TrimSpace_def set_rev
    by (subst trim_with_keeps) (auto dest: no)
  also have "\<dots> \<longleftrightarrow> CHR '','' \<in> set s" by (rule trim_with_keeps) (rule no)
  finally show ?thesis .
qed

text \<open>Visible ASCII is never trimmed.\<close>

definition visible :: "string \<Rightarrow> bool" where
  "visible s \<longleftrightarrow> list_all (\<lambda>c. 32 < (of_char c :: nat) \<and> (of_char c :: nat) < 128) s"

lemma space_runes_invisible:
  "r \<in> set space_runes \<Longrightarrow> r \<noteq> [] \<and> \<not> (32 < (of_char (hd r) :: nat) \<and> (of_char (hd r) :: nat) < 128)
     \<and> \<not> (32 < (of_char (last r) :: nat) \<and> (of_char (last r) :: nat) < 128)"
  by (auto simp: space_runes_def)

lemma visible_prefix: "visible s \<Longrightarrow> prefix r s \<Longrightarrow> r \<noteq> [] \<Longrightarrow>
    32 < (of_char (hd r) :: nat) \<and> (of_char (hd r) :: nat) < 128"
  by (cases r) (auto simp: visible_def prefix_def)

lemma TrimSpace_visible: "visible s \<Longrightarrow> TrimSpace s = s"
proof -
  assume s: "visible s"
  have "trim_with space_runes s = s"
    by (rule trim_with_id) (use s space_runes_invisible visible_prefix in blast)
  moreover have "trim_with (map rev space_runes) (rev s) = rev s"
  proof (rule trim_with_id)
    fix r assume "r \<in> set (map rev space_runes)" "r \<noteq> []"
    then obtain q where q: "q \<in> set space_runes" "r = rev q" "q \<noteq> []" by auto
    have "visible (rev s)" using s by (simp add: visible_def)
    with q show "\<not> prefix r (rev s)"
      using visible_prefix [of "rev s" r] space_runes_invisible [OF q(1)] by (auto simp: hd_rev)
  qed
  ultimately show ?thesis by (simp add: TrimSpace_def)
qed

section \<open>Searching and splitting at a byte\<close>

definition str_contains :: "string \<Rightarrow> char \<Rightarrow> bool" where
  "str_contains s c \<longleftrightarrow> c \<in> set s"

definition before_first :: "char \<Rightarrow> string \<Rightarrow> string" where
  "before_first d s = takeWhile (\<lambda>c. c \<noteq> d) s"

definition after_first :: "char \<Rightarrow> string \<Rightarrow> string" where
  "after_first d s = tl (dropWhile (\<lambda>c. c \<noteq> d) s)"

definition before_last :: "char \<Rightarrow> string \<Rightarrow> string" where
  "before_last d s = rev (tl (dropWhile (\<lambda>c. c \<noteq> d) (rev s)))"

definition after_last :: "char \<Rightarrow> string \<Rightarrow> string" where
  "after_last d s = rev (takeWhile (\<lambda>c. c \<noteq> d) (rev s))"

fun Split :: "char \<Rightarrow> string \<Rightarrow> string list" where
  "Split d [] = [[]]"
| "Split d (c # cs) =
     (if c = d then [] # Split d cs
      else case Split d cs of [] \<Rightarrow> [[c]] | w # ws \<Rightarrow> (c # w) # ws)"

fun Join :: "string \<Rightarrow> string list \<Rightarrow> string" where
  "Join sep [] = []"
| "Join sep [w] = w"
| "Join sep (w # ws) = w @ sep @ Join sep ws"

lemma Split_not_Nil [simp]: "Split d s \<noteq> []"
  by (induction s) (auto split: list.splits)

lemma Split_no_sep: "w \<in> set (Split d s) \<Longrightarrow> d \<notin> set w"
  by (induction s arbitrary: w) (auto split: if_splits list.splits)

lemma set_Split: "w \<in> set (Split d s) \<Longrightarrow> set w \<subseteq> set s"
  by (induction s arbitrary: w) (fastforce split: if_splits list.splits)+

lemma Split_single [go_str]: "d \<notin> set s \<Longrightarrow> Split d s = [s]"
  by (induction s) auto

lemma Split_append_sep [go_str]: "d \<notin> set w \<Longrightarrow> Split d (w @ d # s) = w # Split d s"
  by (induction w) auto

lemma Split_Join:
  assumes "ws \<noteq> []" and "\<And>w. w \<in> set ws \<Longrightarrow> d \<notin> set w"
  shows "Split d (Join [d] ws) = ws"
  using assms
proof (induction "[d]" ws rule: Join.induct)
  case (3 w v vs)
  then show ?case by (simp add: Split_append_sep)
qed (auto simp: Split_single)

lemma takeWhile_until: "d \<notin> set xs \<Longrightarrow> takeWhile (\<lambda>c. c \<noteq> d) (xs @ d # ys) = xs"
  by (induction xs) auto

lemma dropWhile_until: "d \<notin> set xs \<Longrightarrow> dropWhile (\<lambda>c. c \<noteq> d) (xs @ d # ys) = d # ys"
  by (induction xs) auto

lemma before_first_id: "d \<notin> set s \<Longrightarrow> before_first d s = s"
  unfolding before_first_def by (induction s) auto

lemma before_first_after_first: "d \<in> set s \<Longrightarrow> before_first d s @ d # after_first d s = s"
  unfolding before_first_def after_first_def by (induction s) auto

lemma set_before_first: "set (before_first d s) \<subseteq> set s - {d}"
  unfolding before_first_def by (induction s) auto

lemma before_last_after_last:
  assumes "d \<in> set s" shows "before_last d s @ d # after_last d s = s"
proof -
  let ?D = "dropWhile (\<lambda>c. c \<noteq> d) (rev s)"
  have ne: "?D \<noteq> []" using assms by (simp add: dropWhile_eq_Nil_conv)
  then have "hd ?D = d" using hd_dropWhile [of "\<lambda>c. c \<noteq> d" "rev s"] by blast
  with ne have "?D = d # tl ?D" by (metis list.collapse)
  then have "takeWhile (\<lambda>c. c \<noteq> d) (rev s) @ d # tl ?D = rev s"
    by (metis takeWhile_dropWhile_id)
  from arg_cong [OF this, of rev] show ?thesis
    by (simp add: before_last_def after_last_def)
qed

end
