(* ===== verification/Env_Config.thy ===== *)
theory Env_Config
  imports Go_Strings
begin

text \<open>
  Environment switches: \<^verbatim>\<open>env_bool.go\<close> (boolean knobs), \<^verbatim>\<open>hours_env.go\<close> (intervals in hours),
  the read-only switch's parser and the keepalive interval. \<^verbatim>\<open>getenv\<close> is an argument, as it is in
  the source. The text of an error message is not modelled: an error is a value naming the
  variable and the value that could not be read.
\<close>

datatype env_error =
    NotBoolean string string
  | BadHours string string
  | HoursTooLarge string string
  | HoursAboveMax string string int

section \<open>strconv\<close>

fun digits_acc :: "nat \<Rightarrow> string \<Rightarrow> nat option" where
  "digits_acc acc [] = Some acc"
| "digits_acc acc (c # cs) =
     (if is_digit c then digits_acc (10 * acc + (of_char c - 48)) cs else None)"

definition digits_value :: "string \<Rightarrow> nat option" where
  "digits_value s = (if s = [] then None else digits_acc 0 s)"

text \<open>\<^verbatim>\<open>strconv.ParseUint(s, 10, bits)\<close>: digits only, no sign, an error out of range.\<close>

definition ParseUint :: "nat \<Rightarrow> string \<Rightarrow> nat option" where
  "ParseUint bits s =
     (case digits_value s of Some n \<Rightarrow> if n < 2 ^ bits then Some n else None | None \<Rightarrow> None)"

text \<open>\<^verbatim>\<open>strconv.Atoi\<close> and \<^verbatim>\<open>strconv.ParseInt(s, 10, 64)\<close>: one optional sign, then digits, in the
  range of a 64-bit integer.\<close>

definition Atoi :: "string \<Rightarrow> int option" where
  "Atoi s =
     (let neg = (s \<noteq> [] \<and> hd s = CHR ''-'');
          digits = (if s \<noteq> [] \<and> (hd s = CHR ''-'' \<or> hd s = CHR ''+'') then tl s else s)
      in case digits_value digits of
           None \<Rightarrow> None
         | Some n \<Rightarrow>
             let v = (if neg then - int n else int n)
             in if - max_int64 - 1 \<le> v \<and> v \<le> max_int64 then Some v else None)"

lemma Atoi_range: "Atoi s = Some v \<Longrightarrow> - max_int64 - 1 \<le> v \<and> v \<le> max_int64"
  by (auto simp: Atoi_def Let_def split: option.splits if_splits)

lemma ParseUint_range: "ParseUint bits s = Some n \<Longrightarrow> n < 2 ^ bits"
  by (auto simp: ParseUint_def split: option.splits if_splits)

section \<open>Boolean switches\<close>

definition boolTrue :: "string list" where
  "boolTrue = [''1'', ''true'', ''yes'', ''on'']"

definition boolFalse :: "string list" where
  "boolFalse = [''0'', ''false'', ''no'', ''off'']"

definition parseBoolEnv :: "string \<Rightarrow> string \<Rightarrow> bool \<Rightarrow> bool \<times> env_error option" where
  "parseBoolEnv name raw def =
     (let v = ToLower (TrimSpace raw)
      in if v = [] then (def, None)
         else if v \<in> set boolTrue then (True, None)
         else if v \<in> set boolFalse then (False, None)
         else (def, Some (NotBoolean name raw)))"

definition forwardSelfEnv :: string where "forwardSelfEnv = ''FORWARD_SELF''"
definition mediaAutoDownloadEnv :: string where "mediaAutoDownloadEnv = ''WHATSAPP_MEDIA_AUTODOWNLOAD''"
definition webhookEnabledEnv :: string where "webhookEnabledEnv = ''WEBHOOK_ENABLED''"
definition metricsEnv :: string where "metricsEnv = ''WHATSAPP_METRICS''"
definition webhookForwardStatusEnv :: string where "webhookForwardStatusEnv = ''WEBHOOK_FORWARD_STATUS''"
definition webhookForwardChannelsEnv :: string where
  "webhookForwardChannelsEnv = ''WEBHOOK_FORWARD_CHANNELS''"
definition webhookForwardBroadcastsEnv :: string where
  "webhookForwardBroadcastsEnv = ''WEBHOOK_FORWARD_BROADCASTS''"
definition webhookForwardConnectionEnv :: string where
  "webhookForwardConnectionEnv = ''WEBHOOK_FORWARD_CONNECTION_EVENTS''"

record bridgeSwitchPresence =
  exForwardSelf :: bool
  exForwardChannels :: bool
  exForwardBroadcasts :: bool
  exForwardConnection :: bool

record bridgeSwitches =
  Explicit :: bridgeSwitchPresence
  ForwardSelf :: bool
  MediaAutoDownload :: bool
  WebhookEnabled :: bool
  Metrics :: bool
  ForwardStatus :: bool
  ForwardChannels :: bool
  ForwardBroadcasts :: bool
  ForwardConnection :: bool

definition zero_switches :: bridgeSwitches where
  "zero_switches =
     \<lparr>Explicit = \<lparr>exForwardSelf = False, exForwardChannels = False,
                  exForwardBroadcasts = False, exForwardConnection = False\<rparr>,
      ForwardSelf = False, MediaAutoDownload = False, WebhookEnabled = False, Metrics = False,
      ForwardStatus = False, ForwardChannels = False, ForwardBroadcasts = False,
      ForwardConnection = False\<rparr>"

text \<open>The table the loop of \<^verbatim>\<open>parseBridgeSwitches\<close> runs over: each variable and its default.\<close>

definition switch_table :: "(string \<times> bool) list" where
  "switch_table =
     [(forwardSelfEnv, True), (mediaAutoDownloadEnv, True), (webhookEnabledEnv, True),
      (metricsEnv, True), (webhookForwardStatusEnv, False), (webhookForwardChannelsEnv, False),
      (webhookForwardBroadcastsEnv, False), (webhookForwardConnectionEnv, False)]"

definition switch_errors :: "(string \<Rightarrow> string) \<Rightarrow> env_error list" where
  "switch_errors getenv =
     List.map_filter (\<lambda>(name, def). snd (parseBoolEnv name (getenv name) def)) switch_table"

definition parseBridgeSwitches ::
    "(string \<Rightarrow> string) \<Rightarrow> bridgeSwitches \<times> env_error list" where
  "parseBridgeSwitches getenv =
     (let val = (\<lambda>name def. fst (parseBoolEnv name (getenv name) def));
          explicit = (\<lambda>name. TrimSpace (getenv name) \<noteq> []);
          unreadable = switch_errors getenv
      in if unreadable \<noteq> [] then (zero_switches, unreadable)
         else
           (\<lparr>Explicit =
               \<lparr>exForwardSelf = explicit forwardSelfEnv,
                exForwardChannels = explicit webhookForwardChannelsEnv,
                exForwardBroadcasts = explicit webhookForwardBroadcastsEnv,
                exForwardConnection = explicit webhookForwardConnectionEnv\<rparr>,
             ForwardSelf = val forwardSelfEnv True,
             MediaAutoDownload = val mediaAutoDownloadEnv True,
             WebhookEnabled = val webhookEnabledEnv True,
             Metrics = val metricsEnv True,
             ForwardStatus = val webhookForwardStatusEnv False,
             ForwardChannels = val webhookForwardChannelsEnv False,
             ForwardBroadcasts = val webhookForwardBroadcastsEnv False,
             ForwardConnection = val webhookForwardConnectionEnv False\<rparr>, []))"

lemma parseBoolEnv_accepts:
  "snd (parseBoolEnv name raw def) = None \<longleftrightarrow>
     ToLower (TrimSpace raw) \<in> set ([] # boolTrue @ boolFalse)"
  by (auto simp: parseBoolEnv_def Let_def)

lemma parseBoolEnv_True_default_False:
  "parseBoolEnv name raw False = (True, e) \<longleftrightarrow> ToLower (TrimSpace raw) \<in> set boolTrue \<and> e = None"
  by (auto simp: parseBoolEnv_def Let_def boolTrue_def boolFalse_def)

section \<open>Hours\<close>

definition resolveHoursEnv ::
    "string \<Rightarrow> string \<Rightarrow> duration \<Rightarrow> int \<Rightarrow> env_error + duration" where
  "resolveHoursEnv env value def maxHours =
     (let v = TrimSpace value
      in if v = [] then Inr def
         else case Atoi v of
             None \<Rightarrow> Inl (BadHours env value)
           | Some hours \<Rightarrow>
               if hours < 0 then Inl (BadHours env value)
               else if hours > max_int64 div hour then Inl (HoursTooLarge env value)
               else if maxHours > 0 \<and> hours > maxHours then Inl (HoursAboveMax env value maxHours)
               else Inr (hours * hour))"

definition sessionKeepaliveEnv :: string where
  "sessionKeepaliveEnv = ''WHATSAPP_SESSION_KEEPALIVE_HOURS''"

definition sessionKeepaliveInterval :: duration where
  "sessionKeepaliveInterval = 12 * hour"

definition sessionKeepaliveMaxHours :: int where
  "sessionKeepaliveMaxHours = 7 * 24"

definition resolveSessionKeepalive :: "string \<Rightarrow> env_error + duration" where
  "resolveSessionKeepalive value =
     resolveHoursEnv sessionKeepaliveEnv value sessionKeepaliveInterval sessionKeepaliveMaxHours"

lemma resolveHoursEnv_value:
  assumes "resolveHoursEnv env value def maxHours = Inr d" and "TrimSpace value \<noteq> []"
  obtains h where "Atoi (TrimSpace value) = Some h" "0 \<le> h" "d = h * hour" "d \<le> max_int64"
    "maxHours > 0 \<Longrightarrow> h \<le> maxHours"
proof -
  from assms obtain h where h: "Atoi (TrimSpace value) = Some h" "0 \<le> h" "d = h * hour"
      "h \<le> max_int64 div hour" "maxHours > 0 \<Longrightarrow> h \<le> maxHours"
    by (fastforce simp: resolveHoursEnv_def Let_def split: option.splits if_splits)
  have "h * hour \<le> max_int64"
    using h(4) by (simp add: time_unit_defs)
  with h that show thesis by blast
qed

section \<open>The read-only switch\<close>

record readOnlyPolicy = ro_enabled :: bool

definition readOnlyEnv :: string where "readOnlyEnv = ''WHATSAPP_READ_ONLY''"

definition parseReadOnly :: "string \<Rightarrow> readOnlyPolicy \<times> env_error option" where
  "parseReadOnly raw =
     (let (enabled, err) = parseBoolEnv readOnlyEnv raw False in (\<lparr>ro_enabled = enabled\<rparr>, err))"

section \<open>Properties\<close>

text \<open>The shared boolean parser is strict: a switch is read as on exactly for
  1/true/yes/on, as off exactly for 0/false/no/off, as its default exactly for an empty or blank
  value, in any case and with surrounding white space ignored; every other value is an error.\<close>

lemma parseBoolEnv_strict:
  "parseBoolEnv name raw def =
     (if TrimSpace raw = [] then (def, None)
      else if ToLower (TrimSpace raw) \<in> {''1'', ''true'', ''yes'', ''on''} then (True, None)
      else if ToLower (TrimSpace raw) \<in> {''0'', ''false'', ''no'', ''off''} then (False, None)
      else (def, Some (NotBoolean name raw)))"
  by (auto simp: parseBoolEnv_def Let_def boolTrue_def boolFalse_def ToLower_def)

text \<open>All switches are read together: startup succeeds exactly when every one of the eight
  variables is readable, every unreadable variable is reported (not only the first), and on an
  error no partly read configuration escapes.\<close>

lemma parseBridgeSwitches_all_or_errors:
  "(snd (parseBridgeSwitches getenv) = [] \<longleftrightarrow>
      (\<forall>(name, def) \<in> set switch_table. snd (parseBoolEnv name (getenv name) def) = None))
   \<and> set (snd (parseBridgeSwitches getenv)) =
        {e. \<exists>(name, def) \<in> set switch_table. snd (parseBoolEnv name (getenv name) def) = Some e}
   \<and> (snd (parseBridgeSwitches getenv) \<noteq> [] \<longrightarrow> fst (parseBridgeSwitches getenv) = zero_switches)"
proof -
  let ?f = "\<lambda>(name, def). snd (parseBoolEnv name (getenv name) def)"
  have errs: "snd (parseBridgeSwitches getenv) = switch_errors getenv"
    by (simp add: parseBridgeSwitches_def Let_def)
  have mem: "set (switch_errors getenv) = {e. \<exists>x \<in> set switch_table. ?f x = Some e}"
    unfolding switch_errors_def by (rule set_map_filter_ex)
  have nil: "switch_errors getenv = [] \<longleftrightarrow> (\<forall>x \<in> set switch_table. ?f x = None)"
    unfolding switch_errors_def by (rule map_filter_Nil_iff)
  have zero: "switch_errors getenv \<noteq> [] \<longrightarrow> fst (parseBridgeSwitches getenv) = zero_switches"
    by (simp add: parseBridgeSwitches_def Let_def)
  show ?thesis
    unfolding errs case_prod_unfold
    by (intro conjI nil [unfolded case_prod_unfold] mem [unfolded case_prod_unfold] zero)
qed

theorem parseBridgeSwitches_witness:
  "snd (parseBridgeSwitches (\<lambda>n. if n = metricsEnv then ''fasle'' else '''')) \<noteq> []
   \<and> fst (parseBridgeSwitches (\<lambda>n. if n = metricsEnv then ''fasle'' else '''')) = zero_switches"
proof -
  let ?env = "\<lambda>n. if n = metricsEnv then ''fasle'' else ''''"
  have "(metricsEnv, True) \<in> set switch_table"
    by (simp add: switch_table_def)
  moreover have "snd (parseBoolEnv metricsEnv (?env metricsEnv) True)
      = Some (NotBoolean metricsEnv ''fasle'')"
    by code_simp
  ultimately have "NotBoolean metricsEnv ''fasle'' \<in> set (snd (parseBridgeSwitches ?env))"
    using parseBridgeSwitches_all_or_errors [of ?env] by blast
  then show ?thesis
    using parseBridgeSwitches_all_or_errors [of ?env] by fastforce
qed

text \<open>An accepted interval never overflows a duration and never exceeds its limit: the
  keepalive interval is the default for a blank value, and otherwise a whole number of hours
  between 0 and a week, exactly the number written.\<close>

lemma resolveSessionKeepalive_bounds:
  assumes "resolveSessionKeepalive value = Inr d"
  shows "0 \<le> d \<and> d \<le> 7 * 24 * hour \<and>
     (if TrimSpace value = [] then d = 12 * hour
      else \<exists>h. Atoi (TrimSpace value) = Some h \<and> 0 \<le> h \<and> h \<le> 168 \<and> d = h * hour)"
proof (cases "TrimSpace value = []")
  case True
  with assms show ?thesis
    by (simp add: resolveSessionKeepalive_def resolveHoursEnv_def sessionKeepaliveInterval_def
        time_unit_defs)
next
  case False
  from assms [unfolded resolveSessionKeepalive_def] False
  obtain h where "Atoi (TrimSpace value) = Some h" "0 \<le> h" "d = h * hour" "h \<le> 168"
    by (rule resolveHoursEnv_value) (auto simp: sessionKeepaliveMaxHours_def)
  with False show ?thesis by (auto simp: time_unit_defs)
qed

theorem resolveSessionKeepalive_witness:
  "resolveSessionKeepalive '' 24 '' = Inr (24 * hour) \<and> (24::int) * hour \<le> 7 * 24 * hour"
proof -
  have "resolveSessionKeepalive '' 24 '' = Inr (24 * hour)"
    by (simp add: time_unit_defs) code_simp
  then show ?thesis using resolveSessionKeepalive_bounds [of "'' 24 ''" "24 * hour"] by simp
qed

end
