(* ===== verification/Rest_Guards.thy ===== *)
theory Rest_Guards
  imports Env_Config
begin

text \<open>
  The request pipeline in front of every REST endpoint: the JSON error shape and
  \<^verbatim>\<open>requireMethod\<close> (\<^verbatim>\<open>rest_middleware.go\<close>), the Host allow-list (\<^verbatim>\<open>rest_bind.go\<close>), the bearer
  token (\<^verbatim>\<open>auth.go\<close>) and the read-only refusal (\<^verbatim>\<open>read_only.go\<close>). A handler is a function of the
  request and of the state it may change; a wrapper that answers without calling it leaves that
  state alone, which is what the locale \<open>request_guard\<close> says once for all of them.
\<close>

record 'c request =
  rq_method :: string
  rq_path :: string
  rq_host :: string
  rq_authorization :: string
  rq_ctx :: 'c  \<comment> \<open>the values a guard stores in the request's context\<close>

datatype response =
    ErrorResponse nat string string  \<comment> \<open>status, \<^verbatim>\<open>error.code\<close>, message\<close>
  | OkResponse nat string

type_synonym ('c, 's) handler = "'c request \<Rightarrow> 's \<Rightarrow> response \<times> 's"

definition errorCode :: "nat \<Rightarrow> string" where
  "errorCode status =
     (if status = 400 \<or> status = 405 then ''invalid_argument''
      else if status = 403 \<or> status = 401 then ''denied''
      else if status = 404 then ''not_found''
      else if status = 502 \<or> status = 503 then ''bridge_unavailable''
      else ''internal'')"

definition writeErrorCode :: "nat \<Rightarrow> string \<Rightarrow> string \<Rightarrow> response" where
  "writeErrorCode status code message = ErrorResponse status code message"

definition writeError :: "nat \<Rightarrow> string \<Rightarrow> response" where
  "writeError status message = writeErrorCode status (errorCode status) message"

fun status_of :: "response \<Rightarrow> nat" where
  "status_of (ErrorResponse s _ _) = s"
| "status_of (OkResponse s _) = s"

section \<open>The interface of a guard\<close>

text \<open>A guard decides from the request alone whether it answers itself. If it does, the wrapped
  handler is not called and the state is untouched; otherwise the handler sees the request, with
  whatever the guard pinned into its context.\<close>

locale request_guard =
  fixes guard :: "('c, 's) handler \<Rightarrow> ('c, 's) handler"
    and refusal :: "'c request \<Rightarrow> response option"
    and pinned :: "'c request \<Rightarrow> 'c request"
  assumes guard_refuses: "refusal r = Some e \<Longrightarrow> guard h r st = (e, st)"
    and guard_passes: "refusal r = None \<Longrightarrow> guard h r st = h (pinned r) st"
begin

lemma refused_keeps_state: "refusal r \<noteq> None \<Longrightarrow> snd (guard h r st) = st"
  by (auto simp: guard_refuses)

lemma effect_needs_pass: "snd (guard h r st) \<noteq> st \<Longrightarrow> refusal r = None"
  using refused_keeps_state by blast

lemma guard_eq: "guard h r st = (case refusal r of Some e \<Rightarrow> (e, st) | None \<Rightarrow> h (pinned r) st)"
  by (simp add: guard_refuses guard_passes split: option.split)

end

text \<open>Guards compose: the outer one answers first, and only a request it passes reaches the
  inner one.\<close>

lemma request_guard_compose:
  assumes "request_guard g1 ref1 pin1" and "request_guard g2 ref2 pin2"
  shows "request_guard (g1 \<circ> g2)
     (\<lambda>r. case ref1 r of Some e \<Rightarrow> Some e | None \<Rightarrow> ref2 (pin1 r)) (pin2 \<circ> pin1)"
  using assms
  by (intro request_guard.intro) (auto simp: request_guard_def split: option.splits)

section \<open>Methods\<close>

definition requireMethod :: "string \<Rightarrow> ('c, 's) handler \<Rightarrow> ('c, 's) handler" where
  "requireMethod m h = (\<lambda>r st.
     if rq_method r \<noteq> m then (writeError 405 (''method not allowed; use '' @ m), st) else h r st)"

interpretation meth: request_guard "requireMethod m"
    "\<lambda>r. if rq_method r \<noteq> m then Some (writeError 405 (''method not allowed; use '' @ m)) else None"
    "\<lambda>r. r"
  for m
  by unfold_locales (auto simp: requireMethod_def split: if_splits)

section \<open>The Host allow-list\<close>

record hostAllowList =
  hal_any :: bool
  hal_exact :: "string set"
  hal_hosts :: "string set"

fun dec :: "nat \<Rightarrow> string" where
  "dec n = (if n < 10 then [char_of (48 + n)] else dec (n div 10) @ [char_of (48 + n mod 10)])"

declare dec.simps [simp del]

definition buildAllowedHosts :: "nat \<Rightarrow> string set" where
  "buildAllowedHosts port =
     {''127.0.0.1:'' @ dec port, ''localhost:'' @ dec port, ''[::1]:'' @ dec port}"

text \<open>\<^verbatim>\<open>net.SplitHostPort\<close>: the host, or \<^term>\<open>None\<close> where the library returns an error.\<close>

definition SplitHostPort :: "string \<Rightarrow> string option" where
  "SplitHostPort s =
     (if CHR '':'' \<notin> set s then None
      else if s \<noteq> [] \<and> hd s = CHR ''['' then
        (if CHR '']'' \<notin> set s then None
         else let inner = before_first CHR '']'' (tl s); rest = after_first CHR '']'' s
              in if rest = [] \<or> hd rest \<noteq> CHR '':'' \<or> CHR '':'' \<in> set (tl rest) then None
                 else if CHR ''['' \<in> set (tl s) \<or> CHR '']'' \<in> set rest then None
                 else Some inner)
      else let host = before_last CHR '':'' s
           in if CHR '':'' \<in> set host then None
              else if CHR ''['' \<in> set s \<or> CHR '']'' \<in> set s then None
              else Some host)"

definition trim_brackets :: "string \<Rightarrow> string" where
  "trim_brackets s =
     (let t = (if s \<noteq> [] \<and> hd s = CHR ''['' then tl s else s)
      in if t \<noteq> [] \<and> last t = CHR '']'' then butlast t else t)"

text \<open>\<^verbatim>\<open>buildHostAllowList\<close> without its log warning: the loop over the entries stops at the first
  \<^verbatim>\<open>*\<close>.\<close>

fun add_host_entries :: "hostAllowList \<Rightarrow> string list \<Rightarrow> hostAllowList" where
  "add_host_entries l [] = l"
| "add_host_entries l (e # es) =
     (if e = ''*'' then l\<lparr>hal_any := True\<rparr>
      else if SplitHostPort e \<noteq> None
        then add_host_entries (l\<lparr>hal_exact := insert e (hal_exact l)\<rparr>) es
      else add_host_entries (l\<lparr>hal_hosts := insert (trim_brackets e) (hal_hosts l)\<rparr>) es)"

definition host_entries :: "string \<Rightarrow> string list" where
  "host_entries allowedHosts =
     filter (\<lambda>e. e \<noteq> []) (map (\<lambda>raw. ToLower (TrimSpace raw)) (Split CHR '','' allowedHosts))"

definition buildHostAllowList :: "nat \<Rightarrow> string \<Rightarrow> hostAllowList" where
  "buildHostAllowList port allowedHosts =
     add_host_entries \<lparr>hal_any = False, hal_exact = buildAllowedHosts port, hal_hosts = {}\<rparr>
       (host_entries allowedHosts)"

definition host_allows :: "hostAllowList \<Rightarrow> string \<Rightarrow> bool" where
  "host_allows l host =
     (if hal_any l then True
      else let h = ToLower (TrimSpace host)
           in if h = [] then False
              else if h \<in> hal_exact l then True
              else let name = (case SplitHostPort h of Some hp \<Rightarrow> hp | None \<Rightarrow> h)
                   in trim_brackets name \<in> hal_hosts l)"

lemma add_host_entries_closed:
  assumes "''*'' \<notin> set es"
  shows "hal_any (add_host_entries l es) = hal_any l"
    and "hal_exact (add_host_entries l es) = hal_exact l \<union> {e \<in> set es. SplitHostPort e \<noteq> None}"
    and "hal_hosts (add_host_entries l es)
       = hal_hosts l \<union> trim_brackets ` {e \<in> set es. SplitHostPort e = None}"
  using assms by (induction l es rule: add_host_entries.induct) auto

section \<open>Bearer token\<close>

definition validateBridgeToken :: "string \<Rightarrow> bool" where
  "validateBridgeToken raw \<longleftrightarrow> \<not> (TrimSpace raw \<noteq> [] \<and> length (TrimSpace raw) < 16)"

definition checkBearerToken :: "string \<Rightarrow> string \<Rightarrow> bool" where
  "checkBearerToken authHeader expected =
     (if \<not> prefix ''Bearer '' authHeader then False
      else let got = TrimSpace (drop (length ''Bearer '') authHeader)
           in if length got \<noteq> length expected then False else got = expected)"

definition withAuth :: "string \<Rightarrow> hostAllowList \<Rightarrow> ('c, 's) handler \<Rightarrow> ('c, 's) handler" where
  "withAuth token allowedHosts h = (\<lambda>r st.
     if \<not> host_allows allowedHosts (rq_host r)
       then (writeError 403 ''Forbidden: host not allowed'', st)
     else if \<not> checkBearerToken (rq_authorization r) token
       then (writeError 401 ''Unauthorized'', st)
     else h r st)"

definition auth_refusal :: "string \<Rightarrow> hostAllowList \<Rightarrow> 'c request \<Rightarrow> response option" where
  "auth_refusal token hosts r =
     (if \<not> host_allows hosts (rq_host r) then Some (writeError 403 ''Forbidden: host not allowed'')
      else if \<not> checkBearerToken (rq_authorization r) token then Some (writeError 401 ''Unauthorized'')
      else None)"

interpretation auth: request_guard "withAuth token hosts" "auth_refusal token hosts" "\<lambda>r. r"
  for token hosts
  by unfold_locales (auto simp: withAuth_def auth_refusal_def split: if_splits)

section \<open>Read-only\<close>

definition ro_guard :: "readOnlyPolicy \<Rightarrow> ('c, 's) handler \<Rightarrow> ('c, 's) handler" where
  "ro_guard p h =
     (if \<not> ro_enabled p then h
      else (\<lambda>r st. (writeError 403 (rq_path r @ '' is disabled: '' @ readOnlyEnv @
          '' is set, so this bridge may read WhatsApp but not act on it''), st)))"

definition ro_refusal :: "readOnlyPolicy \<Rightarrow> 'c request \<Rightarrow> response option" where
  "ro_refusal p r =
     (if ro_enabled p then Some (writeError 403 (rq_path r @ '' is disabled: '' @ readOnlyEnv @
          '' is set, so this bridge may read WhatsApp but not act on it'')) else None)"

interpretation read_only: request_guard "ro_guard p" "ro_refusal p" "\<lambda>r. r" for p
  by unfold_locales (auto simp: ro_guard_def ro_refusal_def split: if_splits)

section \<open>Properties\<close>

text \<open>Without a \<^verbatim>\<open>*\<close> entry the Host check closes DNS rebinding: a request is admitted
  exactly when its Host header, trimmed and lower-cased, is one of the three loopback spellings
  with the bridge's port, is literally a listed \<^verbatim>\<open>host:port\<close> entry, or names (with any port or
  none) a listed bare host.\<close>

lemma host_allow_list_exact:
  assumes "''*'' \<notin> set (host_entries allowed)"
  shows "host_allows (buildHostAllowList port allowed) host \<longleftrightarrow>
    (let h = ToLower (TrimSpace host);
         name = trim_brackets (case SplitHostPort h of Some hp \<Rightarrow> hp | None \<Rightarrow> h)
     in h \<noteq> [] \<and>
        (h \<in> {''127.0.0.1:'' @ dec port, ''localhost:'' @ dec port, ''[::1]:'' @ dec port}
         \<or> h \<in> set (host_entries allowed) \<and> SplitHostPort h \<noteq> None
         \<or> (\<exists>e \<in> set (host_entries allowed). SplitHostPort e = None \<and> name = trim_brackets e)))"
  using add_host_entries_closed [OF assms]
  by (auto simp: host_allows_def buildHostAllowList_def buildAllowedHosts_def Let_def)

theorem host_allow_list_witness:
  "''*'' \<notin> set (host_entries ''box.local'')
   \<and> host_allows (buildHostAllowList 8080 ''box.local'') ''Box.local:9''
   \<and> \<not> host_allows (buildHostAllowList 8080 ''box.local'') ''evil.example:8080''"
proof -
  have e: "host_entries ''box.local'' = [''box.local'']" by code_simp
  then have s: "''*'' \<notin> set (host_entries ''box.local'')" by simp
  have "ToLower (TrimSpace ''Box.local:9'') = ''box.local:9''"
    "SplitHostPort ''box.local:9'' = Some ''box.local''" "SplitHostPort ''box.local'' = None"
    "ToLower (TrimSpace ''evil.example:8080'') = ''evil.example:8080''"
    "SplitHostPort ''evil.example:8080'' = Some ''evil.example''"
    "trim_brackets ''evil.example'' = ''evil.example''" "trim_brackets ''box.local'' = ''box.local''"
    by code_simp+
  with s show ?thesis
    by (simp only: host_allow_list_exact [OF s]) (simp add: e Let_def)
qed

text \<open>Authentication is complete: behind \<^verbatim>\<open>withAuth\<close> the handler runs exactly for requests
  whose Host is allowed and whose Authorization header is \<^verbatim>\<open>Bearer\<close> followed by the configured
  token; a wrong Host is answered 403 before the token is looked at, a wrong token 401, and in
  both cases nothing changes.\<close>

lemma withAuth_complete:
  "withAuth token hosts h r st =
     (if \<not> host_allows hosts (rq_host r) then (ErrorResponse 403 ''denied'' ''Forbidden: host not allowed'', st)
      else if \<exists>t. rq_authorization r = ''Bearer '' @ t \<and> TrimSpace t = token then h r st
      else (ErrorResponse 401 ''denied'' ''Unauthorized'', st))"
proof -
  have tok: "checkBearerToken hdr token \<longleftrightarrow> (\<exists>t. hdr = ''Bearer '' @ t \<and> TrimSpace t = token)" for hdr
    by (auto simp: checkBearerToken_def Let_def prefix_def)
  show ?thesis
    unfolding auth.guard_eq auth_refusal_def tok
    by (auto simp: writeError_def writeErrorCode_def errorCode_def)
qed

end
