(* ===== verification/Tool_Policy.thy ===== *)
theory Tool_Policy
  imports Rest_Guards "HOL-Library.List_Lexorder"
begin

text \<open>
  The per-tool allow and deny lists (\<^verbatim>\<open>tool_policy.go\<close>). Sets of tool names are the Go maps
  \<^verbatim>\<open>map[string]bool\<close>; refusal messages are the source's, since \<^verbatim>\<open>refusal\<close> uses the empty message
  to mean that the request may proceed. The startup log line (\<^verbatim>\<open>Summary\<close>) is not modelled.
\<close>

definition allowToolsEnv :: string where "allowToolsEnv = ''WHATSAPP_ALLOW_TOOLS''"
definition denyToolsEnv :: string where "denyToolsEnv = ''WHATSAPP_DENY_TOOLS''"

definition endpointTools :: "(string \<times> string list) list" where
  "endpointTools =
    [(''/api/send'', [''send_message'', ''send_file'', ''send_audio_message'']),
     (''/api/react'', [''send_reaction'']),
     (''/api/typing'', [''send_typing'']),
     (''/api/mark-read'', [''mark_messages_read'']),
     (''/api/chat/label'', [''label_chat'']),
     (''/api/chat/archive'', [''archive_chat'']),
     (''/api/delete'', [''delete_message'']),
     (''/api/edit'', [''edit_message'']),
     (''/api/forward'', [''forward_message'']),
     (''/api/group/participants'', [''manage_group_participants'']),
     (''/api/group/subject'', [''update_group'']),
     (''/api/group/invite'', [''get_group_invite_link'']),
     (''/api/group/leave'', [''leave_group'']),
     (''/api/media/purge'', [''purge_media'']),
     (''/api/history'', [''request_history''])]"

definition unenforcedTools :: "string list" where
  "unenforcedTools =
    [''annotate'', ''annotate_media'', ''bridge_status'', ''clear_media_refusal'', ''compact'',
     ''coverage'', ''download_media'', ''export_messages'', ''get_chat'', ''get_contact'',
     ''get_contact_chats'', ''get_direct_chat_by_contact'', ''get_last_interaction'',
     ''get_media_notes'', ''get_media_stats'', ''get_message_context'', ''get_notes'',
     ''get_poll_results'', ''list_labels'', ''list_chats'', ''list_group_members'', ''list_media'',
     ''list_messages'', ''list_unanswered'', ''list_unread'', ''mark_handled'', ''message_stats'',
     ''read_media'', ''search_contacts'', ''search_media_notes'', ''search_notes'', ''snooze'',
     ''transcribe_audio'']"

record toolPolicy =
  tp_allow :: "string set"
  tp_deny :: "string set"
  tp_allowLabel :: string
  tp_denyLabels :: "string \<rightharpoonup> string"

definition zero_toolPolicy :: toolPolicy where
  "zero_toolPolicy = \<lparr>tp_allow = {}, tp_deny = {}, tp_allowLabel = [], tp_denyLabels = Map.empty\<rparr>"

definition knownTools :: "string set" where
  "knownTools = set unenforcedTools \<union> (\<Union>(_, tools) \<in> set endpointTools. set tools)"

definition parseToolList :: "string \<Rightarrow> string set" where
  "parseToolList raw = set (filter (\<lambda>item. item \<noteq> []) (map TrimSpace (Split CHR '','' raw)))"

definition sortedNames :: "string set \<Rightarrow> string list" where
  "sortedNames names = sorted_list_of_set names"

datatype tool_error = UnknownTools "(string \<times> string list) list"

definition unknown_tools :: "string set \<Rightarrow> string list" where
  "unknown_tools names = filter (\<lambda>name. name \<notin> knownTools) (sortedNames names)"

definition newToolPolicy :: "string \<Rightarrow> string \<Rightarrow> tool_error + toolPolicy" where
  "newToolPolicy allowRaw denyRaw =
     (let p = zero_toolPolicy\<lparr>tp_allow := parseToolList allowRaw, tp_deny := parseToolList denyRaw\<rparr>;
          problems = filter (\<lambda>(_, unknown). unknown \<noteq> [])
            [(allowToolsEnv, unknown_tools (tp_allow p)), (denyToolsEnv, unknown_tools (tp_deny p))]
      in if problems \<noteq> [] then Inl (UnknownTools problems) else Inr p)"

definition tp_restricted :: "toolPolicy \<Rightarrow> bool" where
  "tp_restricted p \<longleftrightarrow> tp_allow p \<noteq> {} \<or> tp_deny p \<noteq> {}"

definition allowsTool :: "toolPolicy \<Rightarrow> string \<Rightarrow> bool" where
  "allowsTool p name =
     (if name \<in> tp_deny p then False else tp_allow p = {} \<or> name \<in> tp_allow p)"

text \<open>The reason given for one blocked tool; a missing or empty deny label keeps the default.\<close>

definition deny_reason :: "toolPolicy \<Rightarrow> string \<Rightarrow> string" where
  "deny_reason p name =
     (let env = (if tp_allowLabel p \<noteq> [] then tp_allowLabel p @ '' does not list it''
                 else allowToolsEnv @ '' is set and does not list it'')
      in name @ '' ('' @
         (if name \<in> tp_deny p then
            (case tp_denyLabels p name of
               Some label \<Rightarrow> if label \<noteq> [] then label else denyToolsEnv @ '' lists it''
             | None \<Rightarrow> denyToolsEnv @ '' lists it'')
          else env) @ '')'')"

definition tool_refusal :: "toolPolicy \<Rightarrow> string \<Rightarrow> string" where
  "tool_refusal p path =
     (if \<not> tp_restricted p then []
      else case map_of endpointTools path of
          None \<Rightarrow> path @ '' is disabled: it maps to no MCP tool name, so '' @ allowToolsEnv @
                  '' / '' @ denyToolsEnv @ '' cannot classify it''
        | Some tools \<Rightarrow>
            if list_ex (allowsTool p) tools then []
            else path @ '' is disabled: every tool that uses it is blocked: '' @
                 Join ''; '' (map (deny_reason p) tools))"

definition tool_guard :: "toolPolicy \<Rightarrow> ('c, 's) handler \<Rightarrow> ('c, 's) handler" where
  "tool_guard p h =
     (if \<not> tp_restricted p then h
      else (\<lambda>r st.
        let msg = tool_refusal p (rq_path r)
        in if msg \<noteq> [] then (writeError 403 msg, st) else h r st))"

definition tool_refusal_response :: "toolPolicy \<Rightarrow> 'c request \<Rightarrow> response option" where
  "tool_refusal_response p r =
     (if tool_refusal p (rq_path r) \<noteq> [] then Some (writeError 403 (tool_refusal p (rq_path r))) else None)"

interpretation tools: request_guard "tool_guard p" "tool_refusal_response p" "\<lambda>r. r" for p
  by unfold_locales
    (auto simp: tool_guard_def tool_refusal_response_def tool_refusal_def Let_def split: if_splits)

section \<open>Lemmas\<close>

lemma finite_parseToolList [simp]: "finite (parseToolList raw)"
  by (simp add: parseToolList_def)

lemma unknown_tools_Nil: "finite names \<Longrightarrow> unknown_tools names = [] \<longleftrightarrow> names \<subseteq> knownTools"
  by (auto simp: unknown_tools_def sortedNames_def filter_empty_conv)

lemma parseToolList_entries:
  "parseToolList raw = {TrimSpace item | item. item \<in> set (Split CHR '','' raw) \<and> TrimSpace item \<noteq> []}"
  by (auto simp: parseToolList_def)

lemma tool_refusal_empty_iff:
  "tool_refusal p path = [] \<longleftrightarrow>
     \<not> tp_restricted p \<or> (\<exists>tools. map_of endpointTools path = Some tools \<and> (\<exists>t \<in> set tools. allowsTool p t))"
  by (auto simp: tool_refusal_def list_ex_iff split: option.splits)

lemma endpointTools_known: "map_of endpointTools path = Some ts \<Longrightarrow> set ts \<subseteq> knownTools"
  by (auto simp: knownTools_def dest!: map_of_SomeD)

section \<open>Properties\<close>

text \<open>A tool list with a name that is no tool never becomes a policy, so a typing error cannot
  widen or void it: parsing succeeds exactly when every listed name (entries between commas,
  trimmed, blanks skipped) is a known tool, and then the policy holds exactly the listed names.\<close>

lemma newToolPolicy_exact:
  "newToolPolicy allowRaw denyRaw =
     (if parseToolList allowRaw \<union> parseToolList denyRaw \<subseteq> knownTools
      then Inr (zero_toolPolicy\<lparr>tp_allow := parseToolList allowRaw, tp_deny := parseToolList denyRaw\<rparr>)
      else Inl (UnknownTools (filter (\<lambda>(_, unknown). unknown \<noteq> [])
        [(allowToolsEnv, unknown_tools (parseToolList allowRaw)),
         (denyToolsEnv, unknown_tools (parseToolList denyRaw))])))"
  using unknown_tools_Nil [OF finite_parseToolList, of allowRaw]
    unknown_tools_Nil [OF finite_parseToolList, of denyRaw]
  by (auto simp: newToolPolicy_def Let_def)

text \<open>The lists are enforced on every mutating endpoint: the guarded handler runs exactly when
  no list is set, or the endpoint is classified and at least one of its tools is neither denied
  nor missing from a nonempty allow-list; deny wins over allow, an unclassified endpoint fails
  closed, and a refusal is a 403 that leaves the state unchanged.\<close>

lemma tool_guard_exact:
  "tool_guard p h r st =
     (if (tp_allow p = {} \<and> tp_deny p = {}) \<or>
         (\<exists>tools. map_of endpointTools (rq_path r) = Some tools \<and>
            (\<exists>t \<in> set tools. t \<notin> tp_deny p \<and> (tp_allow p = {} \<or> t \<in> tp_allow p)))
      then h r st
      else (ErrorResponse 403 ''denied'' (tool_refusal p (rq_path r)), st))"
proof -
  have "tool_refusal p (rq_path r) = [] \<longleftrightarrow>
     (tp_allow p = {} \<and> tp_deny p = {}) \<or>
         (\<exists>tools. map_of endpointTools (rq_path r) = Some tools \<and>
            (\<exists>t \<in> set tools. t \<notin> tp_deny p \<and> (tp_allow p = {} \<or> t \<in> tp_allow p)))"
    unfolding tool_refusal_empty_iff tp_restricted_def allowsTool_def by auto
  then show ?thesis
    by (auto simp: tools.guard_eq tool_refusal_response_def writeError_def writeErrorCode_def errorCode_def)
qed

end
