(* ===== verification/Chat_Policy.thy ===== *)
theory Chat_Policy
  imports Rest_Guards "HOL-Library.List_Lexorder"
begin

text \<open>
  The conversation allow-list (\<^verbatim>\<open>chat_policy.go\<close>): parsing, the membership test every
  chat-taking endpoint goes through, the intersection of a runtime list with the deployment's,
  the canonical form of a chat target, and the identity closure used for participants and webhook
  sources. The SDK's JID functions are arguments, collected in the record \<open>jid_sdk\<close>; the lookup of
  an alternate (phone/LID) identity is the argument \<open>twin\<close>, as in the source.
\<close>

section \<open>JIDs\<close>

text \<open>The fields of the SDK's \<^verbatim>\<open>types.JID\<close> that the bridge reads or writes; \<open>Device\<close> stands for the
  device part that \<^verbatim>\<open>ToNonAD\<close> removes.\<close>

record jid =
  User :: string
  Server :: string
  Device :: nat

record jid_sdk =
  ParseJID :: "string \<Rightarrow> jid option"
  ToNonAD :: "jid \<Rightarrow> jid"
  IsEmpty :: "jid \<Rightarrow> bool"
  JIDString :: "jid \<Rightarrow> string"

definition DefaultUserServer :: string where "DefaultUserServer = ''s.whatsapp.net''"
definition HiddenUserServer :: string where "HiddenUserServer = ''lid''"

definition NewJID :: "string \<Rightarrow> string \<Rightarrow> jid" where
  "NewJID user server = \<lparr>User = user, Server = server, Device = 0\<rparr>"

definition at_count :: "string \<Rightarrow> nat" where
  "at_count s = count_list s CHR ''@''"

text \<open>An SDK for identifiers without devices, to instantiate the parameter with.\<close>

definition plain_sdk :: jid_sdk where
  "plain_sdk = \<lparr>ParseJID = (\<lambda>s. if at_count s = 1 then Some (NewJID (before_first CHR ''@'' s) (after_first CHR ''@'' s)) else None),
     ToNonAD = (\<lambda>j. j\<lparr>Device := 0\<rparr>), IsEmpty = (\<lambda>j. Server j = []),
     JIDString = (\<lambda>j. User j @ ''@'' @ Server j)\<rparr>"

definition isPhoneDigits :: "string \<Rightarrow> bool" where
  "isPhoneDigits s \<longleftrightarrow> list_all is_digit s \<and> s \<noteq> []"

definition parseRecipientJID :: "jid_sdk \<Rightarrow> string \<Rightarrow> jid option" where
  "parseRecipientJID sdk recipient =
     (if \<not> str_contains recipient CHR ''@'' then Some (NewJID recipient DefaultUserServer)
      else ParseJID sdk recipient)"

section \<open>The policy\<close>

record chatPolicy =
  cp_source :: string
  cp_restricted :: bool
  cp_exact :: "string set"
  cp_servers :: "string set"
  cp_invalidPositions :: "nat list"

definition zero_chatPolicy :: chatPolicy where
  "zero_chatPolicy = \<lparr>cp_source = [], cp_restricted = False, cp_exact = {}, cp_servers = {},
     cp_invalidPositions = []\<rparr>"

definition normalizeChatEntry :: "string \<Rightarrow> string" where
  "normalizeChatEntry raw0 =
     (let raw = TrimSpace raw0
      in if raw = [] then []
         else if at_count raw > 1 then raw
         else if \<not> str_contains raw CHR ''@'' then raw @ ''@'' @ DefaultUserServer
         else let user = before_last CHR ''@'' raw; server = ToLower (after_last CHR ''@'' raw)
              in before_first CHR '':'' user @ ''@'' @ server)"

fun add_chat_entries :: "nat \<Rightarrow> chatPolicy \<Rightarrow> string list \<Rightarrow> chatPolicy" where
  "add_chat_entries i p [] = p"
| "add_chat_entries i p (item # items) =
     (let n = normalizeChatEntry item
      in if n = [] then add_chat_entries (Suc i) p items
         else
           let p1 = (if at_count n > 1
                     then p\<lparr>cp_invalidPositions := cp_invalidPositions p @ [Suc i]\<rparr> else p);
               p2 = (if before_last CHR ''@'' n = ''*''
                     then p1\<lparr>cp_servers := insert (after_last CHR ''@'' n) (cp_servers p1)\<rparr>
                     else p1\<lparr>cp_exact := insert n (cp_exact p1)\<rparr>)
           in add_chat_entries (Suc i) p2 items)"

definition parseChatPolicy :: "string \<Rightarrow> chatPolicy" where
  "parseChatPolicy raw =
     (let p = add_chat_entries 0 zero_chatPolicy (Split CHR '','' raw)
      in p\<lparr>cp_restricted := (cp_exact p \<noteq> {} \<or> cp_servers p \<noteq> {})\<rparr>)"

definition cp_Allows :: "chatPolicy \<Rightarrow> string \<Rightarrow> bool" where
  "cp_Allows p target =
     (if at_count target > 1 then False
      else if \<not> cp_restricted p then True
      else let n = normalizeChatEntry target
           in if n = [] then False
              else if n \<in> cp_exact p then True
              else after_last CHR ''@'' n \<in> cp_servers p)"

definition cp_entries :: "chatPolicy \<Rightarrow> string list" where
  "cp_entries p = sorted_list_of_set (cp_exact p \<union> (\<lambda>server. ''*@'' @ server) ` cp_servers p)"

definition intersectChatPolicies :: "chatPolicy \<Rightarrow> chatPolicy \<Rightarrow> chatPolicy" where
  "intersectChatPolicies runtime deploy =
     (if \<not> cp_restricted deploy then runtime
      else zero_chatPolicy
        \<lparr>cp_restricted := True,
         cp_exact := {e \<in> cp_exact runtime. cp_Allows deploy e} \<union> {e \<in> cp_exact deploy. cp_Allows runtime e},
         cp_servers := {s \<in> cp_servers runtime. s \<in> cp_servers deploy}\<rparr>)"

section \<open>Targets\<close>

datatype target_error = ManyAts | NotAPhone | InvalidJID | MissingPart | DeviceSuffix

definition canonicalChatJID :: "jid_sdk \<Rightarrow> string \<Rightarrow> bool \<Rightarrow> target_error + jid" where
  "canonicalChatJID sdk raw0 allowPhone =
     (let raw = TrimSpace raw0
      in if at_count raw > 1 then Inl ManyAts
         else if allowPhone \<and> \<not> str_contains raw CHR ''@'' \<and> \<not> isPhoneDigits raw then Inl NotAPhone
         else case (if allowPhone \<and> (str_contains raw CHR ''@'' \<or> isPhoneDigits raw)
                    then parseRecipientJID sdk raw else ParseJID sdk raw) of
             None \<Rightarrow> Inl InvalidJID
           | Some jid \<Rightarrow>
               if User jid = [] \<or> Server jid = [] then Inl MissingPart
               else
                 let user = before_first CHR ''@'' raw
                 in if list_ex (\<lambda>c. c = CHR '':'' \<or> c = CHR ''.'') user
                       \<or> list_ex (\<lambda>c. c = CHR '':'' \<or> c = CHR ''.'') (User jid)
                    then Inl DeviceSuffix
                    else Inr (ToNonAD sdk (jid\<lparr>Server := ToLower (Server jid)\<rparr>)))"

text \<open>\<^verbatim>\<open>authorizeChat\<close>: the error response (400 or 403), or the JID the handler goes on with.\<close>

definition authorizeChat :: "jid_sdk \<Rightarrow> chatPolicy \<Rightarrow> string \<Rightarrow> bool \<Rightarrow> nat + jid" where
  "authorizeChat sdk policy raw allowPhone =
     (case canonicalChatJID sdk raw allowPhone of
        Inl _ \<Rightarrow> Inl 400
      | Inr jid \<Rightarrow> if cp_Allows policy (JIDString sdk jid) then Inr jid else Inl 403)"

section \<open>Brazilian mobile numbers\<close>

definition brMobileAlternate :: "string \<Rightarrow> string" where
  "brMobileAlternate number =
     (if \<not> isPhoneDigits number \<or> (length number \<noteq> 12 \<and> length number \<noteq> 13)
         \<or> \<not> prefix ''55'' number \<or> number ! 2 = CHR ''0'' \<or> number ! 3 = CHR ''0'' then []
      else
        let long = (length number = 13); subscriber = drop 4 number
        in if long \<and> subscriber ! 0 \<noteq> CHR ''9'' then []
           else
             let subscriber' = (if long then drop 1 subscriber else subscriber)
             in if subscriber' ! 0 < CHR ''6'' \<or> subscriber' ! 0 > CHR ''9'' then []
                else if long then take 4 number @ subscriber'
                else take 4 number @ ''9'' @ subscriber')"

section \<open>Lemmas\<close>

lemma at_count_pos: "CHR ''@'' \<in> set s \<longleftrightarrow> at_count s > 0"
  by (metis at_count_def bot_nat_0.not_eq_extremum count_list_0_iff)

lemma normalizeChatEntry_has_at:
  assumes "normalizeChatEntry raw \<noteq> []" shows "CHR ''@'' \<in> set (normalizeChatEntry raw)"
proof -
  have "at_count (TrimSpace raw) > 1 \<Longrightarrow> CHR ''@'' \<in> set (TrimSpace raw)"
    by (simp add: at_count_pos)
  then show ?thesis
    using assms by (auto simp: normalizeChatEntry_def Let_def split: if_splits)
qed

lemma normalizeChatEntry_Nil_iff: "normalizeChatEntry raw = [] \<longleftrightarrow> TrimSpace raw = []"
  by (auto simp: normalizeChatEntry_def Let_def at_count_def)

definition entry_keys :: "string list \<Rightarrow> string set" where
  "entry_keys items = {normalizeChatEntry item | item. item \<in> set items \<and> normalizeChatEntry item \<noteq> []}"

lemma entry_keys_simps [simp]:
  "entry_keys [] = {}"
  "entry_keys (item # items) =
     (if normalizeChatEntry item = [] then {} else {normalizeChatEntry item}) \<union> entry_keys items"
  by (auto simp: entry_keys_def)

lemma add_chat_entries_sets:
  "cp_exact (add_chat_entries i p items) =
     cp_exact p \<union> {n \<in> entry_keys items. before_last CHR ''@'' n \<noteq> ''*''}"
  "cp_servers (add_chat_entries i p items) =
     cp_servers p \<union> after_last CHR ''@'' ` {n \<in> entry_keys items. before_last CHR ''@'' n = ''*''}"
  by (induction i p items rule: add_chat_entries.induct) (auto simp: Let_def)

lemma parseChatPolicy_sets:
  "cp_exact (parseChatPolicy raw) =
     {n \<in> entry_keys (Split CHR '','' raw). before_last CHR ''@'' n \<noteq> ''*''}"
  "cp_servers (parseChatPolicy raw) =
     after_last CHR ''@'' ` {n \<in> entry_keys (Split CHR '','' raw). before_last CHR ''@'' n = ''*''}"
  by (simp_all add: parseChatPolicy_def Let_def add_chat_entries_sets zero_chatPolicy_def)

lemma parseChatPolicy_restricted:
  "cp_restricted (parseChatPolicy raw) \<longleftrightarrow> (\<exists>item \<in> set (Split CHR '','' raw). TrimSpace item \<noteq> [])"
proof -
  have "cp_restricted (parseChatPolicy raw) \<longleftrightarrow> entry_keys (Split CHR '','' raw) \<noteq> {}"
    using parseChatPolicy_sets [of raw]
    by (auto simp: parseChatPolicy_def Let_def)
  also have "\<dots> \<longleftrightarrow> (\<exists>item \<in> set (Split CHR '','' raw). TrimSpace item \<noteq> [])"
    by (auto simp: entry_keys_def normalizeChatEntry_Nil_iff)
  finally show ?thesis .
qed

text \<open>The policies the code builds hold entries that are their own normal form, except a bare
  entry with a device colon, which the runtime grammar refuses.\<close>

definition normal_policy :: "chatPolicy \<Rightarrow> bool" where
  "normal_policy p \<longleftrightarrow> (\<forall>e \<in> cp_exact p. normalizeChatEntry e = e)"

lemma Allows_normal_form:
  assumes "cp_restricted p" and "normalizeChatEntry n = n"
  shows "cp_Allows p n \<longleftrightarrow>
    at_count n \<le> 1 \<and> n \<noteq> [] \<and> (n \<in> cp_exact p \<or> after_last CHR ''@'' n \<in> cp_servers p)"
  using assms by (auto simp: cp_Allows_def Let_def)

lemma Allows_via_normal_form:
  assumes "cp_restricted p" "normalizeChatEntry target = n" "at_count target \<le> 1"
    and "normalizeChatEntry n = n" "cp_Allows p n"
  shows "cp_Allows p target"
  using assms by (auto simp: cp_Allows_def Let_def split: if_splits)

lemma at_count_normalizeChatEntry:
  assumes "at_count target \<le> 1" and "normalizeChatEntry target \<noteq> []"
  shows "at_count (normalizeChatEntry target) = 1"
proof -
  let ?raw = "TrimSpace target"
  have le: "at_count ?raw \<le> 1"
    using count_list_TrimSpace [of target "CHR ''@''"] assms(1) by (simp add: at_count_def)
  show ?thesis
  proof (cases "CHR ''@'' \<in> set ?raw")
    case False
    then have "count_list ?raw CHR ''@'' = 0" by (simp add: count_list_0_iff)
    with False le assms(2) show ?thesis
      by (auto simp: normalizeChatEntry_def Let_def str_contains_def at_count_def
          DefaultUserServer_def split: if_splits)
  next
    case True
    from before_last_after_last [OF True]
    have "at_count ?raw = at_count (before_last CHR ''@'' ?raw) + 1 + at_count (after_last CHR ''@'' ?raw)"
      by (metis (no_types, lifting) Suc_eq_plus1 add.commute add_Suc_right at_count_def
          count_list.simps(2) count_list_append)
    with le have no: "CHR ''@'' \<notin> set (before_last CHR ''@'' ?raw)"
      "CHR ''@'' \<notin> set (after_last CHR ''@'' ?raw)"
      by (simp_all add: at_count_pos)
    have "CHR ''@'' \<notin> set (before_first CHR '':'' (before_last CHR ''@'' ?raw))"
      using no(1) by (auto simp: before_first_def dest: set_takeWhileD)
    moreover have "CHR ''@'' \<notin> set (ToLower (after_last CHR ''@'' ?raw))"
      using no(2) by (simp add: ToLower_def image_iff eq_commute [of "CHR ''@''"])
    moreover have "?raw \<noteq> []" using True by auto
    ultimately show ?thesis using le True
      by (simp add: normalizeChatEntry_def Let_def str_contains_def at_count_def count_list_0_iff)
  qed
qed

definition br_parts :: "string \<Rightarrow> string \<Rightarrow> bool" where
  "br_parts pre sub \<longleftrightarrow> length pre = 4 \<and> length sub = 8 \<and> list_all is_digit pre \<and> list_all is_digit sub
     \<and> prefix ''55'' pre \<and> pre ! 2 \<noteq> CHR ''0'' \<and> pre ! 3 \<noteq> CHR ''0''
     \<and> CHR ''6'' \<le> sub ! 0 \<and> sub ! 0 \<le> CHR ''9''"

lemma br_parts_alternate:
  assumes "br_parts pre sub"
  shows "brMobileAlternate (pre @ sub) = pre @ ''9'' @ sub"
    and "brMobileAlternate (pre @ ''9'' @ sub) = pre @ sub"
proof -
  have "is_digit CHR ''9''" by (simp add: is_digit_def)
  moreover have "prefix ''55'' (pre @ t)" for t using assms by (auto simp: br_parts_def prefix_def)
  ultimately show "brMobileAlternate (pre @ sub) = pre @ ''9'' @ sub"
    "brMobileAlternate (pre @ ''9'' @ sub) = pre @ sub"
    using assms by (auto simp: br_parts_def brMobileAlternate_def isPhoneDigits_def Let_def nth_append)
qed

lemma brMobileAlternate_parts:
  assumes "brMobileAlternate number \<noteq> []"
  obtains pre sub where "br_parts pre sub" "number = pre @ sub"
  | pre sub where "br_parts pre sub" "number = pre @ ''9'' @ sub"
proof -
  let ?pre = "take 4 number"
  have guard: "isPhoneDigits number" "length number = 12 \<or> length number = 13" "prefix ''55'' number"
      "number ! 2 \<noteq> CHR ''0''" "number ! 3 \<noteq> CHR ''0''"
    using assms by (auto simp: brMobileAlternate_def split: if_splits)
  have pre: "prefix ''55'' ?pre" "?pre ! 2 \<noteq> CHR ''0''" "?pre ! 3 \<noteq> CHR ''0''" "length ?pre = 4"
    using guard by (auto simp: prefix_def)
  have digits: "list_all is_digit (take n number)" "list_all is_digit (drop n number)" for n
    using guard(1) by (auto simp: isPhoneDigits_def list_all_iff dest: in_set_takeD in_set_dropD)
  show thesis
  proof (cases "length number = 13")
    case True
    have nine: "number ! 4 = CHR ''9''" "CHR ''6'' \<le> number ! 5" "number ! 5 \<le> CHR ''9''"
      using assms guard True by (auto simp: brMobileAlternate_def Let_def split: if_splits)
    have "number = ?pre @ ''9'' @ drop 5 number"
      using Cons_nth_drop_Suc [of 4 number] append_take_drop_id [of 4 number] True nine(1)
      by (simp del: append_take_drop_id)
    moreover have "br_parts ?pre (drop 5 number)"
      using True pre nine digits by (simp add: br_parts_def)
    ultimately show ?thesis using that(2) by blast
  next
    case False
    then have "length number = 12" using guard(2) by simp
    moreover have "CHR ''6'' \<le> number ! 4" "number ! 4 \<le> CHR ''9''"
      using assms guard False by (auto simp: brMobileAlternate_def Let_def split: if_splits)
    ultimately have "br_parts ?pre (drop 4 number)"
      using pre digits by (simp add: br_parts_def)
    then show ?thesis using that(1) by (metis append_take_drop_id)
  qed
qed

section \<open>Properties\<close>

text \<open>An allow-list cannot evaporate: the policy is unrestricted exactly when the variable is
  blank between its commas, so any entry, even a malformed one, restricts the bridge; and a
  restricted policy admits a target exactly when it has at most one \<^verbatim>\<open>@\<close> and its normal form is a
  listed chat or its server a listed wildcard.\<close>

lemma parseChatPolicy_Allows:
  "cp_Allows (parseChatPolicy raw) target \<longleftrightarrow>
     at_count target \<le> 1 \<and>
     ((\<forall>item \<in> set (Split CHR '','' raw). TrimSpace item = []) \<or>
      (let n = normalizeChatEntry target
       in n \<noteq> [] \<and>
          ((\<exists>item \<in> set (Split CHR '','' raw).
              normalizeChatEntry item = n \<and> before_last CHR ''@'' n \<noteq> ''*'') \<or>
           (\<exists>item \<in> set (Split CHR '','' raw). normalizeChatEntry item \<noteq> [] \<and>
              before_last CHR ''@'' (normalizeChatEntry item) = ''*'' \<and>
              after_last CHR ''@'' (normalizeChatEntry item) = after_last CHR ''@'' n))))"
proof (cases "\<forall>item \<in> set (Split CHR '','' raw). TrimSpace item = []")
  case True
  then have "\<not> cp_restricted (parseChatPolicy raw)" by (simp add: parseChatPolicy_restricted)
  with True show ?thesis by (auto simp: cp_Allows_def)
next
  case False
  then have "cp_restricted (parseChatPolicy raw)" by (simp add: parseChatPolicy_restricted)
  with False show ?thesis
    unfolding cp_Allows_def parseChatPolicy_sets entry_keys_def
    by (auto simp: Let_def image_iff)
qed

theorem parseChatPolicy_Allows_witness:
  "cp_Allows (parseChatPolicy ''5511, *@G.us'') ''5511@s.whatsapp.net''
   \<and> \<not> cp_Allows (parseChatPolicy ''5511, *@G.us'') ''5512@s.whatsapp.net''
   \<and> cp_Allows (parseChatPolicy ''5511, *@G.us'') ''123-4@g.us''"
proof -
  have s: "set (Split CHR '','' ''5511, *@G.us'') = {''5511'', '' *@G.us''}" by code_simp
  have n: "normalizeChatEntry ''5511'' = ''5511@s.whatsapp.net''"
    "normalizeChatEntry '' *@G.us'' = ''*@g.us''"
    "normalizeChatEntry ''5511@s.whatsapp.net'' = ''5511@s.whatsapp.net''"
    "normalizeChatEntry ''5512@s.whatsapp.net'' = ''5512@s.whatsapp.net''"
    "normalizeChatEntry ''123-4@g.us'' = ''123-4@g.us''"
    "TrimSpace ''5511'' = ''5511''" by code_simp+
  have c: "at_count ''5511@s.whatsapp.net'' = 1" "at_count ''123-4@g.us'' = 1"
    "before_last CHR ''@'' ''5511@s.whatsapp.net'' = ''5511''"
    "before_last CHR ''@'' ''*@g.us'' = ''*''" "after_last CHR ''@'' ''*@g.us'' = ''g.us''"
    "after_last CHR ''@'' ''123-4@g.us'' = ''g.us''"
    "after_last CHR ''@'' ''5512@s.whatsapp.net'' = ''s.whatsapp.net''" by code_simp+
  show ?thesis
    unfolding parseChatPolicy_Allows s by (simp add: n c Let_def)
qed

text \<open>A runtime allow-list can only narrow the deployment's: whatever the intersected policy
  admits is admitted by the runtime list and by the deployment list, and conversely a listed chat
  or a common wildcard that both admit stays admitted.\<close>

lemma intersectChatPolicies_narrows:
  assumes "cp_restricted runtime" and "normal_policy runtime" and "normal_policy deploy"
  shows "cp_Allows (intersectChatPolicies runtime deploy) target \<longleftrightarrow>
     cp_Allows runtime target \<and> cp_Allows deploy target"
proof (cases "cp_restricted deploy")
  case False
  then show ?thesis by (auto simp: intersectChatPolicies_def cp_Allows_def)
next
  case True
  let ?n = "normalizeChatEntry target"
  have nf: "?n \<in> cp_exact runtime \<or> ?n \<in> cp_exact deploy \<Longrightarrow> normalizeChatEntry ?n = ?n"
    using assms(2,3) unfolding normal_policy_def by blast
  show ?thesis
  proof (cases "at_count target \<le> 1 \<and> ?n \<noteq> []")
    case False
    with assms(1) True show ?thesis
      by (auto simp: intersectChatPolicies_def cp_Allows_def Let_def zero_chatPolicy_def)
  next
    case ok: True
    then have one: "at_count ?n = 1" by (simp add: at_count_normalizeChatEntry)
    have form: "cp_Allows p target \<longleftrightarrow> ?n \<in> cp_exact p \<or> after_last CHR ''@'' ?n \<in> cp_servers p"
      if "cp_restricted p" for p
      using that ok by (auto simp: cp_Allows_def Let_def)
    have form_n: "cp_Allows p ?n \<longleftrightarrow> ?n \<in> cp_exact p \<or> after_last CHR ''@'' ?n \<in> cp_servers p"
      if "cp_restricted p" "normalizeChatEntry ?n = ?n" for p
      using that ok one by (auto simp: Allows_normal_form)
    let ?out = "intersectChatPolicies runtime deploy"
    have out: "cp_restricted ?out"
      "?n \<in> cp_exact ?out \<longleftrightarrow>
         ?n \<in> cp_exact runtime \<and> cp_Allows deploy ?n \<or> ?n \<in> cp_exact deploy \<and> cp_Allows runtime ?n"
      "after_last CHR ''@'' ?n \<in> cp_servers ?out \<longleftrightarrow>
         after_last CHR ''@'' ?n \<in> cp_servers runtime \<and> after_last CHR ''@'' ?n \<in> cp_servers deploy"
      using True by (auto simp: intersectChatPolicies_def zero_chatPolicy_def)
    show ?thesis
      unfolding form [OF out(1)] form [OF assms(1)] form [OF True] out(2,3)
      using form_n [OF assms(1)] form_n [OF True] nf by blast
  qed
qed

theorem intersectChatPolicies_narrows_witness:
  "cp_Allows (intersectChatPolicies
       (zero_chatPolicy\<lparr>cp_restricted := True, cp_exact := {''1@s.whatsapp.net'', ''2@s.whatsapp.net''}\<rparr>)
       (zero_chatPolicy\<lparr>cp_restricted := True, cp_exact := {''1@s.whatsapp.net''}\<rparr>)) ''1''
   \<and> \<not> cp_Allows (intersectChatPolicies
       (zero_chatPolicy\<lparr>cp_restricted := True, cp_exact := {''1@s.whatsapp.net'', ''2@s.whatsapp.net''}\<rparr>)
       (zero_chatPolicy\<lparr>cp_restricted := True, cp_exact := {''1@s.whatsapp.net''}\<rparr>)) ''2''"
proof -
  let ?r = "zero_chatPolicy\<lparr>cp_restricted := True, cp_exact := {''1@s.whatsapp.net'', ''2@s.whatsapp.net''}\<rparr>"
  let ?d = "zero_chatPolicy\<lparr>cp_restricted := True, cp_exact := {''1@s.whatsapp.net''}\<rparr>"
  have n: "normalizeChatEntry ''1@s.whatsapp.net'' = ''1@s.whatsapp.net''"
    "normalizeChatEntry ''2@s.whatsapp.net'' = ''2@s.whatsapp.net''"
    "normalizeChatEntry ''1'' = ''1@s.whatsapp.net''" "normalizeChatEntry ''2'' = ''2@s.whatsapp.net''"
    "at_count ''1'' = 0" "at_count ''2'' = 0" by code_simp+
  have "normal_policy ?r" "normal_policy ?d" "cp_restricted ?r"
    by (simp_all add: normal_policy_def n)
  note both = intersectChatPolicies_narrows [OF this(3,1,2)]
  show ?thesis
    unfolding both by (simp add: cp_Allows_def Let_def n zero_chatPolicy_def)
qed

text \<open>The two spellings of a Brazilian mobile number are each other's alternate: adding or
  removing the ninth digit is an involution wherever it is defined, so neither spelling can lead
  to a third number.\<close>

lemma brMobileAlternate_involution:
  assumes "brMobileAlternate number \<noteq> []"
  shows "brMobileAlternate (brMobileAlternate number) = number \<and>
     length (brMobileAlternate number) \<in> {12, 13} - {length number}"
  using assms
proof (cases rule: brMobileAlternate_parts)
  case (1 pre sub)
  then show ?thesis using br_parts_alternate [OF 1(1)] by (simp add: br_parts_def)
next
  case (2 pre sub)
  then show ?thesis using br_parts_alternate [OF 2(1)] by (simp add: br_parts_def)
qed

theorem brMobileAlternate_involution_witness:
  "brMobileAlternate ''5511912345678'' = [] \<and> brMobileAlternate ''5511987654321'' = ''551187654321''
   \<and> brMobileAlternate (brMobileAlternate ''5511987654321'') = ''5511987654321''"
proof -
  have "brMobileAlternate ''5511987654321'' = ''551187654321''"
    "brMobileAlternate ''5511912345678'' = []" by code_simp+
  then show ?thesis using brMobileAlternate_involution [of "''5511987654321''"] by simp
qed

end
