(* ===== verification/Identity_Search.thy ===== *)
theory Identity_Search
  imports Chat_Policy
begin

text \<open>
  \<^verbatim>\<open>chatPolicy.allowsIdentity\<close> (\<^verbatim>\<open>chat_policy.go\<close>): the breadth-first search over the identities of
  one user (the phone number, its Brazilian alternate spelling, the phone/LID twins) for one the
  allow-list admits. The alternate lookup is the argument \<open>twin\<close> (\<^term>\<open>None\<close> for a nil function, an
  inner \<^term>\<open>None\<close> for a lookup error). The loop has no bound in the source; here it takes fuel, and
  \<open>identity_search_enough\<close> shows how much suffices for a finite set of identities.
\<close>

type_synonym twin_fun = "(jid \<Rightarrow> jid option) option"

text \<open>The reverse check: some exactly listed LID maps to this very phone identity.\<close>

definition reverse_match :: "jid_sdk \<Rightarrow> chatPolicy \<Rightarrow> twin_fun \<Rightarrow> jid \<Rightarrow> bool" where
  "reverse_match sdk p twin j \<longleftrightarrow>
     Server j = DefaultUserServer \<and>
     (case twin of
        None \<Rightarrow> False
      | Some tw \<Rightarrow>
          (\<exists>entry \<in> cp_exact p.
             case canonicalChatJID sdk entry False of
               Inl _ \<Rightarrow> False
             | Inr allowed \<Rightarrow> Server allowed = HiddenUserServer \<and>
                 (case tw allowed of None \<Rightarrow> False | Some pn \<Rightarrow> ToNonAD sdk pn = j)))"

definition identity_next :: "jid_sdk \<Rightarrow> twin_fun \<Rightarrow> jid \<Rightarrow> jid list" where
  "identity_next sdk twin j =
     (if Server j \<noteq> DefaultUserServer \<and> Server j \<noteq> HiddenUserServer then []
      else
        (if Server j = DefaultUserServer \<and> brMobileAlternate (User j) \<noteq> []
         then [NewJID (brMobileAlternate (User j)) (Server j)] else []) @
        (case twin of
           None \<Rightarrow> []
         | Some tw \<Rightarrow>
             (case tw j of
                None \<Rightarrow> []
              | Some alt \<Rightarrow> if IsEmpty sdk alt then [] else [ToNonAD sdk alt])))"

fun identity_search ::
    "nat \<Rightarrow> jid_sdk \<Rightarrow> chatPolicy \<Rightarrow> twin_fun \<Rightarrow> jid list \<Rightarrow> jid set \<Rightarrow> bool option" where
  "identity_search 0 sdk p twin queue seen = None"
| "identity_search (Suc fuel) sdk p twin [] seen = Some False"
| "identity_search (Suc fuel) sdk p twin (j # queue) seen =
     (if j \<in> seen \<or> IsEmpty sdk j then identity_search fuel sdk p twin queue seen
      else if cp_Allows p (JIDString sdk j) then Some True
      else if reverse_match sdk p twin j then Some True
      else identity_search fuel sdk p twin (queue @ identity_next sdk twin j) (insert j seen))"

definition allowsIdentity :: "nat \<Rightarrow> jid_sdk \<Rightarrow> chatPolicy \<Rightarrow> jid \<Rightarrow> twin_fun \<Rightarrow> bool option" where
  "allowsIdentity fuel sdk p jid twin =
     (if \<not> cp_restricted p then Some True
      else identity_search fuel sdk p twin [ToNonAD sdk jid] {})"

section \<open>What the search computes\<close>

definition admitted :: "jid_sdk \<Rightarrow> chatPolicy \<Rightarrow> twin_fun \<Rightarrow> jid \<Rightarrow> bool" where
  "admitted sdk p twin j \<longleftrightarrow>
     \<not> IsEmpty sdk j \<and> (cp_Allows p (JIDString sdk j) \<or> reverse_match sdk p twin j)"

inductive same_user :: "jid_sdk \<Rightarrow> twin_fun \<Rightarrow> jid \<Rightarrow> jid \<Rightarrow> bool" for sdk twin where
  self: "same_user sdk twin j j"
| other: "same_user sdk twin j k \<Longrightarrow> \<not> IsEmpty sdk k \<Longrightarrow> l \<in> set (identity_next sdk twin k) \<Longrightarrow>
     same_user sdk twin j l"

lemma same_user_into_closed:
  assumes "same_user sdk twin j k" and "j \<in> S \<or> IsEmpty sdk j"
    and "\<And>x y. x \<in> S \<Longrightarrow> y \<in> set (identity_next sdk twin x) \<Longrightarrow> y \<in> S \<or> IsEmpty sdk y"
  shows "k \<in> S \<or> IsEmpty sdk k"
  using assms by (induction rule: same_user.induct) auto

text \<open>The loop invariant: everything queued is an identity of the user; everything seen was
  refused and its neighbours are seen, queued or empty.\<close>

lemma identity_search_sound:
  assumes "identity_search fuel sdk p twin queue seen = Some b"
    and "\<forall>j \<in> set queue. same_user sdk twin start j"
    and "\<forall>x \<in> seen. \<not> admitted sdk p twin x"
    and "\<forall>x \<in> seen. \<forall>y \<in> set (identity_next sdk twin x). y \<in> seen \<or> y \<in> set queue \<or> IsEmpty sdk y"
    and "start \<in> seen \<or> start \<in> set queue \<or> IsEmpty sdk start"
  shows "b \<longleftrightarrow> (\<exists>j. same_user sdk twin start j \<and> admitted sdk p twin j)"
  using assms
proof (induction fuel sdk p twin queue seen rule: identity_search.induct)
  case (1 sdk p twin queue seen)
  then show ?case by simp
next
  case (2 fuel sdk p twin seen)
  have "j \<in> seen \<or> IsEmpty sdk j" if "same_user sdk twin start j" for j
    using that 2 by (elim same_user_into_closed) auto
  with 2 show ?case by (auto simp: admitted_def)
next
  case (3 fuel sdk p twin j queue seen)
  show ?case
  proof (cases "j \<in> seen \<or> IsEmpty sdk j")
    case True
    with "3.prems" show ?thesis by (intro "3.IH"(1)) auto
  next
    case fresh: False
    show ?thesis
    proof (cases "cp_Allows p (JIDString sdk j) \<or> reverse_match sdk p twin j")
      case True
      with fresh "3.prems" show ?thesis
        by (auto simp: admitted_def split: if_splits)
    next
      case False
      with fresh have not: "\<not> admitted sdk p twin j" by (simp add: admitted_def)
      have "\<forall>l \<in> set (identity_next sdk twin j). same_user sdk twin start l"
        using "3.prems"(2) fresh by (auto intro: same_user.other)
      with fresh False not "3.prems" show ?thesis by (intro "3.IH"(2)) auto
    qed
  qed
qed

lemma length_identity_next: "length (identity_next sdk twin j) \<le> 2"
  by (auto simp: identity_next_def split: option.splits)

lemma identity_search_enough:
  assumes "finite S" and "set queue \<subseteq> S" and "seen \<subseteq> S"
    and closed: "\<And>j. j \<in> S \<Longrightarrow> set (identity_next sdk twin j) \<subseteq> S"
    and "length queue + 3 * card (S - seen) < fuel"
  shows "identity_search fuel sdk p twin queue seen \<noteq> None"
  using assms(2,3,5)
proof (induction fuel arbitrary: queue seen)
  case (Suc fuel)
  show ?case
  proof (cases queue)
    case (Cons j rest)
    show ?thesis
    proof (cases "j \<in> seen \<or> IsEmpty sdk j")
      case True
      with Suc Cons show ?thesis by auto
    next
      case False
      have "card (S - insert j seen) < card (S - seen)"
        using False Suc.prems Cons assms(1) by (intro psubset_card_mono) auto
      then have "length (rest @ identity_next sdk twin j) + 3 * card (S - insert j seen) < fuel"
        using Suc.prems(3) Cons length_identity_next [of sdk twin j] by simp
      moreover have "set (rest @ identity_next sdk twin j) \<subseteq> S" "insert j seen \<subseteq> S"
        using Suc.prems Cons closed [of j] by auto
      ultimately show ?thesis using False Cons Suc.IH by auto
    qed
  qed simp
qed simp

section \<open>Properties\<close>

text \<open>The identity search is exact: when it answers, the answer is yes precisely if the policy
  is unrestricted or some identity reachable from the user's own (through number spellings and
  phone/LID twins, never through an empty JID) is admitted by the list or is the phone behind an
  exactly listed LID.\<close>

lemma allowsIdentity_exact:
  assumes "allowsIdentity fuel sdk p jid twin = Some b"
  shows "b \<longleftrightarrow> \<not> cp_restricted p \<or>
    (\<exists>j. same_user sdk twin (ToNonAD sdk jid) j \<and> admitted sdk p twin j)"
proof (cases "cp_restricted p")
  case True
  with assms have "identity_search fuel sdk p twin [ToNonAD sdk jid] {} = Some b"
    by (simp add: allowsIdentity_def)
  from identity_search_sound [OF this, of "ToNonAD sdk jid"] True show ?thesis
    by (auto intro: same_user.self)
qed (use assms in \<open>simp add: allowsIdentity_def\<close>)

theorem allowsIdentity_exact_witness:
  "allowsIdentity 4 plain_sdk (zero_chatPolicy\<lparr>cp_restricted := True, cp_exact := {''7@lid''}\<rparr>)
      (NewJID ''5'' ''s.whatsapp.net'') (Some (\<lambda>j. if Server j = ''lid'' then None else Some (NewJID ''7'' ''lid'')))
     = Some True
   \<and> (\<exists>j. same_user plain_sdk (Some (\<lambda>j. if Server j = ''lid'' then None else Some (NewJID ''7'' ''lid'')))
           (ToNonAD plain_sdk (NewJID ''5'' ''s.whatsapp.net'')) j
        \<and> admitted plain_sdk (zero_chatPolicy\<lparr>cp_restricted := True, cp_exact := {''7@lid''}\<rparr>)
           (Some (\<lambda>j. if Server j = ''lid'' then None else Some (NewJID ''7'' ''lid''))) j)"
proof -
  have "allowsIdentity 4 plain_sdk (zero_chatPolicy\<lparr>cp_restricted := True, cp_exact := {''7@lid''}\<rparr>)
      (NewJID ''5'' ''s.whatsapp.net'') (Some (\<lambda>j. if Server j = ''lid'' then None else Some (NewJID ''7'' ''lid'')))
     = Some True" by code_simp
  from this allowsIdentity_exact [OF this] show ?thesis by simp
qed

text \<open>C40. The identity search terminates: on a finite set of identities closed under the alternate
  lookups, fuel beyond one plus three times its size always yields an answer.\<close>

theorem allowsIdentity_terminates:
  assumes "finite S" and "ToNonAD sdk jid \<in> S"
    and "\<forall>j \<in> S. set (identity_next sdk twin j) \<subseteq> S" and "fuel > 1 + 3 * card S"
  shows "\<exists>b. allowsIdentity fuel sdk p jid twin = Some b"
proof -
  have "identity_search fuel sdk p twin [ToNonAD sdk jid] {} \<noteq> None"
    using assms by (intro identity_search_enough [of S]) auto
  then show ?thesis by (auto simp: allowsIdentity_def)
qed

theorem allowsIdentity_terminates_witness:
  "\<exists>b. allowsIdentity 5 plain_sdk (zero_chatPolicy\<lparr>cp_restricted := True, cp_exact := {''7@lid''}\<rparr>)
     (NewJID ''120363'' ''g.us'') None = Some b"
proof -
  have "identity_next plain_sdk None (NewJID ''120363'' ''g.us'') = []"
    "ToNonAD plain_sdk (NewJID ''120363'' ''g.us'') = NewJID ''120363'' ''g.us''" by code_simp+
  then show ?thesis
    by (intro allowsIdentity_terminates [of "{NewJID ''120363'' ''g.us''}"]) auto
qed

end
