(* ===== verification/Runtime_Settings.thy ===== *)
theory Runtime_Settings
  imports Tool_Policy Identity_Search
begin

text \<open>
  The operator's runtime settings (\<^verbatim>\<open>runtime_settings.go\<close>) for the knobs that decide what the
  bridge may do: \<^verbatim>\<open>chats.allowed\<close>, \<^verbatim>\<open>tools.allow\<close>, \<^verbatim>\<open>tools.deny\<close> and the four send limits, together
  with the guards that apply them (\<^verbatim>\<open>rest.go\<close>). A saved value is a JSON value; rows of the media and
  transcription keys only take part in the version clock here.
\<close>

datatype json = JNull | JBool bool | JInt int | JStr string | JArr "json list"

record 'v setting =
  st_value :: 'v
  st_source :: string

datatype send_key = RatePerMinute | RatePerDay | NewChatsPerDay | MinIntervalMs

definition send_key_name :: "send_key \<Rightarrow> string" where
  "send_key_name k =
     (case k of RatePerMinute \<Rightarrow> ''send.rate_per_minute'' | RatePerDay \<Rightarrow> ''send.rate_per_day''
      | NewChatsPerDay \<Rightarrow> ''send.new_chats_per_day'' | MinIntervalMs \<Rightarrow> ''send.min_interval_ms'')"

definition send_key_env :: "send_key \<Rightarrow> string" where
  "send_key_env k =
     (case k of RatePerMinute \<Rightarrow> ''WHATSAPP_SEND_RATE_PER_MINUTE''
      | RatePerDay \<Rightarrow> ''WHATSAPP_SEND_RATE_PER_DAY''
      | NewChatsPerDay \<Rightarrow> ''WHATSAPP_SEND_NEW_CHATS_PER_DAY''
      | MinIntervalMs \<Rightarrow> ''WHATSAPP_SEND_MIN_INTERVAL_MS'')"

definition send_keys :: "send_key list" where
  "send_keys = [RatePerMinute, RatePerDay, NewChatsPerDay, MinIntervalMs]"

record settings =
  s_chats :: "string list setting"
  s_allow :: "string list setting"
  s_deny :: "string list setting"
  s_send :: "send_key \<Rightarrow> int setting"

record snapshot =
  ss_version :: int
  ss_settings :: settings
  ss_policy :: toolPolicy
  ss_chats :: chatPolicy

record setting_row =
  sr_key :: string
  sr_value :: json
  sr_version :: int

section \<open>Deployment defaults\<close>

definition chatPolicyEnv :: string where "chatPolicyEnv = ''WHATSAPP_ALLOWED_CHATS''"

text \<open>The environment form of one send limit: a nonnegative 32-bit integer.\<close>

definition parse_send_env :: "string \<Rightarrow> int option" where
  "parse_send_env raw =
     (case Atoi (TrimSpace raw) of
        Some v \<Rightarrow> if 0 \<le> v \<and> v \<le> 2147483647 then Some v else None
      | None \<Rightarrow> None)"

definition env_setting :: "(string \<Rightarrow> string) \<Rightarrow> string \<Rightarrow> 'v \<Rightarrow> (string \<Rightarrow> 'v) \<Rightarrow> 'v setting" where
  "env_setting getenv env def parse =
     (if TrimSpace (getenv env) \<noteq> [] then \<lparr>st_value = parse (getenv env), st_source = ''env''\<rparr>
      else \<lparr>st_value = def, st_source = ''default''\<rparr>)"

definition send_default :: "(string \<Rightarrow> string) \<Rightarrow> send_key \<Rightarrow> int setting" where
  "send_default getenv k = env_setting getenv (send_key_env k) 0 (\<lambda>raw. the (parse_send_env raw))"

definition runtimeDefaults :: "(string \<Rightarrow> string) \<Rightarrow> string list + settings" where
  "runtimeDefaults getenv =
     (let problems = map send_key_env
            (filter (\<lambda>k. TrimSpace (getenv (send_key_env k)) \<noteq> [] \<and>
                         parse_send_env (getenv (send_key_env k)) = None) send_keys)
      in if problems \<noteq> [] then Inl problems
         else Inr
           \<lparr>s_chats = env_setting getenv chatPolicyEnv [] (\<lambda>raw. cp_entries (parseChatPolicy raw)),
            s_allow = env_setting getenv allowToolsEnv [] (\<lambda>raw. sortedNames (parseToolList raw)),
            s_deny = env_setting getenv denyToolsEnv [] (\<lambda>raw. sortedNames (parseToolList raw)),
            s_send = send_default getenv\<rparr>)"

section \<open>Parsing saved values\<close>

fun json_strings :: "json \<Rightarrow> string list option" where
  "json_strings (JArr xs) =
     (if list_all (\<lambda>x. case x of JStr _ \<Rightarrow> True | _ \<Rightarrow> False) xs
      then Some (map (\<lambda>x. case x of JStr s \<Rightarrow> s | _ \<Rightarrow> []) xs) else None)"
| "json_strings _ = None"

text \<open>\<^verbatim>\<open>chatEntryPattern\<close>: digits, or a user of word characters, colon and dash (or \<^verbatim>\<open>*\<close>) at a
  server of word characters, dot and dash.\<close>

definition is_alnum :: "char \<Rightarrow> bool" where
  "is_alnum c \<longleftrightarrow> is_digit c \<or> (CHR ''a'' \<le> c \<and> c \<le> CHR ''z'') \<or> (CHR ''A'' \<le> c \<and> c \<le> CHR ''Z'')"

definition chat_entry_ok :: "string \<Rightarrow> bool" where
  "chat_entry_ok s \<longleftrightarrow>
     isPhoneDigits s \<or>
     (at_count s = 1 \<and>
      (let user = before_first CHR ''@'' s; server = after_first CHR ''@'' s
       in (user = ''*'' \<or> (user \<noteq> [] \<and> list_all (\<lambda>c. is_alnum c \<or> c \<in> set ''_:-'') user))
          \<and> server \<noteq> [] \<and> list_all (\<lambda>c. is_alnum c \<or> c \<in> set ''.-'') server))"

definition parse_chats_value :: "json \<Rightarrow> string list option" where
  "parse_chats_value v =
     (case json_strings v of
        Some entries \<Rightarrow>
          if entries \<noteq> [] \<and> list_all (\<lambda>e. chat_entry_ok (TrimSpace e)) entries
          then Some (cp_entries (parseChatPolicy (Join '','' entries))) else None
      | None \<Rightarrow> None)"

fun parse_send_value :: "json \<Rightarrow> int option" where
  "parse_send_value (JInt v) = (if 0 \<le> v \<and> v \<le> 2147483647 then Some v else None)"
| "parse_send_value _ = None"

definition tool_name_ok :: "string \<Rightarrow> bool" where
  "tool_name_ok name \<longleftrightarrow> name \<noteq> [] \<and> name = TrimSpace name \<and> \<not> str_contains name CHR '',''"

section \<open>Floors and ceilings\<close>

text \<open>\<^verbatim>\<open>applyRuntimeToolFloor\<close> returns the two settings and the policy; a label only matters for the
  text of a refusal.\<close>

definition applyRuntimeToolFloor ::
    "settings \<Rightarrow> settings \<Rightarrow> bool \<Rightarrow> settings \<times> toolPolicy" where
  "applyRuntimeToolFloor out defaults closedAllow0 =
     (let allow0 = parseToolList (Join '','' (st_value (s_allow out)));
          envAllow = parseToolList (Join '','' (st_value (s_allow defaults)));
          (allow, closedAllow) =
            (if envAllow \<noteq> {} then
               (if allow0 = {} \<and> \<not> closedAllow0 then (envAllow, closedAllow0)
                else (allow0 \<inter> envAllow, allow0 \<inter> envAllow = {}))
             else (allow0, closedAllow0));
          deny0 = parseToolList (Join '','' (st_value (s_deny out)));
          deny1 = deny0 \<union> set (st_value (s_deny defaults));
          labels1 = (\<lambda>name.
             if name \<in> set (st_value (s_deny defaults)) then Some (denyToolsEnv @ '' (deploy) lists it'')
             else if name \<in> deny0 then
               Some (if st_source (s_deny out) = ''runtime'' then ''runtime tools.deny lists it''
                     else denyToolsEnv @ '' (deploy) lists it'')
             else None);
          closed = (closedAllow \<and> allow = {});
          deny = (if closed then deny1 \<union> knownTools else deny1);
          labels = (\<lambda>name. if closed \<and> name \<in> knownTools \<and> labels1 name = None
             then Some ''runtime tools.allow has no readable tools inside the deploy floor''
             else labels1 name);
          denySource = (if closed then ''runtime'' else st_source (s_deny out));
          label = (if st_source (s_allow out) = ''runtime''
             then ''runtime tools.allow within '' @ allowToolsEnv @ '' (deploy)''
             else allowToolsEnv @ '' (deploy)'')
      in (out\<lparr>s_allow := (s_allow out)\<lparr>st_value := sortedNames allow\<rparr>,
              s_deny := \<lparr>st_value = sortedNames deny, st_source = denySource\<rparr>\<rparr>,
          \<lparr>tp_allow = allow, tp_deny = deny, tp_allowLabel = label, tp_denyLabels = labels\<rparr>))"

definition send_ceiling :: "send_key \<Rightarrow> int setting \<Rightarrow> int setting \<Rightarrow> int setting" where
  "send_ceiling k deploy setting =
     (let env = st_value deploy; runtime = st_value setting
      in if env > 0 \<and> (runtime = 0 \<or> (k = MinIntervalMs \<and> runtime < env)
                       \<or> (k \<noteq> MinIntervalMs \<and> runtime > env))
         then deploy else setting)"

definition ceiled_send :: "settings \<Rightarrow> settings \<Rightarrow> send_key \<Rightarrow> int setting" where
  "ceiled_send out defaults k = send_ceiling k (s_send defaults k) (s_send out k)"

definition applyRuntimeSendCeiling :: "settings \<Rightarrow> settings \<Rightarrow> settings" where
  "applyRuntimeSendCeiling out defaults =
     out\<lparr>s_send := ceiled_send out defaults\<rparr>"

definition applyRuntimeChats :: "settings \<Rightarrow> settings \<Rightarrow> settings \<times> chatPolicy" where
  "applyRuntimeChats out defaults =
     (let chats = parseChatPolicy (Join '','' (st_value (s_chats out)))
      in if st_source (s_chats out) \<noteq> ''runtime'' then (out, chats)
         else
           let deploy = parseChatPolicy (Join '','' (st_value (s_chats defaults)));
               both = intersectChatPolicies (chats\<lparr>cp_restricted := True\<rparr>) deploy;
               source = ''runtime chats.allowed'' @
                 (if cp_restricted deploy then '' within '' @ chatPolicyEnv @ '' (deploy)'' else []);
               final = both\<lparr>cp_source := source\<rparr>
           in (out\<lparr>s_chats := (s_chats out)\<lparr>st_value := cp_entries final\<rparr>\<rparr>, final))"

section \<open>Reading the table\<close>

definition runtime_value :: "'v \<Rightarrow> 'v setting" where
  "runtime_value v = \<lparr>st_value = v, st_source = ''runtime''\<rparr>"

text \<open>One saved row: the version clock, then the value where its key is known and not cleared. The
  accumulator is the version, the settings and \<^verbatim>\<open>closedAllow\<close>.\<close>

definition read_tool_row ::
    "settings \<Rightarrow> bool \<Rightarrow> json \<Rightarrow> settings \<times> bool \<Rightarrow> settings \<times> bool" where
  "read_tool_row defaults isAllow v = (\<lambda>(out, closed).
     case json_strings v of
       Some names \<Rightarrow>
         if list_all tool_name_ok names then
           let valid = {n \<in> set names. n \<in> knownTools}
           in (if isAllow then out\<lparr>s_allow := runtime_value (sortedNames valid)\<rparr>
               else out\<lparr>s_deny := runtime_value (sortedNames valid)\<rparr>,
               if isAllow \<and> names \<noteq> [] \<and> valid = {} then True else closed)
         else (out, if isAllow then st_value (s_allow defaults) = [] else closed)
     | None \<Rightarrow> (out, if isAllow then st_value (s_allow defaults) = [] else closed))"

definition read_row ::
    "settings \<Rightarrow> int \<times> settings \<times> bool \<Rightarrow> setting_row \<Rightarrow> int \<times> settings \<times> bool" where
  "read_row defaults acc row =
     (case acc of (version, out, closed) \<Rightarrow>
       let version' = max version (sr_version row); v = sr_value row; key = sr_key row
       in (version',
           if v = JNull then (out, closed)
           else if key = ''tools.allow'' then read_tool_row defaults True v (out, closed)
           else if key = ''tools.deny'' then read_tool_row defaults False v (out, closed)
           else if key = ''chats.allowed'' then
             (out\<lparr>s_chats := runtime_value (case parse_chats_value v of Some es \<Rightarrow> es | None \<Rightarrow> [])\<rparr>, closed)
           else case List.find (\<lambda>k. send_key_name k = key) send_keys of
               None \<Rightarrow> (out, closed)
             | Some k \<Rightarrow>
                 (case parse_send_value v of
                    None \<Rightarrow> (out, closed)
                  | Some n \<Rightarrow> (out\<lparr>s_send := (s_send out)(k := runtime_value n)\<rparr>, closed))))"

definition readRuntimeSettings :: "setting_row list \<Rightarrow> settings \<Rightarrow> snapshot" where
  "readRuntimeSettings rows defaults =
     (let (version, out, closedAllow) = foldl (read_row defaults) (0, defaults, False) rows;
          (out1, policy) = applyRuntimeToolFloor out defaults closedAllow;
          (out2, chats) = applyRuntimeChats out1 defaults;
          out3 = applyRuntimeSendCeiling out2 defaults
      in \<lparr>ss_version = version, ss_settings = out3, ss_policy = policy, ss_chats = chats\<rparr>)"

section \<open>Saving\<close>

definition patch_merge :: "setting_row \<Rightarrow> setting_row \<Rightarrow> setting_row" where
  "patch_merge old new = old\<lparr>sr_value := sr_value new, sr_version := sr_version new\<rparr>"

interpretation settings_table: keyed_table sr_key patch_merge
  by unfold_locales (simp add: patch_merge_def)

definition patchRuntimeSettings ::
    "setting_row list \<Rightarrow> settings \<Rightarrow> (string \<Rightarrow> json) \<Rightarrow> string list \<Rightarrow> setting_row list" where
  "patchRuntimeSettings rows defaults vals keys =
     (let version = ss_version (readRuntimeSettings rows defaults) + 1
      in foldl (\<lambda>t key. upsert sr_key patch_merge
                  \<lparr>sr_key = key, sr_value = vals key, sr_version = version\<rparr> t) rows keys)"

section \<open>Lemmas: tool lists\<close>

lemma set_sortedNames: "finite names \<Longrightarrow> set (sortedNames names) = names"
  by (simp add: sortedNames_def)

lemma parseToolList_names:
  "name \<in> parseToolList raw \<Longrightarrow> name \<noteq> [] \<and> TrimSpace name = name \<and> CHR '','' \<notin> set name"
  using Split_no_sep [of _ "CHR '',''" raw]
  by (auto simp: parseToolList_def comma_TrimSpace)

lemma parseToolList_Join:
  assumes "\<And>n. n \<in> set names \<Longrightarrow> n \<noteq> [] \<and> TrimSpace n = n \<and> CHR '','' \<notin> set n"
  shows "parseToolList (Join '','' names) = set names"
proof (cases "names = []")
  case False
  then have "Split CHR '','' (Join '','' names) = names" using assms by (intro Split_Join) auto
  moreover have "map TrimSpace names = names" using assms by (simp add: map_idI)
  ultimately show ?thesis using assms by (auto simp: parseToolList_def)
qed (simp add: parseToolList_def)

lemma parseToolList_reparse: "parseToolList (Join '','' (sortedNames (parseToolList raw))) = parseToolList raw"
  by (subst parseToolList_Join) (auto simp: set_sortedNames dest: parseToolList_names)

lemma parseToolList_blank: "TrimSpace raw = [] \<Longrightarrow> parseToolList raw = {}"
proof -
  assume blank: "TrimSpace raw = []"
  then have "CHR '','' \<notin> set raw" using comma_TrimSpace [of raw] by simp
  with blank show ?thesis by (simp add: parseToolList_def Split_single)
qed

lemma parse_env_tools:
  "parseToolList (Join '','' (st_value (env_setting getenv env [] (\<lambda>raw. sortedNames (parseToolList raw)))))
     = parseToolList (getenv env)"
  "set (st_value (env_setting getenv env [] (\<lambda>raw. sortedNames (parseToolList raw)))) = parseToolList (getenv env)"
  by (auto simp: env_setting_def parseToolList_reparse parseToolList_blank set_sortedNames
      parseToolList_Join [of "[]", simplified])

lemma tool_floor_narrows:
  fixes out defaults closed
  defines "p \<equiv> snd (applyRuntimeToolFloor out defaults closed)"
    and "envAllow \<equiv> parseToolList (Join '','' (st_value (s_allow defaults)))"
    and "envDeny \<equiv> set (st_value (s_deny defaults))"
  shows "envDeny \<subseteq> tp_deny p"
    and "envAllow \<noteq> {} \<Longrightarrow> tp_allow p \<subseteq> envAllow \<and> (tp_allow p = {} \<longrightarrow> knownTools \<subseteq> tp_deny p)"
  unfolding p_def envAllow_def envDeny_def applyRuntimeToolFloor_def
  by (auto simp: Let_def split: if_splits)

lemma policy_of_read:
  "\<exists>out closed. ss_policy (readRuntimeSettings rows defaults) = snd (applyRuntimeToolFloor out defaults closed)"
  unfolding readRuntimeSettings_def Let_def by (simp add: case_prod_unfold) blast

lemma runtimeDefaults_send: "runtimeDefaults getenv = Inr defaults \<Longrightarrow> s_send defaults = send_default getenv"
  unfolding runtimeDefaults_def Let_def by (clarsimp split: if_split_asm)

lemma runtimeDefaults_tools:
  assumes "runtimeDefaults getenv = Inr defaults"
  shows "parseToolList (Join '','' (st_value (s_allow defaults))) = parseToolList (getenv allowToolsEnv)"
    and "set (st_value (s_deny defaults)) = parseToolList (getenv denyToolsEnv)"
  using assms parse_env_tools by (auto simp: runtimeDefaults_def Let_def split: if_splits)

lemma knownTools_nonempty: "knownTools \<noteq> {}"
  by (simp add: knownTools_def unenforcedTools_def)

section \<open>Lemmas: chat lists\<close>

text \<open>An entry the runtime grammar accepts normalizes to a plain canonical JID: visible ASCII, one
  \<^verbatim>\<open>@\<close>, no comma, its own normal form.\<close>

definition canonical_entry :: "string \<Rightarrow> bool" where
  "canonical_entry n \<longleftrightarrow> visible n \<and> n \<noteq> [] \<and> CHR '','' \<notin> set n \<and> normalizeChatEntry n = n"

lemma visible_append [simp]: "visible (a @ b) \<longleftrightarrow> visible a \<and> visible b"
  by (simp add: visible_def)

lemma alnum_visible: "is_alnum c \<Longrightarrow> 32 < (of_char c :: nat) \<and> (of_char c :: nat) < 128"
  by (auto simp: is_alnum_def is_digit_def less_eq_char_def)

lemma alnum_no_sep: "is_alnum c \<Longrightarrow> c \<noteq> CHR '','' \<and> c \<noteq> CHR ''@'' \<and> c \<noteq> CHR '':''"
  by (auto simp: is_alnum_def is_digit_def less_eq_char_def)

lemma lower_alnum: "is_alnum c \<Longrightarrow> is_alnum (lower_byte c)"
  by (auto simp: is_alnum_def is_digit_def lower_byte_def less_eq_char_def)

lemma lower_lower [simp]: "lower_byte (lower_byte c) = lower_byte c"
  by (auto simp: lower_byte_def less_eq_char_def)

lemma split_at_unique:
  assumes "CHR ''@'' \<notin> set u" "CHR ''@'' \<notin> set v"
  shows "before_last CHR ''@'' (u @ CHR ''@'' # v) = u" "after_last CHR ''@'' (u @ CHR ''@'' # v) = v"
    "at_count (u @ CHR ''@'' # v) = 1"
proof -
  have tw: "takeWhile (\<lambda>c. c \<noteq> CHR ''@'') (rev v @ CHR ''@'' # rev u) = rev v"
    "dropWhile (\<lambda>c. c \<noteq> CHR ''@'') (rev v @ CHR ''@'' # rev u) = CHR ''@'' # rev u"
    using assms(2) takeWhile_until [of "CHR ''@''" "rev v"] dropWhile_until [of "CHR ''@''" "rev v"]
    by simp_all
  then show "before_last CHR ''@'' (u @ CHR ''@'' # v) = u" "after_last CHR ''@'' (u @ CHR ''@'' # v) = v"
    by (simp_all add: before_last_def after_last_def)
  show "at_count (u @ CHR ''@'' # v) = 1" using assms by (simp add: at_count_def)
qed

lemma normalize_plain:
  assumes "visible (u @ CHR ''@'' # v)" "CHR ''@'' \<notin> set u" "CHR ''@'' \<notin> set v"
  shows "normalizeChatEntry (u @ CHR ''@'' # v) = before_first CHR '':'' u @ ''@'' @ ToLower v"
  using split_at_unique [OF assms(2,3)] TrimSpace_visible [OF assms(1)]
  by (simp add: normalizeChatEntry_def Let_def str_contains_def)

definition plain_part :: "string \<Rightarrow> bool" where
  "plain_part s \<longleftrightarrow> visible s \<and> CHR ''@'' \<notin> set s \<and> CHR '','' \<notin> set s"

lemma canonical_entryI:
  assumes "plain_part u" "plain_part v" "CHR '':'' \<notin> set u" "ToLower v = v"
  shows "canonical_entry (u @ ''@'' @ v)"
proof -
  have vis: "visible (u @ CHR ''@'' # v)" using assms by (auto simp: plain_part_def visible_def)
  have "before_first CHR '':'' u = u" using assms(3) by (rule before_first_id)
  with vis assms normalize_plain [OF vis] show ?thesis
    by (auto simp: canonical_entry_def plain_part_def)
qed

lemma server_char:
  assumes "is_alnum c \<or> c \<in> set ''.-''"
  shows "32 < (of_char c :: nat) \<and> (of_char c :: nat) < 128 \<and> c \<noteq> CHR ''@'' \<and> c \<noteq> CHR '',''
     \<and> 32 < (of_char (lower_byte c) :: nat) \<and> (of_char (lower_byte c) :: nat) < 128 \<and> lower_byte c \<noteq> CHR '',''"
proof (cases "is_alnum c")
  case True
  then show ?thesis
    using alnum_visible [of c] alnum_visible [OF lower_alnum, of c]
      alnum_no_sep [of c] alnum_no_sep [OF lower_alnum, of c] by simp
next
  case False
  have "lower_byte CHR ''.'' = CHR ''.''" "lower_byte CHR ''-'' = CHR ''-''" by code_simp+
  with False assms show ?thesis by auto
qed

lemma chat_entry_ok_canonical:
  assumes "chat_entry_ok (TrimSpace e)"
  shows "canonical_entry (normalizeChatEntry e) \<and> CHR '','' \<notin> set e"
proof -
  let ?t = "TrimSpace e"
  have norm: "normalizeChatEntry e = normalizeChatEntry ?t"
    by (simp add: normalizeChatEntry_def)
  have "canonical_entry (normalizeChatEntry e) \<and> CHR '','' \<notin> set ?t"
  proof (cases "isPhoneDigits ?t")
    case True
    then have d: "\<And>c. c \<in> set ?t \<Longrightarrow> is_alnum c" "?t \<noteq> []"
      by (auto simp: isPhoneDigits_def list_all_iff is_alnum_def)
    then have p: "plain_part ?t" "CHR '':'' \<notin> set ?t"
      using alnum_visible alnum_no_sep by (fastforce simp: plain_part_def visible_def list_all_iff)+
    then have "normalizeChatEntry ?t = ?t @ ''@'' @ DefaultUserServer"
      using d(2) by (simp add: normalizeChatEntry_def Let_def str_contains_def plain_part_def at_count_def)
    moreover have "plain_part DefaultUserServer" "ToLower DefaultUserServer = DefaultUserServer"
      by code_simp+
    ultimately show ?thesis using canonical_entryI [OF p(1) _ p(2)] norm p(1)
      by (simp add: plain_part_def)
  next
    case False
    let ?u = "before_first CHR ''@'' ?t" and ?v = "after_first CHR ''@'' ?t"
    have ok: "at_count ?t = 1" "?u = ''*'' \<or> list_all (\<lambda>c. is_alnum c \<or> c \<in> set ''_:-'') ?u"
        "list_all (\<lambda>c. is_alnum c \<or> c \<in> set ''.-'') ?v"
      using assms False by (auto simp: chat_entry_ok_def Let_def)
    have "CHR ''@'' \<in> set ?t" using ok(1) by (simp add: at_count_pos)
    then have t: "?t = ?u @ CHR ''@'' # ?v"
      by (rule before_first_after_first [symmetric])
    have v: "plain_part ?v" "plain_part (ToLower ?v)" "ToLower (ToLower ?v) = ToLower ?v"
    proof -
      have c: "is_alnum c \<or> c \<in> set ''.-''" if "c \<in> set ?v" for c
        using that ok(3) by (auto simp: list_all_iff)
      note c = server_char [OF c]
      then show "plain_part ?v" by (auto simp: plain_part_def visible_def list_all_iff)
      have "\<forall>x \<in> set (ToLower ?v). 32 < (of_char x :: nat) \<and> (of_char x :: nat) < 128 \<and> x \<noteq> CHR ''@'' \<and> x \<noteq> CHR '',''"
        using c by (simp add: ToLower_def)
      then show "plain_part (ToLower ?v)"
        by (auto simp: plain_part_def visible_def list_all_iff)
      show "ToLower (ToLower ?v) = ToLower ?v" by (simp add: ToLower_def)
    qed
    have u: "plain_part ?u"
      using ok(2) alnum_visible alnum_no_sep
      by (auto simp: plain_part_def visible_def list_all_iff) blast+
    have sub: "plain_part (before_first CHR '':'' ?u)" "CHR '':'' \<notin> set (before_first CHR '':'' ?u)"
      using u set_before_first [of "CHR '':''" ?u]
      by (auto simp: plain_part_def visible_def list_all_iff)
    have "visible (?u @ CHR ''@'' # ?v)" using u v by (simp add: plain_part_def visible_def)
    then have "normalizeChatEntry ?t = before_first CHR '':'' ?u @ ''@'' @ ToLower ?v"
      using u v t normalize_plain [of ?u ?v] by (simp add: plain_part_def)
    moreover have "CHR '','' \<notin> set ?t"
      using u v by (subst t) (simp add: plain_part_def)
    ultimately show ?thesis using canonical_entryI [OF sub(1) v(2) sub(2) v(3)] norm by simp
  qed
  then show ?thesis by (simp add: comma_TrimSpace)
qed

lemma canonical_entry_comma: "canonical_entry n \<Longrightarrow> n \<noteq> [] \<and> CHR '','' \<notin> set n"
  by (simp add: canonical_entry_def)

lemma entry_keys_ok:
  assumes "list_all (\<lambda>e. chat_entry_ok (TrimSpace e)) entries"
  shows "\<forall>n \<in> entry_keys entries. canonical_entry n"
  using assms chat_entry_ok_canonical by (auto simp: entry_keys_def list_all_iff)

lemma canonical_entry_keys:
  assumes "\<And>n. n \<in> set names \<Longrightarrow> canonical_entry n"
  shows "entry_keys names = set names"
  using assms by (force simp: entry_keys_def canonical_entry_def)

text \<open>Reparsing a list of canonical entries gives those entries back, so the policy is normal.\<close>

lemma parse_canonical_normal:
  assumes "\<And>n. n \<in> set names \<Longrightarrow> canonical_entry n"
  shows "normal_policy (parseChatPolicy (Join '','' names))"
proof (cases "names = []")
  case True
  then show ?thesis by (simp add: normal_policy_def parseChatPolicy_sets normalizeChatEntry_def)
next
  case False
  then have "Split CHR '','' (Join '','' names) = names"
    using assms canonical_entry_comma by (intro Split_Join) auto
  then show ?thesis
    using assms by (auto simp: normal_policy_def parseChatPolicy_sets canonical_entry_keys canonical_entry_def)
qed

lemma cp_entries_canonical:
  assumes "\<And>n. n \<in> entry_keys (Split CHR '','' raw) \<Longrightarrow> canonical_entry n"
    and "e \<in> set (cp_entries (parseChatPolicy raw))"
  shows "canonical_entry e"
proof -
  let ?K = "entry_keys (Split CHR '','' raw)"
  have fin: "finite ?K"
    by (rule finite_subset [of _ "normalizeChatEntry ` set (Split CHR '','' raw)"]) (auto simp: entry_keys_def)
  have wild: "''*@'' @ after_last CHR ''@'' n = n" if "n \<in> ?K" "before_last CHR ''@'' n = ''*''" for n
  proof -
    have "CHR ''@'' \<in> set n" using that(1) normalizeChatEntry_has_at by (auto simp: entry_keys_def)
    from before_last_after_last [OF this] that(2) show ?thesis by simp
  qed
  have "e \<in> ?K"
    using assms(2) fin wild by (auto simp: cp_entries_def parseChatPolicy_sets)
  then show ?thesis by (rule assms(1))
qed

lemma parse_chats_value_canonical:
  assumes "parse_chats_value v = Some es" and "e \<in> set es"
  shows "canonical_entry e"
proof -
  from assms(1) obtain entries where entries: "entries \<noteq> []"
      "list_all (\<lambda>e. chat_entry_ok (TrimSpace e)) entries"
      "es = cp_entries (parseChatPolicy (Join '','' entries))"
    by (auto simp: parse_chats_value_def split: option.splits if_splits)
  have "Split CHR '','' (Join '','' entries) = entries"
    using entries chat_entry_ok_canonical by (intro Split_Join) (auto simp: list_all_iff)
  then show ?thesis
    using cp_entries_canonical [of "Join '','' entries" e] entry_keys_ok [OF entries(2)] assms(2) entries(3)
    by simp
qed

lemma intersect_within_deploy:
  assumes "cp_restricted runtime" and "normal_policy runtime"
    and "cp_Allows (intersectChatPolicies runtime deploy) target"
  shows "cp_Allows deploy target"
proof (cases "cp_restricted deploy")
  case False
  with assms(3) show ?thesis by (auto simp: cp_Allows_def split: if_splits)
next
  case True
  let ?n = "normalizeChatEntry target"
  have t: "at_count target \<le> 1" "?n \<noteq> []"
    using assms(3) True
    by (auto simp: intersectChatPolicies_def cp_Allows_def Let_def zero_chatPolicy_def split: if_splits)
  have "?n \<in> cp_exact runtime \<and> cp_Allows deploy ?n \<or> ?n \<in> cp_exact deploy
      \<or> after_last CHR ''@'' ?n \<in> cp_servers deploy"
    using assms(3) True
    by (auto simp: intersectChatPolicies_def cp_Allows_def Let_def zero_chatPolicy_def split: if_splits)
  then show ?thesis
  proof (elim disjE conjE)
    assume n: "?n \<in> cp_exact runtime" "cp_Allows deploy ?n"
    then have "normalizeChatEntry ?n = ?n" using assms(2) by (simp add: normal_policy_def)
    then show ?thesis using Allows_via_normal_form [OF True refl t(1)] n(2) by blast
  qed (use True t in \<open>auto simp: cp_Allows_def Let_def\<close>)
qed

lemma cp_Allows_source [simp]: "cp_Allows (p\<lparr>cp_source := s\<rparr>) target = cp_Allows p target"
  by (simp add: cp_Allows_def)

section \<open>Lemmas: the table\<close>

definition canonical_chats :: "settings \<Rightarrow> bool" where
  "canonical_chats out \<longleftrightarrow>
     (st_source (s_chats out) = ''runtime'' \<longrightarrow> (\<forall>e \<in> set (st_value (s_chats out)). canonical_entry e))"

lemma read_tool_row_chats [simp]: "s_chats (fst (read_tool_row defaults a v acc)) = s_chats (fst acc)"
  by (auto simp: read_tool_row_def Let_def split: prod.splits option.splits)

definition saved_chats :: "json \<Rightarrow> string list" where
  "saved_chats v = (case parse_chats_value v of Some es \<Rightarrow> es | None \<Rightarrow> [])"

lemma saved_chats_canonical: "e \<in> set (saved_chats v) \<Longrightarrow> canonical_entry e"
  by (cases "parse_chats_value v") (auto simp: saved_chats_def intro: parse_chats_value_canonical)

lemma s_chats_read_row:
  "s_chats (fst (snd (read_row defaults acc row))) =
     (if sr_value row \<noteq> JNull \<and> sr_key row = ''chats.allowed'' then runtime_value (saved_chats (sr_value row))
      else s_chats (fst (snd acc)))"
proof (cases acc)
  case (fields version out closed)
  then show ?thesis
    by (simp add: read_row_def Let_def saved_chats_def split: option.split)
qed

lemma read_row_canonical:
  assumes "canonical_chats (fst (snd acc))"
  shows "canonical_chats (fst (snd (read_row defaults acc row)))"
  using assms saved_chats_canonical
  by (auto simp: canonical_chats_def s_chats_read_row runtime_value_def split: if_splits)

lemma read_rows_canonical:
  assumes "canonical_chats defaults"
  shows "canonical_chats (fst (snd (foldl (read_row defaults) (v, defaults, c) rows)))"
  by (rule foldl_invariant [where P = "\<lambda>acc. canonical_chats (fst (snd acc))"])
    (use assms read_row_canonical in auto)

lemma tool_floor_chats [simp]:
  "s_chats (fst (applyRuntimeToolFloor out defaults closed)) = s_chats out"
  by (simp add: applyRuntimeToolFloor_def Let_def case_prod_unfold)

lemma chats_of_read:
  assumes "canonical_chats defaults"
  obtains out where "canonical_chats out"
    "ss_chats (readRuntimeSettings rows defaults) = snd (applyRuntimeChats out defaults)"
    "st_source (s_chats out) \<noteq> ''runtime'' \<Longrightarrow> s_chats out = s_chats defaults"
proof -
  let ?acc = "foldl (read_row defaults) (0, defaults, False) rows"
  let ?out = "fst (applyRuntimeToolFloor (fst (snd ?acc)) defaults (snd (snd ?acc)))"
  have keep: "st_source (s_chats (fst (snd (foldl (read_row defaults) (0, defaults, False) rows)))) = ''runtime''
      \<or> s_chats (fst (snd (foldl (read_row defaults) (0, defaults, False) rows))) = s_chats defaults"
    by (rule foldl_invariant [where P = "\<lambda>acc. st_source (s_chats (fst (snd acc))) = ''runtime''
          \<or> s_chats (fst (snd acc)) = s_chats defaults"])
      (auto simp: read_row_def Let_def runtime_value_def split: prod.splits option.splits)
  have "canonical_chats ?out"
    using read_rows_canonical [OF assms, of 0 False rows] by (simp add: canonical_chats_def)
  moreover have "ss_chats (readRuntimeSettings rows defaults) = snd (applyRuntimeChats ?out defaults)"
    by (simp add: readRuntimeSettings_def Let_def case_prod_unfold)
  moreover have "s_chats ?out = s_chats defaults" if "st_source (s_chats ?out) \<noteq> ''runtime''"
    using keep that by simp
  ultimately show thesis by (rule that)
qed

lemma runtimeDefaults_canonical:
  assumes "runtimeDefaults getenv = Inr defaults" shows "canonical_chats defaults"
  using assms by (auto simp: runtimeDefaults_def Let_def canonical_chats_def env_setting_def split: if_splits)

lemma fst_read_row [simp]: "fst (read_row defaults acc row) = max (fst acc) (sr_version row)"
  by (simp add: read_row_def Let_def split: prod.splits)

lemma version_of_rows:
  "fst (foldl (read_row defaults) acc rows) = foldl max (fst acc) (map sr_version rows)"
  by (induction rows arbitrary: acc) auto

lemma ss_version_read: "ss_version (readRuntimeSettings rows defaults) = foldl max 0 (map sr_version rows)"
  using version_of_rows [of defaults "(0, defaults, False)" rows]
  by (simp add: readRuntimeSettings_def Let_def case_prod_unfold)

lemma foldl_max_eq: "foldl max (v :: int) xs = Max (set (v # xs))"
  unfolding Max.set_eq_fold foldl_conv_fold by (simp only: max.commute)

definition put_settings :: "int \<Rightarrow> (string \<Rightarrow> json) \<Rightarrow> string list \<Rightarrow> setting_row list \<Rightarrow> setting_row list" where
  "put_settings version vals keys rows =
     foldl (\<lambda>t key. upsert sr_key patch_merge
              \<lparr>sr_key = key, sr_value = vals key, sr_version = version\<rparr> t) rows keys"

lemma patch_merge_same_key: "sr_key old = sr_key new \<Longrightarrow> patch_merge old new = new"
  for old new :: setting_row
  by (simp add: patch_merge_def)

lemma put_settings_row_of:
  assumes "keyed sr_key rows"
  shows "keyed sr_key (put_settings w vals keys rows) \<and>
    row_of sr_key k (put_settings w vals keys rows) =
      (if k \<in> set keys then Some \<lparr>sr_key = k, sr_value = vals k, sr_version = w\<rparr> else row_of sr_key k rows)"
  using assms
proof (induction keys arbitrary: rows)
  case Nil
  then show ?case by (simp add: put_settings_def)
next
  case (Cons key keys)
  let ?row = "\<lparr>sr_key = key, sr_value = vals key, sr_version = w\<rparr>"
  let ?t = "upsert sr_key patch_merge ?row rows"
  have keyed: "keyed sr_key ?t" using Cons.prems by (rule settings_table.upsert_keyed)
  have same: "row_of sr_key key ?t = Some ?row"
    using settings_table.row_of_upsert_same [OF Cons.prems, of ?row]
    by (auto split: option.splits dest!: row_of_Some_in simp: patch_merge_same_key)
  have other: "row_of sr_key k ?t = row_of sr_key k rows" if "k \<noteq> key"
    using settings_table.row_of_upsert_other [of k ?row rows] that by simp
  from Cons.IH [OF keyed] same other show ?case
    by (auto simp: put_settings_def)
qed

lemma put_settings_versions:
  "r \<in> set (put_settings w vals keys rows) \<Longrightarrow> r \<in> set rows \<or> sr_version r = w"
proof (induction keys arbitrary: rows)
  case (Cons key keys)
  let ?row = "\<lparr>sr_key = key, sr_value = vals key, sr_version = w\<rparr>"
  from Cons.IH [of "upsert sr_key patch_merge ?row rows"] Cons.prems
  have "r \<in> set (upsert sr_key patch_merge ?row rows) \<or> sr_version r = w"
    by (simp add: put_settings_def)
  with settings_table.set_upsert [of ?row rows] show ?case
    by (auto simp: patch_merge_def)
qed (simp add: put_settings_def)

section \<open>The guards in front of an endpoint\<close>

record bridge_env =
  be_token :: string
  be_hosts :: hostAllowList
  be_readOnly :: readOnlyPolicy
  be_tools :: toolPolicy
  be_hasDefaults :: bool   \<comment> \<open>\<^verbatim>\<open>RuntimeDefaults != nil\<close>\<close>
  be_operatorLogout :: bool

text \<open>\<^verbatim>\<open>settingsSnapshot\<close>: the snapshot pinned into the request, or a live read (which may fail). The
  live reads of the two guards happen at different moments, so each is an argument of its own.\<close>

type_synonym live_read = "unit + snapshot"

definition settingsSnapshot :: "snapshot option \<Rightarrow> live_read \<Rightarrow> live_read" where
  "settingsSnapshot ctx live = (case ctx of Some pinned \<Rightarrow> Inr pinned | None \<Rightarrow> live)"

definition runtimePolicyGuard ::
    "bridge_env \<Rightarrow> live_read \<Rightarrow> (snapshot option, 's) handler \<Rightarrow> (snapshot option, 's) handler" where
  "runtimePolicyGuard b live h = (\<lambda>r st.
     if \<not> be_hasDefaults b then h r st
     else case settingsSnapshot (rq_ctx r) live of
         Inl _ \<Rightarrow> (writeErrorCode 503 ''settings_unavailable'' ''Runtime chat policy unavailable'', st)
       | Inr snapshot \<Rightarrow> h (r\<lparr>rq_ctx := Some snapshot\<rparr>) st)"

definition runtimeToolGuard ::
    "bridge_env \<Rightarrow> live_read \<Rightarrow> (snapshot option, 's) handler \<Rightarrow> (snapshot option, 's) handler" where
  "runtimeToolGuard b live h =
     (if \<not> be_hasDefaults b then tool_guard (be_tools b) h
      else (\<lambda>r st.
        if be_operatorLogout b
          then (writeErrorCode 503 ''operator_idle'' ''Device is parked by operator logout'', st)
        else case settingsSnapshot (rq_ctx r) live of
            Inl _ \<Rightarrow> (writeErrorCode 503 ''settings_unavailable'' ''Runtime policy unavailable'', st)
          | Inr snapshot \<Rightarrow> tool_guard (ss_policy snapshot) h r st))"

definition mutate ::
    "bridge_env \<Rightarrow> live_read \<Rightarrow> live_read \<Rightarrow> (snapshot option, 's) handler \<Rightarrow> (snapshot option, 's) handler" where
  "mutate b live1 live2 h =
     withAuth (be_token b) (be_hosts b)
       (ro_guard (be_readOnly b) (runtimePolicyGuard b live1 (runtimeToolGuard b live2 h)))"

text \<open>The chat policy a handler authorizes under: \<^verbatim>\<open>chatPolicyHandle.effective\<close>.\<close>

definition effective_chats :: "chatPolicy \<Rightarrow> snapshot option \<Rightarrow> chatPolicy" where
  "effective_chats resolved ctx = (case ctx of Some pinned \<Rightarrow> ss_chats pinned | None \<Rightarrow> resolved)"

definition policy_refusal :: "bridge_env \<Rightarrow> live_read \<Rightarrow> snapshot option request \<Rightarrow> response option" where
  "policy_refusal b live r =
     (if \<not> be_hasDefaults b then None
      else case settingsSnapshot (rq_ctx r) live of
          Inl _ \<Rightarrow> Some (writeErrorCode 503 ''settings_unavailable'' ''Runtime chat policy unavailable'')
        | Inr _ \<Rightarrow> None)"

definition policy_pin :: "bridge_env \<Rightarrow> live_read \<Rightarrow> snapshot option request \<Rightarrow> snapshot option request" where
  "policy_pin b live r =
     (if \<not> be_hasDefaults b then r
      else case settingsSnapshot (rq_ctx r) live of Inl _ \<Rightarrow> r | Inr snapshot \<Rightarrow> r\<lparr>rq_ctx := Some snapshot\<rparr>)"

interpretation policy_guard: request_guard "runtimePolicyGuard b live" "policy_refusal b live" "policy_pin b live"
  for b live
  by unfold_locales
    (auto simp: runtimePolicyGuard_def policy_refusal_def policy_pin_def split: if_splits sum.splits)

definition runtime_tool_refusal :: "bridge_env \<Rightarrow> live_read \<Rightarrow> snapshot option request \<Rightarrow> response option" where
  "runtime_tool_refusal b live r =
     (if \<not> be_hasDefaults b then tool_refusal_response (be_tools b) r
      else if be_operatorLogout b
        then Some (writeErrorCode 503 ''operator_idle'' ''Device is parked by operator logout'')
      else case settingsSnapshot (rq_ctx r) live of
          Inl _ \<Rightarrow> Some (writeErrorCode 503 ''settings_unavailable'' ''Runtime policy unavailable'')
        | Inr snapshot \<Rightarrow> tool_refusal_response (ss_policy snapshot) r)"

interpretation runtime_tools: request_guard "runtimeToolGuard b live" "runtime_tool_refusal b live" "\<lambda>r. r"
  for b live
  by unfold_locales
    (auto simp: runtimeToolGuard_def runtime_tool_refusal_def tools.guard_refuses tools.guard_passes
      split: if_splits sum.splits)

section \<open>Properties\<close>

text \<open>Runtime tool settings can only narrow what the deployment permits, whatever rows the
  settings table holds (unreadable, unknown and cleared values included): a path open under the
  effective runtime policy is open under the policy of the environment variables alone.\<close>

lemma runtime_tools_only_narrow:
  assumes "newToolPolicy (getenv allowToolsEnv) (getenv denyToolsEnv) = Inr deploy"
    and "runtimeDefaults getenv = Inr defaults"
    and "tool_refusal (ss_policy (readRuntimeSettings rows defaults)) path = []"
  shows "tool_refusal deploy path = []"
proof -
  let ?p = "ss_policy (readRuntimeSettings rows defaults)"
  have deploy: "tp_allow deploy = parseToolList (getenv allowToolsEnv)"
      "tp_deny deploy = parseToolList (getenv denyToolsEnv)"
    using assms(1) by (auto simp: newToolPolicy_def Let_def split: if_splits)
  obtain out closed where "?p = snd (applyRuntimeToolFloor out defaults closed)"
    using policy_of_read by blast
  then have floor: "tp_deny deploy \<subseteq> tp_deny ?p"
      "tp_allow deploy \<noteq> {} \<Longrightarrow> tp_allow ?p \<subseteq> tp_allow deploy \<and> (tp_allow ?p = {} \<longrightarrow> knownTools \<subseteq> tp_deny ?p)"
    using tool_floor_narrows [of defaults out closed] runtimeDefaults_tools [OF assms(2)] deploy by auto
  have allowed: "allowsTool deploy t" if "allowsTool ?p t" "t \<in> knownTools" for t
    using that floor by (auto simp: allowsTool_def split: if_splits)
  have unrestricted: "\<not> tp_restricted deploy" if "\<not> tp_restricted ?p"
    using that floor knownTools_nonempty by (auto simp: tp_restricted_def)
  from assms(3) show ?thesis
    unfolding tool_refusal_empty_iff
    using allowed unrestricted endpointTools_known by blast
qed

text \<open>A deployment and a settings table to exercise the properties on.\<close>

definition sample_env :: "string \<Rightarrow> string" where
  "sample_env n =
     (if n = allowToolsEnv then ''send_message, send_typing''
      else if n = chatPolicyEnv then ''5511''
      else if n = send_key_env RatePerDay then ''50'' else [])"

definition sample_defaults :: settings where
  "sample_defaults = projr (runtimeDefaults sample_env)"

definition sample_rows :: "setting_row list" where
  "sample_rows =
    [\<lparr>sr_key = ''tools.allow'', sr_value = JArr [JStr ''send_message'', JStr ''send_reaction''], sr_version = 1\<rparr>,
     \<lparr>sr_key = ''chats.allowed'', sr_value = JArr [JStr ''5511'', JStr ''5512''], sr_version = 2\<rparr>,
     \<lparr>sr_key = ''send.rate_per_day'', sr_value = JInt 500, sr_version = 3\<rparr>]"

lemma sample_defaults: "runtimeDefaults sample_env = Inr sample_defaults"
proof -
  have "\<not> isl (runtimeDefaults sample_env)" by code_simp
  then show ?thesis by (simp add: sample_defaults_def)
qed

theorem runtime_tools_only_narrow_witness:
  "tool_refusal (zero_toolPolicy\<lparr>tp_allow := {''send_message'', ''send_typing''}\<rparr>) ''/api/send'' = []"
proof -
  have deploy: "newToolPolicy (sample_env allowToolsEnv) (sample_env denyToolsEnv)
      = Inr (zero_toolPolicy\<lparr>tp_allow := {''send_message'', ''send_typing''}\<rparr>)"
  proof -
    have "parseToolList (sample_env allowToolsEnv) = {''send_message'', ''send_typing''}"
      "parseToolList (sample_env denyToolsEnv) = {}" by code_simp+
    moreover have "''send_message'' \<in> knownTools" "''send_typing'' \<in> knownTools" by code_simp+
    ultimately show ?thesis
      by (simp add: newToolPolicy_def Let_def unknown_tools_Nil zero_toolPolicy_def)
  qed
  have "tool_refusal (ss_policy (readRuntimeSettings sample_rows sample_defaults)) ''/api/send'' = []"
    by code_simp
  from runtime_tools_only_narrow [OF deploy sample_defaults this] show ?thesis .
qed

text \<open>Runtime chat settings can only narrow the deployment allow-list: every chat the effective
  policy admits is admitted by the deployment's own list, and a saved list that cannot be read
  admits no chat at all.\<close>

lemma runtime_chats_only_narrow:
  assumes "runtimeDefaults getenv = Inr defaults"
    and "cp_Allows (ss_chats (readRuntimeSettings rows defaults)) target"
  shows "cp_Allows (parseChatPolicy (Join '','' (st_value (s_chats defaults)))) target"
proof -
  obtain out where out: "canonical_chats out"
      "ss_chats (readRuntimeSettings rows defaults) = snd (applyRuntimeChats out defaults)"
      "st_source (s_chats out) \<noteq> ''runtime'' \<Longrightarrow> s_chats out = s_chats defaults"
    using chats_of_read [OF runtimeDefaults_canonical [OF assms(1)]] by blast
  show ?thesis
  proof (cases "st_source (s_chats out) = ''runtime''")
    case False
    with out assms(2) show ?thesis by (simp add: applyRuntimeChats_def Let_def)
  next
    case True
    let ?rt = "(parseChatPolicy (Join '','' (st_value (s_chats out))))\<lparr>cp_restricted := True\<rparr>"
    let ?dp = "parseChatPolicy (Join '','' (st_value (s_chats defaults)))"
    have r: "cp_restricted ?rt" by simp
    have n: "normal_policy ?rt"
      using parse_canonical_normal [of "st_value (s_chats out)"] out(1) True
      by (simp add: canonical_chats_def normal_policy_def)
    have a: "cp_Allows (intersectChatPolicies ?rt ?dp) target"
      using assms(2) out(2) True by (simp add: applyRuntimeChats_def Let_def)
    from r n a show ?thesis by (rule intersect_within_deploy)
  qed
qed

theorem runtime_chats_only_narrow_witness:
  "cp_Allows (ss_chats (readRuntimeSettings sample_rows sample_defaults)) ''5511''
   \<and> cp_Allows (parseChatPolicy (Join '','' (st_value (s_chats sample_defaults)))) ''5511''"
proof -
  have "cp_Allows (ss_chats (readRuntimeSettings sample_rows sample_defaults)) ''5511''" by code_simp
  with runtime_chats_only_narrow [OF sample_defaults this] show ?thesis by blast
qed

text \<open>Runtime send limits can only tighten the deployment's: where the environment sets a
  limit, the effective one is set too, at most as high (for the interval, at least as long).\<close>

lemma runtime_send_only_tighten:
  assumes "st_value (s_send defaults k) > 0"
  shows "let v = st_value (s_send (ss_settings (readRuntimeSettings rows defaults)) k)
     in v \<noteq> 0 \<and> (if k = MinIntervalMs then v \<ge> st_value (s_send defaults k)
                  else v \<le> st_value (s_send defaults k))"
proof -
  have "\<exists>out :: settings. s_send (ss_settings (readRuntimeSettings rows defaults)) k
      = send_ceiling k (s_send defaults k) (s_send out k)"
    by (simp add: readRuntimeSettings_def Let_def case_prod_unfold applyRuntimeSendCeiling_def
        ceiled_send_def)
      blast
  with assms show ?thesis by (auto simp: send_ceiling_def Let_def split: if_splits)
qed

theorem runtime_send_only_tighten_witness:
  "st_value (s_send sample_defaults RatePerDay) > 0
   \<and> st_value (s_send (ss_settings (readRuntimeSettings sample_rows sample_defaults)) RatePerDay)
      \<le> st_value (s_send sample_defaults RatePerDay)"
proof -
  have "s_send sample_defaults = send_default sample_env"
    by (rule runtimeDefaults_send) (rule sample_defaults)
  moreover have "sample_env (send_key_env RatePerDay) = ''50''" "TrimSpace ''50'' \<noteq> []"
    "parse_send_env ''50'' = Some 50" by code_simp+
  ultimately have "st_value (s_send sample_defaults RatePerDay) > 0"
    by (simp add: send_default_def env_setting_def)
  with runtime_send_only_tighten [OF this, of sample_rows] show ?thesis by (simp add: Let_def)
qed

text \<open>C2. A mutating endpoint has one gate and it is complete: its handler runs exactly when the
  request is authenticated, the bridge is not read-only, the settings are readable, the device is
  not parked and the tool policy admits the path; the handler then sees the very snapshot whose
  tool policy was checked, even if the settings changed in between; in every other case the
  answer is an error and nothing changes.\<close>

theorem mutate_gate:
  assumes "rq_ctx r = None" and "be_hasDefaults b"
  shows "mutate b live1 live2 h r st =
     (case auth_refusal (be_token b) (be_hosts b) r of
        Some e \<Rightarrow> (e, st)
      | None \<Rightarrow>
          if ro_enabled (be_readOnly b) then (the (ro_refusal (be_readOnly b) r), st)
          else case live1 of
              Inl _ \<Rightarrow> (ErrorResponse 503 ''settings_unavailable'' ''Runtime chat policy unavailable'', st)
            | Inr snap \<Rightarrow>
                if be_operatorLogout b
                then (ErrorResponse 503 ''operator_idle'' ''Device is parked by operator logout'', st)
                else if tool_refusal (ss_policy snap) (rq_path r) \<noteq> []
                then (ErrorResponse 403 ''denied'' (tool_refusal (ss_policy snap) (rq_path r)), st)
                else h (r\<lparr>rq_ctx := Some snap\<rparr>) st)"
  using assms
  by (simp add: mutate_def auth.guard_eq read_only.guard_eq policy_guard.guard_eq runtime_tools.guard_eq
      ro_refusal_def policy_refusal_def policy_pin_def runtime_tool_refusal_def settingsSnapshot_def
      tool_refusal_response_def writeError_def writeErrorCode_def errorCode_def
      split: option.splits sum.splits)

theorem mutate_gate_witness:
  "mutate \<lparr>be_token = ''0123456789abcdef'', be_hosts = \<lparr>hal_any = True, hal_exact = {}, hal_hosts = {}\<rparr>,
       be_readOnly = \<lparr>ro_enabled = True\<rparr>, be_tools = zero_toolPolicy, be_hasDefaults = True, be_operatorLogout = False\<rparr>
     (Inl ()) (Inl ()) (\<lambda>r st. (OkResponse 200 [], Suc st))
     \<lparr>rq_method = ''POST'', rq_path = ''/api/send'', rq_host = ''x'', rq_authorization = ''Bearer 0123456789abcdef'', rq_ctx = None\<rparr>
     (0::nat)
   = (ErrorResponse 403 ''denied'' (''/api/send is disabled: '' @ readOnlyEnv @
       '' is set, so this bridge may read WhatsApp but not act on it''), 0)"
proof -
  let ?b = "\<lparr>be_token = ''0123456789abcdef'', be_hosts = \<lparr>hal_any = True, hal_exact = {}, hal_hosts = {}\<rparr>,
       be_readOnly = \<lparr>ro_enabled = True\<rparr>, be_tools = zero_toolPolicy, be_hasDefaults = True, be_operatorLogout = False\<rparr>"
  let ?r = "\<lparr>rq_method = ''POST'', rq_path = ''/api/send'', rq_host = ''x'',
      rq_authorization = ''Bearer 0123456789abcdef'', rq_ctx = None :: snapshot option\<rparr>"
  have "checkBearerToken ''Bearer 0123456789abcdef'' ''0123456789abcdef''" by code_simp
  then have "auth_refusal (be_token ?b) (be_hosts ?b) ?r = None"
    by (simp add: auth_refusal_def host_allows_def)
  with mutate_gate [of ?r ?b "Inl ()" "Inl ()" "\<lambda>r st. (OkResponse 200 [], Suc st)" 0] show ?thesis
    by (simp add: ro_refusal_def writeError_def writeErrorCode_def errorCode_def)
qed

text \<open>Saving settings is a durable, versioned overwrite: every patched key reads back with
  exactly the value written (a null clears it without removing its row), every other row is
  untouched, and the version clock advances by one, so it never repeats.\<close>

lemma patchRuntimeSettings_commits:
  assumes "keyed sr_key rows" and "keys \<noteq> []"
  shows "ss_version (readRuntimeSettings (patchRuntimeSettings rows defaults vals keys) defaults)
        = ss_version (readRuntimeSettings rows defaults) + 1
    \<and> row_of sr_key k (patchRuntimeSettings rows defaults vals keys) =
      (if k \<in> set keys
       then Some \<lparr>sr_key = k, sr_value = vals k,
                  sr_version = ss_version (readRuntimeSettings rows defaults) + 1\<rparr>
       else row_of sr_key k rows)"
proof -
  let ?v = "ss_version (readRuntimeSettings rows defaults)"
  have patch: "patchRuntimeSettings rows defaults vals keys = put_settings (?v + 1) vals keys rows"
    by (simp add: patchRuntimeSettings_def put_settings_def Let_def)
  note put = put_settings_row_of [OF assms(1), of "?v + 1" vals keys]
  from put have rows: "row_of sr_key k (patchRuntimeSettings rows defaults vals keys) =
      (if k \<in> set keys then Some \<lparr>sr_key = k, sr_value = vals k, sr_version = ?v + 1\<rparr> else row_of sr_key k rows)"
    by (simp add: patch)
  let ?T = "put_settings (?v + 1) vals keys rows"
  have v: "?v = Max (set (0 # map sr_version rows))" by (simp only: ss_version_read foldl_max_eq)
  then have old: "0 \<le> ?v" "sr_version r \<le> ?v" if "r \<in> set rows" for r
    using that by auto
  have "0 \<le> ?v" using v by simp
  obtain k where "k \<in> set keys" using assms(2) by (cases keys) auto
  then have "\<lparr>sr_key = k, sr_value = vals k, sr_version = ?v + 1\<rparr> \<in> set ?T"
    using put [of k] by (auto dest!: row_of_Some_in)
  then have new: "\<exists>r \<in> set ?T. sr_version r = ?v + 1" by (rule bexI [rotated]) simp
  have "Max (set (0 # map sr_version ?T)) = ?v + 1"
    by (rule Max_eqI)
      (use new \<open>0 \<le> ?v\<close> old put_settings_versions [of _ "?v + 1" vals keys rows] in \<open>force\<close>)+
  then have "ss_version (readRuntimeSettings (patchRuntimeSettings rows defaults vals keys) defaults) = ?v + 1"
    by (simp only: patch ss_version_read foldl_max_eq)
  with rows show ?thesis by blast
qed

theorem patchRuntimeSettings_commits_witness:
  "row_of sr_key ''tools.deny''
     (patchRuntimeSettings sample_rows sample_defaults (\<lambda>_. JNull) [''tools.deny'', ''tools.allow''])
   = Some \<lparr>sr_key = ''tools.deny'', sr_value = JNull, sr_version = 4\<rparr>"
proof -
  have "keyed sr_key sample_rows" "ss_version (readRuntimeSettings sample_rows sample_defaults) = 3"
    by (simp_all add: sample_rows_def keyed_def ss_version_read)
  with patchRuntimeSettings_commits [of sample_rows "[''tools.deny'', ''tools.allow'']" sample_defaults
      "\<lambda>_. JNull" "''tools.deny''"]
  show ?thesis by simp
qed

end
