(* ===== verification/Float64.thy ===== *)
theory Float64
  imports Complex_Main "HOL-Library.Log_Nat"
begin

text \<open>
  Go's \<^verbatim>\<open>float64\<close> arithmetic on the values the bridge computes with: a finite double is the rational
  it denotes, and every operation rounds its exact result to 53 significant bits, to nearest with
  ties to even. The range of the exponent is not limited: the quantities here (minutes, tokens, seconds)
  stay far from overflow and from the subnormal numbers.
\<close>

definition half_even :: "rat \<Rightarrow> int" where
  "half_even x =
     (let n = \<lfloor>x\<rfloor>; r = x - of_int n
      in if r < 1 / 2 then n else if r > 1 / 2 then n + 1 else if even n then n else n + 1)"

text \<open>The exponent \<open>e\<close> with \<open>2 ^ e \<le> x < 2 ^ (e + 1)\<close> of a positive rational.\<close>

definition exponent2 :: "rat \<Rightarrow> int" where
  "exponent2 x =
     (let (p, q) = quotient_of x; e = bitlen p - bitlen q
      in if 2 powi e \<le> x then e else e - 1)"

definition rnd_pos :: "rat \<Rightarrow> rat" where
  "rnd_pos x = (let u = 2 powi (exponent2 x - 52) in of_int (half_even (x / u)) * u)"

definition rnd64 :: "rat \<Rightarrow> rat" where
  "rnd64 x = (if x = 0 then 0 else if x > 0 then rnd_pos x else - rnd_pos (- x))"

lemma half_even_of_int [simp]: "half_even (of_int n) = n"
  by (simp add: half_even_def)

lemma half_even_mono: "x \<le> y \<Longrightarrow> half_even x \<le> half_even y"
proof -
  assume le: "x \<le> y"
  then have fl: "\<lfloor>x\<rfloor> \<le> \<lfloor>y\<rfloor>" by (rule floor_mono)
  have up: "half_even z \<le> \<lfloor>z\<rfloor> + 1" "\<lfloor>z\<rfloor> \<le> half_even z" for z by (auto simp: half_even_def Let_def)
  show ?thesis
  proof (cases "\<lfloor>x\<rfloor> = \<lfloor>y\<rfloor>")
    case True
    with le show ?thesis by (auto simp: half_even_def Let_def)
  next
    case False
    with fl up(1) [of x] up(2) [of y] show ?thesis by linarith
  qed
qed

lemma half_even_nonneg: "0 \<le> x \<Longrightarrow> 0 \<le> half_even x"
  using half_even_mono [of 0 x] half_even_of_int [of 0] by simp

lemma rnd_pos_nonneg: "0 < x \<Longrightarrow> 0 \<le> rnd_pos x"
  by (simp add: rnd_pos_def Let_def half_even_nonneg)

lemma rnd64_zero [simp]: "rnd64 0 = 0"
  by (simp add: rnd64_def)

lemma rnd64_nonneg: "0 \<le> x \<Longrightarrow> 0 \<le> rnd64 x"
  by (auto simp: rnd64_def rnd_pos_nonneg)

text \<open>Integers of up to 53 bits are doubles: rounding leaves them alone.\<close>

lemma exponent2_of_int:
  assumes "0 < n"
  shows "exponent2 (of_int n) = bitlen n - 1"
proof -
  have pos: "0 \<le> bitlen n - 1" using bitlen_nonneg [of n] bitlen_eq_zero_iff [of n] assms by linarith
  have "(2::int) ^ nat (bitlen n - 1) \<le> n" using bitlen_bounds [of n] assms by blast
  then have "of_int (2 ^ nat (bitlen n - 1)) \<le> (of_int n :: rat)" by (simp only: of_int_le_iff)
  with pos have "2 powi (bitlen n - 1) \<le> (of_int n :: rat)" by (simp add: power_int_def)
  moreover have "bitlen 1 = 1" by (simp add: bitlen_alt_def)
  ultimately show ?thesis by (simp add: exponent2_def)
qed

lemma rnd_pos_of_int:
  assumes "0 < n" "n < 2 ^ 53"
  shows "rnd_pos (of_int n) = of_int n"
proof -
  define k where "k = nat (53 - bitlen n)"
  have "bitlen n \<le> 53" using assms by (simp add: bitlen_le_iff_power)
  then have e: "exponent2 (of_int n) - 52 = - int k" using exponent2_of_int [OF assms(1)] by (simp add: k_def)
  have u: "2 powi (- int k) = (1 / 2 ^ k :: rat)" by (simp add: power_int_minus power_int_def field_simps)
  have "of_int n / (1 / 2 ^ k :: rat) = of_int (n * 2 ^ k)" by simp
  then have "half_even (of_int n / (1 / 2 ^ k)) = n * 2 ^ k" by (simp only: half_even_of_int)
  then show ?thesis by (simp add: rnd_pos_def Let_def e u)
qed

lemma rnd64_of_int: "\<bar>n\<bar> < 2 ^ 53 \<Longrightarrow> rnd64 (of_int n) = of_int n"
  using rnd_pos_of_int [of n] rnd_pos_of_int [of "- n"] by (auto simp: rnd64_def)

end
