(* ===== verification/Send_Budget.thy ===== *)
theory Send_Budget
  imports Float64 Chat_Policy
begin

text \<open>
  The send budget (\<^verbatim>\<open>send_limits.go\<close>): the durable usage row with its daily counters, token bucket and
  interval, \<^verbatim>\<open>readSendState\<close>, \<^verbatim>\<open>reserveSend\<close> and \<^verbatim>\<open>releaseSendReservation\<close>. Each runs under
  \<^verbatim>\<open>sendMu\<close> and in one immediate transaction, so it is one step on the store; a failing statement
  rolls the transaction back. A day is the number of days since the epoch in UTC, a token count
  the rational a \<^verbatim>\<open>float64\<close> denotes (theory \<open>Float64\<close>). The alternate identity of a target comes from
  the SDK's LID map, the argument \<open>alt\<close>.
\<close>

section \<open>State\<close>

record send_limits =
  MinuteLimit :: int
  DayLimit :: int
  NewChatsLimit :: int
  MinIntervalMS :: int

record send_usage =
  su_day :: "int option"
  su_today :: int
  su_newChats :: int
  su_refusals :: int
  su_tokens :: rat
  su_rate :: int
  su_refill :: int
  su_last :: int

record send_store =
  ss_usage :: "send_usage option"
  ss_contacts :: "string list"
  ss_reasons :: "string \<Rightarrow> nat"
  ss_archived :: "string list"

record sendReservation =
  r_active :: bool
  r_day :: "int option"
  r_count :: int
  r_fresh :: int
  r_last :: int
  r_previousLast :: int
  r_contacts :: "string list"

definition day_ns :: duration where "day_ns = 24 * hour"

definition day_of :: "instant \<Rightarrow> int" where
  "day_of now = now div day_ns"

definition zero_usage :: send_usage where
  "zero_usage = \<lparr>su_day = None, su_today = 0, su_newChats = 0, su_refusals = 0, su_tokens = 0, su_rate = 0,
     su_refill = 0, su_last = 0\<rparr>"

definition f64 :: "int \<Rightarrow> rat" where
  "f64 n = rnd64 (of_int n)"

text \<open>\<^verbatim>\<open>Duration.Seconds\<close>, for a nonnegative duration.\<close>

definition Seconds :: "duration \<Rightarrow> rat" where
  "Seconds d = rnd64 (of_int (d div second) + rnd64 (of_int (d mod second) / 1000000000))"

section \<open>Operations\<close>

definition refilled :: "send_limits \<Rightarrow> instant \<Rightarrow> send_usage \<Rightarrow> rat" where
  "refilled l now s =
     (let tokens =
        (if su_refill s = 0 \<or> su_rate s = 0 then f64 (MinuteLimit l)
         else rnd64 (su_tokens s +
           rnd64 (max 0 (rnd64 (f64 (now - su_refill s) / f64 minute)) * f64 (su_rate s))))
      in min tokens (f64 (MinuteLimit l)))"

definition readSendState :: "send_limits \<Rightarrow> instant \<Rightarrow> send_store \<Rightarrow> send_usage" where
  "readSendState l now db =
     (let s0 = (case ss_usage db of None \<Rightarrow> zero_usage | Some row \<Rightarrow> row);
          s1 = (if su_day s0 \<noteq> Some (day_of now)
                then s0\<lparr>su_day := Some (day_of now), su_today := 0, su_newChats := 0, su_refusals := 0\<rparr> else s0)
      in s1\<lparr>su_tokens := refilled l now s1, su_rate := MinuteLimit l, su_refill := now\<rparr>)"

definition ResetsAt :: "instant \<Rightarrow> instant" where
  "ResetsAt now = (day_of now + 1) * day_ns"

datatype alt_result = AltUnavailable | AltFailed | AltJID jid

definition send_twin :: "jid_sdk \<Rightarrow> (jid \<Rightarrow> alt_result) \<Rightarrow> string \<Rightarrow> string option" where
  "send_twin sdk alt target =
     (case ParseJID sdk target of
        None \<Rightarrow> Some []
      | Some j \<Rightarrow>
          if Server j = DefaultUserServer \<or> Server j = HiddenUserServer then
            (case alt j of AltUnavailable \<Rightarrow> Some [] | AltFailed \<Rightarrow> None | AltJID a \<Rightarrow> Some (JIDString sdk a))
          else Some [])"

definition known_contact :: "send_store \<Rightarrow> string \<Rightarrow> bool" where
  "known_contact db chat \<longleftrightarrow> chat \<in> set (ss_archived db) \<or> chat \<in> set (ss_contacts db)"

text \<open>The loop over the targets: the distinct targets in order and the number of chats that are new, each
  person counted once whichever identity names them. None is a failed lookup.\<close>

fun count_fresh ::
    "jid_sdk \<Rightarrow> (jid \<Rightarrow> alt_result) \<Rightarrow> send_store \<Rightarrow> string list \<Rightarrow> string list \<Rightarrow> int \<Rightarrow> string list \<Rightarrow> (string list \<times> int) option" where
  "count_fresh sdk alt db unique identities fresh [] = Some (unique, fresh)"
| "count_fresh sdk alt db unique identities fresh (target # targets) =
     (if target \<in> set unique then count_fresh sdk alt db unique identities fresh targets
      else case send_twin sdk alt target of
          None \<Rightarrow> None
        | Some twin \<Rightarrow>
            let unique1 = unique @ [target]
            in if target \<in> set identities \<or> (twin \<noteq> [] \<and> twin \<in> set identities)
               then count_fresh sdk alt db unique1 identities fresh targets
               else
                 let identities1 = target # (if twin \<noteq> [] then [twin] else []) @ identities;
                     exists = (known_contact db target \<or> known_contact db twin)
                 in count_fresh sdk alt db unique1 identities1 (if exists then fresh else fresh + 1) targets)"

definition delay_of :: "rat \<Rightarrow> int" where
  "delay_of seconds = max 1 \<lceil>seconds\<rceil>"

definition interval_left :: "send_limits \<Rightarrow> instant \<Rightarrow> send_usage \<Rightarrow> duration" where
  "interval_left l now s = MinIntervalMS l * millisecond - (now - su_last s)"

text \<open>The first limit a batch breaks, with the delay reported for it.\<close>

definition refusal :: "send_limits \<Rightarrow> instant \<Rightarrow> send_usage \<Rightarrow> int \<Rightarrow> int \<Rightarrow> (string \<times> int) option" where
  "refusal l now s count fresh =
     (if (DayLimit l > 0 \<and> count > DayLimit l) \<or> (MinuteLimit l > 0 \<and> count > MinuteLimit l)
         \<or> (NewChatsLimit l > 0 \<and> fresh > NewChatsLimit l) then Some (''limit_exceeds_batch'', 0)
      else if DayLimit l > 0 \<and> su_today s + count > DayLimit l
        then Some (''per_day'', delay_of (Seconds (ResetsAt now - now)))
      else if NewChatsLimit l > 0 \<and> su_newChats s + fresh > NewChatsLimit l
        then Some (''new_chats_per_day'', delay_of (Seconds (ResetsAt now - now)))
      else if MinuteLimit l > 0 \<and> su_tokens s < f64 count
        then Some (''per_minute'', delay_of (rnd64 (rnd64 (rnd64 (f64 count - su_tokens s) * 60) / f64 (MinuteLimit l))))
      else if MinIntervalMS l > 0 \<and> su_last s > 0 \<and> interval_left l now s > 0
        then Some (''min_interval'', delay_of (Seconds (interval_left l now s)))
      else None)"

datatype reserve_result =
    ReserveFailed bool
  | Refused string int
  | Reserved sendReservation

definition limits_enabled :: "send_limits \<Rightarrow> bool" where
  "limits_enabled l \<longleftrightarrow> MinuteLimit l > 0 \<or> DayLimit l > 0 \<or> NewChatsLimit l > 0 \<or> MinIntervalMS l > 0"

definition reserveSend ::
    "jid_sdk \<Rightarrow> (jid \<Rightarrow> alt_result) \<Rightarrow> send_limits \<Rightarrow> instant \<Rightarrow> string list \<Rightarrow> send_store \<Rightarrow> reserve_result \<times> send_store" where
  "reserveSend sdk alt l now targets db =
     (let s = readSendState l now db
      in case count_fresh sdk alt db [] [] 0 targets of
           None \<Rightarrow> (ReserveFailed (limits_enabled l), db)
         | Some (unique, fresh) \<Rightarrow>
             let count = int (length targets)
             in case refusal l now s count fresh of
                  Some (reason, delay) \<Rightarrow>
                    (Refused reason delay,
                     db\<lparr>ss_usage := Some (s\<lparr>su_refusals := su_refusals s + 1\<rparr>),
                        ss_reasons := (ss_reasons db)(reason := ss_reasons db reason + 1)\<rparr>)
                | None \<Rightarrow>
                    let last = max now (su_last s + 1);
                        new = filter (\<lambda>t. t \<notin> set (ss_contacts db)) unique
                    in (Reserved \<lparr>r_active = True, r_day = su_day s, r_count = count, r_fresh = fresh, r_last = last,
                          r_previousLast = su_last s, r_contacts = new\<rparr>,
                        db\<lparr>ss_usage := Some (s\<lparr>su_today := su_today s + count, su_newChats := su_newChats s + fresh,
                             su_tokens := rnd64 (su_tokens s - f64 count), su_last := last\<rparr>),
                           ss_contacts := ss_contacts db @ new\<rparr>))"

definition releaseSendReservation ::
    "send_limits \<Rightarrow> instant \<Rightarrow> sendReservation \<Rightarrow> send_store \<Rightarrow> sendReservation \<times> send_store" where
  "releaseSendReservation l now r db =
     (if \<not> r_active r then (r, db)
      else
        let s = readSendState l now db;
            s1 = (if su_day s = r_day r then s\<lparr>su_today := max 0 (su_today s - r_count r)\<rparr> else s);
            latest = (su_last s1 = r_last r);
            s2 = (if latest then
                    s1\<lparr>su_tokens := min (f64 (MinuteLimit l)) (rnd64 (su_tokens s1 + f64 (r_count r))),
                       su_last := r_previousLast r,
                       su_newChats := (if su_day s1 = r_day r then max 0 (su_newChats s1 - r_fresh r) else su_newChats s1)\<rparr>
                  else s1)
        in (r\<lparr>r_active := False\<rparr>,
            db\<lparr>ss_usage := (case ss_usage db of None \<Rightarrow> None | Some _ \<Rightarrow> Some s2),
               ss_contacts := (if latest then filter (\<lambda>c. c \<notin> set (r_contacts r)) (ss_contacts db) else ss_contacts db)\<rparr>))"

section \<open>Lemmas\<close>

lemma f64_zero [simp]: "f64 0 = 0"
  by (simp add: f64_def)

lemma f64_exact: "\<bar>n\<bar> < 2 ^ 53 \<Longrightarrow> f64 n = of_int n"
  by (simp add: f64_def rnd64_of_int)

lemma readSendState_sel [simp]:
  "su_day (readSendState l now db) = Some (day_of now)"
  "su_rate (readSendState l now db) = MinuteLimit l" "su_refill (readSendState l now db) = now"
  "su_last (readSendState l now db) = (case ss_usage db of None \<Rightarrow> 0 | Some u \<Rightarrow> su_last u)"
  by (simp_all add: readSendState_def Let_def zero_usage_def split: option.split)

lemma readSendState_counts:
  "su_today (readSendState l now db) = (case ss_usage db of Some u \<Rightarrow> if su_day u = Some (day_of now) then su_today u else 0 | None \<Rightarrow> 0)"
  "su_newChats (readSendState l now db) = (case ss_usage db of Some u \<Rightarrow> if su_day u = Some (day_of now) then su_newChats u else 0 | None \<Rightarrow> 0)"
  "su_refusals (readSendState l now db) = (case ss_usage db of Some u \<Rightarrow> if su_day u = Some (day_of now) then su_refusals u else 0 | None \<Rightarrow> 0)"
  by (simp_all add: readSendState_def zero_usage_def Let_def split: option.split)

lemma count_fresh_unique:
  assumes "count_fresh sdk alt db unique identities fresh targets = Some (u, f)"
  shows "set u = set unique \<union> set targets \<and> fresh \<le> f \<and> f \<le> fresh + int (length targets)"
  using assms
proof (induction targets arbitrary: unique identities fresh)
  case (Cons t ts)
  show ?case
  proof (cases "t \<in> set unique")
    case True
    with Cons.prems Cons.IH [of unique identities fresh] show ?thesis by auto
  next
    case False
    then obtain twin where twin: "send_twin sdk alt t = Some twin" using Cons.prems by (auto split: option.splits)
    obtain ids g where g: "count_fresh sdk alt db (unique @ [t]) ids g ts = Some (u, f)" "fresh \<le> g" "g \<le> fresh + 1"
      using Cons.prems False twin by (auto simp: Let_def split: if_splits)
    from Cons.IH [OF g(1)] g(2,3) show ?thesis by auto
  qed
qed simp

text \<open>Every branch of a reservation.\<close>

lemma reserveSend_cases:
  obtains (failed) "reserveSend sdk alt l now targets db = (ReserveFailed (limits_enabled l), db)"
      "count_fresh sdk alt db [] [] 0 targets = None"
  | (refused) unique fresh reason delay where
      "count_fresh sdk alt db [] [] 0 targets = Some (unique, fresh)"
      "refusal l now (readSendState l now db) (int (length targets)) fresh = Some (reason, delay)"
      "reserveSend sdk alt l now targets db = (Refused reason delay,
         db\<lparr>ss_usage := Some ((readSendState l now db)\<lparr>su_refusals := su_refusals (readSendState l now db) + 1\<rparr>),
            ss_reasons := (ss_reasons db)(reason := ss_reasons db reason + 1)\<rparr>)"
  | (granted) unique fresh where
      "count_fresh sdk alt db [] [] 0 targets = Some (unique, fresh)"
      "refusal l now (readSendState l now db) (int (length targets)) fresh = None"
      "reserveSend sdk alt l now targets db =
        (Reserved \<lparr>r_active = True, r_day = Some (day_of now), r_count = int (length targets), r_fresh = fresh,
           r_last = max now (su_last (readSendState l now db) + 1),
           r_previousLast = su_last (readSendState l now db), r_contacts = filter (\<lambda>t. t \<notin> set (ss_contacts db)) unique\<rparr>,
         db\<lparr>ss_usage := Some ((readSendState l now db)\<lparr>su_today := su_today (readSendState l now db) + int (length targets),
              su_newChats := su_newChats (readSendState l now db) + fresh,
              su_tokens := rnd64 (su_tokens (readSendState l now db) - f64 (int (length targets))),
              su_last := max now (su_last (readSendState l now db) + 1)\<rparr>),
            ss_contacts := ss_contacts db @ filter (\<lambda>t. t \<notin> set (ss_contacts db)) unique\<rparr>)"
proof (cases "count_fresh sdk alt db [] [] 0 targets")
  case None
  then show ?thesis by (intro failed) (simp_all add: reserveSend_def Let_def)
next
  case (Some p)
  then obtain unique fresh where c: "count_fresh sdk alt db [] [] 0 targets = Some (unique, fresh)" by (cases p) auto
  show ?thesis
  proof (cases "refusal l now (readSendState l now db) (int (length targets)) fresh")
    case None
    with c show ?thesis by (intro granted) (simp_all add: reserveSend_def Let_def)
  next
    case (Some q)
    then obtain reason delay where "refusal l now (readSendState l now db) (int (length targets)) fresh = Some (reason, delay)"
      by (cases q) auto
    with c show ?thesis by (intro refused) (simp_all add: reserveSend_def Let_def)
  qed
qed

lemma refusal_None:
  assumes "refusal l now s count fresh = None"
  shows "DayLimit l > 0 \<Longrightarrow> su_today s + count \<le> DayLimit l"
    and "NewChatsLimit l > 0 \<Longrightarrow> su_newChats s + fresh \<le> NewChatsLimit l"
    and "MinuteLimit l > 0 \<Longrightarrow> f64 count \<le> su_tokens s \<and> count \<le> MinuteLimit l"
    and "MinIntervalMS l > 0 \<Longrightarrow> su_last s > 0 \<Longrightarrow> MinIntervalMS l * millisecond \<le> now - su_last s"
  using assms by (auto simp: refusal_def interval_left_def not_less split: if_splits)

lemma granted_usage:
  assumes "reserveSend sdk alt l now targets db = (Reserved r, db')"
  shows "\<exists>u. ss_usage db' = Some u \<and> su_today u = su_today (readSendState l now db) + int (length targets)
     \<and> (DayLimit l > 0 \<longrightarrow> su_today u \<le> DayLimit l)"
proof (cases rule: reserveSend_cases [of sdk alt l now targets db])
  case (granted unique fresh)
  with assms refusal_None(1) [OF granted(2)] show ?thesis by auto
qed (use assms in auto)

text \<open>A budget and a first send to exercise the properties on.\<close>

definition sample_limits :: send_limits where
  "sample_limits = \<lparr>MinuteLimit = 5, DayLimit = 10, NewChatsLimit = 3, MinIntervalMS = 0\<rparr>"

definition fresh_store :: send_store where
  "fresh_store = \<lparr>ss_usage = None, ss_contacts = [], ss_reasons = (\<lambda>_. 0), ss_archived = []\<rparr>"

definition no_alt :: "jid \<Rightarrow> alt_result" where
  "no_alt j = AltUnavailable"

lemma sample_grant:
  obtains r db' where "reserveSend plain_sdk no_alt sample_limits 1000 [''5511@s.whatsapp.net''] fresh_store = (Reserved r, db')"
proof -
  have "case fst (reserveSend plain_sdk no_alt sample_limits 1000 [''5511@s.whatsapp.net''] fresh_store) of
      Reserved r \<Rightarrow> True | _ \<Rightarrow> False" by code_simp
  with that show ?thesis
    by (cases "reserveSend plain_sdk no_alt sample_limits 1000 [''5511@s.whatsapp.net''] fresh_store")
      (auto split: reserve_result.splits)
qed

text \<open>A granted send respects every limit and is charged before anything is sent: afterwards the
  day's count and the day's new chats are within their limits, the bucket held the whole batch and
  is not overdrawn, the minimum interval since the previous grant has passed, the batch is counted,
  its targets are known contacts, and the time mark of the grant is later than any before.\<close>

lemma reserveSend_within_limits:
  assumes "reserveSend sdk alt l now targets db = (Reserved r, db')"
  shows "\<exists>u. ss_usage db' = Some u
     \<and> su_today u = su_today (readSendState l now db) + int (length targets)
     \<and> (DayLimit l > 0 \<longrightarrow> su_today u \<le> DayLimit l)
     \<and> (NewChatsLimit l > 0 \<longrightarrow> su_newChats u \<le> NewChatsLimit l)
     \<and> (MinuteLimit l > 0 \<longrightarrow> int (length targets) \<le> MinuteLimit l \<and>
          f64 (int (length targets)) \<le> su_tokens (readSendState l now db) \<and> 0 \<le> su_tokens u)
     \<and> (MinIntervalMS l > 0 \<and> r_previousLast r > 0 \<longrightarrow> now - r_previousLast r \<ge> MinIntervalMS l * millisecond)
     \<and> su_last u = r_last r \<and> r_previousLast r < r_last r
     \<and> set targets \<subseteq> set (ss_contacts db')"
proof (cases rule: reserveSend_cases [of sdk alt l now targets db])
  case (granted unique fresh)
  note limits = refusal_None [OF granted(2)]
  have "MinuteLimit l > 0 \<Longrightarrow> 0 \<le> rnd64 (su_tokens (readSendState l now db) - f64 (int (length targets)))"
    using limits(3) by (intro rnd64_nonneg) simp
  moreover have "set unique = set targets" using count_fresh_unique [OF granted(1)] by simp
  ultimately show ?thesis using assms granted(3) limits by (auto simp: max_def)
qed (use assms in auto)

theorem reserveSend_within_limits_witness:
  "\<exists>r db' u. reserveSend plain_sdk no_alt sample_limits 1000 [''5511@s.whatsapp.net''] fresh_store = (Reserved r, db')
     \<and> ss_usage db' = Some u \<and> su_today u \<le> 10 \<and> 0 \<le> su_tokens u"
proof -
  obtain r db' where g: "reserveSend plain_sdk no_alt sample_limits 1000 [''5511@s.whatsapp.net''] fresh_store = (Reserved r, db')"
    by (rule sample_grant)
  from reserveSend_within_limits [OF g] g show ?thesis by (auto simp: sample_limits_def)
qed

section \<open>Reservations over the days\<close>

text \<open>A run of the budget: reservations and releases of earlier ones, in any order, each under the limits
  in force when it runs. The receipts are kept in the order they were issued, each with the day it was
  charged to.\<close>

record send_run =
  d_store :: send_store
  d_receipts :: "sendReservation list"

datatype send_op = Reserve send_limits instant "string list" | Release send_limits instant nat

fun op_day :: "send_op \<Rightarrow> int" where
  "op_day (Reserve _ t _) = day_of t"
| "op_day (Release _ t _) = day_of t"

fun run_send_op :: "jid_sdk \<Rightarrow> (jid \<Rightarrow> alt_result) \<Rightarrow> send_op \<Rightarrow> send_run \<Rightarrow> send_run" where
  "run_send_op sdk alt (Reserve l now targets) d =
     (case reserveSend sdk alt l now targets (d_store d) of
        (Reserved r, db) \<Rightarrow> \<lparr>d_store = db, d_receipts = d_receipts d @ [r]\<rparr>
      | (_, db) \<Rightarrow> d\<lparr>d_store := db\<rparr>)"
| "run_send_op sdk alt (Release l now i) d =
     (if i < length (d_receipts d) then
        let (r, db) = releaseSendReservation l now (d_receipts d ! i) (d_store d)
        in \<lparr>d_store = db, d_receipts = (d_receipts d)[i := r]\<rparr>
      else d)"

text \<open>The sends charged to a day and not proven undelivered, and the count the stored row carries for
  that day.\<close>

definition charge_on :: "int \<Rightarrow> sendReservation \<Rightarrow> int" where
  "charge_on day r = (if r_active r \<and> r_day r = Some day then r_count r else 0)"

definition outstanding :: "int \<Rightarrow> sendReservation list \<Rightarrow> int" where
  "outstanding day rs = (\<Sum>r \<leftarrow> rs. charge_on day r)"

definition today_of :: "int \<Rightarrow> send_store \<Rightarrow> int" where
  "today_of day db = (case ss_usage db of Some u \<Rightarrow> if su_day u = Some day then su_today u else 0 | None \<Rightarrow> 0)"

definition row_within :: "int \<Rightarrow> send_store \<Rightarrow> bool" where
  "row_within day db \<longleftrightarrow> (\<forall>u. ss_usage db = Some u \<longrightarrow> (\<exists>k \<le> day. su_day u = Some k))"

text \<open>The books on a day that is not over: no receipt is from a later day than the row, and the row's count
  is what it carried at the start plus the charges since.\<close>

definition books_inv :: "(int \<Rightarrow> int) \<Rightarrow> int \<Rightarrow> send_run \<Rightarrow> bool" where
  "books_inv base day d \<longleftrightarrow>
     row_within day (d_store d)
     \<and> (\<forall>r \<in> set (d_receipts d). 0 \<le> r_count r \<and>
          (\<exists>u k m. ss_usage (d_store d) = Some u \<and> su_day u = Some k \<and> r_day r = Some m \<and> m \<le> k))
     \<and> (\<forall>k \<ge> day. today_of k (d_store d) = base k + outstanding k (d_receipts d))"

lemma outstanding_append: "outstanding k (rs @ [r]) = outstanding k rs + charge_on k r"
  by (simp add: outstanding_def)

lemma outstanding_update:
  "i < length rs \<Longrightarrow> outstanding k (rs[i := r]) = outstanding k rs - charge_on k (rs ! i) + charge_on k r"
proof (induction rs arbitrary: i)
  case (Cons x xs)
  then show ?case by (cases i) (auto simp: outstanding_def)
qed simp

lemma outstanding_nonneg: "\<forall>r \<in> set rs. 0 \<le> r_count r \<Longrightarrow> 0 \<le> outstanding k rs"
  by (induction rs) (auto simp: outstanding_def charge_on_def)

lemma outstanding_member:
  "\<forall>r \<in> set rs. 0 \<le> r_count r \<Longrightarrow> i < length rs \<Longrightarrow> charge_on k (rs ! i) \<le> outstanding k rs"
proof (induction rs arbitrary: i)
  case (Cons x xs)
  then show ?case using outstanding_nonneg [of xs k]
    by (cases i) (fastforce simp: outstanding_def charge_on_def)+
qed simp

lemma outstanding_none: "\<forall>r \<in> set rs. r_day r \<noteq> Some k \<Longrightarrow> outstanding k rs = 0"
  by (induction rs) (auto simp: outstanding_def charge_on_def)

text \<open>A read counts the stored row's sends of the day it runs on, and none of an earlier day's.\<close>

lemma su_today_readSendState: "su_today (readSendState l now db) = today_of (day_of now) db"
  by (simp add: readSendState_counts today_of_def)

lemma today_of_Some: "ss_usage db = Some u \<Longrightarrow> su_day u = Some k \<Longrightarrow> today_of m db = (if m = k then su_today u else 0)"
  by (simp add: today_of_def)

lemma books_today: "books_inv base day d \<Longrightarrow> day \<le> k \<Longrightarrow> today_of k (d_store d) = base k + outstanding k (d_receipts d)"
  by (simp add: books_inv_def)

lemma books_receipt:
  assumes "books_inv base day d" "r \<in> set (d_receipts d)" "day \<le> now"
  shows "0 \<le> r_count r" "\<exists>m \<le> now. r_day r = Some m" "\<exists>u. ss_usage (d_store d) = Some u"
proof -
  obtain u k m where "0 \<le> r_count r" "ss_usage (d_store d) = Some u" "su_day u = Some k" "r_day r = Some m" "m \<le> k"
    using assms(1,2) unfolding books_inv_def by blast
  moreover from this assms(1) have "k \<le> day" by (auto simp: books_inv_def row_within_def)
  ultimately show "0 \<le> r_count r" "\<exists>m \<le> now. r_day r = Some m" "\<exists>u. ss_usage (d_store d) = Some u"
    using assms(3) by (auto intro!: exI [of _ m])
qed

lemma row_within_later: "row_within day db \<Longrightarrow> day < k \<Longrightarrow> today_of k db = 0"
  by (force simp: row_within_def today_of_def split: option.split)

lemma books_mono: "books_inv base day d \<Longrightarrow> day \<le> day' \<Longrightarrow> books_inv base day' d"
  unfolding books_inv_def row_within_def by (meson order_trans)

text \<open>A step that writes the day's row and accounts for the change in the receipts keeps the books.\<close>

lemma books_step:
  assumes "ss_usage (d_store e) = Some v" "su_day v = Some now"
    and "\<forall>r \<in> set (d_receipts e). 0 \<le> r_count r \<and> (\<exists>m \<le> now. r_day r = Some m)"
    and "\<And>k. now \<le> k \<Longrightarrow> today_of k (d_store e) = base k + outstanding k (d_receipts e)"
  shows "books_inv base now e"
  using assms by (auto simp: books_inv_def row_within_def)

lemma reserve_books:
  assumes inv: "books_inv base day d" and le: "day \<le> day_of now"
  shows "books_inv base (day_of now) (run_send_op sdk alt (Reserve l now targets) d)"
proof -
  let ?s = "readSendState l now (d_store d)" and ?d = "run_send_op sdk alt (Reserve l now targets) d"
  have inv': "books_inv base (day_of now) d" by (rule books_mono [OF inv le])
  have later: "today_of k (d_store d) = 0" if "day_of now < k" for k
    using row_within_later [of "day_of now" "d_store d" k] inv' that unfolding books_inv_def by blast
  have rs: "\<forall>r \<in> set (d_receipts d). 0 \<le> r_count r \<and> (\<exists>m \<le> day_of now. r_day r = Some m)"
    using books_receipt [OF inv'] by blast
  show ?thesis
  proof (cases rule: reserveSend_cases [of sdk alt l now targets "d_store d"])
    case failed
    with inv' show ?thesis by simp
  next
    case (refused unique fresh reason delay)
    have u: "ss_usage (d_store ?d) = Some (?s\<lparr>su_refusals := su_refusals ?s + 1\<rparr>)" "d_receipts ?d = d_receipts d"
      by (simp_all add: refused(3))
    have "today_of k (d_store ?d) = today_of k (d_store d)" if "day_of now \<le> k" for k
      using that u later by (cases "k = day_of now") (simp_all add: today_of_Some su_today_readSendState)
    with books_today [OF inv'] u rs show ?thesis by (intro books_step [OF u(1)]) simp_all
  next
    case (granted unique fresh)
    obtain r v where r: "d_receipts ?d = d_receipts d @ [r]" "r_active r" "r_day r = Some (day_of now)" "r_count r = int (length targets)"
      and v: "ss_usage (d_store ?d) = Some v" "su_day v = Some (day_of now)"
        "su_today v = today_of (day_of now) (d_store d) + int (length targets)"
      by (simp add: granted(3) su_today_readSendState)
    have "today_of k (d_store ?d) = today_of k (d_store d) + charge_on k r" if "day_of now \<le> k" for k
      using that v r later by (cases "k = day_of now") (simp_all add: today_of_Some charge_on_def)
    with books_today [OF inv'] r rs show ?thesis by (intro books_step [OF v(1,2)]) (simp_all add: outstanding_append)
  qed
qed

lemma release_row:
  assumes "r_active r" "ss_usage db = Some u"
  shows "\<exists>v. ss_usage (snd (releaseSendReservation l now r db)) = Some v \<and> su_day v = Some (day_of now)
    \<and> su_today v = (if r_day r = Some (day_of now) then max 0 (today_of (day_of now) db - r_count r) else today_of (day_of now) db)"
proof (cases "r_day r = Some (day_of now)")
  case True
  then show ?thesis using assms
    by (cases "su_last (readSendState l now db) = r_last r") (simp_all add: releaseSendReservation_def Let_def su_today_readSendState)
next
  case False
  then show ?thesis using assms
    by (cases "su_last (readSendState l now db) = r_last r") (simp_all add: releaseSendReservation_def Let_def su_today_readSendState)
qed

lemma release_books:
  assumes inv: "books_inv base day d" and base: "\<And>k. 0 \<le> base k" and le: "day \<le> day_of now"
  shows "books_inv base (day_of now) (run_send_op sdk alt (Release l now i) d)"
proof (cases "i < length (d_receipts d) \<and> r_active (d_receipts d ! i)")
  case False
  then have "run_send_op sdk alt (Release l now i) d = d" by (auto simp: releaseSendReservation_def Let_def)
  with books_mono [OF inv le] show ?thesis by simp
next
  case True
  let ?r = "d_receipts d ! i" and ?d = "run_send_op sdk alt (Release l now i) d"
  have inv': "books_inv base (day_of now) d" by (rule books_mono [OF inv le])
  have later: "today_of k (d_store d) = 0" if "day_of now < k" for k
    using row_within_later [of "day_of now" "d_store d" k] inv' that unfolding books_inv_def by blast
  have rs: "\<forall>r \<in> set (d_receipts d). 0 \<le> r_count r \<and> (\<exists>m \<le> day_of now. r_day r = Some m)"
    using books_receipt [OF inv'] by blast
  have member: "?r \<in> set (d_receipts d)" using True by simp
  obtain u where u: "ss_usage (d_store d) = Some u" using books_receipt(3) [OF inv' member] by auto
  have receipts: "d_receipts ?d = (d_receipts d)[i := ?r\<lparr>r_active := False\<rparr>]"
    using True by (simp add: releaseSendReservation_def Let_def)
  have "charge_on (day_of now) ?r \<le> outstanding (day_of now) (d_receipts d)"
    using True rs by (intro outstanding_member) auto
  then have "charge_on (day_of now) ?r \<le> today_of (day_of now) (d_store d)" "0 \<le> today_of (day_of now) (d_store d)"
    using books_today [OF inv' order.refl] base [of "day_of now"] outstanding_nonneg [of "d_receipts d" "day_of now"] rs by auto
  moreover obtain v where v: "ss_usage (snd (releaseSendReservation l now ?r (d_store d))) = Some v" "su_day v = Some (day_of now)"
    "su_today v = (if r_day ?r = Some (day_of now) then max 0 (today_of (day_of now) (d_store d) - r_count ?r)
       else today_of (day_of now) (d_store d))"
    using release_row [of ?r "d_store d" u l now] True u by blast
  moreover have "d_store ?d = snd (releaseSendReservation l now ?r (d_store d))" using True by (simp add: case_prod_beta)
  ultimately have v: "ss_usage (d_store ?d) = Some v" "su_day v = Some (day_of now)"
    "su_today v = today_of (day_of now) (d_store d) - charge_on (day_of now) ?r"
    using True by (auto simp: charge_on_def)
  have "charge_on k ?r = 0" if "day_of now < k" for k
    using rs member that by (force simp: charge_on_def)
  then have "today_of k (d_store ?d) = today_of k (d_store d) - charge_on k ?r" if "day_of now \<le> k" for k
    using that v later by (cases "k = day_of now") (simp_all add: today_of_Some)
  moreover have "outstanding k (d_receipts ?d) = outstanding k (d_receipts d) - charge_on k ?r" for k
    using True receipts by (simp add: outstanding_update charge_on_def)
  moreover have "\<forall>r \<in> set (d_receipts ?d). 0 \<le> r_count r \<and> (\<exists>m \<le> day_of now. r_day r = Some m)"
    using receipts rs member by (auto dest!: set_update_subset_insert [THEN subsetD])
  ultimately show ?thesis using books_today [OF inv'] by (intro books_step [OF v(1,2)]) simp_all
qed

lemma run_send_op_books:
  "books_inv base day d \<Longrightarrow> (\<And>k. 0 \<le> base k) \<Longrightarrow> day \<le> op_day ev \<Longrightarrow> books_inv base (op_day ev) (run_send_op sdk alt ev d)"
  by (cases ev) (auto simp only: op_day.simps intro: reserve_books release_books)

lemma run_books:
  assumes "books_inv base day d" and "\<And>k. 0 \<le> base k" and "sorted (map op_day evs)" and "\<forall>ev \<in> set evs. day \<le> op_day ev"
  shows "\<exists>k. (k = day \<or> k \<in> op_day ` set evs) \<and> books_inv base k (fold (run_send_op sdk alt) evs d)"
  using assms(1,3,4)
proof (induction evs arbitrary: d day)
  case (Cons ev evs)
  have "books_inv base (op_day ev) (run_send_op sdk alt ev d)"
    using run_send_op_books [OF Cons.prems(1) assms(2)] Cons.prems(3) by simp
  from Cons.IH [OF this] Cons.prems(2) show ?case by auto
qed auto

text \<open>C32. A day's sends never exceed the day's limit. Over any sequence of reservations and releases, on one
  day or across days, each under the limits in force when it runs, and from any stored row, as long as the
  clock's day does not go back: the recorded count of the current day is exactly what the row already
  carried for that day plus the grants charged to it since and not proven undelivered, so an earlier day's
  sends never count; and a further reservation that day is granted only when the count including it is
  within the daily limit in force, if there is one.\<close>

theorem send_day_within_limit:
  assumes "sorted (map op_day evs)" and "\<forall>ev \<in> set evs. day \<le> op_day ev \<and> op_day ev \<le> day_of now"
    and "row_within day db" and "day \<le> day_of now" and "\<forall>k. 0 \<le> today_of k db"
    and "d = fold (run_send_op sdk alt) evs \<lparr>d_store = db, d_receipts = []\<rparr>"
  shows "today_of (day_of now) (d_store d) = today_of (day_of now) db + outstanding (day_of now) (d_receipts d)
     \<and> 0 \<le> outstanding (day_of now) (d_receipts d)
     \<and> (\<forall>l targets r db'. reserveSend sdk alt l now targets (d_store d) = (Reserved r, db') \<longrightarrow>
          today_of (day_of now) db' = today_of (day_of now) (d_store d) + int (length targets)
          \<and> (DayLimit l > 0 \<longrightarrow> today_of (day_of now) db' \<le> DayLimit l))"
proof -
  have "books_inv (\<lambda>k. today_of k db) day \<lparr>d_store = db, d_receipts = []\<rparr>"
    using assms(3) by (simp add: books_inv_def outstanding_def)
  from run_books [OF this] assms obtain k where k: "k \<le> day_of now" "books_inv (\<lambda>k. today_of k db) k d" by fastforce
  then have exact: "today_of (day_of now) (d_store d) = today_of (day_of now) db + outstanding (day_of now) (d_receipts d)"
    by (simp add: books_inv_def)
  have pos: "0 \<le> outstanding (day_of now) (d_receipts d)"
    using k(2) by (intro outstanding_nonneg) (auto simp: books_inv_def)
  have "today_of (day_of now) db' = today_of (day_of now) (d_store d) + int (length targets)
      \<and> (DayLimit l > 0 \<longrightarrow> today_of (day_of now) db' \<le> DayLimit l)"
    if g: "reserveSend sdk alt l now targets (d_store d) = (Reserved r, db')" for l targets r db'
  proof (cases rule: reserveSend_cases [of sdk alt l now targets "d_store d"])
    case (granted unique fresh)
    with g refusal_None(1) [OF granted(2)] show ?thesis by (auto simp: today_of_def [of _ db'] su_today_readSendState)
  qed (use g in auto)
  with exact pos show ?thesis by blast
qed

text \<open>Two days under a daily limit alone: a send on the first, two on the second of which one is proven
  undelivered.\<close>

definition daily_limits :: send_limits where
  "daily_limits = \<lparr>MinuteLimit = 0, DayLimit = 10, NewChatsLimit = 0, MinIntervalMS = 0\<rparr>"

definition two_days :: "send_op list" where
  "two_days = [Reserve daily_limits 1000 [''5511@s.whatsapp.net''],
     Reserve daily_limits (day_ns + 1000) [''5511@s.whatsapp.net''],
     Reserve daily_limits (day_ns + 2000) [''5512@s.whatsapp.net''], Release daily_limits (day_ns + 3000) 1]"

theorem send_day_within_limit_witness:
  "let d = fold (run_send_op plain_sdk no_alt) two_days \<lparr>d_store = fresh_store, d_receipts = []\<rparr>
   in today_of 1 (d_store d) = outstanding 1 (d_receipts d) \<and> outstanding 1 (d_receipts d) = 1"
proof -
  let ?d = "fold (run_send_op plain_sdk no_alt) two_days \<lparr>d_store = fresh_store, d_receipts = []\<rparr>"
  have day: "day_of (day_ns + 4000) = 1" by code_simp
  have evs: "sorted (map op_day two_days)" "\<forall>ev \<in> set two_days. 0 \<le> op_day ev \<and> op_day ev \<le> day_of (day_ns + 4000)"
    by code_simp+
  have start: "row_within 0 fresh_store" "0 \<le> day_of (day_ns + 4000)" "\<forall>k. 0 \<le> today_of k fresh_store"
    by (simp_all add: row_within_def fresh_store_def today_of_def day)
  have one: "outstanding 1 (d_receipts ?d) = 1" by code_simp
  from send_day_within_limit [OF evs start refl, of plain_sdk no_alt] one show ?thesis
    by (simp add: day Let_def today_of_def [of 1 fresh_store] fresh_store_def [THEN arg_cong [of _ _ ss_usage]])
qed

section \<open>Refunds\<close>

text \<open>What a reservation leaves for a later read: everything but the tokens is the read that would have been
  made without it, with the day's counters and the interval mark moved on.\<close>

lemma read_after_grant:
  assumes "reserveSend sdk alt l now targets db = (Reserved r, db')" and "row_within (day_of now) db" and "day_of now \<le> day_of later"
  shows "\<exists>t. readSendState l2 later db' = (readSendState l2 later db)\<lparr>
       su_today := su_today (readSendState l2 later db) + (if day_of later = day_of now then r_count r else 0),
       su_newChats := su_newChats (readSendState l2 later db) + (if day_of later = day_of now then r_fresh r else 0),
       su_last := r_last r, su_tokens := t\<rparr> \<and> t \<le> f64 (MinuteLimit l2)"
proof (cases rule: reserveSend_cases [of sdk alt l now targets db])
  case (granted unique fresh)
  let ?w = "readSendState l2 later db" and ?s = "readSendState l now db" and ?t = "su_tokens (readSendState l2 later db')"
  have db': "ss_usage db' = Some (?s\<lparr>su_today := su_today ?s + r_count r, su_newChats := su_newChats ?s + r_fresh r,
      su_tokens := rnd64 (su_tokens ?s - f64 (r_count r)), su_last := r_last r\<rparr>)"
    using assms(1) granted(3) by auto
  have old: "su_day u \<noteq> Some (day_of later)" if "ss_usage db = Some u" "day_of later \<noteq> day_of now" for u
    using that assms(2,3) by (auto simp: row_within_def)
  have "readSendState l2 later db' = ?w\<lparr>
       su_today := su_today ?w + (if day_of later = day_of now then r_count r else 0),
       su_newChats := su_newChats ?w + (if day_of later = day_of now then r_fresh r else 0),
       su_last := r_last r, su_tokens := ?t\<rparr>"
    by (rule send_usage.equality)
      (use db' old in \<open>simp_all add: readSendState_counts split: option.split\<close>)
  moreover have "?t \<le> f64 (MinuteLimit l2)" by (simp add: readSendState_def refilled_def Let_def)
  ultimately show ?thesis by blast
qed (use assms(1) in auto)

lemma granted_receipt_all:
  assumes "reserveSend sdk alt l now targets db = (Reserved r, db')"
  shows "r_active r \<and> r_day r = Some (day_of now) \<and> r_count r = int (length targets) \<and> 0 \<le> r_fresh r
    \<and> r_previousLast r = su_last (readSendState l now db) \<and> ss_usage db' \<noteq> None
    \<and> filter (\<lambda>c. c \<notin> set (r_contacts r)) (ss_contacts db') = ss_contacts db"
proof (cases rule: reserveSend_cases [of sdk alt l now targets db])
  case (granted unique fresh)
  with assms count_fresh_unique [OF granted(1)] show ?thesis by (auto simp: filter_id_conv filter_empty_conv)
qed (use assms in auto)

lemmas granted_receipt = granted_receipt_all [THEN conjunct1]
  granted_receipt_all [THEN conjunct2, THEN conjunct1]
  granted_receipt_all [THEN conjunct2, THEN conjunct2, THEN conjunct1]
  granted_receipt_all [THEN conjunct2, THEN conjunct2, THEN conjunct2]

text \<open>At the instant of the grant, with a whole number of tokens, the arithmetic is exact.\<close>

lemma su_tokens_readSendState: "ss_usage db = Some u \<Longrightarrow> su_tokens (readSendState l now db) = refilled l now u"
  by (simp add: readSendState_def refilled_def Let_def)

lemma tokens_restored:
  assumes "reserveSend sdk alt l now targets db = (Reserved r, db')"
    and "su_tokens (readSendState l now db) = of_int k" "0 \<le> k" "k \<le> MinuteLimit l" "MinuteLimit l < 2 ^ 52" "now \<noteq> 0"
  shows "min (f64 (MinuteLimit l)) (rnd64 (su_tokens (readSendState l now db') + f64 (int (length targets)))) = of_int k"
proof (cases rule: reserveSend_cases [of sdk alt l now targets db])
  case (granted unique fresh)
  let ?s = "readSendState l now db" and ?n = "int (length targets)"
  have limit: "f64 (MinuteLimit l) = of_int (MinuteLimit l)" using assms(3-5) by (intro f64_exact) simp
  obtain u where u: "ss_usage db' = Some u" "su_rate u = MinuteLimit l" "su_refill u = now" "su_tokens u = rnd64 (of_int k - f64 ?n)"
    using assms(1,2) granted(3) by auto
  note tokens = su_tokens_readSendState [OF u(1), of l now]
  show ?thesis
  proof (cases "MinuteLimit l = 0")
    case True
    have "0 \<le> rnd64 (f64 ?n)" unfolding f64_def by (intro rnd64_nonneg) simp
    moreover have "su_tokens (readSendState l now db') = 0" using True u(2) tokens by (simp add: refilled_def)
    ultimately show ?thesis using True assms(3,4) by simp
  next
    case False
    then have lim: "f64 ?n \<le> of_int k" "?n \<le> MinuteLimit l" using refusal_None(3) [OF granted(2)] assms(2-4) by simp_all
    then have n: "f64 ?n = of_int ?n" using assms(5) by (intro f64_exact) simp
    with lim(1) have le: "?n \<le> k" by (simp only: of_int_le_iff)
    have small: "\<bar>k - ?n\<bar> < 2 ^ 53" "\<bar>k\<bar> < 2 ^ 53" using assms(3-5) le by simp_all
    have left: "rnd64 (of_int k - f64 ?n) = of_int (k - ?n)"
      using rnd64_of_int [OF small(1)] n by (simp only: of_int_diff)
    have "su_tokens (readSendState l now db') = of_int (k - ?n)"
      using assms(4,6) False u(2-4) left le rnd64_of_int [OF small(1)] limit tokens
      by (simp add: refilled_def min_def flip: of_int_diff)
    then show ?thesis using rnd64_of_int [OF small(2)] n assms(4) limit by simp
  qed
qed (use assms(1) in auto)



section \<open>Bursts\<close>

lemma refilled_frozen:
  assumes "su_tokens u = of_int k" "0 \<le> k" "k \<le> MinuteLimit l" "MinuteLimit l < 2 ^ 52" "0 < MinuteLimit l"
    and "su_refill u = now" "now \<noteq> 0" "su_rate u = MinuteLimit l"
  shows "refilled l now u = of_int k"
proof -
  have "f64 (MinuteLimit l) = of_int (MinuteLimit l)" "rnd64 (of_int k) = of_int k"
    using assms(2-5) by (auto intro: f64_exact rnd64_of_int)
  with assms show ?thesis by (simp add: refilled_def min_def)
qed

fun reserve_all ::
    "jid_sdk \<Rightarrow> (jid \<Rightarrow> alt_result) \<Rightarrow> send_limits \<Rightarrow> instant \<Rightarrow> string list list \<Rightarrow> send_store \<Rightarrow> int" where
  "reserve_all sdk alt l now [] db = 0"
| "reserve_all sdk alt l now (batch # batches) db =
     (case reserveSend sdk alt l now batch db of
        (Reserved r, db') \<Rightarrow> r_count r + reserve_all sdk alt l now batches db'
      | (_, db') \<Rightarrow> reserve_all sdk alt l now batches db')"

lemma reserve_all_frozen:
  assumes "0 < MinuteLimit l" "MinuteLimit l < 2 ^ 52" "now \<noteq> 0"
    and "su_tokens (readSendState l now db) = of_int k" "0 \<le> k" "k \<le> MinuteLimit l"
  shows "reserve_all sdk alt l now batches db \<le> k"
  using assms(4-6)
proof (induction batches arbitrary: db k)
  case (Cons batch batches)
  let ?s = "readSendState l now db"
  have again: "su_tokens (readSendState l now db') = of_int k'"
    if "ss_usage db' = Some u" "su_day u = Some (day_of now)" "su_refill u = now" "su_rate u = MinuteLimit l"
      "su_tokens u = of_int k'" "0 \<le> k'" "k' \<le> MinuteLimit l" for db' u k'
    using refilled_frozen [of u k' l now] that assms(1-3) by (simp add: readSendState_def Let_def)
  show ?case
  proof (cases rule: reserveSend_cases [of sdk alt l now batch db])
    case failed
    with Cons show ?thesis by simp
  next
    case (refused unique fresh reason delay)
    let ?db = "snd (reserveSend sdk alt l now batch db)"
    have "su_tokens (readSendState l now ?db) = of_int k"
      using Cons.prems refused(3) by (intro again [where u = "?s\<lparr>su_refusals := su_refusals ?s + 1\<rparr>"]) auto
    from Cons.IH [OF this Cons.prems(2,3)] refused(3) show ?thesis by simp
  next
    case (granted unique fresh)
    let ?n = "int (length batch)" and ?db = "snd (reserveSend sdk alt l now batch db)"
    have lim: "f64 ?n \<le> of_int k" "?n \<le> MinuteLimit l" using refusal_None(3) [OF granted(2)] assms(1) Cons.prems(1) by simp_all
    then have n: "f64 ?n = of_int ?n" using assms(2) by (intro f64_exact) simp
    with lim(1) have le: "?n \<le> k" by (simp only: of_int_le_iff)
    have "rnd64 (of_int k - f64 ?n) = of_int (k - ?n)"
      using rnd64_of_int [of "k - ?n"] n le Cons.prems(2,3) assms(2) by (simp only: of_int_diff) simp
    then have "su_tokens (readSendState l now ?db) = of_int (k - ?n)"
      using Cons.prems granted(3) le by (intro again) auto
    from Cons.IH [OF this] le Cons.prems(3) granted(3) show ?thesis by simp
  qed
qed simp

text \<open>No burst beats the minute limit: at one instant of the clock, from a fresh budget, the batches
  that are granted, however many are asked for and however they are cut, together hold at most as many
  sends as the limit per minute.\<close>

lemma burst_within_minute_limit:
  assumes "0 < MinuteLimit l" and "MinuteLimit l < 2 ^ 52" and "now \<noteq> 0" and "ss_usage db = None"
  shows "reserve_all sdk alt l now batches db \<le> MinuteLimit l"
proof (rule reserve_all_frozen [OF assms(1-3)])
  have "f64 (MinuteLimit l) = of_int (MinuteLimit l)" using assms by (intro f64_exact) simp
  then show "su_tokens (readSendState l now db) = of_int (MinuteLimit l)"
    using assms(4) by (simp add: readSendState_def Let_def refilled_def zero_usage_def)
qed (use assms in simp_all)

theorem burst_within_minute_limit_witness:
  "reserve_all plain_sdk no_alt sample_limits 1000 (replicate 9 [''5511@s.whatsapp.net'']) fresh_store \<le> 5"
  using burst_within_minute_limit [of sample_limits 1000 fresh_store plain_sdk no_alt "replicate 9 [''5511@s.whatsapp.net'']"]
  by (simp add: sample_limits_def fresh_store_def)

end
