(* ===== verification/Send_Gate.thy ===== *)
theory Send_Gate
  imports Runtime_Settings Send_Budget
begin

text \<open>
  The decision every send goes through (\<^verbatim>\<open>allowSend\<close> and \<^verbatim>\<open>sendLimitsEnabled\<close> of \<^verbatim>\<open>send_limits.go\<close>):
  the runtime settings give the limits, the budget grants or refuses, and failures of the accounting
  itself refuse the send unless no limit is in force. The reservation reads the settings in its own
  transaction, so the settings seen at the three points (before, in the reservation, after an error)
  are separate arguments.
\<close>

definition limits_of :: "settings \<Rightarrow> send_limits" where
  "limits_of st = \<lparr>MinuteLimit = st_value (s_send st RatePerMinute), DayLimit = st_value (s_send st RatePerDay),
     NewChatsLimit = st_value (s_send st NewChatsPerDay), MinIntervalMS = st_value (s_send st MinIntervalMs)\<rparr>"

definition sendLimitsEnabled :: "snapshot \<Rightarrow> bool" where
  "sendLimitsEnabled snap = list_ex (\<lambda>k. st_value (s_send (ss_settings snap) k) > 0) send_keys"

definition no_limits :: send_limits where
  "no_limits = \<lparr>MinuteLimit = 0, DayLimit = 0, NewChatsLimit = 0, MinIntervalMS = 0\<rparr>"

text \<open>What the attempt to reserve meets: the database out of reach before the limits were read, or a
  reservation under the settings of its transaction.\<close>

datatype reserve_attempt = Unreachable | Attempted "snapshot option" reserve_result

datatype send_answer =
    Allowed
  | AllowedUncounted
  | Unavailable
  | BatchTooLarge
  | RateLimited string int

definition attempt_reserve ::
    "jid_sdk \<Rightarrow> (jid \<Rightarrow> alt_result) \<Rightarrow> snapshot option \<Rightarrow> instant \<Rightarrow> string list \<Rightarrow> send_store \<Rightarrow> reserve_attempt \<times> send_store" where
  "attempt_reserve sdk alt snap now targets db =
     (let l = (case snap of None \<Rightarrow> no_limits | Some s \<Rightarrow> limits_of (ss_settings s));
          (r, db') = reserveSend sdk alt l now targets db
      in (Attempted snap r, db'))"

definition allowSend :: "bool \<Rightarrow> bool \<Rightarrow> unit + snapshot \<Rightarrow> reserve_attempt \<Rightarrow> unit + snapshot \<Rightarrow> send_answer" where
  "allowSend hasStore hasDefaults before attempt after =
     (if \<not> hasStore \<and> \<not> hasDefaults then Allowed
      else if hasDefaults \<and> isl before then Unavailable
      else
        let enabled0 = (hasDefaults \<and> sendLimitsEnabled (projr before))
        in case attempt of
             Unreachable \<Rightarrow>
               let enabled = (if hasDefaults then isl after \<or> sendLimitsEnabled (projr after) else enabled0)
               in if enabled then Unavailable else AllowedUncounted
           | Attempted _ (ReserveFailed enabled) \<Rightarrow> if enabled then Unavailable else AllowedUncounted
           | Attempted _ (Refused reason delay) \<Rightarrow>
               if reason = ''limit_exceeds_batch'' then BatchTooLarge else RateLimited reason delay
           | Attempted _ (Reserved r) \<Rightarrow> Allowed)"

lemma sendLimitsEnabled_limits: "sendLimitsEnabled snap = limits_enabled (limits_of (ss_settings snap))"
  by (auto simp: sendLimitsEnabled_def send_keys_def limits_enabled_def limits_of_def)

section \<open>Deployment limits stay in force\<close>

lemma floor_keeps_send: "s_send (fst (applyRuntimeToolFloor out defaults shut)) = s_send out"
  by (simp add: applyRuntimeToolFloor_def Let_def case_prod_unfold)

lemma chats_keep_send: "s_send (fst (applyRuntimeChats out defaults)) = s_send out"
  by (simp add: applyRuntimeChats_def Let_def)

lemma read_send_eq:
  "s_send (ss_settings (readRuntimeSettings rows defaults)) k =
     send_ceiling k (s_send defaults k) (s_send (fst (snd (foldl (read_row defaults) (0, defaults, False) rows))) k)"
  by (simp add: readRuntimeSettings_def Let_def case_prod_unfold applyRuntimeSendCeiling_def ceiled_send_def
      floor_keeps_send chats_keep_send)

lemma tool_row_keeps_send: "s_send (fst (read_tool_row defaults b v (out, shut))) = s_send out"
  by (simp add: read_tool_row_def Let_def split: option.split)

lemma read_row_send_nonneg:
  assumes "\<And>k. 0 \<le> st_value (s_send (fst (snd acc)) k)"
  shows "0 \<le> st_value (s_send (fst (snd (read_row defaults acc row))) k)"
proof -
  obtain version out shut where acc: "acc = (version, out, shut)" by (cases acc)
  have "0 \<le> n" if "parse_send_value v = Some n" for v n
    using that by (cases v) (auto split: if_splits)
  with assms show ?thesis
    by (auto simp: read_row_def acc Let_def tool_row_keeps_send runtime_value_def split: option.split)
qed

lemma saved_send_nonneg:
  assumes "\<And>k. 0 \<le> st_value (s_send defaults k)"
  shows "0 \<le> st_value (s_send (fst (snd (foldl (read_row defaults) (0, defaults, False) rows))) k)"
proof -
  have "\<forall>k. 0 \<le> st_value (s_send (fst (snd (foldl (read_row defaults) (0, defaults, False) rows))) k)"
    by (rule foldl_invariant) (auto simp: assms intro: read_row_send_nonneg)
  then show ?thesis by blast
qed

lemma defaults_nonneg:
  assumes "runtimeDefaults getenv = Inr defaults"
  shows "0 \<le> st_value (s_send defaults k)"
proof -
  have "\<not> (TrimSpace (getenv (send_key_env k)) \<noteq> [] \<and> parse_send_env (getenv (send_key_env k)) = None)"
    using assms by (cases k) (auto simp: runtimeDefaults_def Let_def send_keys_def split: if_splits)
  moreover have "0 \<le> v" if "parse_send_env raw = Some v" for raw v
    using that by (auto simp: parse_send_env_def split: option.splits if_splits)
  ultimately show ?thesis
    unfolding runtimeDefaults_send [OF assms] by (auto simp: send_default_def env_setting_def)
qed

lemma deployment_day_limit:
  assumes "runtimeDefaults getenv = Inr defaults" "st_value (s_send defaults RatePerDay) > 0"
  shows "0 < DayLimit (limits_of (ss_settings (readRuntimeSettings rows defaults)))"
    and "DayLimit (limits_of (ss_settings (readRuntimeSettings rows defaults))) \<le> st_value (s_send defaults RatePerDay)"
  using saved_send_nonneg [OF defaults_nonneg [OF assms(1)], of rows RatePerDay] assms(2)
  by (auto simp: limits_of_def read_send_eq send_ceiling_def Let_def)

text \<open>C1. The deployment's daily limit cannot be bypassed: when the environment sets one, a send is let
  through only with a reservation that left the day's count within that limit, whatever settings the
  operator saved, however often they changed between the checks, and whatever fails on the way; every
  failure of the accounting refuses the send.\<close>

theorem deployment_limit_enforced:
  assumes "runtimeDefaults getenv = Inr defaults" and "st_value (s_send defaults RatePerDay) > 0"
    and "before \<in> {Inl (), Inr (readRuntimeSettings rows1 defaults)}"
    and "after \<in> {Inl (), Inr (readRuntimeSettings rows3 defaults)}"
    and "attempt = Unreachable \<or>
       (attempt, db') = attempt_reserve sdk alt (Some (readRuntimeSettings rows2 defaults)) now targets db"
    and "allowSend hasStore True before attempt after \<in> {Allowed, AllowedUncounted}"
  shows "\<exists>r u. attempt = Attempted (Some (readRuntimeSettings rows2 defaults)) (Reserved r) \<and> ss_usage db' = Some u
     \<and> su_today u = su_today (readSendState (limits_of (ss_settings (readRuntimeSettings rows2 defaults))) now db) + int (length targets)
     \<and> su_today u \<le> st_value (s_send defaults RatePerDay)"
proof -
  let ?l = "limits_of (ss_settings (readRuntimeSettings rows2 defaults))"
  note day = deployment_day_limit [OF assms(1,2)]
  have on: "sendLimitsEnabled (readRuntimeSettings rows defaults)" for rows
    using day(1) [of rows] by (simp add: sendLimitsEnabled_limits limits_enabled_def)
  have enabled: "limits_enabled ?l" using on [of rows2] by (simp add: sendLimitsEnabled_limits)
  have before: "\<not> isl before" using assms(6) by (auto simp: allowSend_def split: if_splits)
  have "attempt \<noteq> Unreachable" using assms(4,6) on before by (auto simp: allowSend_def split: if_splits)
  then obtain res where res: "attempt = Attempted (Some (readRuntimeSettings rows2 defaults)) res"
      "reserveSend sdk alt ?l now targets db = (res, db')"
    using assms(5) by (auto simp: attempt_reserve_def split: prod.splits)
  obtain r where r: "reserveSend sdk alt ?l now targets db = (Reserved r, db')"
      "attempt = Attempted (Some (readRuntimeSettings rows2 defaults)) (Reserved r)"
  proof (cases rule: reserveSend_cases [of sdk alt ?l now targets db])
    case failed
    with res enabled assms(6) before show ?thesis by (auto simp: allowSend_def)
  next
    case (refused unique fresh reason delay)
    with res assms(6) before show ?thesis by (auto simp: allowSend_def Let_def split: if_splits)
  next
    case (granted unique fresh)
    with res that show ?thesis by auto
  qed
  from granted_usage [OF r(1)] day(1) [of rows2] day(2) [of rows2] r(2) show ?thesis by force
qed

lemma sample_send: "st_value (send_default sample_env k) = (if k = RatePerDay then 50 else 0)"
proof -
  have "parse_send_env ''50'' = Some 50" "TrimSpace ''50'' \<noteq> []" by code_simp+
  then show ?thesis
    by (cases k) (simp_all add: send_default_def env_setting_def sample_env_def send_key_env_def allowToolsEnv_def chatPolicyEnv_def)
qed

lemma sample_limits_read:
  "limits_of (ss_settings (readRuntimeSettings [] sample_defaults)) =
     \<lparr>MinuteLimit = 0, DayLimit = 50, NewChatsLimit = 0, MinIntervalMS = 0\<rparr>"
  by (simp add: limits_of_def read_send_eq send_ceiling_def Let_def runtimeDefaults_send [OF sample_defaults] sample_send)

theorem deployment_limit_enforced_witness:
  "\<exists>r u. fst (attempt_reserve plain_sdk no_alt (Some (readRuntimeSettings [] sample_defaults)) 1000
        [''5511@s.whatsapp.net''] fresh_store)
        = Attempted (Some (readRuntimeSettings [] sample_defaults)) (Reserved r)
     \<and> ss_usage (snd (attempt_reserve plain_sdk no_alt (Some (readRuntimeSettings [] sample_defaults)) 1000
        [''5511@s.whatsapp.net''] fresh_store)) = Some u
     \<and> su_today u \<le> st_value (s_send sample_defaults RatePerDay)"
proof -
  let ?snap = "readRuntimeSettings [] sample_defaults"
  define out where "out = attempt_reserve plain_sdk no_alt (Some ?snap) 1000 [''5511@s.whatsapp.net''] fresh_store"
  have "case fst (reserveSend plain_sdk no_alt \<lparr>MinuteLimit = 0, DayLimit = 50, NewChatsLimit = 0, MinIntervalMS = 0\<rparr>
      1000 [''5511@s.whatsapp.net''] fresh_store) of Reserved _ \<Rightarrow> True | _ \<Rightarrow> False" by code_simp
  then obtain r where r: "fst out = Attempted (Some ?snap) (Reserved r)"
    by (auto simp: out_def attempt_reserve_def sample_limits_read case_prod_unfold split: reserve_result.splits)
  have pos: "st_value (s_send sample_defaults RatePerDay) > 0"
    by (simp add: runtimeDefaults_send [OF sample_defaults] sample_send)
  have allowed: "allowSend True True (Inr ?snap) (fst out) (Inr ?snap) \<in> {Allowed, AllowedUncounted}"
    by (simp add: allowSend_def r)
  have "fst out = Unreachable \<or>
      (fst out, snd out) = attempt_reserve plain_sdk no_alt (Some ?snap) 1000 [''5511@s.whatsapp.net''] fresh_store"
    by (simp add: out_def)
  from deployment_limit_enforced [OF sample_defaults pos _ _ this allowed, of "[]" "[]"]
  show ?thesis unfolding out_def by blast
qed

end
