(* ===== verification/Message_Store.thy ===== *)
theory Message_Store
  imports Chat_Policy Complex_Main
begin

text \<open>
  The archive of messages: the upsert every message write goes through
  (\<^verbatim>\<open>insertMessageSQL\<close> of \<^verbatim>\<open>store_batch.go\<close>), its arguments (\<^verbatim>\<open>messageArgs\<close>), the sender columns
  (\<^verbatim>\<open>sender_namespace.go\<close>), the completeness of a media snapshot (\<^verbatim>\<open>media.go\<close>) and the chat rows
  (\<^verbatim>\<open>store.go\<close>). SQL \<^verbatim>\<open>NULL\<close> is \<^term>\<open>None\<close>. A \<^verbatim>\<open>TIMESTAMP\<close> column holds the fixed-width UTC text of
  \<^verbatim>\<open>dbTime\<close>, whose order is chronological; it is modelled by the whole second it names. SQLite's
  JSON functions are the fields of \<open>sqlite\<close>.
\<close>

section \<open>SQL values\<close>

datatype sqlval = SNull | SInt int | SReal rat | SText string

fun sql_gt :: "sqlval \<Rightarrow> sqlval \<Rightarrow> bool" where
  "sql_gt (SInt a) (SInt b) \<longleftrightarrow> a > b"
| "sql_gt (SInt a) (SReal b) \<longleftrightarrow> of_int a > b"
| "sql_gt (SReal a) (SInt b) \<longleftrightarrow> a > of_int b"
| "sql_gt (SReal a) (SReal b) \<longleftrightarrow> a > b"
| "sql_gt (SText _) (SInt _) \<longleftrightarrow> True"
| "sql_gt (SText _) (SReal _) \<longleftrightarrow> True"
| "sql_gt (SText a) (SText b) \<longleftrightarrow> b < a"
| "sql_gt _ _ \<longleftrightarrow> False"

text \<open>\<^verbatim>\<open>a = b\<close> on scalar values: numbers by value, never true of \<^verbatim>\<open>NULL\<close>.\<close>

definition sqlval_eq :: "sqlval \<Rightarrow> sqlval \<Rightarrow> bool" where
  "sqlval_eq a b \<longleftrightarrow> a \<noteq> SNull \<and> b \<noteq> SNull \<and> \<not> sql_gt a b \<and> \<not> sql_gt b a"

record sqlite =
  text_length :: "string \<Rightarrow> nat"
  json_valid :: "string \<Rightarrow> bool"
  json_type :: "string \<Rightarrow> string \<Rightarrow> string option"
  json_extract :: "string \<Rightarrow> string \<Rightarrow> sqlval"
  json_patch :: "string \<Rightarrow> string \<Rightarrow> string"
  json_object :: "(string \<times> sqlval) list \<Rightarrow> string"

text \<open>\<open>sql_eq\<close> is \<^verbatim>\<open>a = b\<close> in a condition: not true when either side is \<^verbatim>\<open>NULL\<close>. Equality of options
  is \<^verbatim>\<open>IS\<close>.\<close>

definition sql_eq :: "'a option \<Rightarrow> 'a option \<Rightarrow> bool" where
  "sql_eq a b \<longleftrightarrow> a = b \<and> a \<noteq> None"

definition coalesce :: "'a option \<Rightarrow> 'a option \<Rightarrow> 'a option" where
  "coalesce a b = (case a of None \<Rightarrow> b | Some _ \<Rightarrow> a)"

definition sql_coalesce :: "sqlval \<Rightarrow> sqlval \<Rightarrow> sqlval" where
  "sql_coalesce a b = (if a = SNull then b else a)"

definition nullif_empty :: "string option \<Rightarrow> string option" where
  "nullif_empty a = (if a = Some [] then None else a)"

text \<open>\<^verbatim>\<open>COALESCE(x, '') = ''\<close>, and \<^verbatim>\<open>COALESCE(length(x), 0) = 0\<close> for a blob.\<close>

definition blank :: "string option \<Rightarrow> bool" where
  "blank a \<longleftrightarrow> a = None \<or> a = Some []"

definition dbTime :: "instant \<Rightarrow> int" where
  "dbTime t = t div second"

section \<open>Sender columns\<close>

definition HostedServer :: string where "HostedServer = ''hosted''"
definition HostedLIDServer :: string where "HostedLIDServer = ''hosted.lid''"

definition splitSenderJID :: "string \<Rightarrow> string \<times> string option" where
  "splitSenderJID sender =
     (if \<not> str_contains sender CHR ''@'' then (sender, None)
      else
        let user = before_first CHR ''@'' sender; srv = after_first CHR ''@'' sender
        in if srv = DefaultUserServer \<or> srv = HostedServer then (user, Some DefaultUserServer)
           else if srv = HiddenUserServer \<or> srv = HostedLIDServer then (user, Some HiddenUserServer)
           else (user, None))"

definition storedSender :: "jid \<Rightarrow> string" where
  "storedSender j = (if User j = [] then [] else User j @ ''@'' @ Server j)"

definition bareSenderUser :: "string \<Rightarrow> string" where
  "bareSenderUser s0 = before_first CHR ''@'' (TrimSpace s0)"

section \<open>Rows\<close>

record message_row =
  m_id :: string
  m_chat :: string
  m_sender :: "string option"
  m_server :: "string option"
  m_content :: "string option"
  m_timestamp :: "int option"
  m_own :: bool
  m_mtype :: "string option"
  m_filename :: "string option"
  m_url :: "string option"
  m_key :: "string option"
  m_sha :: "string option"
  m_enc :: "string option"
  m_length :: "int option"
  m_quoted :: "string option"
  m_path :: "string option"
  m_presentation :: "string option"
  m_location :: "string option"
  m_retryChat :: "string option"
  m_retrySender :: "string option"
  m_mentions :: "string option"
  m_editTimestamp :: int
  m_deleted :: "int option"

definition message_key :: "message_row \<Rightarrow> string \<times> string" where
  "message_key r = (m_id r, m_chat r)"

text \<open>The caller's snapshot. Presentation and location are the rendered columns.\<close>

record storedMessage =
  ID :: string
  ChatJID :: string
  Sender :: string
  Content :: string
  Timestamp :: instant
  IsFromMe :: bool
  MediaType :: string
  Filename :: string
  URL :: string
  MediaKey :: "string option"
  FileSHA256 :: "string option"
  FileEncSHA256 :: "string option"
  FileLength :: "nat option"
  QuotedMessageID :: string
  directPath :: string
  presentation :: "string option"
  location :: "string option"
  retryChat :: string
  retrySender :: string
  Mentions :: string
  EditAuthorAlias :: string
  EditChatAlias :: string
  EditPreparation :: "((string \<times> string \<times> string) list \<times> int) option"
  HistoryReplay :: bool

definition media_kinds :: "string list" where
  "media_kinds = [''image'', ''video'', ''audio'', ''document'', ''sticker'']"

definition has_suffix :: "string \<Rightarrow> string \<Rightarrow> bool" where
  "has_suffix s suf \<longleftrightarrow> length suf \<le> length s \<and> drop (length s - length suf) s = suf"

definition mediaComplete ::
    "string \<Rightarrow> string option \<Rightarrow> string option \<Rightarrow> string option \<Rightarrow> string option \<Rightarrow> string option \<Rightarrow> bool" where
  "mediaComplete chat url path key sha enc \<longleftrightarrow>
     (\<not> blank url \<or> \<not> blank path) \<and> \<not> blank sha \<and>
     ((\<not> blank key \<and> \<not> blank enc) \<or> (has_suffix chat ''@newsletter'' \<and> blank key \<and> blank enc))"

definition storedMediaLength :: "nat \<Rightarrow> int option" where
  "storedMediaLength l = (if int l > max_int64 then None else Some (int l))"

definition text_arg :: "string \<Rightarrow> string option" where
  "text_arg s = (if s = [] then None else Some s)"

text \<open>\<^verbatim>\<open>messageArgs\<close>: the row a fresh insert creates; its \<^verbatim>\<open>message_edit_timestamp\<close> and \<^verbatim>\<open>deleted_at\<close>
  are the column defaults.\<close>

definition messageArgs :: "jid_sdk \<Rightarrow> storedMessage \<Rightarrow> message_row" where
  "messageArgs sdk m =
     (let (sender, server) = splitSenderJID (Sender m);
          len = (if MediaType m \<in> set media_kinds then
                   (case FileLength m of Some l \<Rightarrow> storedMediaLength l | None \<Rightarrow> None) else None);
          retry = (case ParseJID sdk (retrySender m) of
                     None \<Rightarrow> []
                   | Some wire \<Rightarrow> if Server wire \<noteq> DefaultUserServer \<and> Server wire \<noteq> HiddenUserServer
                                  then [] else retrySender m)
      in \<lparr>m_id = ID m, m_chat = ChatJID m, m_sender = Some sender, m_server = server,
          m_content = Some (Content m), m_timestamp = Some (dbTime (Timestamp m)), m_own = IsFromMe m,
          m_mtype = Some (MediaType m), m_filename = Some (Filename m), m_url = Some (URL m),
          m_key = MediaKey m, m_sha = FileSHA256 m, m_enc = FileEncSHA256 m, m_length = len,
          m_quoted = text_arg (QuotedMessageID m), m_path = text_arg (directPath m),
          m_presentation = presentation m, m_location = location m,
          m_retryChat = text_arg (retryChat m), m_retrySender = text_arg retry,
          m_mentions = text_arg (Mentions m), m_editTimestamp = 0, m_deleted = None\<rparr>)"

definition complete_media :: "storedMessage \<Rightarrow> bool" where
  "complete_media m = mediaComplete (ChatJID m) (Some (URL m)) (Some (directPath m))
     (MediaKey m) (FileSHA256 m) (FileEncSHA256 m)"

section \<open>The upsert\<close>

definition no_media_fields :: "message_row \<Rightarrow> bool" where
  "no_media_fields r \<longleftrightarrow> blank (m_url r) \<and> blank (m_path r) \<and> blank (m_key r) \<and> blank (m_sha r)
     \<and> blank (m_enc r) \<and> (m_length r = None \<or> m_length r = Some 0)"

definition replaceMediaSQL :: "bool \<Rightarrow> bool \<Rightarrow> message_row \<Rightarrow> message_row \<Rightarrow> bool" where
  "replaceMediaSQL full replay old new \<longleftrightarrow>
     (full \<and> \<not> (replay \<and> \<not> blank (m_path old) \<and> \<not> blank (m_sha old)
        \<and> ((\<not> blank (m_key old) \<and> \<not> blank (m_enc old))
            \<or> (has_suffix (m_chat old) ''@newsletter'' \<and> blank (m_key old) \<and> blank (m_enc old)))
        \<and> m_path new \<noteq> m_path old))
     \<or> no_media_fields old"

definition json_type_in :: "sqlite \<Rightarrow> string \<Rightarrow> string \<Rightarrow> string list \<Rightarrow> bool" where
  "json_type_in q doc path ts =
     ((case json_type q doc path of None \<Rightarrow> ''null'' | Some t \<Rightarrow> t) \<in> set ts)"

definition base64_char :: "char \<Rightarrow> bool" where
  "base64_char c \<longleftrightarrow> is_digit c \<or> (CHR ''a'' \<le> c \<and> c \<le> CHR ''z'') \<or> (CHR ''A'' \<le> c \<and> c \<le> CHR ''Z'')
     \<or> c \<in> set ''+/=''"

definition waveform_ok :: "sqlite \<Rightarrow> sqlval \<Rightarrow> bool" where
  "waveform_ok q v =
     (case v of SText w \<Rightarrow> text_length q w = 88 \<and> has_suffix w ''=='' \<and> list_all base64_char w
      | _ \<Rightarrow> False)"

definition validPresentationSQL :: "sqlite \<Rightarrow> string option \<Rightarrow> bool" where
  "validPresentationSQL q p =
     (case p of None \<Rightarrow> False
      | Some d \<Rightarrow>
          text_length q d \<le> 4096 \<and> json_valid q d \<and> json_type q d ''$'' = Some ''object''
          \<and> json_type_in q d ''$.sha256'' [''text'', ''null''] \<and> json_type_in q d ''$.mime'' [''text'', ''null'']
          \<and> json_type_in q d ''$.name'' [''text'', ''null''] \<and> json_type_in q d ''$.title'' [''text'', ''null'']
          \<and> json_type_in q d ''$.ptt'' [''true'', ''false'', ''null'']
          \<and> json_type_in q d ''$.animated'' [''true'', ''false'', ''null'']
          \<and> (json_type_in q d ''$.seconds'' [''null''] \<or>
               (json_type q d ''$.seconds'' = Some ''integer'' \<and>
                (case json_extract q d ''$.seconds'' of SInt s \<Rightarrow> 0 \<le> s \<and> s \<le> 86400 | _ \<Rightarrow> False)))
          \<and> (json_type_in q d ''$.waveform'' [''null''] \<or>
               (json_type q d ''$.waveform'' = Some ''text'' \<and> waveform_ok q (json_extract q d ''$.waveform''))))"

definition merge_presentation :: "sqlite \<Rightarrow> message_row \<Rightarrow> message_row \<Rightarrow> string option" where
  "merge_presentation q old new =
     (if sql_eq (m_sha new) (m_sha old) \<and> validPresentationSQL q (m_presentation old) then
        (case (m_presentation new, m_presentation old) of
           (None, p) \<Rightarrow> p
         | (Some n, Some p) \<Rightarrow>
             if sqlval_eq (json_extract q p ''$.sha256'') (json_extract q n ''$.sha256'')
             then Some (json_patch q p n) else Some n
         | (Some n, None) \<Rightarrow> Some n)
      else m_presentation new)"

definition location_fields :: "string list" where
  "location_fields = [''latitude'', ''longitude'', ''accuracy_meters'', ''speed_mps'', ''bearing_degrees'']"

definition is_live :: "sqlite \<Rightarrow> string \<Rightarrow> bool" where
  "is_live q d \<longleftrightarrow> sqlval_eq (json_extract q d ''$.live'') (SInt 1)"

definition merge_location :: "sqlite \<Rightarrow> message_row \<Rightarrow> message_row \<Rightarrow> string option" where
  "merge_location q old new =
     (case (m_location old, m_location new) of
        (Some o', Some n) \<Rightarrow>
          if m_mtype new = Some ''location'' \<and> m_mtype old = Some ''location''
             \<and> json_valid q o' \<and> json_valid q n \<and> is_live q o' \<and> is_live q n
             \<and> sql_gt (json_extract q o' ''$.sequence'') (sql_coalesce (json_extract q n ''$.sequence'') (SInt 0))
          then Some (json_patch q n (json_object q
            (map (\<lambda>f. (f, sql_coalesce (json_extract q o' (''$.'' @ f)) (json_extract q n (''$.'' @ f)))) location_fields
             @ [(''sequence'', json_extract q o' ''$.sequence''),
                (''time_offset_seconds'', json_extract q o' ''$.time_offset_seconds'')])))
          else Some n
      | (o', n) \<Rightarrow> coalesce n o')"

definition is_media_kind :: "string option \<Rightarrow> bool" where
  "is_media_kind t = (case t of Some k \<Rightarrow> k \<in> set media_kinds | None \<Rightarrow> False)"

definition merge_message :: "sqlite \<Rightarrow> bool \<Rightarrow> bool \<Rightarrow> message_row \<Rightarrow> message_row \<Rightarrow> message_row" where
  "merge_message q full replay old new =
     (let repl = replaceMediaSQL full replay old new
      in old\<lparr>
        m_sender := m_sender new,
        m_server := (if m_server new \<noteq> None then m_server new
                     else if sql_eq (m_sender new) (m_sender old) then m_server old else None),
        m_content := (if m_editTimestamp old > 0 then m_content old
                      else if \<not> full \<and> m_content new = Some [] \<and> is_media_kind (m_mtype old)
                      then m_content old else m_content new),
        m_timestamp := (if \<not> repl \<and> is_media_kind (m_mtype old) then m_timestamp old else m_timestamp new),
        m_own := m_own new,
        m_mtype := (if repl then coalesce (nullif_empty (m_mtype new)) (m_mtype old) else m_mtype old),
        m_filename := (if repl then
            (if m_mtype new = Some ''document'' \<and> full \<and> m_sha new \<noteq> m_sha old then m_filename new
             else coalesce (nullif_empty (m_filename new)) (m_filename old)) else m_filename old),
        m_url := (if repl then m_url new else m_url old),
        m_path := (if repl then m_path new else m_path old),
        m_retryChat := coalesce (m_retryChat old) (m_retryChat new),
        m_retrySender := coalesce (m_retrySender old) (m_retrySender new),
        m_key := (if repl then m_key new else m_key old),
        m_sha := (if repl then m_sha new else m_sha old),
        m_enc := (if repl then m_enc new else m_enc old),
        m_length := (if repl then
            (if m_length new = None \<and> sql_eq (m_sha new) (m_sha old) then m_length old else m_length new)
            else m_length old),
        m_presentation := (if repl then merge_presentation q old new else m_presentation old),
        m_quoted := coalesce (m_quoted new) (m_quoted old),
        m_location := merge_location q old new,
        m_mentions := (if m_editTimestamp old > 0 then m_mentions old
                       else coalesce (m_mentions new) (m_mentions old))\<rparr>)"

definition insertMessageSQL :: "sqlite \<Rightarrow> jid_sdk \<Rightarrow> storedMessage \<Rightarrow> message_row list \<Rightarrow> message_row list" where
  "insertMessageSQL q sdk m =
     upsert message_key (merge_message q (complete_media m) (HistoryReplay m)) (messageArgs sdk m)"

interpretation messages: keyed_table message_key "merge_message q full replay" for q full replay
  by unfold_locales (simp add: merge_message_def message_key_def Let_def)

section \<open>Lemmas: the media snapshot\<close>

text \<open>The credentials and locators that must stay together, and the completeness of a stored row.\<close>

definition snapshot_of :: "message_row \<Rightarrow> string option \<times> string option \<times> string option \<times> string option \<times> string option" where
  "snapshot_of r = (m_url r, m_path r, m_key r, m_sha r, m_enc r)"

definition row_complete :: "message_row \<Rightarrow> bool" where
  "row_complete r = mediaComplete (m_chat r) (m_url r) (m_path r) (m_key r) (m_sha r) (m_enc r)"

lemma blank_text_arg [simp]: "blank (text_arg s) = blank (Some s)"
  by (simp add: blank_def text_arg_def)

lemma messageArgs_key [simp]: "message_key (messageArgs sdk m) = (ID m, ChatJID m)"
  by (simp add: messageArgs_def message_key_def Let_def split: prod.split)

lemma messageArgs_complete: "row_complete (messageArgs sdk m) = complete_media m"
  by (simp add: messageArgs_def row_complete_def complete_media_def mediaComplete_def Let_def split: prod.split)

lemma messageArgs_fresh: "m_editTimestamp (messageArgs sdk m) = 0" "m_deleted (messageArgs sdk m) = None"
  by (simp_all add: messageArgs_def Let_def split: prod.split)

lemma snapshot_merge:
  "snapshot_of (merge_message q full replay old new) =
     (if replaceMediaSQL full replay old new then snapshot_of new else snapshot_of old)"
  by (simp add: snapshot_of_def merge_message_def Let_def)

lemma row_complete_snapshot:
  "snapshot_of r = snapshot_of s \<Longrightarrow> m_chat r = m_chat s \<Longrightarrow> row_complete r = row_complete s"
  by (simp add: snapshot_of_def row_complete_def)

lemma complete_has_fields: "row_complete r \<Longrightarrow> \<not> no_media_fields r"
  by (auto simp: row_complete_def mediaComplete_def no_media_fields_def)

lemma chat_merge: "m_chat (merge_message q full replay old new) = m_chat old"
  by (simp add: merge_message_def Let_def)

lemma merge_keeps_complete:
  assumes "row_complete old" "m_chat old = m_chat new" "full \<longleftrightarrow> row_complete new"
  shows "row_complete (merge_message q full replay old new)"
    and "\<not> full \<Longrightarrow> snapshot_of (merge_message q full replay old new) = snapshot_of old"
proof -
  have rep: "replaceMediaSQL full replay old new \<Longrightarrow> full"
    using complete_has_fields [OF assms(1)] by (auto simp: replaceMediaSQL_def)
  then show "\<not> full \<Longrightarrow> snapshot_of (merge_message q full replay old new) = snapshot_of old"
    by (auto simp: snapshot_merge)
  show "row_complete (merge_message q full replay old new)"
  proof (cases "replaceMediaSQL full replay old new")
    case True
    then have "snapshot_of (merge_message q full replay old new) = snapshot_of new" by (simp add: snapshot_merge)
    with rep [OF True] assms(2,3) show ?thesis using row_complete_snapshot chat_merge by metis
  next
    case False
    then have "snapshot_of (merge_message q full replay old new) = snapshot_of old" by (simp add: snapshot_merge)
    with assms(1) show ?thesis using row_complete_snapshot chat_merge by metis
  qed
qed

text \<open>What an upsert does to the row under a key that is already stored.\<close>

lemma row_of_insertMessage:
  assumes "keyed message_key t" "row_of message_key k t = Some old"
  shows "row_of message_key k (insertMessageSQL q sdk m t) =
     Some (if k = (ID m, ChatJID m)
           then merge_message q (complete_media m) (HistoryReplay m) old (messageArgs sdk m) else old)"
proof (cases "k = (ID m, ChatJID m)")
  case True
  with messages.row_of_upsert_same [OF assms(1), of "messageArgs sdk m" q "complete_media m" "HistoryReplay m"] assms(2)
  show ?thesis by (simp add: insertMessageSQL_def)
next
  case False
  with messages.row_of_upsert_other [of k "messageArgs sdk m" q "complete_media m" "HistoryReplay m" t] assms(2)
  show ?thesis by (simp add: insertMessageSQL_def)
qed

text \<open>Concrete values to exercise the properties on: a photo, a replay of it with another locator, and
  SQLite functions for documents that are opaque texts.\<close>

definition opaque_sqlite :: sqlite where
  "opaque_sqlite = \<lparr>text_length = length, json_valid = (\<lambda>_. False), json_type = (\<lambda>_ _. None),
     json_extract = (\<lambda>_ _. SNull), json_patch = (\<lambda>_ n. n), json_object = (\<lambda>_. ''{}'')\<rparr>"

definition sample_photo :: storedMessage where
  "sample_photo = \<lparr>ID = ''A1'', ChatJID = ''5511@s.whatsapp.net'', Sender = ''5511@s.whatsapp.net'',
     Content = ''hi'', Timestamp = 7000000000, IsFromMe = False, MediaType = ''image'', Filename = [],
     URL = ''u'', MediaKey = Some ''k'', FileSHA256 = Some ''s'', FileEncSHA256 = Some ''e'',
     FileLength = Some 3, QuotedMessageID = [], directPath = ''/p'', presentation = None, location = None,
     retryChat = [], retrySender = [], Mentions = [], EditAuthorAlias = [], EditChatAlias = [],
     EditPreparation = None, HistoryReplay = False\<rparr>"

definition sample_replay :: storedMessage where
  "sample_replay = sample_photo\<lparr>URL := ''v'', directPath := ''/q'', HistoryReplay := True\<rparr>"



text \<open>Replays never undo an edit or a deletion: whatever is written under the key of an edited
  message, its text, mentions and edit time stay, and no write of a message clears a deletion mark
  or touches any other row.\<close>

lemma message_edit_survives_replay:
  assumes "keyed message_key t" and "row_of message_key k t = Some old"
  shows "\<exists>r. row_of message_key k (insertMessageSQL q sdk m t) = Some r
     \<and> m_editTimestamp r = m_editTimestamp old \<and> m_deleted r = m_deleted old
     \<and> (m_editTimestamp old > 0 \<longrightarrow> m_content r = m_content old \<and> m_mentions r = m_mentions old)
     \<and> (k \<noteq> (ID m, ChatJID m) \<longrightarrow> r = old)"
  unfolding row_of_insertMessage [OF assms] by (simp add: merge_message_def Let_def)

theorem message_edit_survives_replay_witness:
  "\<exists>r. row_of message_key (''A1'', ''5511@s.whatsapp.net'')
      (insertMessageSQL opaque_sqlite plain_sdk sample_replay
        [(messageArgs plain_sdk sample_photo)\<lparr>m_content := Some ''edited'', m_editTimestamp := 9\<rparr>]) = Some r
     \<and> m_content r = Some ''edited''"
proof -
  let ?old = "(messageArgs plain_sdk sample_photo)\<lparr>m_content := Some ''edited'', m_editTimestamp := 9\<rparr>"
  let ?k = "(''A1'', ''5511@s.whatsapp.net'')"
  have k: "keyed message_key [?old]" by (simp add: keyed_def)
  have old: "row_of message_key ?k [?old] = Some ?old" by code_simp
  obtain r where r: "row_of message_key ?k (insertMessageSQL opaque_sqlite plain_sdk sample_replay [?old]) = Some r"
      "m_editTimestamp ?old > 0 \<longrightarrow> m_content r = m_content ?old"
    using message_edit_survives_replay [OF k old, of opaque_sqlite plain_sdk sample_replay] by blast
  then have "m_content r = Some ''edited''" by simp
  with r(1) show ?thesis by blast
qed

text \<open>Redelivery is idempotent: storing a new message and then the same message again leaves the
  archive exactly as the first write did, provided patching a presentation document with itself
  changes nothing.\<close>

lemma message_redelivery_idempotent:
  assumes "row_of message_key (ID m, ChatJID m) t = None"
    and "\<And>p. presentation m = Some p \<Longrightarrow> json_patch q p p = p"
  shows "insertMessageSQL q sdk m (insertMessageSQL q sdk m t) = insertMessageSQL q sdk m t"
proof -
  let ?n = "messageArgs sdk m"
  have pres: "m_presentation ?n = presentation m" by (simp add: messageArgs_def Let_def split: prod.split)
  have mt: "\<exists>x. m_mtype ?n = Some x" "m_editTimestamp ?n = 0"
    by (simp_all add: messageArgs_def Let_def split: prod.split)
  have "\<not> sql_gt v v" for v by (cases v) auto
  moreover have "\<not> sql_gt v (SInt 0)" if "v = SNull" for v using that by simp
  ultimately have gt: "\<not> sql_gt v (sql_coalesce v (SInt 0))" for v by (simp add: sql_coalesce_def)
  have loc: "merge_location q ?n ?n = m_location ?n"
    using gt by (cases "m_location ?n") (auto simp: merge_location_def coalesce_def)
  have "merge_presentation q ?n ?n = m_presentation ?n"
    using assms(2) by (cases "m_presentation ?n") (auto simp: merge_presentation_def pres)
  moreover have "coalesce (nullif_empty v) v = v" "coalesce v v = v" for v
    by (simp_all add: coalesce_def nullif_empty_def split: option.split)
  ultimately have same: "merge_message q f h ?n ?n = ?n" for f h
    using loc mt by (simp add: merge_message_def Let_def)
  have none: "\<forall>r \<in> set t. message_key r \<noteq> (ID m, ChatJID m)"
    using assms(1) by (auto simp: row_of_None image_iff)
  then have "insertMessageSQL q sdk m t = t @ [?n]" by (force simp: insertMessageSQL_def upsert_def has_key_iff)
  moreover have "insertMessageSQL q sdk m (t @ [?n]) = t @ [?n]"
    using none same by (simp add: insertMessageSQL_def upsert_def has_key_iff map_idI)
  ultimately show ?thesis by simp
qed

theorem message_redelivery_idempotent_witness:
  "insertMessageSQL opaque_sqlite plain_sdk sample_photo (insertMessageSQL opaque_sqlite plain_sdk sample_photo [])
   = insertMessageSQL opaque_sqlite plain_sdk sample_photo []"
  by (rule message_redelivery_idempotent) (simp_all add: row_of_def opaque_sqlite_def)

end
