(* ===== verification/Pending_Edits.thy ===== *)
theory Pending_Edits
  imports Message_Store "HOL-Library.Multiset" "HOL-Library.Product_Lexorder"
begin

text \<open>
  Message edits that may arrive before the message they edit (\<^verbatim>\<open>pending_edits.go\<close>, the edit writes of
  \<^verbatim>\<open>edit_forward.go\<close> and the write path of \<^verbatim>\<open>messageBatch.StoreMessage\<close> in \<^verbatim>\<open>store_batch.go\<close>). The
  table \<^verbatim>\<open>pending_edits\<close> is the list of its rows in \<^verbatim>\<open>rowid\<close> order: a new row gets a \<^verbatim>\<open>rowid\<close> above every
  other and an updated row keeps its own. Where a query leaves the order of rows open it goes through
  the argument \<open>scan\<close>, an arbitrary rearrangement. The text of an edit comes from
  \<^verbatim>\<open>extractMessage\<close> (\<^verbatim>\<open>content.go\<close>), the argument \<open>extr\<close>, on protocol messages of any type. A failing
  statement aborts the enclosing transaction and so changes nothing; only the outcomes are modelled.
\<close>

section \<open>Rows and their limits\<close>

definition pendingEditTTL :: duration where "pendingEditTTL = 24 * hour"
definition pendingEditGlobalCap :: nat where "pendingEditGlobalCap = 1024"
definition pendingEditChatCap :: nat where "pendingEditChatCap = 128"
definition pendingEditSenderCap :: nat where "pendingEditSenderCap = 32"
definition pendingEditMaxBytes :: nat where "pendingEditMaxBytes = 65536"

record pending_edit =
  p_chat :: string
  p_target :: string
  p_sender :: string
  p_server :: string
  p_own :: bool
  p_stamp :: int
  p_content :: string
  p_mentions :: string
  p_arrived :: int
  p_expires :: int

definition pending_key :: "pending_edit \<Rightarrow> string \<times> string \<times> string \<times> string \<times> bool" where
  "pending_key p = (p_chat p, p_target p, p_sender p, p_server p, p_own p)"

definition pending_author :: "pending_edit \<Rightarrow> string \<times> string \<times> bool" where
  "pending_author p = (p_sender p, p_server p, p_own p)"

definition prunePendingEdits :: "instant \<Rightarrow> pending_edit list \<Rightarrow> pending_edit list" where
  "prunePendingEdits now = filter (\<lambda>p. \<not> p_expires p \<le> unix_milli now)"

definition pendingEditUserJID :: "jid_sdk \<Rightarrow> string \<Rightarrow> jid option" where
  "pendingEditUserJID sdk sender =
     (case ParseJID sdk sender of
        None \<Rightarrow> None
      | Some j \<Rightarrow>
          if User j = [] then None
          else case snd (splitSenderJID (storedSender j)) of
              None \<Rightarrow> None
            | Some namespace \<Rightarrow> Some ((ToNonAD sdk j)\<lparr>Server := namespace\<rparr>))"

text \<open>\<^verbatim>\<open>ROW_NUMBER() OVER (PARTITION BY part ORDER BY arrived_ms DESC, rowid DESC)\<close> among the rows
  of \<open>sel\<close>, less one; \<open>keep_newest\<close> deletes the rows of \<open>sel\<close> past position \<open>n\<close> of their partition
  (with one partition this is \<^verbatim>\<open>LIMIT -1 OFFSET n\<close>).\<close>

definition arrival :: "nat \<times> pending_edit \<Rightarrow> int \<times> nat" where
  "arrival x = (p_arrived (snd x), fst x)"

definition position ::
    "(pending_edit \<Rightarrow> bool) \<Rightarrow> (pending_edit \<Rightarrow> 'p) \<Rightarrow> pending_edit list \<Rightarrow> nat \<times> pending_edit \<Rightarrow> nat" where
  "position sel part t x =
     length (filter (\<lambda>y. sel (snd y) \<and> part (snd y) = part (snd x) \<and> arrival y > arrival x) (enumerate 0 t))"

definition keep_newest ::
    "nat \<Rightarrow> (pending_edit \<Rightarrow> bool) \<Rightarrow> (pending_edit \<Rightarrow> 'p) \<Rightarrow> pending_edit list \<Rightarrow> pending_edit list" where
  "keep_newest n sel part t =
     map snd (filter (\<lambda>x. sel (snd x) \<longrightarrow> position sel part t x < n) (enumerate 0 t))"

definition capPendingEdits :: "string \<Rightarrow> pending_edit list \<Rightarrow> pending_edit list" where
  "capPendingEdits chat t =
     keep_newest pendingEditGlobalCap (\<lambda>_. True) (\<lambda>_. ())
       (keep_newest pendingEditChatCap (\<lambda>p. p_chat p = chat) (\<lambda>_. ())
         (keep_newest pendingEditSenderCap (\<lambda>p. p_chat p = chat) pending_author t))"

section \<open>Applying and deferring an edit\<close>

definition mention_user :: "string \<Rightarrow> string" where
  "mention_user jid = before_first CHR '':'' (bareSenderUser jid)"

fun mention_users :: "string list \<Rightarrow> string list \<Rightarrow> string list" where
  "mention_users seen [] = []"
| "mention_users seen (j # js) =
     (let user = mention_user j
      in if user = [] \<or> user \<in> set seen then mention_users seen js
         else user # mention_users (user # seen) js)"

definition mentionsColumn :: "string list \<Rightarrow> string" where
  "mentionsColumn jids = Join '','' (mention_users [] jids)"

record 'm protocol_edit =
  e_id :: string
  e_stamp :: int
  e_message :: "'m option"

type_synonym 'm extractor = "'m \<Rightarrow> instant \<Rightarrow> string \<Rightarrow> string \<times> string list"

definition edit_stamp :: "'m protocol_edit \<Rightarrow> instant \<Rightarrow> int" where
  "edit_stamp e fallback = (if e_stamp e \<le> 0 then unix_milli fallback else e_stamp e)"

definition applyMessageEditWith ::
    "'m extractor \<Rightarrow> string \<Rightarrow> string \<Rightarrow> bool \<Rightarrow> 'm protocol_edit \<Rightarrow> instant \<Rightarrow> message_row list \<Rightarrow> message_row list" where
  "applyMessageEditWith extr chat sender fromMe e fallback msgs =
     (case e_message e of
        None \<Rightarrow> msgs
      | Some body \<Rightarrow>
          if e_id e = [] then msgs
          else
            let stamp = edit_stamp e fallback;
                (user, server) = splitSenderJID sender;
                (content, mentions) = extr body fallback (e_id e)
            in map (\<lambda>r. if m_id r = e_id e \<and> m_chat r = chat \<and> m_sender r = Some user \<and> m_server r = server
                           \<and> m_own r = fromMe \<and> m_editTimestamp r < stamp \<and> m_deleted r = None
                        then r\<lparr>m_content := Some content, m_mentions := Some (mentionsColumn mentions),
                               m_editTimestamp := stamp\<rparr> else r) msgs)"

definition UpdateMessageContent :: "string \<Rightarrow> string \<Rightarrow> string \<Rightarrow> int \<Rightarrow> message_row list \<Rightarrow> message_row list" where
  "UpdateMessageContent messageID chatJID content timestampMS =
     map (\<lambda>r. if m_id r = messageID \<and> m_chat r = chatJID \<and> m_editTimestamp r < timestampMS \<and> m_deleted r = None
             then r\<lparr>m_content := Some content, m_mentions := Some [], m_editTimestamp := timestampMS\<rparr> else r)"

definition merge_newer :: "pending_edit \<Rightarrow> pending_edit \<Rightarrow> pending_edit" where
  "merge_newer old new =
     (if p_stamp new > p_stamp old
      then old\<lparr>p_stamp := p_stamp new, p_content := p_content new, p_mentions := p_mentions new\<rparr> else old)"

record archive =
  messages :: "message_row list"
  pending :: "pending_edit list"

definition deferred_row ::
    "jid \<Rightarrow> string \<Rightarrow> bool \<Rightarrow> string \<Rightarrow> int \<Rightarrow> string \<Rightarrow> string \<Rightarrow> instant \<Rightarrow> pending_edit" where
  "deferred_row j chat own target stamp content mentions now =
     \<lparr>p_chat = chat, p_target = target, p_sender = User j, p_server = Server j, p_own = own,
      p_stamp = stamp, p_content = content, p_mentions = mentions,
      p_arrived = unix_milli now, p_expires = unix_milli (now + pendingEditTTL)\<rparr>"

definition applyOrDeferMessageEdit ::
    "jid_sdk \<Rightarrow> 'm extractor \<Rightarrow> string \<Rightarrow> string \<Rightarrow> bool \<Rightarrow> 'm protocol_edit \<Rightarrow> instant \<Rightarrow> instant \<Rightarrow> archive \<Rightarrow> archive" where
  "applyOrDeferMessageEdit sdk extr chat sender own e fallback now a =
     (case e_message e of
        None \<Rightarrow> a
      | Some body \<Rightarrow>
          if chat = [] \<or> e_id e = [] then a
          else
            let a1 = a\<lparr>pending := prunePendingEdits now (pending a)\<rparr>
            in if has_key message_key (e_id e, chat) (messages a1)
               then a1\<lparr>messages := applyMessageEditWith extr chat sender own e fallback (messages a1)\<rparr>
               else case pendingEditUserJID sdk sender of
                   None \<Rightarrow> a1
                 | Some j \<Rightarrow>
                     let stamp = edit_stamp e fallback
                     in if stamp \<le> 0 then a1
                        else
                          let (content, jids) = extr body fallback (e_id e);
                              mentions = mentionsColumn jids
                          in if length chat + length sender + length (e_id e) + length content + length mentions
                                > pendingEditMaxBytes then a1
                             else a1\<lparr>pending := capPendingEdits chat
                                 (upsert pending_key merge_newer
                                   (deferred_row j chat own (e_id e) stamp content mentions now) (pending a1))\<rparr>)"

section \<open>Consuming pending edits\<close>

type_synonym scan = "pending_edit list \<Rightarrow> pending_edit list"

fun newest :: "pending_edit list \<Rightarrow> pending_edit option" where
  "newest [] = None"
| "newest (p # ps) =
     (case newest ps of None \<Rightarrow> Some p | Some q \<Rightarrow> if p_stamp q > p_stamp p then Some q else Some p)"

text \<open>The chats and the author a pending row may come from to count for a stored message.\<close>

definition in_chats :: "string \<Rightarrow> string \<Rightarrow> pending_edit \<Rightarrow> bool" where
  "in_chats chat alias p \<longleftrightarrow> p_chat p = chat \<or> (alias \<noteq> [] \<and> p_chat p = alias)"

definition edit_candidate ::
    "storedMessage \<Rightarrow> message_row \<Rightarrow> pending_edit \<Rightarrow> bool" where
  "edit_candidate m r p \<longleftrightarrow>
     in_chats (m_chat r) (EditChatAlias m) p \<and> p_target p = m_id r \<and> p_own p = m_own r
     \<and> ((Some (p_sender p) = m_sender r \<and> Some (p_server p) = m_server r)
         \<or> (p_sender p, Some (p_server p)) = splitSenderJID (EditAuthorAlias m))"

definition consume_row :: "scan \<Rightarrow> storedMessage \<Rightarrow> pending_edit list \<Rightarrow> message_row \<Rightarrow> message_row" where
  "consume_row scan m pend r =
     (let (user, server) = splitSenderJID (Sender m)
      in case newest (filter (edit_candidate m r) (scan pend)) of
           None \<Rightarrow> r
         | Some p \<Rightarrow>
             if m_id r = ID m \<and> m_chat r = ChatJID m \<and> m_sender r = Some user \<and> m_server r = server
                \<and> m_own r = IsFromMe m \<and> m_deleted r = None \<and> m_editTimestamp r < p_stamp p
             then r\<lparr>m_content := Some (p_content p), m_mentions := Some (p_mentions p),
                    m_editTimestamp := p_stamp p\<rparr> else r)"

definition consumePendingEdits :: "scan \<Rightarrow> storedMessage \<Rightarrow> instant \<Rightarrow> archive \<Rightarrow> archive" where
  "consumePendingEdits scan m now a =
     (let pend = prunePendingEdits now (pending a)
      in a\<lparr>messages := map (consume_row scan m pend) (messages a),
           pending := filter (\<lambda>p. \<not> (p_target p = ID m \<and> in_chats (ChatJID m) (EditChatAlias m) p)) pend\<rparr>)"

section \<open>The message write of a batch\<close>

record batch =
  b_archive :: archive
  b_failed :: bool
  b_checked :: bool
  b_active :: bool
  b_prepared :: "(string \<times> bool) set"
  b_historyReplay :: bool

definition new_batch :: "archive \<Rightarrow> batch" where
  "new_batch a = \<lparr>b_archive = a, b_failed = False, b_checked = False, b_active = False, b_prepared = {},
     b_historyReplay = False\<rparr>"

definition pendingEditIdentitiesSQL ::
    "string \<Rightarrow> bool \<Rightarrow> int \<Rightarrow> pending_edit list \<Rightarrow> (string \<times> string \<times> string) list" where
  "pendingEditIdentitiesSQL target own readAt t =
     sort (map (\<lambda>p. (p_chat p, p_sender p, p_server p))
       (filter (\<lambda>p. p_target p = target \<and> p_own p = own \<and> p_expires p > readAt) t))"

text \<open>A failed write leaves the batch failed: \<^verbatim>\<open>messageBatch.write\<close> runs nothing after it and
  \<^verbatim>\<open>BatchContext\<close> rolls the transaction back.\<close>

definition StoreMessage :: "sqlite \<Rightarrow> jid_sdk \<Rightarrow> scan \<Rightarrow> instant \<Rightarrow> storedMessage \<Rightarrow> batch \<Rightarrow> batch" where
  "StoreMessage q sdk scan now m0 b =
     (if Content m0 = [] \<and> MediaType m0 = [] then b
      else if b_failed b then b
      else
        let m = m0\<lparr>HistoryReplay := b_historyReplay b\<rparr>;
            key = (ID m, IsFromMe m)
        in if (case EditPreparation m of
                 Some (identities, readAt) \<Rightarrow>
                   key \<notin> b_prepared b \<and>
                   pendingEditIdentitiesSQL (ID m) (IsFromMe m) readAt (pending (b_archive b)) \<noteq> identities
               | None \<Rightarrow> False)
           then b\<lparr>b_failed := True\<rparr>
           else
             let b1 = (if EditPreparation m \<noteq> None then b\<lparr>b_prepared := insert key (b_prepared b)\<rparr> else b);
                 a = b_archive b;
                 a1 = a\<lparr>messages := insertMessageSQL q sdk m (messages a)\<rparr>;
                 a2 = (if b_checked b then a1 else a1\<lparr>pending := prunePendingEdits now (pending a1)\<rparr>);
                 active = (if b_checked b then b_active b else pending a2 \<noteq> [])
             in b1\<lparr>b_checked := True, b_active := active,
                   b_archive := (if active then consumePendingEdits scan m now a2 else a2)\<rparr>)"

definition ApplyMessageEdit ::
    "jid_sdk \<Rightarrow> 'm extractor \<Rightarrow> string \<Rightarrow> string \<Rightarrow> bool \<Rightarrow> 'm protocol_edit \<Rightarrow> instant \<Rightarrow> instant \<Rightarrow> batch \<Rightarrow> batch" where
  "ApplyMessageEdit sdk extr chat sender own e fallback now b =
     (let b1 = b\<lparr>b_checked := False\<rparr>
      in if b_failed b1 then b1
         else b1\<lparr>b_archive := applyOrDeferMessageEdit sdk extr chat sender own e fallback now (b_archive b1)\<rparr>)"

definition commit_batch :: "archive \<Rightarrow> batch \<Rightarrow> archive" where
  "commit_batch before b = (if b_failed b then before else b_archive b)"

section \<open>Moving pending edits to phone chats\<close>

definition merge_migrated :: "pending_edit \<Rightarrow> pending_edit \<Rightarrow> pending_edit" where
  "merge_migrated old new =
     old\<lparr>p_content := (if p_stamp new > p_stamp old then p_content new else p_content old),
         p_mentions := (if p_stamp new > p_stamp old then p_mentions new else p_mentions old),
         p_stamp := max (p_stamp old) (p_stamp new),
         p_arrived := min (p_arrived old) (p_arrived new),
         p_expires := min (p_expires old) (p_expires new)\<rparr>"

definition prepared_phone :: "jid_sdk \<Rightarrow> (string \<Rightarrow> string option) \<Rightarrow> string \<Rightarrow> string option" where
  "prepared_phone sdk lidMap chat =
     (case ParseJID sdk chat of
        None \<Rightarrow> None
      | Some j \<Rightarrow>
          (case lidMap (User j) of
             None \<Rightarrow> None
           | Some phone \<Rightarrow>
               if isPhoneDigits phone then Some (JIDString sdk (NewJID phone DefaultUserServer)) else None))"

definition insert_migrated :: "string \<Rightarrow> pending_edit list \<Rightarrow> pending_edit list \<Rightarrow> pending_edit list" where
  "insert_migrated phone =
     foldl (\<lambda>t' p. upsert pending_key merge_migrated (p\<lparr>p_chat := phone\<rparr>) t')"

definition migrate_chat :: "scan \<Rightarrow> string \<Rightarrow> string \<Rightarrow> pending_edit list \<Rightarrow> pending_edit list" where
  "migrate_chat scan chat phone t =
     capPendingEdits phone
       (filter (\<lambda>p. p_chat p \<noteq> chat)
         (insert_migrated phone t (filter (\<lambda>p. p_chat p = chat) (scan t))))"

definition migratePendingEditChats ::
    "jid_sdk \<Rightarrow> (string \<Rightarrow> string option) option \<Rightarrow> scan \<Rightarrow> instant \<Rightarrow> pending_edit list \<Rightarrow> pending_edit list" where
  "migratePendingEditChats sdk session scan now t =
     (let chats = sort (remdups (map p_chat (filter (\<lambda>p. has_suffix (ToLower (p_chat p)) ''@lid'') t)))
      in case session of
           None \<Rightarrow> t
         | Some lidMap \<Rightarrow>
             if chats = [] then t
             else foldl (\<lambda>t' chat. case prepared_phone sdk lidMap chat of
                                     None \<Rightarrow> t' | Some phone \<Rightarrow> migrate_chat scan chat phone t')
                    (prunePendingEdits now t) chats)"

interpretation pending: keyed_table pending_key merge_newer
  by unfold_locales (simp add: merge_newer_def pending_key_def)

interpretation migrated: keyed_table pending_key merge_migrated
  by unfold_locales (simp add: merge_migrated_def pending_key_def)

section \<open>Lemmas: keeping the newest rows\<close>

text \<open>How many rows of a table satisfy a condition.\<close>

abbreviation count_rows :: "('r \<Rightarrow> bool) \<Rightarrow> 'r list \<Rightarrow> nat" where
  "count_rows P t \<equiv> length (filter P t)"

lemma count_enumerate: "count_rows P t = card {x \<in> set (enumerate 0 t). P (snd x)}"
proof -
  have "count_rows P t = length (filter (P \<circ> snd) (enumerate 0 t))"
    using filter_map [of P snd "enumerate 0 t"] by simp
  also have "\<dots> = card (set (filter (P \<circ> snd) (enumerate 0 t)))"
    by (rule distinct_card [symmetric]) (rule distinct_filter, rule distinct_enumerate)
  finally show ?thesis by (simp add: comp_def)
qed

lemma position_card:
  "position sel part t x =
     card {y \<in> set (enumerate 0 t). sel (snd y) \<and> part (snd y) = part (snd x) \<and> arrival x < arrival y}"
  unfolding position_def
  by (subst distinct_card [symmetric]) (auto intro: distinct_filter distinct_enumerate)

lemma arrival_inj: "x \<in> set (enumerate 0 t) \<Longrightarrow> y \<in> set (enumerate 0 t) \<Longrightarrow> arrival x = arrival y \<Longrightarrow> x = y"
  by (auto simp: arrival_def in_set_enumerate_eq prod_eq_iff)

lemma enumerate_snd: "x \<in> set (enumerate 0 t) \<Longrightarrow> snd x \<in> set t"
  using nth_mem [of "fst x" t] by (simp add: in_set_enumerate_eq)

lemma map_snd_filter_sub: "set (map snd (filter P (enumerate 0 t))) \<subseteq> set t"
  using enumerate_snd by fastforce

lemma keep_newest_subset: "set (keep_newest n sel part t) \<subseteq> set t"
  unfolding keep_newest_def by (rule map_snd_filter_sub)

lemma count_map_snd_filter: "count_rows Q (map snd (filter P xs)) \<le> count_rows Q (map snd xs)"
  by (induction xs) auto

lemma keep_newest_count_mono: "count_rows Q (keep_newest n sel part t) \<le> count_rows Q t"
  unfolding keep_newest_def using count_map_snd_filter [of Q _ "enumerate 0 t"] by simp

lemma keep_newest_keyed: "keyed key t \<Longrightarrow> keyed key (keep_newest n sel part t)"
  unfolding keep_newest_def keyed_def map_map
  by (rule distinct_map_filter) (metis map_map map_snd_enumerate)

text \<open>No partition keeps more than \<open>n\<close> rows: the oldest survivor has all the others above it.\<close>

lemma keep_newest_bound: "count_rows (\<lambda>r. sel r \<and> part r = g) (keep_newest n sel part t) \<le> n"
proof -
  let ?S = "{x \<in> set (enumerate 0 t). sel (snd x) \<and> part (snd x) = g \<and> position sel part t x < n}"
  have "count_rows (\<lambda>r. sel r \<and> part r = g) (keep_newest n sel part t)
      = length (filter (\<lambda>x. (sel (snd x) \<longrightarrow> position sel part t x < n) \<and> sel (snd x) \<and> part (snd x) = g)
          (enumerate 0 t))"
    by (simp add: keep_newest_def filter_map comp_def conj_commute)
  also have "\<dots> = card ?S"
    by (subst distinct_card [symmetric]) (auto intro: distinct_filter distinct_enumerate arg_cong [where f = card])
  also have "\<dots> \<le> n"
  proof (cases "?S = {}")
    case False
    have fin: "finite ?S" by simp
    have x: "arg_min_on arrival ?S \<in> ?S" "\<And>y. y \<in> ?S \<Longrightarrow> arrival (arg_min_on arrival ?S) \<le> arrival y"
      by (rule arg_min_if_finite(1) [OF fin False]) (rule arg_min_least [OF fin False])
    define x where "x = arg_min_on arrival ?S"
    note x = x [folded x_def]
    have "?S - {x} \<subseteq> {y \<in> set (enumerate 0 t). sel (snd y) \<and> part (snd y) = part (snd x) \<and> arrival x < arrival y}"
    proof
      fix y
      assume y: "y \<in> ?S - {x}"
      then have "arrival x \<noteq> arrival y" using x(1) arrival_inj by blast
      moreover have "arrival x \<le> arrival y" using y by (intro x(2)) blast
      ultimately have "arrival x < arrival y" by (simp add: order_less_le)
      with y x(1) show "y \<in> {y \<in> set (enumerate 0 t). sel (snd y) \<and> part (snd y) = part (snd x) \<and> arrival x < arrival y}"
        by auto
    qed
    then have "card (?S - {x}) \<le> position sel part t x"
      unfolding position_card by (rule card_mono [rotated]) simp
    with x(1) have "card (?S - {x}) < n" by simp
    with x(1) fin show ?thesis by (simp add: card_Diff_singleton_if split: if_splits)
  next
    case True
    then show ?thesis unfolding True by simp
  qed
  finally show ?thesis .
qed

text \<open>A partition within its bound loses nothing.\<close>

lemma position_less_count:
  assumes "x \<in> set (enumerate 0 t)" "sel (snd x)"
  shows "position sel part t x < count_rows (\<lambda>r. sel r \<and> part r = part (snd x)) t"
  unfolding position_card count_enumerate
  by (rule psubset_card_mono) (use assms in \<open>auto simp: psubset_eq\<close>)

lemma keep_newest_same:
  assumes "\<And>r. r \<in> set t \<Longrightarrow> Q r \<Longrightarrow> sel r \<Longrightarrow> count_rows (\<lambda>s. sel s \<and> part s = part r) t \<le> n"
  shows "filter Q (keep_newest n sel part t) = filter Q t"
proof -
  have keep: "sel (snd x) \<longrightarrow> position sel part t x < n" if "x \<in> set (enumerate 0 t)" "Q (snd x)" for x
  proof
    assume sel: "sel (snd x)"
    have "snd x \<in> set t" by (rule enumerate_snd) (rule that(1))
    from assms [OF this that(2) sel] position_less_count [of x t sel part, OF that(1) sel]
    show "position sel part t x < n" by linarith
  qed
  have "filter Q (keep_newest n sel part t)
      = map snd (filter (\<lambda>x. (sel (snd x) \<longrightarrow> position sel part t x < n) \<and> Q (snd x)) (enumerate 0 t))"
    by (simp add: keep_newest_def filter_map comp_def conj_commute)
  also have "\<dots> = map snd (filter (Q \<circ> snd) (enumerate 0 t))"
    using keep by (intro arg_cong [where f = "map snd"] filter_cong) auto
  also have "\<dots> = filter Q t" using filter_map [of Q snd "enumerate 0 t"] by simp
  finally show ?thesis .
qed

text \<open>The last row survives when nothing arrived after it.\<close>

lemma keep_newest_snoc:
  assumes "0 < n" "\<And>r. r \<in> set t \<Longrightarrow> p_arrived r \<le> p_arrived row"
  shows "\<exists>t'. keep_newest n sel part (t @ [row]) = t' @ [row] \<and> set t' \<subseteq> set t"
proof -
  have enum: "enumerate 0 (t @ [row]) = enumerate 0 t @ [(length t, row)]"
    by (simp add: enumerate_append_eq)
  have "\<not> arrival (length t, row) < arrival y" if "y \<in> set (enumerate 0 (t @ [row]))" for y
  proof -
    have "fst y \<le> length t" using that by (auto simp: enum in_set_enumerate_eq)
    moreover have "p_arrived (snd y) \<le> p_arrived row"
    proof (cases "y = (length t, row)")
      case False
      with that have "y \<in> set (enumerate 0 t)" by (simp add: enum)
      then have "snd y \<in> set t" by (rule enumerate_snd)
      then show ?thesis by (rule assms(2))
    qed simp
    ultimately show ?thesis by (auto simp: arrival_def)
  qed
  then have "position sel part (t @ [row]) (length t, row) = 0"
    by (auto simp: position_card)
  with assms(1) have "keep_newest n sel part (t @ [row])
      = map snd (filter (\<lambda>x. sel (snd x) \<longrightarrow> position sel part (t @ [row]) x < n) (enumerate 0 t)) @ [row]"
    unfolding keep_newest_def enum by simp
  with map_snd_filter_sub show ?thesis by (intro exI conjI)
qed

section \<open>Lemmas: the invariant of the table\<close>

definition row_ok :: "pending_edit \<Rightarrow> bool" where
  "row_ok p \<longleftrightarrow> p_expires p = p_arrived p + 86400000 \<and> p_stamp p > 0
     \<and> length (p_target p) + length (p_content p) + length (p_mentions p) \<le> pendingEditMaxBytes"

definition chat_within :: "string \<Rightarrow> pending_edit list \<Rightarrow> bool" where
  "chat_within c t \<longleftrightarrow> count_rows (\<lambda>p. p_chat p = c) t \<le> pendingEditChatCap
     \<and> list_all (\<lambda>p. count_rows (\<lambda>r. p_chat r = c \<and> pending_author r = pending_author p) t \<le> pendingEditSenderCap) t"

definition pending_wf :: "pending_edit list \<Rightarrow> bool" where
  "pending_wf t \<longleftrightarrow> keyed pending_key t \<and> length t \<le> pendingEditGlobalCap
     \<and> list_all row_ok t \<and> list_all (\<lambda>p. chat_within (p_chat p) t) t"

lemma chat_within_iff:
  "chat_within c t \<longleftrightarrow> count_rows (\<lambda>p. p_chat p = c) t \<le> pendingEditChatCap
     \<and> (\<forall>a. count_rows (\<lambda>r. p_chat r = c \<and> pending_author r = a) t \<le> pendingEditSenderCap)"
proof -
  have "count_rows (\<lambda>r. p_chat r = c \<and> pending_author r = a) t \<le> pendingEditSenderCap"
    if "\<forall>p \<in> set t. count_rows (\<lambda>r. p_chat r = c \<and> pending_author r = pending_author p) t \<le> pendingEditSenderCap" for a
  proof (cases "\<exists>p \<in> set t. pending_author p = a")
    case False
    then have "filter (\<lambda>r. p_chat r = c \<and> pending_author r = a) t = []" by (auto simp: filter_empty_conv)
    then show ?thesis by simp
  qed (use that in auto)
  then show ?thesis unfolding chat_within_def list_all_iff by blast
qed

lemma chat_within_mono:
  assumes "\<And>Q. count_rows Q t' \<le> count_rows Q t" "chat_within c t"
  shows "chat_within c t'"
  using assms(2) assms(1) order_trans unfolding chat_within_iff by blast

lemma pending_wf_chats: "pending_wf t \<longleftrightarrow> keyed pending_key t \<and> length t \<le> pendingEditGlobalCap
     \<and> list_all row_ok t \<and> (\<forall>c. chat_within c t)"
proof -
  have "chat_within c t" if "\<forall>p \<in> set t. chat_within (p_chat p) t" for c
  proof (cases "\<exists>p \<in> set t. p_chat p = c")
    case False
    then have "filter (\<lambda>p. p_chat p = c) t = []" "\<And>a. filter (\<lambda>r. p_chat r = c \<and> pending_author r = a) t = []"
      by (auto simp: filter_empty_conv)
    then show ?thesis by (simp add: chat_within_iff)
  qed (use that in auto)
  then show ?thesis by (auto simp: pending_wf_def list_all_iff)
qed

lemma pending_wf_Nil [simp]: "pending_wf []"
  by (simp add: pending_wf_def)

lemma count_filter_le: "count_rows Q (filter P t) \<le> count_rows Q t"
  by (induction t) auto

lemma pending_wf_filter: "pending_wf t \<Longrightarrow> pending_wf (filter P t)"
proof -
  assume wf: "pending_wf t"
  from wf have "\<forall>c. chat_within c (filter P t)"
    unfolding pending_wf_chats by (blast intro: chat_within_mono [OF count_filter_le])
  with wf show ?thesis
    by (auto simp: pending_wf_chats tbl list_all_iff intro: le_trans [OF length_filter_le])
qed

lemma cap_sub: "set (capPendingEdits c t) \<subseteq> set t"
  unfolding capPendingEdits_def using keep_newest_subset by (meson subset_trans)

lemma cap_mono: "count_rows Q (capPendingEdits c t) \<le> count_rows Q t"
  unfolding capPendingEdits_def using keep_newest_count_mono by (meson order_trans)

text \<open>\<^verbatim>\<open>capPendingEdits\<close> restores the invariant after writes to one chat.\<close>

lemma cap_restores:
  assumes "keyed pending_key t" "list_all row_ok t" "\<And>c'. c' \<noteq> c \<Longrightarrow> chat_within c' t"
  shows "pending_wf (capPendingEdits c t)"
proof -
  let ?s = "keep_newest pendingEditSenderCap (\<lambda>p. p_chat p = c) pending_author t"
  let ?u = "keep_newest pendingEditChatCap (\<lambda>p. p_chat p = c) (\<lambda>_. ()) ?s"
  have "count_rows (\<lambda>p. p_chat p = c) ?u \<le> pendingEditChatCap"
    using keep_newest_bound [of "\<lambda>p. p_chat p = c" "\<lambda>_. ()" "()"] by simp
  moreover have "count_rows (\<lambda>r. p_chat r = c \<and> pending_author r = a) ?u \<le> pendingEditSenderCap" for a
    using keep_newest_bound [of "\<lambda>p. p_chat p = c" pending_author a] keep_newest_count_mono
    by (rule order_trans [rotated])
  ultimately have "chat_within c ?u" by (simp add: chat_within_iff)
  moreover have "\<And>Q. count_rows Q (capPendingEdits c t) \<le> count_rows Q ?u"
    unfolding capPendingEdits_def by (rule keep_newest_count_mono)
  ultimately have own: "chat_within c (capPendingEdits c t)" by (intro chat_within_mono [of "capPendingEdits c t" ?u])
  have "chat_within c' (capPendingEdits c t)" for c'
    by (cases "c' = c") (use own assms(3) in \<open>auto intro: chat_within_mono [OF cap_mono]\<close>)
  moreover have "length (capPendingEdits c t) \<le> pendingEditGlobalCap"
    unfolding capPendingEdits_def using keep_newest_bound [of "\<lambda>_. True" "\<lambda>_. ()" "()"] by simp
  moreover have "keyed pending_key (capPendingEdits c t)"
    unfolding capPendingEdits_def by (intro keep_newest_keyed assms(1))
  moreover have "list_all row_ok (capPendingEdits c t)"
    using assms(2) cap_sub by (auto simp: list_all_iff)
  ultimately show ?thesis by (simp add: pending_wf_chats)
qed

text \<open>Writing one row of a chat disturbs no other chat.\<close>

lemma count_upsert_other:
  assumes "keyed_table pending_key merge" "\<not> Q row"
    and "\<And>old. pending_key old = pending_key row \<Longrightarrow> Q (merge old row) = Q old"
  shows "count_rows Q (upsert pending_key merge row t) = count_rows Q t"
proof -
  have "count_rows Q (map (\<lambda>r. if pending_key r = pending_key row then merge r row else r) t) = count_rows Q t"
    using assms(3) by (induction t) auto
  with assms(2) show ?thesis by (simp add: upsert_def)
qed

lemma chat_within_upsert_other:
  assumes "keyed_table pending_key merge" "p_chat row \<noteq> c" "chat_within c t"
  shows "chat_within c (upsert pending_key merge row t)"
proof -
  have key: "pending_key (merge old row) = pending_key old" if "pending_key old = pending_key row" for old
    using keyed_table.merge_key [OF assms(1)] that by blast
  have "count_rows Q (upsert pending_key merge row t) = count_rows Q t"
    if "\<And>p p'. pending_key p = pending_key p' \<Longrightarrow> Q p = Q p'" "\<And>p. Q p \<Longrightarrow> p_chat p = c" for Q
  proof (rule count_upsert_other [OF assms(1)])
    show "\<not> Q row" using that(2) assms(2) by blast
    show "Q (merge old row) = Q old" if "pending_key old = pending_key row" for old
      using key [OF that] \<open>\<And>p p'. pending_key p = pending_key p' \<Longrightarrow> Q p = Q p'\<close> by blast
  qed
  from this [of "\<lambda>p. p_chat p = c"] this [of "\<lambda>p. p_chat p = c \<and> pending_author p = a" for a] assms(3)
  show ?thesis by (simp add: chat_within_iff pending_key_def pending_author_def)
qed

lemma upsert_row_ok:
  assumes "list_all row_ok t" "row_ok row" "\<And>old. row_ok old \<Longrightarrow> pending_key old = pending_key row \<Longrightarrow> row_ok (merge old row)"
  shows "list_all row_ok (upsert pending_key merge row t)"
  using assms by (auto simp: upsert_def list_all_iff)

lemma row_ok_newer:
  assumes "row_ok old" "row_ok row" "pending_key old = pending_key row"
  shows "row_ok (merge_newer old row)"
  using assms by (auto simp: row_ok_def merge_newer_def pending_key_def)

lemma row_ok_migrated:
  assumes "row_ok old" "row_ok row" "pending_key old = pending_key row"
  shows "row_ok (merge_migrated old row)"
  using assms by (auto simp: row_ok_def merge_migrated_def pending_key_def)

lemma deferred_row_ok:
  assumes "stamp > 0" "length target + length content + length mentions \<le> pendingEditMaxBytes"
  shows "row_ok (deferred_row j chat own target stamp content mentions now)"
proof -
  have "unix_milli (now + pendingEditTTL) = unix_milli now + 86400000"
    using unix_milli_add [of now 86400000] by (simp add: pendingEditTTL_def time_unit_defs)
  with assms show ?thesis by (simp add: deferred_row_def row_ok_def)
qed

lemma defer_wf:
  assumes "pending_wf t" "row_ok row" "p_chat row = chat"
  shows "pending_wf (capPendingEdits chat (upsert pending_key merge_newer row t))"
proof (rule cap_restores)
  show "keyed pending_key (upsert pending_key merge_newer row t)"
    using assms(1) by (simp add: pending_wf_chats pending.upsert_keyed)
  show "list_all row_ok (upsert pending_key merge_newer row t)"
    using assms row_ok_newer by (intro upsert_row_ok) (auto simp: pending_wf_chats)
  show "chat_within c' (upsert pending_key merge_newer row t)" if "c' \<noteq> chat" for c'
    using that assms by (intro chat_within_upsert_other [OF pending.keyed_table_axioms]) (auto simp: pending_wf_chats)
qed

lemma migrate_fold_wf:
  assumes "keyed pending_key t" "list_all row_ok t" "\<And>c. c \<noteq> phone \<Longrightarrow> chat_within c t"
    and "\<And>p. p \<in> set ps \<Longrightarrow> row_ok p"
  shows "keyed pending_key (insert_migrated phone t ps)
    \<and> list_all row_ok (insert_migrated phone t ps)
    \<and> (\<forall>c. c \<noteq> phone \<longrightarrow> chat_within c (insert_migrated phone t ps))"
  unfolding insert_migrated_def
proof (rule foldl_invariant)
  show "keyed pending_key t \<and> list_all row_ok t \<and> (\<forall>c. c \<noteq> phone \<longrightarrow> chat_within c t)" using assms by blast
next
  fix p t'
  assume "p \<in> set ps" and t': "keyed pending_key t' \<and> list_all row_ok t' \<and> (\<forall>c. c \<noteq> phone \<longrightarrow> chat_within c t')"
  then have ok: "row_ok (p\<lparr>p_chat := phone\<rparr>)" using assms(4) by (simp add: row_ok_def)
  from t' have keyed: "keyed pending_key (upsert pending_key merge_migrated (p\<lparr>p_chat := phone\<rparr>) t')"
    by (simp add: migrated.upsert_keyed)
  from t' have rows: "list_all row_ok (upsert pending_key merge_migrated (p\<lparr>p_chat := phone\<rparr>) t')"
    by (intro upsert_row_ok row_ok_migrated ok) auto
  have "chat_within c (upsert pending_key merge_migrated (p\<lparr>p_chat := phone\<rparr>) t')" if "c \<noteq> phone" for c
    using that t' by (intro chat_within_upsert_other [OF migrated.keyed_table_axioms]) auto
  with keyed rows show "keyed pending_key (upsert pending_key merge_migrated (p\<lparr>p_chat := phone\<rparr>) t')
    \<and> list_all row_ok (upsert pending_key merge_migrated (p\<lparr>p_chat := phone\<rparr>) t')
    \<and> (\<forall>c. c \<noteq> phone \<longrightarrow> chat_within c (upsert pending_key merge_migrated (p\<lparr>p_chat := phone\<rparr>) t'))" by blast
qed

lemma migrate_chat_wf:
  assumes "pending_wf t" "\<And>u. set (scan u) = set u"
  shows "pending_wf (migrate_chat scan chat phone t)"
proof -
  let ?u = "insert_migrated phone t (filter (\<lambda>p. p_chat p = chat) (scan t))"
  have u: "keyed pending_key ?u \<and> list_all row_ok ?u \<and> (\<forall>c. c \<noteq> phone \<longrightarrow> chat_within c ?u)"
    using assms by (intro migrate_fold_wf) (auto simp: pending_wf_chats list_all_iff)
  show ?thesis unfolding migrate_chat_def
  proof (rule cap_restores)
    show "keyed pending_key (filter (\<lambda>p. p_chat p \<noteq> chat) ?u)" using u by (simp add: tbl)
    show "list_all row_ok (filter (\<lambda>p. p_chat p \<noteq> chat) ?u)" using u by (simp add: list_all_iff)
    show "chat_within c (filter (\<lambda>p. p_chat p \<noteq> chat) ?u)" if "c \<noteq> phone" for c
      using u that by (intro chat_within_mono [OF count_filter_le]) blast
  qed
qed

lemma prune_wf: "pending_wf t \<Longrightarrow> pending_wf (prunePendingEdits now t)"
  unfolding prunePendingEdits_def by (rule pending_wf_filter)

lemma applyOrDefer_wf:
  assumes "pending_wf (pending a)"
  shows "pending_wf (pending (applyOrDeferMessageEdit sdk extr chat sender own e fallback now a))"
proof -
  have "pending_wf (capPendingEdits chat (upsert pending_key merge_newer
      (deferred_row j chat own (e_id e) stamp content mentions now) (prunePendingEdits now (pending a))))"
    if "stamp > 0" "\<not> length chat + length sender + length (e_id e) + length content + length mentions > pendingEditMaxBytes"
    for j stamp content mentions
    using that prune_wf [OF assms] by (intro defer_wf deferred_row_ok) (auto simp: deferred_row_def)
  then show ?thesis using prune_wf [OF assms, of now] assms
    unfolding applyOrDeferMessageEdit_def
    by (auto simp: Let_def not_le split: option.split prod.split)
qed

lemma consume_wf: "pending_wf (pending a) \<Longrightarrow> pending_wf (pending (consumePendingEdits scan m now a))"
  by (simp add: consumePendingEdits_def Let_def pending_wf_filter prune_wf)

section \<open>Lemmas: the message write\<close>

lemma StoreMessage_wf:
  "pending_wf (pending (b_archive b)) \<Longrightarrow> pending_wf (pending (b_archive (StoreMessage q sdk scan now m b)))"
  by (simp add: StoreMessage_def Let_def prune_wf consume_wf split: option.split)

lemma consume_row_key: "message_key (consume_row scan m pend r) = message_key r"
  by (simp add: consume_row_def message_key_def Let_def split: prod.split option.split)

lemma applyEdit_key:
  "keyed message_key (applyMessageEditWith extr chat sender fromMe e fallback t) = keyed message_key t"
  by (auto simp: applyMessageEditWith_def Let_def message_key_def split: option.split prod.split
      intro!: keyed_map_same_key)

lemma consume_keyed:
  "keyed message_key (messages (consumePendingEdits scan m now a)) = keyed message_key (messages a)"
  by (simp add: consumePendingEdits_def Let_def keyed_map_same_key consume_row_key)

lemma insertMessage_keyed: "keyed message_key t \<Longrightarrow> keyed message_key (insertMessageSQL q sdk m t)"
  by (simp add: insertMessageSQL_def messages.upsert_keyed)

lemma StoreMessage_keyed:
  "keyed message_key (messages (b_archive b)) \<Longrightarrow>
     keyed message_key (messages (b_archive (StoreMessage q sdk scan now m b)))"
  by (simp add: StoreMessage_def Let_def consume_keyed insertMessage_keyed split: option.split)

lemma applyOrDefer_keyed:
  "keyed message_key (messages (applyOrDeferMessageEdit sdk extr chat sender own e fallback now a))
     = keyed message_key (messages a)"
  by (simp add: applyOrDeferMessageEdit_def Let_def applyEdit_key split: option.split prod.split)

section \<open>Reachable archives\<close>

text \<open>The writes of one batch, and the archives reachable by committed batches and startup migrations.\<close>

datatype 'm batch_op =
    BatchStore instant storedMessage
  | BatchEdit string string bool "'m protocol_edit" instant instant

fun run_batch_op :: "sqlite \<Rightarrow> jid_sdk \<Rightarrow> 'm extractor \<Rightarrow> scan \<Rightarrow> 'm batch_op \<Rightarrow> batch \<Rightarrow> batch" where
  "run_batch_op q sdk extr scan (BatchStore now m) b = StoreMessage q sdk scan now m b"
| "run_batch_op q sdk extr scan (BatchEdit chat sender own e fallback now) b =
     ApplyMessageEdit sdk extr chat sender own e fallback now b"

definition run_batch :: "sqlite \<Rightarrow> jid_sdk \<Rightarrow> 'm extractor \<Rightarrow> scan \<Rightarrow> 'm batch_op list \<Rightarrow> archive \<Rightarrow> archive" where
  "run_batch q sdk extr scan ops a = commit_batch a (fold (run_batch_op q sdk extr scan) ops (new_batch a))"

inductive reachable :: "sqlite \<Rightarrow> jid_sdk \<Rightarrow> 'm extractor \<Rightarrow> scan \<Rightarrow> archive \<Rightarrow> bool"
  for q :: "sqlite" and sdk :: "jid_sdk" and extr :: "'m extractor" and scan :: "scan" where
  empty: "reachable q sdk extr scan \<lparr>messages = [], pending = []\<rparr>"
| batch: "reachable q sdk extr scan a \<Longrightarrow> reachable q sdk extr scan (run_batch q sdk extr scan ops a)"
| migrate: "reachable q sdk extr scan a \<Longrightarrow>
    reachable q sdk extr scan (a\<lparr>pending := migratePendingEditChats sdk session scan now (pending a)\<rparr>)"

definition archive_ok :: "archive \<Rightarrow> bool" where
  "archive_ok a \<longleftrightarrow> keyed message_key (messages a) \<and> pending_wf (pending a)"

lemma run_batch_ok:
  assumes "archive_ok a"
  shows "archive_ok (run_batch q sdk extr scan ops a)"
proof -
  have "archive_ok (b_archive (fold (run_batch_op q sdk extr scan) ops b))" if "archive_ok (b_archive b)" for b
    using that
  proof (induction ops arbitrary: b)
    case (Cons op ops)
    have "archive_ok (b_archive (run_batch_op q sdk extr scan op b))"
      using Cons.prems
      by (cases op) (auto simp: archive_ok_def StoreMessage_wf StoreMessage_keyed ApplyMessageEdit_def Let_def
          applyOrDefer_wf applyOrDefer_keyed)
    with Cons.IH show ?case by simp
  qed simp
  from this [of "new_batch a"] assms show ?thesis
    by (simp add: run_batch_def commit_batch_def new_batch_def)
qed

lemma migrate_wf:
  assumes "pending_wf t" "\<And>u. set (scan u) = set u"
  shows "pending_wf (migratePendingEditChats sdk session scan now t)"
proof -
  have "pending_wf (foldl (\<lambda>t' chat. case prepared_phone sdk lidMap chat of
      None \<Rightarrow> t' | Some phone \<Rightarrow> migrate_chat scan chat phone t') (prunePendingEdits now t) chats)" for lidMap chats
    by (rule foldl_invariant) (auto simp: prune_wf assms migrate_chat_wf split: option.split)
  with assms(1) show ?thesis by (simp add: migratePendingEditChats_def Let_def split: option.split)
qed

text \<open>C7. Pending edits are bounded whatever arrives: in every archive reachable by any sequence of
  batches and migrations, each message and each pending edit has one row, at most 1024 edits wait, at
  most 128 per chat and 32 per author of a chat, no stored edit is larger than 64 KiB, each has a
  positive edit time, and each expires exactly one day after it first arrived.\<close>

theorem pending_edits_bounded:
  assumes "reachable q sdk extr scan a" and "\<And>u. set (scan u) = set u"
  shows "archive_ok a"
  using assms(1)
proof induction
  case empty
  then show ?case by (simp add: archive_ok_def pending_wf_def)
next
  case (batch a ops)
  then show ?case by (simp add: run_batch_ok)
next
  case (migrate a session now)
  then show ?case using migrate_wf [OF _ assms(2)] by (simp add: archive_ok_def)
qed

theorem pending_edits_bounded_witness:
  "archive_ok (run_batch opaque_sqlite plain_sdk (\<lambda>t _ _. (t, [])) id
     [BatchStore 7000000000 sample_photo,
      BatchEdit ''5511@s.whatsapp.net'' ''5511@s.whatsapp.net'' False
        \<lparr>e_id = ''A2'', e_stamp = 8000, e_message = Some ''text''\<rparr> 8000000000 8000000000]
     \<lparr>messages = [], pending = []\<rparr>)"
  by (rule pending_edits_bounded [OF reachable.batch [OF reachable.empty]]) simp

section \<open>One author cannot evict another\<close>

abbreviation of_author :: "string \<Rightarrow> string \<times> string \<times> bool \<Rightarrow> pending_edit \<Rightarrow> bool" where
  "of_author chat author p \<equiv> p_chat p = chat \<and> pending_author p = author"

lemma keep_newest_all:
  assumes "\<And>r. r \<in> set t \<Longrightarrow> sel r \<Longrightarrow> count_rows (\<lambda>s. sel s \<and> part s = part r) t \<le> n"
  shows "keep_newest n sel part t = t"
  using keep_newest_same [of t "\<lambda>_. True" sel part n] assms by simp

lemma count_split: "count_rows P t = count_rows (\<lambda>p. P p \<and> Q p) t + count_rows (\<lambda>p. P p \<and> \<not> Q p) t"
  by (induction t) auto

lemma cap_after_author_cap:
  assumes "count_rows (\<lambda>p. p_chat p = chat) s \<le> pendingEditChatCap" "length s \<le> pendingEditGlobalCap"
    and "s = keep_newest pendingEditSenderCap (\<lambda>p. p_chat p = chat) pending_author t"
  shows "capPendingEdits chat t = s"
proof -
  have "keep_newest pendingEditChatCap (\<lambda>p. p_chat p = chat) (\<lambda>_. ()) s = s"
    using assms(1) by (intro keep_newest_all) simp
  moreover have "keep_newest pendingEditGlobalCap (\<lambda>_. True) (\<lambda>_. ()) s = s"
    using assms(2) by (intro keep_newest_all) simp
  ultimately show ?thesis using assms(3) by (simp add: capPendingEdits_def)
qed

lemma author_within: "pending_wf t \<Longrightarrow> count_rows (of_author c a) t \<le> pendingEditSenderCap"
  unfolding pending_wf_chats chat_within_iff by blast

lemma full_author_isolated:
  assumes wf: "pending_wf t" and full: "count_rows (of_author chat author) t = pendingEditSenderCap"
    and same: "filter (\<lambda>p. \<not> of_author chat author p) u = filter (\<lambda>p. \<not> of_author chat author p) t"
  shows "filter (\<lambda>p. \<not> of_author chat author p) (capPendingEdits chat u) = filter (\<lambda>p. \<not> of_author chat author p) t"
proof -
  let ?other = "\<lambda>p. \<not> of_author chat author p"
  define s where "s = keep_newest pendingEditSenderCap (\<lambda>p. p_chat p = chat) pending_author u"
  have others: "count_rows (of_author chat a) u = count_rows (of_author chat a) t" if "a \<noteq> author" for a
  proof -
    have "filter (of_author chat a) (filter ?other v) = filter (of_author chat a) v" for v
      unfolding filter_filter by (rule filter_cong) (use that in auto)
    with arg_cong [OF same, of "count_rows (of_author chat a)"] show ?thesis by (simp only:)
  qed
  have kept: "filter ?other s = filter ?other t"
  proof -
    have "filter ?other s = filter ?other u"
      unfolding s_def
    proof (rule keep_newest_same)
      fix r
      assume "r \<in> set u" "?other r" "p_chat r = chat"
      then have "pending_author r \<noteq> author" by blast
      from others [OF this] author_within [OF wf]
      show "count_rows (\<lambda>x. p_chat x = chat \<and> pending_author x = pending_author r) u \<le> pendingEditSenderCap"
        by (simp only:)
    qed
    with same show ?thesis by simp
  qed
  have own: "count_rows (of_author chat author) s \<le> count_rows (of_author chat author) t"
    unfolding s_def full by (rule keep_newest_bound)
  have le: "count_rows P s \<le> count_rows P t" if "\<And>p. of_author chat author p \<Longrightarrow> P p" for P
  proof -
    have "filter (\<lambda>p. P p \<and> of_author chat author p) v = filter (of_author chat author) v" for v
      using that by (intro filter_cong) auto
    moreover have "filter (\<lambda>p. P p \<and> ?other p) v = filter P (filter ?other v)" for v
      unfolding filter_filter by (rule filter_cong) auto
    ultimately show ?thesis
      using own kept
      unfolding count_split [of P s "of_author chat author"] count_split [of P t "of_author chat author"]
      by (simp only: add_le_cancel_right)
  qed
  have "count_rows (\<lambda>p. p_chat p = chat) s \<le> pendingEditChatCap"
    using le [of "\<lambda>p. p_chat p = chat"] wf by (auto simp: pending_wf_chats chat_within_iff intro: order_trans)
  moreover have "length s \<le> pendingEditGlobalCap"
    using le [of "\<lambda>_. True"] wf by (simp add: pending_wf_chats)
  ultimately have "capPendingEdits chat u = s" using s_def by (rule cap_after_author_cap)
  with kept show ?thesis by simp
qed

lemma filter_upsert_other:
  assumes "\<not> Q row" "\<And>r. pending_key r = pending_key row \<Longrightarrow> \<not> Q r \<and> \<not> Q (merge r row)"
  shows "filter Q (upsert pending_key merge row t) = filter Q t"
proof -
  have "filter Q (map (\<lambda>r. if pending_key r = pending_key row then merge r row else r) t) = filter Q t"
    using assms(2) by (induction t) auto
  with assms(1) show ?thesis by (simp add: upsert_def)
qed

text \<open>A burst of edits by one author cannot evict the waiting edits of others: once an author has
  the full allowance of 32 pending edits in a chat, another edit by that author, whatever it is,
  leaves every pending edit of every other author or chat in place and in order.\<close>

lemma burst_isolation:
  assumes "pending_wf (pending a)" and "pendingEditUserJID sdk sender = Some j"
    and "count_rows (of_author chat (User j, Server j, own)) (prunePendingEdits now (pending a)) = pendingEditSenderCap"
    and "chat \<noteq> []" and "e_id e \<noteq> []" and "e_message e \<noteq> None"
  shows "filter (\<lambda>p. \<not> of_author chat (User j, Server j, own) p)
       (pending (applyOrDeferMessageEdit sdk extr chat sender own e fallback now a))
     = filter (\<lambda>p. \<not> of_author chat (User j, Server j, own) p) (prunePendingEdits now (pending a))"
proof -
  let ?t = "prunePendingEdits now (pending a)"
  have "filter (\<lambda>p. \<not> of_author chat (User j, Server j, own) p)
       (capPendingEdits chat (upsert pending_key merge_newer
         (deferred_row j chat own (e_id e) stamp content mentions now) ?t))
     = filter (\<lambda>p. \<not> of_author chat (User j, Server j, own) p) ?t" for stamp content mentions
    by (rule full_author_isolated [OF prune_wf [OF assms(1)] assms(3)], rule filter_upsert_other)
      (auto simp: deferred_row_def pending_author_def pending_key_def merge_newer_def)
  with assms(2,4,5,6) show ?thesis
    by (auto simp: applyOrDeferMessageEdit_def Let_def split: option.split prod.split)
qed

text \<open>A chat in which one author has used up the allowance and another waits.\<close>

definition waiting_edit :: "string \<Rightarrow> nat \<Rightarrow> pending_edit" where
  "waiting_edit author n =
     \<lparr>p_chat = ''1@g.us'', p_target = replicate n CHR ''x'', p_sender = author, p_server = ''lid'', p_own = False,
      p_stamp = 1, p_content = [], p_mentions = [], p_arrived = 0, p_expires = 86400000\<rparr>"

definition full_chat :: archive where
  "full_chat = \<lparr>messages = [], pending = map (waiting_edit ''7'') [0..<32] @ [waiting_edit ''8'' 0]\<rparr>"

lemma full_chat_wf: "pending_wf (pending full_chat)"
proof -
  have "inj_on (\<lambda>n. pending_key (waiting_edit author n)) A" for author A
    by (auto simp: inj_on_def pending_key_def waiting_edit_def)
  moreover have "pending_key (waiting_edit ''8'' 0) \<notin> (\<lambda>n. pending_key (waiting_edit ''7'' n)) ` A" for A
    by (auto simp: pending_key_def waiting_edit_def)
  ultimately have "keyed pending_key (pending full_chat)"
    by (simp add: full_chat_def keyed_def distinct_map comp_def image_image del: upt_rec_numeral)
  moreover have "length (pending full_chat) \<le> pendingEditGlobalCap" by code_simp
  moreover have "list_all row_ok (pending full_chat)"
    by (auto simp: full_chat_def list_all_iff row_ok_def waiting_edit_def pendingEditMaxBytes_def)
  moreover have "chat_within (p_chat p) (pending full_chat)" if "p \<in> set (pending full_chat)" for p
  proof -
    have "p_chat p = ''1@g.us''" using that by (auto simp: full_chat_def waiting_edit_def)
    moreover have "chat_within ''1@g.us'' (pending full_chat)" by code_simp
    ultimately show ?thesis by simp
  qed
  ultimately show ?thesis by (simp add: pending_wf_def list_all_iff)
qed

theorem burst_isolation_witness:
  "filter (\<lambda>p. \<not> of_author ''1@g.us'' (''7'', ''lid'', False) p)
     (pending (applyOrDeferMessageEdit plain_sdk (\<lambda>t _ _. (t, [])) ''1@g.us'' ''7@lid'' False
        \<lparr>e_id = ''new'', e_stamp = 5, e_message = Some ''text''\<rparr> 0 0 full_chat)) = [waiting_edit ''8'' 0]"
proof -
  have j: "pendingEditUserJID plain_sdk ''7@lid'' = Some (NewJID ''7'' ''lid'')" by code_simp
  have c: "count_rows (of_author ''1@g.us'' (User (NewJID ''7'' ''lid''), Server (NewJID ''7'' ''lid''), False))
      (prunePendingEdits 0 (pending full_chat)) = pendingEditSenderCap" by code_simp
  have "filter (\<lambda>p. \<not> of_author ''1@g.us'' (''7'', ''lid'', False) p) (prunePendingEdits 0 (pending full_chat))
      = [waiting_edit ''8'' 0]" by code_simp
  with burst_isolation [OF full_chat_wf j c, of "\<lparr>e_id = ''new'', e_stamp = 5, e_message = Some ''text''\<rparr>"
      "\<lambda>t _ _. (t, [])" 0]
  show ?thesis by (simp add: NewJID_def)
qed

section \<open>Early edits converge\<close>

text \<open>What an edit makes of a stored row.\<close>

definition edited :: "string \<Rightarrow> string \<Rightarrow> int \<Rightarrow> message_row \<Rightarrow> message_row" where
  "edited content mentions stamp r =
     r\<lparr>m_content := Some content, m_mentions := Some mentions, m_editTimestamp := stamp\<rparr>"

lemma consume_row_idle:
  assumes "set (scan pend) = set pend" "\<And>p. p \<in> set pend \<Longrightarrow> p_target p \<noteq> ID m"
  shows "consume_row scan m pend r = r"
proof (cases "m_id r = ID m")
  case True
  with assms have "filter (edit_candidate m r) (scan pend) = []"
    by (auto simp: filter_empty_conv edit_candidate_def)
  then show ?thesis by (simp add: consume_row_def split: prod.split)
qed (simp add: consume_row_def split: prod.split option.split)

lemma consume_row_other: "message_key r \<noteq> (ID m, ChatJID m) \<Longrightarrow> consume_row scan m pend r = r"
  by (auto simp: consume_row_def message_key_def split: prod.split option.split)

lemma map_consume_other:
  "(\<And>r. r \<in> set t \<Longrightarrow> message_key r \<noteq> (ID m, ChatJID m)) \<Longrightarrow> map (consume_row scan m pend) t = t"
  by (simp add: map_idI consume_row_other)

lemma filter_scan_single:
  assumes "mset v = mset u" "filter P u = [x]"
  shows "filter P v = [x]"
proof -
  have "mset (filter P v) = {#x#}" using assms by (metis mset.simps mset_filter)
  then show ?thesis by (metis mset_single_iff)
qed

lemma cap_snoc:
  assumes "\<And>r. r \<in> set t \<Longrightarrow> p_arrived r \<le> p_arrived row"
  shows "\<exists>t'. capPendingEdits chat (t @ [row]) = t' @ [row] \<and> set t' \<subseteq> set t"
proof -
  have caps: "0 < pendingEditSenderCap" "0 < pendingEditChatCap" "0 < pendingEditGlobalCap"
    by (simp_all add: pendingEditSenderCap_def pendingEditChatCap_def pendingEditGlobalCap_def)
  obtain t1 where 1: "keep_newest pendingEditSenderCap (\<lambda>p. p_chat p = chat) pending_author (t @ [row]) = t1 @ [row]"
      "set t1 \<subseteq> set t" using keep_newest_snoc [OF caps(1) assms] by blast
  obtain t2 where 2: "keep_newest pendingEditChatCap (\<lambda>p. p_chat p = chat) (\<lambda>_. ()) (t1 @ [row]) = t2 @ [row]"
      "set t2 \<subseteq> set t1" using keep_newest_snoc [OF caps(2)] assms 1(2) by blast
  obtain t3 where 3: "keep_newest pendingEditGlobalCap (\<lambda>_. True) (\<lambda>_. ()) (t2 @ [row]) = t3 @ [row]"
      "set t3 \<subseteq> set t2" using keep_newest_snoc [OF caps(3)] assms 1(2) 2(2) by blast
  from 1 2 3 show ?thesis by (auto simp: capPendingEdits_def)
qed

text \<open>Storing a message nobody has edited yet only appends its row.\<close>

lemma run_store:
  assumes "Content m \<noteq> [] \<or> MediaType m \<noteq> []" "EditPreparation m = None" "HistoryReplay m = False"
  shows "messages (run_batch q sdk extr scan [BatchStore now m] a) =
     (let msgs = insertMessageSQL q sdk m (messages a); pend = prunePendingEdits now (pending a)
      in if pend \<noteq> [] then map (consume_row scan m pend) msgs else msgs)"
proof -
  have "m\<lparr>HistoryReplay := False\<rparr> = m" using assms(3) by simp
  moreover have "prunePendingEdits now (prunePendingEdits now t) = prunePendingEdits now t" for t
    by (simp add: prunePendingEdits_def)
  ultimately show ?thesis using assms(1,2)
    by (auto simp: run_batch_def commit_batch_def new_batch_def StoreMessage_def Let_def consumePendingEdits_def)
qed

lemma run_edit:
  "run_batch q sdk extr scan [BatchEdit chat sender own e fallback now] a =
     applyOrDeferMessageEdit sdk extr chat sender own e fallback now a"
  by (simp add: run_batch_def commit_batch_def new_batch_def ApplyMessageEdit_def Let_def)

lemma insertMessage_new:
  "row_of message_key (ID m, ChatJID m) t = None \<Longrightarrow> insertMessageSQL q sdk m t = t @ [messageArgs sdk m]"
  using messageArgs_key [of sdk m]
  by (simp add: insertMessageSQL_def upsert_def has_key_iff row_of_None)

lemma messageArgs_sender:
  "m_sender (messageArgs sdk m) = Some (fst (splitSenderJID (Sender m)))"
  "m_server (messageArgs sdk m) = snd (splitSenderJID (Sender m))"
  "m_own (messageArgs sdk m) = IsFromMe m" "m_id (messageArgs sdk m) = ID m" "m_chat (messageArgs sdk m) = ChatJID m"
  by (simp_all add: messageArgs_def Let_def split: prod.split)

text \<open>The original arriving after its edit was deferred.\<close>

lemma consume_deferred:
  assumes "mset (scan pend) = mset pend"
    and "filter (\<lambda>p. p_target p = ID m) pend = [deferred_row j (ChatJID m) own (ID m) stamp content mentions t0]"
    and "EditAuthorAlias m = []" "EditChatAlias m = []" "stamp > 0"
  shows "consume_row scan m pend (messageArgs sdk m) =
     (if IsFromMe m = own \<and> splitSenderJID (Sender m) = (User j, Some (Server j))
      then edited content mentions stamp (messageArgs sdk m) else messageArgs sdk m)"
proof -
  let ?r = "messageArgs sdk m" and ?p = "deferred_row j (ChatJID m) own (ID m) stamp content mentions t0"
  have "filter (\<lambda>p. p_target p = ID m) (scan pend) = [?p]"
    by (rule filter_scan_single [OF assms(1,2)])
  moreover have "filter (edit_candidate m ?r) u = filter (edit_candidate m ?r) (filter (\<lambda>p. p_target p = ID m) u)" for u
    unfolding filter_filter by (rule filter_cong) (auto simp: edit_candidate_def messageArgs_sender)
  ultimately have cand: "filter (edit_candidate m ?r) (scan pend) = filter (edit_candidate m ?r) [?p]" by metis
  have none: "(x, Some y) \<noteq> splitSenderJID (EditAuthorAlias m)" for x y
    using assms(3) by (simp add: splitSenderJID_def str_contains_def)
  have "edit_candidate m ?r ?p \<longleftrightarrow> IsFromMe m = own \<and> splitSenderJID (Sender m) = (User j, Some (Server j))"
    using none by (auto simp: edit_candidate_def in_chats_def deferred_row_def messageArgs_sender prod_eq_iff)
  then show ?thesis
    using assms(5) cand
    by (auto simp: consume_row_def edited_def deferred_row_def messageArgs_sender messageArgs_fresh split: prod.split)
qed

text \<open>Deferring an edit for which nothing waits yet: its row is the only one for the target.\<close>

lemma defer_result:
  assumes "\<not> has_key message_key (e_id e, chat) (messages a)" "chat \<noteq> []" "e_id e \<noteq> []"
    and "e_message e = Some body" "pendingEditUserJID sdk sender = Some j" "edit_stamp e fallback > 0"
    and "extr body fallback (e_id e) = (content, jids)"
    and "length chat + length sender + length (e_id e) + length content + length (mentionsColumn jids) \<le> pendingEditMaxBytes"
    and "\<And>p. p \<in> set (pending a) \<Longrightarrow> p_target p \<noteq> e_id e \<and> p_arrived p \<le> unix_milli now"
  shows "\<exists>t'. applyOrDeferMessageEdit sdk extr chat sender own e fallback now a =
      a\<lparr>pending := t' @ [deferred_row j chat own (e_id e) (edit_stamp e fallback) content (mentionsColumn jids) now]\<rparr>
    \<and> set t' \<subseteq> set (pending a)"
proof -
  let ?row = "deferred_row j chat own (e_id e) (edit_stamp e fallback) content (mentionsColumn jids) now"
  let ?t = "prunePendingEdits now (pending a)"
  have sub: "set ?t \<subseteq> set (pending a)" by (auto simp: prunePendingEdits_def)
  have "pending_key p \<noteq> pending_key ?row" if "p \<in> set ?t" for p
    using assms(9) [of p] that sub by (auto simp: pending_key_def deferred_row_def)
  then have "pending_key ?row \<notin> pending_key ` set ?t" by (metis imageE)
  then have "upsert pending_key merge_newer ?row ?t = ?t @ [?row]" by (simp add: upsert_def has_key_iff)
  moreover obtain t' where t': "capPendingEdits chat (?t @ [?row]) = t' @ [?row]" "set t' \<subseteq> set ?t"
    using cap_snoc [of ?t ?row chat] assms(9) sub by (auto simp: deferred_row_def)
  ultimately have "applyOrDeferMessageEdit sdk extr chat sender own e fallback now a = a\<lparr>pending := t' @ [?row]\<rparr>"
    using assms(1-8) by (simp add: applyOrDeferMessageEdit_def Let_def not_le)
  with t'(2) sub show ?thesis by blast
qed

lemma apply_to_new:
  assumes "row_of message_key (ID m, ChatJID m) t = None" "e_id e = ID m" "e_id e \<noteq> []"
    and "e_message e = Some body" "extr body fallback (e_id e) = (content, jids)" "splitSenderJID sender = (u, v)"
  shows "applyMessageEditWith extr (ChatJID m) sender own e fallback (t @ [messageArgs sdk m]) =
     t @ [if IsFromMe m = own \<and> splitSenderJID (Sender m) = (u, v) \<and> edit_stamp e fallback > 0
          then edited content (mentionsColumn jids) (edit_stamp e fallback) (messageArgs sdk m) else messageArgs sdk m]"
proof -
  let ?F = "\<lambda>r. if m_id r = ID m \<and> m_chat r = ChatJID m \<and> m_sender r = Some u \<and> m_server r = v \<and> m_own r = own
      \<and> m_editTimestamp r < edit_stamp e fallback \<and> m_deleted r = None
      then edited content (mentionsColumn jids) (edit_stamp e fallback) r else r"
  have "applyMessageEditWith extr (ChatJID m) sender own e fallback ts = map ?F ts" for ts
    using assms(2-6) by (simp add: applyMessageEditWith_def edited_def Let_def)
  moreover have "map ?F t = t"
    using assms(1) by (intro map_idI) (auto simp: row_of_None message_key_def image_iff)
  moreover have "splitSenderJID (Sender m) = (u, v) \<longleftrightarrow>
      fst (splitSenderJID (Sender m)) = u \<and> snd (splitSenderJID (Sender m)) = v"
    by (simp only: prod_eq_iff fst_conv snd_conv)
  ultimately show ?thesis by (simp add: messageArgs_sender messageArgs_fresh)
qed

lemma idle_store:
  assumes "row_of message_key (ID m, ChatJID m) (messages a) = None" "\<And>u. mset (scan u) = mset u"
    and "EditPreparation m = None" "HistoryReplay m = False" "Content m \<noteq> [] \<or> MediaType m \<noteq> []"
    and "\<And>p. p \<in> set (pending a) \<Longrightarrow> p_target p \<noteq> ID m"
  shows "messages (run_batch q sdk extr scan [BatchStore now m] a) = messages a @ [messageArgs sdk m]"
proof -
  have "set (scan u) = set u" for u using assms(2) by (metis set_mset_mset)
  then have "consume_row scan m (prunePendingEdits now (pending a)) r = r" for r
    by (rule consume_row_idle) (use assms(6) in \<open>auto simp: prunePendingEdits_def\<close>)
  then show ?thesis
    by (simp add: run_store [OF assms(5,3,4)] insertMessage_new [OF assms(1)] Let_def map_idI)
qed

lemma early_edit_outcome:
  assumes "row_of message_key (ID m, ChatJID m) (messages a) = None" "\<And>u. mset (scan u) = mset u"
    and "EditPreparation m = None" "HistoryReplay m = False" "Content m \<noteq> [] \<or> MediaType m \<noteq> []"
    and "EditAuthorAlias m = []" "EditChatAlias m = []"
    and "a' = a\<lparr>pending := t' @ [deferred_row j (ChatJID m) own (ID m) stamp content mentions t_edit]\<rparr>"
    and "\<And>p. p \<in> set t' \<Longrightarrow> p_target p \<noteq> ID m" "stamp > 0"
    and "unix_milli now < unix_milli (t_edit + pendingEditTTL)"
  shows "messages (run_batch q sdk extr scan [BatchStore now m] a') = messages a @
     [if IsFromMe m = own \<and> splitSenderJID (Sender m) = (User j, Some (Server j))
      then edited content mentions stamp (messageArgs sdk m) else messageArgs sdk m]"
proof -
  let ?row = "deferred_row j (ChatJID m) own (ID m) stamp content mentions t_edit"
  let ?pend = "prunePendingEdits now (pending a')"
  have pend: "?pend = prunePendingEdits now t' @ [?row]"
    using assms(11) by (simp add: assms(8) prunePendingEdits_def deferred_row_def)
  have "filter (\<lambda>p. p_target p = ID m) ?pend = [?row]"
    unfolding pend using assms(9) by (auto simp: filter_empty_conv prunePendingEdits_def deferred_row_def)
  note last = consume_deferred [of scan ?pend, OF assms(2) this assms(6,7,10), of sdk]
  have "map (consume_row scan m ?pend) (messages a) = messages a"
    using assms(1) by (intro map_consume_other) (auto simp: row_of_None image_iff)
  moreover have "messages a' = messages a" "?pend \<noteq> []" using pend by (simp_all add: assms(8))
  ultimately show ?thesis
    using last by (simp add: run_store [OF assms(5,3,4)] insertMessage_new [OF assms(1)] Let_def)
qed



section \<open>Who may edit\<close>

lemma newest_max: "newest ps = Some p \<Longrightarrow> p \<in> set ps \<and> (\<forall>x \<in> set ps. p_stamp x \<le> p_stamp p)"
proof (induction ps arbitrary: p)
  case (Cons q ps)
  show ?case
  proof (cases "newest ps")
    case None
    then have "ps = []" by (cases ps) (auto split: option.splits if_split_asm)
    with Cons.prems show ?thesis by simp
  next
    case (Some r)
    with Cons.IH [OF Some] Cons.prems show ?thesis by (auto split: if_splits)
  qed
qed simp

text \<open>C6. Storing a message applies to it only an edit its author made: consuming pending edits changes
  no row but that of the stored message, and that one only if it is not deleted, to the newest
  unexpired pending edit with the same target, direction and (itself or through the verified alias)
  chat and author, and only to an edit newer than the one it shows; the edits for the message are then
  gone and every other unexpired one stays.\<close>

theorem consumePendingEdits_authorised:
  assumes "\<And>u. set (scan u) = set u"
  shows "list_all2 (\<lambda>old new. new = old \<or>
      (\<exists>p \<in> set (pending a). new = edited (p_content p) (p_mentions p) (p_stamp p) old
         \<and> p_expires p > unix_milli now \<and> edit_candidate m old p
         \<and> (\<forall>x \<in> set (pending a). p_expires x > unix_milli now \<and> edit_candidate m old x \<longrightarrow> p_stamp x \<le> p_stamp p)
         \<and> message_key old = (ID m, ChatJID m) \<and> m_deleted old = None
         \<and> (m_sender old, m_server old) = (Some (fst (splitSenderJID (Sender m))), snd (splitSenderJID (Sender m)))
         \<and> m_own old = IsFromMe m \<and> m_editTimestamp old < p_stamp p
         \<and> p_target p = ID m \<and> p_own p = IsFromMe m
         \<and> (p_sender p, Some (p_server p)) \<in> {splitSenderJID (Sender m), splitSenderJID (EditAuthorAlias m)}))
      (messages a) (messages (consumePendingEdits scan m now a))
    \<and> set (pending (consumePendingEdits scan m now a)) =
       {p \<in> set (pending a). p_expires p > unix_milli now \<and> \<not> (p_target p = ID m \<and> in_chats (ChatJID m) (EditChatAlias m) p)}"
    (is "list_all2 ?R _ _ \<and> ?P")
proof
  let ?pend = "prunePendingEdits now (pending a)"
  have row: "?R r (consume_row scan m ?pend r)" for r
  proof (cases "newest (filter (edit_candidate m r) (scan ?pend))")
    case None
    then show ?thesis by (simp add: consume_row_def split: prod.split)
  next
    case (Some p)
    from newest_max [OF this] have p: "p \<in> set (pending a)" "p_expires p > unix_milli now" "edit_candidate m r p"
        "\<forall>x \<in> set (pending a). p_expires x > unix_milli now \<and> edit_candidate m r x \<longrightarrow> p_stamp x \<le> p_stamp p"
      by (auto simp: assms prunePendingEdits_def)
    from Some have "consume_row scan m ?pend r = r \<or>
       (consume_row scan m ?pend r = edited (p_content p) (p_mentions p) (p_stamp p) r
        \<and> message_key r = (ID m, ChatJID m) \<and> m_deleted r = None
        \<and> (m_sender r, m_server r) = (Some (fst (splitSenderJID (Sender m))), snd (splitSenderJID (Sender m)))
        \<and> m_own r = IsFromMe m \<and> m_editTimestamp r < p_stamp p)"
      by (simp add: consume_row_def edited_def message_key_def split: prod.split)
    moreover have "p_target p = ID m \<and> p_own p = IsFromMe m
        \<and> (p_sender p, Some (p_server p)) \<in> {splitSenderJID (Sender m), splitSenderJID (EditAuthorAlias m)}"
      if "message_key r = (ID m, ChatJID m)" "m_own r = IsFromMe m"
        "(m_sender r, m_server r) = (Some (fst (splitSenderJID (Sender m))), snd (splitSenderJID (Sender m)))"
      using p(3) that by (auto simp: edit_candidate_def message_key_def prod_eq_iff)
    ultimately show ?thesis using p by blast
  qed
  have "list_all2 ?R xs (map (consume_row scan m ?pend) xs)" for xs
    unfolding list_all2_map2 list_all2_same using row by blast
  then show "list_all2 ?R (messages a) (messages (consumePendingEdits scan m now a))"
    by (simp add: consumePendingEdits_def Let_def)
  show ?P by (auto simp: consumePendingEdits_def prunePendingEdits_def Let_def)
qed

theorem consumePendingEdits_authorised_witness:
  "set (pending (consumePendingEdits id (sample_photo\<lparr>ID := ''x'', ChatJID := ''1@g.us''\<rparr>) 0
      \<lparr>messages = [], pending = [waiting_edit ''8'' 1, waiting_edit ''8'' 2]\<rparr>)) = {waiting_edit ''8'' 2}"
proof -
  let ?a = "\<lparr>messages = [], pending = [waiting_edit ''8'' 1, waiting_edit ''8'' 2]\<rparr>"
  let ?m = "sample_photo\<lparr>ID := ''x'', ChatJID := ''1@g.us''\<rparr>"
  have "{p \<in> set (pending ?a). p_expires p > unix_milli 0 \<and>
      \<not> (p_target p = ID ?m \<and> in_chats (ChatJID ?m) (EditChatAlias ?m) p)} = {waiting_edit ''8'' 2}"
    by (auto simp: waiting_edit_def unix_milli_def in_chats_def sample_photo_def numeral_2_eq_2)
  with consumePendingEdits_authorised [of id ?a 0 ?m] show ?thesis by simp
qed

section \<open>Migrating to phone chats\<close>

text \<open>Where a row of a rewritten table comes from: one row of the earlier table carries its text and
  edit time, and no earlier row for the same author and target is newer or lives shorter.\<close>

definition stems_from :: "pending_edit \<Rightarrow> pending_edit \<Rightarrow> bool" where
  "stems_from p p0 \<longleftrightarrow> p_target p = p_target p0 \<and> pending_author p = pending_author p0
     \<and> p_stamp p = p_stamp p0 \<and> p_content p = p_content p0 \<and> p_mentions p = p_mentions p0
     \<and> p_expires p \<le> p_expires p0 \<and> p_arrived p \<le> p_arrived p0"

definition stem_table :: "pending_edit list \<Rightarrow> pending_edit list \<Rightarrow> bool" where
  "stem_table t0 t \<longleftrightarrow> (\<forall>p \<in> set t. \<exists>p0 \<in> set t0. stems_from p p0)"

lemma stems_trans: "stems_from p q \<Longrightarrow> stems_from q r \<Longrightarrow> stems_from p r"
  by (auto simp: stems_from_def)

lemma stems_refl: "stems_from p p"
  by (simp add: stems_from_def)

lemma stem_table_subset: "set t \<subseteq> set u \<Longrightarrow> stem_table t0 u \<Longrightarrow> stem_table t0 t"
  by (auto simp: stem_table_def)

lemma stem_upsert_migrated:
  assumes "stem_table t0 t" "\<exists>p0 \<in> set t0. stems_from row p0"
  shows "stem_table t0 (upsert pending_key merge_migrated row t)"
proof -
  have step: "stems_from (merge_migrated old row) old \<or> stems_from (merge_migrated old row) row"
    if "pending_key old = pending_key row" for old
    using that by (auto simp: stems_from_def merge_migrated_def pending_key_def pending_author_def)
  show ?thesis
    unfolding stem_table_def
  proof
    fix p
    assume "p \<in> set (upsert pending_key merge_migrated row t)"
    then have "p = row \<or> p \<in> set t \<or> (\<exists>old \<in> set t. pending_key old = pending_key row \<and> p = merge_migrated old row)"
      using migrated.set_upsert [of row t] by blast
    then show "\<exists>p0 \<in> set t0. stems_from p p0"
    proof (elim disjE bexE conjE)
      fix old
      assume "old \<in> set t" "pending_key old = pending_key row" "p = merge_migrated old row"
      with step [of old] assms stems_trans show ?thesis by (metis stem_table_def)
    qed (use assms in \<open>auto simp: stem_table_def\<close>)
  qed
qed

lemma stem_migrate_chat:
  assumes "stem_table t0 t" "\<And>u. set (scan u) = set u"
  shows "stem_table t0 (migrate_chat scan chat phone t)"
proof -
  let ?ps = "filter (\<lambda>p. p_chat p = chat) (scan t)"
  have row: "\<exists>p0 \<in> set t0. stems_from (p\<lparr>p_chat := phone\<rparr>) p0" if "p \<in> set ?ps" for p
  proof -
    from that assms obtain p0 where "p0 \<in> set t0" "stems_from p p0" by (auto simp: stem_table_def)
    moreover have "stems_from (p\<lparr>p_chat := phone\<rparr>) p" by (simp add: stems_from_def pending_author_def)
    ultimately show ?thesis using stems_trans by blast
  qed
  have "stem_table t0 (insert_migrated phone t ?ps)"
    unfolding insert_migrated_def
  proof (rule foldl_invariant)
    show "stem_table t0 t" by (rule assms(1))
    show "stem_table t0 (upsert pending_key merge_migrated (p\<lparr>p_chat := phone\<rparr>) acc)"
      if "p \<in> set ?ps" "stem_table t0 acc" for p acc
      by (rule stem_upsert_migrated [OF that(2) row [OF that(1)]])
  qed
  moreover have "set (migrate_chat scan chat phone t) \<subseteq> set (insert_migrated phone t ?ps)"
    unfolding migrate_chat_def using cap_sub by fastforce
  ultimately show ?thesis by (rule stem_table_subset [rotated])
qed

text \<open>Moving pending edits from LID chats to phone chats invents nothing and extends nothing: every
  edit that waits afterwards has the text, mentions and edit time of one that waited before, for the
  same target and author, and neither its arrival nor its expiry has moved later; and the
  table keeps its limits.\<close>

lemma migration_extends_nothing:
  assumes "pending_wf t" and "\<And>u. set (scan u) = set u"
  shows "stem_table t (migratePendingEditChats sdk session scan now t)
     \<and> pending_wf (migratePendingEditChats sdk session scan now t)"
proof -
  have "stem_table t (foldl (\<lambda>t' chat. case prepared_phone sdk lidMap chat of
      None \<Rightarrow> t' | Some phone \<Rightarrow> migrate_chat scan chat phone t') (prunePendingEdits now t) chats)" for lidMap chats
  proof (rule foldl_invariant)
    show "stem_table t (prunePendingEdits now t)"
      unfolding stem_table_def prunePendingEdits_def using stems_refl by auto
    show "stem_table t (case prepared_phone sdk lidMap chat of None \<Rightarrow> t' | Some phone \<Rightarrow> migrate_chat scan chat phone t')"
      if "stem_table t t'" for chat t'
      using stem_migrate_chat [of t t' scan, OF that assms(2)] that by (simp split: option.split)
  qed
  moreover have "stem_table t t" unfolding stem_table_def using stems_refl by blast
  ultimately show ?thesis
    using migrate_wf [OF assms] by (simp add: migratePendingEditChats_def Let_def split: option.split)
qed

theorem migration_extends_nothing_witness:
  "stem_table [(waiting_edit ''8'' 1)\<lparr>p_chat := ''9@lid''\<rparr>]
     (migratePendingEditChats plain_sdk (Some (\<lambda>_. Some ''5511'')) id 0 [(waiting_edit ''8'' 1)\<lparr>p_chat := ''9@lid''\<rparr>])
   \<and> map p_chat (migratePendingEditChats plain_sdk (Some (\<lambda>_. Some ''5511'')) id 0
        [(waiting_edit ''8'' 1)\<lparr>p_chat := ''9@lid''\<rparr>]) = [''5511@s.whatsapp.net'']"
proof -
  have "pending_wf [(waiting_edit ''8'' 1)\<lparr>p_chat := ''9@lid''\<rparr>]" by code_simp
  moreover have "map p_chat (migratePendingEditChats plain_sdk (Some (\<lambda>_. Some ''5511'')) id 0
        [(waiting_edit ''8'' 1)\<lparr>p_chat := ''9@lid''\<rparr>]) = [''5511@s.whatsapp.net'']" by code_simp
  ultimately show ?thesis using migration_extends_nothing [of _ id plain_sdk "Some (\<lambda>_. Some ''5511'')" 0] by simp
qed

end
