(* ===== verification/Work_Queues.thy ===== *)
theory Work_Queues
  imports Prelude "HOL-Library.Multiset"
begin

text \<open>
  The two worker pools of the bridge as step relations on their shared state: the automatic media
  downloads (\<^verbatim>\<open>media_budget.go\<close>, several workers behind a bounded channel) and the history shares
  (\<^verbatim>\<open>history_share_budget.go\<close>, one worker and one waiting job). A step is one atomic action of one
  goroutine: a channel operation, a section under the mutex, an atomic counter update together with
  the local steps up to the next such action. The contexts' cancellation is a step of its own, since
  it can fall between any two actions. Both pools are instances of one interface, a bounded queue
  that hands jobs over in order.
\<close>

section \<open>Sequences of steps\<close>

inductive steps :: "('s \<Rightarrow> 's \<Rightarrow> bool) \<Rightarrow> 's \<Rightarrow> 's \<Rightarrow> bool" for step where
  none: "steps step s s"
| more: "steps step s t \<Longrightarrow> step t u \<Longrightarrow> steps step s u"

lemma steps_invariant:
  assumes "steps step s t" "I s" "\<And>t u. I t \<Longrightarrow> step t u \<Longrightarrow> I u"
  shows "I t"
  using assms by (induction rule: steps.induct) auto

section \<open>The interface of a bounded queue\<close>

text \<open>What a client of a pool relies on. Every step either accepts a job into the backlog (when it has
  room), hands an accepted job straight to a worker while nothing waits, gives the oldest waiting
  job to a worker, or leaves the queue alone. \<open>inv\<close> is the pool's own invariant.\<close>

locale fifo_pool =
  fixes step :: "'s \<Rightarrow> 's \<Rightarrow> bool"
    and inv :: "'s \<Rightarrow> bool"
    and backlog accepted started :: "'s \<Rightarrow> 'j list"
    and capacity :: "'s \<Rightarrow> nat"
  assumes inv_step: "inv s \<Longrightarrow> step s t \<Longrightarrow> inv t"
    and capacity_step: "inv s \<Longrightarrow> step s t \<Longrightarrow> capacity t = capacity s"
    and queue_step: "inv s \<Longrightarrow> step s t \<Longrightarrow>
      (accepted t = accepted s \<and> started t = started s \<and> backlog t = backlog s)
      \<or> (\<exists>j. accepted t = accepted s @ [j] \<and> started t = started s \<and> backlog t = backlog s @ [j]
             \<and> length (backlog s) < capacity s)
      \<or> (\<exists>j. accepted t = accepted s @ [j] \<and> started t = started s @ [j] \<and> backlog s = [] \<and> backlog t = [])
      \<or> (\<exists>j. accepted t = accepted s \<and> started t = started s @ [j] \<and> backlog s = j # backlog t)"
begin

definition in_order :: "'s \<Rightarrow> bool" where
  "in_order s \<longleftrightarrow> inv s \<and> accepted s = started s @ backlog s \<and> length (backlog s) \<le> capacity s"

lemma in_order_step: "in_order s \<Longrightarrow> step s t \<Longrightarrow> in_order t"
proof -
  assume s: "in_order s" and st: "step s t"
  then have inv: "inv s" by (simp add: in_order_def)
  from queue_step [OF inv st] s inv_step [OF inv st] capacity_step [OF inv st] show "in_order t"
    by (auto simp: in_order_def)
qed

lemma in_order_steps: "steps step s t \<Longrightarrow> in_order s \<Longrightarrow> in_order t"
  by (erule steps_invariant) (auto intro: in_order_step)

end

section \<open>The media download pool\<close>

text \<open>\<open>Holding\<close> is a worker between its receive and the check of the context; a job held when the
  context is done is dropped.\<close>

datatype 'j worker = Idle | Holding 'j | Running 'j | Stopped

record 'j mediaJobQueue =
  q_workers :: nat
  q_size :: nat
  q_cancelled :: bool
  q_jobs :: "'j list"
  q_pool :: "'j worker list"
  q_active :: int
  q_drops :: int
  q_accepted :: "'j list"
  q_taken :: "'j list"
  q_done :: "'j list"
  q_abandoned :: "'j list"

definition newMediaJobQueue :: "nat \<Rightarrow> nat \<Rightarrow> 'j mediaJobQueue" where
  "newMediaJobQueue workers sz =
     \<lparr>q_workers = workers, q_size = sz, q_cancelled = False, q_jobs = [], q_pool = [], q_active = 0, q_drops = 0,
      q_accepted = [], q_taken = [], q_done = [], q_abandoned = []\<rparr>"

text \<open>\<^verbatim>\<open>start.Do(startWorkers)\<close>: the pool exists from the first submit on.\<close>

definition startWorkers :: "'j mediaJobQueue \<Rightarrow> 'j mediaJobQueue" where
  "startWorkers q = (if q_pool q = [] then q\<lparr>q_pool := replicate (q_workers q) Idle\<rparr> else q)"

definition submit :: "'j \<Rightarrow> 'j mediaJobQueue \<Rightarrow> bool \<times> 'j mediaJobQueue" where
  "submit j q0 =
     (let q = startWorkers q0
      in if length (q_jobs q) < q_size q
         then (True, q\<lparr>q_jobs := q_jobs q @ [j], q_accepted := q_accepted q @ [j]\<rparr>)
         else (False, q\<lparr>q_drops := q_drops q + 1\<rparr>))"

definition set_worker :: "nat \<Rightarrow> 'j worker \<Rightarrow> 'j mediaJobQueue \<Rightarrow> 'j mediaJobQueue" where
  "set_worker i w q = q\<lparr>q_pool := (q_pool q)[i := w]\<rparr>"

inductive worker_step :: "'j mediaJobQueue \<Rightarrow> 'j mediaJobQueue \<Rightarrow> bool" where
  receive: "i < length (q_pool q) \<Longrightarrow> q_pool q ! i = Idle \<Longrightarrow> q_jobs q = j # js \<Longrightarrow>
    worker_step q ((set_worker i (Holding j) q)\<lparr>q_jobs := js, q_taken := q_taken q @ [j]\<rparr>)"
| work: "i < length (q_pool q) \<Longrightarrow> q_pool q ! i = Holding j \<Longrightarrow> \<not> q_cancelled q \<Longrightarrow>
    worker_step q ((set_worker i (Running j) q)\<lparr>q_active := q_active q + 1\<rparr>)"
| abandon: "i < length (q_pool q) \<Longrightarrow> q_pool q ! i = Holding j \<Longrightarrow> q_cancelled q \<Longrightarrow>
    worker_step q ((set_worker i Stopped q)\<lparr>q_abandoned := q_abandoned q @ [j]\<rparr>)"
| finish: "i < length (q_pool q) \<Longrightarrow> q_pool q ! i = Running j \<Longrightarrow>
    worker_step q ((set_worker i Idle q)\<lparr>q_active := q_active q - 1, q_done := q_done q @ [j]\<rparr>)"
| quit: "i < length (q_pool q) \<Longrightarrow> q_pool q ! i = Idle \<Longrightarrow> q_cancelled q \<Longrightarrow>
    worker_step q (set_worker i Stopped q)"

inductive media_step :: "'j mediaJobQueue \<Rightarrow> 'j mediaJobQueue \<Rightarrow> bool" where
  submit: "media_step q (snd (submit j q))"
| worker: "worker_step q q' \<Longrightarrow> media_step q q'"
| cancel: "media_step q (q\<lparr>q_cancelled := True\<rparr>)"

inductive_cases worker_stepE: "worker_step q q'"
inductive_cases media_stepE: "media_step q q'"

fun held_job :: "'j worker \<Rightarrow> 'j multiset" where
  "held_job (Holding j) = {#j#}"
| "held_job (Running j) = {#j#}"
| "held_job _ = {#}"

definition in_hand :: "'j mediaJobQueue \<Rightarrow> 'j multiset" where
  "in_hand q = (\<Sum>w \<leftarrow> q_pool q. held_job w)"

definition is_running :: "'j worker \<Rightarrow> bool" where
  "is_running w = (case w of Running _ \<Rightarrow> True | _ \<Rightarrow> False)"

definition running :: "'j mediaJobQueue \<Rightarrow> nat" where
  "running q = length (filter is_running (q_pool q))"

definition media_inv :: "'j mediaJobQueue \<Rightarrow> bool" where
  "media_inv q \<longleftrightarrow> length (q_pool q) \<le> q_workers q \<and> q_active q = int (running q)
     \<and> mset (q_taken q) = in_hand q + mset (q_done q) + mset (q_abandoned q)
     \<and> (q_abandoned q \<noteq> [] \<longrightarrow> q_cancelled q) \<and> (Stopped \<in> set (q_pool q) \<longrightarrow> q_cancelled q)"

section \<open>Lemmas\<close>

lemma sum_list_update:
  fixes f :: "'a \<Rightarrow> 'b multiset"
  assumes "i < length xs"
  shows "(\<Sum>x \<leftarrow> xs[i := y]. f x) + f (xs ! i) = (\<Sum>x \<leftarrow> xs. f x) + f y"
  using assms
proof (induction xs arbitrary: i)
  case (Cons x xs)
  then show ?case by (cases i) (auto simp: add.assoc add.commute add.left_commute)
qed simp

lemma count_update:
  assumes "i < length xs"
  shows "length (filter P (xs[i := y])) + (if P (xs ! i) then 1 else 0) = length (filter P xs) + (if P y then 1 else 0)"
  using assms
proof (induction xs arbitrary: i)
  case (Cons x xs)
  then show ?case by (cases i) auto
qed simp

lemma in_hand_set:
  "i < length (q_pool q) \<Longrightarrow> in_hand (set_worker i w q) + held_job (q_pool q ! i) = in_hand q + held_job w"
  by (simp add: in_hand_def set_worker_def sum_list_update)

lemma running_set:
  "i < length (q_pool q) \<Longrightarrow>
     running (set_worker i w q) + (if is_running (q_pool q ! i) then 1 else 0) = running q + (if is_running w then 1 else 0)"
  by (simp add: running_def set_worker_def count_update)

lemma is_running_simps [simp]:
  "is_running (Running j)" "\<not> is_running Idle" "\<not> is_running (Holding j)" "\<not> is_running Stopped"
  by (simp_all add: is_running_def)

lemma set_worker_sel [simp]:
  "q_workers (set_worker i w q) = q_workers q" "q_cancelled (set_worker i w q) = q_cancelled q"
  "q_jobs (set_worker i w q) = q_jobs q" "q_active (set_worker i w q) = q_active q"
  "q_accepted (set_worker i w q) = q_accepted q" "q_taken (set_worker i w q) = q_taken q"
  "q_done (set_worker i w q) = q_done q" "q_abandoned (set_worker i w q) = q_abandoned q"
  "q_size (set_worker i w q) = q_size q" "length (q_pool (set_worker i w q)) = length (q_pool q)"
  by (simp_all add: set_worker_def)

lemma worker_step_inv:
  assumes "worker_step q q'" "media_inv q"
  shows "media_inv q'"
  using assms(1)
proof cases
  case (receive i j js)
  with in_hand_set [of i q "Holding j"] running_set [of i q "Holding j"] assms(2) show ?thesis
    by (auto simp: media_inv_def in_hand_def running_def set_worker_def dest: set_update_subset_insert [THEN subsetD])
next
  case (work i j)
  with in_hand_set [of i q "Running j"] running_set [of i q "Running j"] assms(2) show ?thesis
    by (auto simp: media_inv_def in_hand_def running_def set_worker_def dest: set_update_subset_insert [THEN subsetD])
next
  case (abandon i j)
  with in_hand_set [of i q Stopped] running_set [of i q Stopped] assms(2) show ?thesis
    by (auto simp: media_inv_def in_hand_def running_def set_worker_def)
next
  case (finish i j)
  with in_hand_set [of i q Idle] running_set [of i q Idle] assms(2) show ?thesis
    by (auto simp: media_inv_def in_hand_def running_def set_worker_def dest: set_update_subset_insert [THEN subsetD])
next
  case (quit i)
  with in_hand_set [of i q Stopped] running_set [of i q Stopped] assms(2) show ?thesis
    by (auto simp: media_inv_def in_hand_def running_def set_worker_def)
qed

lemma idle_pool_empty: "sum_list (replicate n {#}) = ({#} :: 'j multiset)"
  by (induction n) auto

lemma submit_inv: "media_inv q \<Longrightarrow> media_inv (snd (submit j q))"
  by (auto simp: submit_def startWorkers_def Let_def media_inv_def in_hand_def running_def map_replicate_const idle_pool_empty)

lemma media_inv_new: "media_inv (newMediaJobQueue w n)"
  by (simp add: media_inv_def newMediaJobQueue_def in_hand_def running_def)

lemma media_step_inv: "media_inv q \<Longrightarrow> media_step q q' \<Longrightarrow> media_inv q'"
  by (erule media_stepE) (auto simp: submit_inv worker_step_inv, simp add: media_inv_def in_hand_def running_def)

interpretation media: fifo_pool media_step media_inv q_jobs q_accepted q_taken q_size
proof
  fix s t :: "'j mediaJobQueue"
  assume inv: "media_inv s" and st: "media_step s t"
  show "media_inv t" using inv st by (rule media_step_inv)
  show "q_size t = q_size s"
    using st by (cases rule: media_step.cases)
      (auto simp: submit_def startWorkers_def Let_def elim!: worker_stepE)
  show "(q_accepted t = q_accepted s \<and> q_taken t = q_taken s \<and> q_jobs t = q_jobs s)
      \<or> (\<exists>j. q_accepted t = q_accepted s @ [j] \<and> q_taken t = q_taken s \<and> q_jobs t = q_jobs s @ [j]
             \<and> length (q_jobs s) < q_size s)
      \<or> (\<exists>j. q_accepted t = q_accepted s @ [j] \<and> q_taken t = q_taken s @ [j] \<and> q_jobs s = [] \<and> q_jobs t = [])
      \<or> (\<exists>j. q_accepted t = q_accepted s \<and> q_taken t = q_taken s @ [j] \<and> q_jobs s = j # q_jobs t)"
    using st by (cases rule: media_step.cases)
      (auto simp: submit_def startWorkers_def Let_def elim!: worker_stepE)
qed

text \<open>C36. The media pool never runs more transfers than it has workers, never keeps more waiting than
  its limit, reports both correctly, starts accepted jobs in the order they were accepted, and loses
  none: at every moment each accepted job is waiting, in a worker's hands or finished exactly once,
  or was dropped by a worker that found the context cancelled.\<close>

theorem media_pool_accounts:
  assumes "steps media_step (newMediaJobQueue w n) q"
  shows "q_active q = int (running q) \<and> running q \<le> w \<and> length (q_jobs q) \<le> n
     \<and> q_accepted q = q_taken q @ q_jobs q
     \<and> mset (q_accepted q) = mset (q_jobs q) + in_hand q + mset (q_done q) + mset (q_abandoned q)
     \<and> (\<not> q_cancelled q \<longrightarrow> q_abandoned q = [])"
proof -
  have "media.in_order (newMediaJobQueue w n :: 'a mediaJobQueue)"
    by (simp add: media.in_order_def media_inv_new) (simp add: newMediaJobQueue_def)
  with assms have ord: "media.in_order q" by (rule media.in_order_steps)
  have "q_workers q = w \<and> q_size q = n"
    using assms by (rule steps_invariant)
      (auto simp: newMediaJobQueue_def submit_def startWorkers_def Let_def elim!: media_stepE worker_stepE)
  moreover have "running q \<le> length (q_pool q)" by (simp add: running_def)
  ultimately show ?thesis using ord
    by (auto simp: media.in_order_def media_inv_def add.assoc add.commute add.left_commute)
qed

text \<open>How far the pool is from having stopped, once it is cancelled.\<close>

fun worker_work :: "'j worker \<Rightarrow> nat" where
  "worker_work Stopped = 0"
| "worker_work Idle = 1"
| "worker_work (Running _) = 2"
| "worker_work (Holding _) = 3"

definition remaining_work :: "'j mediaJobQueue \<Rightarrow> nat" where
  "remaining_work q = 3 * length (q_jobs q) + (\<Sum>w \<leftarrow> q_pool q. worker_work w)"

lemma work_update:
  assumes "i < length ws"
  shows "(\<Sum>w \<leftarrow> ws[i := v]. worker_work w) + worker_work (ws ! i) = (\<Sum>w \<leftarrow> ws. worker_work w) + worker_work v"
  using assms
proof (induction ws arbitrary: i)
  case (Cons x xs)
  then show ?case by (cases i) auto
qed simp

text \<open>Shutdown ends: once the pool's context is cancelled, as long as some worker has not returned
  one of them can take a step, and every step a worker takes brings the pool strictly closer to all
  of them having returned, so waiting for the workers terminates.\<close>

lemma media_pool_shutdown:
  assumes "q_cancelled q"
  shows "((\<exists>w \<in> set (q_pool q). w \<noteq> Stopped) \<longrightarrow> (\<exists>q'. worker_step q q'))
     \<and> (\<forall>q'. worker_step q q' \<longrightarrow> q_cancelled q' \<and> remaining_work q' < remaining_work q)"
proof (intro conjI impI allI)
  assume "\<exists>w \<in> set (q_pool q). w \<noteq> Stopped"
  then obtain i where i: "i < length (q_pool q)" "q_pool q ! i \<noteq> Stopped" by (auto simp: in_set_conv_nth)
  then show "\<exists>q'. worker_step q q'"
  proof (cases "q_pool q ! i")
    case Idle
    from worker_step.quit [OF i(1) this assms] show ?thesis ..
  next
    case (Holding j)
    from worker_step.abandon [OF i(1) this assms] show ?thesis ..
  next
    case (Running j)
    from worker_step.finish [OF i(1) this] show ?thesis ..
  qed (use i in simp)
next
  fix q'
  assume st: "worker_step q q'"
  then show "q_cancelled q'" using assms by cases auto
  from st show "remaining_work q' < remaining_work q"
  proof cases
    case (receive i j js)
    with work_update [of i "q_pool q" "Holding j"] show ?thesis by (simp add: remaining_work_def set_worker_def)
  next
    case (work i j)
    with assms show ?thesis by simp
  next
    case (abandon i j)
    with work_update [of i "q_pool q" Stopped] show ?thesis by (simp add: remaining_work_def set_worker_def)
  next
    case (finish i j)
    with work_update [of i "q_pool q" Idle] show ?thesis by (simp add: remaining_work_def set_worker_def)
  next
    case (quit i)
    with work_update [of i "q_pool q" Stopped] show ?thesis by (simp add: remaining_work_def set_worker_def)
  qed
qed

text \<open>A short run of the pool: one job accepted and taken.\<close>

definition sample_pool :: "nat mediaJobQueue" where
  "sample_pool = snd (submit 7 (newMediaJobQueue 1 2))"

definition sample_taken :: "nat mediaJobQueue" where
  "sample_taken = (set_worker 0 (Holding 7) sample_pool)\<lparr>q_jobs := [], q_taken := [7]\<rparr>"

lemma sample_pool_steps: "steps media_step (newMediaJobQueue 1 2) sample_taken"
proof -
  have "steps media_step (newMediaJobQueue 1 2) sample_pool"
    unfolding sample_pool_def by (rule steps.more, rule steps.none, rule media_step.submit)
  moreover have "worker_step sample_pool ((set_worker 0 (Holding 7) sample_pool)\<lparr>q_jobs := [], q_taken := q_taken sample_pool @ [7]\<rparr>)"
    by (rule worker_step.receive) (simp_all add: sample_pool_def submit_def startWorkers_def newMediaJobQueue_def)
  moreover have "q_taken sample_pool = []"
    by (simp add: sample_pool_def submit_def startWorkers_def newMediaJobQueue_def)
  ultimately show ?thesis
    unfolding sample_taken_def by (metis append_Nil media_step.worker steps.more)
qed

theorem media_pool_accounts_witness:
  "q_accepted sample_taken = q_taken sample_taken @ q_jobs sample_taken \<and> running sample_taken \<le> 1"
  using media_pool_accounts [OF sample_pool_steps] by blast

theorem media_pool_shutdown_witness:
  "\<exists>q'. worker_step (sample_taken\<lparr>q_cancelled := True\<rparr>) q' \<and> remaining_work q' < remaining_work (sample_taken\<lparr>q_cancelled := True\<rparr>)"
proof -
  let ?q = "sample_taken\<lparr>q_cancelled := True\<rparr>"
  have "\<exists>w \<in> set (q_pool ?q). w \<noteq> Stopped"
    by (simp add: sample_taken_def set_worker_def sample_pool_def submit_def startWorkers_def newMediaJobQueue_def)
  with media_pool_shutdown [of ?q] show ?thesis by auto
qed

section \<open>The history share queue\<close>

text \<open>\<open>h_submitter\<close> is a caller of \<^verbatim>\<open>submit\<close> that holds the mutex and has passed the check of the
  closed flag and the context; \<open>Selecting\<close> is the worker between two jobs.\<close>

datatype 'j share_worker = NotStarted | Importing 'j | Selecting | Returned

record 'j historyShareQueue =
  h_cancelled :: bool
  h_closed :: bool
  h_submitter :: "'j option"
  h_jobs :: "'j list"
  h_worker :: "'j share_worker"
  h_pending :: int
  h_idle :: bool
  h_accepted :: "'j list"
  h_begun :: "'j list"
  h_ended :: "'j list"

definition newHistoryShareQueue :: "'j historyShareQueue" where
  "newHistoryShareQueue =
     \<lparr>h_cancelled = False, h_closed = False, h_submitter = None, h_jobs = [], h_worker = NotStarted, h_pending = 0,
      h_idle = True, h_accepted = [], h_begun = [], h_ended = []\<rparr>"

definition count_in :: "'j \<Rightarrow> 'j historyShareQueue \<Rightarrow> 'j historyShareQueue" where
  "count_in j q = q\<lparr>h_submitter := None, h_pending := h_pending q + 1,
     h_idle := (if h_pending q = 0 then False else h_idle q), h_accepted := h_accepted q @ [j]\<rparr>"

inductive share_step :: "'j historyShareQueue \<Rightarrow> 'j historyShareQueue \<Rightarrow> bool" where
  enter: "h_submitter q = None \<Longrightarrow> \<not> h_closed q \<Longrightarrow> \<not> h_cancelled q \<Longrightarrow>
    share_step q (q\<lparr>h_submitter := Some j\<rparr>)"
| full: "h_submitter q = Some j \<Longrightarrow> h_worker q \<noteq> NotStarted \<Longrightarrow> h_jobs q \<noteq> [] \<Longrightarrow>
    share_step q (q\<lparr>h_submitter := None\<rparr>)"
| send: "h_submitter q = Some j \<Longrightarrow> h_worker q \<noteq> NotStarted \<Longrightarrow> h_jobs q = [] \<Longrightarrow>
    share_step q ((count_in j q)\<lparr>h_jobs := [j]\<rparr>)"
| first: "h_submitter q = Some j \<Longrightarrow> h_worker q = NotStarted \<Longrightarrow>
    share_step q ((count_in j q)\<lparr>h_worker := Importing j, h_begun := h_begun q @ [j]\<rparr>)"
| finish: "h_worker q = Importing j \<Longrightarrow> h_submitter q = None \<Longrightarrow>
    share_step q (q\<lparr>h_worker := Selecting, h_pending := h_pending q - 1,
      h_idle := (if h_pending q - 1 = 0 then True else h_idle q), h_ended := h_ended q @ [j]\<rparr>)"
| receive: "h_worker q = Selecting \<Longrightarrow> h_jobs q = j # js \<Longrightarrow>
    share_step q (q\<lparr>h_worker := Importing j, h_jobs := js, h_begun := h_begun q @ [j]\<rparr>)"
| return: "h_worker q = Selecting \<Longrightarrow> h_cancelled q \<Longrightarrow> h_jobs q = [] \<Longrightarrow>
    share_step q (q\<lparr>h_worker := Returned\<rparr>)"
| cancel: "share_step q (q\<lparr>h_cancelled := True\<rparr>)"
| seal: "h_submitter q = None \<Longrightarrow> share_step q (q\<lparr>h_closed := True\<rparr>)"

inductive_cases share_stepE: "share_step q q'"

definition current :: "'j historyShareQueue \<Rightarrow> 'j list" where
  "current q = (case h_worker q of Importing j \<Rightarrow> [j] | _ \<Rightarrow> [])"

definition share_inv :: "'j historyShareQueue \<Rightarrow> bool" where
  "share_inv q \<longleftrightarrow> h_pending q = int (length (h_jobs q)) + int (length (current q))
     \<and> h_idle q = (h_pending q = 0) \<and> h_begun q = h_ended q @ current q
     \<and> (h_worker q = NotStarted \<longrightarrow> h_jobs q = [] \<and> h_accepted q = []) \<and> length (h_jobs q) \<le> 1
     \<and> (h_worker q = Returned \<longrightarrow> h_cancelled q)"

lemma current_simps [simp]:
  "h_worker q = Importing j \<Longrightarrow> current q = [j]" "h_worker q = Selecting \<Longrightarrow> current q = []"
  "h_worker q = NotStarted \<Longrightarrow> current q = []" "h_worker q = Returned \<Longrightarrow> current q = []"
  by (simp_all add: current_def)

lemma current_cong: "h_worker q' = h_worker q \<Longrightarrow> current q' = current q"
  by (simp add: current_def)

lemma share_step_inv: "share_inv q \<Longrightarrow> share_step q q' \<Longrightarrow> share_inv q'"
  by (erule share_stepE) (auto simp: share_inv_def count_in_def current_def split: share_worker.splits)

interpretation share: fifo_pool share_step share_inv h_jobs h_accepted h_begun "\<lambda>_. 1"
proof
  fix s t :: "'j historyShareQueue"
  assume inv: "share_inv s" and st: "share_step s t"
  show "share_inv t" using inv st by (rule share_step_inv)
  show "(h_accepted t = h_accepted s \<and> h_begun t = h_begun s \<and> h_jobs t = h_jobs s)
      \<or> (\<exists>j. h_accepted t = h_accepted s @ [j] \<and> h_begun t = h_begun s \<and> h_jobs t = h_jobs s @ [j] \<and> length (h_jobs s) < 1)
      \<or> (\<exists>j. h_accepted t = h_accepted s @ [j] \<and> h_begun t = h_begun s @ [j] \<and> h_jobs s = [] \<and> h_jobs t = [])
      \<or> (\<exists>j. h_accepted t = h_accepted s \<and> h_begun t = h_begun s @ [j] \<and> h_jobs s = j # h_jobs t)"
    using st inv by (cases rule: share_step.cases) (auto simp: share_inv_def count_in_def)
qed simp

text \<open>The history share queue holds one import and one waiting job at most, runs accepted jobs one
  at a time, each once and in order, counts them exactly, and signals idle precisely when nothing
  is pending; its worker returns only after cancellation.\<close>

lemma share_queue_accounts:
  assumes "steps share_step newHistoryShareQueue q"
  shows "h_pending q = int (length (h_jobs q)) + int (length (current q))
     \<and> length (h_jobs q) \<le> 1 \<and> (h_idle q \<longleftrightarrow> h_pending q = 0)
     \<and> h_accepted q = h_ended q @ current q @ h_jobs q \<and> (h_worker q = Returned \<longrightarrow> h_cancelled q)"
proof -
  have "share.in_order (newHistoryShareQueue :: 'a historyShareQueue)"
    unfolding share.in_order_def by (simp add: share_inv_def newHistoryShareQueue_def)
  with assms have "share.in_order q" by (rule share.in_order_steps)
  then show ?thesis unfolding share.in_order_def by (auto simp: share_inv_def)
qed

theorem share_queue_accounts_witness:
  "let q = (count_in 7 (newHistoryShareQueue\<lparr>h_submitter := Some 7\<rparr>))\<lparr>h_worker := Importing 7, h_begun := [7 :: nat]\<rparr>
   in h_pending q = 1 \<and> \<not> h_idle q \<and> h_accepted q = h_ended q @ current q @ h_jobs q"
proof -
  let ?entered = "newHistoryShareQueue\<lparr>h_submitter := Some (7 :: nat)\<rparr>"
  let ?q = "(count_in 7 ?entered)\<lparr>h_worker := Importing 7, h_begun := h_begun ?entered @ [7]\<rparr>"
  have "share_step newHistoryShareQueue ?entered" by (rule share_step.enter) (simp_all add: newHistoryShareQueue_def)
  then have "steps share_step newHistoryShareQueue ?entered" by (rule steps.more [of share_step, OF steps.none])
  moreover have "share_step ?entered ?q" by (rule share_step.first) (simp_all add: newHistoryShareQueue_def)
  ultimately have "steps share_step newHistoryShareQueue ?q" by (rule steps.more)
  from share_queue_accounts [OF this] show ?thesis
    by (simp add: Let_def newHistoryShareQueue_def count_in_def)
qed

text \<open>C37. Shutdown can lose a job without a word: a job whose submission passed the context check just
  before cancellation can enter the queue after the worker has returned; it counts as accepted and
  pending, is never run or refused, and the queue never becomes idle again.\<close>

theorem share_queue_can_strand_job:
  "\<exists>q. steps share_step newHistoryShareQueue q \<and> h_worker q = Returned \<and> h_accepted q = [1, 2 :: nat]
     \<and> h_ended q = [1] \<and> h_jobs q = [2]
     \<and> (\<forall>q'. steps share_step q q' \<longrightarrow> h_ended q' = [1] \<and> \<not> h_idle q')"
proof -
  let ?q0 = "newHistoryShareQueue :: nat historyShareQueue"
  define q1 where "q1 = ?q0\<lparr>h_submitter := Some 1\<rparr>"
  define q2 where "q2 = (count_in 1 q1)\<lparr>h_worker := Importing 1, h_begun := h_begun q1 @ [1]\<rparr>"
  define q3 where "q3 = q2\<lparr>h_worker := Selecting, h_pending := h_pending q2 - 1,
      h_idle := (if h_pending q2 - 1 = 0 then True else h_idle q2), h_ended := h_ended q2 @ [1]\<rparr>"
  define q4 where "q4 = q3\<lparr>h_submitter := Some 2\<rparr>"
  define q5 where "q5 = q4\<lparr>h_cancelled := True\<rparr>"
  define q6 where "q6 = q5\<lparr>h_worker := Returned\<rparr>"
  define q7 where "q7 = (count_in 2 q6)\<lparr>h_jobs := [2]\<rparr>"
  note qs = q1_def q2_def q3_def q4_def q5_def q6_def q7_def count_in_def newHistoryShareQueue_def
  have "share_step ?q0 q1" unfolding q1_def by (rule share_step.enter) (simp_all add: qs)
  moreover have "share_step q1 q2" unfolding q2_def by (rule share_step.first) (simp_all add: qs)
  moreover have "share_step q2 q3" unfolding q3_def by (rule share_step.finish) (simp_all add: qs)
  moreover have "share_step q3 q4" unfolding q4_def by (rule share_step.enter) (simp_all add: qs)
  moreover have "share_step q4 q5" unfolding q5_def by (rule share_step.cancel)
  moreover have "share_step q5 q6" unfolding q6_def by (rule share_step.return) (simp_all add: qs)
  moreover have "share_step q6 q7" unfolding q7_def by (rule share_step.send) (simp_all add: qs)
  ultimately have run: "steps share_step ?q0 q7" by (meson steps.none steps.more)
  have "h_worker q' = Returned \<and> h_ended q' = [1] \<and> \<not> h_idle q' \<and> h_pending q' > 0" if "steps share_step q7 q'" for q'
    using that by (rule steps_invariant) (auto simp: qs count_in_def elim!: share_stepE)
  with run show ?thesis by (intro exI [of _ q7]) (auto simp: qs)
qed

theorem share_queue_can_strand_job_witness:
  "\<exists>q. steps share_step newHistoryShareQueue q \<and> h_accepted q = [1, 2 :: nat] \<and> h_ended q = [1] \<and> \<not> h_idle q"
  using share_queue_can_strand_job by (blast intro: steps.none)

end
