(* ===== verification/Retry_Limits.thy ===== *)
theory Retry_Limits
  imports Prelude "HOL-Library.Multiset"
begin

text \<open>
  The bounded retries of the bridge: the cooldown of media retries (\<^verbatim>\<open>media_retry_cooldown.go\<close> with
  its use in \<^verbatim>\<open>retryMedia\<close> and \<^verbatim>\<open>DownloadMedia\<close> of \<^verbatim>\<open>media.go\<close>), the retry of writes on a busy
  database (\<^verbatim>\<open>store_failures.go\<close>), and the retry of a message write whose prepared edit aliases went
  stale (\<^verbatim>\<open>retryPendingEditPreparation\<close> of \<^verbatim>\<open>pending_edits.go\<close>). The entries of the cooldown map are a
  list in the order Go happens to iterate them, which the argument \<open>scan\<close> may rearrange at will.
\<close>

section \<open>The media retry cooldown\<close>

definition mediaRetryAnsweredCooldown :: duration where "mediaRetryAnsweredCooldown = 7 * 24 * hour"
definition mediaRetryUnansweredCooldown :: duration where "mediaRetryUnansweredCooldown = hour"
definition mediaRetryCooldownMax :: nat where "mediaRetryCooldownMax = 4096"

text \<open>A failure of a retry, with what \<^verbatim>\<open>errors.As\<close> and \<^verbatim>\<open>errors.Is\<close> find in its chain.\<close>

record retry_error =
  is_phoneRetryAnswer :: bool
  is_errMediaUnavailable :: bool
  error_text :: string

type_synonym message_ref = "string \<times> string"

record cooldown_entry =
  ce_key :: message_ref
  ce_until :: instant
  ce_err :: retry_error

type_synonym cooldown = "cooldown_entry list"
type_synonym entry_scan = "cooldown \<Rightarrow> cooldown"

definition drop_key :: "message_ref \<Rightarrow> cooldown \<Rightarrow> cooldown" where
  "drop_key k = filter (\<lambda>en. ce_key en \<noteq> k)"

definition active :: "message_ref \<Rightarrow> instant \<Rightarrow> cooldown \<Rightarrow> (instant \<times> retry_error) option \<times> cooldown" where
  "active k now es =
     (case row_of ce_key k es of
        None \<Rightarrow> (None, es)
      | Some en \<Rightarrow>
          if \<not> now < ce_until en then (None, drop_key k es)
          else (Some (ce_until en, ce_err en), es))"

fun soonest :: "cooldown \<Rightarrow> cooldown_entry option" where
  "soonest [] = None"
| "soonest (en # es) =
     (case soonest es of None \<Rightarrow> Some en | Some b \<Rightarrow> if ce_until b < ce_until en then Some b else Some en)"

definition evictLocked :: "entry_scan \<Rightarrow> instant \<Rightarrow> cooldown \<Rightarrow> cooldown" where
  "evictLocked scan now es =
     (let live = filter (\<lambda>en. now < ce_until en) es
      in if length live \<ge> mediaRetryCooldownMax then
           (case soonest (scan live) of None \<Rightarrow> live | Some en \<Rightarrow> drop_key (ce_key en) live)
         else live)"

definition replace_entry :: "cooldown_entry \<Rightarrow> cooldown_entry \<Rightarrow> cooldown_entry" where
  "replace_entry old new = new"

interpretation cooldown: keyed_table ce_key replace_entry
  by unfold_locales (simp add: replace_entry_def)

definition cooldown_wait :: "retry_error \<Rightarrow> duration" where
  "cooldown_wait err = (if is_phoneRetryAnswer err \<or> is_errMediaUnavailable err
     then mediaRetryAnsweredCooldown else mediaRetryUnansweredCooldown)"

definition note_failure ::
    "entry_scan \<Rightarrow> message_ref \<Rightarrow> retry_error \<Rightarrow> instant \<Rightarrow> cooldown \<Rightarrow> (instant \<times> retry_error) \<times> cooldown" where
  "note_failure scan k err now es =
     (let until = now + cooldown_wait err;
          es1 = (if \<not> has_key ce_key k es \<and> length es \<ge> mediaRetryCooldownMax then evictLocked scan now es else es)
      in ((until, err), upsert ce_key replace_entry \<lparr>ce_key = k, ce_until = until, ce_err = err\<rparr> es1))"

definition forget :: "message_ref \<Rightarrow> cooldown \<Rightarrow> cooldown" where
  "forget = drop_key"

text \<open>How a retry ends: the file arrived, the bridge is stopping, the phone was not asked or the caller's
  budget refused the bytes, or the retry failed.\<close>

datatype retry_outcome = Delivered | Stopping | NotAsked | Failed retry_error

definition retryMedia :: "entry_scan \<Rightarrow> message_ref \<Rightarrow> retry_outcome \<Rightarrow> instant \<Rightarrow> cooldown \<Rightarrow> cooldown" where
  "retryMedia scan k outcome now es =
     (case outcome of
        Delivered \<Rightarrow> forget k es
      | Stopping \<Rightarrow> es
      | NotAsked \<Rightarrow> es
      | Failed err \<Rightarrow> snd (note_failure scan k err now es))"

datatype answer = Backoff instant retry_error | Requested

text \<open>One download whose link has expired: answered from memory while the message cools down, otherwise
  the phone is asked and the outcome noted.\<close>

record attempt =
  at_key :: message_ref
  at_now :: instant
  at_outcome :: retry_outcome
  at_noted :: instant

definition retry_attempt :: "entry_scan \<Rightarrow> attempt \<Rightarrow> cooldown \<Rightarrow> answer \<times> cooldown" where
  "retry_attempt scan a es =
     (case active (at_key a) (at_now a) es of
        (Some (until, err), es1) \<Rightarrow> (Backoff until err, es1)
      | (None, es1) \<Rightarrow> (Requested, retryMedia scan (at_key a) (at_outcome a) (at_noted a) es1))"

fun retry_run :: "entry_scan \<Rightarrow> attempt list \<Rightarrow> cooldown \<Rightarrow> answer list \<times> cooldown" where
  "retry_run scan [] es = ([], es)"
| "retry_run scan (a # as) es =
     (let (r, es1) = retry_attempt scan a es; (rs, es2) = retry_run scan as es1 in (r # rs, es2))"

subsection \<open>The memory it stands for\<close>

text \<open>The specification: a map without a size limit from messages to the failure last noted.\<close>

type_synonym memory = "message_ref \<rightharpoonup> instant \<times> retry_error"

definition spec_attempt :: "attempt \<Rightarrow> memory \<Rightarrow> answer \<times> memory" where
  "spec_attempt a m =
     (case m (at_key a) of
        Some (until, err) \<Rightarrow>
          if at_now a < until then (Backoff until err, m)
          else (Requested, (case at_outcome a of
              Failed e \<Rightarrow> m(at_key a \<mapsto> (at_noted a + cooldown_wait e, e)) | _ \<Rightarrow> m(at_key a := None)))
      | None \<Rightarrow> (Requested, (case at_outcome a of
              Failed e \<Rightarrow> m(at_key a \<mapsto> (at_noted a + cooldown_wait e, e)) | _ \<Rightarrow> m)))"

fun spec_run :: "attempt list \<Rightarrow> memory \<Rightarrow> answer list \<times> memory" where
  "spec_run [] m = ([], m)"
| "spec_run (a # as) m =
     (let (r, m1) = spec_attempt a m; (rs, m2) = spec_run as m1 in (r # rs, m2))"

definition memory_of :: "cooldown \<Rightarrow> memory" where
  "memory_of es k = map_option (\<lambda>en. (ce_until en, ce_err en)) (row_of ce_key k es)"

lemma drop_key_keyed: "keyed ce_key es \<Longrightarrow> keyed ce_key (drop_key k es)"
  by (simp add: drop_key_def tbl)

lemma row_of_drop: "row_of ce_key k' (drop_key k es) = (if k' = k then None else row_of ce_key k' es)"
proof -
  have "List.find (\<lambda>r. ce_key r = k') (filter (\<lambda>en. ce_key en \<noteq> k) es) = List.find (\<lambda>r. ce_key r = k') es" if "k' \<noteq> k"
    using that by (induction es) auto
  moreover have "List.find (\<lambda>r. ce_key r = k) (filter (\<lambda>en. ce_key en \<noteq> k) es) = None"
    by (induction es) auto
  ultimately show ?thesis by (simp add: row_of_def drop_key_def)
qed

lemma memory_of_drop: "memory_of (drop_key k es) = (memory_of es)(k := None)"
  by (auto simp: memory_of_def row_of_drop)

lemma soonest_min: "soonest es = Some en \<Longrightarrow> en \<in> set es \<and> (\<forall>x \<in> set es. ce_until en \<le> ce_until x)"
proof (induction es arbitrary: en)
  case (Cons a es)
  show ?case
  proof (cases "soonest es")
    case None
    then have "es = []" by (cases es) (auto split: option.splits if_split_asm)
    with Cons.prems show ?thesis by simp
  next
    case (Some b)
    with Cons.IH [OF Some] Cons.prems show ?thesis by (auto split: if_splits)
  qed
qed simp

lemma soonest_None: "soonest es = None \<longleftrightarrow> es = []"
  by (cases es) (simp_all split: option.split)

lemma drop_key_sub: "ce_key ` set es \<subseteq> K \<Longrightarrow> ce_key ` set (drop_key k es) \<subseteq> K"
  by (auto simp: drop_key_def)

lemma evict_sub: "set (evictLocked scan now es) \<subseteq> set es"
  by (auto simp: evictLocked_def drop_key_def Let_def split: option.split)

lemma evict_keyed: "keyed ce_key es \<Longrightarrow> keyed ce_key (evictLocked scan now es)"
  by (simp add: evictLocked_def drop_key_def Let_def tbl split: option.split)

definition cooldown_ok :: "cooldown \<Rightarrow> bool" where
  "cooldown_ok es \<longleftrightarrow> keyed ce_key es \<and> length es \<le> mediaRetryCooldownMax"

lemma drop_key_shorter: "en \<in> set es \<Longrightarrow> length (drop_key (ce_key en) es) < length es"
  by (simp add: drop_key_def length_filter_less)

lemma evict_makes_room:
  assumes "length es \<le> mediaRetryCooldownMax" "\<And>u. set (scan u) = set u"
  shows "length (evictLocked scan now es) < mediaRetryCooldownMax"
proof -
  let ?live = "filter (\<lambda>en. now < ce_until en) es"
  have le: "length ?live \<le> mediaRetryCooldownMax" using assms(1) length_filter_le le_trans by blast
  show ?thesis
  proof (cases "length ?live \<ge> mediaRetryCooldownMax")
    case True
    then have "?live \<noteq> []" by (auto simp: mediaRetryCooldownMax_def)
    then have "scan ?live \<noteq> []" using assms(2) by (metis set_empty)
    then obtain en where en: "soonest (scan ?live) = Some en" using soonest_None by blast
    then have "en \<in> set ?live" using soonest_min assms(2) by blast
    with en True le drop_key_shorter [OF this] show ?thesis by (simp add: evictLocked_def)
  qed (simp add: evictLocked_def)
qed

lemma note_ok:
  assumes "cooldown_ok es" "\<And>u. set (scan u) = set u"
  shows "cooldown_ok (snd (note_failure scan k err now es))"
proof -
  let ?row = "\<lparr>ce_key = k, ce_until = now + cooldown_wait err, ce_err = err\<rparr>"
  have len: "length (upsert ce_key replace_entry ?row es') = (if has_key ce_key k es' then length es' else Suc (length es'))" for es'
    by (simp add: upsert_def)
  show ?thesis
    using assms(1) evict_makes_room [of es scan now, OF _ assms(2)] evict_keyed [of es scan now]
      cooldown.upsert_keyed len
    by (auto simp: cooldown_ok_def note_failure_def Let_def intro: Suc_leI)
qed

lemma drop_ok: "cooldown_ok es \<Longrightarrow> cooldown_ok (drop_key k es)"
  by (auto simp: cooldown_ok_def drop_key_def tbl intro: le_trans [OF length_filter_le])

lemma attempt_ok:
  assumes "cooldown_ok es" "\<And>u. set (scan u) = set u"
  shows "cooldown_ok (snd (retry_attempt scan a es))"
  using assms
  by (auto simp: retry_attempt_def active_def retryMedia_def forget_def note_ok drop_ok split: option.split retry_outcome.split)

text \<open>The memory of failed media retries is bounded: however many messages fail, in whatever order
  the map is iterated, at most 4096 failures are remembered, one per message; and making room drops
  only expired entries and at most one live one, which is one of those due soonest.\<close>

lemma retry_memory_bounded:
  assumes "cooldown_ok es" and "\<And>u. set (scan u) = set u"
  shows "cooldown_ok (snd (retry_run scan as es))
     \<and> (\<forall>en \<in> set es. en \<notin> set (evictLocked scan now es) \<and> now < ce_until en \<longrightarrow>
          (\<forall>x \<in> set (evictLocked scan now es). ce_until en \<le> ce_until x))"
proof
  show "cooldown_ok (snd (retry_run scan as es))"
    using assms(1)
  proof (induction as arbitrary: es)
    case (Cons a as)
    from Cons.IH [OF attempt_ok [OF Cons.prems assms(2)]] show ?case by (simp add: Let_def case_prod_unfold)
  qed simp
  show "\<forall>en \<in> set es. en \<notin> set (evictLocked scan now es) \<and> now < ce_until en \<longrightarrow>
      (\<forall>x \<in> set (evictLocked scan now es). ce_until en \<le> ce_until x)"
  proof (intro ballI impI)
    fix en x
    assume en: "en \<in> set es" "en \<notin> set (evictLocked scan now es) \<and> now < ce_until en"
      and x: "x \<in> set (evictLocked scan now es)"
    let ?live = "filter (\<lambda>en. now < ce_until en) es"
    from en have live: "en \<in> set ?live" by simp
    with en obtain b where b: "soonest (scan ?live) = Some b" "ce_key en = ce_key b"
      by (auto simp: evictLocked_def drop_key_def Let_def split: if_splits option.splits)
    from soonest_min [OF b(1)] assms(2) have "b \<in> set ?live" "\<forall>y \<in> set ?live. ce_until b \<le> ce_until y" by auto
    moreover have "keyed ce_key ?live" using assms(1) by (simp add: cooldown_ok_def tbl)
    ultimately have "en = b" using live b(2) by (blast intro: keyed_inj)
    moreover have "x \<in> set ?live"
      using x by (auto simp: evictLocked_def drop_key_def Let_def split: if_splits option.splits)
    ultimately show "ce_until en \<le> ce_until x" using \<open>\<forall>y \<in> set ?live. ce_until b \<le> ce_until y\<close> by blast
  qed
qed

subsection \<open>Refinement\<close>

lemma memory_of_upsert:
  assumes "keyed ce_key es"
  shows "memory_of (upsert ce_key replace_entry \<lparr>ce_key = k, ce_until = u, ce_err = e\<rparr> es) = (memory_of es)(k \<mapsto> (u, e))"
proof
  fix k'
  show "memory_of (upsert ce_key replace_entry \<lparr>ce_key = k, ce_until = u, ce_err = e\<rparr> es) k' = ((memory_of es)(k \<mapsto> (u, e))) k'"
    using cooldown.row_of_upsert_same [OF assms, of "\<lparr>ce_key = k, ce_until = u, ce_err = e\<rparr>"]
      cooldown.row_of_upsert_other [of k' "\<lparr>ce_key = k, ce_until = u, ce_err = e\<rparr>" es]
    by (cases "k' = k") (auto simp: memory_of_def replace_entry_def split: option.splits)
qed

lemma upsert_keys_in:
  "ce_key ` set (upsert ce_key replace_entry \<lparr>ce_key = k, ce_until = u, ce_err = e\<rparr> es) = insert k (ce_key ` set es)"
  using cooldown.upsert_keys [of "\<lparr>ce_key = k, ce_until = u, ce_err = e\<rparr>" es] by simp

lemma note_without_eviction:
  assumes "keyed ce_key es" "ce_key ` set es \<subseteq> K" "finite K" "card K \<le> mediaRetryCooldownMax" "k \<in> K"
  shows "snd (note_failure scan k err now es) =
     upsert ce_key replace_entry \<lparr>ce_key = k, ce_until = now + cooldown_wait err, ce_err = err\<rparr> es"
proof -
  have "length es < mediaRetryCooldownMax" if "\<not> has_key ce_key k es"
  proof -
    have "length es = card (ce_key ` set es)"
      using assms(1) by (metis distinct_card keyed_def length_map list.set_map)
    also have "\<dots> < card K"
      using that assms(2,3,5) by (intro psubset_card_mono) (auto simp: has_key_iff)
    finally show ?thesis using assms(4) by simp
  qed
  then show ?thesis by (auto simp: note_failure_def Let_def)
qed

lemma attempt_refines:
  assumes "keyed ce_key es" "ce_key ` set es \<subseteq> K" "finite K" "card K \<le> mediaRetryCooldownMax" "at_key a \<in> K"
  shows "fst (retry_attempt scan a es) = fst (spec_attempt a (memory_of es))
     \<and> memory_of (snd (retry_attempt scan a es)) = snd (spec_attempt a (memory_of es))
     \<and> keyed ce_key (snd (retry_attempt scan a es)) \<and> ce_key ` set (snd (retry_attempt scan a es)) \<subseteq> K"
proof -
  define es1 where "es1 = snd (active (at_key a) (at_now a) es)"
  have es1: "keyed ce_key es1" "ce_key ` set es1 \<subseteq> K"
    using assms(1,2) by (auto simp: es1_def active_def drop_key_def tbl split: option.split)
  note note_eq = note_without_eviction [OF es1 assms(3-5)]
  have finish: "memory_of (retryMedia scan (at_key a) (at_outcome a) (at_noted a) es1) =
      (case at_outcome a of Failed e \<Rightarrow> (memory_of es1)(at_key a \<mapsto> (at_noted a + cooldown_wait e, e))
       | Delivered \<Rightarrow> (memory_of es1)(at_key a := None) | _ \<Rightarrow> memory_of es1)
      \<and> keyed ce_key (retryMedia scan (at_key a) (at_outcome a) (at_noted a) es1)
      \<and> ce_key ` set (retryMedia scan (at_key a) (at_outcome a) (at_noted a) es1) \<subseteq> K"
    using es1 assms(5)
    by (auto simp: retryMedia_def forget_def memory_of_drop note_eq memory_of_upsert upsert_keys_in
        cooldown.upsert_keyed drop_key_keyed drop_key_sub split: retry_outcome.split)
  show ?thesis
  proof (cases "row_of ce_key (at_key a) es")
    case None
    then have "es1 = es" "memory_of es (at_key a) = None" by (simp_all add: es1_def active_def memory_of_def)
    then show ?thesis using None finish
      by (auto simp: retry_attempt_def active_def spec_attempt_def fun_upd_idem split: retry_outcome.split)
  next
    case (Some en)
    then have m: "memory_of es (at_key a) = Some (ce_until en, ce_err en)" by (simp add: memory_of_def)
    show ?thesis
    proof (cases "at_now a < ce_until en")
      case True
      with Some m assms(1,2) show ?thesis by (simp add: retry_attempt_def active_def spec_attempt_def)
    next
      case False
      then have es1_eq: "es1 = drop_key (at_key a) es" using Some by (simp add: es1_def active_def)
      then have "memory_of es1 = (memory_of es)(at_key a := None)" by (simp add: memory_of_drop)
      with False Some m finish [unfolded es1_eq] show ?thesis
        by (auto simp: retry_attempt_def active_def spec_attempt_def es1_eq split: retry_outcome.split)
    qed
  qed
qed

text \<open>C30. For up to 4096 messages the bounded cooldown is indistinguishable from perfect memory: any
  sequence of retries of at most that many messages is answered exactly as by an unbounded record
  of the last failure of each message, so within its cooldown (a week after the phone answered, an
  hour otherwise) a message never reaches the phone again.\<close>

theorem retry_cooldown_refines:
  assumes "card (at_key ` set as) \<le> mediaRetryCooldownMax"
  shows "fst (retry_run scan as []) = fst (spec_run as (\<lambda>_. None))"
proof -
  have "fst (retry_run scan bs es) = fst (spec_run bs (memory_of es))"
    if "keyed ce_key es" "ce_key ` set es \<subseteq> at_key ` set as" "at_key ` set bs \<subseteq> at_key ` set as" for bs es
    using that
  proof (induction bs arbitrary: es)
    case (Cons b bs)
    have "at_key b \<in> at_key ` set as" using Cons.prems(3) by simp
    note step = attempt_refines [where scan = scan, OF Cons.prems(1,2) finite_imageI [OF finite_set] assms this]
    from step Cons.IH [of "snd (retry_attempt scan b es)"] Cons.prems(3) show ?case
      by (simp add: Let_def case_prod_unfold)
  qed simp
  moreover have "memory_of [] = (\<lambda>_. None)" by (simp add: fun_eq_iff memory_of_def row_of_def)
  ultimately show ?thesis using keyed_Nil by (metis image_empty empty_subsetI list.set(1) order_refl)
qed

text \<open>An attempt that fails with the phone's answer, and a second one a day later.\<close>

definition failing :: "instant \<Rightarrow> attempt" where
  "failing t = \<lparr>at_key = (''5511@s.whatsapp.net'', ''A1''), at_now = t,
     at_outcome = Failed \<lparr>is_phoneRetryAnswer = True, is_errMediaUnavailable = False, error_text = ''gone''\<rparr>,
     at_noted = t\<rparr>"

theorem retry_memory_bounded_witness:
  "cooldown_ok (snd (retry_run id [failing 0, failing (24 * hour)] []))"
  using retry_memory_bounded [of "[]" id "[failing 0, failing (24 * hour)]" 0]
  by (simp add: cooldown_ok_def mediaRetryCooldownMax_def)

theorem retry_cooldown_refines_witness:
  "fst (retry_run id [failing 0, failing (24 * hour)] [])
     = [Requested, Backoff (7 * 24 * hour) \<lparr>is_phoneRetryAnswer = True, is_errMediaUnavailable = False, error_text = ''gone''\<rparr>]"
proof -
  have "card (at_key ` set [failing 0, failing (24 * hour)]) \<le> mediaRetryCooldownMax"
    by (simp add: failing_def mediaRetryCooldownMax_def)
  from retry_cooldown_refines [OF this, of id] show ?thesis
    by (simp add: failing_def spec_attempt_def cooldown_wait_def mediaRetryAnsweredCooldown_def time_unit_defs)
qed

section \<open>Retrying a busy store\<close>

text \<open>A write is an action on the store that may fail with an error carrying an SQLite code.\<close>

type_synonym store_error = "int option"

definition isBusyError :: "store_error \<Rightarrow> bool" where
  "isBusyError err = (case err of None \<Rightarrow> False | Some code \<Rightarrow> code mod 256 = 5 \<or> code mod 256 = 6)"

type_synonym 's store_write = "'s \<Rightarrow> store_error option \<times> 's"

fun retry_busy_loop ::
    "'s store_write \<Rightarrow> (duration \<Rightarrow> 's \<Rightarrow> bool \<times> 's) \<Rightarrow> store_error option \<Rightarrow> duration list \<Rightarrow> 's \<Rightarrow> store_error option \<times> 's" where
  "retry_busy_loop write wait err [] s = (err, s)"
| "retry_busy_loop write wait err (delay # delays) s =
     (case err of
        None \<Rightarrow> (None, s)
      | Some e \<Rightarrow>
          if \<not> isBusyError e then (err, s)
          else let (go, s1) = wait delay s
               in if \<not> go then (err, s1)
                  else let (err', s2) = write s1 in retry_busy_loop write wait err' delays s2)"

definition retryBusyWithWait ::
    "'s store_write \<Rightarrow> duration list \<Rightarrow> (duration \<Rightarrow> 's \<Rightarrow> bool \<times> 's) \<Rightarrow> 's \<Rightarrow> store_error option \<times> 's" where
  "retryBusyWithWait write delays wait s = (let (err, s1) = write s in retry_busy_loop write wait err delays s1)"

definition defaultStoreRetryDelays :: "duration list" where
  "defaultStoreRetryDelays = [200 * millisecond, second]"

record 'd store =
  st_data :: 'd
  st_writes :: nat
  st_failures :: nat

text \<open>\<^verbatim>\<open>storeLive\<close> with \<^verbatim>\<open>noteStoreFailure\<close>: whether the write is in the store, and the failure count.\<close>

definition storeLive :: "'d store store_write \<Rightarrow> (duration \<Rightarrow> 'd store \<Rightarrow> bool \<times> 'd store) \<Rightarrow> 'd store \<Rightarrow> bool \<times> 'd store" where
  "storeLive write wait s =
     (case retryBusyWithWait write defaultStoreRetryDelays wait s of
        (None, s1) \<Rightarrow> (True, s1)
      | (Some _, s1) \<Rightarrow> (False, s1\<lparr>st_failures := st_failures s1 + 1\<rparr>))"

text \<open>\<^verbatim>\<open>retryPendingEditPreparation\<close>: three attempts while the error is the stale preparation.\<close>

fun retry_preparation :: "nat \<Rightarrow> ('e \<Rightarrow> bool) \<Rightarrow> ('s \<Rightarrow> 'e option \<times> 's) \<Rightarrow> 's \<Rightarrow> 'e option \<times> 's" where
  "retry_preparation 0 stale write s = (None, s)"
| "retry_preparation (Suc n) stale write s =
     (case write s of
        (Some e, s1) \<Rightarrow> if stale e \<and> n > 0 then retry_preparation n stale write s1 else (Some e, s1)
      | (None, s1) \<Rightarrow> (None, s1))"

definition retryPendingEditPreparation :: "('e \<Rightarrow> bool) \<Rightarrow> ('s \<Rightarrow> 'e option \<times> 's) \<Rightarrow> 's \<Rightarrow> 'e option \<times> 's" where
  "retryPendingEditPreparation stale write s = retry_preparation 3 stale write s"

text \<open>A write is a closure over one or more transactions, run in order: the message handler's is
  \<^verbatim>\<open>EnsureChat\<close> followed by the row's own write (\<^verbatim>\<open>events.go\<close>). An attempt fails at one of them, as
  \<open>verdict\<close> says for the n-th attempt: the transactions before it stay committed, the failing one is rolled
  back, and the rest do not run.\<close>

type_synonym write_verdict = "nat \<Rightarrow> (nat \<times> store_error) option"

definition run_txs :: "('d \<Rightarrow> 'd) list \<Rightarrow> 'd \<Rightarrow> 'd" where
  "run_txs fs = fold (\<lambda>f d. f d) fs"

definition closure_write :: "write_verdict \<Rightarrow> ('d \<Rightarrow> 'd) list \<Rightarrow> 'd store store_write" where
  "closure_write verdict fs s =
     (let s1 = s\<lparr>st_writes := st_writes s + 1\<rparr>
      in case verdict (st_writes s) of
           None \<Rightarrow> (None, s1\<lparr>st_data := run_txs fs (st_data s)\<rparr>)
         | Some (i, e) \<Rightarrow> (Some e, s1\<lparr>st_data := run_txs (take i fs) (st_data s)\<rparr>))"

text \<open>A closure of a single transaction, whose failure leaves the data alone.\<close>

definition tx_write :: "(nat \<Rightarrow> store_error option) \<Rightarrow> ('d \<Rightarrow> 'd) \<Rightarrow> 'd store store_write" where
  "tx_write verdict f = closure_write (map_option (Pair 0) \<circ> verdict) [f]"

text \<open>What the failed attempts leave: each has run a part of the closure on what the one before it left.\<close>

inductive partial_runs :: "write_verdict \<Rightarrow> ('d \<Rightarrow> 'd) list \<Rightarrow> 'd \<Rightarrow> 'd \<Rightarrow> bool" for verdict fs where
  none: "partial_runs verdict fs d d"
| attempt: "partial_runs verdict fs d d' \<Longrightarrow> verdict n = Some (i, e) \<Longrightarrow> partial_runs verdict fs d (run_txs (take i fs) d')"

lemma partial_runs_attempt_first:
  "partial_runs verdict fs (run_txs (take i fs) d) d' \<Longrightarrow> verdict n = Some (i, e) \<Longrightarrow> partial_runs verdict fs d d'"
  by (induction "run_txs (take i fs) d" d' rule: partial_runs.induct)
    (auto intro: partial_runs.intros)

lemma partial_runs_repeatable:
  assumes "partial_runs verdict fs d d'"
    and "\<And>n i e d. verdict n = Some (i, e) \<Longrightarrow> run_txs fs (run_txs (take i fs) d) = run_txs fs d"
  shows "run_txs fs d' = run_txs fs d"
  using assms(1) by (induction rule: partial_runs.induct) (simp_all add: assms(2))

lemma retry_busy_loop_effect:
  assumes "\<And>d s. st_data (snd (wait d s)) = st_data s \<and> st_writes (snd (wait d s)) = st_writes s
      \<and> st_failures (snd (wait d s)) = st_failures s"
    and "retry_busy_loop (closure_write verdict fs) wait err delays s = (r, t)" "err \<noteq> None"
  shows "(\<exists>d. partial_runs verdict fs (st_data s) d \<and> st_data t = (if r = None then run_txs fs d else d))
     \<and> st_writes s \<le> st_writes t \<and> st_writes t \<le> st_writes s + length delays \<and> st_failures t = st_failures s
     \<and> (st_writes t = st_writes s \<longrightarrow> r = err) \<and> (st_writes t > st_writes s \<longrightarrow> r = map_option snd (verdict (st_writes t - 1)))"
  using assms(2,3)
proof (induction delays arbitrary: err s)
  case Nil
  then show ?case by (auto intro: partial_runs.none)
next
  case (Cons d delays)
  obtain e where e: "err = Some e" using Cons.prems(2) by auto
  show ?case
  proof (cases "isBusyError e \<and> fst (wait d s)")
    case False
    then have "r = err \<and> (t = s \<or> t = snd (wait d s))"
      using Cons.prems(1) e by (auto simp: Let_def case_prod_unfold split: if_splits)
    with assms(1) [of d s] e show ?thesis by (auto intro: partial_runs.none)
  next
    case True
    define s1 where "s1 = snd (wait d s)"
    let ?w = "closure_write verdict fs s1"
    have s1: "st_data s1 = st_data s" "st_writes s1 = st_writes s" "st_failures s1 = st_failures s"
      using assms(1) [of d s] by (simp_all add: s1_def)
    have run: "retry_busy_loop (closure_write verdict fs) wait (fst ?w) delays (snd ?w) = (r, t)"
      using Cons.prems(1) True e by (simp add: Let_def case_prod_unfold s1_def)
    show ?thesis
    proof (cases "verdict (st_writes s)")
      case None
      then have w: "?w = (None, s1\<lparr>st_writes := st_writes s + 1, st_data := run_txs fs (st_data s)\<rparr>)"
        using s1 by (simp add: closure_write_def Let_def)
      with run have "r = None \<and> t = s1\<lparr>st_writes := st_writes s + 1, st_data := run_txs fs (st_data s)\<rparr>"
        by (cases delays) auto
      with s1 None show ?thesis by (auto intro: partial_runs.none)
    next
      case (Some p)
      then obtain i e' where p: "verdict (st_writes s) = Some (i, e')" by (cases p) auto
      let ?s2 = "s1\<lparr>st_writes := st_writes s + 1, st_data := run_txs (take i fs) (st_data s)\<rparr>"
      have w: "?w = (Some e', ?s2)" using s1 p by (simp add: closure_write_def Let_def)
      note IH = Cons.IH [of "Some e'" ?s2]
      obtain d' where d': "partial_runs verdict fs (run_txs (take i fs) (st_data s)) d'"
        "st_data t = (if r = None then run_txs fs d' else d')" using IH run w by auto
      from partial_runs_attempt_first [OF d'(1) p] d'(2) IH run w s1 p show ?thesis
        by (cases "st_writes t = Suc (st_writes s)") auto
    qed
  qed
qed

lemma storeLive_closure:
  assumes "\<And>d s. st_data (snd (wait d s)) = st_data s \<and> st_writes (snd (wait d s)) = st_writes s
      \<and> st_failures (snd (wait d s)) = st_failures s"
    and "storeLive (closure_write verdict fs) wait s = (ok, t)"
  shows "(\<exists>d. partial_runs verdict fs (st_data s) d \<and> st_data t = (if ok then run_txs fs d else d))
     \<and> st_writes s < st_writes t \<and> st_writes t \<le> st_writes s + 3
     \<and> st_failures t = st_failures s + (if ok then 0 else 1)
     \<and> (ok \<longleftrightarrow> verdict (st_writes t - 1) = None)"
proof (cases "verdict (st_writes s)")
  case None
  then have "closure_write verdict fs s = (None, s\<lparr>st_writes := st_writes s + 1, st_data := run_txs fs (st_data s)\<rparr>)"
    by (simp add: closure_write_def Let_def)
  with assms(2) None show ?thesis
    by (auto simp: storeLive_def retryBusyWithWait_def defaultStoreRetryDelays_def Let_def intro: partial_runs.none)
next
  case (Some p)
  then obtain i e where p: "verdict (st_writes s) = Some (i, e)" by (cases p) auto
  let ?s1 = "s\<lparr>st_writes := st_writes s + 1, st_data := run_txs (take i fs) (st_data s)\<rparr>"
  from p have w: "closure_write verdict fs s = (Some e, ?s1)" by (simp add: closure_write_def Let_def)
  obtain r u where loop: "retry_busy_loop (closure_write verdict fs) wait (Some e) defaultStoreRetryDelays ?s1 = (r, u)"
    by (cases "retry_busy_loop (closure_write verdict fs) wait (Some e) defaultStoreRetryDelays ?s1")
  note eff = retry_busy_loop_effect [OF assms(1) loop]
  obtain d where d: "partial_runs verdict fs (run_txs (take i fs) (st_data s)) d" "st_data u = (if r = None then run_txs fs d else d)"
    using eff by auto
  have num: "Suc (st_writes s) \<le> st_writes u" "st_writes u \<le> st_writes s + 3" "st_failures u = st_failures s"
      "st_writes u = Suc (st_writes s) \<longrightarrow> r = Some e"
      "st_writes u > Suc (st_writes s) \<longrightarrow> r = map_option snd (verdict (st_writes u - 1))"
    using eff by (auto simp: defaultStoreRetryDelays_def)
  have "storeLive (closure_write verdict fs) wait s = (r = None, if r = None then u else u\<lparr>st_failures := st_failures u + 1\<rparr>)"
    using w loop by (auto simp: storeLive_def retryBusyWithWait_def split: option.split)
  with assms(2) num d(2) p partial_runs_attempt_first [OF d(1) p] show ?thesis
    by (cases "st_writes u = Suc (st_writes s)") (auto split: if_splits)
qed

lemma storeLive_effect:
  assumes "\<And>d s. st_data (snd (wait d s)) = st_data s \<and> st_writes (snd (wait d s)) = st_writes s
      \<and> st_failures (snd (wait d s)) = st_failures s"
    and "storeLive (tx_write verdict f) wait s = (ok, t)"
  shows "st_data t = (if ok then f (st_data s) else st_data s)
     \<and> st_writes s < st_writes t \<and> st_writes t \<le> st_writes s + 3
     \<and> st_failures t = st_failures s + (if ok then 0 else 1)
     \<and> (ok \<longleftrightarrow> verdict (st_writes t - 1) = None)"
proof -
  have same: "d' = d" if "partial_runs (map_option (Pair 0) \<circ> verdict) [f] d d'" for d d'
    using that by (induction rule: partial_runs.induct) (auto simp: run_txs_def)
  from storeLive_closure [OF assms(1) assms(2) [unfolded tx_write_def]] show ?thesis
    by (auto simp: run_txs_def dest!: same)
qed


text \<open>A chat row and the message row that refers to it, the message's transaction meeting a busy database
  (\<^verbatim>\<open>SQLITE_BUSY_RECOVERY\<close>, 261) the first time.\<close>

definition sample_closure :: "(string list \<times> string list \<Rightarrow> string list \<times> string list) list" where
  "sample_closure = [\<lambda>(chats, rows). (List.insert ''chat'' chats, rows), \<lambda>(chats, rows). (chats, List.insert ''row'' rows)]"

definition busy_once :: write_verdict where
  "busy_once n = (if n = 0 then Some (1, Some 261) else None)"


end
