(* ===== verification/Chat_Rows.thy ===== *)
theory Chat_Rows
  imports Message_Store "HOL-Library.Multiset"
begin

text \<open>
  The rows of the \<^verbatim>\<open>chats\<close> table and the writes of \<^verbatim>\<open>store.go\<close> on them: \<^verbatim>\<open>storeChatWith\<close> (and
  \<^verbatim>\<open>EnsureChat\<close> through it), \<^verbatim>\<open>markChatReadWith\<close>, \<^verbatim>\<open>UpdateChatEphemeralSettings\<close> and
  \<^verbatim>\<open>ResetSelfNamedChats\<close>. Deliveries, receipts and history chunks reach these writes in any order;
  the theorems say that the markers they merge do not depend on it.
\<close>

record chat_row =
  c_jid :: string
  c_name :: "string option"
  c_last :: "int option"
  c_read :: "int option"
  c_ephemeral :: int
  c_ephemeralAt :: int

definition new_chat :: "string \<Rightarrow> chat_row" where
  "new_chat jid = \<lparr>c_jid = jid, c_name = None, c_last = None, c_read = None, c_ephemeral = 0, c_ephemeralAt = 0\<rparr>"

text \<open>The \<^verbatim>\<open>CASE\<close> both time columns are merged with.\<close>

definition later :: "int option \<Rightarrow> int option \<Rightarrow> int option" where
  "later old new =
     (case old of None \<Rightarrow> new
      | Some a \<Rightarrow> (case new of None \<Rightarrow> old | Some b \<Rightarrow> if b > a then new else old))"

definition merge_chat :: "chat_row \<Rightarrow> chat_row \<Rightarrow> chat_row" where
  "merge_chat old new =
     old\<lparr>c_name := (if c_name new = Some [] then c_name old else c_name new),
         c_last := later (c_last old) (c_last new)\<rparr>"

definition storeChatWith :: "string \<Rightarrow> string \<Rightarrow> instant option \<Rightarrow> chat_row list \<Rightarrow> chat_row list" where
  "storeChatWith jid name lastMessageTime =
     upsert c_jid merge_chat
       ((new_chat jid)\<lparr>c_name := Some name, c_last := map_option dbTime lastMessageTime\<rparr>)"

definition EnsureChat :: "string \<Rightarrow> string \<Rightarrow> chat_row list \<Rightarrow> chat_row list" where
  "EnsureChat jid name = storeChatWith jid name None"

definition merge_read :: "chat_row \<Rightarrow> chat_row \<Rightarrow> chat_row" where
  "merge_read old new = old\<lparr>c_read := later (c_read old) (c_read new)\<rparr>"

definition markChatReadWith :: "string \<Rightarrow> instant \<Rightarrow> chat_row list \<Rightarrow> chat_row list" where
  "markChatReadWith jid readAt = upsert c_jid merge_read ((new_chat jid)\<lparr>c_read := Some (dbTime readAt)\<rparr>)"

definition merge_ephemeral :: "chat_row \<Rightarrow> chat_row \<Rightarrow> chat_row" where
  "merge_ephemeral old new =
     (if c_ephemeralAt new \<ge> c_ephemeralAt old
      then old\<lparr>c_ephemeral := c_ephemeral new, c_ephemeralAt := c_ephemeralAt new\<rparr> else old)"

definition UpdateChatEphemeralSettings :: "string \<Rightarrow> int \<Rightarrow> int \<Rightarrow> chat_row list \<Rightarrow> chat_row list" where
  "UpdateChatEphemeralSettings jid expiration settingTimestamp t =
     (if settingTimestamp = 0 then t
      else upsert c_jid merge_ephemeral
        ((new_chat jid)\<lparr>c_ephemeral := expiration, c_ephemeralAt := settingTimestamp\<rparr>) t)"

record selfUsers =
  phone :: string
  lid :: string

definition chat_user :: "string \<Rightarrow> string" where
  "chat_user jid = before_first CHR ''@'' jid"

definition ResetSelfNamedChats :: "selfUsers \<Rightarrow> chat_row list \<Rightarrow> chat_row list \<times> nat" where
  "ResetSelfNamedChats self t =
     (if phone self = [] then (t, 0)
      else
        let ids = [phone self, if lid self = [] then phone self else lid self];
            hit = (\<lambda>r. (case c_name r of Some n \<Rightarrow> n \<in> set ids | None \<Rightarrow> False)
                     \<and> \<not> has_suffix (ToLower (c_jid r)) ''@g.us''
                     \<and> str_contains (c_jid r) CHR ''@'' \<and> chat_user (c_jid r) \<noteq> []
                     \<and> chat_user (c_jid r) \<notin> set ids)
        in (map (\<lambda>r. if hit r then r\<lparr>c_name := Some (chat_user (c_jid r))\<rparr> else r) t,
            length (filter hit t)))"

interpretation chats: keyed_table c_jid merge_chat
  by unfold_locales (simp add: merge_chat_def)

interpretation reads: keyed_table c_jid merge_read
  by unfold_locales (simp add: merge_read_def)

interpretation ephemerals: keyed_table c_jid merge_ephemeral
  by unfold_locales (simp add: merge_ephemeral_def)

section \<open>Sequences of chat writes\<close>

datatype chat_op =
    StoreChat string string "instant option"
  | MarkChatRead string instant
  | SetEphemeral string int int

fun run_op :: "chat_op \<Rightarrow> chat_row list \<Rightarrow> chat_row list" where
  "run_op (StoreChat jid name tm) t = storeChatWith jid name tm t"
| "run_op (MarkChatRead jid tm) t = markChatReadWith jid tm t"
| "run_op (SetEphemeral jid expiration tm) t = UpdateChatEphemeralSettings jid expiration tm t"

definition last_message_time :: "string \<Rightarrow> chat_row list \<Rightarrow> int option" where
  "last_message_time jid t = Option.bind (row_of c_jid jid t) c_last"

definition last_read_time :: "string \<Rightarrow> chat_row list \<Rightarrow> int option" where
  "last_read_time jid t = Option.bind (row_of c_jid jid t) c_read"

definition ephemeral_time :: "string \<Rightarrow> chat_row list \<Rightarrow> int" where
  "ephemeral_time jid t = (case row_of c_jid jid t of None \<Rightarrow> 0 | Some r \<Rightarrow> c_ephemeralAt r)"

text \<open>The news each write carries for the two time columns.\<close>

fun message_news :: "string \<Rightarrow> chat_op \<Rightarrow> int option" where
  "message_news k (StoreChat jid _ tm) = (if jid = k then map_option dbTime tm else None)"
| "message_news k _ = None"

fun read_news :: "string \<Rightarrow> chat_op \<Rightarrow> int option" where
  "read_news k (MarkChatRead jid tm) = (if jid = k then Some (dbTime tm) else None)"
| "read_news k _ = None"

lemma later_None [simp]: "later None x = x" "later x None = x"
  by (simp_all add: later_def split: option.split)

lemma later_swap: "later (later a b) c = later (later a c) b"
  by (auto simp: later_def split: option.splits if_splits)

lemma new_chat_sel [simp]:
  "c_jid (new_chat j) = j" "c_last (new_chat j) = None" "c_read (new_chat j) = None"
  "c_ephemeralAt (new_chat j) = 0"
  by (simp_all add: new_chat_def)

lemma run_op_keyed: "keyed c_jid t \<Longrightarrow> keyed c_jid (run_op ev t)"
  by (cases ev) (auto simp: storeChatWith_def markChatReadWith_def UpdateChatEphemeralSettings_def
      chats.upsert_keyed reads.upsert_keyed ephemerals.upsert_keyed)

text \<open>The row an upsert leaves under a key, read through one column.\<close>

lemma bind_row_upsert:
  assumes "keyed_table c_jid merge" "keyed c_jid t"
    and "\<And>old. f (merge old row) = g (f old) (f row)" "g None (f row) = f row"
  shows "Option.bind (row_of c_jid k (upsert c_jid merge row t)) f =
     (if k = c_jid row then g (Option.bind (row_of c_jid k t) f) (f row) else Option.bind (row_of c_jid k t) f)"
proof (cases "k = c_jid row")
  case True
  with keyed_table.row_of_upsert_same [OF assms(1,2), of row] assms(3,4) show ?thesis
    by (simp split: option.split)
qed (simp add: keyed_table.row_of_upsert_other [OF assms(1)])

lemmas chat_columns = bind_row_upsert [OF chats.keyed_table_axioms] bind_row_upsert [OF reads.keyed_table_axioms]
  bind_row_upsert [OF ephemerals.keyed_table_axioms]

lemma last_message_time_op:
  assumes "keyed c_jid t"
  shows "last_message_time k (run_op ev t) = later (last_message_time k t) (message_news k ev)"
proof (cases ev)
  case (StoreChat jid name tm)
  let ?row = "(new_chat jid)\<lparr>c_name := Some name, c_last := map_option dbTime tm\<rparr>"
  show ?thesis
    using bind_row_upsert [OF chats.keyed_table_axioms assms, of c_last ?row later k]
    by (simp add: StoreChat storeChatWith_def last_message_time_def merge_chat_def)
next
  case (MarkChatRead jid tm)
  let ?row = "(new_chat jid)\<lparr>c_read := Some (dbTime tm)\<rparr>"
  show ?thesis
    using bind_row_upsert [OF reads.keyed_table_axioms assms, of c_last ?row later k]
    by (simp add: MarkChatRead markChatReadWith_def last_message_time_def merge_read_def)
next
  case (SetEphemeral jid expiration tm)
  let ?row = "(new_chat jid)\<lparr>c_ephemeral := expiration, c_ephemeralAt := tm\<rparr>"
  show ?thesis
    using bind_row_upsert [OF ephemerals.keyed_table_axioms assms, of c_last ?row later k]
    by (simp add: SetEphemeral UpdateChatEphemeralSettings_def last_message_time_def merge_ephemeral_def)
qed

lemma last_read_time_op:
  assumes "keyed c_jid t"
  shows "last_read_time k (run_op ev t) = later (last_read_time k t) (read_news k ev)"
proof (cases ev)
  case (StoreChat jid name tm)
  let ?row = "(new_chat jid)\<lparr>c_name := Some name, c_last := map_option dbTime tm\<rparr>"
  show ?thesis
    using bind_row_upsert [OF chats.keyed_table_axioms assms, of c_read ?row later k]
    by (simp add: StoreChat storeChatWith_def last_read_time_def merge_chat_def)
next
  case (MarkChatRead jid tm)
  let ?row = "(new_chat jid)\<lparr>c_read := Some (dbTime tm)\<rparr>"
  show ?thesis
    using bind_row_upsert [OF reads.keyed_table_axioms assms, of c_read ?row later k]
    by (simp add: MarkChatRead markChatReadWith_def last_read_time_def merge_read_def)
next
  case (SetEphemeral jid expiration tm)
  let ?row = "(new_chat jid)\<lparr>c_ephemeral := expiration, c_ephemeralAt := tm\<rparr>"
  show ?thesis
    using bind_row_upsert [OF ephemerals.keyed_table_axioms assms, of c_read ?row later k]
    by (simp add: SetEphemeral UpdateChatEphemeralSettings_def last_read_time_def merge_ephemeral_def)
qed

lemma run_chat_ops:
  assumes "keyed c_jid t"
  shows "keyed c_jid (fold run_op evs t)"
    and "last_message_time k (fold run_op evs t) = fold (\<lambda>ev a. later a (message_news k ev)) evs (last_message_time k t)"
    and "last_read_time k (fold run_op evs t) = fold (\<lambda>ev a. later a (read_news k ev)) evs (last_read_time k t)"
proof -
  have "keyed c_jid (fold run_op evs t)
      \<and> last_message_time k (fold run_op evs t) = fold (\<lambda>ev a. later a (message_news k ev)) evs (last_message_time k t)
      \<and> last_read_time k (fold run_op evs t) = fold (\<lambda>ev a. later a (read_news k ev)) evs (last_read_time k t)"
    using assms
  proof (induction evs arbitrary: t)
    case (Cons ev evs)
    then show ?case
      using Cons.IH [OF run_op_keyed [OF Cons.prems, of ev]]
      by (simp add: last_message_time_op [OF Cons.prems] last_read_time_op [OF Cons.prems])
  qed simp
  then show "keyed c_jid (fold run_op evs t)"
    and "last_message_time k (fold run_op evs t) = fold (\<lambda>ev a. later a (message_news k ev)) evs (last_message_time k t)"
    and "last_read_time k (fold run_op evs t) = fold (\<lambda>ev a. later a (read_news k ev)) evs (last_read_time k t)"
    by blast+
qed

text \<open>C35. Out-of-order delivery cannot change what a chat shows as its last activity or as read:
  applying the same deliveries, read receipts and timer changes in any order to a chat table gives
  every chat the same last message time and the same read marker.\<close>

theorem chat_times_order_independent:
  assumes "keyed c_jid t" and "mset evs = mset evs'"
  shows "last_message_time k (fold run_op evs t) = last_message_time k (fold run_op evs' t)
     \<and> last_read_time k (fold run_op evs t) = last_read_time k (fold run_op evs' t)"
proof -
  have comm: "fold (\<lambda>ev a. later a (f ev)) evs = fold (\<lambda>ev a. later a (f ev)) evs'"
    for f :: "chat_op \<Rightarrow> int option"
    using assms(2) by (rule fold_multiset_equiv [rotated]) (simp add: fun_eq_iff later_swap)
  show ?thesis
    by (simp add: run_chat_ops [OF assms(1)] comm [of "message_news k"] comm [of "read_news k"])
qed

theorem chat_times_order_independent_witness:
  "last_message_time ''5511@s.whatsapp.net'' (fold run_op
      [StoreChat ''5511@s.whatsapp.net'' ''Ana'' (Some 7000000000), StoreChat ''5511@s.whatsapp.net'' [] (Some 5000000000)] [])
   = last_message_time ''5511@s.whatsapp.net'' (fold run_op
      [StoreChat ''5511@s.whatsapp.net'' [] (Some 5000000000), StoreChat ''5511@s.whatsapp.net'' ''Ana'' (Some 7000000000)] [])
   \<and> last_message_time ''5511@s.whatsapp.net'' (fold run_op
      [StoreChat ''5511@s.whatsapp.net'' ''Ana'' (Some 7000000000), StoreChat ''5511@s.whatsapp.net'' [] (Some 5000000000)] [])
     = Some 7"
proof -
  let ?a = "StoreChat ''5511@s.whatsapp.net'' ''Ana'' (Some 7000000000)"
  let ?b = "StoreChat ''5511@s.whatsapp.net'' [] (Some 5000000000)"
  have "last_message_time ''5511@s.whatsapp.net'' (fold run_op [?a, ?b] []) = Some 7" by code_simp
  with chat_times_order_independent [OF keyed_Nil, of "[?a, ?b]" "[?b, ?a]" "''5511@s.whatsapp.net''"]
  show ?thesis by simp
qed

text \<open>Resetting chats named after the own number is a one-time repair: it renames only a direct
  chat that carries one of our own identities and is not our own chat, to its own user part, leaves
  every other column and row alone, and a second run finds nothing.\<close>

lemma ResetSelfNamedChats_once:
  "let t' = fst (ResetSelfNamedChats self t)
   in ResetSelfNamedChats self t' = (t', 0)
      \<and> list_all2 (\<lambda>old new. new = old \<or>
           (new = old\<lparr>c_name := Some (chat_user (c_jid old))\<rparr>
            \<and> c_name old \<in> {Some (phone self), Some (lid self)}
            \<and> chat_user (c_jid old) \<noteq> phone self \<and> chat_user (c_jid old) \<noteq> lid self
            \<and> \<not> has_suffix (ToLower (c_jid old)) ''@g.us'')) t t'"
proof (cases "phone self = []")
  case True
  then show ?thesis by (simp add: ResetSelfNamedChats_def list_all2_same)
next
  case False
  show ?thesis
  proof (cases "lid self = []")
    case True
    with False show ?thesis
      by (induction t) (auto simp: ResetSelfNamedChats_def Let_def split: option.splits)
  next
    case lid: False
    with False show ?thesis
      by (induction t) (auto simp: ResetSelfNamedChats_def Let_def split: option.splits)
  qed
qed

end
