(* ===== verification/Sender_Namespace.thy ===== *)
theory Sender_Namespace
  imports Chat_Rows
begin

text \<open>
  The backfill of sender namespaces (\<^verbatim>\<open>sender_namespace.go\<close>): rows stored before
  \<^verbatim>\<open>messages.sender_server\<close> existed are classified at startup from the SDK's LID map and contact
  list, the bridge's own chats, and last the length of the number. The rules are SQL updates that
  run in order in one transaction, each on the rows still unclassified.
\<close>

text \<open>What the attached session database holds: the LID map as pairs of a LID and a phone number, and the
  JIDs of the contact list; either table may be missing, and so may the database.\<close>

record session_tables =
  st_lidMap :: "(string \<times> string) list option"
  st_contacts :: "string list option"

record senderNamespaceClass =
  nc_name :: string
  nc_server :: string
  nc_where :: "string \<Rightarrow> bool"

definition legacySenderDigits :: "nat list" where
  "legacySenderDigits = [14, 15]"

definition knownJIDEvidence :: "chat_row list \<Rightarrow> string list option \<Rightarrow> string \<Rightarrow> string \<Rightarrow> bool" where
  "knownJIDEvidence chats contacts sfx sender \<longleftrightarrow>
     list_ex (\<lambda>c. c_jid c = sender @ sfx) chats
     \<or> (case contacts of None \<Rightarrow> False | Some ks \<Rightarrow> list_ex (\<lambda>k. k = sender @ sfx) ks)"

definition senderNamespaceClasses :: "chat_row list \<Rightarrow> session_tables \<Rightarrow> senderNamespaceClass list" where
  "senderNamespaceClasses chats s =
     (case st_lidMap s of
        None \<Rightarrow> []
      | Some pairs \<Rightarrow>
          [\<lparr>nc_name = ''lid_map'', nc_server = HiddenUserServer,
            nc_where = (\<lambda>sender. list_ex (\<lambda>(lid, pn). lid \<noteq> [] \<and> lid = sender) pairs)\<rparr>,
           \<lparr>nc_name = ''phone_map'', nc_server = DefaultUserServer,
            nc_where = (\<lambda>sender. list_ex (\<lambda>(lid, pn). pn \<noteq> [] \<and> pn = sender) pairs)\<rparr>])
     @ [\<lparr>nc_name = ''lid_known'', nc_server = HiddenUserServer, nc_where = knownJIDEvidence chats (st_contacts s) ''@lid''\<rparr>,
        \<lparr>nc_name = ''phone_known'', nc_server = DefaultUserServer,
         nc_where = knownJIDEvidence chats (st_contacts s) ''@s.whatsapp.net''\<rparr>,
        \<lparr>nc_name = ''lid_by_length'', nc_server = HiddenUserServer,
         nc_where = (\<lambda>sender. list_ex (\<lambda>n. length sender = n \<and> list_all is_digit sender) legacySenderDigits)\<rparr>]"

text \<open>One \<^verbatim>\<open>UPDATE\<close>, with the number of rows it changes.\<close>

definition classifies :: "senderNamespaceClass \<Rightarrow> message_row \<Rightarrow> bool" where
  "classifies c r \<longleftrightarrow> m_server r = None \<and> (case m_sender r of None \<Rightarrow> False | Some s \<Rightarrow> s \<noteq> [] \<and> nc_where c s)"

definition backfill :: "senderNamespaceClass \<Rightarrow> message_row list \<Rightarrow> message_row list \<times> nat" where
  "backfill c t =
     (map (\<lambda>r. if classifies c r then r\<lparr>m_server := Some (nc_server c)\<rparr> else r) t, length (filter (classifies c) t))"

definition hasUnclassifiedSenders :: "message_row list \<Rightarrow> bool" where
  "hasUnclassifiedSenders t \<longleftrightarrow> list_ex (\<lambda>r. m_server r = None) t"

datatype backfill_error = StatFailed | AttachFailed | UpdateFailed string | CountFailed | CommitFailed

text \<open>The environment of one run: whether the session database's file is there, which operation fails.\<close>

record backfill_env =
  be_database :: bool
  be_tables :: session_tables
  be_statFails :: bool
  be_attachFails :: bool
  be_updateFails :: "string \<Rightarrow> bool"
  be_countFails :: bool
  be_commitFails :: bool

fun backfill_all :: "(string \<Rightarrow> bool) \<Rightarrow> senderNamespaceClass list \<Rightarrow> message_row list
    \<Rightarrow> backfill_error + message_row list \<times> nat list" where
  "backfill_all fails [] t = Inr (t, [])"
| "backfill_all fails (c # cs) t =
     (if fails (nc_name c) then Inl (UpdateFailed (nc_name c))
      else case backfill_all fails cs (fst (backfill c t)) of
        Inl e \<Rightarrow> Inl e
      | Inr (t', counts) \<Rightarrow> Inr (t', snd (backfill c t) # counts))"

text \<open>A run returns the error, if any, and the archive: a rolled-back transaction leaves it as it was.\<close>

definition MigrateSenderNamespaces ::
    "backfill_env \<Rightarrow> chat_row list \<Rightarrow> message_row list \<Rightarrow> backfill_error option \<times> message_row list" where
  "MigrateSenderNamespaces e chats t =
     (if \<not> hasUnclassifiedSenders t then (None, t)
      else if be_statFails e then (Some StatFailed, t)
      else if be_database e \<and> be_attachFails e then (Some AttachFailed, t)
      else let tables = (if be_database e then be_tables e else \<lparr>st_lidMap = None, st_contacts = None\<rparr>)
           in case backfill_all (be_updateFails e) (senderNamespaceClasses chats tables) t of
                Inl err \<Rightarrow> (Some err, t)
              | Inr (t', counts) \<Rightarrow>
                  if be_countFails e then (Some CountFailed, t)
                  else if be_commitFails e then (Some CommitFailed, t)
                  else (None, t'))"

section \<open>Classification row by row\<close>

text \<open>The reference: the first rule that matches a row decides it.\<close>

definition first_class :: "senderNamespaceClass list \<Rightarrow> message_row \<Rightarrow> message_row" where
  "first_class cs r = (case List.find (\<lambda>c. classifies c r) cs of None \<Rightarrow> r | Some c \<Rightarrow> r\<lparr>m_server := Some (nc_server c)\<rparr>)"

lemma classified_stays: "m_server r \<noteq> None \<Longrightarrow> first_class cs r = r"
  by (induction cs) (auto simp: first_class_def classifies_def)

lemma backfill_all_first:
  assumes "backfill_all fails cs t = Inr (t', counts)"
  shows "t' = map (first_class cs) t"
  using assms
proof (induction cs arbitrary: t t' counts)
  case Nil
  then show ?case by (simp add: first_class_def)
next
  case (Cons c cs)
  then obtain counts' where "backfill_all fails cs (fst (backfill c t)) = Inr (t', counts')"
    by (auto split: if_splits sum.splits)
  from Cons.IH [OF this] have "t' = map (first_class cs) (fst (backfill c t))" .
  moreover have "first_class cs (if classifies c r then r\<lparr>m_server := Some (nc_server c)\<rparr> else r) = first_class (c # cs) r" for r
  proof (cases "classifies c r")
    case True
    then show ?thesis using classified_stays [of "r\<lparr>m_server := Some (nc_server c)\<rparr>" cs] by (simp add: first_class_def)
  qed (simp add: first_class_def)
  ultimately show ?case by (simp add: backfill_def)
qed

lemma classifies_cong: "m_server r' = m_server r \<Longrightarrow> m_sender r' = m_sender r \<Longrightarrow> classifies c r' = classifies c r"
  by (simp add: classifies_def)

lemma first_class_idem: "first_class cs (first_class cs r) = first_class cs r"
proof (cases "List.find (\<lambda>c. classifies c r) cs")
  case None
  then show ?thesis by (simp add: first_class_def)
next
  case (Some c)
  then have "m_server (first_class cs r) \<noteq> None" by (simp add: first_class_def)
  then show ?thesis by (rule classified_stays)
qed

text \<open>The backfill says only what there is evidence for, best evidence first, and never changes its mind: a
  successful run leaves every column but the namespace and every row with a namespace alone, and gives
  an unclassified row the namespace of the first rule that knows its sender (the LID map, then known
  chats and contacts, then the length); running it again changes nothing; and a run that fails
  anywhere leaves the archive as it was.\<close>

lemma sender_backfill_by_evidence:
  "case MigrateSenderNamespaces e chats t of
     (Some err, t') \<Rightarrow> t' = t
   | (None, t') \<Rightarrow>
       t' = map (first_class (senderNamespaceClasses chats
              (if be_database e then be_tables e else \<lparr>st_lidMap = None, st_contacts = None\<rparr>))) t
       \<and> list_all2 (\<lambda>old new. new = old \<or> m_server old = None \<and> new = old\<lparr>m_server := m_server new\<rparr>) t t'
       \<and> snd (MigrateSenderNamespaces e chats t') = t'"
proof -
  let ?cs = "senderNamespaceClasses chats (if be_database e then be_tables e else \<lparr>st_lidMap = None, st_contacts = None\<rparr>)"
  have run: "MigrateSenderNamespaces e chats t = (None, map (first_class ?cs) t)
      \<or> (\<exists>err. MigrateSenderNamespaces e chats t = (Some err, t))" for t
  proof (cases "hasUnclassifiedSenders t")
    case False
    then have "map (first_class ?cs) t = t"
      by (auto simp: hasUnclassifiedSenders_def list_ex_iff intro!: map_idI classified_stays)
    with False show ?thesis by (simp add: MigrateSenderNamespaces_def)
  next
    case True
    then show ?thesis
      by (auto simp: MigrateSenderNamespaces_def Let_def dest: backfill_all_first split: sum.splits)
  qed
  have "list_all2 (\<lambda>old new. new = old \<or> m_server old = None \<and> new = old\<lparr>m_server := m_server new\<rparr>) t (map (first_class ?cs) t)"
    by (auto simp: list_all2_map2 first_class_def classifies_def find_Some_iff intro!: list_all2_refl split: option.splits)
  moreover have "map (first_class ?cs) (map (first_class ?cs) t) = map (first_class ?cs) t" by (simp add: first_class_idem)
  ultimately show ?thesis using run [of t] run [of "map (first_class ?cs) t"] by (auto split: option.splits)
qed

end
