(* ===== verification/Connection_Problem.thy ===== *)
theory Connection_Problem
  imports Chat_Policy
begin

text \<open>
  Account restrictions and unlinks reported by WhatsApp (\<^verbatim>\<open>connection_problem.go\<close>): how a server
  code becomes a \<^verbatim>\<open>ConnectionProblem\<close>, how the current one is replaced, saved in the store directory,
  read back at startup, cleared and acknowledged, and the gate every dial waits at. The snapshots are
  immutable objects that the code compares by address, so the state holds a snapshot together with
  its address. Each operation takes the faults of the disk operations it performs as an argument;
  log lines are left out.
\<close>

section \<open>Problems\<close>

record ConnectionProblem =
  UnlinkedAt :: "instant option"
  RevokedDevice :: string
  SessionRemoved :: bool
  Kind :: string
  Code :: int
  TempBanReason :: int
  ExpiresAt :: "instant option"
  Since :: instant
  BuildVersion :: string

text \<open>The zero \<^verbatim>\<open>time.Time\<close>, January 1 of the year 1.\<close>

definition zero_time :: instant where "zero_time = - 62135596800 * second"

definition problem_kind :: "int \<Rightarrow> string" where
  "problem_kind code =
     (if code = 401 then ''unlinked''
      else if code = 402 then ''temporarily_banned''
      else if code = 403 then ''locked''
      else if code = 405 then ''client_outdated''
      else if code = 406 then ''banned''
      else if 500 \<le> code \<and> code < 600 then ''server_error'' else ''other'')"

definition classifyConnectionProblem :: "string \<Rightarrow> int \<Rightarrow> int \<Rightarrow> duration \<Rightarrow> instant \<Rightarrow> ConnectionProblem" where
  "classifyConnectionProblem build code reason expire now =
     \<lparr>UnlinkedAt = None, RevokedDevice = [], SessionRemoved = False, Kind = problem_kind code, Code = code,
      TempBanReason = reason,
      ExpiresAt = (if code = 402 then Some (now + (if expire \<le> 0 then hour else expire)) else None),
      Since = now, BuildVersion = (if code = 405 then build else [])\<rparr>"

definition generic_problem :: "int \<Rightarrow> instant \<Rightarrow> ConnectionProblem" where
  "generic_problem code now =
     \<lparr>UnlinkedAt = None, RevokedDevice = [], SessionRemoved = False, Kind = ''other'', Code = code,
      TempBanReason = 0, ExpiresAt = None, Since = now, BuildVersion = []\<rparr>"

definition restrictsAccount :: "ConnectionProblem \<Rightarrow> bool" where
  "restrictsAccount p \<longleftrightarrow> Kind p = ''temporarily_banned'' \<or> Kind p = ''banned'' \<or> Kind p = ''locked''
     \<or> Kind p = ''client_outdated''"

definition restrictsAccountAt :: "ConnectionProblem \<Rightarrow> instant \<Rightarrow> bool" where
  "restrictsAccountAt p now \<longleftrightarrow> restrictsAccount p \<and>
     (Kind p \<noteq> ''temporarily_banned'' \<or> (case ExpiresAt p of None \<Rightarrow> True | Some e \<Rightarrow> now < e))"

definition isUnlinked :: "ConnectionProblem \<Rightarrow> bool" where
  "isUnlinked p \<longleftrightarrow> Kind p = ''unlinked'' \<or> UnlinkedAt p \<noteq> None"

definition unlinkOnly :: "ConnectionProblem \<Rightarrow> ConnectionProblem" where
  "unlinkOnly p = p\<lparr>Kind := ''unlinked'', Code := 401, TempBanReason := 0, ExpiresAt := None, BuildVersion := [],
     Since := (case UnlinkedAt p of None \<Rightarrow> Since p | Some u \<Rightarrow> u)\<rparr>"

text \<open>The methods have a pointer receiver and answer no for \<^verbatim>\<open>nil\<close>.\<close>

definition held :: "(ConnectionProblem \<Rightarrow> bool) \<Rightarrow> (nat \<times> ConnectionProblem) option \<Rightarrow> bool" where
  "held P s \<longleftrightarrow> (case s of None \<Rightarrow> False | Some (_, p) \<Rightarrow> P p)"

section \<open>The saved problem\<close>

text \<open>The file is a JSON object. A document is the list of its members; a JSON string in RFC 3339 form
  is a \<open>JTime\<close>. Members follow the struct tags: \<^verbatim>\<open>omitempty\<close> drops false, zero, nil and empty values.\<close>

datatype jvalue = JText string | JInt int | JBool bool | JTime instant

type_synonym doc = "(string \<times> jvalue) list"

definition problem_doc :: "ConnectionProblem \<Rightarrow> doc" where
  "problem_doc p =
     (case UnlinkedAt p of None \<Rightarrow> [] | Some u \<Rightarrow> [(''unlinked_at'', JTime u)])
     @ (if SessionRemoved p then [(''session_removed'', JBool True)] else [])
     @ [(''kind'', JText (Kind p)), (''code'', JInt (Code p))]
     @ (if TempBanReason p \<noteq> 0 then [(''temp_ban_reason'', JInt (TempBanReason p))] else [])
     @ (case ExpiresAt p of None \<Rightarrow> [] | Some e \<Rightarrow> [(''expires_at'', JTime e)])
     @ [(''since'', JTime (Since p))]
     @ (if BuildVersion p \<noteq> [] then [(''build_version'', JText (BuildVersion p))] else [])
     @ (if RevokedDevice p \<noteq> [] then [(''revoked_device'', JText (RevokedDevice p))] else [])"

text \<open>\<^verbatim>\<open>json.Unmarshal\<close>: an unknown member is skipped, a member of the wrong type is an error, a later
  member wins over an earlier one.\<close>

fun set_member :: "string \<times> jvalue \<Rightarrow> ConnectionProblem \<Rightarrow> ConnectionProblem option" where
  "set_member (k, v) p =
     (if k = ''unlinked_at'' then (case v of JTime t \<Rightarrow> Some (p\<lparr>UnlinkedAt := Some t\<rparr>) | _ \<Rightarrow> None)
      else if k = ''session_removed'' then (case v of JBool b \<Rightarrow> Some (p\<lparr>SessionRemoved := b\<rparr>) | _ \<Rightarrow> None)
      else if k = ''kind'' then (case v of JText s \<Rightarrow> Some (p\<lparr>Kind := s\<rparr>) | _ \<Rightarrow> None)
      else if k = ''code'' then (case v of JInt i \<Rightarrow> Some (p\<lparr>Code := i\<rparr>) | _ \<Rightarrow> None)
      else if k = ''temp_ban_reason'' then (case v of JInt i \<Rightarrow> Some (p\<lparr>TempBanReason := i\<rparr>) | _ \<Rightarrow> None)
      else if k = ''expires_at'' then (case v of JTime t \<Rightarrow> Some (p\<lparr>ExpiresAt := Some t\<rparr>) | _ \<Rightarrow> None)
      else if k = ''since'' then (case v of JTime t \<Rightarrow> Some (p\<lparr>Since := t\<rparr>) | _ \<Rightarrow> None)
      else if k = ''build_version'' then (case v of JText s \<Rightarrow> Some (p\<lparr>BuildVersion := s\<rparr>) | _ \<Rightarrow> None)
      else if k = ''revoked_device'' then (case v of JText s \<Rightarrow> Some (p\<lparr>RevokedDevice := s\<rparr>) | _ \<Rightarrow> None)
      else Some p)"

fun set_members :: "doc \<Rightarrow> ConnectionProblem \<Rightarrow> ConnectionProblem option" where
  "set_members [] p = Some p"
| "set_members (m # ms) p = (case set_member m p of None \<Rightarrow> None | Some q \<Rightarrow> set_members ms q)"

definition doc_problem :: "doc \<Rightarrow> ConnectionProblem option" where
  "doc_problem d = set_members d
     \<lparr>UnlinkedAt = None, RevokedDevice = [], SessionRemoved = False, Kind = [], Code = 0, TempBanReason = 0,
      ExpiresAt = None, Since = zero_time, BuildVersion = []\<rparr>"

text \<open>The store directory as far as this component uses it: the saved file, of any kind and content (no
  document when its bytes are not a JSON object), and a leftover of an interrupted write.\<close>

record saved_file =
  fl_regular :: bool
  fl_size :: nat
  fl_doc :: "doc option"

record store_dir =
  sd_saved :: "saved_file option"
  sd_part :: bool

datatype disk_error = RemoveFailed | OpenFailed | WriteFailed | RenameFailed

record write_faults =
  wf_remove :: bool
  wf_open :: bool
  wf_write :: bool
  wf_cleanup :: bool
  wf_rename :: bool

definition no_faults :: write_faults where
  "no_faults = \<lparr>wf_remove = False, wf_open = False, wf_write = False, wf_cleanup = False, wf_rename = False\<rparr>"

text \<open>\<open>len\<close> is the number of bytes the encoder writes for a document. The deferred removal of the part
  file runs after every outcome of the write; after a successful rename there is no such file.\<close>

definition writeConnectionProblem ::
    "(doc \<Rightarrow> nat) \<Rightarrow> write_faults \<Rightarrow> ConnectionProblem \<Rightarrow> store_dir \<Rightarrow> disk_error option \<times> store_dir" where
  "writeConnectionProblem len f p d =
     (if wf_remove f then (Some RemoveFailed, d)
      else if wf_open f then (Some OpenFailed, d\<lparr>sd_part := False\<rparr>)
      else if wf_write f then (Some WriteFailed, d\<lparr>sd_part := wf_cleanup f\<rparr>)
      else if wf_rename f then (Some RenameFailed, d\<lparr>sd_part := wf_cleanup f\<rparr>)
      else (None, d\<lparr>sd_saved := Some \<lparr>fl_regular = True, fl_size = len (problem_doc p), fl_doc = Some (problem_doc p)\<rparr>,
                    sd_part := False\<rparr>))"

datatype read_error = LstatFailed | NotRegular | OpenRefused | ChangedWhileOpening | ReadFailed
  | InvalidSaved | InvalidUnlinkTime | InvalidRevokedDevice | InvalidClassification | ReleaseFailed disk_error

definition clearOutdatedBuildProblem ::
    "(doc \<Rightarrow> nat) \<Rightarrow> write_faults \<Rightarrow> bool \<Rightarrow> string \<Rightarrow> ConnectionProblem \<Rightarrow> store_dir
      \<Rightarrow> (read_error + ConnectionProblem option) \<times> store_dir" where
  "clearOutdatedBuildProblem len f removeFails runningBuild p d =
     (if Kind p = ''client_outdated'' \<and> BuildVersion p \<noteq> runningBuild then
        (if isUnlinked p then
           (case writeConnectionProblem len f (unlinkOnly p) d of
              (Some e, d') \<Rightarrow> (Inl (ReleaseFailed e), d')
            | (None, d') \<Rightarrow> (Inr (Some (unlinkOnly p)), d'))
         else if removeFails then (Inl (ReleaseFailed RemoveFailed), d)
         else (Inr None, d\<lparr>sd_saved := None\<rparr>))
      else (Inr (Some p), d))"

record read_faults =
  rf_lstat :: bool
  rf_open :: bool
  rf_changed :: bool
  rf_read :: bool

definition revoked_ok :: "jid_sdk \<Rightarrow> string \<Rightarrow> bool" where
  "revoked_ok sdk device \<longleftrightarrow> device = [] \<or>
     (case ParseJID sdk device of None \<Rightarrow> False | Some j \<Rightarrow> \<not> IsEmpty sdk j \<and> JIDString sdk j = device)"

definition readConnectionProblem ::
    "jid_sdk \<Rightarrow> (doc \<Rightarrow> nat) \<Rightarrow> read_faults \<Rightarrow> write_faults \<Rightarrow> bool \<Rightarrow> string \<Rightarrow> store_dir
      \<Rightarrow> (read_error + ConnectionProblem option) \<times> store_dir" where
  "readConnectionProblem sdk len rf f removeFails build d =
     (if rf_lstat rf then (Inl LstatFailed, d)
      else case sd_saved d of
        None \<Rightarrow> (Inr None, d)
      | Some fl \<Rightarrow>
          if \<not> fl_regular fl then (Inl NotRegular, d)
          else if rf_open rf then (Inl OpenRefused, d)
          else if rf_changed rf then (Inl ChangedWhileOpening, d)
          else if rf_read rf then (Inl ReadFailed, d)
          else if fl_size fl > 4096 then (Inl InvalidSaved, d)
          else case Option.bind (fl_doc fl) doc_problem of
            None \<Rightarrow> (Inl InvalidSaved, d)
          | Some p \<Rightarrow>
              if Since p = zero_time then (Inl InvalidSaved, d)
              else if UnlinkedAt p = Some zero_time then (Inl InvalidUnlinkTime, d)
              else if \<not> revoked_ok sdk (RevokedDevice p) then (Inl InvalidRevokedDevice, d)
              else if Kind p \<noteq> Kind (classifyConnectionProblem build (Code p) (TempBanReason p) hour (Since p))
                      \<or> Kind p = ''temporarily_banned'' \<and> ExpiresAt p = None
              then (Inl InvalidClassification, d)
              else clearOutdatedBuildProblem len f removeFails build p d)"

section \<open>The bridge's connection state\<close>

text \<open>The fields of \<^verbatim>\<open>Bridge\<close> this component owns: the current snapshot with its address, the next free
  address, the pairing state, whether the last write of a problem failed, the generation of the
  \<^verbatim>\<open>connectionChanged\<close> channel, whether the current client was retired by an unlink, the operator's
  logout, the paired device, the temporary bans counted per reason, and the store directory, absent
  without a store root.\<close>

record conn =
  cn_problem :: "(nat \<times> ConnectionProblem) option"
  cn_fresh :: nat
  cn_pairing :: string
  cn_failed :: bool
  cn_changed :: nat
  cn_retired :: bool
  cn_logout :: bool
  cn_device :: "string option"
  cn_tempBans :: "int \<Rightarrow> int"
  cn_dir :: "store_dir option"

record conn_env =
  ce_now :: instant
  ce_build :: string
  ce_len :: "doc \<Rightarrow> nat"
  ce_faults :: write_faults
  ce_removeFails :: bool

definition connectionChangedLocked :: "conn \<Rightarrow> conn" where
  "connectionChangedLocked c = c\<lparr>cn_changed := cn_changed c + 1\<rparr>"

text \<open>Publishing a new snapshot allocates it.\<close>

definition publish :: "ConnectionProblem \<Rightarrow> conn \<Rightarrow> conn" where
  "publish p c = connectionChangedLocked (c\<lparr>cn_problem := Some (cn_fresh c, p), cn_fresh := cn_fresh c + 1\<rparr>)"

definition persistConnectionSnapshot :: "conn_env \<Rightarrow> ConnectionProblem \<Rightarrow> conn \<Rightarrow> bool \<times> conn" where
  "persistConnectionSnapshot e p c =
     (case cn_dir c of
        None \<Rightarrow> (True, c)
      | Some d \<Rightarrow> (case writeConnectionProblem (ce_len e) (ce_faults e) p d of
          (err, d') \<Rightarrow> (err = None, c\<lparr>cn_dir := Some d', cn_failed := err \<noteq> None\<rparr>)))"

definition ban_reason :: "int \<Rightarrow> int" where
  "ban_reason reason = (if reason \<in> {101, 102, 103, 104, 106} then reason else 0)"

definition inherit_unlink :: "ConnectionProblem \<Rightarrow> ConnectionProblem \<Rightarrow> ConnectionProblem" where
  "inherit_unlink previous next =
     next\<lparr>UnlinkedAt := (case UnlinkedAt previous of None \<Rightarrow> Some (Since previous) | Some u \<Rightarrow> Some u),
          RevokedDevice := RevokedDevice previous, SessionRemoved := SessionRemoved previous\<rparr>"

text \<open>The snapshot that replaces the current one, or nothing when the current one stays.\<close>

definition next_problem ::
    "conn_env \<Rightarrow> int \<Rightarrow> int \<Rightarrow> duration \<Rightarrow> bool \<Rightarrow> conn \<Rightarrow> ConnectionProblem option" where
  "next_problem e code reason expire persistent c =
     (let fresh = (if persistent then classifyConnectionProblem (ce_build e) code reason expire (ce_now e)
                   else generic_problem code (ce_now e));
          unlink = (\<lambda>p. if code = 401 \<and> persistent
             then p\<lparr>UnlinkedAt := Some (ce_now e), SessionRemoved := False,
                    RevokedDevice := (case cn_device c of None \<Rightarrow> [] | Some i \<Rightarrow> i)\<rparr>
             else p)
      in case cn_problem c of
           None \<Rightarrow> Some (unlink fresh)
         | Some (_, previous) \<Rightarrow>
             let keeps = (\<not> restrictsAccount fresh \<and> restrictsAccount previous);
                 next = (if keeps then previous else fresh)
             in if keeps \<and> code \<noteq> 401 then None
                else if (code \<noteq> 401 \<or> \<not> persistent) \<and> isUnlinked previous then
                  (if \<not> restrictsAccount next \<and> cn_retired c then None
                   else Some (unlink (inherit_unlink previous next)))
                else Some (unlink next))"

definition recordConnectionProblemStateIf ::
    "conn_env \<Rightarrow> int \<Rightarrow> int \<Rightarrow> duration \<Rightarrow> bool \<Rightarrow> bool \<Rightarrow> conn \<Rightarrow> (nat \<times> ConnectionProblem) option \<times> conn" where
  "recordConnectionProblemStateIf e code reason expire active persistent c =
     (if \<not> active then (None, c)
      else case next_problem e code reason expire persistent c of
        None \<Rightarrow> (cn_problem c, c)
      | Some next \<Rightarrow>
          let c1 = publish next c;
              c2 = (if code = 402 \<and> persistent
                    then c1\<lparr>cn_tempBans := (cn_tempBans c1)(ban_reason reason := cn_tempBans c1 (ban_reason reason) + 1)\<rparr>
                    else c1);
              c3 = (if persistent then snd (persistConnectionSnapshot e next c2) else c2)
          in (cn_problem c1, c3))"

definition recordConnectionProblem ::
    "conn_env \<Rightarrow> int \<Rightarrow> int \<Rightarrow> duration \<Rightarrow> conn \<Rightarrow> (nat \<times> ConnectionProblem) option \<times> conn" where
  "recordConnectionProblem e code reason expire c = recordConnectionProblemStateIf e code reason expire True True c"

text \<open>The logger that observes the SDK's warnings: it matches a constant format and a typed argument.\<close>

datatype log_arg = ArgInt int | ArgOther

definition generic_format :: string where
  "generic_format = ''Got %d/%s connect failure, assuming automatic reconnect will handle it''"

definition stream_format :: string where
  "stream_format = ''Got 503 stream error, assuming automatic reconnect will handle it''"

definition Warnf :: "conn_env \<Rightarrow> bool \<Rightarrow> string \<Rightarrow> log_arg list \<Rightarrow> conn \<Rightarrow> conn" where
  "Warnf e active format args c =
     (if \<not> active then c
      else if format = generic_format \<and> length args = 2 then
        (case args ! 0 of
           ArgInt code \<Rightarrow>
             if code \<noteq> 500 \<and> code \<noteq> 503 then snd (recordConnectionProblemStateIf e code 0 0 active False c)
             else snd (recordConnectionProblemStateIf e code 0 0 active True c)
         | ArgOther \<Rightarrow> c)
      else if format = stream_format \<and> args = [] then snd (recordConnectionProblemStateIf e 503 0 0 active True c)
      else c)"

definition persistConnectionProblemIf ::
    "conn_env \<Rightarrow> (nat \<times> ConnectionProblem) option \<Rightarrow> conn \<Rightarrow> bool \<times> conn" where
  "persistConnectionProblemIf e expected c =
     (if cn_problem c \<noteq> expected then (False, c)
      else (True, case expected of None \<Rightarrow> c | Some (_, p) \<Rightarrow> snd (persistConnectionSnapshot e p c)))"

definition clearConnectionSnapshot :: "conn_env \<Rightarrow> bool \<Rightarrow> conn \<Rightarrow> conn" where
  "clearConnectionSnapshot e keepOperatorIdle c =
     (if cn_dir c \<noteq> None \<and> ce_removeFails e then c\<lparr>cn_failed := True\<rparr>
      else connectionChangedLocked
        (c\<lparr>cn_dir := map_option (\<lambda>d. d\<lparr>sd_saved := None\<rparr>) (cn_dir c), cn_problem := None,
           cn_pairing := (if \<not> keepOperatorIdle \<or> \<not> cn_logout c then [] else cn_pairing c),
           cn_failed := False\<rparr>))"

definition clearConnectionProblem :: "conn_env \<Rightarrow> conn \<Rightarrow> conn" where
  "clearConnectionProblem e c = (if cn_retired c then c else clearConnectionSnapshot e True c)"

definition clearConnectionProblemIf ::
    "conn_env \<Rightarrow> (nat \<times> ConnectionProblem) option \<Rightarrow> conn \<Rightarrow> bool \<times> conn" where
  "clearConnectionProblemIf e expected c =
     (if cn_problem c \<noteq> expected then (False, c) else (True, clearConnectionSnapshot e False c))"

definition resolveConnectionProblemIf ::
    "conn_env \<Rightarrow> (nat \<times> ConnectionProblem) option \<Rightarrow> conn \<Rightarrow> bool \<times> conn" where
  "resolveConnectionProblemIf e expected c =
     (case expected of
        None \<Rightarrow> clearConnectionProblemIf e expected c
      | Some (_, p) \<Rightarrow>
          if \<not> isUnlinked p then clearConnectionProblemIf e expected c
          else if cn_problem c \<noteq> expected then (False, c)
          else (case persistConnectionSnapshot e (unlinkOnly p) c of
            (ok, c') \<Rightarrow> (True, if ok then publish (unlinkOnly p) c' else c')))"

definition setPairingState :: "string \<Rightarrow> conn \<Rightarrow> conn" where
  "setPairingState st c = (if cn_logout c then c else connectionChangedLocked (c\<lparr>cn_pairing := st\<rparr>))"

text \<open>Startup (\<^verbatim>\<open>main.go\<close>) installs what it read; an unlink whose session is not removed yet starts with a
  retired client and waits for a new pairing.\<close>

definition start_conn :: "ConnectionProblem option \<Rightarrow> string option \<Rightarrow> store_dir \<Rightarrow> conn" where
  "start_conn problem device d =
     (let unlinkPending = (case problem of None \<Rightarrow> False | Some p \<Rightarrow> isUnlinked p \<and> \<not> SessionRemoved p)
      in \<lparr>cn_problem = map_option (Pair 0) problem, cn_fresh = 1,
          cn_pairing = (if unlinkPending then ''pairing_required'' else []), cn_failed = False, cn_changed = 0,
          cn_retired = unlinkPending, cn_logout = False, cn_device = device, cn_tempBans = (\<lambda>_. 0), cn_dir = Some d\<rparr>)"

section \<open>Removing a revoked session\<close>

text \<open>The session container (\<^verbatim>\<open>pairing.go\<close>): the devices it holds, by their identifier. The SDK's
  deletion of a device may fail; a listing may fail.\<close>

datatype cleanup_error = ListFailed | DeleteFailed | StillPresent | StateChanged | PublicationFailed

record session_env =
  se_list1 :: bool
  se_delete :: "string \<Rightarrow> bool"
  se_list2 :: bool
  se_reappeared :: "string list"
  se_first :: bool

fun delete_devices :: "(string \<Rightarrow> bool) \<Rightarrow> (string \<Rightarrow> bool) \<Rightarrow> string list \<Rightarrow> string list \<Rightarrow> bool \<times> string list" where
  "delete_devices fails revoked [] devices = (True, devices)"
| "delete_devices fails revoked (d # ds) devices =
     (if \<not> revoked d then delete_devices fails revoked ds devices
      else if fails d then (False, devices)
      else delete_devices fails revoked ds (filter (\<lambda>x. x \<noteq> d) devices))"

definition revoked_by :: "ConnectionProblem \<Rightarrow> string \<Rightarrow> bool" where
  "revoked_by p device \<longleftrightarrow> RevokedDevice p = [] \<or> device = RevokedDevice p"

text \<open>\<open>se_reappeared\<close> are devices another session of the database adds between the two listings.\<close>

definition prepareSessionDevice ::
    "session_env \<Rightarrow> ConnectionProblem \<Rightarrow> string list \<Rightarrow> (cleanup_error + string option \<times> ConnectionProblem) \<times> string list" where
  "prepareSessionDevice s p devices =
     (if isUnlinked p \<and> \<not> SessionRemoved p then
        (if se_list1 s then (Inl ListFailed, devices)
         else case delete_devices (se_delete s) (revoked_by p) devices devices of
           (False, left) \<Rightarrow> (Inl DeleteFailed, left)
         | (True, left0) \<Rightarrow>
             (let left = left0 @ se_reappeared s in
              if se_list2 s then (Inl ListFailed, left)
              else if list_ex (revoked_by p) left then (Inl StillPresent, left)
              else if se_first s then (Inl ListFailed, left)
              else (Inr (case left of [] \<Rightarrow> None | d # _ \<Rightarrow> Some d, p\<lparr>SessionRemoved := True\<rparr>), left)))
      else if se_first s then (Inl ListFailed, devices)
      else (Inr (case devices of [] \<Rightarrow> None | d # _ \<Rightarrow> Some d, p), devices))"

text \<open>\<^verbatim>\<open>unlinkedDevice\<close>: the cleanup runs without the lock, so \<open>c'\<close>, the state when it is published, may
  differ from \<open>c\<close>, the state it started from.\<close>

definition unlinkedDevice ::
    "conn_env \<Rightarrow> session_env \<Rightarrow> conn \<Rightarrow> conn \<Rightarrow> string list
      \<Rightarrow> (cleanup_error + string option) \<times> conn \<times> string list" where
  "unlinkedDevice e s c c' devices =
     (case cn_problem c of
        None \<Rightarrow> (Inl StateChanged, c', devices)
      | Some (a, p) \<Rightarrow>
          if \<not> isUnlinked p then (Inl StateChanged, c', devices)
          else (case prepareSessionDevice s p devices of
            (Inl err, left) \<Rightarrow> (Inl err, c', left)
          | (Inr (device, next), left) \<Rightarrow>
              if cn_problem c' \<noteq> Some (a, p) then (Inl StateChanged, c', left)
              else (case persistConnectionSnapshot e next c' of
                (False, c2) \<Rightarrow> (Inl PublicationFailed, c2, left)
              | (True, c2) \<Rightarrow> (Inr device, publish next c2, left))))"

section \<open>The dial gate\<close>

datatype gate = GateCancelled | GateOpen | GateRetry | GateBlocked | GateWait duration

text \<open>One turn of the loop of \<^verbatim>\<open>waitConnectionAllowedContext\<close>. The mutex is released between its steps:
  \<open>other1\<close> and \<open>other2\<close> are what other goroutines do to the state meanwhile.\<close>

definition gate_turn ::
    "conn_env \<Rightarrow> bool \<Rightarrow> (conn \<Rightarrow> conn) \<Rightarrow> (conn \<Rightarrow> conn) \<Rightarrow> conn \<Rightarrow> gate \<times> conn" where
  "gate_turn e cancelled other1 other2 c =
     (if cancelled then (GateCancelled, c)
      else let snap = cn_problem c; st = cn_pairing c; c1 = other1 c;
               c2 = (if cn_failed c1 \<and> held restrictsAccount snap \<and> cn_dir c1 \<noteq> None
                     then snd (persistConnectionProblemIf e snap c1) else c1);
               c3 = other2 c2
           in if cn_failed c3 \<and> held restrictsAccount (cn_problem c3) then (GateRetry, c3)
              else if st \<noteq> [] \<or> held (\<lambda>p. Kind p = ''banned'' \<or> Kind p = ''locked'' \<or> Kind p = ''client_outdated'') snap
              then (GateBlocked, c3)
              else case snap of
                None \<Rightarrow> (GateOpen, c3)
              | Some (_, p) \<Rightarrow> (case ExpiresAt p of
                  None \<Rightarrow> (GateOpen, c3)
                | Some x \<Rightarrow> if \<not> ce_now e < x then (GateOpen, c3) else (GateWait (x - ce_now e), c3)))"

text \<open>The loop, over the turns it takes: each with its environment, whether the context is cancelled
  at its start or during its wait, and what happens to the state meanwhile.\<close>

record turn =
  tn_env :: conn_env
  tn_cancelled :: bool
  tn_other1 :: "conn \<Rightarrow> conn"
  tn_other2 :: "conn \<Rightarrow> conn"
  tn_cancelledWaiting :: bool
  tn_waiting :: "conn \<Rightarrow> conn"

fun waitConnectionAllowedContext :: "turn list \<Rightarrow> conn \<Rightarrow> bool option \<times> conn" where
  "waitConnectionAllowedContext [] c = (None, c)"
| "waitConnectionAllowedContext (t # ts) c =
     (case gate_turn (tn_env t) (tn_cancelled t) (tn_other1 t) (tn_other2 t) c of
        (GateCancelled, c') \<Rightarrow> (Some False, c')
      | (GateOpen, c') \<Rightarrow> (Some True, c')
      | (_, c') \<Rightarrow> if tn_cancelledWaiting t then (Some False, tn_waiting t c')
                   else waitConnectionAllowedContext ts (tn_waiting t c'))"

section \<open>Invariants\<close>

text \<open>A problem the startup check accepts: its kind is the class of its code, a temporary ban has an
  expiry, its times are set, its device is an identifier, and an outdated client names this build.\<close>

definition problem_ok :: "jid_sdk \<Rightarrow> string \<Rightarrow> ConnectionProblem \<Rightarrow> bool" where
  "problem_ok sdk build p \<longleftrightarrow> Kind p = problem_kind (Code p) \<and> Since p \<noteq> zero_time \<and> UnlinkedAt p \<noteq> Some zero_time
     \<and> revoked_ok sdk (RevokedDevice p) \<and> (Kind p = ''temporarily_banned'' \<longrightarrow> ExpiresAt p \<noteq> None)
     \<and> (Kind p = ''client_outdated'' \<longrightarrow> BuildVersion p = build)"

definition saved_as :: "store_dir \<Rightarrow> ConnectionProblem \<Rightarrow> bool" where
  "saved_as d p \<longleftrightarrow> (case sd_saved d of None \<Rightarrow> False | Some fl \<Rightarrow> fl_regular fl \<and> Option.bind (fl_doc fl) doc_problem = Some p)"

text \<open>What the disk holds while writing works: the restriction itself, and some record of an unlink.\<close>

definition disk_ok :: "jid_sdk \<Rightarrow> string \<Rightarrow> ConnectionProblem \<Rightarrow> store_dir \<Rightarrow> bool" where
  "disk_ok sdk build p d \<longleftrightarrow> (restrictsAccount p \<longrightarrow> saved_as d p)
     \<and> (isUnlinked p \<longrightarrow> (\<exists>q. isUnlinked q \<and> problem_ok sdk build q \<and> saved_as d q))"

definition conn_ok :: "jid_sdk \<Rightarrow> string \<Rightarrow> conn \<Rightarrow> bool" where
  "conn_ok sdk build c \<longleftrightarrow> (\<forall>i. cn_device c = Some i \<longrightarrow> revoked_ok sdk i)
     \<and> (\<forall>a p. cn_problem c = Some (a, p) \<longrightarrow> problem_ok sdk build p
          \<and> (\<forall>d. cn_dir c = Some d \<and> \<not> cn_failed c \<longrightarrow> disk_ok sdk build p d))"

text \<open>Everything that changes the connection state. The SDK reports a failure it reconnects from by
  itself only with a code that is no restriction, no unlink and no server error, except 500 and 503.\<close>

definition self_healing :: "log_arg list \<Rightarrow> bool" where
  "self_healing args \<longleftrightarrow> (\<forall>code rest. args = ArgInt code # rest \<longrightarrow> code \<in> {500, 503} \<or> problem_kind code = ''other'')"

definition env_ok :: "string \<Rightarrow> conn_env \<Rightarrow> bool" where
  "env_ok build e \<longleftrightarrow> ce_build e = build \<and> ce_now e \<noteq> zero_time"

inductive conn_step :: "jid_sdk \<Rightarrow> string \<Rightarrow> conn \<Rightarrow> conn \<Rightarrow> bool" for sdk build where
  recorded: "env_ok build e \<Longrightarrow> conn_step sdk build c (snd (recordConnectionProblem e code reason expire c))"
| warn: "env_ok build e \<Longrightarrow> self_healing args \<Longrightarrow> conn_step sdk build c (Warnf e active format args c)"
| persist: "held restrictsAccount expected \<Longrightarrow> conn_step sdk build c (snd (persistConnectionProblemIf e expected c))"
| clear: "conn_step sdk build c (clearConnectionProblem e c)"
| clear_if: "conn_step sdk build c (snd (clearConnectionProblemIf e expected c))"
| resolve: "conn_step sdk build c (snd (resolveConnectionProblemIf e expected c))"
| pairing: "conn_step sdk build c (setPairingState st c)"
| cleanup: "conn_step sdk build c (fst (snd (unlinkedDevice e s c0 c devices)))"
| device: "case i of None \<Rightarrow> True | Some d \<Rightarrow> revoked_ok sdk d \<Longrightarrow> conn_step sdk build c (c\<lparr>cn_device := i\<rparr>)"
| operator: "conn_step sdk build c (connectionChangedLocked (c\<lparr>cn_retired := r, cn_logout := l, cn_pairing := st\<rparr>))"

inductive_cases conn_stepE: "conn_step sdk build c c'"

lemma problem_doc_roundtrip: "doc_problem (problem_doc p) = Some p"
  by (cases p; cases "UnlinkedAt p"; cases "ExpiresAt p") (auto simp: doc_problem_def problem_doc_def)

lemma saved_as_write:
  assumes "writeConnectionProblem len f p d = (None, d')"
  shows "saved_as d' p"
  using assms by (auto simp: writeConnectionProblem_def saved_as_def problem_doc_roundtrip split: if_splits)

lemma write_atomic:
  assumes "writeConnectionProblem len f p d = (Some err, d')"
  shows "sd_saved d' = sd_saved d"
  using assms by (auto simp: writeConnectionProblem_def split: if_splits)

lemma publish_sel [simp]:
  "cn_problem (publish p c) = Some (cn_fresh c, p)" "cn_dir (publish p c) = cn_dir c"
  "cn_failed (publish p c) = cn_failed c" "cn_device (publish p c) = cn_device c"
  "cn_tempBans (publish p c) = cn_tempBans c"
  by (simp_all add: publish_def connectionChangedLocked_def)

lemma changed_sel [simp]:
  "cn_problem (connectionChangedLocked c) = cn_problem c" "cn_dir (connectionChangedLocked c) = cn_dir c"
  "cn_failed (connectionChangedLocked c) = cn_failed c" "cn_device (connectionChangedLocked c) = cn_device c"
  by (simp_all add: connectionChangedLocked_def)

lemma persist_sel:
  assumes "persistConnectionSnapshot e p c = (ok, c')"
  shows "cn_problem c' = cn_problem c \<and> cn_device c' = cn_device c
     \<and> (\<forall>d. cn_dir c' = Some d \<and> \<not> cn_failed c' \<longrightarrow> saved_as d p) \<and> (cn_dir c' \<noteq> None \<longrightarrow> cn_failed c' = (\<not> ok))"
  using assms by (auto simp: persistConnectionSnapshot_def split: option.splits prod.splits dest: saved_as_write)

lemma disk_ok_self:
  "problem_ok sdk build p \<Longrightarrow> saved_as d p \<Longrightarrow> disk_ok sdk build p d"
  by (auto simp: disk_ok_def)

lemma restricts_code: "Kind p = problem_kind (Code p) \<Longrightarrow> restrictsAccount p \<longleftrightarrow> Code p \<in> {402, 403, 405, 406}"
  by (auto simp: restrictsAccount_def problem_kind_def)

lemma unlinkOnly_ok: "problem_ok sdk build p \<Longrightarrow> problem_ok sdk build (unlinkOnly p)"
  by (auto simp: problem_ok_def unlinkOnly_def problem_kind_def split: option.splits)

lemma unlinkOnly_unlinked [simp]: "isUnlinked (unlinkOnly p)" "\<not> restrictsAccount (unlinkOnly p)"
  by (simp_all add: isUnlinked_def unlinkOnly_def restrictsAccount_def)

text \<open>A persisted snapshot that is published right away keeps the invariant.\<close>

lemma persist_publish_ok:
  assumes "conn_ok sdk build c" and "problem_ok sdk build p" and "persistConnectionSnapshot e p c = (ok, c')"
  shows "conn_ok sdk build (publish p c')"
  using assms persist_sel [OF assms(3)] by (auto simp: conn_ok_def intro: disk_ok_self)

lemma persist_current_ok:
  assumes "conn_ok sdk build c" and "cn_problem c = Some (a, p)"
  shows "conn_ok sdk build (snd (persistConnectionSnapshot e p c))"
  using assms persist_sel [OF prod.collapse [symmetric], of e p c] by (auto simp: conn_ok_def intro: disk_ok_self)

lemma classify_ok:
  "now \<noteq> zero_time \<Longrightarrow> problem_ok sdk build (classifyConnectionProblem build code reason expire now)"
  by (auto simp: problem_ok_def classifyConnectionProblem_def revoked_ok_def problem_kind_def)

lemma generic_ok:
  "now \<noteq> zero_time \<Longrightarrow> problem_kind code = ''other'' \<Longrightarrow> problem_ok sdk build (generic_problem code now)"
  by (simp add: problem_ok_def generic_problem_def revoked_ok_def)

lemma generic_free [simp]: "\<not> restrictsAccount (generic_problem code now)" "\<not> isUnlinked (generic_problem code now)"
  by (simp_all add: restrictsAccount_def isUnlinked_def generic_problem_def)

lemma inherit_ok:
  "problem_ok sdk build previous \<Longrightarrow> problem_ok sdk build p \<Longrightarrow> problem_ok sdk build (inherit_unlink previous p)"
  by (auto simp: problem_ok_def inherit_unlink_def split: option.splits)

lemma inherit_kind [simp]:
  "restrictsAccount (inherit_unlink previous p) = restrictsAccount p" "isUnlinked (inherit_unlink previous p)"
  by (auto simp: restrictsAccount_def isUnlinked_def inherit_unlink_def split: option.splits)

lemma unlink_stamp_ok:
  assumes "problem_ok sdk build p" and "now \<noteq> zero_time" and "\<forall>i. device = Some i \<longrightarrow> revoked_ok sdk i"
  shows "problem_ok sdk build (p\<lparr>UnlinkedAt := Some now, SessionRemoved := b,
     RevokedDevice := (case device of None \<Rightarrow> [] | Some i \<Rightarrow> i)\<rparr>)"
  using assms by (auto simp: problem_ok_def revoked_ok_def split: option.splits)

lemma next_problem_ok:
  assumes c: "conn_ok sdk build c" and e: "env_ok build e"
    and code: "persistent \<or> problem_kind code = ''other''"
    and p: "next_problem e code reason expire persistent c = Some p"
  shows "problem_ok sdk build p"
proof -
  let ?f = "if persistent then classifyConnectionProblem (ce_build e) code reason expire (ce_now e)
     else generic_problem code (ce_now e)"
  have now: "ce_now e \<noteq> zero_time" and f: "problem_ok sdk build ?f"
    using e code by (auto simp: env_ok_def intro: classify_ok generic_ok)
  have dev: "\<forall>i. cn_device c = Some i \<longrightarrow> revoked_ok sdk i" using c by (simp add: conn_ok_def)
  show ?thesis
  proof (cases "cn_problem c")
    case None
    with p f now dev show ?thesis by (auto simp: next_problem_def Let_def intro!: unlink_stamp_ok split: if_splits)
  next
    case (Some s)
    then obtain a previous where s: "cn_problem c = Some (a, previous)" by (cases s) auto
    then have prev: "problem_ok sdk build previous" using c by (simp add: conn_ok_def)
    from p s f now dev prev show ?thesis
      unfolding next_problem_def Let_def
      by (auto intro!: unlink_stamp_ok inherit_ok split: if_splits)
  qed
qed

text \<open>A restriction gives way only to a restriction, and an unlink is never dropped.\<close>

lemma next_problem_keeps:
  assumes "cn_problem c = Some (a, previous)"
    and "next_problem e code reason expire persistent c = Some p"
  shows "(restrictsAccount previous \<longrightarrow> restrictsAccount p) \<and> (isUnlinked previous \<longrightarrow> isUnlinked p)"
  using assms
  by (auto simp: next_problem_def Let_def split: if_splits)
    (auto simp: restrictsAccount_def isUnlinked_def)

lemma next_generic:
  assumes "next_problem e code reason expire False c = Some p" and "problem_kind code = ''other''"
  shows "\<not> restrictsAccount p \<and> (isUnlinked p \<longrightarrow> held isUnlinked (cn_problem c))"
proof -
  have "code \<noteq> 401" using assms(2) by (auto simp: problem_kind_def)
  with assms(1) show ?thesis
    by (auto simp: next_problem_def Let_def held_def split: option.splits prod.splits if_splits)
qed

lemma recorded_ok:
  assumes "conn_ok sdk build c" and "env_ok build e" and "persistent \<or> problem_kind code = ''other''"
  shows "conn_ok sdk build (snd (recordConnectionProblemStateIf e code reason expire active persistent c))"
proof (cases "active \<and> next_problem e code reason expire persistent c \<noteq> None")
  case False
  with assms(1) show ?thesis by (auto simp: recordConnectionProblemStateIf_def split: option.splits)
next
  case True
  then obtain p where p: "next_problem e code reason expire persistent c = Some p" by auto
  have ok: "problem_ok sdk build p" by (rule next_problem_ok [OF assms p])
  show ?thesis
  proof (cases persistent)
    case persistent: True
    let ?c = "if code = 402 then (publish p c)\<lparr>cn_tempBans := (cn_tempBans c)(ban_reason reason := cn_tempBans c (ban_reason reason) + 1)\<rparr>
        else publish p c"
    have "snd (recordConnectionProblemStateIf e code reason expire active persistent c)
        = snd (persistConnectionSnapshot e p ?c)"
      using True p persistent by (simp add: recordConnectionProblemStateIf_def Let_def)
    moreover have "conn_ok sdk build (snd (persistConnectionSnapshot e p ?c))"
      using assms(1) ok persist_sel [OF prod.collapse [symmetric], of e p ?c]
      by (auto simp: conn_ok_def intro: disk_ok_self)
    ultimately show ?thesis by simp
  next
    case False
    then have "snd (recordConnectionProblemStateIf e code reason expire active persistent c) = publish p c"
      using True p by (simp add: recordConnectionProblemStateIf_def)
    with next_generic [of e code reason expire c p] p False assms ok show ?thesis
      by (auto simp: conn_ok_def disk_ok_def held_def split: option.splits prod.splits)
  qed
qed

lemma warned_ok:
  assumes "conn_ok sdk build c" and "env_ok build e" and "self_healing args"
  shows "conn_ok sdk build (Warnf e active format args c)"
proof -
  have "conn_ok sdk build (case args ! 0 of
      ArgInt code \<Rightarrow> if code \<noteq> 500 \<and> code \<noteq> 503 then snd (recordConnectionProblemStateIf e code 0 0 active False c)
        else snd (recordConnectionProblemStateIf e code 0 0 active True c)
    | ArgOther \<Rightarrow> c)" if "length args = 2"
    using that assms by (cases args) (auto simp: self_healing_def intro: recorded_ok split: log_arg.splits)
  with assms show ?thesis unfolding Warnf_def by (auto intro: recorded_ok)
qed

lemma persist_failed_ok:
  assumes "conn_ok sdk build c" and "persistConnectionSnapshot e p c = (False, c')"
  shows "conn_ok sdk build c'"
  using assms persist_sel [OF assms(2)] by (auto simp: conn_ok_def)

lemma cleared_ok: "conn_ok sdk build c \<Longrightarrow> conn_ok sdk build (clearConnectionSnapshot e b c)"
  by (auto simp: conn_ok_def clearConnectionSnapshot_def)

lemma resolved_ok:
  assumes "conn_ok sdk build c"
  shows "conn_ok sdk build (snd (resolveConnectionProblemIf e expected c))"
proof (cases "\<exists>a p. expected = Some (a, p) \<and> isUnlinked p \<and> cn_problem c = expected")
  case False
  with assms show ?thesis
    by (auto simp: resolveConnectionProblemIf_def clearConnectionProblemIf_def cleared_ok
        split: option.splits prod.splits)
next
  case True
  then obtain a p where p: "expected = Some (a, p)" "isUnlinked p" "cn_problem c = Some (a, p)" by auto
  then have ok: "problem_ok sdk build (unlinkOnly p)" using assms by (auto simp: conn_ok_def intro: unlinkOnly_ok)
  obtain wrote c' where w: "persistConnectionSnapshot e (unlinkOnly p) c = (wrote, c')" by fastforce
  show ?thesis
  proof (cases wrote)
    case True
    with w p ok persist_publish_ok [OF assms ok w] show ?thesis by (simp add: resolveConnectionProblemIf_def)
  next
    case False
    with w have "conn_ok sdk build c'" using persist_failed_ok [OF assms] by simp
    with w p False show ?thesis by (simp add: resolveConnectionProblemIf_def)
  qed
qed

lemma prepared_problem:
  assumes "prepareSessionDevice s p devices = (Inr (dev, nxt), left)"
  shows "nxt = p \<or> nxt = p\<lparr>SessionRemoved := True\<rparr>"
  using assms by (auto simp: prepareSessionDevice_def Let_def split: if_splits prod.splits bool.splits)

lemma unlinkedDevice_ok:
  assumes "conn_ok sdk build c"
  shows "conn_ok sdk build (fst (snd (unlinkedDevice e s c0 c devices)))"
proof (cases "\<exists>a p dev nxt left. cn_problem c0 = Some (a, p) \<and> isUnlinked p
    \<and> prepareSessionDevice s p devices = (Inr (dev, nxt), left) \<and> cn_problem c = Some (a, p)")
  case False
  with assms show ?thesis
    by (auto simp: unlinkedDevice_def split: option.splits prod.splits sum.splits)
next
  case True
  then obtain a p dev nxt left where p: "cn_problem c0 = Some (a, p)" "isUnlinked p" "cn_problem c = Some (a, p)"
    and prep: "prepareSessionDevice s p devices = (Inr (dev, nxt), left)" by auto
  have "problem_ok sdk build p" using assms p by (auto simp: conn_ok_def)
  then have ok: "problem_ok sdk build nxt" using prepared_problem [OF prep] by (auto simp: problem_ok_def)
  obtain wrote c' where w: "persistConnectionSnapshot e nxt c = (wrote, c')" by fastforce
  then show ?thesis using p prep persist_publish_ok [OF assms ok w] persist_failed_ok [OF assms, of e nxt c']
    by (cases wrote) (simp_all add: unlinkedDevice_def)
qed

lemma conn_step_ok:
  assumes "conn_step sdk build c c'" and "conn_ok sdk build c"
  shows "conn_ok sdk build c'"
  using assms(1)
proof (cases rule: conn_step.cases)
  case (recorded e code reason expire)
  with assms(2) show ?thesis by (simp add: recordConnectionProblem_def recorded_ok)
next
  case (warn e args active format)
  with assms(2) show ?thesis by (simp add: warned_ok)
next
  case (persist expected e)
  with assms(2) show ?thesis
    by (auto simp: persistConnectionProblemIf_def intro: persist_current_ok split: option.splits)
next
  case (resolve e expected)
  with assms(2) show ?thesis by (simp add: resolved_ok)
next
  case (cleanup e s c0 devices)
  with assms(2) show ?thesis by (simp add: unlinkedDevice_ok)
next
  case (clear e)
  with assms(2) show ?thesis by (simp add: clearConnectionProblem_def cleared_ok)
next
  case (clear_if e expected)
  with assms(2) show ?thesis by (simp add: clearConnectionProblemIf_def cleared_ok)
next
  case (pairing st)
  with assms(2) show ?thesis by (simp add: setPairingState_def conn_ok_def)
next
  case (device i)
  with assms(2) show ?thesis by (auto simp: conn_ok_def)
next
  case (operator r l st)
  with assms(2) show ?thesis by (simp add: conn_ok_def)
qed

lemma conn_steps_ok:
  assumes "(conn_step sdk build)\<^sup>*\<^sup>* c c'" and "conn_ok sdk build c"
  shows "conn_ok sdk build c'"
  using assms by (induction rule: rtranclp_induct) (auto intro: conn_step_ok)

lemma clearOutdated_ok:
  assumes "clearOutdatedBuildProblem len f rm build p d = (Inr (Some q), d')"
    and "Kind p = problem_kind (Code p)" and "Since p \<noteq> zero_time" and "UnlinkedAt p \<noteq> Some zero_time"
    and "revoked_ok sdk (RevokedDevice p)" and "Kind p = ''temporarily_banned'' \<longrightarrow> ExpiresAt p \<noteq> None" and "saved_as d p"
  shows "problem_ok sdk build q \<and> saved_as d' q"
  using assms
  by (auto simp: clearOutdatedBuildProblem_def problem_ok_def unlinkOnly_def problem_kind_def
      split: if_splits prod.splits option.splits dest: saved_as_write)

lemma read_ok:
  assumes "readConnectionProblem sdk len rf f rm build d = (Inr (Some q), d')"
  shows "problem_ok sdk build q \<and> saved_as d' q"
proof -
  from assms obtain fl p where fl: "sd_saved d = Some fl" "fl_regular fl" "Option.bind (fl_doc fl) doc_problem = Some p"
    and p: "Since p \<noteq> zero_time" "UnlinkedAt p \<noteq> Some zero_time" "revoked_ok sdk (RevokedDevice p)"
      "Kind p = problem_kind (Code p)" "Kind p = ''temporarily_banned'' \<longrightarrow> ExpiresAt p \<noteq> None"
    and q: "clearOutdatedBuildProblem len f rm build p d = (Inr (Some q), d')"
    by (auto simp: readConnectionProblem_def classifyConnectionProblem_def split: if_splits option.splits)
  have "saved_as d p" using fl by (simp add: saved_as_def)
  from clearOutdated_ok [OF q p(4,1,2,3,5) this] show ?thesis .
qed

lemma read_saved:
  assumes "saved_as d p" and "problem_ok sdk build p" and "\<forall>fl. sd_saved d = Some fl \<longrightarrow> fl_size fl \<le> 4096"
  shows "readConnectionProblem sdk len \<lparr>rf_lstat = False, rf_open = False, rf_changed = False, rf_read = False\<rparr> f rm build d
     = (Inr (Some p), d)"
  using assms
  by (auto simp: readConnectionProblem_def saved_as_def problem_ok_def classifyConnectionProblem_def
      clearOutdatedBuildProblem_def split: option.splits)

lemma start_ok:
  assumes "readConnectionProblem sdk len rf f rm build d0 = (Inr p0, d1)" and "\<forall>i. device = Some i \<longrightarrow> revoked_ok sdk i"
  shows "conn_ok sdk build (start_conn p0 device d1)"
  using assms
  by (cases p0) (auto simp: conn_ok_def start_conn_def Let_def intro: disk_ok_self dest!: read_ok)

lemma recorded_problem:
  assumes "cn_problem c = Some (a, p)"
  shows "\<exists>a' p'. cn_problem (snd (recordConnectionProblemStateIf e code reason expire active persistent c)) = Some (a', p')
     \<and> (restrictsAccount p \<longrightarrow> restrictsAccount p') \<and> (isUnlinked p \<longrightarrow> isUnlinked p')"
proof (cases "active \<and> next_problem e code reason expire persistent c \<noteq> None")
  case False
  with assms show ?thesis by (auto simp: recordConnectionProblemStateIf_def split: option.splits)
next
  case True
  then obtain q where q: "next_problem e code reason expire persistent c = Some q" by auto
  have "cn_problem (snd (recordConnectionProblemStateIf e code reason expire active persistent c)) = Some (cn_fresh c, q)"
    using True q persist_sel [OF prod.collapse [symmetric]]
    by (simp add: recordConnectionProblemStateIf_def Let_def)
  with next_problem_keeps [OF assms q] show ?thesis by auto
qed

lemma gate_open:
  assumes "gate_turn e cancelled other1 other2 c = (GateOpen, c3)"
  shows "cn_pairing c = [] \<and> \<not> (cn_failed c3 \<and> held restrictsAccount (cn_problem c3))
     \<and> (\<forall>a p. cn_problem c = Some (a, p) \<and> problem_ok sdk build p \<longrightarrow> \<not> restrictsAccountAt p (ce_now e))"
proof -
  define cs where "cs = other2 (if cn_failed (other1 c) \<and> held restrictsAccount (cn_problem c) \<and> cn_dir (other1 c) \<noteq> None
      then snd (persistConnectionProblemIf e (cn_problem c) (other1 c)) else other1 c)"
  have snap: "case cn_problem c of None \<Rightarrow> True | Some (_, p) \<Rightarrow>
      \<not> (Kind p = ''banned'' \<or> Kind p = ''locked'' \<or> Kind p = ''client_outdated'') \<and>
      (\<forall>x. ExpiresAt p = Some x \<longrightarrow> x \<le> ce_now e)"
    and rest: "cn_pairing c = []" "c3 = cs" "\<not> (cn_failed cs \<and> held restrictsAccount (cn_problem cs))"
    using assms unfolding gate_turn_def Let_def cs_def [symmetric] held_def [of "\<lambda>p. Kind p = _ p \<or> _ p"]
    by (auto simp: held_def split: if_splits option.splits)
  have "\<not> restrictsAccountAt p (ce_now e)" if "cn_problem c = Some (a, p)" "problem_ok sdk build p" for a p
    using snap that by (auto simp: restrictsAccountAt_def restrictsAccount_def problem_ok_def)
  with rest show ?thesis by blast
qed

lemma gate_opens:
  assumes "cn_pairing c = []" and "\<not> cn_failed c"
    and "\<forall>a p. cn_problem c = Some (a, p) \<longrightarrow> \<not> restrictsAccountAt p (ce_now e) \<and>
       (\<forall>x. ExpiresAt p = Some x \<longrightarrow> Kind p = ''temporarily_banned'')"
  shows "gate_turn e False id id c = (GateOpen, c)"
proof (cases "cn_problem c")
  case None
  with assms show ?thesis by (simp add: gate_turn_def held_def)
next
  case (Some s)
  then obtain a p where p: "cn_problem c = Some (a, p)" by (cases s) auto
  with assms(3) have "\<not> restrictsAccountAt p (ce_now e)" "\<forall>x. ExpiresAt p = Some x \<longrightarrow> Kind p = ''temporarily_banned''"
    by auto
  with assms(1,2) p show ?thesis
    by (auto simp: gate_turn_def held_def restrictsAccountAt_def restrictsAccount_def split: option.splits)
qed

section \<open>Properties\<close>

text \<open>C3. A restart never forgets a ban or an unlink: whatever was reported, cleared, acknowledged, cleaned
  up or failed on disk since startup, as long as the last write succeeded, starting the same build again
  on the directory as it is finds exactly the restriction that is in force, and finds the device
  unlinked when it is.\<close>

theorem restart_remembers_restriction:
  assumes "readConnectionProblem sdk len rf0 f0 rm0 build d0 = (Inr p0, d1)"
    and "\<forall>i. device = Some i \<longrightarrow> revoked_ok sdk i"
    and "(conn_step sdk build)\<^sup>*\<^sup>* (start_conn p0 device d1) c"
    and "cn_problem c = Some (a, p)" and "cn_dir c = Some d" and "\<not> cn_failed c"
    and "\<forall>fl. sd_saved d = Some fl \<longrightarrow> fl_size fl \<le> 4096"
    and "rf = \<lparr>rf_lstat = False, rf_open = False, rf_changed = False, rf_read = False\<rparr>"
  shows "(restrictsAccount p \<longrightarrow> fst (readConnectionProblem sdk len rf f rm build d) = Inr (Some p))
     \<and> (isUnlinked p \<longrightarrow> (\<exists>q. fst (readConnectionProblem sdk len rf f rm build d) = Inr (Some q) \<and> isUnlinked q))"
proof -
  have "conn_ok sdk build c" by (rule conn_steps_ok [OF assms(3) start_ok [OF assms(1,2)]])
  then have ok: "problem_ok sdk build p" and d: "disk_ok sdk build p d" using assms(4-6) by (auto simp: conn_ok_def)
  note read = read_saved [OF _ _ assms(7), folded assms(8), of _ sdk build len f rm]
  show ?thesis using read [of p] read ok d by (auto simp: disk_ok_def)
qed

definition sample_env :: conn_env where
  "sample_env = \<lparr>ce_now = 1000 * second, ce_build = ''v1'', ce_len = (\<lambda>d. 100 * length d), ce_faults = no_faults,
     ce_removeFails = False\<rparr>"

definition sample_locked :: conn where
  "sample_locked = snd (recordConnectionProblem sample_env 403 0 0
     (start_conn None (Some ''5511@s.whatsapp.net'') \<lparr>sd_saved = None, sd_part = False\<rparr>))"

definition sample_unlinked :: conn where
  "sample_unlinked = snd (recordConnectionProblem sample_env 401 0 0 sample_locked)"

lemma sample_unlinked_steps:
  "(conn_step plain_sdk ''v1'')\<^sup>*\<^sup>* (start_conn None (Some ''5511@s.whatsapp.net'') \<lparr>sd_saved = None, sd_part = False\<rparr>)
     sample_unlinked"
proof -
  have "env_ok ''v1'' sample_env" by (simp add: env_ok_def sample_env_def zero_time_def time_unit_defs)
  then show ?thesis unfolding sample_unlinked_def sample_locked_def
    by (meson conn_step.recorded rtranclp.rtrancl_into_rtrancl rtranclp.rtrancl_refl)
qed

lemma sample_unlinked_sel:
  "cn_problem sample_unlinked = Some (2, (classifyConnectionProblem ''v1'' 403 0 0 (1000 * second))
     \<lparr>UnlinkedAt := Some (1000 * second), RevokedDevice := ''5511@s.whatsapp.net''\<rparr>)"
  "\<not> cn_failed sample_unlinked"
  "cn_dir sample_unlinked = Some \<lparr>sd_saved = Some \<lparr>fl_regular = True, fl_size = 500,
     fl_doc = Some [(''unlinked_at'', JTime (1000 * second)), (''kind'', JText ''locked''), (''code'', JInt 403),
       (''since'', JTime (1000 * second)), (''revoked_device'', JText ''5511@s.whatsapp.net'')]\<rparr>, sd_part = False\<rparr>"
  by code_simp+

theorem restart_remembers_restriction_witness:
  "let p = (classifyConnectionProblem ''v1'' 403 0 0 (1000 * second))
       \<lparr>UnlinkedAt := Some (1000 * second), RevokedDevice := ''5511@s.whatsapp.net''\<rparr>
   in restrictsAccount p \<and> isUnlinked p \<and>
      fst (readConnectionProblem plain_sdk (ce_len sample_env)
        \<lparr>rf_lstat = False, rf_open = False, rf_changed = False, rf_read = False\<rparr> no_faults False ''v1''
        (the (cn_dir sample_unlinked))) = Inr (Some p)"
proof -
  let ?rf = "\<lparr>rf_lstat = False, rf_open = False, rf_changed = False, rf_read = False\<rparr>"
  have start: "readConnectionProblem plain_sdk (ce_len sample_env) ?rf no_faults False ''v1'' \<lparr>sd_saved = None, sd_part = False\<rparr>
      = (Inr None, \<lparr>sd_saved = None, sd_part = False\<rparr>)" by (simp add: readConnectionProblem_def)
  have "revoked_ok plain_sdk ''5511@s.whatsapp.net''" by code_simp
  then have dev: "\<forall>i. Some ''5511@s.whatsapp.net'' = Some i \<longrightarrow> revoked_ok plain_sdk i" by simp
  have small: "\<forall>fl. sd_saved (the (cn_dir sample_unlinked)) = Some fl \<longrightarrow> fl_size fl \<le> 4096"
    by (simp add: sample_unlinked_sel)
  have "cn_dir sample_unlinked = Some (the (cn_dir sample_unlinked))" by (simp add: sample_unlinked_sel)
  from restart_remembers_restriction [OF start dev sample_unlinked_steps sample_unlinked_sel(1) this sample_unlinked_sel(2) small refl]
  show ?thesis by (auto simp: restrictsAccount_def isUnlinked_def classifyConnectionProblem_def problem_kind_def)
qed

text \<open>Reports never lift a restriction: through any sequence of reports (from events or from the SDK's
  log, late ones from a retired client included, with any disk faults), a restricted account stays
  restricted and an unlinked device stays unlinked; only a connection, the operator or an expiry ends it.\<close>

lemma reports_never_lift:
  assumes "cn_problem c = Some (a, p)"
  shows "\<exists>a' p'. cn_problem (fold (\<lambda>(e, code, reason, expire, active, persistent) c.
       snd (recordConnectionProblemStateIf e code reason expire active persistent c)) reports c) = Some (a', p')
     \<and> (restrictsAccount p \<longrightarrow> restrictsAccount p') \<and> (isUnlinked p \<longrightarrow> isUnlinked p')"
  using assms
proof (induction reports arbitrary: c a p)
  case (Cons r rs)
  obtain e code reason expire active persistent where r: "r = (e, code, reason, expire, active, persistent)"
    by (cases r) auto
  obtain a1 p1 where 1: "cn_problem (snd (recordConnectionProblemStateIf e code reason expire active persistent c)) = Some (a1, p1)"
      "(restrictsAccount p \<longrightarrow> restrictsAccount p1) \<and> (isUnlinked p \<longrightarrow> isUnlinked p1)"
    using recorded_problem [OF Cons.prems] by metis
  from Cons.IH [OF 1(1)] 1(2) show ?case unfolding r by auto
qed simp

theorem reports_never_lift_witness:
  "\<exists>a' p'. cn_problem (fold (\<lambda>(e, code, reason, expire, active, persistent) c.
       snd (recordConnectionProblemStateIf e code reason expire active persistent c))
       [(sample_env, 503, 0, 0, True, True), (sample_env, 413, 0, 0, True, False), (sample_env, 402, 101, 60, True, True)]
       sample_unlinked) = Some (a', p') \<and> restrictsAccount p' \<and> isUnlinked p'"
  using reports_never_lift [OF sample_unlinked_sel(1), of
      "[(sample_env, 503, 0, 0, True, True), (sample_env, 413, 0, 0, True, False), (sample_env, 402, 101, 60, True, True)]"]
  by (auto simp: restrictsAccount_def isUnlinked_def classifyConnectionProblem_def problem_kind_def)

text \<open>C9. No dial gets past a restriction: the gate opens only on a turn whose snapshot of the state shows
  no pairing in progress and no restriction in force at that time, and at the end of which no
  restriction was waiting to be saved; and with neither, an uncancelled turn opens it at once.\<close>

theorem dial_gate:
  "(fst (waitConnectionAllowedContext ts c) = Some True \<longrightarrow>
      (\<exists>t \<in> set ts. \<exists>c1. let c3 = snd (waitConnectionAllowedContext ts c)
         in gate_turn (tn_env t) (tn_cancelled t) (tn_other1 t) (tn_other2 t) c1 = (GateOpen, c3)
         \<and> cn_pairing c1 = [] \<and> \<not> (cn_failed c3 \<and> held restrictsAccount (cn_problem c3))
         \<and> (\<forall>a p. cn_problem c1 = Some (a, p) \<and> problem_ok sdk build p \<longrightarrow> \<not> restrictsAccountAt p (ce_now (tn_env t)))))
   \<and> (cn_pairing c = [] \<and> \<not> cn_failed c \<and> \<not> tn_cancelled t \<and> tn_other1 t = id \<and> tn_other2 t = id
      \<and> (\<forall>a p. cn_problem c = Some (a, p) \<longrightarrow> \<not> restrictsAccountAt p (ce_now (tn_env t)) \<and>
            (\<forall>x. ExpiresAt p = Some x \<longrightarrow> Kind p = ''temporarily_banned''))
      \<longrightarrow> waitConnectionAllowedContext (t # ts) c = (Some True, c))"
proof (intro conjI impI)
  assume "fst (waitConnectionAllowedContext ts c) = Some True"
  then show "\<exists>t \<in> set ts. \<exists>c1. let c3 = snd (waitConnectionAllowedContext ts c)
         in gate_turn (tn_env t) (tn_cancelled t) (tn_other1 t) (tn_other2 t) c1 = (GateOpen, c3)
         \<and> cn_pairing c1 = [] \<and> \<not> (cn_failed c3 \<and> held restrictsAccount (cn_problem c3))
         \<and> (\<forall>a p. cn_problem c1 = Some (a, p) \<and> problem_ok sdk build p \<longrightarrow> \<not> restrictsAccountAt p (ce_now (tn_env t)))"
  proof (induction ts arbitrary: c)
    case (Cons t ts)
    obtain g c3 where g: "gate_turn (tn_env t) (tn_cancelled t) (tn_other1 t) (tn_other2 t) c = (g, c3)" by fastforce
    show ?case
    proof (cases "g = GateOpen")
      case True
      with g have o: "gate_turn (tn_env t) (tn_cancelled t) (tn_other1 t) (tn_other2 t) c = (GateOpen, c3)" by simp
      moreover have "snd (waitConnectionAllowedContext (t # ts) c) = c3" using o by simp
      ultimately show ?thesis using gate_open [OF o, of sdk build] unfolding Let_def
        by (intro bexI [of _ t] exI [of _ c]) auto
    next
      case False
      with Cons.prems g have w: "fst (waitConnectionAllowedContext ts (tn_waiting t c3)) = Some True"
          "waitConnectionAllowedContext (t # ts) c = waitConnectionAllowedContext ts (tn_waiting t c3)"
        by (cases g; auto split: if_splits)+
      from Cons.IH [OF w(1)] show ?thesis unfolding w(2) by (auto simp: Let_def)
    qed
  qed simp
next
  assume "cn_pairing c = [] \<and> \<not> cn_failed c \<and> \<not> tn_cancelled t \<and> tn_other1 t = id \<and> tn_other2 t = id
      \<and> (\<forall>a p. cn_problem c = Some (a, p) \<longrightarrow> \<not> restrictsAccountAt p (ce_now (tn_env t)) \<and>
            (\<forall>x. ExpiresAt p = Some x \<longrightarrow> Kind p = ''temporarily_banned''))"
  then have "gate_turn (tn_env t) (tn_cancelled t) (tn_other1 t) (tn_other2 t) c = (GateOpen, c)" by (simp add: gate_opens)
  then show "waitConnectionAllowedContext (t # ts) c = (Some True, c)" by simp
qed

definition sample_turn :: "instant \<Rightarrow> turn" where
  "sample_turn now = \<lparr>tn_env = sample_env\<lparr>ce_now := now\<rparr>, tn_cancelled = False, tn_other1 = id, tn_other2 = id,
     tn_cancelledWaiting = False, tn_waiting = id\<rparr>"

definition sample_banned :: conn where
  "sample_banned = snd (recordConnectionProblem sample_env 402 101 minute
     (start_conn None None \<lparr>sd_saved = None, sd_part = False\<rparr>))"

theorem dial_gate_witness:
  "fst (waitConnectionAllowedContext [sample_turn (1000 * second), sample_turn (1060 * second)] sample_banned) = Some True
   \<and> (\<exists>t \<in> set [sample_turn (1000 * second), sample_turn (1060 * second)]. \<exists>c1.
        fst (gate_turn (tn_env t) (tn_cancelled t) (tn_other1 t) (tn_other2 t) c1) = GateOpen \<and> cn_pairing c1 = [])"
proof -
  let ?ts = "[sample_turn (1000 * second), sample_turn (1060 * second)]"
  have o: "fst (waitConnectionAllowedContext ?ts sample_banned) = Some True" by code_simp
  from conjunct1 [OF dial_gate [of ?ts sample_banned plain_sdk "''v1''"], THEN mp, OF o]
  obtain t c1 where "t \<in> set ?ts" "gate_turn (tn_env t) (tn_cancelled t) (tn_other1 t) (tn_other2 t) c1
      = (GateOpen, snd (waitConnectionAllowedContext ?ts sample_banned))" "cn_pairing c1 = []"
    unfolding Let_def by blast
  then have "\<exists>t \<in> set ?ts. \<exists>c1. fst (gate_turn (tn_env t) (tn_cancelled t) (tn_other1 t) (tn_other2 t) c1) = GateOpen
      \<and> cn_pairing c1 = []" by (intro bexI [of _ t] exI [of _ c1]) (simp_all only: fst_conv)
  with o show ?thesis by (rule conjI)
qed

lemma delete_devices_keeps:
  assumes "delete_devices fails revoked ds devices = (ok, left)"
  shows "(\<forall>d \<in> set devices. \<not> revoked d \<longrightarrow> d \<in> set left) \<and> (\<forall>d \<in> set left. d \<in> set devices)
     \<and> (ok \<longrightarrow> (\<forall>d \<in> set left. revoked d \<longrightarrow> d \<notin> set ds))"
  using assms
proof (induction ds arbitrary: devices)
  case (Cons x ds)
  show ?case
  proof (cases "revoked x")
    case False
    with Cons.prems Cons.IH [of devices] show ?thesis by auto
  next
    case True
    show ?thesis
    proof (cases "fails x")
      case True
      with \<open>revoked x\<close> Cons.prems show ?thesis by auto
    next
      case False
      with \<open>revoked x\<close> Cons.prems have "delete_devices fails revoked ds (filter (\<lambda>y. y \<noteq> x) devices) = (ok, left)" by simp
      note ih = Cons.IH [OF this]
      have "d \<in> set left" if "d \<in> set devices" "\<not> revoked d" for d
      proof -
        have "d \<in> set (filter (\<lambda>y. y \<noteq> x) devices)" using that \<open>revoked x\<close> by auto
        with ih that(2) show ?thesis by blast
      qed
      moreover have "d \<in> set devices \<and> d \<noteq> x" if "d \<in> set left" for d
      proof -
        from ih that have "d \<in> set (filter (\<lambda>y. y \<noteq> x) devices)" by blast
        then show ?thesis by simp
      qed
      ultimately show ?thesis using ih unfolding list.set(2) by blast
    qed
  qed
qed simp

lemma prepared_devices:
  assumes "prepareSessionDevice s p devices = (r, left)" and "isUnlinked p" and "\<not> SessionRemoved p"
  shows "(\<forall>d \<in> set devices. \<not> revoked_by p d \<longrightarrow> d \<in> set left)
     \<and> (\<forall>dev q. r = Inr (dev, q) \<longrightarrow> q = p\<lparr>SessionRemoved := True\<rparr> \<and> (\<forall>d \<in> set left. \<not> revoked_by p d)
          \<and> (\<forall>d. dev = Some d \<longrightarrow> d \<in> set left))"
proof -
  obtain ok left0 where d: "delete_devices (se_delete s) (revoked_by p) devices devices = (ok, left0)" by fastforce
  note keeps = delete_devices_keeps [OF d]
  show ?thesis
  proof (cases "se_list1 s \<or> \<not> ok")
    case True
    with assms d have "left = devices \<or> left = left0" "\<exists>err. r = Inl err"
      by (auto simp: prepareSessionDevice_def split: if_splits)
    with keeps show ?thesis by auto
  next
    case False
    with assms d have "left = left0 @ se_reappeared s"
      and r: "r = (if se_list2 s then Inl ListFailed else if list_ex (revoked_by p) left then Inl StillPresent
        else if se_first s then Inl ListFailed
        else Inr (case left of [] \<Rightarrow> None | d # _ \<Rightarrow> Some d, p\<lparr>SessionRemoved := True\<rparr>))"
      by (auto simp: prepareSessionDevice_def Let_def split: if_splits)
    moreover have "dev = Some x \<longrightarrow> x \<in> set left" if "dev = (case left of [] \<Rightarrow> None | d # _ \<Rightarrow> Some d)" for dev x
      using that by (cases left) auto
    ultimately show ?thesis using keeps by (auto simp: list_ex_iff split: if_splits)
  qed
qed

text \<open>Cleaning up after an unlink removes the revoked session and nothing else, and says so durably:
  whatever fails, a device the unlink did not name stays; when the cleanup reports success no revoked
  device is left, the state was still the one the cleanup started from, and completion is published
  and saved; on failure the published problem is unchanged, so the cleanup is tried again.\<close>

lemma unlink_cleanup:
  assumes "cn_problem c = Some (a, p)" and "\<not> SessionRemoved p"
    and "unlinkedDevice e s c c' devices = (r, c2, left)"
  shows "(\<forall>d \<in> set devices. \<not> revoked_by p d \<longrightarrow> d \<in> set left)
     \<and> (case r of
          Inl err \<Rightarrow> cn_problem c2 = cn_problem c'
        | Inr dev \<Rightarrow> (\<forall>d \<in> set left. \<not> revoked_by p d) \<and> (\<forall>d. dev = Some d \<longrightarrow> d \<in> set left)
            \<and> cn_problem c' = Some (a, p) \<and> map_option snd (cn_problem c2) = Some (p\<lparr>SessionRemoved := True\<rparr>)
            \<and> (\<forall>d. cn_dir c2 = Some d \<longrightarrow> saved_as d (p\<lparr>SessionRemoved := True\<rparr>)))"
proof (cases "isUnlinked p")
  case False
  with assms show ?thesis by (auto simp: unlinkedDevice_def)
next
  case True
  obtain r0 left0 where prep: "prepareSessionDevice s p devices = (r0, left0)" by fastforce
  note devs = prepared_devices [OF prep True assms(2)]
  show ?thesis
  proof (cases "cn_problem c' = Some (a, p) \<and> (\<exists>dev. r0 = Inr (dev, p\<lparr>SessionRemoved := True\<rparr>))")
    case False
    with assms True prep devs have "left = left0 \<and> c2 = c' \<and> (\<exists>err. r = Inl err)"
      by (auto simp: unlinkedDevice_def split: sum.splits prod.splits if_splits)
    with devs show ?thesis by auto
  next
    case r0: True
    then obtain dev where r0: "r0 = Inr (dev, p\<lparr>SessionRemoved := True\<rparr>)" "cn_problem c' = Some (a, p)" by auto
    obtain ok c1 where w: "persistConnectionSnapshot e (p\<lparr>SessionRemoved := True\<rparr>) c' = (ok, c1)" by fastforce
    with assms True prep r0 have
      "left = left0 \<and> (if ok then r = Inr dev \<and> c2 = publish (p\<lparr>SessionRemoved := True\<rparr>) c1 else r = Inl PublicationFailed \<and> c2 = c1)"
      by (auto simp: unlinkedDevice_def split: bool.splits)
    with devs r0 persist_sel [OF w] show ?thesis by (cases ok) auto
  qed
qed

definition sample_session :: session_env where
  "sample_session = \<lparr>se_list1 = False, se_delete = (\<lambda>_. False), se_list2 = False, se_reappeared = [], se_first = False\<rparr>"

theorem unlink_cleanup_witness:
  "let (r, c2, left) = unlinkedDevice sample_env sample_session sample_unlinked sample_unlinked
       [''5511@s.whatsapp.net'', ''5522@s.whatsapp.net'']
   in r = Inr (Some ''5522@s.whatsapp.net'') \<and> ''5522@s.whatsapp.net'' \<in> set left"
proof -
  let ?u = "unlinkedDevice sample_env sample_session sample_unlinked sample_unlinked
       [''5511@s.whatsapp.net'', ''5522@s.whatsapp.net'']"
  obtain r c2 left where u: "?u = (r, c2, left)" by (metis prod_cases3)
  have "fst ?u = Inr (Some ''5522@s.whatsapp.net'')" by code_simp
  then have r: "r = Inr (Some ''5522@s.whatsapp.net'')" using u by simp
  have "\<not> SessionRemoved (snd (the (cn_problem sample_unlinked)))" by code_simp
  then have "\<not> SessionRemoved ((classifyConnectionProblem ''v1'' 403 0 0 (1000 * second))
     \<lparr>UnlinkedAt := Some (1000 * second), RevokedDevice := ''5511@s.whatsapp.net''\<rparr>)" by (simp add: sample_unlinked_sel)
  from unlink_cleanup [OF sample_unlinked_sel(1) this u] r show ?thesis unfolding u by simp
qed

end
