(* ===== verification/Connection_Events.thy ===== *)
theory Connection_Events
  imports Connection_Problem "HOL-Library.Sublist"
begin

text \<open>
  Connection transitions told to webhook receivers (\<^verbatim>\<open>connection_events.go\<close>): the debounce of a
  disconnect, the suppression of repeated transitions, and the chain that keeps the legacy
  receiver's POSTs in order. Goroutines are entries of the state, and every point where one of them
  takes the transition lock, starts or ends a POST, or closes its channel is a step of its own; the
  runtime receiver's queue is the list of what was handed to it.
\<close>

section \<open>State\<close>

record connectionPayload =
  pl_state :: string
  pl_reason :: string
  pl_at :: instant
  pl_problem :: "ConnectionProblem option"
  pl_pairing :: string

definition event_key :: "string \<Rightarrow> string \<Rightarrow> string" where
  "event_key state reason = state @ '':'' @ reason"

abbreviation payload_key :: "connectionPayload \<Rightarrow> string" where
  "payload_key p \<equiv> event_key (pl_state p) (pl_reason p)"

text \<open>A goroutine that waits out the debounce; its context is cancelled on its own or with the bridge's.\<close>

record debounce =
  db_id :: nat
  db_payload :: connectionPayload
  db_legacy :: bool
  db_cancelled :: bool

text \<open>A reserved place in the delivery chain: waiting for its predecessor, posting, past its POST (or its
  deadline) and about to release its place, waiting to release it, and released.\<close>

datatype phase = Queued | Posting | Finishing | Deferred | Released

record delivery =
  dl_payload :: connectionPayload
  dl_sync :: bool
  dl_phase :: phase

record events_state =
  es_closing :: bool
  es_cancelled :: bool
  es_last :: string
  es_timer :: "nat option"
  es_next :: nat
  es_waiting :: "debounce list"
  es_runtime :: "connectionPayload list"
  es_deliveries :: "delivery list"
  es_posts :: "nat list"

record events_config =
  ec_legacy :: bool
  ec_runtime :: bool

section \<open>Operations\<close>

text \<open>Each of these runs under \<^verbatim>\<open>connectionEventsMu\<close>.\<close>

definition queueRuntimeConnection :: "events_config \<Rightarrow> connectionPayload \<Rightarrow> events_state \<Rightarrow> events_state" where
  "queueRuntimeConnection cfg p s = (if ec_runtime cfg then s\<lparr>es_runtime := es_runtime s @ [p]\<rparr> else s)"

definition queueConnectionDeliveryLocked :: "connectionPayload \<Rightarrow> bool \<Rightarrow> events_state \<Rightarrow> events_state" where
  "queueConnectionDeliveryLocked p synchronous s =
     s\<lparr>es_deliveries := es_deliveries s @ [\<lparr>dl_payload = p, dl_sync = synchronous, dl_phase = Queued\<rparr>]\<rparr>"

definition cancelDisconnect :: "events_state \<Rightarrow> events_state" where
  "cancelDisconnect s =
     (case es_timer s of
        None \<Rightarrow> s
      | Some i \<Rightarrow> s\<lparr>es_timer := None,
          es_waiting := map (\<lambda>d. if db_id d = i then d\<lparr>db_cancelled := True\<rparr> else d) (es_waiting s)\<rparr>)"

definition notifyConnection ::
    "events_config \<Rightarrow> conn \<Rightarrow> instant \<Rightarrow> string \<Rightarrow> string \<Rightarrow> bool \<Rightarrow> bool \<Rightarrow> events_state \<Rightarrow> events_state" where
  "notifyConnection cfg c now state reason immediate synchronous s =
     (let p = \<lparr>pl_state = state, pl_reason = reason, pl_at = now, pl_problem = map_option snd (cn_problem c),
               pl_pairing = cn_pairing c\<rparr>;
          key = event_key state reason
      in if es_closing s \<or> es_cancelled s then s
         else if \<not> (state \<noteq> ''disconnected'' \<or> immediate) \<and> es_timer s \<noteq> None then s
         else let s1 = (if state \<noteq> ''disconnected'' \<or> immediate then cancelDisconnect s else s)
              in if key = es_last s1 then s1
                 else if \<not> ec_legacy cfg \<and> (immediate \<or> \<not> ec_runtime cfg) then
                   queueRuntimeConnection cfg p (s1\<lparr>es_last := key\<rparr>)
                 else if immediate then
                   queueConnectionDeliveryLocked p synchronous (queueRuntimeConnection cfg p (s1\<lparr>es_last := key\<rparr>))
                 else s1\<lparr>es_timer := Some (es_next s1), es_next := es_next s1 + 1,
                         es_waiting := es_waiting s1 @
                           [\<lparr>db_id = es_next s1, db_payload = p, db_legacy = ec_legacy cfg, db_cancelled = False\<rparr>]\<rparr>)"

text \<open>The debounce of one goroutine is over and it has the lock.\<close>

definition fire :: "events_config \<Rightarrow> debounce \<Rightarrow> events_state \<Rightarrow> events_state" where
  "fire cfg d s =
     (let s0 = s\<lparr>es_waiting := remove1 d (es_waiting s)\<rparr>
      in if db_cancelled d \<or> es_cancelled s then s0
         else let s1 = queueRuntimeConnection cfg (db_payload d)
                    (s0\<lparr>es_timer := None, es_last := payload_key (db_payload d)\<rparr>)
              in if \<not> db_legacy d then s1 else queueConnectionDeliveryLocked (db_payload d) False s1)"

definition set_phase :: "nat \<Rightarrow> phase \<Rightarrow> events_state \<Rightarrow> events_state" where
  "set_phase i ph s = s\<lparr>es_deliveries := (es_deliveries s)[i := (es_deliveries s ! i)\<lparr>dl_phase := ph\<rparr>]\<rparr>"

definition phase_of :: "events_state \<Rightarrow> nat \<Rightarrow> phase" where
  "phase_of s i = dl_phase (es_deliveries s ! i)"

text \<open>The predecessor's channel is closed, or there is none.\<close>

definition turn_of :: "events_state \<Rightarrow> nat \<Rightarrow> bool" where
  "turn_of s i \<longleftrightarrow> i = 0 \<or> phase_of s (i - 1) = Released"

definition finishConnectionDelivery :: "nat \<Rightarrow> events_state \<Rightarrow> events_state" where
  "finishConnectionDelivery i s = set_phase i (if turn_of s i then Released else Deferred) s"

definition stopConnectionEvents :: "events_state \<Rightarrow> events_state" where
  "stopConnectionEvents s = cancelDisconnect (s\<lparr>es_closing := True\<rparr>)"

definition new_events :: events_state where
  "new_events = \<lparr>es_closing = False, es_cancelled = False, es_last = [], es_timer = None, es_next = 0,
     es_waiting = [], es_runtime = [], es_deliveries = [], es_posts = []\<rparr>"

section \<open>Steps\<close>

text \<open>\<open>expire\<close>: the context of a waiting delivery ends, for a synchronous one at its deadline, for another
  with the bridge.\<close>

inductive event_step :: "events_config \<Rightarrow> events_state \<Rightarrow> events_state \<Rightarrow> bool" for cfg where
  notify: "event_step cfg s (notifyConnection cfg c now state reason immediate synchronous s)"
| fires: "d \<in> set (es_waiting s) \<Longrightarrow> event_step cfg s (fire cfg d s)"
| quits: "d \<in> set (es_waiting s) \<Longrightarrow> db_cancelled d \<or> es_cancelled s \<Longrightarrow>
     event_step cfg s (s\<lparr>es_waiting := remove1 d (es_waiting s)\<rparr>)"
| post: "i < length (es_deliveries s) \<Longrightarrow> phase_of s i = Queued \<Longrightarrow> turn_of s i \<Longrightarrow>
     event_step cfg s ((set_phase i Posting s)\<lparr>es_posts := es_posts s @ [i]\<rparr>)"
| expire: "i < length (es_deliveries s) \<Longrightarrow> phase_of s i = Queued \<Longrightarrow> dl_sync (es_deliveries s ! i) \<or> es_cancelled s \<Longrightarrow>
     event_step cfg s (set_phase i Finishing s)"
| posted: "i < length (es_deliveries s) \<Longrightarrow> phase_of s i = Posting \<Longrightarrow> event_step cfg s (set_phase i Finishing s)"
| finish: "i < length (es_deliveries s) \<Longrightarrow> phase_of s i = Finishing \<Longrightarrow>
     event_step cfg s (finishConnectionDelivery i s)"
| release: "i < length (es_deliveries s) \<Longrightarrow> phase_of s i = Deferred \<Longrightarrow> turn_of s i \<Longrightarrow>
     event_step cfg s (set_phase i Released s)"
| stop: "event_step cfg s (stopConnectionEvents s)"
| cancel: "event_step cfg s (s\<lparr>es_cancelled := True\<rparr>)"

inductive_cases event_stepE: "event_step cfg s s'"

section \<open>The delivery chain\<close>

text \<open>Released places form a prefix of the chain, a posting one comes right after it, and the POSTs made so
  far are places in increasing order, none beyond the first unreleased place.\<close>

definition chain_at :: "nat \<Rightarrow> phase list \<Rightarrow> nat list \<Rightarrow> bool" where
  "chain_at k phs posts \<longleftrightarrow> k \<le> length phs \<and> (\<forall>i < k. phs ! i = Released)
     \<and> (\<forall>i. k \<le> i \<and> i < length phs \<longrightarrow> phs ! i \<noteq> Released \<and> (phs ! i = Posting \<longrightarrow> i = k))
     \<and> sorted_wrt (<) posts \<and> (\<forall>i \<in> set posts. i \<le> k \<and> i < length phs \<and> (i = k \<longrightarrow> phs ! i \<noteq> Queued))"

abbreviation phases :: "events_state \<Rightarrow> phase list" where
  "phases s \<equiv> map dl_phase (es_deliveries s)"

definition chain_ok :: "events_state \<Rightarrow> bool" where
  "chain_ok s \<longleftrightarrow> (\<exists>k. chain_at k (phases s) (es_posts s))"

lemma chain_append: "chain_at k phs posts \<Longrightarrow> chain_at k (phs @ [Queued]) posts"
  by (auto simp: chain_at_def nth_append)

lemma chain_turn:
  assumes "chain_at k phs posts" and "i < length phs" and "phs ! i \<noteq> Released" and "i = 0 \<or> phs ! (i - 1) = Released"
  shows "i = k"
proof (rule antisym)
  show "k \<le> i" using assms(1,3) by (auto simp: chain_at_def not_less [symmetric])
  show "i \<le> k"
  proof (cases "i = 0")
    case False
    with assms(2,4) have "\<not> (k \<le> i - 1 \<and> i - 1 < length phs)" using assms(1) by (auto simp: chain_at_def)
    with assms(2) False show ?thesis by auto
  qed simp
qed

lemma chain_other:
  assumes "chain_at k phs posts" and "i < length phs" and "phs ! i \<noteq> Released" and "ph \<in> {Finishing, Deferred}"
  shows "chain_at k (phs[i := ph]) posts"
  using assms unfolding chain_at_def by (auto simp: nth_list_update)

lemma chain_release:
  assumes "chain_at k phs posts" and "k < length phs"
  shows "chain_at (Suc k) (phs[k := Released]) posts"
proof -
  have "phs ! i \<noteq> Released \<and> phs ! i \<noteq> Posting" if "Suc k \<le> i" "i < length phs" for i
    using assms(1) that by (metis Suc_n_not_le_n chain_at_def le_Suc_eq le_trans nat_le_linear)
  with assms show ?thesis unfolding chain_at_def by (auto simp: nth_list_update less_Suc_eq)
qed

lemma chain_post:
  assumes "chain_at k phs posts" and "k < length phs" and "phs ! k = Queued"
  shows "chain_at k (phs[k := Posting]) (posts @ [k])"
  using assms unfolding chain_at_def by (auto simp: nth_list_update sorted_wrt_append le_less)

lemma phases_set: "phases (set_phase i ph s) = (phases s)[i := ph]"
  by (cases "i < length (es_deliveries s)") (simp_all add: set_phase_def map_update)

lemma set_phase_sel [simp]:
  "es_posts (set_phase i ph s) = es_posts s" "length (es_deliveries (set_phase i ph s)) = length (es_deliveries s)"
  by (simp_all add: set_phase_def)

lemma chain_ok_other:
  assumes "chain_ok s" and "i < length (es_deliveries s)" and "phase_of s i \<noteq> Released" and "ph \<in> {Finishing, Deferred}"
  shows "chain_ok (set_phase i ph s)"
proof -
  obtain k where k: "chain_at k (phases s) (es_posts s)" using assms(1) by (auto simp: chain_ok_def)
  have "chain_at k ((phases s)[i := ph]) (es_posts s)"
    by (rule chain_other [OF k]) (use assms in \<open>auto simp: phase_of_def\<close>)
  then show ?thesis by (auto simp: chain_ok_def phases_set)
qed

lemma turn_of_phases: "i < length (es_deliveries s) \<Longrightarrow> turn_of s i \<longleftrightarrow> i = 0 \<or> phases s ! (i - 1) = Released"
  by (auto simp: turn_of_def phase_of_def)

lemma phases_queue [simp]:
  "phases (queueConnectionDeliveryLocked p b s) = phases s @ [Queued]"
  "es_posts (queueConnectionDeliveryLocked p b s) = es_posts s"
  "es_deliveries (queueRuntimeConnection cfg p s) = es_deliveries s"
  "es_posts (queueRuntimeConnection cfg p s) = es_posts s"
  "es_deliveries (cancelDisconnect s) = es_deliveries s" "es_posts (cancelDisconnect s) = es_posts s"
  by (simp_all add: queueConnectionDeliveryLocked_def queueRuntimeConnection_def cancelDisconnect_def split: option.splits)

lemma chain_ok_queue: "chain_ok s \<Longrightarrow> phases s' = phases s \<or> phases s' = phases s @ [Queued] \<Longrightarrow> es_posts s' = es_posts s \<Longrightarrow> chain_ok s'"
  unfolding chain_ok_def by (metis chain_append)

lemma notify_phases:
  "(phases (notifyConnection cfg c now st reason im sy s) = phases s
     \<or> phases (notifyConnection cfg c now st reason im sy s) = phases s @ [Queued])
   \<and> es_posts (notifyConnection cfg c now st reason im sy s) = es_posts s"
  by (simp add: notifyConnection_def Let_def)

lemma fire_phases:
  "(phases (fire cfg d s) = phases s \<or> phases (fire cfg d s) = phases s @ [Queued]) \<and> es_posts (fire cfg d s) = es_posts s"
  by (simp add: fire_def Let_def)

lemma chain_step:
  assumes "event_step cfg s s'" and "chain_ok s"
  shows "chain_ok s'"
  using assms(1)
proof (cases rule: event_step.cases)
  case (notify c now st reason im sy)
  show ?thesis unfolding notify by (rule chain_ok_queue [OF assms(2)]) (use notify_phases in blast)+
next
  case (fires d)
  show ?thesis unfolding fires by (rule chain_ok_queue [OF assms(2)]) (use fire_phases in blast)+
next
  case (quits d)
  then show ?thesis using assms(2) by (simp add: chain_ok_def)
next
  case (post i)
  obtain k where k: "chain_at k (phases s) (es_posts s)" using assms(2) by (auto simp: chain_ok_def)
  have "i = k" using post k by (intro chain_turn [OF k]) (auto simp: phase_of_def turn_of_phases)
  with post chain_post [OF k] show ?thesis by (auto simp: chain_ok_def phases_set phase_of_def)
next
  case (expire i)
  then show ?thesis using chain_ok_other [OF assms(2), of i Finishing] by simp
next
  case (posted i)
  then show ?thesis using chain_ok_other [OF assms(2), of i Finishing] by simp
next
  case (finish i)
  obtain k where k: "chain_at k (phases s) (es_posts s)" using assms(2) by (auto simp: chain_ok_def)
  show ?thesis
  proof (cases "turn_of s i")
    case True
    then have "i = k" using finish k by (intro chain_turn [OF k]) (auto simp: phase_of_def turn_of_phases)
    with finish True chain_release [OF k] show ?thesis
      by (auto simp: chain_ok_def finishConnectionDelivery_def phases_set)
  next
    case False
    with finish chain_ok_other [OF assms(2), of i Deferred] show ?thesis by (simp add: finishConnectionDelivery_def)
  qed
next
  case (release i)
  obtain k where k: "chain_at k (phases s) (es_posts s)" using assms(2) by (auto simp: chain_ok_def)
  have "i = k" using release k by (intro chain_turn [OF k]) (auto simp: phase_of_def turn_of_phases)
  with release chain_release [OF k] show ?thesis by (auto simp: chain_ok_def phases_set)
next
  case stop
  then show ?thesis using assms(2) by (simp add: chain_ok_def stopConnectionEvents_def)
next
  case cancel
  then show ?thesis using assms(2) by (simp add: chain_ok_def)
qed

section \<open>The debounce\<close>

text \<open>Goroutine identifiers are distinct and below the next one; only the one whose cancel function is
  stored is not cancelled, and its transition differs from the last one announced; the last key
  announced is that of the last payload handed to the runtime receiver, where there is one, and
  no two payloads handed over in a row have the same key.\<close>

definition timer_ok :: "events_state \<Rightarrow> bool" where
  "timer_ok s \<longleftrightarrow> distinct (map db_id (es_waiting s)) \<and> (\<forall>d \<in> set (es_waiting s). db_id d < es_next s)
     \<and> (\<forall>d \<in> set (es_waiting s). \<not> db_cancelled d \<longrightarrow> es_timer s = Some (db_id d) \<and> payload_key (db_payload d) \<noteq> es_last s)"

definition keys_ok :: "events_config \<Rightarrow> events_state \<Rightarrow> bool" where
  "keys_ok cfg s \<longleftrightarrow> (ec_runtime cfg \<longrightarrow> es_runtime s \<noteq> [] \<longrightarrow> es_last s = payload_key (last (es_runtime s)))
     \<and> successively (\<lambda>p q. payload_key p \<noteq> payload_key q) (es_runtime s) \<and> (es_runtime s \<noteq> [] \<longrightarrow> ec_runtime cfg)"

lemma live_unique:
  assumes "timer_ok s" and "d \<in> set (es_waiting s)" and "x \<in> set (es_waiting s)" and "\<not> db_cancelled d" and "\<not> db_cancelled x"
  shows "d = x"
proof -
  have "es_timer s = Some (db_id d)" "es_timer s = Some (db_id x)" using assms unfolding timer_ok_def by blast+
  then have "db_id d = db_id x" by simp
  with assms(1-3) show ?thesis by (auto simp: timer_ok_def distinct_map dest: inj_onD)
qed

lemma timer_ok_cancel:
  assumes "timer_ok s"
  shows "timer_ok (cancelDisconnect s) \<and> (\<forall>d \<in> set (es_waiting (cancelDisconnect s)). db_cancelled d)"
proof (cases "es_timer s")
  case None
  with assms show ?thesis by (auto simp: timer_ok_def cancelDisconnect_def)
next
  case (Some i)
  let ?f = "\<lambda>d. if db_id d = i then d\<lparr>db_cancelled := True\<rparr> else d"
  have ids: "map (db_id \<circ> ?f) ds = map db_id ds" for ds by (rule map_cong) auto
  have "distinct (map (db_id \<circ> ?f) (es_waiting s))" unfolding ids using assms by (simp add: timer_ok_def)
  with assms Some show ?thesis by (auto simp: timer_ok_def cancelDisconnect_def)
qed

lemma keys_ok_queue:
  assumes "keys_ok cfg s" and "payload_key p \<noteq> es_last s"
  shows "keys_ok cfg (queueRuntimeConnection cfg p (s\<lparr>es_last := payload_key p\<rparr>))"
  using assms
  by (auto simp: keys_ok_def queueRuntimeConnection_def successively_append_iff)

lemma keys_ok_sel:
  "es_last s' = es_last s \<Longrightarrow> es_runtime s' = es_runtime s \<Longrightarrow> keys_ok cfg s \<Longrightarrow> keys_ok cfg s'"
  by (simp add: keys_ok_def)

lemma cancel_sel [simp]:
  "es_last (cancelDisconnect s) = es_last s" "es_runtime (cancelDisconnect s) = es_runtime s"
  by (simp_all add: cancelDisconnect_def split: option.splits)

lemma queue_sel [simp]:
  "es_last (queueRuntimeConnection cfg p s) = es_last s" "es_timer (queueRuntimeConnection cfg p s) = es_timer s"
  "es_waiting (queueRuntimeConnection cfg p s) = es_waiting s" "es_next (queueRuntimeConnection cfg p s) = es_next s"
  "es_last (queueConnectionDeliveryLocked p b s) = es_last s" "es_timer (queueConnectionDeliveryLocked p b s) = es_timer s"
  "es_waiting (queueConnectionDeliveryLocked p b s) = es_waiting s" "es_next (queueConnectionDeliveryLocked p b s) = es_next s"
  "es_runtime (queueConnectionDeliveryLocked p b s) = es_runtime s"
  by (simp_all add: queueRuntimeConnection_def queueConnectionDeliveryLocked_def)

lemma timer_ok_sel:
  "es_waiting s' = es_waiting s \<Longrightarrow> es_next s' = es_next s \<Longrightarrow> \<forall>d \<in> set (es_waiting s). db_cancelled d
     \<Longrightarrow> timer_ok s \<Longrightarrow> timer_ok s'"
  by (simp add: timer_ok_def)

lemma timer_ok_remove: "timer_ok s \<Longrightarrow> timer_ok (s\<lparr>es_waiting := remove1 d (es_waiting s)\<rparr>)"
  by (auto simp: timer_ok_def distinct_map distinct_remove1 dest: notin_set_remove1 intro: inj_on_subset set_remove1_subset)

lemma notify_ok:
  assumes "timer_ok s" and "keys_ok cfg s"
  shows "timer_ok (notifyConnection cfg c now st reason im sy s) \<and> keys_ok cfg (notifyConnection cfg c now st reason im sy s)"
proof -
  define p where "p = \<lparr>pl_state = st, pl_reason = reason, pl_at = now, pl_problem = map_option snd (cn_problem c),
      pl_pairing = cn_pairing c\<rparr>"
  define s1 where "s1 = (if st \<noteq> ''disconnected'' \<or> im then cancelDisconnect s else s)"
  have key: "payload_key p = event_key st reason" by (simp add: p_def)
  have run: "notifyConnection cfg c now st reason im sy s \<in> {s, s1} \<union>
      (if payload_key p = es_last s1 \<or> \<not> (\<forall>d \<in> set (es_waiting s1). db_cancelled d) then {} else
       {queueRuntimeConnection cfg p (s1\<lparr>es_last := payload_key p\<rparr>),
        queueConnectionDeliveryLocked p sy (queueRuntimeConnection cfg p (s1\<lparr>es_last := payload_key p\<rparr>)),
        s1\<lparr>es_timer := Some (es_next s1), es_next := es_next s1 + 1, es_waiting := es_waiting s1 @
           [\<lparr>db_id = es_next s1, db_payload = p, db_legacy = ec_legacy cfg, db_cancelled = False\<rparr>]\<rparr>})"
  proof (cases "es_closing s \<or> es_cancelled s \<or> (\<not> (st \<noteq> ''disconnected'' \<or> im) \<and> es_timer s \<noteq> None)")
    case True
    then have "notifyConnection cfg c now st reason im sy s = s" by (elim disjE) (simp_all add: notifyConnection_def Let_def)
    then show ?thesis by simp
  next
    case False
    then have "\<forall>d \<in> set (es_waiting s1). db_cancelled d"
      using assms(1) timer_ok_cancel [OF assms(1)] by (auto simp: s1_def timer_ok_def)
    moreover have "notifyConnection cfg c now st reason im sy s =
       (if payload_key p = es_last s1 then s1
        else if \<not> ec_legacy cfg \<and> (im \<or> \<not> ec_runtime cfg) then queueRuntimeConnection cfg p (s1\<lparr>es_last := payload_key p\<rparr>)
        else if im then queueConnectionDeliveryLocked p sy (queueRuntimeConnection cfg p (s1\<lparr>es_last := payload_key p\<rparr>))
        else s1\<lparr>es_timer := Some (es_next s1), es_next := es_next s1 + 1, es_waiting := es_waiting s1 @
           [\<lparr>db_id = es_next s1, db_payload = p, db_legacy = ec_legacy cfg, db_cancelled = False\<rparr>]\<rparr>)"
    proof -
      from False have "(es_closing s \<or> es_cancelled s) = False" "(\<not> (st \<noteq> ''disconnected'' \<or> im) \<and> es_timer s \<noteq> None) = False"
        by auto
      then show ?thesis
        by (simp only: notifyConnection_def Let_def if_False p_def s1_def connectionPayload.select_convs)
    qed
    ultimately show ?thesis by simp
  qed
  have s1: "timer_ok s1" "keys_ok cfg s1"
    using assms timer_ok_cancel [OF assms(1)] by (auto simp: s1_def intro: keys_ok_sel [of _ s])
  show ?thesis
  proof (cases "payload_key p = es_last s1 \<or> \<not> (\<forall>d \<in> set (es_waiting s1). db_cancelled d)")
    case True
    with run assms s1 show ?thesis by auto
  next
    case False
    let ?q = "queueRuntimeConnection cfg p (s1\<lparr>es_last := payload_key p\<rparr>)"
    let ?w = "s1\<lparr>es_timer := Some (es_next s1), es_next := es_next s1 + 1, es_waiting := es_waiting s1 @
           [\<lparr>db_id = es_next s1, db_payload = p, db_legacy = ec_legacy cfg, db_cancelled = False\<rparr>]\<rparr>"
    have q: "keys_ok cfg ?q" "timer_ok ?q" using keys_ok_queue [OF s1(2), of p] timer_ok_sel [of ?q s1] False s1 by auto
    moreover have "keys_ok cfg (queueConnectionDeliveryLocked p sy ?q)" "timer_ok (queueConnectionDeliveryLocked p sy ?q)"
      using keys_ok_sel [OF _ _ q(1), of "queueConnectionDeliveryLocked p sy ?q"]
        timer_ok_sel [of "queueConnectionDeliveryLocked p sy ?q" ?q] False q by auto
    moreover have "keys_ok cfg ?w" "timer_ok ?w"
      using s1 False by (auto simp: keys_ok_def timer_ok_def less_Suc_eq)
    ultimately show ?thesis using run assms s1 False by auto
  qed
qed

lemma fire_ok:
  assumes "timer_ok s" and "keys_ok cfg s" and "d \<in> set (es_waiting s)"
  shows "timer_ok (fire cfg d s) \<and> keys_ok cfg (fire cfg d s)"
proof -
  have rem: "timer_ok (s\<lparr>es_waiting := remove1 d (es_waiting s)\<rparr>)" by (rule timer_ok_remove [OF assms(1)])
  show ?thesis
  proof (cases "db_cancelled d \<or> es_cancelled s")
    case True
    with rem assms show ?thesis by (auto simp: fire_def intro: keys_ok_sel [of _ s])
  next
    case False
    let ?s = "s\<lparr>es_waiting := remove1 d (es_waiting s), es_timer := None\<rparr>"
    let ?q = "queueRuntimeConnection cfg (db_payload d) (?s\<lparr>es_last := payload_key (db_payload d)\<rparr>)"
    have key: "payload_key (db_payload d) \<noteq> es_last s" using assms(1,3) False by (auto simp: timer_ok_def)
    have "x = d" if "x \<in> set (es_waiting s)" "\<not> db_cancelled x" for x
      using live_unique [OF assms(1)] assms(3) False that by auto
    moreover have "distinct (es_waiting s)" using assms(1) by (simp add: timer_ok_def distinct_map)
    ultimately have others: "\<forall>x \<in> set (remove1 d (es_waiting s)). db_cancelled x" by auto
    have q: "keys_ok cfg ?q" by (rule keys_ok_queue) (use assms(2) key in \<open>auto simp: keys_ok_def\<close>)
    moreover have t: "timer_ok ?q" using rem others by (simp add: timer_ok_def)
    moreover have "fire cfg d s = (if \<not> db_legacy d then ?q else queueConnectionDeliveryLocked (db_payload d) False ?q)"
      using False by (simp add: fire_def Let_def)
    ultimately show ?thesis using others
      by (auto intro: keys_ok_sel [OF _ _ q] timer_ok_sel [OF _ _ _ t])
  qed
qed

lemma set_phase_debounce [simp]:
  "es_last (set_phase i ph s) = es_last s" "es_timer (set_phase i ph s) = es_timer s"
  "es_waiting (set_phase i ph s) = es_waiting s" "es_next (set_phase i ph s) = es_next s"
  "es_runtime (set_phase i ph s) = es_runtime s"
  by (simp_all add: set_phase_def)

lemma debounce_step:
  assumes "event_step cfg s s'" and "timer_ok s \<and> keys_ok cfg s"
  shows "timer_ok s' \<and> keys_ok cfg s'"
  using assms(1)
proof (cases rule: event_step.cases)
  case (notify c now st reason im sy)
  with assms(2) notify_ok show ?thesis by simp
next
  case (fires d)
  with assms(2) fire_ok show ?thesis by simp
next
  case (quits d)
  with assms(2) timer_ok_remove show ?thesis by (simp add: keys_ok_def)
next
  case stop
  let ?s = "s\<lparr>es_closing := True\<rparr>"
  have "timer_ok ?s" using assms(2) by (simp add: timer_ok_def)
  with stop assms(2) timer_ok_cancel [of ?s] show ?thesis by (simp add: stopConnectionEvents_def keys_ok_def)
qed (use assms(2) in \<open>simp_all add: timer_ok_def keys_ok_def finishConnectionDelivery_def\<close>)

lemma events_reachable:
  assumes "(event_step cfg)\<^sup>*\<^sup>* new_events s"
  shows "chain_ok s \<and> timer_ok s \<and> keys_ok cfg s"
  using assms
proof (induction rule: rtranclp_induct)
  case base
  have "chain_at 0 [] []" by (simp add: chain_at_def)
  then show ?case by (auto simp: new_events_def chain_ok_def timer_ok_def keys_ok_def)
next
  case (step s s')
  then show ?case using chain_step debounce_step by blast
qed

lemma disconnect_waits:
  assumes "ec_legacy cfg \<or> ec_runtime cfg"
  shows "let s' = notifyConnection cfg c now ''disconnected'' reason False False s
     in es_runtime s' = es_runtime s \<and> es_deliveries s' = es_deliveries s \<and> es_last s' = es_last s
        \<and> es_closing s' = es_closing s \<and> es_cancelled s' = es_cancelled s"
  using assms by (elim disjE) (simp_all add: notifyConnection_def Let_def)

lemma repeat_silent:
  assumes "es_last s = event_key ''connected'' reason" and "timer_ok s"
  shows "let s' = notifyConnection cfg c now ''connected'' reason True False s
     in es_runtime s' = es_runtime s \<and> es_deliveries s' = es_deliveries s \<and> es_last s' = es_last s
        \<and> (\<not> es_closing s \<and> \<not> es_cancelled s \<longrightarrow> (\<forall>d \<in> set (es_waiting s'). db_cancelled d))"
  using assms timer_ok_cancel [OF assms(2)] by (simp add: notifyConnection_def Let_def)

lemma flap_silent:
  assumes "timer_ok s" and "keys_ok cfg s" and "es_last s = event_key ''connected'' reason" and "ec_legacy cfg \<or> ec_runtime cfg"
  shows "let s' = notifyConnection cfg c2 now2 ''connected'' reason True False
                    (notifyConnection cfg c1 now1 ''disconnected'' reason1 False False s)
         in es_runtime s' = es_runtime s \<and> es_deliveries s' = es_deliveries s \<and> es_last s' = es_last s
            \<and> (\<not> es_closing s \<and> \<not> es_cancelled s \<longrightarrow> (\<forall>d \<in> set (es_waiting s'). db_cancelled d))"
  using disconnect_waits [OF assms(4), of c1 now1 reason1 s]
    repeat_silent [of "notifyConnection cfg c1 now1 ''disconnected'' reason1 False False s" reason cfg c2 now2]
    notify_ok [OF assms(1,2), of c1 now1 "''disconnected''" reason1 False False] assms(3)
  by (simp add: Let_def)

section \<open>Properties\<close>

text \<open>C38. The legacy receiver hears transitions one at a time and in the order they happened: in every
  reachable state at most one POST is under way, every transition before it has released its place,
  and the POSTs made so far are those of a subsequence of the transitions, each made at most once.\<close>

theorem connection_posts_ordered:
  assumes "(event_step cfg)\<^sup>*\<^sup>* new_events s"
  shows "(\<forall>i j. i < length (es_deliveries s) \<and> phase_of s i = Posting \<and> j < i \<longrightarrow> phase_of s j = Released)
     \<and> (\<forall>i j. i < length (es_deliveries s) \<and> j < length (es_deliveries s) \<and> phase_of s i = Posting \<and> phase_of s j = Posting \<longrightarrow> i = j)
     \<and> sorted_wrt (<) (es_posts s) \<and> (\<forall>i \<in> set (es_posts s). i < length (es_deliveries s))"
proof -
  from events_reachable [OF assms] obtain k where "chain_at k (phases s) (es_posts s)" by (auto simp: chain_ok_def)
  then have k: "k \<le> length (es_deliveries s)" "\<forall>i < k. phase_of s i = Released"
      "\<forall>i. k \<le> i \<and> i < length (es_deliveries s) \<longrightarrow> (phase_of s i = Posting \<longrightarrow> i = k)"
      "sorted_wrt (<) (es_posts s)" "\<forall>i \<in> set (es_posts s). i < length (es_deliveries s)"
    by (auto simp: chain_at_def phase_of_def)
  have "i = k" if "i < length (es_deliveries s)" "phase_of s i = Posting" for i
    using k(2,3) that by (metis not_less phase.distinct(13))
  with k(2,4,5) show ?thesis by blast
qed

text \<open>Receivers are not told the same thing twice in a row and a flap shorter than the debounce is not
  told at all: in every reachable state the transitions handed to the runtime receiver have no two
  equal neighbours and at most one debounced transition can still be announced; and a disconnect
  followed by a reconnect before its debounce ends leaves everything announced so far as it was, with
  no disconnect pending.\<close>

lemma connection_events_debounced:
  assumes "(event_step cfg)\<^sup>*\<^sup>* new_events s"
  shows "successively (\<lambda>p q. payload_key p \<noteq> payload_key q) (es_runtime s)
     \<and> (\<forall>d \<in> set (es_waiting s). \<forall>x \<in> set (es_waiting s). \<not> db_cancelled d \<and> \<not> db_cancelled x \<longrightarrow> d = x)
     \<and> (es_last s = event_key ''connected'' reason \<and> (ec_legacy cfg \<or> ec_runtime cfg) \<longrightarrow>
        (let s' = notifyConnection cfg c2 now2 ''connected'' reason True False
                    (notifyConnection cfg c1 now1 ''disconnected'' reason1 False False s)
         in es_runtime s' = es_runtime s \<and> es_deliveries s' = es_deliveries s \<and> es_last s' = es_last s
            \<and> (\<not> es_closing s \<and> \<not> es_cancelled s \<longrightarrow> (\<forall>d \<in> set (es_waiting s'). db_cancelled d))))"
proof -
  have ok: "timer_ok s" "keys_ok cfg s" using events_reachable [OF assms] by auto
  have "d = x" if "d \<in> set (es_waiting s)" "x \<in> set (es_waiting s)" "\<not> db_cancelled d" "\<not> db_cancelled x" for d x
    using live_unique [OF ok(1)] that by blast
  moreover have "let s' = notifyConnection cfg c2 now2 ''connected'' reason True False
                    (notifyConnection cfg c1 now1 ''disconnected'' reason1 False False s)
         in es_runtime s' = es_runtime s \<and> es_deliveries s' = es_deliveries s \<and> es_last s' = es_last s
            \<and> (\<not> es_closing s \<and> \<not> es_cancelled s \<longrightarrow> (\<forall>d \<in> set (es_waiting s'). db_cancelled d))"
    if "es_last s = event_key ''connected'' reason" "ec_legacy cfg \<or> ec_runtime cfg"
    by (rule flap_silent [OF ok that])
  ultimately show ?thesis using ok(2) by (auto simp: keys_ok_def)
qed

definition both_receivers :: events_config where
  "both_receivers = \<lparr>ec_legacy = True, ec_runtime = True\<rparr>"

definition idle_conn :: conn where
  "idle_conn = start_conn None None \<lparr>sd_saved = None, sd_part = False\<rparr>"

definition sample_connected :: events_state where
  "sample_connected = notifyConnection both_receivers idle_conn 5 ''connected'' ''authenticated'' True False new_events"

lemma sample_connected_reachable: "(event_step both_receivers)\<^sup>*\<^sup>* new_events sample_connected"
  unfolding sample_connected_def by (rule r_into_rtranclp) (rule event_step.notify)

theorem connection_posts_ordered_witness:
  "let s = (set_phase 0 Posting sample_connected)\<lparr>es_posts := [0]\<rparr>
   in phase_of s 0 = Posting \<and> sorted_wrt (<) (es_posts s) \<and> (\<forall>i \<in> set (es_posts s). i < length (es_deliveries s))"
proof -
  let ?s = "(set_phase 0 Posting sample_connected)\<lparr>es_posts := es_posts sample_connected @ [0]\<rparr>"
  have "length (es_deliveries sample_connected) = 1" "phase_of sample_connected 0 = Queued" "es_posts sample_connected = []"
    by code_simp+
  moreover from this have "event_step both_receivers sample_connected ?s" by (intro event_step.post) (simp_all add: turn_of_def)
  ultimately have "(event_step both_receivers)\<^sup>*\<^sup>* new_events ?s" and e: "es_posts sample_connected = []"
    using sample_connected_reachable by auto
  from connection_posts_ordered [OF this(1)] have "\<forall>i \<in> set (es_posts ?s). i < length (es_deliveries ?s)" "sorted_wrt (<) (es_posts ?s)"
    by blast+
  moreover have "phase_of ((set_phase 0 Posting sample_connected)\<lparr>es_posts := [0]\<rparr>) 0 = Posting" by code_simp
  ultimately show ?thesis unfolding e Let_def append_Nil by blast
qed

theorem connection_events_debounced_witness:
  "let s' = notifyConnection both_receivers idle_conn 9 ''connected'' ''authenticated'' True False
      (notifyConnection both_receivers idle_conn 7 ''disconnected'' ''transport_lost'' False False sample_connected)
   in es_runtime s' = es_runtime sample_connected \<and> length (es_runtime s') = 1 \<and> (\<forall>d \<in> set (es_waiting s'). db_cancelled d)"
proof -
  have "es_last sample_connected = event_key ''connected'' ''authenticated''" "length (es_runtime sample_connected) = 1"
    "\<not> es_closing sample_connected" "\<not> es_cancelled sample_connected" "ec_legacy both_receivers" by code_simp+
  with connection_events_debounced [OF sample_connected_reachable, of "''authenticated''" idle_conn 9 idle_conn 7 "''transport_lost''"]
  show ?thesis by (simp add: Let_def)
qed

end
