(* ===== verification/Connection_Handler.thy ===== *)
theory Connection_Handler
  imports Connection_Events
begin

text \<open>
  What the bridge does on each connection event of the SDK (the connection cases of
  \<^verbatim>\<open>handleEvent\<close> in \<^verbatim>\<open>events.go\<close>): the connection problem it records or clears, the transition
  it announces, and the reconnect it asks for. It joins the state of the previous two theories with
  the reconnect channel (one slot), the forced-reconnect flag, the paired flag, the generation of the
  recipient cache, the stream-replaced timers and the exit code. A receiver of \<^verbatim>\<open>notifyConnection\<close>'s
  synchronous POST is waited for by the handler; the POST itself is a step of \<open>event_step\<close>.
\<close>

datatype conn_event =
    Connected
  | ManualLoginReconnect
  | KeepAliveTimeout instant
  | LoggedOut bool int
  | Disconnected
  | ConnectFailure int
  | StreamError
  | StreamReplaced
  | ClientOutdated
  | TemporaryBan int duration
  | PairPasskeyError

record link =
  lk_conn :: conn
  lk_events :: events_state
  lk_signal :: bool
  lk_force :: bool
  lk_paired :: bool
  lk_cacheGeneration :: nat
  lk_timers :: nat
  lk_exit :: "int option"

definition exitCodeClientOutdated :: int where "exitCodeClientOutdated = 4"

text \<open>The SDK's \<^verbatim>\<open>KeepAliveMaxFailTime\<close> is the argument \<open>maxFail\<close>.\<close>

definition notify_link :: "events_config \<Rightarrow> conn_env \<Rightarrow> string \<Rightarrow> string \<Rightarrow> bool \<Rightarrow> bool \<Rightarrow> link \<Rightarrow> link" where
  "notify_link cfg e state reason immediate synchronous l =
     l\<lparr>lk_events := notifyConnection cfg (lk_conn l) (ce_now e) state reason immediate synchronous (lk_events l)\<rparr>"

definition set_pairing :: "events_config \<Rightarrow> conn_env \<Rightarrow> string \<Rightarrow> link \<Rightarrow> link" where
  "set_pairing cfg e state l =
     (if cn_logout (lk_conn l) then l
      else let l1 = l\<lparr>lk_conn := setPairingState state (lk_conn l)\<rparr>
           in if state \<noteq> [] then notify_link cfg e ''pairing_required'' state True False l1 else l1)"

definition record_link :: "conn_env \<Rightarrow> int \<Rightarrow> int \<Rightarrow> duration \<Rightarrow> link \<Rightarrow> string \<times> link" where
  "record_link e code reason expire l =
     (case recordConnectionProblem e code reason expire (lk_conn l) of
        (p, c) \<Rightarrow> (case p of None \<Rightarrow> [] | Some (_, q) \<Rightarrow> Kind q, l\<lparr>lk_conn := c\<rparr>))"

definition clear_recipients :: "link \<Rightarrow> link" where
  "clear_recipients l = l\<lparr>lk_cacheGeneration := lk_cacheGeneration l + 1\<rparr>"

definition ask_reconnect :: "link \<Rightarrow> link" where
  "ask_reconnect l = l\<lparr>lk_signal := True\<rparr>"

definition scheduleReconnect :: "link \<Rightarrow> link" where
  "scheduleReconnect l = ask_reconnect (l\<lparr>lk_force := True\<rparr>)"

text \<open>The delayed reconnect after another session took the stream: its timer ends, or the bridge does.\<close>

definition stream_timer :: "bool \<Rightarrow> link \<Rightarrow> link" where
  "stream_timer cancelled l =
     (let l1 = l\<lparr>lk_timers := lk_timers l - 1\<rparr> in if cancelled then l1 else ask_reconnect l1)"

definition handle_logged_out :: "events_config \<Rightarrow> conn_env \<Rightarrow> bool \<Rightarrow> int \<Rightarrow> link \<Rightarrow> link" where
  "handle_logged_out cfg e onConnect reason l =
     (if cn_logout (lk_conn l) then l
      else let l1 = clear_recipients l; code = (if \<not> onConnect \<and> reason = 0 then 401 else reason)
           in if code = 401 \<and> cn_retired (lk_conn l1) then l1
              else let l2 = (if code = 401 then l1\<lparr>lk_conn := (lk_conn l1)\<lparr>cn_retired := True\<rparr>, lk_paired := False\<rparr> else l1);
                       (kind, l3) = record_link e code 0 0 l2;
                       l4 = notify_link cfg e ''logged_out'' kind True True l3
                   in if code \<noteq> 401 then l4 else set_pairing cfg e ''pairing_required'' l4)"

fun handleEvent :: "duration \<Rightarrow> events_config \<Rightarrow> conn_env \<Rightarrow> conn_event \<Rightarrow> link \<Rightarrow> link" where
  "handleEvent maxFail cfg e Connected l =
     (if cn_retired (lk_conn l) then l
      else notify_link cfg e ''connected'' ''authenticated'' True False
        (clear_recipients (l\<lparr>lk_conn := clearConnectionProblem e (lk_conn l)\<rparr>)))"
| "handleEvent maxFail cfg e ManualLoginReconnect l = scheduleReconnect l"
| "handleEvent maxFail cfg e (KeepAliveTimeout lastSuccess) l =
     (if ce_now e - lastSuccess > maxFail
      then scheduleReconnect (notify_link cfg e ''disconnected'' ''keepalive_stalled'' False False l) else l)"
| "handleEvent maxFail cfg e (LoggedOut onConnect reason) l = handle_logged_out cfg e onConnect reason l"
| "handleEvent maxFail cfg e Disconnected l =
     (if cn_logout (lk_conn l) \<or> cn_retired (lk_conn l) then l
      else ask_reconnect (notify_link cfg e ''disconnected'' ''transport_lost'' False False (clear_recipients l)))"
| "handleEvent maxFail cfg e (ConnectFailure reason) l =
     (let (kind, l1) = record_link e reason 0 0 l
      in ask_reconnect (notify_link cfg e ''disconnected'' kind True False l1))"
| "handleEvent maxFail cfg e StreamError l = ask_reconnect l"
| "handleEvent maxFail cfg e StreamReplaced l =
     (let l1 = notify_link cfg e ''disconnected'' ''session_replaced'' False False l in l1\<lparr>lk_timers := lk_timers l1 + 1\<rparr>)"
| "handleEvent maxFail cfg e ClientOutdated l =
     (notify_link cfg e ''logged_out'' ''client_outdated'' True True (snd (record_link e 405 0 0 l)))
       \<lparr>lk_exit := Some exitCodeClientOutdated\<rparr>"
| "handleEvent maxFail cfg e (TemporaryBan code expire) l =
     ask_reconnect (notify_link cfg e ''disconnected'' ''temporarily_banned'' True False (snd (record_link e 402 code expire l)))"
| "handleEvent maxFail cfg e PairPasskeyError l = set_pairing cfg e ''passkey_failed'' l"

section \<open>The fence of a revoked client\<close>

text \<open>The client was retired by an unlink: the problem says so and a pairing is waited for.\<close>

definition fenced :: "link \<Rightarrow> bool" where
  "fenced l \<longleftrightarrow> cn_retired (lk_conn l) \<and> cn_pairing (lk_conn l) \<noteq> [] \<and> held isUnlinked (cn_problem (lk_conn l))"

lemma link_sel [simp]:
  "lk_conn (notify_link cfg e st r im sy l) = lk_conn l" "lk_conn (clear_recipients l) = lk_conn l"
  "lk_conn (ask_reconnect l) = lk_conn l" "lk_conn (scheduleReconnect l) = lk_conn l"
  by (simp_all add: notify_link_def clear_recipients_def ask_reconnect_def scheduleReconnect_def)

lemma persist_flags:
  "cn_retired (snd (persistConnectionSnapshot e p c)) = cn_retired c"
  "cn_pairing (snd (persistConnectionSnapshot e p c)) = cn_pairing c"
  "cn_logout (snd (persistConnectionSnapshot e p c)) = cn_logout c"
  by (simp_all add: persistConnectionSnapshot_def split: option.splits prod.splits)

lemma record_flags:
  "cn_retired (snd (recordConnectionProblem e code reason expire c)) = cn_retired c"
  "cn_pairing (snd (recordConnectionProblem e code reason expire c)) = cn_pairing c"
  "cn_logout (snd (recordConnectionProblem e code reason expire c)) = cn_logout c"
  by (simp_all add: recordConnectionProblem_def recordConnectionProblemStateIf_def Let_def persist_flags publish_def
      connectionChangedLocked_def split: option.splits)

lemma lk_conn_record: "lk_conn (snd (record_link e code reason expire l)) = snd (recordConnectionProblem e code reason expire (lk_conn l))"
  by (simp add: record_link_def split: prod.splits)

lemma lk_conn_record': "record_link e code reason expire l = (k, l') \<Longrightarrow> lk_conn l' = snd (recordConnectionProblem e code reason expire (lk_conn l))"
  using lk_conn_record [of e code reason expire l] by simp

lemma record_401_unlinks: "held isUnlinked (cn_problem (snd (recordConnectionProblem e 401 reason expire c)))"
proof -
  have "\<exists>p. next_problem e 401 reason expire True c = Some p \<and> isUnlinked p"
    by (cases "cn_problem c") (auto simp: next_problem_def isUnlinked_def Let_def)
  then obtain p where p: "next_problem e 401 reason expire True c = Some p" "isUnlinked p" by blast
  then show ?thesis
    using persist_sel [OF prod.collapse [symmetric], of e p "publish p c"]
    by (simp add: recordConnectionProblem_def recordConnectionProblemStateIf_def Let_def held_def)
qed

lemma fenced_conn: "fenced l \<Longrightarrow> lk_conn l' = lk_conn l \<Longrightarrow> fenced l'"
  by (simp add: fenced_def)

lemma fenced_record:
  assumes "fenced l" and "lk_conn l' = snd (recordConnectionProblem e code reason expire (lk_conn l))"
  shows "fenced l'"
proof -
  obtain a p where p: "cn_problem (lk_conn l) = Some (a, p)" "isUnlinked p"
    using assms(1) by (auto simp: fenced_def held_def split: option.splits)
  from recorded_problem [OF p(1), of e code reason expire True True] p(2)
  have "held isUnlinked (cn_problem (snd (recordConnectionProblem e code reason expire (lk_conn l))))"
    by (auto simp: held_def recordConnectionProblem_def)
  with assms show ?thesis by (simp add: fenced_def record_flags)
qed

lemma fenced_pairing:
  assumes "fenced l" and "st \<noteq> []"
  shows "fenced (set_pairing cfg e st l)"
  using assms
  by (auto simp: fenced_def set_pairing_def setPairingState_def connectionChangedLocked_def Let_def)

lemma fenced_event:
  assumes "fenced l"
  shows "fenced (handleEvent maxFail cfg e ev l)"
proof (cases ev)
  case (LoggedOut onConnect reason)
  show ?thesis
  proof (cases "cn_logout (lk_conn l) \<or> (if \<not> onConnect \<and> reason = 0 then 401 else reason) = 401")
    case True
    with LoggedOut assms show ?thesis
      by (auto simp: handle_logged_out_def Let_def fenced_def)
  next
    case False
    obtain k l3 where r: "record_link e reason 0 0 (clear_recipients l) = (k, l3)" by fastforce
    have "fenced l3" by (rule fenced_record [OF assms]) (use lk_conn_record' [OF r] in simp)
    with False LoggedOut r show ?thesis
      by (auto simp: handle_logged_out_def Let_def intro: fenced_conn split: if_splits)
  qed
next
  case (ConnectFailure reason)
  obtain k l3 where r: "record_link e reason 0 0 l = (k, l3)" by fastforce
  have "fenced l3" by (rule fenced_record [OF assms]) (use lk_conn_record' [OF r] in simp)
  with ConnectFailure r show ?thesis by (auto intro: fenced_conn)
next
  case ClientOutdated
  then show ?thesis by (auto simp: lk_conn_record intro: fenced_record [OF assms])
next
  case (TemporaryBan code expire)
  then show ?thesis by (auto simp: lk_conn_record intro: fenced_record [OF assms])
next
  case PairPasskeyError
  then show ?thesis using fenced_pairing [OF assms] by simp
qed (use assms in \<open>auto simp: fenced_def Let_def intro: fenced_conn [OF assms]\<close>)

lemma unlink_fences:
  assumes "\<not> cn_logout (lk_conn l)" and "\<not> cn_retired (lk_conn l)" and "code = 401 \<or> code = 0 \<and> \<not> onConnect"
  shows "fenced (handleEvent maxFail cfg e (LoggedOut onConnect code) l)"
proof -
  let ?c = "(lk_conn l)\<lparr>cn_retired := True\<rparr>"
  let ?l2 = "(clear_recipients l)\<lparr>lk_conn := ?c, lk_paired := False\<rparr>"
  obtain k l3 where r: "record_link e 401 0 0 ?l2 = (k, l3)" by fastforce
  have c3: "lk_conn l3 = snd (recordConnectionProblem e 401 0 0 ?c)" using lk_conn_record' [OF r] by simp
  have flags: "cn_retired (lk_conn l3)" "\<not> cn_logout (lk_conn l3)" using assms(1) by (simp_all add: c3 record_flags)
  have "held isUnlinked (cn_problem (lk_conn l3))" unfolding c3 by (rule record_401_unlinks)
  with flags have "fenced (set_pairing cfg e ''pairing_required'' (notify_link cfg e ''logged_out'' k True True l3))"
    by (simp add: fenced_def set_pairing_def setPairingState_def connectionChangedLocked_def Let_def)
  moreover have "(if \<not> onConnect \<and> code = 0 then 401 else code) = 401" using assms(3) by auto
  ultimately show ?thesis using assms(1,2) r by (simp add: handle_logged_out_def Let_def)
qed

section \<open>Properties\<close>

text \<open>C10. A revoked client cannot be used again by accident: once an unlink was handled, whatever events
  that client still delivers, in any order and with any disk faults, the device stays unlinked, its
  problem is never cleared, and every turn of the dial gate blocks, retries saving or is cancelled.\<close>

theorem unlink_fence:
  assumes "\<not> cn_logout (lk_conn l)" and "\<not> cn_retired (lk_conn l)" and "code = 401 \<or> code = 0 \<and> \<not> onConnect"
    and "l' = fold (\<lambda>(e, ev). handleEvent maxFail cfg e ev) evs (handleEvent maxFail cfg e0 (LoggedOut onConnect code) l)"
  shows "cn_retired (lk_conn l') \<and> held isUnlinked (cn_problem (lk_conn l'))
     \<and> fst (gate_turn e cancelled other1 other2 (lk_conn l')) \<noteq> GateOpen"
proof -
  have "fenced (handleEvent maxFail cfg e0 (LoggedOut onConnect code) l)"
    by (rule unlink_fences [OF assms(1-3)])
  moreover have "fenced (fold (\<lambda>(e, ev). handleEvent maxFail cfg e ev) evs x)" if "fenced x" for x
    using that by (induction evs arbitrary: x) (auto intro: fenced_event)
  ultimately have f: "fenced l'" using assms(4) by simp
  then have "fst (gate_turn e cancelled other1 other2 (lk_conn l')) \<noteq> GateOpen"
    using gate_open [of e cancelled other1 other2 "lk_conn l'"] by (metis fenced_def prod.collapse)
  with f show ?thesis by (simp add: fenced_def)
qed

definition idle_link :: link where
  "idle_link = \<lparr>lk_conn = idle_conn, lk_events = new_events, lk_signal = False, lk_force = False, lk_paired = True,
     lk_cacheGeneration = 0, lk_timers = 0, lk_exit = None\<rparr>"

theorem unlink_fence_witness:
  "let l' = fold (\<lambda>(e, ev). handleEvent minute both_receivers e ev)
       [(sample_env, Connected), (sample_env, Disconnected), (sample_env, ConnectFailure 503)]
       (handleEvent minute both_receivers sample_env (LoggedOut False 0) idle_link)
   in held isUnlinked (cn_problem (lk_conn l')) \<and> fst (gate_turn sample_env False id id (lk_conn l')) \<noteq> GateOpen"
proof -
  have "\<not> cn_logout (lk_conn idle_link)" "\<not> cn_retired (lk_conn idle_link)" by code_simp+
  from unlink_fence [OF this _ refl, of 0 False minute both_receivers
      "[(sample_env, Connected), (sample_env, Disconnected), (sample_env, ConnectFailure 503)]" sample_env sample_env False id id]
  show ?thesis by (simp only: Let_def) simp
qed

end
