(* ===== verification/Session_Keepalive.thy ===== *)
theory Session_Keepalive
  imports Env_Config
begin

text \<open>
  The session keepalive (\<^verbatim>\<open>session_keepalive.go\<close>): a loop that now and then marks the device
  available for a few seconds and unavailable again. One turn of the loop is a function of the loop's
  variables and of what the outside answers during that turn; the presences it sends are recorded in
  order. The remembered timestamp's file is modelled with its fault points, its text as the instant it
  spells. Log lines are left out.
\<close>

section \<open>The loop\<close>

datatype presence_answer = Accepted | NoPushName | SendFailed

datatype presence = Available presence_answer instant | Unavailable bool

record keepalive_config =
  kc_interval :: duration
  kc_settle :: duration
  kc_retry :: duration

text \<open>A zero time is \<^term>\<open>None\<close>. \<open>kl_sent\<close> is what was sent, newest last.\<close>

record keepalive =
  kl_lastBlip :: "instant option"
  kl_readySince :: "instant option"
  kl_notBefore :: "instant option"
  kl_noNameSince :: "instant option"
  kl_noNameWarned :: bool
  kl_pendingOff :: bool
  kl_saved :: "instant option"
  kl_sent :: "presence list"
  kl_stopped :: bool

text \<open>The answers of the outside during one turn: whether the poll and the hold were slept through (rather
  than cut short by the shutdown), the clock, readiness, the answers to the presences, whether the
  context was cancelled when a failed blip is handled, and whether the timestamp was written.\<close>

record keepalive_input =
  ki_slept :: bool
  ki_off :: bool
  ki_now :: instant
  ki_ready :: bool
  ki_available :: presence_answer
  ki_cancelled :: bool
  ki_held :: bool
  ki_written :: bool

definition send_off :: "bool \<Rightarrow> keepalive \<Rightarrow> keepalive" where
  "send_off ok k = k\<lparr>kl_sent := kl_sent k @ [Unavailable ok]\<rparr>"

text \<open>A clock that went backwards must not postpone the next blip.\<close>

definition forget_future :: "keepalive_config \<Rightarrow> instant \<Rightarrow> keepalive \<Rightarrow> keepalive" where
  "forget_future cfg now k =
     k\<lparr>kl_lastBlip := (case kl_lastBlip k of Some t \<Rightarrow> if now < t then None else Some t | None \<Rightarrow> None),
       kl_readySince := (case kl_readySince k of Some t \<Rightarrow> if now < t then None else Some t | None \<Rightarrow> None),
       kl_notBefore := (case kl_notBefore k of Some t \<Rightarrow> if now < t - kc_retry cfg then None else Some t | None \<Rightarrow> None)\<rparr>"

definition due :: "keepalive_config \<Rightarrow> instant \<Rightarrow> keepalive \<Rightarrow> bool" where
  "due cfg now k \<longleftrightarrow>
     \<not> ((case kl_readySince k of Some t \<Rightarrow> now - t < kc_settle cfg | None \<Rightarrow> False)
        \<or> (case kl_lastBlip k of Some t \<Rightarrow> now - t < kc_interval cfg | None \<Rightarrow> False)
        \<or> (case kl_notBefore k of Some t \<Rightarrow> now < t | None \<Rightarrow> False))"

text \<open>The blip itself.\<close>

definition blip :: "keepalive_config \<Rightarrow> keepalive_input \<Rightarrow> keepalive \<Rightarrow> keepalive" where
  "blip cfg i k0 =
     (let now = ki_now i; k = k0\<lparr>kl_sent := kl_sent k0 @ [Available (ki_available i) now]\<rparr>
      in case ki_available i of
           NoPushName \<Rightarrow>
             let since = (case kl_noNameSince k of None \<Rightarrow> now | Some t \<Rightarrow> t)
             in k\<lparr>kl_noNameSince := Some since,
                  kl_noNameWarned := (kl_noNameWarned k \<or> now - since \<ge> kc_retry cfg)\<rparr>
         | SendFailed \<Rightarrow>
             let k1 = send_off (ki_off i) (k\<lparr>kl_noNameSince := None, kl_noNameWarned := False\<rparr>)
             in if ki_cancelled i then k1\<lparr>kl_stopped := True\<rparr>
                else k1\<lparr>kl_notBefore := Some (now + kc_retry cfg)\<rparr>
         | Accepted \<Rightarrow>
             let k1 = send_off (ki_off i) (k\<lparr>kl_noNameSince := None, kl_noNameWarned := False, kl_lastBlip := Some now\<rparr>);
                 k2 = (if ki_written i then k1\<lparr>kl_saved := Some now\<rparr> else k1);
                 stopping = (\<not> ki_held i)
             in if \<not> ki_off i \<and> stopping then k2\<lparr>kl_stopped := True\<rparr>
                else let k3 = (if \<not> ki_off i then k2\<lparr>kl_pendingOff := True\<rparr> else k2)
                     in if stopping then k3\<lparr>kl_stopped := True\<rparr> else k3)"

definition keepalive_turn :: "keepalive_config \<Rightarrow> keepalive_input \<Rightarrow> keepalive \<Rightarrow> keepalive" where
  "keepalive_turn cfg i k =
     (if kl_stopped k then k
      else if \<not> ki_slept i then (if kl_pendingOff k then send_off (ki_off i) k else k)\<lparr>kl_stopped := True\<rparr>
      else if kl_pendingOff k then
        (let k1 = send_off (ki_off i) k in if ki_off i then k1\<lparr>kl_pendingOff := False\<rparr> else k1)
      else let k1 = forget_future cfg (ki_now i) k
           in if \<not> ki_ready i then k1\<lparr>kl_readySince := None\<rparr>
              else let k2 = (if kl_readySince k1 = None then k1\<lparr>kl_readySince := Some (ki_now i)\<rparr> else k1)
                   in if \<not> due cfg (ki_now i) k2 then k2 else blip cfg i k2)"

definition new_keepalive :: "instant option \<Rightarrow> keepalive" where
  "new_keepalive lastBlip =
     \<lparr>kl_lastBlip = lastBlip, kl_readySince = None, kl_notBefore = None, kl_noNameSince = None, kl_noNameWarned = False,
      kl_pendingOff = False, kl_saved = lastBlip, kl_sent = [], kl_stopped = False\<rparr>"

definition runSessionKeepalive :: "keepalive_config \<Rightarrow> instant option \<Rightarrow> keepalive_input list \<Rightarrow> keepalive" where
  "runSessionKeepalive cfg lastBlip inputs = fold (keepalive_turn cfg) inputs (new_keepalive lastBlip)"

section \<open>The remembered timestamp\<close>

datatype stamp_file = StampText nat "instant option" | StampOther

record stamp_faults =
  sf_stat :: bool
  sf_open :: bool
  sf_changed :: bool
  sf_read :: bool

datatype stamp_reason = StoreUnavailable | NoSavedTimestamp | TimestampUnreadable | TimestampNotRegular
  | TimestampChanged | TimestampOversized | TimestampCorrupt | Read

text \<open>A file of \<open>n\<close> bytes whose trimmed text parses as an instant or does not. \<open>root\<close> is the store
  directory's file under that name, if there is a store directory at all.\<close>

definition readSessionBlipState :: "stamp_faults \<Rightarrow> stamp_file option option \<Rightarrow> instant option \<times> stamp_reason" where
  "readSessionBlipState f root =
     (case root of
        None \<Rightarrow> (None, StoreUnavailable)
      | Some file \<Rightarrow>
          if sf_stat f then (None, TimestampUnreadable)
          else case file of
            None \<Rightarrow> (None, NoSavedTimestamp)
          | Some StampOther \<Rightarrow> (None, TimestampNotRegular)
          | Some (StampText n stamp) \<Rightarrow>
              if sf_open f then (None, TimestampUnreadable)
              else if sf_changed f then (None, TimestampChanged)
              else if sf_read f \<or> n > 64 then (None, TimestampOversized)
              else (case stamp of None \<Rightarrow> (None, TimestampCorrupt) | Some t \<Rightarrow> (Some t, Read)))"

text \<open>\<^verbatim>\<open>startSessionKeepalive\<close>: an unpaired device starts from no timestamp, whatever a former pairing
  left; a non-positive interval starts no loop. \<open>removed\<close> says whether the old file could be removed.\<close>

definition startSessionKeepalive ::
    "bool \<Rightarrow> bool \<Rightarrow> keepalive_config \<Rightarrow> stamp_faults \<Rightarrow> stamp_file option option
      \<Rightarrow> keepalive option \<times> stamp_file option option" where
  "startSessionKeepalive unpaired removed cfg f root =
     (let root1 = (if unpaired \<and> removed then map_option (\<lambda>_. None) root else root)
      in if kc_interval cfg \<le> 0 then (None, root1)
         else let lastBlip = fst (readSessionBlipState f root1)
              in (Some (new_keepalive (if unpaired then None else lastBlip)), root1))"

section \<open>Invariants\<close>

text \<open>Every attempt to become available that the SDK did not refuse outright is followed by an attempt to
  become unavailable.\<close>

fun off_follows :: "presence list \<Rightarrow> bool" where
  "off_follows [] = True"
| "off_follows (Available NoPushName t # ps) = off_follows ps"
| "off_follows (Available a t # Unavailable ok # ps) = off_follows ps"
| "off_follows (Available a t # ps) = False"
| "off_follows (Unavailable ok # ps) = off_follows ps"

text \<open>The device counts as available after a sent presence was accepted and not taken back.\<close>

definition left_available :: "presence list \<Rightarrow> bool" where
  "left_available ps = foldl (\<lambda>on p. case p of Available Accepted _ \<Rightarrow> True | Available _ _ \<Rightarrow> on | Unavailable ok \<Rightarrow> on \<and> \<not> ok) False ps"

definition blips :: "presence list \<Rightarrow> instant list" where
  "blips ps = List.map_filter (\<lambda>p. case p of Available Accepted t \<Rightarrow> Some t | _ \<Rightarrow> None) ps"

lemma off_follows_append: "off_follows ps \<Longrightarrow> off_follows (ps @ qs) = off_follows qs"
  by (induction ps rule: off_follows.induct) auto

lemma left_available_snoc [simp]:
  "left_available (ps @ [Unavailable ok]) \<longleftrightarrow> left_available ps \<and> \<not> ok"
  "left_available (ps @ [Available a t]) \<longleftrightarrow> left_available ps \<or> a = Accepted"
  "left_available (ps @ [Available a t, Unavailable ok]) \<longleftrightarrow> (left_available ps \<or> a = Accepted) \<and> \<not> ok"
  by (simp_all add: left_available_def split: presence_answer.splits)

lemma blips_snoc [simp]:
  "blips (ps @ [Unavailable ok]) = blips ps"
  "blips (ps @ [Available a t]) = blips ps @ (if a = Accepted then [t] else [])"
  "blips (ps @ [Available a t, Unavailable ok]) = blips ps @ (if a = Accepted then [t] else [])"
  by (cases a; simp add: blips_def map_filter_def)+

lemma blips_Nil [simp]: "blips [] = []" by (simp add: blips_def map_filter_simps)

lemma left_available_Nil [simp]: "\<not> left_available []" by (simp add: left_available_def)

text \<open>The invariant of the loop: while it runs, the device is left available only while the retry of
  becoming unavailable is pending; and the last blip is remembered unless the clock went back.\<close>

definition keepalive_ok :: "keepalive \<Rightarrow> bool" where
  "keepalive_ok k \<longleftrightarrow> off_follows (kl_sent k) \<and> (\<not> kl_stopped k \<and> left_available (kl_sent k) \<longrightarrow> kl_pendingOff k)"

lemma send_off_ok:
  "keepalive_ok k \<Longrightarrow> off_follows (kl_sent (send_off ok k))"
  by (simp add: keepalive_ok_def send_off_def off_follows_append)

lemma blip_ok:
  assumes "keepalive_ok k" and "\<not> kl_pendingOff k" and "\<not> kl_stopped k"
  shows "keepalive_ok (blip cfg i k)"
  using assms
  by (auto simp: keepalive_ok_def blip_def send_off_def Let_def off_follows_append split: presence_answer.splits)

lemma turn_ok:
  assumes "keepalive_ok k"
  shows "keepalive_ok (keepalive_turn cfg i k)"
proof (cases "kl_stopped k \<or> \<not> ki_slept i \<or> kl_pendingOff k")
  case True
  with assms show ?thesis by (auto simp: keepalive_turn_def keepalive_ok_def send_off_def Let_def off_follows_append)
next
  case False
  let ?k = "let k1 = forget_future cfg (ki_now i) k in if kl_readySince k1 = None then k1\<lparr>kl_readySince := Some (ki_now i)\<rparr> else k1"
  have k: "keepalive_ok ?k" "\<not> kl_pendingOff ?k" "\<not> kl_stopped ?k"
    using assms False by (auto simp: keepalive_ok_def forget_future_def Let_def)
  have "keepalive_ok (keepalive_turn cfg i k)" if "ki_ready i"
    using False that k(1) blip_ok [OF k, of cfg i] by (simp add: keepalive_turn_def Let_def)
  moreover have "keepalive_ok (keepalive_turn cfg i k)" if "\<not> ki_ready i"
    using assms False that by (simp add: keepalive_turn_def Let_def keepalive_ok_def forget_future_def)
  ultimately show ?thesis by blast
qed

text \<open>While the clock does not go back, accepted blips keep their distance and the last one is known.\<close>

definition spaced_ok :: "keepalive_config \<Rightarrow> instant list \<Rightarrow> instant \<Rightarrow> keepalive \<Rightarrow> bool" where
  "spaced_ok cfg pre t k \<longleftrightarrow> sorted_wrt (\<lambda>a b. b - a \<ge> kc_interval cfg) (pre @ blips (kl_sent k))
     \<and> (\<forall>b \<in> set (pre @ blips (kl_sent k)). b \<le> t \<and> (\<exists>l. kl_lastBlip k = Some l \<and> b \<le> l))
     \<and> (\<forall>l. kl_lastBlip k = Some l \<longrightarrow> l \<le> t \<or> pre @ blips (kl_sent k) = [])"

lemma spaced_later: "spaced_ok cfg pre t k \<Longrightarrow> t \<le> t' \<Longrightarrow> spaced_ok cfg pre t' k"
  by (force simp: spaced_ok_def)

lemma spaced_sel:
  "kl_sent k' = kl_sent k \<Longrightarrow> kl_lastBlip k' = kl_lastBlip k \<Longrightarrow> spaced_ok cfg pre t k \<Longrightarrow> spaced_ok cfg pre t k'"
  by (simp add: spaced_ok_def)

lemma spaced_off: "spaced_ok cfg pre t k \<Longrightarrow> spaced_ok cfg pre t (send_off ok k)"
  by (simp add: spaced_ok_def send_off_def)

lemma spaced_forget: "spaced_ok cfg pre t k \<Longrightarrow> t \<le> now \<Longrightarrow> spaced_ok cfg pre now (forget_future cfg now k)"
  by (auto simp: spaced_ok_def forget_future_def split: option.splits; force)

lemma spaced_blip:
  assumes "spaced_ok cfg pre (ki_now i) k" and "due cfg (ki_now i) k"
  shows "spaced_ok cfg pre (ki_now i) (blip cfg i k)"
proof (cases "ki_available i = Accepted")
  case False
  then show ?thesis using assms(1)
    by (cases "ki_available i") (auto simp: blip_def send_off_def Let_def spaced_ok_def)
next
  case True
  have sent: "blips (kl_sent (blip cfg i k)) = blips (kl_sent k) @ [ki_now i]"
    and last: "kl_lastBlip (blip cfg i k) = Some (ki_now i)"
    using True by (auto simp: blip_def send_off_def Let_def)
  have "ki_now i - b \<ge> kc_interval cfg" if "b \<in> set (pre @ blips (kl_sent k))" for b
  proof -
    have "\<exists>l. kl_lastBlip k = Some l \<and> b \<le> l" using assms(1) that by (simp only: spaced_ok_def)
    then obtain l where "kl_lastBlip k = Some l" "b \<le> l" by blast
    with assms(2) show ?thesis by (simp add: due_def)
  qed
  with assms(1) show ?thesis by (auto simp: spaced_ok_def sent last sorted_wrt_append)
qed

lemma spaced_turn:
  assumes "spaced_ok cfg pre t k" and "t \<le> ki_now i"
  shows "spaced_ok cfg pre (ki_now i) (keepalive_turn cfg i k)"
proof (cases "kl_stopped k \<or> \<not> ki_slept i \<or> kl_pendingOff k")
  case True
  with spaced_later [OF assms] spaced_off [OF spaced_later [OF assms], of "ki_off i"] show ?thesis
    by (auto simp: keepalive_turn_def Let_def intro: spaced_sel)
next
  case False
  let ?k1 = "forget_future cfg (ki_now i) k"
  let ?k = "if kl_readySince ?k1 = None then ?k1\<lparr>kl_readySince := Some (ki_now i)\<rparr> else ?k1"
  have k: "spaced_ok cfg pre (ki_now i) ?k1" "spaced_ok cfg pre (ki_now i) ?k"
    using spaced_forget [OF assms] by (auto intro: spaced_sel)
  show ?thesis
  proof (cases "ki_ready i")
    case True
    then have "keepalive_turn cfg i k = (if \<not> due cfg (ki_now i) ?k then ?k else blip cfg i ?k)"
      using False by (simp add: keepalive_turn_def Let_def)
    with k(2) spaced_blip [OF k(2)] show ?thesis by auto
  next
    case not_ready: False
    with False k(1) show ?thesis by (auto simp: keepalive_turn_def Let_def intro: spaced_sel)
  qed
qed

section \<open>Properties\<close>

text \<open>The keepalive never leaves the device available by oversight: over any run of the loop, whatever
  fails, every presence "available" that was attempted is followed by a presence "unavailable", and
  as long as the loop runs the device can still count as available only while another
  "unavailable" is pending.\<close>

lemma keepalive_takes_back:
  "let k = runSessionKeepalive cfg lastBlip inputs
   in off_follows (kl_sent k) \<and> (\<not> kl_stopped k \<and> left_available (kl_sent k) \<longrightarrow> kl_pendingOff k)"
proof -
  have "keepalive_ok (fold (keepalive_turn cfg) inputs k)" if "keepalive_ok k" for k
    using that by (induction inputs arbitrary: k) (auto intro: turn_ok)
  moreover have "keepalive_ok (new_keepalive lastBlip)" by (simp add: keepalive_ok_def new_keepalive_def)
  ultimately show ?thesis by (simp add: runSessionKeepalive_def keepalive_ok_def Let_def)
qed

text \<open>Blips keep their distance: while the clock does not go back, any two blips of a run, and the
  remembered blip it starts from, are at least the configured interval apart.\<close>

lemma keepalive_spacing:
  assumes "sorted (map ki_now inputs)" and "\<forall>i \<in> set inputs. start \<le> ki_now i" and "\<forall>l. lastBlip = Some l \<longrightarrow> l \<le> start"
  shows "sorted_wrt (\<lambda>a b. b - a \<ge> kc_interval cfg) 
     ((case lastBlip of None \<Rightarrow> [] | Some l \<Rightarrow> [l]) @ blips (kl_sent (runSessionKeepalive cfg lastBlip inputs)))"
proof -
  let ?pre = "case lastBlip of None \<Rightarrow> [] | Some l \<Rightarrow> [l]"
  have "\<exists>t. spaced_ok cfg ?pre t (fold (keepalive_turn cfg) ins k)"
    if "spaced_ok cfg ?pre t k" "sorted (map ki_now ins)" "\<forall>i \<in> set ins. t \<le> ki_now i" for ins t k
    using that
  proof (induction ins arbitrary: t k)
    case (Cons i rest)
    have "spaced_ok cfg ?pre (ki_now i) (keepalive_turn cfg i k)" using spaced_turn [OF Cons.prems(1)] Cons.prems(3) by simp
    from Cons.IH [OF this] Cons.prems(2) show ?case by simp
  qed auto
  moreover have "spaced_ok cfg ?pre start (new_keepalive lastBlip)"
    using assms(3) by (cases lastBlip) (simp_all add: spaced_ok_def new_keepalive_def)
  ultimately obtain t where "spaced_ok cfg ?pre t (runSessionKeepalive cfg lastBlip inputs)"
    using assms unfolding runSessionKeepalive_def by blast
  then show ?thesis by (simp add: spaced_ok_def)
qed

definition daily :: keepalive_config where
  "daily = \<lparr>kc_interval = 24 * hour, kc_settle = minute, kc_retry = 5 * minute\<rparr>"

definition quiet_input :: "instant \<Rightarrow> keepalive_input" where
  "quiet_input now = \<lparr>ki_slept = True, ki_off = now > 0, ki_now = now, ki_ready = True, ki_available = Accepted,
     ki_cancelled = False, ki_held = True, ki_written = True\<rparr>"

theorem keepalive_takes_back_witness:
  "left_available (kl_sent (runSessionKeepalive daily None [quiet_input (- hour), quiet_input 0]))
   \<and> kl_pendingOff (runSessionKeepalive daily None [quiet_input (- hour), quiet_input 0])"
proof -
  let ?k = "runSessionKeepalive daily None [quiet_input (- hour), quiet_input 0]"
  have "left_available (kl_sent ?k)" "\<not> kl_stopped ?k" by code_simp+
  with keepalive_takes_back [of daily None "[quiet_input (- hour), quiet_input 0]"] show ?thesis by (simp add: Let_def)
qed

theorem keepalive_spacing_witness:
  "let ins = [quiet_input 1, quiet_input (24 * hour), quiet_input (25 * hour), quiet_input (26 * hour), quiet_input (48 * hour)]
   in blips (kl_sent (runSessionKeepalive daily (Some 0) ins)) = [24 * hour, 48 * hour]
      \<and> sorted_wrt (\<lambda>a b. b - a \<ge> 24 * hour) ([0] @ blips (kl_sent (runSessionKeepalive daily (Some 0) ins)))"
proof -
  let ?ins = "[quiet_input 1, quiet_input (24 * hour), quiet_input (25 * hour), quiet_input (26 * hour), quiet_input (48 * hour)]"
  have "blips (kl_sent (runSessionKeepalive daily (Some 0) ?ins)) = [24 * hour, 48 * hour]" by code_simp
  moreover have "sorted (map ki_now ?ins)" "\<forall>i \<in> set ?ins. 0 \<le> ki_now i" "kc_interval daily = 24 * hour" by code_simp+
  ultimately show ?thesis using keepalive_spacing [of ?ins 0 "Some 0" daily] by (simp add: Let_def)
qed

end
