(* ===== verification/Webhook_Receiver.thy ===== *)
theory Webhook_Receiver
  imports Env_Config "HOL-Library.Word" "HOL-Library.Sublist"
begin

text \<open>
  The receiver of runtime webhooks (\<^verbatim>\<open>webhook_runtime.go\<close>): which addresses may be dialled, how a
  configuration is validated against the deployment's explicit refusals, and how a connection is made
  to addresses that were checked. Addresses are machine words: 32 bits for IPv4, 128 for IPv6, and a
  prefix test compares the leading bits. The parsing of a URL and the DNS lookup are arguments.
\<close>

unbundle bit_operations_syntax

section \<open>Addresses\<close>

datatype addr = V4 "32 word" | V6 "128 word"

definition word_of_bytes :: "8 word list \<Rightarrow> 'a::len word" where
  "word_of_bytes bs = foldl (\<lambda>acc b. push_bit 8 acc OR ucast b) 0 bs"

definition AddrFromSlice :: "8 word list \<Rightarrow> addr option" where
  "AddrFromSlice ip =
     (if length ip = 4 then Some (V4 (word_of_bytes ip))
      else if length ip = 16 then Some (V6 (word_of_bytes ip)) else None)"

fun Unmap :: "addr \<Rightarrow> addr" where
  "Unmap (V4 a) = V4 a"
| "Unmap (V6 a) = (if drop_bit 32 a = 0xFFFF then V4 (ucast a) else V6 a)"

text \<open>\<open>in4 b n a\<close> and \<open>in6 b n a\<close>: the address is in the prefix \<open>b/n\<close>.\<close>

definition in4 :: "32 word \<Rightarrow> nat \<Rightarrow> 32 word \<Rightarrow> bool" where
  "in4 base n a \<longleftrightarrow> drop_bit (32 - n) a = drop_bit (32 - n) base"

definition in6 :: "128 word \<Rightarrow> nat \<Rightarrow> 128 word \<Rightarrow> bool" where
  "in6 base n a \<longleftrightarrow> drop_bit (128 - n) a = drop_bit (128 - n) base"

definition quad :: "nat \<Rightarrow> nat \<Rightarrow> nat \<Rightarrow> nat \<Rightarrow> 32 word" where
  "quad a b c d = of_nat (((a * 256 + b) * 256 + c) * 256 + d)"

text \<open>\<^verbatim>\<open>net/netip\<close>.\<close>

fun IsLoopback :: "addr \<Rightarrow> bool" where
  "IsLoopback (V4 a) = in4 (quad 127 0 0 0) 8 a"
| "IsLoopback (V6 a) = (a = 1)"

fun IsMulticast :: "addr \<Rightarrow> bool" where
  "IsMulticast (V4 a) = in4 (quad 224 0 0 0) 4 a"
| "IsMulticast (V6 a) = in6 (push_bit 120 0xFF) 8 a"

fun IsLinkLocalUnicast :: "addr \<Rightarrow> bool" where
  "IsLinkLocalUnicast (V4 a) = in4 (quad 169 254 0 0) 16 a"
| "IsLinkLocalUnicast (V6 a) = in6 (push_bit 112 0xFE80) 10 a"

fun IsPrivate :: "addr \<Rightarrow> bool" where
  "IsPrivate (V4 a) = (in4 (quad 10 0 0 0) 8 a \<or> in4 (quad 172 16 0 0) 12 a \<or> in4 (quad 192 168 0 0) 16 a)"
| "IsPrivate (V6 a) = in6 (push_bit 112 0xFC00) 7 a"

definition IsGlobalUnicast :: "addr \<Rightarrow> bool" where
  "IsGlobalUnicast a \<longleftrightarrow> a \<noteq> V4 0 \<and> a \<noteq> V4 (quad 255 255 255 255) \<and> a \<noteq> V6 0
     \<and> \<not> IsLoopback a \<and> \<not> IsMulticast a \<and> \<not> IsLinkLocalUnicast a"

definition forbidden4 :: "(32 word \<times> nat) list" where
  "forbidden4 = [(quad 0 0 0 0, 8), (quad 100 64 0 0, 10), (quad 169 254 0 0, 16), (quad 192 0 0 0, 24), (quad 192 0 2 0, 24),
     (quad 198 18 0 0, 15), (quad 198 51 100 0, 24), (quad 203 0 113 0, 24), (quad 240 0 0 0, 4), (quad 168 63 129 16, 32)]"

fun public_addr :: "addr \<Rightarrow> bool" where
  "public_addr (V4 a) = (\<not> list_ex (\<lambda>(b, n). in4 b n a) forbidden4)"
| "public_addr (V6 a) =
     (in6 (push_bit 112 0x2000) 3 a \<and> \<not> in6 (push_bit 112 0x2001) 23 a \<and> \<not> in6 (push_bit 96 0x20010DB8) 32 a
      \<and> \<not> in6 (push_bit 112 0x2002) 16 a)"

definition publicWebhookIP :: "8 word list \<Rightarrow> bool" where
  "publicWebhookIP ip =
     (case AddrFromSlice ip of
        None \<Rightarrow> False
      | Some a0 \<Rightarrow>
          (let a = Unmap a0
           in if \<not> IsGlobalUnicast a \<or> IsPrivate a \<or> IsLoopback a \<or> IsLinkLocalUnicast a then False
              else public_addr a))"

lemma div_interval:
  fixes m d k :: nat
  assumes "0 < d"
  shows "m div d = k \<longleftrightarrow> k * d \<le> m \<and> m < (k + 1) * d"
  using less_eq_div_iff_mult_less_eq [OF assms, of k m] div_less_iff_less_mult [OF assms, of m "k + 1"] by linarith

lemma prefix_interval:
  fixes a base :: "'a::len word"
  assumes "unat base = k * 2 ^ m"
  shows "drop_bit m a = drop_bit m base \<longleftrightarrow> k * 2 ^ m \<le> unat a \<and> unat a < (k + 1) * 2 ^ m"
proof -
  have "drop_bit m a = drop_bit m base \<longleftrightarrow> unat a div 2 ^ m = unat base div 2 ^ m"
    unfolding word_unat_eq_iff unat_drop_bit_eq by (simp add: drop_bit_eq_div)
  also have "unat base div 2 ^ m = k" using assms by simp
  also have "unat a div 2 ^ m = k \<longleftrightarrow> k * 2 ^ m \<le> unat a \<and> unat a < (k + 1) * 2 ^ m" by (rule div_interval) simp
  finally show ?thesis .
qed

text \<open>The reserved IPv4 ranges, by their first and last address, and the ranges of global IPv6 unicast
  space that are no public network.\<close>

definition dotted :: "nat \<Rightarrow> nat \<Rightarrow> nat \<Rightarrow> nat \<Rightarrow> nat" where
  "dotted a b c d = ((a * 256 + b) * 256 + c) * 256 + d"

definition within :: "nat \<times> nat \<Rightarrow> nat \<Rightarrow> bool" where
  "within r n \<longleftrightarrow> fst r \<le> n \<and> n \<le> snd r"

definition reserved4 :: "(nat \<times> nat) list" where
  "reserved4 = [(dotted 0 0 0 0, dotted 0 255 255 255),
     (dotted 10 0 0 0, dotted 10 255 255 255),
     (dotted 100 64 0 0, dotted 100 127 255 255),
     (dotted 127 0 0 0, dotted 127 255 255 255),
     (dotted 168 63 129 16, dotted 168 63 129 16),
     (dotted 169 254 0 0, dotted 169 254 255 255),
     (dotted 172 16 0 0, dotted 172 31 255 255),
     (dotted 192 0 0 0, dotted 192 0 0 255),
     (dotted 192 0 2 0, dotted 192 0 2 255),
     (dotted 192 168 0 0, dotted 192 168 255 255),
     (dotted 198 18 0 0, dotted 198 19 255 255),
     (dotted 198 51 100 0, dotted 198 51 100 255),
     (dotted 203 0 113 0, dotted 203 0 113 255),
     (dotted 224 0 0 0, dotted 239 255 255 255),
     (dotted 240 0 0 0, dotted 255 255 255 255)]"

definition global6 :: "nat \<times> nat" where
  "global6 = (2 ^ 125, 2 ^ 126 - 1)"

definition reserved6 :: "(nat \<times> nat) list" where
  "reserved6 = [(0x2001 * 2 ^ 112, 0x2001 * 2 ^ 112 + (2 ^ 105 - 1)), (0x20010DB8 * 2 ^ 96, 0x20010DB8 * 2 ^ 96 + (2 ^ 96 - 1)),
     (0x2002 * 2 ^ 112, 0x2002 * 2 ^ 112 + (2 ^ 112 - 1))]"

lemma in4_interval:
  assumes "unat base = k * 2 ^ (32 - n)" and "lo = k * 2 ^ (32 - n)" and "Suc hi = (k + 1) * 2 ^ (32 - n)"
  shows "in4 base n a = within (lo, hi) (unat a)"
  using prefix_interval [OF assms(1), of a] unfolding in4_def within_def assms(3) [symmetric] assms(2) by (simp add: less_Suc_eq_le)

lemma in6_interval:
  assumes "unat base = k * 2 ^ (128 - n)" and "lo = k * 2 ^ (128 - n)" and "Suc hi = (k + 1) * 2 ^ (128 - n)"
  shows "in6 base n a = within (lo, hi) (unat a)"
  using prefix_interval [OF assms(1), of a] unfolding in6_def within_def assms(3) [symmetric] assms(2) by (simp add: less_Suc_eq_le)

lemma unat_below: "unat (a :: 32 word) < 4294967296"
  using unsigned_less [of a] by simp

lemma unat_quad: "a < 256 \<Longrightarrow> b < 256 \<Longrightarrow> c < 256 \<Longrightarrow> d < 256 \<Longrightarrow> unat (quad a b c d) = dotted a b c d"
  unfolding quad_def dotted_def unat_of_nat by (rule mod_less) simp

lemma in4_ranges:
  "in4 (quad 0 0 0 0) 8 a = within (dotted 0 0 0 0, dotted 0 255 255 255) (unat a)"
  "in4 (quad 10 0 0 0) 8 a = within (dotted 10 0 0 0, dotted 10 255 255 255) (unat a)"
  "in4 (quad 100 64 0 0) 10 a = within (dotted 100 64 0 0, dotted 100 127 255 255) (unat a)"
  "in4 (quad 127 0 0 0) 8 a = within (dotted 127 0 0 0, dotted 127 255 255 255) (unat a)"
  "in4 (quad 168 63 129 16) 32 a = within (dotted 168 63 129 16, dotted 168 63 129 16) (unat a)"
  "in4 (quad 169 254 0 0) 16 a = within (dotted 169 254 0 0, dotted 169 254 255 255) (unat a)"
  "in4 (quad 172 16 0 0) 12 a = within (dotted 172 16 0 0, dotted 172 31 255 255) (unat a)"
  "in4 (quad 192 0 0 0) 24 a = within (dotted 192 0 0 0, dotted 192 0 0 255) (unat a)"
  "in4 (quad 192 0 2 0) 24 a = within (dotted 192 0 2 0, dotted 192 0 2 255) (unat a)"
  "in4 (quad 192 168 0 0) 16 a = within (dotted 192 168 0 0, dotted 192 168 255 255) (unat a)"
  "in4 (quad 198 18 0 0) 15 a = within (dotted 198 18 0 0, dotted 198 19 255 255) (unat a)"
  "in4 (quad 198 51 100 0) 24 a = within (dotted 198 51 100 0, dotted 198 51 100 255) (unat a)"
  "in4 (quad 203 0 113 0) 24 a = within (dotted 203 0 113 0, dotted 203 0 113 255) (unat a)"
  "in4 (quad 224 0 0 0) 4 a = within (dotted 224 0 0 0, dotted 239 255 255 255) (unat a)"
  "in4 (quad 240 0 0 0) 4 a = within (dotted 240 0 0 0, dotted 255 255 255 255) (unat a)"
proof -
  show "in4 (quad 0 0 0 0) 8 a = within (dotted 0 0 0 0, dotted 0 255 255 255) (unat a)"
    by (rule in4_interval [of _ 0]) (simp_all add: unat_quad dotted_def)
  show "in4 (quad 10 0 0 0) 8 a = within (dotted 10 0 0 0, dotted 10 255 255 255) (unat a)"
    by (rule in4_interval [of _ 10]) (simp_all add: unat_quad dotted_def)
  show "in4 (quad 100 64 0 0) 10 a = within (dotted 100 64 0 0, dotted 100 127 255 255) (unat a)"
    by (rule in4_interval [of _ 401]) (simp_all add: unat_quad dotted_def)
  show "in4 (quad 127 0 0 0) 8 a = within (dotted 127 0 0 0, dotted 127 255 255 255) (unat a)"
    by (rule in4_interval [of _ 127]) (simp_all add: unat_quad dotted_def)
  show "in4 (quad 168 63 129 16) 32 a = within (dotted 168 63 129 16, dotted 168 63 129 16) (unat a)"
    by (rule in4_interval [of _ 2822734096]) (simp_all add: unat_quad dotted_def)
  show "in4 (quad 169 254 0 0) 16 a = within (dotted 169 254 0 0, dotted 169 254 255 255) (unat a)"
    by (rule in4_interval [of _ 43518]) (simp_all add: unat_quad dotted_def)
  show "in4 (quad 172 16 0 0) 12 a = within (dotted 172 16 0 0, dotted 172 31 255 255) (unat a)"
    by (rule in4_interval [of _ 2753]) (simp_all add: unat_quad dotted_def)
  show "in4 (quad 192 0 0 0) 24 a = within (dotted 192 0 0 0, dotted 192 0 0 255) (unat a)"
    by (rule in4_interval [of _ 12582912]) (simp_all add: unat_quad dotted_def)
  show "in4 (quad 192 0 2 0) 24 a = within (dotted 192 0 2 0, dotted 192 0 2 255) (unat a)"
    by (rule in4_interval [of _ 12582914]) (simp_all add: unat_quad dotted_def)
  show "in4 (quad 192 168 0 0) 16 a = within (dotted 192 168 0 0, dotted 192 168 255 255) (unat a)"
    by (rule in4_interval [of _ 49320]) (simp_all add: unat_quad dotted_def)
  show "in4 (quad 198 18 0 0) 15 a = within (dotted 198 18 0 0, dotted 198 19 255 255) (unat a)"
    by (rule in4_interval [of _ 25353]) (simp_all add: unat_quad dotted_def)
  show "in4 (quad 198 51 100 0) 24 a = within (dotted 198 51 100 0, dotted 198 51 100 255) (unat a)"
    by (rule in4_interval [of _ 12989284]) (simp_all add: unat_quad dotted_def)
  show "in4 (quad 203 0 113 0) 24 a = within (dotted 203 0 113 0, dotted 203 0 113 255) (unat a)"
    by (rule in4_interval [of _ 13303921]) (simp_all add: unat_quad dotted_def)
  show "in4 (quad 224 0 0 0) 4 a = within (dotted 224 0 0 0, dotted 239 255 255 255) (unat a)"
    by (rule in4_interval [of _ 14]) (simp_all add: unat_quad dotted_def)
  show "in4 (quad 240 0 0 0) 4 a = within (dotted 240 0 0 0, dotted 255 255 255 255) (unat a)"
    by (rule in4_interval [of _ 15]) (simp_all add: unat_quad dotted_def)
qed

lemma in6_ranges:
  "in6 (push_bit 112 0x2000) 3 a = within (42535295865117307932921825928971026432, 85070591730234615865843651857942052863) (unat a)"
  "in6 (push_bit 112 0x2001) 23 a = within (42540488161975842760550356425300246528, 42540528726795050063891204319802818559) (unat a)"
  "in6 (push_bit 96 0x20010DB8) 32 a = within (42540766411282592856903984951653826560, 42540766490510755371168322545197776895) (unat a)"
  "in6 (push_bit 112 0x2002) 16 a = within (42545680458834377588178886921629466624, 42550872755692912415807417417958686719) (unat a)"
  "in6 (push_bit 120 0xFF) 8 a = within (338953138925153547590470800371487866880, 340282366920938463463374607431768211455) (unat a)"
  "in6 (push_bit 112 0xFE80) 10 a = within (338288524927261089654018896841347694592, 338620831926207318622244848606417780735) (unat a)"
  "in6 (push_bit 112 0xFC00) 7 a = within (334965454937798799971759379190646833152, 337623910929368631717566993311207522303) (unat a)"
proof -
  show "in6 (push_bit 112 0x2000) 3 a = within (42535295865117307932921825928971026432, 85070591730234615865843651857942052863) (unat a)"
    by (rule in6_interval [of _ 1]) simp_all
  show "in6 (push_bit 112 0x2001) 23 a = within (42540488161975842760550356425300246528, 42540528726795050063891204319802818559) (unat a)"
    by (rule in6_interval [of _ 1048704]) simp_all
  show "in6 (push_bit 96 0x20010DB8) 32 a = within (42540766411282592856903984951653826560, 42540766490510755371168322545197776895) (unat a)"
    by (rule in6_interval [of _ 536939960]) simp_all
  show "in6 (push_bit 112 0x2002) 16 a = within (42545680458834377588178886921629466624, 42550872755692912415807417417958686719) (unat a)"
    by (rule in6_interval [of _ 8194]) simp_all
  show "in6 (push_bit 120 0xFF) 8 a = within (338953138925153547590470800371487866880, 340282366920938463463374607431768211455) (unat a)"
    by (rule in6_interval [of _ 255]) simp_all
  show "in6 (push_bit 112 0xFE80) 10 a = within (338288524927261089654018896841347694592, 338620831926207318622244848606417780735) (unat a)"
    by (rule in6_interval [of _ 1018]) simp_all
  show "in6 (push_bit 112 0xFC00) 7 a = within (334965454937798799971759379190646833152, 337623910929368631717566993311207522303) (unat a)"
    by (rule in6_interval [of _ 126]) simp_all
qed

lemma public_V4:
  "(if \<not> IsGlobalUnicast (V4 a) \<or> IsPrivate (V4 a) \<or> IsLoopback (V4 a) \<or> IsLinkLocalUnicast (V4 a) then False
    else public_addr (V4 a)) \<longleftrightarrow> list_all (\<lambda>r. \<not> within r (unat a)) reserved4"
proof -
  have "a = 0 \<longrightarrow> within (dotted 0 0 0 0, dotted 0 255 255 255) (unat a)"
    "a = quad 255 255 255 255 \<longrightarrow> within (dotted 240 0 0 0, dotted 255 255 255 255) (unat a)"
    by (simp_all add: unat_quad within_def dotted_def)
  then show ?thesis
    by (auto simp: IsGlobalUnicast_def in4_ranges forbidden4_def reserved4_def)
qed

lemma public_V6:
  "(if \<not> IsGlobalUnicast (V6 a) \<or> IsPrivate (V6 a) \<or> IsLoopback (V6 a) \<or> IsLinkLocalUnicast (V6 a) then False
    else public_addr (V6 a)) \<longleftrightarrow> within global6 (unat a) \<and> list_all (\<lambda>r. \<not> within r (unat a)) reserved6"
proof -
  have special: "IsGlobalUnicast (V6 a) \<and> \<not> IsPrivate (V6 a) \<and> \<not> IsLoopback (V6 a) \<and> \<not> IsLinkLocalUnicast (V6 a)"
    if "within global6 (unat a)"
  proof -
    have "a \<noteq> 0" "a \<noteq> 1" using that by (auto simp: within_def global6_def)
    with that show ?thesis unfolding IsGlobalUnicast_def IsPrivate.simps IsLoopback.simps IsLinkLocalUnicast.simps IsMulticast.simps in6_ranges
      by (simp add: within_def global6_def)
  qed
  moreover have "public_addr (V6 a) \<longleftrightarrow> within global6 (unat a) \<and> list_all (\<lambda>r. \<not> within r (unat a)) reserved6"
    unfolding public_addr.simps in6_ranges by (simp add: global6_def reserved6_def)
  ultimately show ?thesis by auto
qed

section \<open>Configuration\<close>

record runtimeWebhookFilters =
  ff_self :: bool
  ff_channels :: bool
  ff_broadcasts :: bool
  ff_status :: bool

record runtimeWebhookOptions =
  wo_enabled :: bool
  wo_allowPorts :: bool
  wo_failureLimit :: int
  wo_deniedFilters :: runtimeWebhookFilters
  wo_deniedConnection :: bool

text \<open>\<open>snd\<close> is the error of the first variable that cannot be read.\<close>

definition parseRuntimeWebhookOptions ::
    "(string \<Rightarrow> string) \<Rightarrow> bridgeSwitches \<Rightarrow> string + runtimeWebhookOptions" where
  "parseRuntimeWebhookOptions getenv sw =
     (let e = ''WHATSAPP_WEBHOOK_RUNTIME''; p = ''WHATSAPP_WEBHOOK_RUNTIME_ALLOW_PORTS'';
          f = ''WHATSAPP_WEBHOOK_RUNTIME_FAILURE_LIMIT''
      in case parseBoolEnv e (getenv e) False of
           (_, Some _) \<Rightarrow> Inl e
         | (enabled, None) \<Rightarrow>
             (case parseBoolEnv p (getenv p) False of
                (_, Some _) \<Rightarrow> Inl p
              | (ports, None) \<Rightarrow>
                  (case (if getenv f = [] then Some 50
                         else case Atoi (getenv f) of None \<Rightarrow> None | Some n \<Rightarrow> if n < 1 \<or> n > 100 then None else Some n) of
                     None \<Rightarrow> Inl f
                   | Some limit \<Rightarrow>
                       Inr \<lparr>wo_enabled = enabled, wo_allowPorts = ports, wo_failureLimit = limit,
                            wo_deniedFilters =
                              \<lparr>ff_self = exForwardSelf (Explicit sw) \<and> \<not> ForwardSelf sw,
                               ff_channels = exForwardChannels (Explicit sw) \<and> \<not> ForwardChannels sw,
                               ff_broadcasts = exForwardBroadcasts (Explicit sw) \<and> \<not> ForwardBroadcasts sw,
                               ff_status = False\<rparr>,
                            wo_deniedConnection = exForwardConnection (Explicit sw) \<and> \<not> ForwardConnection sw\<rparr>)))"

record runtimeWebhookConfig =
  wc_url :: string
  wc_events :: "string list"
  wc_secret :: string
  wc_prefix :: string
  wc_authorization :: string
  wc_self :: "bool option"
  wc_channels :: "bool option"
  wc_broadcasts :: "bool option"

datatype config_error = BadSecret | BadAuthorization | BadEvents | ConnectionDenied | FilterDenied | BadPrefix
  | BadURL | PortDenied | LookupFailed | AddressForbidden

text \<open>Letters, digits and the hyphen, by their byte values.\<close>

definition validWebhookPrefix :: "string \<Rightarrow> bool" where
  "validWebhookPrefix p \<longleftrightarrow> 3 \<le> length p \<and> length p \<le> 48 \<and> take 2 p = ''X-'' \<and>
     list_all (\<lambda>c. let n = (of_char c :: nat)
       in 97 \<le> n \<and> n \<le> 122 \<or> 65 \<le> n \<and> n \<le> 90 \<or> 48 \<le> n \<and> n \<le> 57 \<or> n = 45) p"

definition validWebhookAuthorization :: "string \<Rightarrow> bool" where
  "validWebhookAuthorization v \<longleftrightarrow> length v \<le> 2100 \<and> TrimSpace v \<noteq> [] \<and>
     list_all (\<lambda>c. 0x20 \<le> (of_char c :: nat) \<and> (of_char c :: nat) \<le> 0x7E) v"

definition webhook_events :: "string list" where
  "webhook_events = [''message.received'', ''connection.changed'', ''storage.warning'']"

text \<open>One of the three receiver filters: its requested value, if any, against the deployment's refusal.\<close>

definition effective_filter :: "bool option \<Rightarrow> bool \<Rightarrow> bool \<Rightarrow> bool option" where
  "effective_filter value base denied =
     (case value of None \<Rightarrow> Some base | Some v \<Rightarrow> if v \<and> denied then None else Some v)"

definition validate_config ::
    "runtimeWebhookOptions \<Rightarrow> runtimeWebhookConfig \<Rightarrow> runtimeWebhookFilters
      \<Rightarrow> config_error + runtimeWebhookConfig \<times> runtimeWebhookFilters" where
  "validate_config opts cfg filters =
     (if length (wc_secret cfg) < 32 \<or> length (wc_secret cfg) > 256 then Inl BadSecret
      else if wc_authorization cfg \<noteq> [] \<and> \<not> validWebhookAuthorization (wc_authorization cfg) then Inl BadAuthorization
      else if length (wc_events cfg) < 1 \<or> length (wc_events cfg) > 3 then Inl BadEvents
      else if \<not> (distinct (wc_events cfg) \<and> set (wc_events cfg) \<subseteq> set webhook_events) then Inl BadEvents
      else if ''connection.changed'' \<in> set (wc_events cfg) \<and> wo_deniedConnection opts then Inl ConnectionDenied
      else case (effective_filter (wc_self cfg) (ff_self filters) (ff_self (wo_deniedFilters opts)),
                 effective_filter (wc_channels cfg) (ff_channels filters) (ff_channels (wo_deniedFilters opts)),
                 effective_filter (wc_broadcasts cfg) (ff_broadcasts filters) (ff_broadcasts (wo_deniedFilters opts))) of
        (Some fs, Some fc, Some fb) \<Rightarrow>
          (let cfg' = (if wc_prefix cfg = [] then cfg\<lparr>wc_prefix := ''X-Webhook''\<rparr> else cfg)
           in if \<not> validWebhookPrefix (wc_prefix cfg') then Inl BadPrefix
              else Inr (cfg', filters\<lparr>ff_self := fs, ff_channels := fc, ff_broadcasts := fb\<rparr>))
      | _ \<Rightarrow> Inl FilterDenied)"

section \<open>The receiver's addresses\<close>

text \<open>What \<^verbatim>\<open>url.Parse\<close> returns, as far as it is read here, and the answer of the resolver: an address and
  its zone.\<close>

record url =
  u_scheme :: string
  u_hostname :: string
  u_user :: bool
  u_fragment :: string
  u_port :: string

type_synonym resolved = "(8 word list \<times> string) list"

fun pin_addresses :: "string \<Rightarrow> resolved \<Rightarrow> (8 word list \<times> string) list option" where
  "pin_addresses port [] = Some []"
| "pin_addresses port ((ip, zone) # as) =
     (if zone \<noteq> [] \<or> \<not> publicWebhookIP ip then None
      else map_option (\<lambda>ps. (ip, port) # ps) (pin_addresses port as))"

definition receiver ::
    "(string \<Rightarrow> url option) \<Rightarrow> (string \<Rightarrow> resolved option) \<Rightarrow> runtimeWebhookOptions \<Rightarrow> string
      \<Rightarrow> config_error + (8 word list \<times> string) list" where
  "receiver parse lookup opts raw =
     (case parse raw of
        None \<Rightarrow> Inl BadURL
      | Some u \<Rightarrow>
          if u_scheme u \<noteq> ''https'' \<or> u_hostname u = [] \<or> u_user u \<or> u_fragment u \<noteq> [] \<or> length raw > 2048 then Inl BadURL
          else let port = (if u_port u = [] then ''443'' else u_port u)
               in case Atoi port of
                    None \<Rightarrow> Inl PortDenied
                  | Some n \<Rightarrow>
                      if n < 1 \<or> n > 65535 \<or> (\<not> wo_allowPorts opts \<and> n \<noteq> 443) then Inl PortDenied
                      else (case lookup (u_hostname u) of
                          None \<Rightarrow> Inl LookupFailed
                        | Some [] \<Rightarrow> Inl LookupFailed
                        | Some addresses \<Rightarrow>
                            (case pin_addresses port addresses of None \<Rightarrow> Inl AddressForbidden | Some ps \<Rightarrow> Inr ps)))"

text \<open>The dialer of a delivery, over the pinned addresses: the time left, whether the dial succeeds and
  whether the context has ended after it, for each attempt. It returns the attempts made, each with the
  time it was given.\<close>

record dial_input =
  di_left :: duration
  di_ok :: bool
  di_ended :: bool

datatype dial_result = DialConnected | DialForbidden | DialFailed

definition go_div :: "int \<Rightarrow> int \<Rightarrow> int" where
  "go_div a b = (if a \<ge> 0 then a div b else - ((- a) div b))"

fun dial_pinned :: "(8 word list \<times> string) list \<Rightarrow> dial_input list
    \<Rightarrow> ((8 word list \<times> string) \<times> duration) list \<times> dial_result" where
  "dial_pinned ((ip, port) # ps) (i # is) =
     (if \<not> publicWebhookIP ip then ([], DialForbidden)
      else let budget = (if ps \<noteq> [] then min (300 * millisecond) (go_div (di_left i) (int (length ps) + 1)) else di_left i)
           in if di_ok i then ([((ip, port), budget)], DialConnected)
              else if di_ended i then ([((ip, port), budget)], DialFailed)
              else (case dial_pinned ps is of (as, r) \<Rightarrow> (((ip, port), budget) # as, r)))"
| "dial_pinned _ _ = ([], DialFailed)"

definition deliver_dials ::
    "(string \<Rightarrow> url option) \<Rightarrow> (string \<Rightarrow> resolved option) \<Rightarrow> runtimeWebhookOptions \<Rightarrow> string \<Rightarrow> dial_input list
      \<Rightarrow> ((8 word list \<times> string) \<times> duration) list" where
  "deliver_dials parse lookup opts raw inputs =
     (case receiver parse lookup opts raw of Inl _ \<Rightarrow> [] | Inr pinned \<Rightarrow> fst (dial_pinned pinned inputs))"

lemma pin_addresses_public:
  "pin_addresses port as = Some ps \<Longrightarrow> (\<forall>(ip, q) \<in> set ps. publicWebhookIP ip \<and> q = port) \<and> map fst ps = map fst as"
  by (induction as arbitrary: ps) (fastforce split: if_splits)+

lemma dial_pinned_attempts:
  "(\<forall>((ip, port), budget) \<in> set (fst (dial_pinned ps is)). publicWebhookIP ip \<and> (ip, port) \<in> set ps)
   \<and> prefix (map fst (fst (dial_pinned ps is))) ps"
  by (induction ps "is" rule: dial_pinned.induct) (auto simp: Let_def split: prod.splits if_splits)

lemma publicWebhookIP_eval:
  "length ip = 4 \<Longrightarrow> publicWebhookIP ip = list_all (\<lambda>r. \<not> within r (unat (word_of_bytes ip :: 32 word))) reserved4"
  using public_V4 [of "word_of_bytes ip"] by (simp add: publicWebhookIP_def AddrFromSlice_def)

lemma Atoi_443: "Atoi ''443'' = Some 443"
  by code_simp

section \<open>Properties\<close>

text \<open>A webhook can only ever reach the public Internet: an address is accepted exactly when it is 4 or 16
  bytes and either an IPv4 address (plain or mapped into IPv6) outside every reserved range, loopback,
  private, carrier, link-local, documentation, multicast, broadcast and cloud-metadata ranges included,
  or a global unicast IPv6 address outside the protocol, documentation and 6to4 ranges.\<close>

lemma publicWebhookIP_exact:
  "publicWebhookIP ip \<longleftrightarrow>
     (case map_option Unmap (AddrFromSlice ip) of
        None \<Rightarrow> False
      | Some (V4 a) \<Rightarrow> list_all (\<lambda>r. \<not> within r (unat a)) reserved4
      | Some (V6 a) \<Rightarrow> within global6 (unat a) \<and> list_all (\<lambda>r. \<not> within r (unat a)) reserved6)"
proof (cases "AddrFromSlice ip")
  case None
  then show ?thesis by (simp add: publicWebhookIP_def)
next
  case (Some a)
  show ?thesis
  proof (cases "Unmap a")
    case (V4 w)
    with Some show ?thesis using public_V4 [of w] by (simp add: publicWebhookIP_def)
  next
    case (V6 w)
    with Some show ?thesis using public_V6 [of w] by (simp add: publicWebhookIP_def)
  qed
qed

text \<open>C8. No name and no change of a name's DNS answer leads a delivery inside the network: whatever the
  resolver answers at delivery time, every socket that is opened goes to a public address of that very
  answer, in its order, and only for an HTTPS receiver without credentials whose whole answer
  is public.\<close>

theorem deliveries_stay_public:
  assumes "((ip, port), budget) \<in> set (deliver_dials parse lookup opts raw inputs)"
  shows "publicWebhookIP ip \<and>
     (\<exists>u answer. parse raw = Some u \<and> u_scheme u = ''https'' \<and> \<not> u_user u \<and> lookup (u_hostname u) = Some answer
        \<and> ip \<in> fst ` set answer \<and> (\<forall>x \<in> set answer. publicWebhookIP (fst x))
        \<and> (wo_allowPorts opts \<or> Atoi port = Some 443))"
proof -
  obtain pinned where rc: "receiver parse lookup opts raw = Inr pinned"
    and at: "((ip, port), budget) \<in> set (fst (dial_pinned pinned inputs))"
    using assms by (cases "receiver parse lookup opts raw") (auto simp: deliver_dials_def)
  have pub: "publicWebhookIP ip" "(ip, port) \<in> set pinned" using dial_pinned_attempts [of pinned inputs] at by auto
  from rc obtain u answer p n where u: "parse raw = Some u" "u_scheme u = ''https''" "\<not> u_user u"
      "lookup (u_hostname u) = Some answer" "pin_addresses p answer = Some pinned" "Atoi p = Some n"
      "wo_allowPorts opts \<or> n = 443"
    by (auto simp: receiver_def Let_def split: option.splits if_splits list.splits)
  from pin_addresses_public [OF u(5)] have pin: "\<forall>(a, q) \<in> set pinned. publicWebhookIP a \<and> q = p" "map fst pinned = map fst answer"
    by auto
  have img: "fst ` set pinned = fst ` set answer" using pin(2) by (metis set_map)
  then have "ip \<in> fst ` set answer" using pub(2) by force
  moreover have "\<forall>x \<in> set answer. publicWebhookIP (fst x)" 
  proof
    fix x assume "x \<in> set answer"
    then have "fst x \<in> fst ` set pinned" using img by blast
    then show "publicWebhookIP (fst x)" using pin(1) by auto
  qed
  moreover have "port = p" using pin(1) pub(2) by auto
  ultimately show ?thesis using pub(1) u by auto
qed

text \<open>A receiver configured at run time cannot widen what the deployment refuses: an accepted configuration
  never selects connection events the deployment switched off explicitly, never turns on a filter the
  deployment switched off explicitly (it was on already where it stays on), carries a secret of 32 to
  256 bytes, distinct known events, a header prefix of token characters and an authorization value
  without control bytes.\<close>

lemma config_never_widens:
  assumes "validate_config opts cfg filters = Inr (cfg', eff)"
  shows "\<not> (wo_deniedConnection opts \<and> ''connection.changed'' \<in> set (wc_events cfg'))
     \<and> (ff_self eff \<and> ff_self (wo_deniedFilters opts) \<longrightarrow> ff_self filters)
     \<and> (ff_channels eff \<and> ff_channels (wo_deniedFilters opts) \<longrightarrow> ff_channels filters)
     \<and> (ff_broadcasts eff \<and> ff_broadcasts (wo_deniedFilters opts) \<longrightarrow> ff_broadcasts filters)
     \<and> ff_status eff = ff_status filters
     \<and> 32 \<le> length (wc_secret cfg') \<and> length (wc_secret cfg') \<le> 256
     \<and> wc_events cfg' \<noteq> [] \<and> distinct (wc_events cfg') \<and> set (wc_events cfg') \<subseteq> set webhook_events
     \<and> validWebhookPrefix (wc_prefix cfg')
     \<and> (\<forall>c \<in> set (wc_authorization cfg'). 32 \<le> (of_char c :: nat) \<and> (of_char c :: nat) < 127)"
proof -
  from assms have basic: "32 \<le> length (wc_secret cfg)" "length (wc_secret cfg) \<le> 256" "wc_events cfg \<noteq> []"
      "distinct (wc_events cfg)" "set (wc_events cfg) \<subseteq> set webhook_events"
      "\<not> (''connection.changed'' \<in> set (wc_events cfg) \<and> wo_deniedConnection opts)"
      "wc_authorization cfg = [] \<or> validWebhookAuthorization (wc_authorization cfg)"
    by (auto simp: validate_config_def split: if_splits)
  from assms obtain fs fc fb where f: "effective_filter (wc_self cfg) (ff_self filters) (ff_self (wo_deniedFilters opts)) = Some fs"
      "effective_filter (wc_channels cfg) (ff_channels filters) (ff_channels (wo_deniedFilters opts)) = Some fc"
      "effective_filter (wc_broadcasts cfg) (ff_broadcasts filters) (ff_broadcasts (wo_deniedFilters opts)) = Some fb"
      "eff = filters\<lparr>ff_self := fs, ff_channels := fc, ff_broadcasts := fb\<rparr>"
    and c: "cfg' = (if wc_prefix cfg = [] then cfg\<lparr>wc_prefix := ''X-Webhook''\<rparr> else cfg)" "validWebhookPrefix (wc_prefix cfg')"
    unfolding validate_config_def Let_def by (auto split: if_splits option.splits)
  have "ff_self eff \<and> ff_self (wo_deniedFilters opts) \<longrightarrow> ff_self filters"
    "ff_channels eff \<and> ff_channels (wo_deniedFilters opts) \<longrightarrow> ff_channels filters"
    "ff_broadcasts eff \<and> ff_broadcasts (wo_deniedFilters opts) \<longrightarrow> ff_broadcasts filters"
    using f by (auto simp: effective_filter_def split: option.splits if_splits)
  moreover have same: "wc_secret cfg' = wc_secret cfg" "wc_events cfg' = wc_events cfg" "wc_authorization cfg' = wc_authorization cfg"
    by (simp_all add: c(1))
  moreover have "\<forall>ch \<in> set (wc_authorization cfg'). 32 \<le> (of_char ch :: nat) \<and> (of_char ch :: nat) < 127"
    using basic(7) by (auto simp: same validWebhookAuthorization_def list_all_iff)
  ultimately show ?thesis using basic f(4) c(2) by auto
qed

definition sample_parse :: "string \<Rightarrow> url option" where
  "sample_parse raw = Some \<lparr>u_scheme = ''https'', u_hostname = ''example.org'', u_user = False, u_fragment = [], u_port = []\<rparr>"

definition sample_lookup :: "string \<Rightarrow> resolved option" where
  "sample_lookup host = Some [([93, 184, 216, 34], []), ([8, 8, 8, 8], [])]"

definition sample_options :: runtimeWebhookOptions where
  "sample_options = \<lparr>wo_enabled = True, wo_allowPorts = False, wo_failureLimit = 50,
     wo_deniedFilters = \<lparr>ff_self = True, ff_channels = False, ff_broadcasts = False, ff_status = False\<rparr>,
     wo_deniedConnection = True\<rparr>"

theorem deliveries_stay_public_witness:
  "(([93, 184, 216, 34], ''443''), 300000000) \<in> set (deliver_dials sample_parse sample_lookup sample_options ''https://example.org/hook''
       [\<lparr>di_left = 3 * second, di_ok = True, di_ended = False\<rparr>])
   \<and> publicWebhookIP [93, 184, 216, 34]"
proof -
  let ?in = "(([93, 184, 216, 34], ''443''), 300000000) \<in> set (deliver_dials sample_parse sample_lookup sample_options ''https://example.org/hook''
       [\<lparr>di_left = 3 * second, di_ok = True, di_ended = False\<rparr>])"
  have "publicWebhookIP [93, 184, 216, 34]" "publicWebhookIP [8, 8, 8, 8]"
    by (simp_all add: publicWebhookIP_eval word_of_bytes_def within_def reserved4_def dotted_def)
  then have i: ?in
    by (simp add: deliver_dials_def receiver_def sample_parse_def sample_lookup_def sample_options_def Atoi_443 time_unit_defs go_div_def Let_def)
  from deliveries_stay_public [OF i] have "publicWebhookIP [93, 184, 216, 34]" by (rule conjunct1)
  with i show ?thesis by (rule conjI)
qed

definition sample_config :: runtimeWebhookConfig where
  "sample_config = \<lparr>wc_url = ''https://example.org/hook'', wc_events = [''message.received''],
     wc_secret = replicate 32 CHR ''s'', wc_prefix = [], wc_authorization = ''Bearer key'', wc_self = None,
     wc_channels = Some True, wc_broadcasts = None\<rparr>"

definition sample_filters :: runtimeWebhookFilters where
  "sample_filters = \<lparr>ff_self = False, ff_channels = False, ff_broadcasts = False, ff_status = False\<rparr>"

theorem config_never_widens_witness:
  "\<exists>cfg' eff. validate_config sample_options sample_config sample_filters = Inr (cfg', eff)
     \<and> \<not> ff_self eff \<and> wc_events cfg' \<noteq> [] \<and> validWebhookPrefix (wc_prefix cfg')"
proof -
  have "validate_config sample_options sample_config sample_filters
      = Inr (sample_config\<lparr>wc_prefix := ''X-Webhook''\<rparr>, sample_filters\<lparr>ff_channels := True\<rparr>)" by code_simp
  from this config_never_widens [OF this] show ?thesis by (auto simp: sample_options_def sample_filters_def)
qed

end
