(* ===== verification/Webhook_Queue.thy ===== *)
theory Webhook_Queue
  imports Webhook_Receiver Work_Queues
begin

text \<open>
  The queue of the runtime webhook (\<^verbatim>\<open>webhook_runtime.go\<close>): generations of a receiver's configuration,
  each with its bounded queue and its worker; admission, replacement and removal under the lock; the
  worker's attempts, its verdict on an event it could not deliver, and the automatic switch-off after
  too many failures. A generation is an entry of a list and keeps its index; a retired one stays, as
  its worker may still hold an event. Every lock section and every start and end of a POST is a step;
  whether a deadline has passed and how the receiver answers are free choices of a step.
\<close>

section \<open>State\<close>

record wevent =
  we_event :: string
  we_body :: nat
  we_fits :: bool

text \<open>Why an attempt failed.\<close>

datatype failure = Http nat | ReceiverRefused | RequestFailed | DeliveryFailed
  | AttemptCancelled | ReceiverDisabled | ConfigurationChanged

text \<open>A worker waits for an event, is between attempts (with the attempts made and the last failure of the
  destination), is posting, has given the event up, or has returned.\<close>

datatype worker_phase = WIdle | WTrying wevent nat "failure option" | WPosting wevent nat "failure option"
  | WGivenUp wevent "failure option" | WReturned

record generation =
  gn_url :: string
  gn_events :: "string list"
  gn_cancelled :: bool
  gn_queue :: "wevent list"
  gn_worker :: worker_phase

text \<open>\<open>rw_dropped\<close> counts for the current receiver and starts again with each, \<open>rw_droppedTotal\<close> counts for the
  process. The last three fields record what happened: every admitted event with the generation it was admitted
  for, every event delivered with the generation that delivered it, and every event dropped.\<close>

record runtimeWebhook =
  rw_generations :: "generation list"
  rw_current :: "nat option"
  rw_enabled :: bool
  rw_failures :: int
  rw_dropped :: nat
  rw_droppedTotal :: nat
  rw_lastConnection :: "wevent option"
  rw_storeWarning :: "wevent option"
  rw_quotaWarning :: "wevent option"
  rw_admitted :: "(nat \<times> wevent) list"
  rw_delivered :: "(nat \<times> wevent) list"
  rw_lost :: "(nat \<times> wevent) list"

definition newRuntimeWebhook :: runtimeWebhook where
  "newRuntimeWebhook = \<lparr>rw_generations = [], rw_current = None, rw_enabled = False, rw_failures = 0, rw_dropped = 0, rw_droppedTotal = 0,
     rw_lastConnection = None, rw_storeWarning = None, rw_quotaWarning = None, rw_admitted = [], rw_delivered = [], rw_lost = []\<rparr>"

definition queue_limit :: nat where "queue_limit = 256"

abbreviation gen_of :: "runtimeWebhook \<Rightarrow> nat \<Rightarrow> generation" where
  "gen_of w i \<equiv> rw_generations w ! i"

definition set_gen :: "nat \<Rightarrow> generation \<Rightarrow> runtimeWebhook \<Rightarrow> runtimeWebhook" where
  "set_gen i g w = w\<lparr>rw_generations := (rw_generations w)[i := g]\<rparr>"

section \<open>Lock sections\<close>

definition dropLocked :: "nat \<Rightarrow> wevent list \<Rightarrow> runtimeWebhook \<Rightarrow> runtimeWebhook" where
  "dropLocked i es w = w\<lparr>rw_dropped := rw_dropped w + length es, rw_droppedTotal := rw_droppedTotal w + length es,
     rw_lost := rw_lost w @ map (Pair i) es\<rparr>"

definition drainLocked :: "nat \<Rightarrow> runtimeWebhook \<Rightarrow> runtimeWebhook" where
  "drainLocked i w = dropLocked i (gn_queue (gen_of w i)) (set_gen i ((gen_of w i)\<lparr>gn_queue := []\<rparr>) w)"

text \<open>An event for no receiver or not selected by the one that admits it is ignored; any other is admitted
  and queued, or dropped and counted.\<close>

definition enqueueLocked :: "nat option \<Rightarrow> wevent \<Rightarrow> runtimeWebhook \<Rightarrow> runtimeWebhook" where
  "enqueueLocked g e w =
     (case g of
        None \<Rightarrow> w
      | Some i \<Rightarrow>
          if we_event e \<notin> set (gn_events (gen_of w i)) then w
          else let w1 = w\<lparr>rw_admitted := rw_admitted w @ [(i, e)]\<rparr>
               in if g \<noteq> rw_current w then dropLocked i [e] w1
                  else if \<not> rw_enabled w then dropLocked i [e] w1
                  else if \<not> we_fits e then dropLocked i [e] w1
                  else if length (gn_queue (gen_of w i)) < queue_limit
                  then set_gen i ((gen_of w i)\<lparr>gn_queue := gn_queue (gen_of w i) @ [e]\<rparr>) w1
                  else dropLocked i [e] w1)"

definition enqueue_if :: "wevent option \<Rightarrow> runtimeWebhook \<Rightarrow> runtimeWebhook" where
  "enqueue_if e w = (case e of None \<Rightarrow> w | Some ev \<Rightarrow> enqueueLocked (rw_current w) ev w)"

definition retire :: "runtimeWebhook \<Rightarrow> runtimeWebhook" where
  "retire w = (case rw_current w of None \<Rightarrow> w
     | Some i \<Rightarrow> drainLocked i (set_gen i ((gen_of w i)\<lparr>gn_cancelled := True\<rparr>) w))"

text \<open>The state change of \<^verbatim>\<open>configure\<close> once the configuration is accepted.\<close>

definition configure :: "string \<Rightarrow> string list \<Rightarrow> runtimeWebhook \<Rightarrow> runtimeWebhook" where
  "configure url events w =
     (let replay = (case rw_current w of
            None \<Rightarrow> True
          | Some i \<Rightarrow> \<not> rw_enabled w \<or> gn_url (gen_of w i) \<noteq> url \<or> ''connection.changed'' \<notin> set (gn_events (gen_of w i)));
          w1 = retire w;
          w2 = w1\<lparr>rw_generations := rw_generations w1 @
                    [\<lparr>gn_url = url, gn_events = events, gn_cancelled = False, gn_queue = [], gn_worker = WIdle\<rparr>],
                  rw_current := Some (length (rw_generations w1)), rw_enabled := True, rw_failures := 0, rw_dropped := 0\<rparr>;
          w3 = (if replay then enqueue_if (rw_lastConnection w2) w2 else w2)
      in enqueue_if (rw_quotaWarning w3) (enqueue_if (rw_storeWarning w3) w3))"

definition remove_receiver :: "runtimeWebhook \<Rightarrow> runtimeWebhook" where
  "remove_receiver w = (retire w)\<lparr>rw_current := None, rw_enabled := False, rw_failures := 0, rw_dropped := 0\<rparr>"

definition queueRuntimeConnectionEvent :: "wevent \<Rightarrow> runtimeWebhook \<Rightarrow> runtimeWebhook" where
  "queueRuntimeConnectionEvent e w = enqueueLocked (rw_current w) e (w\<lparr>rw_lastConnection := Some e\<rparr>)"

text \<open>A storage warning of kind \<^verbatim>\<open>store\<close> or \<^verbatim>\<open>media_quota\<close>; an empty state withdraws it.\<close>

definition queueRuntimeStorageWarning :: "string \<Rightarrow> wevent option \<Rightarrow> runtimeWebhook \<Rightarrow> runtimeWebhook" where
  "queueRuntimeStorageWarning kind warning w =
     (let w1 = (if kind = ''store'' then w\<lparr>rw_storeWarning := warning\<rparr>
                else if kind = ''media_quota'' then w\<lparr>rw_quotaWarning := warning\<rparr> else w)
      in case warning of None \<Rightarrow> w1 | Some e \<Rightarrow> enqueueLocked (rw_current w1) e w1)"

section \<open>The worker\<close>

definition set_worker_phase :: "nat \<Rightarrow> worker_phase \<Rightarrow> runtimeWebhook \<Rightarrow> runtimeWebhook" where
  "set_worker_phase i ph w = set_gen i ((gen_of w i)\<lparr>gn_worker := ph\<rparr>) w"

definition active_gen :: "nat \<Rightarrow> runtimeWebhook \<Rightarrow> bool" where
  "active_gen i w \<longleftrightarrow> rw_current w = Some i \<and> rw_enabled w \<and> \<not> gn_cancelled (gen_of w i)"

text \<open>Statuses that no retry can change.\<close>

definition permanent :: "failure \<Rightarrow> bool" where
  "permanent f \<longleftrightarrow> (case f of Http s \<Rightarrow> 300 \<le> s \<and> s < 500 \<and> s \<noteq> 408 \<and> s \<noteq> 429 | _ \<Rightarrow> False)"

definition destination_failure :: "failure \<Rightarrow> bool" where
  "destination_failure f \<longleftrightarrow> f \<notin> {AttemptCancelled, ReceiverDisabled, ConfigurationChanged}"

text \<open>The loop of \<^verbatim>\<open>run\<close> after a failed attempt, the \<open>n\<close>th counted from zero.\<close>

definition after_failure :: "wevent \<Rightarrow> nat \<Rightarrow> failure option \<Rightarrow> failure \<Rightarrow> worker_phase" where
  "after_failure e n dest f =
     (let dest' = (if destination_failure f then Some f else dest)
      in if n = 4 \<or> permanent f then WGivenUp e dest' else WTrying e (n + 1) dest')"

text \<open>The end of a POST: the receiver's answer, unless the generation was replaced or cancelled, or the
  deadline passed, meanwhile.\<close>

definition finish_post :: "nat \<Rightarrow> wevent \<Rightarrow> nat \<Rightarrow> failure option \<Rightarrow> failure option \<Rightarrow> bool \<Rightarrow> runtimeWebhook \<Rightarrow> runtimeWebhook" where
  "finish_post i e n dest answer expired w =
     (case answer of
        None \<Rightarrow>
          (let w1 = set_worker_phase i WIdle (w\<lparr>rw_delivered := rw_delivered w @ [(i, e)]\<rparr>)
           in if rw_current w = Some i then w1\<lparr>rw_failures := 0\<rparr> else w1)
      | Some f \<Rightarrow>
          set_worker_phase i (after_failure e n dest
            (if rw_current w \<noteq> Some i \<or> gn_cancelled (gen_of w i) then ConfigurationChanged
             else if expired then AttemptCancelled else f)) w)"

definition give_up :: "int \<Rightarrow> nat \<Rightarrow> wevent \<Rightarrow> failure option \<Rightarrow> runtimeWebhook \<Rightarrow> runtimeWebhook" where
  "give_up failureLimit i e dest w =
     (let active = (rw_current w = Some i \<and> \<not> gn_cancelled (gen_of w i));
          w1 = dropLocked i [e] (set_worker_phase i WIdle w)
      in if active \<and> dest \<noteq> None then
           (let w2 = w1\<lparr>rw_failures := rw_failures w1 + 1\<rparr>
            in if rw_failures w2 \<ge> failureLimit
               then drainLocked i (set_gen i ((gen_of w2 i)\<lparr>gn_cancelled := True\<rparr>) (w2\<lparr>rw_enabled := False\<rparr>))
               else w2)
         else w1)"

inductive webhook_step :: "int \<Rightarrow> runtimeWebhook \<Rightarrow> runtimeWebhook \<Rightarrow> bool" for limit where
  configured: "webhook_step limit w (configure url events w)"
| removed: "webhook_step limit w (remove_receiver w)"
| message: "g = None \<or> (\<exists>i < length (rw_generations w). g = Some i) \<Longrightarrow> webhook_step limit w (enqueueLocked g e w)"
| connection: "webhook_step limit w (queueRuntimeConnectionEvent e w)"
| storage: "webhook_step limit w (queueRuntimeStorageWarning kind warning w)"
| takes: "i < length (rw_generations w) \<Longrightarrow> gn_worker (gen_of w i) = WIdle \<Longrightarrow> gn_queue (gen_of w i) = e # es \<Longrightarrow>
     webhook_step limit w (set_gen i ((gen_of w i)\<lparr>gn_queue := es, gn_worker := WTrying e 0 None\<rparr>) w)"
| returns: "i < length (rw_generations w) \<Longrightarrow> gn_worker (gen_of w i) = WIdle \<Longrightarrow> gn_cancelled (gen_of w i) \<Longrightarrow>
     webhook_step limit w (set_worker_phase i WReturned w)"
| expires: "i < length (rw_generations w) \<Longrightarrow> gn_worker (gen_of w i) = WTrying e n dest \<Longrightarrow>
     webhook_step limit w (set_worker_phase i (WGivenUp e dest) w)"
| refused: "i < length (rw_generations w) \<Longrightarrow> gn_worker (gen_of w i) = WTrying e n dest \<Longrightarrow> f \<in> {ReceiverDisabled, AttemptCancelled} \<Longrightarrow>
     webhook_step limit w (set_worker_phase i (after_failure e n dest f) w)"
| posts: "i < length (rw_generations w) \<Longrightarrow> gn_worker (gen_of w i) = WTrying e n dest \<Longrightarrow> active_gen i w \<Longrightarrow>
     webhook_step limit w (set_worker_phase i (WPosting e n dest) w)"
| posted: "i < length (rw_generations w) \<Longrightarrow> gn_worker (gen_of w i) = WPosting e n dest \<Longrightarrow>
     webhook_step limit w (finish_post i e n dest answer expired w)"
| gives_up: "i < length (rw_generations w) \<Longrightarrow> gn_worker (gen_of w i) = WGivenUp e dest \<Longrightarrow>
     webhook_step limit w (give_up limit i e dest w)"

section \<open>The books\<close>

fun in_work :: "worker_phase \<Rightarrow> wevent list" where
  "in_work (WTrying e n d) = [e]"
| "in_work (WPosting e n d) = [e]"
| "in_work (WGivenUp e d) = [e]"
| "in_work _ = []"

definition load_at :: "nat \<Rightarrow> generation \<Rightarrow> (nat \<times> wevent) multiset" where
  "load_at i g = mset (map (Pair i) (gn_queue g @ in_work (gn_worker g)))"

definition loads :: "generation list \<Rightarrow> (nat \<times> wevent) multiset" where
  "loads gs = (\<Sum>i<length gs. load_at i (gs ! i))"

text \<open>Every admitted event is waiting, in a worker's hands, delivered or lost, exactly once.\<close>

definition books :: "runtimeWebhook \<Rightarrow> bool" where
  "books w \<longleftrightarrow> mset (rw_admitted w) = loads (rw_generations w) + mset (rw_delivered w) + mset (rw_lost w)
     \<and> rw_droppedTotal w = length (rw_lost w)"

text \<open>A queue is bounded; a generation that is not the current one is cancelled and its queue is empty, and
  so is the current one once it is switched off.\<close>

definition queues_ok :: "runtimeWebhook \<Rightarrow> bool" where
  "queues_ok w \<longleftrightarrow> (\<forall>i < length (rw_generations w). length (gn_queue (gen_of w i)) \<le> queue_limit
        \<and> (rw_current w \<noteq> Some i \<or> \<not> rw_enabled w \<longrightarrow> gn_cancelled (gen_of w i) \<and> gn_queue (gen_of w i) = []))
     \<and> (\<forall>i. rw_current w = Some i \<longrightarrow> i < length (rw_generations w)) \<and> (rw_current w = None \<longrightarrow> \<not> rw_enabled w)"

lemma loads_update:
  assumes "i < length gs"
  shows "loads (gs[i := g]) + load_at i (gs ! i) = loads gs + load_at i g"
proof -
  have "(\<Sum>j<length gs. load_at j (gs[i := g] ! j)) = load_at i g + (\<Sum>j\<in>{..<length gs} - {i}. load_at j (gs[i := g] ! j))"
    using assms by (subst sum.remove [of _ i]) auto
  moreover have "(\<Sum>j<length gs. load_at j (gs ! j)) = load_at i (gs ! i) + (\<Sum>j\<in>{..<length gs} - {i}. load_at j (gs ! j))"
    using assms by (subst sum.remove [of _ i]) auto
  moreover have "(\<Sum>j\<in>{..<length gs} - {i}. load_at j (gs[i := g] ! j)) = (\<Sum>j\<in>{..<length gs} - {i}. load_at j (gs ! j))"
    by (rule sum.cong) auto
  ultimately show ?thesis by (simp add: loads_def)
qed

lemma loads_append: "loads (gs @ [g]) = loads gs + load_at (length gs) g"
proof -
  have "(\<Sum>i<length gs. load_at i ((gs @ [g]) ! i)) = (\<Sum>i<length gs. load_at i (gs ! i))"
    by (rule sum.cong) (auto simp: nth_append)
  then show ?thesis by (simp add: loads_def)
qed

text \<open>Moving events between the lists keeps the books: what a generation loses is delivered or lost.\<close>

lemma books_move:
  assumes "books w" and "i < length (rw_generations w)"
    and "load_at i (gen_of w i) = load_at i g + mset del + mset los"
    and "rw_generations w' = (rw_generations w)[i := g]" and "rw_admitted w' = rw_admitted w"
    and "rw_delivered w' = rw_delivered w @ del" and "rw_lost w' = rw_lost w @ los"
    and "rw_droppedTotal w' = rw_droppedTotal w + length los"
  shows "books w'"
proof -
  have "loads (rw_generations w') + (mset del + mset los) = loads (rw_generations w)"
    using loads_update [OF assms(2), of g] assms(3,4) by (simp add: ac_simps)
  with assms show ?thesis by (auto simp: books_def ac_simps)
qed

lemma set_gen_sel [simp]:
  "rw_generations (set_gen i g w) = (rw_generations w)[i := g]" "rw_admitted (set_gen i g w) = rw_admitted w"
  "rw_delivered (set_gen i g w) = rw_delivered w" "rw_lost (set_gen i g w) = rw_lost w" "rw_current (set_gen i g w) = rw_current w"
  "rw_enabled (set_gen i g w) = rw_enabled w" "rw_droppedTotal (set_gen i g w) = rw_droppedTotal w"
  "rw_failures (set_gen i g w) = rw_failures w"
  by (simp_all add: set_gen_def)

lemma dropLocked_sel [simp]:
  "rw_generations (dropLocked i es w) = rw_generations w" "rw_admitted (dropLocked i es w) = rw_admitted w"
  "rw_delivered (dropLocked i es w) = rw_delivered w" "rw_lost (dropLocked i es w) = rw_lost w @ map (Pair i) es"
  "rw_current (dropLocked i es w) = rw_current w" "rw_enabled (dropLocked i es w) = rw_enabled w"
  "rw_droppedTotal (dropLocked i es w) = rw_droppedTotal w + length es" "rw_failures (dropLocked i es w) = rw_failures w"
  by (simp_all add: dropLocked_def)

lemma drain_books:
  assumes "books w" and "i < length (rw_generations w)"
  shows "books (drainLocked i w)"
  by (rule books_move [OF assms, where g = "(gen_of w i)\<lparr>gn_queue := []\<rparr>" and del = "[]" and los = "map (Pair i) (gn_queue (gen_of w i))"])
    (simp_all add: drainLocked_def load_at_def)

lemma books_same_gen:
  assumes "books w" and "i < length (rw_generations w)" and "gn_queue g = gn_queue (gen_of w i)" and "in_work (gn_worker g) = in_work (gn_worker (gen_of w i))"
  shows "books (set_gen i g w)"
  by (rule books_move [OF assms(1,2), where g = g and del = "[]" and los = "[]"]) (simp_all add: load_at_def assms(3,4))

lemma retire_books:
  assumes "books w" and "queues_ok w"
  shows "books (retire w)"
proof (cases "rw_current w")
  case None
  with assms show ?thesis by (simp add: retire_def)
next
  case (Some i)
  then have i: "i < length (rw_generations w)" using assms(2) by (simp add: queues_ok_def)
  let ?w = "set_gen i ((gen_of w i)\<lparr>gn_cancelled := True\<rparr>) w"
  have "books ?w" by (rule books_same_gen [OF assms(1) i]) simp_all
  with Some i drain_books [of ?w i] show ?thesis by (simp add: retire_def)
qed

lemma enqueue_books:
  assumes "books w" and "case g of None \<Rightarrow> True | Some i \<Rightarrow> i < length (rw_generations w)"
  shows "books (enqueueLocked g e w)"
proof (cases g)
  case None
  with assms show ?thesis by (simp add: enqueueLocked_def)
next
  case (Some i)
  then have i: "i < length (rw_generations w)" using assms(2) by simp
  let ?q = "(gen_of w i)\<lparr>gn_queue := gn_queue (gen_of w i) @ [e]\<rparr>"
  have "loads ((rw_generations w)[i := ?q]) = add_mset (i, e) (loads (rw_generations w))"
    using loads_update [OF i, of ?q] by (simp add: load_at_def)
  with assms(1) Some show ?thesis by (auto simp: enqueueLocked_def Let_def books_def)
qed

lemma queues_sel:
  "rw_generations w' = rw_generations w \<Longrightarrow> rw_current w' = rw_current w \<Longrightarrow> rw_enabled w' = rw_enabled w \<Longrightarrow> queues_ok w \<Longrightarrow> queues_ok w'"
  by (simp add: queues_ok_def)

lemma books_sel:
  "rw_generations w' = rw_generations w \<Longrightarrow> rw_admitted w' = rw_admitted w \<Longrightarrow> rw_delivered w' = rw_delivered w
     \<Longrightarrow> rw_lost w' = rw_lost w \<Longrightarrow> rw_droppedTotal w' = rw_droppedTotal w \<Longrightarrow> books w \<Longrightarrow> books w'"
  by (simp add: books_def)

lemma queues_set_gen:
  assumes "queues_ok w" and "i < length (rw_generations w)" and "length (gn_queue g) \<le> queue_limit"
    and "rw_current w \<noteq> Some i \<or> \<not> rw_enabled w \<longrightarrow> gn_cancelled g \<and> gn_queue g = []"
  shows "queues_ok (set_gen i g w)"
  using assms by (auto simp: queues_ok_def nth_list_update)

lemma queues_same_gen:
  assumes "queues_ok w" and "i < length (rw_generations w)" and "gn_queue g = gn_queue (gen_of w i)" and "gn_cancelled (gen_of w i) \<longrightarrow> gn_cancelled g"
  shows "queues_ok (set_gen i g w)"
  by (rule queues_set_gen [OF assms(1,2)]) (use assms in \<open>auto simp: queues_ok_def\<close>)

lemma drain_queues:
  assumes "queues_ok w" and "i < length (rw_generations w)"
  shows "queues_ok (drainLocked i w)"
  unfolding drainLocked_def
  by (rule queues_sel [OF _ _ _ queues_set_gen [OF assms, of "(gen_of w i)\<lparr>gn_queue := []\<rparr>"]]) (use assms in \<open>auto simp: queues_ok_def\<close>)

lemma enqueue_queues:
  assumes "queues_ok w" and "case g of None \<Rightarrow> True | Some i \<Rightarrow> i < length (rw_generations w)"
  shows "queues_ok (enqueueLocked g e w)"
proof (cases g)
  case None
  with assms show ?thesis by (simp add: enqueueLocked_def)
next
  case (Some i)
  let ?w = "w\<lparr>rw_admitted := rw_admitted w @ [(i, e)]\<rparr>"
  let ?q = "(gen_of w i)\<lparr>gn_queue := gn_queue (gen_of w i) @ [e]\<rparr>"
  have w: "queues_ok ?w" by (rule queues_sel [OF _ _ _ assms(1)]) simp_all
  have d: "queues_ok (dropLocked i [e] ?w)" by (rule queues_sel [OF _ _ _ w]) simp_all
  have "queues_ok (set_gen i ?q ?w)" if "g = rw_current w" "rw_enabled w" "length (gn_queue (gen_of w i)) < queue_limit"
    by (rule queues_set_gen [OF w]) (use that Some assms(2) in \<open>simp_all split: option.splits\<close>)
  with d assms(1) Some show ?thesis by (simp add: enqueueLocked_def Let_def)
qed

lemma retire_queues:
  assumes "queues_ok w"
  shows "\<forall>j < length (rw_generations (retire w)). gn_cancelled (gen_of (retire w) j) \<and> gn_queue (gen_of (retire w) j) = []"
proof (cases "rw_current w")
  case None
  with assms show ?thesis by (simp add: queues_ok_def retire_def)
next
  case (Some i)
  with assms have i: "i < length (rw_generations w)" by (simp add: queues_ok_def)
  have "\<forall>j < length (rw_generations w). j \<noteq> i \<longrightarrow> gn_cancelled (gen_of w j) \<and> gn_queue (gen_of w j) = []"
    using assms Some by (auto simp: queues_ok_def)
  with Some i show ?thesis by (auto simp: retire_def drainLocked_def nth_list_update)
qed

definition webhook_ok :: "runtimeWebhook \<Rightarrow> bool" where
  "webhook_ok w \<longleftrightarrow> books w \<and> queues_ok w"

lemma enqueue_if_ok: "webhook_ok w \<Longrightarrow> webhook_ok (enqueue_if e w)"
proof (cases e)
  case (Some ev)
  assume ok: "webhook_ok w"
  then have "case rw_current w of None \<Rightarrow> True | Some i \<Rightarrow> i < length (rw_generations w)"
    by (auto simp: webhook_ok_def queues_ok_def split: option.splits)
  with ok Some show ?thesis by (simp add: enqueue_if_def webhook_ok_def enqueue_books enqueue_queues)
qed (simp add: enqueue_if_def)

lemma fresh_generation_ok:
  assumes "webhook_ok w"
  shows "webhook_ok ((retire w)\<lparr>rw_generations := rw_generations (retire w) @
      [\<lparr>gn_url = url, gn_events = events, gn_cancelled = False, gn_queue = [], gn_worker = WIdle\<rparr>],
      rw_current := Some (length (rw_generations (retire w))), rw_enabled := True, rw_failures := 0, rw_dropped := 0\<rparr>)"
proof -
  have "books (retire w)" using assms retire_books by (simp add: webhook_ok_def)
  moreover have "\<forall>j < length (rw_generations (retire w)). gn_cancelled (gen_of (retire w) j) \<and> gn_queue (gen_of (retire w) j) = []"
    using assms retire_queues by (simp add: webhook_ok_def)
  ultimately show ?thesis
    by (auto simp: webhook_ok_def books_def queues_ok_def loads_append load_at_def nth_append less_Suc_eq)
qed

lemma configure_ok: "webhook_ok w \<Longrightarrow> webhook_ok (configure url events w)"
  unfolding configure_def Let_def by (intro enqueue_if_ok) (simp add: enqueue_if_ok fresh_generation_ok)

lemma remove_ok:
  assumes "webhook_ok w"
  shows "webhook_ok (remove_receiver w)"
  using assms retire_books [of w] retire_queues [of w]
  by (auto simp: webhook_ok_def remove_receiver_def books_def queues_ok_def)

lemma worker_ok:
  assumes "webhook_ok w" and "i < length (rw_generations w)" and "in_work ph = in_work (gn_worker (gen_of w i))"
  shows "webhook_ok (set_worker_phase i ph w)"
  unfolding webhook_ok_def set_worker_phase_def
  by (intro conjI books_same_gen queues_same_gen) (use assms in \<open>auto simp: webhook_ok_def\<close>)

lemma in_work_after [simp]: "in_work (after_failure e n dest f) = [e]"
  by (simp add: after_failure_def Let_def)

lemma finish_ok:
  assumes "webhook_ok w" and "i < length (rw_generations w)" and "gn_worker (gen_of w i) = WPosting e n dest"
  shows "webhook_ok (finish_post i e n dest answer expired w)"
proof (cases answer)
  case None
  let ?g = "(gen_of w i)\<lparr>gn_worker := WIdle\<rparr>"
  have b: "books (set_gen i ?g (w\<lparr>rw_delivered := rw_delivered w @ [(i, e)]\<rparr>))"
    by (rule books_move [where w = w and i = i and g = ?g and del = "[(i, e)]" and los = "[]"])
      (use assms in \<open>simp_all add: webhook_ok_def load_at_def\<close>)
  have "queues_ok (set_gen i ?g w)" by (rule queues_same_gen) (use assms in \<open>simp_all add: webhook_ok_def\<close>)
  then have q: "queues_ok (set_gen i ?g (w\<lparr>rw_delivered := rw_delivered w @ [(i, e)]\<rparr>))" by (rule queues_sel [rotated 3]) simp_all
  from None show ?thesis
    unfolding webhook_ok_def finish_post_def Let_def set_worker_phase_def
    by (auto intro: books_sel [OF _ _ _ _ _ b] queues_sel [OF _ _ _ q])
next
  case (Some f)
  with worker_ok [OF assms(1,2)] assms(3) show ?thesis by (simp add: finish_post_def)
qed

lemma switch_off_ok:
  assumes "books w" and "queues_ok w" and i: "i < length (rw_generations w)" and "rw_current w = Some i"
  shows "webhook_ok (drainLocked i (set_gen i ((gen_of w i)\<lparr>gn_cancelled := True\<rparr>) (w\<lparr>rw_enabled := False\<rparr>)))"
proof -
  let ?w = "set_gen i ((gen_of w i)\<lparr>gn_cancelled := True\<rparr>) (w\<lparr>rw_enabled := False\<rparr>)"
  have "books (set_gen i ((gen_of w i)\<lparr>gn_cancelled := True\<rparr>) w)" by (rule books_same_gen [OF assms(1) i]) simp_all
  then have "books ?w" by (rule books_sel [rotated 5]) simp_all
  then have "books (drainLocked i ?w)" by (rule drain_books) (use i in simp)
  moreover have "\<forall>j < length (rw_generations w). j \<noteq> i \<longrightarrow> gn_cancelled (gen_of w j) \<and> gn_queue (gen_of w j) = []"
    using assms(2,4) by (auto simp: queues_ok_def)
  then have "queues_ok (drainLocked i ?w)"
    using assms(4) i by (auto simp: queues_ok_def drainLocked_def nth_list_update)
  ultimately show ?thesis by (simp add: webhook_ok_def)
qed

lemma give_up_ok:
  assumes "webhook_ok w" and "i < length (rw_generations w)" and "gn_worker (gen_of w i) = WGivenUp e dest"
  shows "webhook_ok (give_up limit i e dest w)"
proof -
  let ?g = "(gen_of w i)\<lparr>gn_worker := WIdle\<rparr>"
  define w1 where "w1 = dropLocked i [e] (set_worker_phase i WIdle w)"
  have b: "books w1"
    by (rule books_move [where w = w and i = i and g = ?g and del = "[]" and los = "[(i, e)]"])
      (use assms in \<open>simp_all add: webhook_ok_def load_at_def w1_def set_worker_phase_def\<close>)
  have "queues_ok (set_gen i ?g w)" by (rule queues_same_gen) (use assms in \<open>simp_all add: webhook_ok_def\<close>)
  then have q: "queues_ok w1" by (rule queues_sel [rotated 3]) (simp_all add: w1_def set_worker_phase_def)
  define w2 where "w2 = w1\<lparr>rw_failures := rw_failures w1 + 1\<rparr>"
  have ok2: "books w2" "queues_ok w2"
    unfolding w2_def using b by (rule books_sel [rotated 5]; simp) (rule queues_sel [OF _ _ _ q]; simp)
  have i: "i < length (rw_generations w2)" using assms(2) by (simp add: w2_def w1_def set_worker_phase_def)
  let ?c = "(gen_of w2 i)\<lparr>gn_cancelled := True\<rparr>"
  have "webhook_ok (drainLocked i (set_gen i ?c (w2\<lparr>rw_enabled := False\<rparr>)))" if "rw_current w = Some i"
    by (rule switch_off_ok [OF ok2 i]) (use that in \<open>simp add: w2_def w1_def set_worker_phase_def\<close>)
  with b q ok2 show ?thesis
    unfolding give_up_def Let_def w1_def [symmetric] w2_def [symmetric] by (auto simp: webhook_ok_def)
qed

lemma current_bound:
  "webhook_ok w \<Longrightarrow> case rw_current w of None \<Rightarrow> True | Some i \<Rightarrow> i < length (rw_generations w)"
  by (auto simp: webhook_ok_def queues_ok_def split: option.splits)

lemma webhook_ok_sel:
  "rw_generations w' = rw_generations w \<Longrightarrow> rw_admitted w' = rw_admitted w \<Longrightarrow> rw_delivered w' = rw_delivered w
     \<Longrightarrow> rw_lost w' = rw_lost w \<Longrightarrow> rw_droppedTotal w' = rw_droppedTotal w \<Longrightarrow> rw_current w' = rw_current w
     \<Longrightarrow> rw_enabled w' = rw_enabled w \<Longrightarrow> webhook_ok w \<Longrightarrow> webhook_ok w'"
  by (simp add: webhook_ok_def books_def queues_ok_def)

lemma enqueue_ok:
  "webhook_ok w \<Longrightarrow> case g of None \<Rightarrow> True | Some i \<Rightarrow> i < length (rw_generations w) \<Longrightarrow> webhook_ok (enqueueLocked g e w)"
  by (simp add: webhook_ok_def enqueue_books enqueue_queues)

lemma storage_ok:
  assumes "webhook_ok w"
  shows "webhook_ok (queueRuntimeStorageWarning kind warning w)"
proof -
  define w1 where "w1 = (if kind = ''store'' then w\<lparr>rw_storeWarning := warning\<rparr>
      else if kind = ''media_quota'' then w\<lparr>rw_quotaWarning := warning\<rparr> else w)"
  have "webhook_ok w1" by (rule webhook_ok_sel [OF _ _ _ _ _ _ _ assms]) (simp_all add: w1_def)
  with enqueue_ok [OF this current_bound] show ?thesis
    unfolding queueRuntimeStorageWarning_def Let_def w1_def [symmetric] by (simp split: option.splits)
qed

lemma takes_ok:
  assumes "webhook_ok w" and "i < length (rw_generations w)" and "gn_worker (gen_of w i) = WIdle" and "gn_queue (gen_of w i) = e # es"
  shows "webhook_ok (set_gen i ((gen_of w i)\<lparr>gn_queue := es, gn_worker := WTrying e 0 None\<rparr>) w)"
  unfolding webhook_ok_def
proof
  let ?g = "(gen_of w i)\<lparr>gn_queue := es, gn_worker := WTrying e 0 None\<rparr>"
  show "books (set_gen i ?g w)"
    by (rule books_move [where w = w and i = i and g = ?g and del = "[]" and los = "[]"])
      (use assms in \<open>simp_all add: webhook_ok_def load_at_def\<close>)
  have "length (gn_queue (gen_of w i)) \<le> queue_limit" "rw_current w \<noteq> Some i \<or> \<not> rw_enabled w \<longrightarrow> gn_queue (gen_of w i) = []"
    using assms(1,2) by (auto simp: webhook_ok_def queues_ok_def)
  with assms show "queues_ok (set_gen i ?g w)" by (intro queues_set_gen) (auto simp: webhook_ok_def)
qed

lemma webhook_step_ok:
  assumes "webhook_step limit w w'" and "webhook_ok w"
  shows "webhook_ok w'"
  using assms(1)
proof (cases rule: webhook_step.cases)
  case (configured url events)
  with assms(2) configure_ok show ?thesis by simp
next
  case removed
  with assms(2) remove_ok show ?thesis by simp
next
  case (message g e)
  with assms(2) show ?thesis by (auto intro: enqueue_ok)
next
  case (connection e)
  have "webhook_ok (w\<lparr>rw_lastConnection := Some e\<rparr>)" by (rule webhook_ok_sel [OF _ _ _ _ _ _ _ assms(2)]) simp_all
  from enqueue_ok [OF this current_bound [OF this], of e] connection show ?thesis
    by (simp add: queueRuntimeConnectionEvent_def)
next
  case (storage kind warning)
  with storage_ok [OF assms(2)] show ?thesis by simp
next
  case (takes i e es)
  with takes_ok [OF assms(2)] show ?thesis by simp
next
  case (returns i)
  with worker_ok [OF assms(2)] show ?thesis by simp
next
  case (expires i e n dest)
  with worker_ok [OF assms(2)] show ?thesis by simp
next
  case (refused i e n dest f)
  with worker_ok [OF assms(2)] show ?thesis by simp
next
  case (posts i e n dest)
  with worker_ok [OF assms(2)] show ?thesis by simp
next
  case (posted i e n dest answer expired)
  with finish_ok [OF assms(2)] show ?thesis by simp
next
  case (gives_up i e dest)
  with give_up_ok [OF assms(2)] show ?thesis by simp
qed

lemma webhook_reachable:
  assumes "steps (webhook_step limit) newRuntimeWebhook w"
  shows "webhook_ok w"
proof -
  have "webhook_ok newRuntimeWebhook" by (simp add: webhook_ok_def books_def queues_ok_def newRuntimeWebhook_def loads_def)
  with assms show ?thesis by (rule steps_invariant) (rule webhook_step_ok)
qed

section \<open>Properties\<close>

text \<open>C5. No admitted webhook event disappears and none goes to another receiver: through any configuration
  changes, removals, failures and races, every admitted event is at every moment waiting in the queue of
  the receiver it was admitted for, in the hands of that receiver's worker, delivered by it, or counted
  as dropped, exactly once; a queue never holds more than 256 events, and a replaced, removed or
  switched-off receiver has nothing queued.\<close>

theorem webhook_books_balance:
  assumes "steps (webhook_step limit) newRuntimeWebhook w"
  shows "mset (rw_admitted w) = loads (rw_generations w) + mset (rw_delivered w) + mset (rw_lost w)
     \<and> rw_droppedTotal w = length (rw_lost w)
     \<and> (\<forall>i < length (rw_generations w). length (gn_queue (gen_of w i)) \<le> 256
          \<and> (rw_current w \<noteq> Some i \<or> \<not> rw_enabled w \<longrightarrow> gn_queue (gen_of w i) = []))"
  using webhook_reachable [OF assms] by (auto simp: webhook_ok_def books_def queues_ok_def queue_limit_def)

text \<open>A failing receiver is switched off: an event given up after a failure of the destination counts
  against the current receiver, below the limit nothing else changes, and at the limit the receiver is
  disabled, its queue is dropped, no attempt can post to it any more and whatever is still admitted for
  it is dropped and counted.\<close>

lemma webhook_switch_off:
  assumes "steps (webhook_step limit) newRuntimeWebhook w" and "rw_current w = Some i" and "\<not> gn_cancelled (gen_of w i)"
    and "gn_worker (gen_of w i) = WGivenUp e (Some f)"
  shows "let w' = give_up limit i e (Some f) w
     in rw_failures w' = rw_failures w + 1 \<and> rw_current w' = Some i
        \<and> (rw_failures w + 1 < limit \<longrightarrow> rw_enabled w' = rw_enabled w \<and> \<not> gn_cancelled (gen_of w' i))
        \<and> (limit \<le> rw_failures w + 1 \<longrightarrow> \<not> rw_enabled w' \<and> gn_queue (gen_of w' i) = [] \<and> \<not> active_gen i w'
             \<and> enqueueLocked (Some i) ev w' = (if we_event ev \<in> set (gn_events (gen_of w' i))
                 then dropLocked i [ev] (w'\<lparr>rw_admitted := rw_admitted w' @ [(i, ev)]\<rparr>) else w'))"
proof -
  have "i < length (rw_generations w)"
    using webhook_reachable [OF assms(1)] assms(2) by (simp add: webhook_ok_def queues_ok_def)
  with assms(2,3) show ?thesis
    by (auto simp: give_up_def Let_def set_worker_phase_def drainLocked_def active_gen_def enqueueLocked_def)
qed

definition sample_event :: wevent where
  "sample_event = \<lparr>we_event = ''message.received'', we_body = 7, we_fits = True\<rparr>"

definition sample_receiver :: runtimeWebhook where
  "sample_receiver = enqueueLocked (Some 0) sample_event (configure ''https://example.org/hook'' [''message.received''] newRuntimeWebhook)"

lemma sample_receiver_steps: "steps (webhook_step 1) newRuntimeWebhook sample_receiver"
proof -
  let ?w = "configure ''https://example.org/hook'' [''message.received''] newRuntimeWebhook"
  have "length (rw_generations ?w) = 1" by code_simp
  then have "webhook_step 1 ?w sample_receiver" unfolding sample_receiver_def by (intro webhook_step.message) auto
  moreover have "webhook_step 1 newRuntimeWebhook ?w" by (rule webhook_step.configured)
  ultimately show ?thesis by (meson steps.none steps.more)
qed

theorem webhook_books_balance_witness:
  "rw_admitted sample_receiver = [(0, sample_event)] \<and> loads (rw_generations sample_receiver) = {#(0, sample_event)#}"
proof -
  have "rw_admitted sample_receiver = [(0, sample_event)]" "rw_delivered sample_receiver = []" "rw_lost sample_receiver = []"
    by code_simp+
  with webhook_books_balance [OF sample_receiver_steps] show ?thesis by simp
qed

definition sample_failed :: runtimeWebhook where
  "sample_failed = set_worker_phase 0 (WGivenUp sample_event (Some (Http 404)))
     (set_worker_phase 0 (WPosting sample_event 0 None)
       (set_gen 0 ((gen_of sample_receiver 0)\<lparr>gn_queue := [], gn_worker := WTrying sample_event 0 None\<rparr>) sample_receiver))"

lemma sample_failed_steps: "steps (webhook_step 1) newRuntimeWebhook sample_failed"
proof -
  let ?t = "set_gen 0 ((gen_of sample_receiver 0)\<lparr>gn_queue := [], gn_worker := WTrying sample_event 0 None\<rparr>) sample_receiver"
  let ?p = "set_worker_phase 0 (WPosting sample_event 0 None) ?t"
  have "webhook_step 1 sample_receiver ?t" by (rule webhook_step.takes) code_simp+
  moreover have "webhook_step 1 ?t ?p" by (rule webhook_step.posts) code_simp+
  moreover have "webhook_step 1 ?p (finish_post 0 sample_event 0 None (Some (Http 404)) False ?p)" by (rule webhook_step.posted) code_simp+
  moreover have "finish_post 0 sample_event 0 None (Some (Http 404)) False ?p = sample_failed" by code_simp
  ultimately show ?thesis using sample_receiver_steps by (metis steps.more)
qed

theorem webhook_switch_off_witness:
  "let w' = give_up 1 0 sample_event (Some (Http 404)) sample_failed in \<not> rw_enabled w' \<and> rw_failures w' = 1 \<and> \<not> active_gen 0 w'"
proof -
  have "rw_current sample_failed = Some 0" "\<not> gn_cancelled (gen_of sample_failed 0)" "rw_failures sample_failed = 0"
    "gn_worker (gen_of sample_failed 0) = WGivenUp sample_event (Some (Http 404))" by code_simp+
  with webhook_switch_off [OF sample_failed_steps this(1,2,4)] show ?thesis by (simp add: Let_def)
qed

end
