(* ===== verification/Go_Utf8.thy ===== *)
theory Go_Utf8
  imports Go_Strings
begin

text \<open>
  Go's view of a string as runes (\<^verbatim>\<open>for _, r := range s\<close>, \<^verbatim>\<open>[]rune(s)\<close>, \<^verbatim>\<open>strings.Map\<close>): the UTF-8 decoder of
  the language, which reads a byte that starts no valid sequence as one replacement character. A rune is
  kept as the bytes it was read from; its code point is computed where the source looks at it.
\<close>

definition byte :: "char \<Rightarrow> nat" where "byte c = of_char c"

definition cont :: "char \<Rightarrow> bool" where
  "cont c \<longleftrightarrow> 128 \<le> byte c \<and> byte c \<le> 191"

definition second_ok :: "nat \<Rightarrow> char \<Rightarrow> bool" where
  "second_ok b0 c \<longleftrightarrow>
     (let lo = (if b0 = 224 then 160 else if b0 = 240 then 144 else 128);
          hi = (if b0 = 237 then 159 else if b0 = 244 then 143 else 191)
      in lo \<le> byte c \<and> byte c \<le> hi)"

text \<open>The width of the first rune and whether it is valid.\<close>

definition rune_width :: "string \<Rightarrow> nat" where
  "rune_width s =
     (case s of
        [] \<Rightarrow> 0
      | c # cs \<Rightarrow>
          let b = byte c
          in if b < 128 then 1
             else if 194 \<le> b \<and> b \<le> 223 \<and> 1 \<le> length cs \<and> second_ok b (cs ! 0) then 2
             else if 224 \<le> b \<and> b \<le> 239 \<and> 2 \<le> length cs \<and> second_ok b (cs ! 0) \<and> cont (cs ! 1) then 3
             else if 240 \<le> b \<and> b \<le> 244 \<and> 3 \<le> length cs \<and> second_ok b (cs ! 0) \<and> cont (cs ! 1) \<and> cont (cs ! 2) then 4
             else 1)"

lemma rune_width_pos: "s \<noteq> [] \<Longrightarrow> 0 < rune_width s"
  by (cases s) (simp_all add: rune_width_def Let_def)

lemma rune_width_le: "rune_width s \<le> length s"
  by (cases s) (auto simp: rune_width_def Let_def)

function runes :: "string \<Rightarrow> string list" where
  "runes s = (if s = [] then [] else take (rune_width s) s # runes (drop (rune_width s) s))"
  by pat_completeness auto
termination
  by (relation "measure length") (auto simp: rune_width_pos)

declare runes.simps [simp del]

lemma runes_Nil [simp]: "runes [] = []"
  by (simp add: runes.simps)

lemma concat_runes: "concat (runes s) = s"
proof (induction s rule: runes.induct)
  case (1 s)
  then show ?case by (cases "s = []") (simp_all add: runes.simps [of s])
qed

lemma runes_nonempty: "r \<in> set (runes s) \<Longrightarrow> r \<noteq> []"
proof (induction s rule: runes.induct)
  case (1 s)
  then show ?case using rune_width_pos [of s] by (cases "s = []") (auto simp: runes.simps [of s])
qed

text \<open>An ASCII string is read byte by byte.\<close>

lemma runes_ascii_Cons: "byte c < 128 \<Longrightarrow> runes (c # cs) = [c] # runes cs"
  by (simp add: runes.simps [of "c # cs"] rune_width_def Let_def)

lemma runes_ascii: "\<forall>c \<in> set s. byte c < 128 \<Longrightarrow> runes s = map (\<lambda>c. [c]) s"
  by (induction s) (simp_all add: runes_ascii_Cons)

text \<open>A rune read from one byte outside ASCII is the replacement character.\<close>

definition invalid_rune :: "string \<Rightarrow> bool" where
  "invalid_rune r \<longleftrightarrow> length r = 1 \<and> 128 \<le> byte (hd r)"

definition replacement :: string where "replacement = [CHR 0xEF, CHR 0xBF, CHR 0xBD]"

text \<open>What a rune is written back as.\<close>

definition write_rune :: "string \<Rightarrow> string" where
  "write_rune r = (if invalid_rune r then replacement else r)"

text \<open>\<^verbatim>\<open>strings.Map\<close> that drops some runes: the kept ones are written back, a string with nothing dropped and
  nothing invalid comes back as it was.\<close>

definition map_drop :: "(string \<Rightarrow> bool) \<Rightarrow> string \<Rightarrow> string" where
  "map_drop dropped s = concat (map write_rune (filter (\<lambda>r. \<not> dropped r) (runes s)))"

text \<open>The code point of a rune.\<close>

definition code_point :: "string \<Rightarrow> nat" where
  "code_point r =
     (case map byte r of
        [a] \<Rightarrow> if a < 128 then a else 65533
      | [a, b] \<Rightarrow> (a - 192) * 64 + (b - 128)
      | [a, b, c] \<Rightarrow> (a - 224) * 4096 + (b - 128) * 64 + (c - 128)
      | [a, b, c, d] \<Rightarrow> (a - 240) * 262144 + (b - 128) * 4096 + (c - 128) * 64 + (d - 128)
      | _ \<Rightarrow> 65533)"

text \<open>\<^verbatim>\<open>hex.EncodeToString\<close>.\<close>

definition hex_digit :: "nat \<Rightarrow> char" where
  "hex_digit n = (if n < 10 then char_of (48 + n) else char_of (87 + n))"

definition hex_encode :: "string \<Rightarrow> string" where
  "hex_encode bs = concat (map (\<lambda>b. [hex_digit (of_char b div 16), hex_digit (of_char b mod 16)]) bs)"

end
