(* ===== verification/Media_Path.thy ===== *)
theory Media_Path
  imports Go_Utf8
begin

text \<open>
  Where an outbound file may come from and what its recipient may see of it (\<^verbatim>\<open>media_path.go\<close>, and \<^verbatim>\<open>documentExt\<close>
  of \<^verbatim>\<open>media.go\<close>): the allow-list of root directories, the check of a media path against it, and the name a
  document is sent under. The file system is a parameter: what \<^verbatim>\<open>EvalSymlinks\<close>, \<^verbatim>\<open>Stat\<close>, \<^verbatim>\<open>MkdirAll\<close> and the
  environment of the process answer. \<^verbatim>\<open>path/filepath\<close> is modelled as it is on Unix, where paths are split at
  slashes. Errors keep the branch that raised them, not their wording.
\<close>

section \<open>Paths of the standard library\<close>

definition sep :: char where "sep = CHR ''/''"

definition IsAbs :: "string \<Rightarrow> bool" where
  "IsAbs p \<longleftrightarrow> (\<exists>q. p = sep # q)"

lemma IsAbs_code [code, simp]: "IsAbs [] \<longleftrightarrow> False" "IsAbs (c # p) \<longleftrightarrow> c = sep"
  by (auto simp: IsAbs_def)

text \<open>\<^verbatim>\<open>filepath.Clean\<close>: empty and dot elements go, a double dot takes back the element before it, and at the
  start it goes too when the path is rooted and stays when it is not. The stack is kept reversed.\<close>

definition clean_step :: "bool \<Rightarrow> string \<Rightarrow> string list \<Rightarrow> string list" where
  "clean_step rooted c st =
     (if c = [] \<or> c = ''.'' then st
      else if c = ''..'' then
        (case st of
           [] \<Rightarrow> if rooted then [] else [''..'']
         | d # st' \<Rightarrow> if d = ''..'' then ''..'' # st else st')
      else c # st)"

definition clean_comps :: "bool \<Rightarrow> string list \<Rightarrow> string list" where
  "clean_comps rooted cs = rev (fold (clean_step rooted) cs [])"

definition path_of :: "bool \<Rightarrow> string list \<Rightarrow> string" where
  "path_of rooted cs = (if rooted then sep # Join [sep] cs else if cs = [] then ''.'' else Join [sep] cs)"

definition Clean :: "string \<Rightarrow> string" where
  "Clean p = path_of (IsAbs p) (clean_comps (IsAbs p) (Split sep p))"

definition JoinPath :: "string list \<Rightarrow> string" where
  "JoinPath es = (let es' = dropWhile (\<lambda>e. e = []) es in if es' = [] then [] else Clean (Join [sep] es'))"

definition comps :: "string \<Rightarrow> string list" where
  "comps p = filter (\<lambda>c. c \<noteq> []) (Split sep p)"

fun strip_common :: "string list \<Rightarrow> string list \<Rightarrow> string list \<times> string list" where
  "strip_common (b # bs) (t # ts) = (if b = t then strip_common bs ts else (b # bs, t # ts))"
| "strip_common bs ts = (bs, ts)"

definition Rel :: "string \<Rightarrow> string \<Rightarrow> string option" where
  "Rel base targ =
     (let b = Clean base; t = Clean targ
      in if b = t then Some ''.''
         else let b' = (if b = ''.'' then [] else b)
              in if IsAbs b' \<noteq> IsAbs t then None
                 else (case strip_common (comps b') (comps t) of
                         (''..'' # _, _) \<Rightarrow> None
                       | (bs, ts) \<Rightarrow> Some (Join [sep] (replicate (length bs) ''..'' @ ts))))"

definition contains_dots :: "string \<Rightarrow> bool" where
  "contains_dots s \<longleftrightarrow> sublist ''..'' s"

section \<open>Media roots\<close>

record file_system =
  EvalSymlinks :: "string \<Rightarrow> string option"
  Stat_regular :: "string \<Rightarrow> bool option"
  MkdirAll :: "string \<Rightarrow> bool"
  UserHomeDir :: "string option"
  Getwd :: "string option"

datatype path_error =
    Roots_relative string
  | Roots_unresolved string
  | Roots_none
  | Roots_no_home
  | Roots_no_outbox
  | Path_empty
  | Path_relative
  | Path_unresolved
  | Path_outside
  | Path_no_stat
  | Path_not_regular

definition defaultOutboxSubpath :: string where
  "defaultOutboxSubpath = ''.local/share/whatsapp-mcp/outbox''"

definition Abs_path :: "file_system \<Rightarrow> string \<Rightarrow> string option" where
  "Abs_path fs p = (if IsAbs p then Some (Clean p) else map_option (\<lambda>wd. JoinPath [wd, p]) (Getwd fs))"

definition canonicalizePath :: "file_system \<Rightarrow> string \<Rightarrow> string option" where
  "canonicalizePath fs p =
     (case Abs_path fs p of
        None \<Rightarrow> None
      | Some absolute \<Rightarrow> (case EvalSymlinks fs absolute of None \<Rightarrow> Some absolute | Some resolved \<Rightarrow> Some resolved))"

fun root_entries :: "file_system \<Rightarrow> bool \<Rightarrow> string list \<Rightarrow> path_error + string list" where
  "root_entries fs validateOnly [] = Inr []"
| "root_entries fs validateOnly (e # es) =
     (let raw = TrimSpace e
      in if raw = [] then root_entries fs validateOnly es
         else if \<not> IsAbs raw then Inl (Roots_relative raw)
         else case (if validateOnly then Some (Clean raw) else canonicalizePath fs raw) of
                None \<Rightarrow> Inl (Roots_unresolved raw)
              | Some root \<Rightarrow>
                  (case root_entries fs validateOnly es of Inl err \<Rightarrow> Inl err | Inr roots \<Rightarrow> Inr (root # roots)))"

definition resolveMediaRootsValue :: "file_system \<Rightarrow> string \<Rightarrow> bool \<Rightarrow> path_error + string list" where
  "resolveMediaRootsValue fs setting validateOnly =
     (let env = TrimSpace setting
      in if env \<noteq> [] then
           (case root_entries fs validateOnly (Split CHR '':'' env) of
              Inl err \<Rightarrow> Inl err
            | Inr roots \<Rightarrow> if roots = [] then Inl Roots_none else Inr roots)
         else case UserHomeDir fs of
                None \<Rightarrow> Inl Roots_no_home
              | Some home \<Rightarrow>
                  (let outbox = JoinPath [home, defaultOutboxSubpath]
                   in if validateOnly then Inr [outbox]
                      else if \<not> MkdirAll fs outbox then Inl Roots_no_outbox
                      else case canonicalizePath fs outbox of
                             None \<Rightarrow> Inl (Roots_unresolved outbox)
                           | Some resolved \<Rightarrow> Inr [resolved]))"

section \<open>A media path\<close>

definition pathHasPrefix :: "string \<Rightarrow> string \<Rightarrow> bool" where
  "pathHasPrefix child parent \<longleftrightarrow>
     (if child = parent then True
      else if \<not> prefix parent child then False
      else prefix [sep] (drop (length parent) child))"

fun confine :: "string \<Rightarrow> string list \<Rightarrow> string" where
  "confine resolved [] = []"
| "confine resolved (root # roots) =
     (if \<not> pathHasPrefix resolved root then confine resolved roots
      else case Rel root resolved of
             None \<Rightarrow> confine resolved roots
           | Some rel \<Rightarrow> if contains_dots rel then confine resolved roots else JoinPath [root, rel])"

definition validateMediaPath :: "file_system \<Rightarrow> string \<Rightarrow> string list \<Rightarrow> path_error + string" where
  "validateMediaPath fs mediaPath allowedRoots =
     (if mediaPath = [] then Inl Path_empty
      else if \<not> IsAbs mediaPath then Inl Path_relative
      else case EvalSymlinks fs mediaPath of
             None \<Rightarrow> Inl Path_unresolved
           | Some target \<Rightarrow>
               (let confined = confine (Clean target) allowedRoots
                in if confined = [] then Inl Path_outside
                   else case Stat_regular fs confined of
                          None \<Rightarrow> Inl Path_no_stat
                        | Some regular \<Rightarrow> if \<not> regular then Inl Path_not_regular else Inr confined))"

section \<open>File names\<close>

definition Ext :: "string \<Rightarrow> string" where
  "Ext p = (let base = after_last sep p in if CHR ''.'' \<in> set base then CHR ''.'' # after_last CHR ''.'' base else [])"

text \<open>\<^verbatim>\<open>strings.ToLower\<close> as far as the extension check can see it: a rune outside ASCII is refused unless it lower-cases
  into ASCII, which the Kelvin sign and the dotted capital I do.\<close>

definition lower_rune :: "string \<Rightarrow> string" where
  "lower_rune r = (if length r = 1 \<and> byte (hd r) < 128 then map lower_byte r
     else if code_point r = 8490 then ''k'' else if code_point r = 304 then ''i'' else r)"

definition lower_alnum :: "char \<Rightarrow> bool" where
  "lower_alnum c \<longleftrightarrow> (97 \<le> byte c \<and> byte c \<le> 122) \<or> (48 \<le> byte c \<and> byte c \<le> 57)"

definition documentExt :: "string \<Rightarrow> string" where
  "documentExt name =
     (let ext = concat (map lower_rune (runes (Ext (TrimSpace name))))
      in if length ext < 2 \<or> length ext > 11 then []
         else if \<not> list_all lower_alnum (tl ext) then []
         else if ext = ''.part'' then ''.part.bin''
         else ext)"

definition reordersText :: "nat \<Rightarrow> bool" where
  "reordersText r \<longleftrightarrow> (8234 \<le> r \<and> r \<le> 8238) \<or> (8294 \<le> r \<and> r \<le> 8297)"

text \<open>\<^verbatim>\<open>unicode.IsControl\<close> is the C0 and C1 ranges. The characters a file name on the wire loses besides are
  the ones some file system reserves.\<close>

definition IsControl :: "nat \<Rightarrow> bool" where
  "IsControl r \<longleftrightarrow> r < 32 \<or> (127 \<le> r \<and> r < 160)"

definition wire_reserved :: string where
  "wire_reserved = ''<>:'' @ [CHR 0x22] @ ''/'' @ [CHR 0x5C] @ ''|?*''"

definition name_drops :: "bool \<Rightarrow> string \<Rightarrow> bool" where
  "name_drops wire r \<longleftrightarrow>
     (let c = code_point r
      in IsControl c \<or> reordersText c \<or> c = 8206 \<or> c = 8207 \<or> c = 1564 \<or> c = 8232 \<or> c = 8233
         \<or> (wire \<and> r \<in> set (map (\<lambda>x. [x]) wire_reserved)))"

text \<open>The loop over the name and its counter: the two hundredth rune kept is the last, and another one that
  would be kept marks the name as cut.\<close>

fun bound_runes :: "bool \<Rightarrow> string list \<Rightarrow> nat \<Rightarrow> string \<Rightarrow> string \<times> bool" where
  "bound_runes wire [] n out = (out, False)"
| "bound_runes wire (r # rs) n out =
     (if name_drops wire r then bound_runes wire rs n out
      else if n = 200 then (out, True)
      else bound_runes wire rs (n + 1) (out @ write_rune r))"

definition boundMediaName :: "string \<Rightarrow> bool \<Rightarrow> string" where
  "boundMediaName name wire =
     (case bound_runes wire (runes name) 0 [] of
        (bounded, truncated) \<Rightarrow>
          let result = TrimSpace bounded
          in if truncated \<and> documentExt name \<noteq> [] then
               (let ext = Ext (TrimSpace name)
                in concat (map write_rune (take (200 - length ext) (runes result))) @ ext)
             else result)"

definition cleanDisplayName :: "string \<Rightarrow> string" where
  "cleanDisplayName name = boundMediaName name False"

definition after_any :: "char set \<Rightarrow> string \<Rightarrow> string" where
  "after_any cs s = rev (takeWhile (\<lambda>c. c \<notin> cs) (rev s))"

definition cleanOutboundName :: "string \<Rightarrow> string" where
  "cleanOutboundName mediaPath =
     (let name = after_any {CHR ''/'', CHR 0x5C} mediaPath; name = after_any {CHR '':''} name
      in boundMediaName name True)"

definition outboundFileName :: "string \<Rightarrow> string" where
  "outboundFileName mediaPath = (let name = cleanOutboundName mediaPath in if name = [] then ''file'' else name)"

section \<open>Clean paths\<close>

definition plain :: "string \<Rightarrow> bool" where
  "plain c \<longleftrightarrow> c \<noteq> [] \<and> c \<noteq> ''.'' \<and> c \<noteq> ''..'' \<and> sep \<notin> set c"

definition absp :: "string list \<Rightarrow> string" where "absp cs = sep # Join [sep] cs"

lemma Split_append: "Split d (p @ d # q) = Split d p @ Split d q"
proof (induction p)
  case (Cons c p)
  then show ?case by (cases "Split d p") auto
qed simp

lemma comps_append: "comps (p @ sep # q) = comps p @ comps q"
  by (simp add: comps_def Split_append)

lemma Split_Join_plain: "list_all plain cs \<Longrightarrow> Split sep (Join [sep] cs) = (if cs = [] then [[]] else cs)"
  using Split_Join [of cs sep] by (auto simp: list_all_iff plain_def)

lemma Split_absp: "list_all plain cs \<Longrightarrow> Split sep (absp cs) = [] # (if cs = [] then [[]] else cs)"
  by (simp add: absp_def Split_Join_plain)

lemma comps_Join: "list_all plain cs \<Longrightarrow> comps (Join [sep] cs) = cs"
  unfolding comps_def by (subst Split_Join_plain) (auto simp: list_all_iff plain_def intro: filter_True)

lemma comps_absp: "list_all plain cs \<Longrightarrow> comps (absp cs) = cs"
  using comps_Join [of cs] by (simp add: comps_def absp_def)

lemma absp_inj: "list_all plain cs \<Longrightarrow> list_all plain ds \<Longrightarrow> absp cs = absp ds \<longleftrightarrow> cs = ds"
  by (metis comps_absp)

lemma fold_plain: "list_all plain cs \<Longrightarrow> fold (clean_step True) cs st = rev cs @ st"
  by (induction cs arbitrary: st) (auto simp: clean_step_def plain_def)

lemma clean_step_plain: "list_all plain st \<Longrightarrow> sep \<notin> set c \<Longrightarrow> list_all plain (clean_step True c st)"
  by (auto simp: clean_step_def plain_def split: list.split)

lemma fold_clean_plain:
  "list_all plain st \<Longrightarrow> \<forall>c \<in> set cs. sep \<notin> set c \<Longrightarrow> list_all plain (fold (clean_step True) cs st)"
  by (induction cs arbitrary: st) (auto simp: clean_step_plain)

lemma clean_comps_plain: "list_all plain (clean_comps True (Split sep p))"
  using fold_clean_plain [of "[]" "Split sep p"] Split_no_sep [of _ sep p]
  by (auto simp: clean_comps_def list_all_iff)

lemma Clean_abs: "IsAbs p \<Longrightarrow> \<exists>cs. list_all plain cs \<and> Clean p = absp cs"
  using clean_comps_plain [of p] by (auto simp: Clean_def path_of_def absp_def)

lemma clean_step_skip [simp]: "clean_step r [] st = st" "clean_step r ''.'' st = st"
  by (simp_all add: clean_step_def)

lemma fold_Join: "list_all plain cs \<Longrightarrow> fold (clean_step True) (Split sep (Join [sep] cs)) st = rev cs @ st"
  by (simp add: Split_Join_plain fold_plain)

lemma Clean_absp_append:
  assumes "list_all plain ds" "list_all plain es"
  shows "Clean (absp ds @ sep # Join [sep] es) = absp (ds @ es)"
  using assms by (simp add: Clean_def Split_append clean_comps_def fold_Join path_of_def absp_def)

lemma Clean_absp: "list_all plain cs \<Longrightarrow> Clean (absp cs) = absp cs"
  by (simp add: Clean_def clean_comps_def fold_Join path_of_def absp_def)

lemma strip_common_prefix: "strip_common ds (ds @ es) = ([], es)"
  by (induction ds) auto

lemma Rel_descendant:
  assumes "list_all plain ds" "list_all plain es"
  shows "Rel (absp ds) (absp (ds @ es)) = Some (if es = [] then ''.'' else Join [sep] es)"
proof -
  have "list_all plain (ds @ es)" using assms by simp
  note c = Clean_absp [OF this] Clean_absp [OF assms(1)] comps_absp [OF this] comps_absp [OF assms(1)] absp_inj [OF assms(1) this]
  have "absp ds \<noteq> ''.''" "IsAbs (absp ds)" "IsAbs (absp (ds @ es))" by (simp_all add: absp_def sep_def)
  with c show ?thesis by (auto simp: Rel_def Let_def strip_common_prefix)
qed

lemma JoinPath_descendant:
  assumes "list_all plain ds" "list_all plain es"
  shows "JoinPath [absp ds, if es = [] then ''.'' else Join [sep] es] = absp (ds @ es)"
proof (cases "es = []")
  case True
  have dot: "Split sep ''.'' = [''.'']" by (simp add: sep_def)
  have "Clean (absp ds @ sep # ''.'') = absp ds"
    using assms(1) by (simp only: Clean_def Split_append dot) (simp add: clean_comps_def fold_Join path_of_def absp_def)
  with True show ?thesis by (simp add: JoinPath_def absp_def)
next
  case False
  with Clean_absp_append [OF assms] show ?thesis by (simp add: JoinPath_def absp_def)
qed

lemma pathHasPrefix_comps:
  assumes "list_all plain cs" "list_all plain ds" "pathHasPrefix (absp cs) (absp ds)"
  shows "\<exists>es. cs = ds @ es \<and> list_all plain es"
proof (cases "absp cs = absp ds")
  case False
  with assms(3) have "prefix (absp ds) (absp cs)" "prefix [sep] (drop (length (absp ds)) (absp cs))"
    by (auto simp: pathHasPrefix_def split: if_splits)
  then obtain q where "absp cs = absp ds @ sep # q" by (auto simp: prefix_def)
  then have "comps (absp cs) = comps (absp ds) @ comps q" by (simp add: comps_append)
  with assms(1,2) have "cs = ds @ comps q" by (simp add: comps_absp)
  with assms(1) show ?thesis by (auto intro!: exI [of _ "comps q"])
qed (use assms absp_inj in auto)

section \<open>Confinement\<close>

text \<open>What \<^verbatim>\<open>path/filepath\<close> and \<^verbatim>\<open>os\<close> document: resolving the links of an absolute path gives a clean absolute
  path, and the working directory is absolute.\<close>

definition fs_ok :: "file_system \<Rightarrow> bool" where
  "fs_ok fs \<longleftrightarrow> (\<forall>p q. EvalSymlinks fs p = Some q \<longrightarrow> IsAbs p \<longrightarrow> IsAbs q \<and> Clean q = q)
     \<and> (\<forall>wd. Getwd fs = Some wd \<longrightarrow> IsAbs wd)"

definition clean_root :: "string \<Rightarrow> bool" where
  "clean_root p \<longleftrightarrow> (\<exists>cs. list_all plain cs \<and> p = absp cs)"

lemma clean_root_Clean: "IsAbs p \<Longrightarrow> clean_root (Clean p)"
  using Clean_abs by (auto simp: clean_root_def)

lemma clean_root_abs: "clean_root p \<Longrightarrow> IsAbs p"
  by (auto simp: clean_root_def absp_def)

lemma Abs_path_clean: "fs_ok fs \<Longrightarrow> Abs_path fs p = Some q \<Longrightarrow> clean_root q"
  by (auto simp: Abs_path_def fs_ok_def JoinPath_def IsAbs_def clean_root_Clean split: if_splits intro!: clean_root_Clean)

lemma canonicalizePath_clean: "fs_ok fs \<Longrightarrow> canonicalizePath fs p = Some q \<Longrightarrow> clean_root q"
  by (auto simp: canonicalizePath_def fs_ok_def split: option.splits dest: Abs_path_clean [unfolded fs_ok_def, rotated])
    (metis clean_root_Clean clean_root_abs Abs_path_clean fs_ok_def)

lemma root_entries_clean:
  "fs_ok fs \<Longrightarrow> root_entries fs v es = Inr roots \<Longrightarrow> list_all clean_root roots"
proof (induction es arbitrary: roots)
  case (Cons e es)
  then show ?case
    by (auto simp: Let_def clean_root_Clean split: if_splits option.splits sum.splits intro: canonicalizePath_clean)
qed simp

lemma media_roots_clean:
  "fs_ok fs \<Longrightarrow> resolveMediaRootsValue fs setting False = Inr roots \<Longrightarrow> list_all clean_root roots"
  by (auto simp: resolveMediaRootsValue_def Let_def split: if_splits option.splits sum.splits
      intro: canonicalizePath_clean root_entries_clean)

lemma confine_descendant:
  assumes "list_all clean_root roots" "list_all plain cs" "confine (absp cs) roots = p" "p \<noteq> []"
  shows "p = absp cs \<and> (\<exists>root \<in> set roots. \<exists>es. cs = comps root @ es)"
  using assms
proof (induction roots)
  case (Cons root roots)
  then obtain ds where ds: "list_all plain ds" "root = absp ds" by (auto simp: clean_root_def)
  show ?case
  proof (cases "pathHasPrefix (absp cs) root")
    case True
    with Cons.prems ds obtain es where es: "cs = ds @ es" "list_all plain es"
      using pathHasPrefix_comps by blast
    then show ?thesis
      using Cons ds Rel_descendant [OF ds(1) es(2)] JoinPath_descendant [OF ds(1) es(2)]
      by (auto simp: comps_absp split: if_splits)
  qed (use Cons in auto)
qed simp

text \<open>The other direction: a file below a root other than the file system's own is accepted, unless two dots
  stand together in its path below that root.\<close>

lemma confine_accepts:
  assumes "list_all clean_root roots" "absp ds \<in> set roots" "ds \<noteq> []" "list_all plain ds" "list_all plain es"
    and "\<not> contains_dots (Join [sep] es)"
  shows "confine (absp (ds @ es)) roots = absp (ds @ es)"
  using assms
proof (induction roots)
  case (Cons root roots)
  obtain ds' where ds': "list_all plain ds'" "root = absp ds'" using Cons.prems(1) by (auto simp: clean_root_def)
  have pre: "pathHasPrefix (absp (ds @ es)) (absp ds)"
  proof (cases es)
    case (Cons e es')
    obtain x xs where "ds = x # xs" using assms(3) by (cases ds) auto
    have "Join [sep] (as @ e # es') = Join [sep] as @ sep # Join [sep] (e # es')" if "as \<noteq> []" for as
      using that by (induction "[sep]" as rule: Join.induct) (auto simp: neq_Nil_conv)
    with Cons assms(3) show ?thesis by (simp add: pathHasPrefix_def absp_def prefix_def)
  qed (simp add: pathHasPrefix_def)
  show ?case
  proof (cases "pathHasPrefix (absp (ds @ es)) root")
    case True
    with ds' Cons.prems obtain es' where es': "ds @ es = ds' @ es'" "list_all plain es'"
      using pathHasPrefix_comps [of "ds @ es" ds'] by auto
    have dot: "\<not> contains_dots ''.''" by (simp add: contains_dots_def sublist_Cons_right)
    have same: "es' = es" if "absp ds = absp ds'"
      using that es'(1) absp_inj [OF Cons.prems(4) ds'(1)] by simp
    show ?thesis
      using Cons ds' es' True Rel_descendant [OF ds'(1) es'(2)] JoinPath_descendant [OF ds'(1) es'(2)] dot same
      by (auto split: if_splits)
  qed (use Cons pre in auto)
qed simp

section \<open>Names on the wire\<close>

lemma rune_cases:
  assumes "s \<noteq> []"
  shows "(\<exists>c. take (rune_width s) s = [c]) \<or> (\<forall>c \<in> set (take (rune_width s) s). 128 \<le> byte c)"
proof -
  have bytes: "128 \<le> byte c" if "second_ok b c" for b c
    using that by (auto simp: second_ok_def Let_def split: if_splits)
  consider x where "s = [x]" | x y where "s = [x, y]" | x y z where "s = [x, y, z]" | x y z w zs where "s = x # y # z # w # zs"
    using assms by (metis list.exhaust)
  then show ?thesis
    by cases (auto simp: rune_width_def Let_def cont_def dest: bytes)
qed

lemma rune_shape: "r \<in> set (runes s) \<Longrightarrow> (\<exists>c. r = [c]) \<or> (\<forall>c \<in> set r. 128 \<le> byte c)"
proof (induction s rule: runes.induct)
  case (1 s)
  then show ?case using rune_cases [of s] by (cases "s = []") (auto simp: runes.simps [of s])
qed

lemma rune_width_4: "rune_width s \<le> 4"
  by (cases s) (auto simp: rune_width_def Let_def)

lemma rune_length: "r \<in> set (runes s) \<Longrightarrow> length r \<le> 4"
proof (induction s rule: runes.induct)
  case (1 s)
  then show ?case using rune_width_4 [of s] by (cases "s = []") (auto simp: runes.simps [of s])
qed

lemma write_rune_length: "r \<in> set (runes s) \<Longrightarrow> length (write_rune r) \<le> 4"
  using rune_length [of r s] by (simp add: write_rune_def replacement_def)

lemma write_rune_ascii: "r \<in> set (runes s) \<Longrightarrow> c \<in> set (write_rune r) \<Longrightarrow> byte c < 128 \<Longrightarrow> r = [c]"
  using rune_shape [of r s] by (auto simp: write_rune_def replacement_def byte_def split: if_splits)

text \<open>A byte a file name may show: not one the file systems reserve, and no control character.\<close>

definition wire_safe :: "char \<Rightarrow> bool" where
  "wire_safe c \<longleftrightarrow> c \<notin> set wire_reserved \<and> 32 \<le> byte c \<and> byte c \<noteq> 127"

lemma kept_safe: "\<not> name_drops True [c] \<Longrightarrow> byte c < 128 \<Longrightarrow> wire_safe c"
  by (auto simp: name_drops_def Let_def code_point_def IsControl_def wire_safe_def)

lemma bound_runes_safe:
  assumes "bound_runes True rs n out = (res, t)" "set rs \<subseteq> set (runes s)" "\<forall>c \<in> set out. byte c < 128 \<longrightarrow> wire_safe c"
  shows "\<forall>c \<in> set res. byte c < 128 \<longrightarrow> wire_safe c"
  using assms
proof (induction rs arbitrary: n out)
  case (Cons r rs)
  have "\<forall>c \<in> set (write_rune r). byte c < 128 \<longrightarrow> wire_safe c" if "\<not> name_drops True r"
    using that write_rune_ascii [of r s] kept_safe Cons.prems(2) by auto
  then show ?case using Cons.IH [of n out] Cons.IH [of "n + 1" "out @ write_rune r"] Cons.prems by (auto split: if_splits)
qed simp

lemma bound_runes_length:
  assumes "bound_runes w rs n out = (res, t)" "set rs \<subseteq> set (runes s)" "n \<le> 200"
  shows "length res \<le> length out + 4 * (200 - n)"
  using assms
proof (induction rs arbitrary: n out)
  case (Cons r rs)
  have "length (write_rune r) \<le> 4" using write_rune_length Cons.prems(2) by auto
  then show ?case using Cons.IH [of n out] Cons.IH [of "n + 1" "out @ write_rune r"] Cons.prems by (fastforce split: if_splits)
qed simp

lemma concat_length: "\<forall>r \<in> set rs. length (f r) \<le> k \<Longrightarrow> length (concat (map f rs)) \<le> k * length rs"
  by (induction rs) auto

lemma concat_length_ge: "\<forall>r \<in> set rs. f r \<noteq> [] \<Longrightarrow> length rs \<le> length (concat (map f rs))"
proof (induction rs)
  case (Cons r rs)
  then have "1 \<le> length (f r)" by (simp add: Suc_le_eq)
  with Cons show ?case by simp
qed simp

lemma Ext_dot: "Ext p = [] \<or> (\<exists>e. Ext p = CHR ''.'' # e)"
  by (auto simp: Ext_def Let_def)

lemma lower_alnum_safe: "lower_alnum (lower_byte c) \<Longrightarrow> byte c < 128 \<Longrightarrow> wire_safe c"
  by (cases "CHR ''A'' \<le> c \<and> c \<le> CHR ''Z''")
    (auto simp: lower_alnum_def lower_byte_def byte_def wire_safe_def wire_reserved_def less_eq_char_def)

lemma documentExt_ext:
  assumes "documentExt name \<noteq> []"
  defines "ext \<equiv> Ext (TrimSpace name)"
  shows "\<forall>c \<in> set ext. byte c < 128 \<longrightarrow> wire_safe c" "length ext \<le> 44"
proof -
  let ?low = "concat (map lower_rune (runes ext))"
  have low: "length ?low \<le> 11" "list_all lower_alnum (tl ?low)"
    using assms(1) unfolding documentExt_def Let_def ext_def [symmetric] by (auto split: if_splits)
  have ne: "\<forall>r \<in> set (runes ext). lower_rune r \<noteq> []"
    using runes_nonempty [of _ ext] by (auto simp: lower_rune_def)
  have "length ext \<le> 4 * length (runes ext)"
    using concat_length [of "runes ext" id 4] rune_length [of _ ext] by (simp add: concat_runes)
  with concat_length_ge [OF ne] low(1) show "length ext \<le> 44" by simp
  show "\<forall>c \<in> set ext. byte c < 128 \<longrightarrow> wire_safe c"
  proof (intro ballI impI)
    fix c assume c: "c \<in> set ext" "byte c < 128"
    then obtain e where e: "ext = CHR ''.'' # e" using Ext_dot [of "TrimSpace name"] by (auto simp: ext_def)
    have tl: "tl ?low = concat (map lower_rune (runes e))"
      by (simp add: e runes_ascii_Cons byte_def lower_rune_def)
    show "wire_safe c"
    proof (cases "c = CHR ''.''")
      case True
      then show ?thesis by (simp add: wire_safe_def wire_reserved_def byte_def)
    next
      case False
      with c e have "c \<in> set (concat (runes e))" by (simp add: concat_runes)
      then obtain r where r: "r \<in> set (runes e)" "c \<in> set r" by auto
      then have "r = [c]" using rune_shape [OF r(1)] c(2) by force
      then have "lower_rune r = [lower_byte c]" using c(2) by (simp add: lower_rune_def)
      then have "lower_byte c \<in> set (tl ?low)" using r(1) unfolding tl set_concat set_map by (auto intro!: bexI [of _ r])
      then show ?thesis using low(2) c(2) lower_alnum_safe by (auto simp: list_all_iff)
    qed
  qed
qed

lemma boundMediaName_wire:
  "(\<forall>c \<in> set (boundMediaName name True). byte c < 128 \<longrightarrow> wire_safe c) \<and> length (boundMediaName name True) \<le> 800"
proof -
  obtain b t where b: "bound_runes True (runes name) 0 [] = (b, t)" by fastforce
  let ?res = "TrimSpace b" and ?ext = "Ext (TrimSpace name)"
  let ?cut = "concat (map write_rune (take (200 - length ?ext) (runes ?res)))"
  have safe: "\<forall>c \<in> set ?res. byte c < 128 \<longrightarrow> wire_safe c"
    using bound_runes_safe [OF b subset_refl] set_TrimSpace [of b] by auto
  have len: "length ?res \<le> 800"
    using bound_runes_length [OF b subset_refl] length_trim_with [of "map rev space_runes" "rev (trim_with space_runes b)"]
      length_trim_with [of space_runes b] by (simp add: TrimSpace_def)
  have cut: "\<forall>c \<in> set ?cut. byte c < 128 \<longrightarrow> wire_safe c"
  proof (intro ballI impI)
    fix c assume "c \<in> set ?cut" "byte c < 128"
    then obtain r where "r \<in> set (runes ?res)" "c \<in> set (write_rune r)" by (auto dest: in_set_takeD)
    moreover from this have "r = [c]" using write_rune_ascii \<open>byte c < 128\<close> by blast
    ultimately have "c \<in> set (concat (runes ?res))" unfolding set_concat by (auto intro!: bexI [of _ r])
    then show "wire_safe c" using safe \<open>byte c < 128\<close> by (simp add: concat_runes)
  qed
  have cutlen: "length ?cut \<le> 4 * (200 - length ?ext)"
    using concat_length [of "take (200 - length ?ext) (runes ?res)" write_rune 4] write_rune_length [of _ ?res]
    by (force dest: in_set_takeD)
  show ?thesis
  proof (cases "t \<and> documentExt name \<noteq> []")
    case True
    then have "boundMediaName name True = ?cut @ ?ext" by (simp add: boundMediaName_def b Let_def)
    with documentExt_ext [of name] True cut cutlen show ?thesis by auto
  qed (use b safe len in \<open>auto simp: boundMediaName_def Let_def\<close>)
qed

section \<open>Properties\<close>

text \<open>C28. No path sends a file from outside the media roots: the path a send goes on with is the target of the
  path it was given with every link resolved, it is a regular file, it lies at or below one of the
  configured roots, and no element of it steps back up.\<close>

theorem media_path_confined:
  assumes "fs_ok fs" "resolveMediaRootsValue fs setting False = Inr roots" "validateMediaPath fs path roots = Inr p"
  shows "\<exists>target root below. EvalSymlinks fs path = Some target \<and> p = Clean target \<and> root \<in> set roots
    \<and> comps p = comps root @ below \<and> ''..'' \<notin> set (comps p) \<and> Stat_regular fs p = Some True"
proof -
  from assms(3) obtain target where t: "EvalSymlinks fs path = Some target" "IsAbs path"
    and p: "p = confine (Clean target) roots" "p \<noteq> []" "Stat_regular fs p = Some True"
    by (auto simp: validateMediaPath_def Let_def split: if_splits option.splits)
  with assms(1) have "IsAbs target" by (auto simp: fs_ok_def)
  then obtain cs where cs: "list_all plain cs" "Clean target = absp cs" using Clean_abs by blast
  have "p = absp cs \<and> (\<exists>root \<in> set roots. \<exists>es. cs = comps root @ es)"
    using confine_descendant [OF media_roots_clean [OF assms(1,2)] cs(1)] p cs(2) by simp
  moreover have "''..'' \<notin> set cs" using cs(1) by (auto simp: list_all_iff plain_def)
  ultimately show ?thesis using t cs p comps_absp [OF cs(1)] by auto
qed

definition outbox_only :: file_system where
  "outbox_only = \<lparr>EvalSymlinks = (\<lambda>p. if p = ''/out/link'' then Some ''/out/a/b.jpg'' else if p = ''/out/leak'' then Some ''/etc/passwd''
       else if IsAbs p \<and> Clean p = p then Some p else None),
     Stat_regular = (\<lambda>p. Some True), MkdirAll = (\<lambda>p. True), UserHomeDir = None, Getwd = None\<rparr>"

lemma outbox_only_ok: "fs_ok outbox_only"
proof -
  have "Clean ''/out/a/b.jpg'' = ''/out/a/b.jpg''" "Clean ''/etc/passwd'' = ''/etc/passwd''" by code_simp+
  then show ?thesis by (auto simp: fs_ok_def outbox_only_def sep_def)
qed

theorem media_path_confined_witness:
  "resolveMediaRootsValue outbox_only ''/out/'' False = Inr [''/out''] \<and> validateMediaPath outbox_only ''/out/link'' [''/out''] = Inr ''/out/a/b.jpg''
   \<and> validateMediaPath outbox_only ''/out/leak'' [''/out''] = Inl Path_outside
   \<and> (\<exists>root below. root \<in> set [''/out''] \<and> comps ''/out/a/b.jpg'' = comps root @ below)"
proof -
  have r: "resolveMediaRootsValue outbox_only ''/out/'' False = Inr [''/out'']"
    and v: "validateMediaPath outbox_only ''/out/link'' [''/out''] = Inr ''/out/a/b.jpg''"
    and l: "validateMediaPath outbox_only ''/out/leak'' [''/out''] = Inl Path_outside" by code_simp+
  then show ?thesis using media_path_confined [OF outbox_only_ok r v] by blast
qed

text \<open>Two places where the guard is narrower than its comments say. A real descendant whose name holds two dots
  in a row is refused, although the comment takes such a path for one that climbs; and the root of the
  file system is no prefix of any path below it, so allowing it allows no file.\<close>

lemma dotted_name_refused:
  "validateMediaPath outbox_only ''/out/a..b.jpg'' [''/out''] = Inl Path_outside"
  by code_simp

lemma slash_root_allows_nothing:
  "list_all plain cs \<Longrightarrow> pathHasPrefix (absp cs) (absp []) \<longleftrightarrow> cs = []"
proof -
  assume cs: "list_all plain cs"
  have "\<not> prefix [sep] (Join [sep] cs)" if "cs \<noteq> []"
    using cs that by (cases "([sep], cs)" rule: Join.cases) (auto simp: plain_def prefix_def Cons_eq_append_conv append_eq_Cons_conv)
  with cs show ?thesis using absp_inj [of cs "[]"] by (auto simp: pathHasPrefix_def absp_def)
qed

text \<open>The name a recipient sees publishes no path: whatever the local path, the name sent is not empty, has
  at most 800 bytes, and shows no slash, backslash, colon or other reserved character and no ASCII
  control character.\<close>

lemma outbound_name_publishes_no_path:
  "outboundFileName path \<noteq> [] \<and> length (outboundFileName path) \<le> 800
   \<and> (\<forall>c \<in> set (outboundFileName path). byte c < 128 \<longrightarrow> c \<notin> set wire_reserved \<and> 32 \<le> byte c \<and> byte c \<noteq> 127)"
proof -
  obtain name where n: "cleanOutboundName path = boundMediaName name True" by (auto simp: cleanOutboundName_def Let_def)
  have "\<forall>c \<in> set ''file''. wire_safe c" by code_simp
  with boundMediaName_wire [of name] n show ?thesis by (auto simp: outboundFileName_def Let_def wire_safe_def)
qed

theorem outbound_name_publishes_no_path_witness:
  "outboundFileName ''home/q?.md'' = ''q.md'' \<and> length (outboundFileName ''home/q?.md'') \<le> 800"
proof -
  have "TrimSpace ''q.md'' = ''q.md''" by code_simp
  then have "outboundFileName ''home/q?.md'' = ''q.md''"
    by (simp add: outboundFileName_def cleanOutboundName_def after_any_def boundMediaName_def runes_ascii_Cons byte_def
        name_drops_def code_point_def IsControl_def reordersText_def wire_reserved_def write_rune_def invalid_rune_def)
  with outbound_name_publishes_no_path [of "''home/q?.md''"] show ?thesis by blast
qed

end
