(* ===== verification/Media_Bytes.thy ===== *)
theory Media_Bytes
  imports Media_Path Float64 "HOL-Library.Monad_Syntax"
begin

text \<open>
  What the bridge reads inside the bytes of a file it sends: the pages of an Ogg Opus voice note
  (\<^verbatim>\<open>analyzeOggOpus\<close> of \<^verbatim>\<open>send.go\<close>) and the headers \<^verbatim>\<open>isWebP\<close>, \<^verbatim>\<open>webPAnimated\<close> and \<^verbatim>\<open>isOggOpus\<close> of \<^verbatim>\<open>forward_media.go\<close>.
  The files come from the caller or from a stranger's message, so every slice is modelled with the panic a
  slice out of range raises in Go: \<^verbatim>\<open>None\<close> is that panic. A byte is a character; the synthetic waveform drawn for
  a duration (sines and a seeded generator) is a parameter.
\<close>

type_synonym data = "char list"

section \<open>Slices\<close>

definition slice :: "data \<Rightarrow> nat \<Rightarrow> nat \<Rightarrow> data option" where
  "slice d i j = (if i \<le> j \<and> j \<le> length d then Some (take (j - i) (drop i d)) else None)"

definition index :: "data \<Rightarrow> nat \<Rightarrow> nat option" where
  "index d i = (if i < length d then Some (byte (d ! i)) else None)"

text \<open>\<^verbatim>\<open>binary.LittleEndian\<close>.\<close>

fun le :: "data \<Rightarrow> nat" where
  "le [] = 0"
| "le (c # cs) = byte c + 256 * le cs"

text \<open>\<^verbatim>\<open>bytes.Index\<close>.\<close>

fun find_sub :: "data \<Rightarrow> data \<Rightarrow> nat option" where
  "find_sub pat [] = (if pat = [] then Some 0 else None)"
| "find_sub pat (c # cs) = (if prefix pat (c # cs) then Some 0 else map_option Suc (find_sub pat cs))"

section \<open>Ogg Opus\<close>

record ogg =
  lastGranule :: nat
  preSkip :: nat
  foundOpusHead :: bool

definition ogg_start :: ogg where
  "ogg_start = \<lparr>lastGranule = 0, preSkip = 0, foundOpusHead = False\<rparr>"

text \<open>The OpusHead packet, looked for in the first two pages.\<close>

definition read_head :: "data \<Rightarrow> nat \<Rightarrow> ogg \<Rightarrow> ogg option" where
  "read_head page pageSeqNum st =
     (if foundOpusHead st \<or> pageSeqNum > 1 then Some st
      else case find_sub ''OpusHead'' page of
             None \<Rightarrow> Some st
           | Some headPos \<Rightarrow>
               if headPos + 8 + 8 \<le> length page then
                 do {
                   body \<leftarrow> slice page (headPos + 8) (length page);
                   skip \<leftarrow> slice body 2 4;
                   rate \<leftarrow> slice body 4 8;
                   Some (st\<lparr>preSkip := le skip, foundOpusHead := True\<rparr>)
                 }
               else Some st)"

definition note_granule :: "nat \<Rightarrow> ogg \<Rightarrow> ogg" where
  "note_granule g st = (if g \<noteq> 0 \<and> g \<noteq> 2 ^ 64 - 1 then st\<lparr>lastGranule := g\<rparr> else st)"

function ogg_scan :: "data \<Rightarrow> nat \<Rightarrow> ogg \<Rightarrow> ogg option" where
  "ogg_scan d i st =
     (if i + 27 \<ge> length d then Some st
      else do {
        magic \<leftarrow> slice d i (i + 4);
        if magic \<noteq> ''OggS'' then ogg_scan d (i + 1) st
        else do {
          granulePos \<leftarrow> slice d (i + 6) (i + 14);
          pageSeqNum \<leftarrow> slice d (i + 18) (i + 22);
          numSegments \<leftarrow> index d (i + 26);
          if i + 27 + numSegments \<ge> length d then Some st
          else do {
            segmentTable \<leftarrow> slice d (i + 27) (i + 27 + numSegments);
            let pageSize = 27 + numSegments + sum_list (map byte segmentTable);
            if pageSize > length d - i then Some st
            else do {
              page \<leftarrow> slice d i (i + pageSize);
              st' \<leftarrow> read_head page (le pageSeqNum) st;
              ogg_scan d (i + pageSize) (note_granule (le granulePos) st')
            }
          }
        }
      })"
  by pat_completeness auto
termination
  by (relation "measure (\<lambda>(d, i, st). length d - i)") auto

declare ogg_scan.simps [simp del]

definition granuleRate :: int where "granuleRate = 48000"

definition ogg_seconds :: "ogg \<Rightarrow> nat \<Rightarrow> int" where
  "ogg_seconds st len =
     (if lastGranule st > preSkip st
      then \<lceil>min (rnd64 (rnd64 (of_nat (lastGranule st - preSkip st)) / of_int granuleRate)) 300\<rceil>
      else \<lfloor>rnd64 (of_nat len / 2000)\<rfloor>)"

definition clamp_seconds :: "int \<Rightarrow> int" where
  "clamp_seconds s = (if s < 1 then 1 else if s > 300 then 300 else s)"

definition analyzeOggOpus :: "(int \<Rightarrow> data) \<Rightarrow> data \<Rightarrow> (unit + int \<times> data) option" where
  "analyzeOggOpus placeholderWaveform d =
     (if length d < 4 then Some (Inl ())
      else do {
        magic \<leftarrow> slice d 0 4;
        if magic \<noteq> ''OggS'' then Some (Inl ())
        else do {
          st \<leftarrow> ogg_scan d 0 ogg_start;
          let duration = clamp_seconds (ogg_seconds st (length d));
          Some (Inr (duration, placeholderWaveform duration))
        }
      })"

section \<open>WebP and Opus headers\<close>

definition isWebP :: "data \<Rightarrow> bool" where
  "isWebP d \<longleftrightarrow> length d \<ge> 12 \<and> take 4 d = ''RIFF'' \<and> take 4 (drop 8 d) = ''WEBP''"

definition odd_bit :: "nat \<Rightarrow> nat" where "odd_bit n = n mod 2"

text \<open>The walk over the chunks of the file. Positions are 64-bit and sizes 32-bit, so no sum here wraps for a
  file that fits in memory.\<close>

function webp_chunks :: "data \<Rightarrow> nat \<Rightarrow> bool option" where
  "webp_chunks d pos =
     (if pos + 8 > length d then Some False
      else do {
        n \<leftarrow> slice d (pos + 4) (pos + 8);
        let size = le n;
        let chunk_end = pos + 8 + size;
        if chunk_end > length d then Some False
        else do {
          tag \<leftarrow> slice d pos (pos + 4);
          if tag = ''VP8X'' then
            (if size = 10 then do { flags \<leftarrow> index d (pos + 8); Some ((flags div 2) mod 2 = 1) } else Some False)
          else webp_chunks d (chunk_end + odd_bit size)
        }
      })"
  by pat_completeness auto
termination
  by (relation "measure (\<lambda>(d, pos). length d - pos)") auto

declare webp_chunks.simps [simp del]

definition webPAnimated :: "data \<Rightarrow> bool option" where
  "webPAnimated d = (if \<not> isWebP d then Some False else webp_chunks d 12)"

definition isOggOpus :: "data \<Rightarrow> bool option" where
  "isOggOpus d =
     (if length d < 27 \<or> take 4 d \<noteq> ''OggS'' then Some False
      else do {
        segments \<leftarrow> index d 26;
        if segments = 0 then Some False
        else do {
          flags \<leftarrow> index d 5;
          if flags mod 2 \<noteq> 0 then Some False
          else (let start = 27 + segments
                in if start + 19 > length d then Some False
                   else do {
                     first \<leftarrow> index d 27;
                     if first < 19 then Some False
                     else do { h \<leftarrow> slice d start (start + 8); Some (h = ''OpusHead'') }
                   })
        }
      })"

section \<open>No slice out of range\<close>

lemma slice_Some: "i \<le> j \<Longrightarrow> j \<le> length d \<Longrightarrow> slice d i j = Some (take (j - i) (drop i d))"
  by (simp add: slice_def)

lemma index_Some: "i < length d \<Longrightarrow> index d i = Some (byte (d ! i))"
  by (simp add: index_def)

lemma slice_length: "slice d i j = Some x \<Longrightarrow> length x = j - i"
  by (auto simp: slice_def split: if_splits)

lemma byte_less: "byte c < 256"
  by (simp add: byte_def)

lemma read_head_total: "read_head page n st \<noteq> None"
  by (auto simp: read_head_def slice_def split: option.split)

lemma ogg_scan_page:
  assumes "i + 27 < length d" "slice d i (i + 4) = Some ''OggS''" "slice d (i + 6) (i + 14) = Some g"
    "slice d (i + 18) (i + 22) = Some q" "index d (i + 26) = Some n" "i + 27 + n < length d"
    "slice d (i + 27) (i + 27 + n) = Some t" "sz = 27 + n + sum_list (map byte t)" "sz \<le> length d - i"
    "slice d i (i + sz) = Some page" "read_head page (le q) st = Some st'"
  shows "ogg_scan d i st = ogg_scan d (i + sz) (note_granule (le g) st')"
  using assms(1-7,9-11) unfolding assms(8) by (subst ogg_scan.simps) (simp add: Let_def)

lemma ogg_scan_total: "ogg_scan d i st \<noteq> None"
proof (induction d i st rule: ogg_scan.induct)
  case (1 d i st)
  show ?case
  proof (cases "i + 27 \<ge> length d")
    case False
    then have s: "slice d i (i + 4) = Some (take 4 (drop i d))" "slice d (i + 6) (i + 14) = Some (take 8 (drop (i + 6) d))"
      "slice d (i + 18) (i + 22) = Some (take 4 (drop (i + 18) d))" "index d (i + 26) = Some (byte (d ! (i + 26)))"
      by (simp_all add: slice_Some index_Some)
    show ?thesis
    proof (cases "take 4 (drop i d) = ''OggS'' \<and> i + 27 + byte (d ! (i + 26)) < length d")
      case True
      let ?n = "byte (d ! (i + 26))"
      let ?t = "take ?n (drop (i + 27) d)"
      let ?size = "27 + ?n + sum_list (map byte ?t)"
      have t: "slice d (i + 27) (i + 27 + ?n) = Some ?t" using True by (simp add: slice_Some)
      show ?thesis
      proof (cases "?size > length d - i")
        case small: False
        then have p: "slice d i (i + ?size) = Some (take ?size (drop i d))" using False by (simp add: slice_Some)
        obtain st' where st': "read_head (take ?size (drop i d)) (le (take 4 (drop (i + 18) d))) st = Some st'"
          using read_head_total by (meson not_None_eq)
        have "ogg_scan d i st = ogg_scan d (i + ?size) (note_granule (le (take 8 (drop (i + 6) d))) st')"
          using False True s t p small st'
          by (intro ogg_scan_page [where n = ?n and t = ?t]) auto
        moreover have "ogg_scan d (i + ?size) (note_granule (le (take 8 (drop (i + 6) d))) st') \<noteq> None"
          using "1.IH"(2) [OF False s(1) _ s(2,3,4) _ t refl small p st'] True by simp
        ultimately show ?thesis by simp
      qed (use False True s t in \<open>subst ogg_scan.simps, simp add: add.assoc\<close>)
    qed (use False s "1.IH"(1) [OF False s(1)] in \<open>subst ogg_scan.simps, auto\<close>)
  qed (subst ogg_scan.simps, simp)
qed

lemma webp_chunks_total: "webp_chunks d pos \<noteq> None"
proof (induction d pos rule: webp_chunks.induct)
  case (1 d pos)
  show ?case
  proof (cases "pos + 8 > length d")
    case False
    then have n: "slice d (pos + 4) (pos + 8) = Some (take 4 (drop (pos + 4) d))" by (simp add: slice_Some)
    let ?size = "le (take 4 (drop (pos + 4) d))"
    show ?thesis
    proof (cases "pos + 8 + ?size > length d")
      case fits: False
      then have t: "slice d pos (pos + 4) = Some (take 4 (drop pos d))" by (simp add: slice_Some)
      show ?thesis
        using False n fits t "1.IH" [OF False n refl refl fits t]
        by (subst webp_chunks.simps) (auto simp: index_Some Let_def)
    qed (use False n in \<open>subst webp_chunks.simps, simp\<close>)
  qed (subst webp_chunks.simps, simp)
qed

lemma isOggOpus_total: "isOggOpus d \<noteq> None"
  by (auto simp: isOggOpus_def index_Some slice_Some Let_def)

lemma analyzeOggOpus_total: "analyzeOggOpus w d \<noteq> None"
  using ogg_scan_total [of d 0 ogg_start] by (auto simp: analyzeOggOpus_def slice_Some Let_def)

lemma clamp_seconds_bounds: "1 \<le> clamp_seconds s \<and> clamp_seconds s \<le> 300"
  by (simp add: clamp_seconds_def)

lemma analyzeOggOpus_OggS:
  "prefix ''OggS'' d \<Longrightarrow> \<exists>st. ogg_scan d 0 ogg_start = Some st
     \<and> analyzeOggOpus w d = Some (Inr (clamp_seconds (ogg_seconds st (length d)), w (clamp_seconds (ogg_seconds st (length d)))))"
  using ogg_scan_total [of d 0 ogg_start] by (auto simp: analyzeOggOpus_def slice_Some Let_def prefix_def)

section \<open>Well-formed files\<close>

text \<open>A page as RFC 3533 lays it out: the magic, version and flags, the granule position, serial, sequence and
  checksum, the number of segments, the segment table and the payload it measures.\<close>

record ogg_page =
  pg_flags :: data
  pg_granule :: data
  pg_serial :: data
  pg_seq :: data
  pg_crc :: data
  pg_table :: data
  pg_payload :: data

definition page_ok :: "ogg_page \<Rightarrow> bool" where
  "page_ok p \<longleftrightarrow> length (pg_flags p) = 2 \<and> length (pg_granule p) = 8 \<and> length (pg_serial p) = 4 \<and> length (pg_seq p) = 4
     \<and> length (pg_crc p) = 4 \<and> length (pg_table p) < 256 \<and> length (pg_payload p) = sum_list (map byte (pg_table p))
     \<and> pg_payload p \<noteq> []"

definition page_bytes :: "ogg_page \<Rightarrow> data" where
  "page_bytes p = ''OggS'' @ pg_flags p @ pg_granule p @ pg_serial p @ pg_seq p @ pg_crc p
     @ [char_of (length (pg_table p))] @ pg_table p @ pg_payload p"

text \<open>What one page means for the analysis.\<close>

definition page_effect :: "ogg_page \<Rightarrow> ogg \<Rightarrow> ogg" where
  "page_effect p st = note_granule (le (pg_granule p)) (the (read_head (page_bytes p) (le (pg_seq p)) st))"

lemma page_length:
  "page_ok p \<Longrightarrow> length (page_bytes p) = 27 + length (pg_table p) + sum_list (map byte (pg_table p))"
  by (simp add: page_ok_def page_bytes_def)

lemma page_scan:
  assumes "page_ok p" "i = length before" "d = before @ page_bytes p @ rest"
  shows "ogg_scan d i st = ogg_scan d (i + length (page_bytes p)) (page_effect p st)"
proof -
  let ?n = "length (pg_table p)"
  have "pg_payload p \<noteq> []" "length (pg_payload p) = sum_list (map byte (pg_table p))" and small: "?n < 256"
    using assms(1) by (auto simp: page_ok_def)
  then have ne: "0 < sum_list (map byte (pg_table p))" by (metis length_greater_0_conv)
  have len: "length d = i + length (page_bytes p) + length rest" using assms by simp
  have big: "\<not> length d \<le> i + 27" "\<not> length d \<le> i + 27 + ?n" "i + length (page_bytes p) \<le> length d"
    using len page_length [OF assms(1)] ne by linarith+
  have cut: "take k (drop (i + a) d) = take k (drop a (page_bytes p @ rest))" for a k
    using assms by simp
  have parts: "slice d i (i + 4) = Some ''OggS''" "slice d (i + 6) (i + 14) = Some (pg_granule p)"
    "slice d (i + 18) (i + 22) = Some (pg_seq p)" "slice d (i + 27) (i + 27 + ?n) = Some (pg_table p)"
    using big cut [of 4 0] cut [of 8 6] cut [of 4 18] cut [of ?n 27] assms(1)
    by (simp_all add: slice_Some page_bytes_def page_ok_def)
  have n: "index d (i + 26) = Some ?n"
    using big assms small by (simp add: index_Some page_bytes_def page_ok_def nth_append byte_def)
  have page: "slice d i (i + length (page_bytes p)) = Some (page_bytes p)"
    using big(3) assms(2,3) by (simp add: slice_Some)
  have "read_head (page_bytes p) (le (pg_seq p)) st = Some (the (read_head (page_bytes p) (le (pg_seq p)) st))"
    using read_head_total by auto
  moreover have "length (page_bytes p) \<le> length d - i" using len by simp
  ultimately show ?thesis
    unfolding page_effect_def using big parts n page page_length [OF assms(1)]
    by (intro ogg_scan_page [where q = "pg_seq p" and n = ?n and t = "pg_table p"]) (auto simp: not_le)
qed

lemma pages_scan:
  assumes "list_all page_ok ps" "i = length before" "d = before @ concat (map page_bytes ps)"
  shows "ogg_scan d i st = Some (fold page_effect ps st)"
  using assms
proof (induction ps arbitrary: before i st)
  case Nil
  then show ?case by (subst ogg_scan.simps) simp
next
  case (Cons p ps)
  have "ogg_scan d i st = ogg_scan d (i + length (page_bytes p)) (page_effect p st)"
    using Cons.prems by (intro page_scan [of p i before d "concat (map page_bytes ps)"]) auto
  also have "\<dots> = Some (fold page_effect ps (page_effect p st))"
    using Cons.prems by (intro Cons.IH [of _ "before @ page_bytes p"]) auto
  finally show ?case by simp
qed

section \<open>Properties\<close>

text \<open>No file makes the bridge panic: the analysis of a voice note, the search for the Opus header and the
  walk over the chunks of a sticker stay inside the bytes they were given, whatever those are, and a voice
  note is announced with between one and three hundred seconds.\<close>

lemma media_headers_in_range:
  "isOggOpus d \<noteq> None \<and> webPAnimated d \<noteq> None
   \<and> (if prefix ''OggS'' d then \<exists>s w. analyzeOggOpus wave d = Some (Inr (s, w)) \<and> 1 \<le> s \<and> s \<le> 300
      else analyzeOggOpus wave d = Some (Inl ()))"
proof -
  have "analyzeOggOpus wave d = Some (Inl ())" if "\<not> prefix ''OggS'' d"
    using that take_is_prefix [of 4 d] by (auto simp: analyzeOggOpus_def slice_Some)
  then show ?thesis
    using isOggOpus_total [of d] webp_chunks_total [of d 12] analyzeOggOpus_OggS [of d wave] clamp_seconds_bounds
    by (auto simp: webPAnimated_def simp del: not_None_eq)
qed

text \<open>A well-formed voice note is read page by page: for a file that is a sequence of pages, the analysis
  sees each of them once and in order, so the duration is the last granule position less the pre-skip of
  the Opus header.\<close>

lemma ogg_pages_read:
  assumes "list_all page_ok ps" "ps \<noteq> []"
  shows "\<exists>st w. st = fold page_effect ps ogg_start
    \<and> analyzeOggOpus wave (concat (map page_bytes ps)) = Some (Inr (clamp_seconds (ogg_seconds st (length (concat (map page_bytes ps)))), w))"
proof -
  obtain p qs where ps: "ps = p # qs" using assms(2) by (cases ps) auto
  have "prefix ''OggS'' (concat (map page_bytes ps))" by (simp add: ps page_bytes_def)
  then show ?thesis
    using analyzeOggOpus_OggS [of "concat (map page_bytes ps)" wave] pages_scan [OF assms(1), of 0 "[]"] by auto
qed

definition sample_voice :: "ogg_page list" where
  "sample_voice =
     [\<lparr>pg_flags = [CHR 0x00, CHR 0x02], pg_granule = replicate 8 (CHR 0x00), pg_serial = replicate 4 (CHR 0x01), pg_seq = replicate 4 (CHR 0x00),
       pg_crc = replicate 4 (CHR 0x00), pg_table = [CHR 0x13], pg_payload = ''OpusHead'' @ [CHR 0x01, CHR 0x01, CHR 0x38, CHR 0x01] @ replicate 7 (CHR 0x00)\<rparr>,
      \<lparr>pg_flags = [CHR 0x00, CHR 0x04], pg_granule = [CHR 0x38, CHR 0xEF, CHR 0x02, CHR 0x00] @ replicate 4 (CHR 0x00), pg_serial = replicate 4 (CHR 0x01), pg_seq = CHR 0x02 # replicate 3 (CHR 0x00),
       pg_crc = replicate 4 (CHR 0x00), pg_table = [CHR 0x01], pg_payload = ''x''\<rparr>]"

theorem ogg_pages_read_witness:
  "(\<exists>w. analyzeOggOpus (\<lambda>_. []) (concat (map page_bytes sample_voice)) = Some (Inr (4, w)))
   \<and> preSkip (fold page_effect sample_voice ogg_start) = 312"
proof -
  have ok: "list_all page_ok sample_voice" "sample_voice \<noteq> []" by code_simp+
  have st: "fold page_effect sample_voice ogg_start = \<lparr>lastGranule = 192312, preSkip = 312, foundOpusHead = True\<rparr>"
  proof -
    have "replicate 3 c = [c, c, c]" "replicate 4 c = [c, c, c, c]" "replicate 7 c = [c, c, c, c, c, c, c]"
      "replicate 8 c = [c, c, c, c, c, c, c, c]" for c :: char by (simp_all add: eval_nat_numeral)
    then show ?thesis
      by (simp add: sample_voice_def page_effect_def read_head_def page_bytes_def slice_def note_granule_def byte_def ogg_start_def)
  qed
  have "rnd64 (192000 :: rat) = 192000" "rnd64 (4 :: rat) = 4" using rnd64_of_int [of 192000] rnd64_of_int [of 4] by simp_all
  then have "clamp_seconds (ogg_seconds \<lparr>lastGranule = 192312, preSkip = 312, foundOpusHead = True\<rparr> n) = 4" for n
    by (simp add: ogg_seconds_def clamp_seconds_def granuleRate_def)
  with ogg_pages_read [OF ok, of "\<lambda>_. []"] st show ?thesis by auto
qed

end
