(* ===== verification/Outbound_Message.thy ===== *)
theory Outbound_Message
  imports Media_Bytes
begin

text \<open>
  The messages the bridge sends: what a file is uploaded and announced as (\<^verbatim>\<open>classifyMediaPath\<close> of \<^verbatim>\<open>send.go\<close>,
  \<^verbatim>\<open>send_mime.go\<close>), the presentation a stored file keeps for its recipients (\<^verbatim>\<open>media_presentation.go\<close>), the builders
  of text and media messages with their quotes, mentions and disappearing-message settings (\<^verbatim>\<open>send.go\<close>), and
  the forward of a stored file (\<^verbatim>\<open>forward_media.go\<close>). A message built here holds one body, so it is a datatype
  with one constructor for each. The tables of the system and of the standard library (MIME types by
  extension, content sniffing, MIME parsing, SHA-256, the JSON decoder) are arguments, kept in one record.
\<close>

record media_tables =
  TypeByExtension :: "string \<Rightarrow> string"
  DetectContentType :: "data \<Rightarrow> string"
  ParseMediaType :: "string \<Rightarrow> (string \<times> string list) option"
  Sum256 :: "data \<Rightarrow> data"
  valid_stamp :: "string \<Rightarrow> bool"
  waveform_of :: "int \<Rightarrow> data"

section \<open>Kinds of media\<close>

datatype upload_kind = MediaImage | MediaVideo | MediaAudio | MediaDocument

definition lower_string :: "string \<Rightarrow> string" where
  "lower_string s = concat (map lower_rune (runes s))"

definition classifyMediaPath :: "media_tables \<Rightarrow> string \<Rightarrow> upload_kind \<times> string \<times> string" where
  "classifyMediaPath tb mediaPath =
     (let raw = Ext mediaPath; ext = lower_string (if prefix ''.'' raw then tl raw else raw)
      in if ext = ''jpg'' \<or> ext = ''jpeg'' then (MediaImage, ''image/jpeg'', ''image'')
         else if ext = ''png'' then (MediaImage, ''image/png'', ''image'')
         else if ext = ''gif'' then (MediaImage, ''image/gif'', ''image'')
         else if ext = ''webp'' then (MediaImage, ''image/webp'', ''image'')
         else if ext = ''ogg'' then (MediaAudio, ''audio/ogg; codecs=opus'', ''audio'')
         else if ext = ''mp4'' then (MediaVideo, ''video/mp4'', ''video'')
         else if ext = ''avi'' then (MediaVideo, ''video/avi'', ''video'')
         else if ext = ''mov'' then (MediaVideo, ''video/quicktime'', ''video'')
         else let m = TypeByExtension tb (CHR ''.'' # ext)
              in (MediaDocument, if m \<noteq> [] then m else ''application/octet-stream'', ''document''))"

definition sniffMIME :: "media_tables \<Rightarrow> data \<Rightarrow> string" where
  "sniffMIME tb head = (if head = [] then ''application/octet-stream'' else DetectContentType tb head)"

definition classifyMediaData :: "media_tables \<Rightarrow> string \<Rightarrow> data \<Rightarrow> upload_kind \<times> string \<times> string" where
  "classifyMediaData tb mediaPath d =
     (case classifyMediaPath tb mediaPath of
        (uploadType, mimeType, category) \<Rightarrow>
          let sniffed = (if category = ''video'' \<and> length d \<ge> 12 \<and> take 4 (drop 4 d) = ''ftyp'' \<and> take 4 (drop 8 d) = ''qt  ''
                         then ''video/quicktime'' else sniffMIME tb d)
          in (uploadType,
              if category = ''image'' \<and> sniffed \<in> {''image/jpeg'', ''image/png'', ''image/gif'', ''image/webp''} then sniffed
              else if category = ''video'' \<and> sniffed \<in> {''video/mp4'', ''video/quicktime'', ''video/avi''} then sniffed
              else mimeType,
              category))"

definition classifySendMedia :: "media_tables \<Rightarrow> bool \<Rightarrow> string \<Rightarrow> data \<Rightarrow> upload_kind \<times> string \<times> string" where
  "classifySendMedia tb cached mediaPath d =
     (if cached then classifyMediaData tb mediaPath d else classifyMediaPath tb mediaPath)"

section \<open>Presentation\<close>

record mediaPresentation =
  p_Hash :: string
  p_MIME :: string
  p_Name :: "string option"
  p_Title :: "string option"
  p_PTT :: "bool option"
  p_Seconds :: "nat option"
  p_Waveform :: data
  p_Animated :: "bool option"

text \<open>\<^verbatim>\<open>strings.EqualFold\<close> against an ASCII string: beside the case of ASCII letters, the Kelvin sign folds to a k and
  the long s to an s.\<close>

definition fold_rune :: "string \<Rightarrow> string" where
  "fold_rune r = (if length r = 1 \<and> byte (hd r) < 128 then map lower_byte r
     else if code_point r = 8490 then ''k'' else if code_point r = 383 then ''s'' else r)"

definition EqualFold_ascii :: "string \<Rightarrow> string \<Rightarrow> bool" where
  "EqualFold_ascii s literal \<longleftrightarrow> map fold_rune (runes s) = map (\<lambda>c. [lower_byte c]) literal"

definition opus_mime :: string where "opus_mime = ''audio/ogg; codecs=opus''"

definition presentationMIME :: "media_tables \<Rightarrow> string \<Rightarrow> string \<Rightarrow> string" where
  "presentationMIME tb kind raw =
     (if kind = ''audio'' \<and> (EqualFold_ascii raw opus_mime \<or> EqualFold_ascii raw ''audio/ogg;codecs=opus'') then opus_mime
      else if length raw > 255 \<or> list_ex (\<lambda>r. r \<in> set space_runes \<or> IsControl (code_point r)) (runes raw) then []
      else case ParseMediaType tb raw of
             None \<Rightarrow> []
           | Some (parsed, params) \<Rightarrow>
               if params \<noteq> [] \<or> parsed \<noteq> lower_string raw \<or> count_list parsed CHR ''/'' \<noteq> 1 \<or> CHR ''*'' \<in> set parsed then []
               else if kind = ''document'' \<or> (kind = ''audio'' \<and> prefix ''audio/'' parsed) \<or> (kind = ''sticker'' \<and> parsed = ''image/webp'')
                 \<or> (kind = ''image'' \<and> parsed \<in> {''image/jpeg'', ''image/png'', ''image/gif'', ''image/webp''})
                 \<or> (kind = ''video'' \<and> parsed \<in> {''video/mp4'', ''video/quicktime'', ''video/avi''})
               then parsed else [])"

definition validated :: "media_tables \<Rightarrow> string \<Rightarrow> mediaPresentation \<Rightarrow> mediaPresentation" where
  "validated tb kind p =
     p\<lparr>p_MIME := presentationMIME tb kind (p_MIME p),
       p_Name := map_option cleanDisplayName (p_Name p),
       p_Title := map_option cleanDisplayName (p_Title p),
       p_Seconds := (case p_Seconds p of Some s \<Rightarrow> if s > 86400 then None else Some s | None \<Rightarrow> None),
       p_Waveform := (if length (p_Waveform p) = 64 then p_Waveform p else [])\<rparr>"

definition forFile :: "media_tables \<Rightarrow> string \<Rightarrow> data \<Rightarrow> mediaPresentation option \<Rightarrow> mediaPresentation option" where
  "forFile tb kind sha p =
     (case p of
        None \<Rightarrow> None
      | Some p \<Rightarrow>
          if sha = [] \<or> length sha > 64 then None
          else let hash = hex_encode sha
               in if p_Hash p \<noteq> [] \<and> p_Hash p \<noteq> hash then None else Some ((validated tb kind p)\<lparr>p_Hash := hash\<rparr>))"

definition forBytes :: "media_tables \<Rightarrow> string \<Rightarrow> data \<Rightarrow> mediaPresentation option \<Rightarrow> unit + mediaPresentation option" where
  "forBytes tb kind d p =
     (case p of
        None \<Rightarrow> Inr None
      | Some p \<Rightarrow> if p_Hash p \<noteq> [] \<and> p_Hash p \<noteq> hex_encode (Sum256 tb d) then Inl () else Inr (Some (validated tb kind p)))"

text \<open>\<open>decode\<close> is \<^verbatim>\<open>json.Unmarshal\<close> into the type: an error, or the presentation, which the literal null leaves nil.\<close>

definition readMediaPresentation :: "(string \<Rightarrow> mediaPresentation option option) \<Rightarrow> media_tables \<Rightarrow> string \<Rightarrow> string \<Rightarrow> data
    \<Rightarrow> mediaPresentation option" where
  "readMediaPresentation decode tb raw kind sha =
     (if length raw > 4096 then None
      else case decode raw of
             Some (Some p) \<Rightarrow>
               if p_Hash p = [] \<or> p_Hash p \<noteq> hex_encode sha then None else Some (validated tb kind p)
           | _ \<Rightarrow> None)"

section \<open>Messages\<close>

record upload_response =
  u_URL :: string
  u_DirectPath :: string
  u_MediaKey :: data
  u_FileSHA256 :: data
  u_FileEncSHA256 :: data
  u_FileLength :: nat

datatype quoted_message =
    Quoted_text string
  | Quoted_image string "string option"
  | Quoted_video string "string option"
  | Quoted_audio "(string \<times> bool option \<times> nat option \<times> data) option"
  | Quoted_sticker "(string \<times> bool option) option"
  | Quoted_document string string "(string \<times> string option) option"

record context_info =
  ci_MentionedJID :: "string list"
  ci_StanzaID :: "string option"
  ci_Participant :: "string option"
  ci_QuotedMessage :: "quoted_message option"
  ci_Expiration :: "nat option"
  ci_SettingTimestamp :: "int option"
  ci_Disappearing :: bool

datatype wa_message =
    Conversation string
  | ExtendedText string "context_info option"
  | ImageMessage string string upload_response "context_info option"
  | VideoMessage string string upload_response "context_info option"
  | AudioMessage string upload_response "bool option" "nat option" data "context_info option"
  | StickerMessage string upload_response "bool option" "context_info option"
  | DocumentMessage string string string string upload_response "context_info option"

fun context_of :: "wa_message \<Rightarrow> context_info option" where
  "context_of (Conversation t) = None"
| "context_of (ExtendedText t c) = c"
| "context_of (ImageMessage cap m u c) = c"
| "context_of (VideoMessage cap m u c) = c"
| "context_of (AudioMessage m u p s w c) = c"
| "context_of (StickerMessage m u a c) = c"
| "context_of (DocumentMessage ti n cap m u c) = c"

text \<open>\<^verbatim>\<open>mediaContextInfo\<close> hands out the slot of a media message; here it is written through.\<close>

fun mediaContextInfo :: "(context_info option \<Rightarrow> context_info option) \<Rightarrow> wa_message \<Rightarrow> wa_message" where
  "mediaContextInfo f (ImageMessage cap m u c) = ImageMessage cap m u (f c)"
| "mediaContextInfo f (VideoMessage cap m u c) = VideoMessage cap m u (f c)"
| "mediaContextInfo f (DocumentMessage ti n cap m u c) = DocumentMessage ti n cap m u (f c)"
| "mediaContextInfo f (AudioMessage m u p s w c) = AudioMessage m u p s w (f c)"
| "mediaContextInfo f (StickerMessage m u a c) = StickerMessage m u a (f c)"
| "mediaContextInfo f (Conversation t) = Conversation t"
| "mediaContextInfo f (ExtendedText t c) = ExtendedText t c"

record outboundQuote =
  q_id :: string
  q_participant :: string
  q_content :: string
  q_preview :: "quoted_message option"

definition empty_context :: context_info where
  "empty_context = \<lparr>ci_MentionedJID = [], ci_StanzaID = None, ci_Participant = None, ci_QuotedMessage = None,
     ci_Expiration = None, ci_SettingTimestamp = None, ci_Disappearing = False\<rparr>"

definition outboundContextInfo :: "outboundQuote \<Rightarrow> string list \<Rightarrow> context_info option" where
  "outboundContextInfo quote mentionedJIDs =
     (if q_id quote = [] \<and> mentionedJIDs = [] then None
      else let ctx = empty_context\<lparr>ci_MentionedJID := mentionedJIDs\<rparr>
           in if q_id quote \<noteq> [] then
                Some (ctx\<lparr>ci_StanzaID := Some (q_id quote),
                  ci_Participant := (if q_participant quote \<noteq> [] then Some (q_participant quote) else None),
                  ci_QuotedMessage := (case q_preview quote of Some p \<Rightarrow> Some p | None \<Rightarrow> Some (Quoted_text (q_content quote)))\<rparr>)
              else Some ctx)"

definition buildOutboundTextWithQuote :: "string \<Rightarrow> outboundQuote \<Rightarrow> string list \<Rightarrow> wa_message" where
  "buildOutboundTextWithQuote tx quote mentionedJIDs =
     (case outboundContextInfo quote mentionedJIDs of
        None \<Rightarrow> Conversation tx
      | Some ctx \<Rightarrow> ExtendedText tx (Some ctx))"

definition buildOutboundText :: "string \<Rightarrow> string \<Rightarrow> string \<Rightarrow> string \<Rightarrow> string list \<Rightarrow> wa_message" where
  "buildOutboundText tx quotedMsgID quotedParticipant quotedContent mentionedJIDs =
     buildOutboundTextWithQuote tx
       \<lparr>q_id = quotedMsgID, q_participant = quotedParticipant, q_content = quotedContent, q_preview = None\<rparr> mentionedJIDs"

text \<open>\<open>Build_panic\<close> is a slice out of range in the analysis of the file.\<close>

datatype build_error = Build_panic | Not_ogg | Wrong_hash | Unsupported_kind string | Unknown_codec

definition read_ogg :: "media_tables \<Rightarrow> data \<Rightarrow> build_error + nat \<times> data" where
  "read_ogg tb d = (case analyzeOggOpus (waveform_of tb) d of
      None \<Rightarrow> Inl Build_panic | Some (Inl _) \<Rightarrow> Inl Not_ogg | Some (Inr (s, w)) \<Rightarrow> Inr (nat s, w))"

definition buildMediaMessage :: "media_tables \<Rightarrow> upload_kind \<Rightarrow> string \<Rightarrow> string \<Rightarrow> data \<Rightarrow> upload_response \<Rightarrow> string
    \<Rightarrow> build_error + wa_message" where
  "buildMediaMessage tb mediaType mimeType mediaPath mediaData resp caption =
     (case mediaType of
        MediaImage \<Rightarrow> Inr (ImageMessage caption mimeType resp None)
      | MediaAudio \<Rightarrow>
          if sublist ''ogg'' mimeType
          then (case read_ogg tb mediaData of
                  Inl e \<Rightarrow> Inl e
                | Inr (seconds, waveform) \<Rightarrow> Inr (AudioMessage mimeType resp (Some True) (Some seconds) waveform None))
          else Inr (AudioMessage mimeType resp (Some True) (Some 30) [] None)
      | MediaVideo \<Rightarrow> Inr (VideoMessage caption mimeType resp None)
      | MediaDocument \<Rightarrow> Inr (DocumentMessage (outboundFileName mediaPath) (outboundFileName mediaPath) caption mimeType resp None))"

definition is_audio :: "wa_message \<Rightarrow> bool" where
  "is_audio m \<longleftrightarrow> (case m of AudioMessage _ _ _ _ _ _ \<Rightarrow> True | _ \<Rightarrow> False)"

definition buildOutboundMedia :: "media_tables \<Rightarrow> upload_kind \<Rightarrow> string \<Rightarrow> string \<Rightarrow> data \<Rightarrow> upload_response \<Rightarrow> string
    \<Rightarrow> outboundQuote \<Rightarrow> string list \<Rightarrow> build_error + wa_message \<times> string" where
  "buildOutboundMedia tb mediaType mimeType mediaPath mediaData resp caption quote mentionedJIDs =
     (case buildMediaMessage tb mediaType mimeType mediaPath mediaData resp caption of
        Inl e \<Rightarrow> Inl e
      | Inr m \<Rightarrow>
          let (cap, mentions) = (if is_audio m then ([], []) else (caption, mentionedJIDs))
          in Inr (mediaContextInfo (\<lambda>_. outboundContextInfo quote mentions) m, cap))"

section \<open>Disappearing messages\<close>

record ephemeral_settings =
  e_Expiration :: nat
  e_SettingTimestamp :: int

definition mergeEphemeralContextInfo :: "context_info option \<Rightarrow> ephemeral_settings \<Rightarrow> context_info" where
  "mergeEphemeralContextInfo existing settings =
     (case existing of None \<Rightarrow> empty_context | Some c \<Rightarrow> c)
       \<lparr>ci_Expiration := Some (e_Expiration settings), ci_SettingTimestamp := Some (e_SettingTimestamp settings), ci_Disappearing := True\<rparr>"

definition applyChatEphemeralSettings :: "ephemeral_settings \<Rightarrow> wa_message \<Rightarrow> wa_message" where
  "applyChatEphemeralSettings settings m =
     (if e_Expiration settings = 0 \<or> e_SettingTimestamp settings = 0 then m
      else case m of
             ExtendedText t c \<Rightarrow> ExtendedText t (Some (mergeEphemeralContextInfo c settings))
           | Conversation t \<Rightarrow> ExtendedText t (Some (mergeEphemeralContextInfo None settings))
           | _ \<Rightarrow> mediaContextInfo (\<lambda>c. Some (mergeEphemeralContextInfo c settings)) m)"

section \<open>Forwards\<close>

record forwardSource =
  f_content :: string
  f_mediaType :: string
  f_filename :: string
  f_id :: string
  f_presentation :: "mediaPresentation option"

definition adts_frame :: "data \<Rightarrow> bool" where
  "adts_frame d \<longleftrightarrow> length d \<ge> 7 \<and> byte (d ! 0) = 255 \<and> and (byte (d ! 1)) 246 = 240"

definition mpeg_frame :: "data \<Rightarrow> bool" where
  "mpeg_frame d \<longleftrightarrow> length d \<ge> 4 \<and> byte (d ! 0) = 255 \<and> and (byte (d ! 1)) 224 = 224 \<and> and (byte (d ! 1)) 24 \<noteq> 8
     \<and> and (byte (d ! 1)) 6 \<noteq> 0 \<and> and (byte (d ! 2)) 240 \<noteq> 0 \<and> and (byte (d ! 2)) 240 \<noteq> 240 \<and> and (byte (d ! 2)) 12 \<noteq> 12"

definition sniff_audio :: "media_tables \<Rightarrow> data \<Rightarrow> string" where
  "sniff_audio tb d =
     (let s = sniffMIME tb d;
          s1 = (if s = ''video/mp4'' then ''audio/mp4'' else if s = ''audio/wave'' then ''audio/wav''
                else if s = ''application/ogg'' then ''audio/ogg'' else s);
          s2 = (if adts_frame d then ''audio/aac'' else s1)
      in if mpeg_frame d then ''audio/mpeg'' else s2)"

text \<open>\<open>cached\<close> is the mark of a path that carries the cache's category name.\<close>

definition forwardMediaType :: "media_tables \<Rightarrow> forwardSource option \<Rightarrow> bool \<Rightarrow> string \<Rightarrow> data
    \<Rightarrow> build_error + upload_kind \<times> string" where
  "forwardMediaType tb src cached path d =
     (case src of
        None \<Rightarrow> (case classifySendMedia tb cached path d of (kind, contentType, _) \<Rightarrow> Inr (kind, contentType))
      | Some source \<Rightarrow>
          (case forBytes tb (f_mediaType source) d (f_presentation source) of
             Inl _ \<Rightarrow> Inl Wrong_hash
           | Inr p \<Rightarrow>
               (let mt = f_mediaType source;
                    found = (if mt = ''document'' then Inr (MediaDocument, fst (snd (classifyMediaPath tb (f_filename source))))
                             else if mt = ''sticker'' then Inr (MediaImage, if isWebP d then ''image/webp'' else sniffMIME tb d)
                             else if mt = ''audio'' then Inr (MediaAudio, sniff_audio tb d)
                             else if mt = ''image'' \<or> mt = ''video''
                             then (case classifyMediaData tb path d of (k, c, _) \<Rightarrow> Inr (k, c))
                             else Inl (Unsupported_kind mt))
                in case found of
                     Inl e \<Rightarrow> Inl e
                   | Inr (kind, ct0) \<Rightarrow>
                       let ct1 = (case p of
                                    Some q \<Rightarrow> if p_MIME q \<noteq> [] \<and> mt \<noteq> ''image'' \<and> mt \<noteq> ''video'' \<and> (mt \<noteq> ''sticker'' \<or> isWebP d)
                                              then p_MIME q else ct0
                                  | None \<Rightarrow> ct0)
                       in if mt = ''audio'' then
                            (case isOggOpus d of
                               None \<Rightarrow> Inl Build_panic
                             | Some opus \<Rightarrow>
                                 let ct2 = (if opus then opus_mime else ct1)
                                 in case ParseMediaType tb ct2 of
                                      None \<Rightarrow> Inl Unknown_codec
                                    | Some (parsed, _) \<Rightarrow> if prefix ''audio/'' parsed then Inr (kind, ct2) else Inl Unknown_codec)
                          else Inr (kind, ct1))))"

definition media_prefixes :: "string list" where
  "media_prefixes = [''document'', ''image'', ''video'', ''audio'', ''sticker'']"

text \<open>\<^verbatim>\<open>time.Parse\<close> of the fifteen bytes of a stamp is \<^const>\<open>valid_stamp\<close>.\<close>

definition generatedMediaName :: "media_tables \<Rightarrow> string \<Rightarrow> bool" where
  "generatedMediaName tb path =
     (let name = after_any {CHR ''/'', CHR 0x5C} path
      in case List.find (\<lambda>k. prefix (k @ ''_'') name) media_prefixes of
           None \<Rightarrow> False
         | Some kind \<Rightarrow>
             let rest = drop (length kind + 1) name
             in if length rest < 15 then False
                else if \<not> valid_stamp tb (take 15 rest) then False
                else let end_part = drop 15 rest
                     in end_part = [] \<or> ((hd end_part = CHR ''_'' \<or> hd end_part = CHR ''.'') \<and> length end_part > 1))"

definition forward_audio :: "media_tables \<Rightarrow> mediaPresentation option \<Rightarrow> string \<Rightarrow> data \<Rightarrow> upload_response \<Rightarrow> outboundQuote
    \<Rightarrow> build_error + wa_message" where
  "forward_audio tb p contentType d resp quote =
     (let (ptt0, secs0, wave0) = (case p of Some q \<Rightarrow> (p_PTT q, p_Seconds q, p_Waveform q) | None \<Rightarrow> (Some False, None, []));
          ctx = outboundContextInfo quote []
      in case isOggOpus d of
           None \<Rightarrow> Inl Build_panic
         | Some False \<Rightarrow> Inr (AudioMessage contentType resp ptt0 secs0 wave0 ctx)
         | Some True \<Rightarrow>
             let ptt = (if p = None then Some True else ptt0)
             in if secs0 = None \<or> length wave0 \<noteq> 64 then
                  (case read_ogg tb d of
                     Inl e \<Rightarrow> Inl e
                   | Inr (seconds, waveform) \<Rightarrow>
                       Inr (AudioMessage contentType resp ptt
                         (if secs0 = None \<and> seconds \<le> 86400 then Some seconds else secs0)
                         (if length wave0 \<noteq> 64 then waveform else wave0) ctx))
                else Inr (AudioMessage contentType resp ptt secs0 wave0 ctx))"

definition forward_names :: "media_tables \<Rightarrow> mediaPresentation option \<Rightarrow> string \<Rightarrow> string \<times> string" where
  "forward_names tb p filename =
     (let (name0, title0) = (case p of
            Some q \<Rightarrow> ((case p_Name q of Some n \<Rightarrow> n | None \<Rightarrow> filename), (case p_Title q of Some t \<Rightarrow> t | None \<Rightarrow> []))
          | None \<Rightarrow> (filename, filename));
          no_name = (case p of Some q \<Rightarrow> p_Name q = None | None \<Rightarrow> True);
          no_title = (case p of Some q \<Rightarrow> p_Title q = None | None \<Rightarrow> True);
          (name1, title1) = (if no_name \<and> generatedMediaName tb name0 then ([], if no_title then [] else title0) else (name0, title0))
      in (name1, if p = None \<and> title1 \<noteq> [] then outboundFileName title1 else title1))"

text \<open>Writing the title of a message without a document is a nil dereference.\<close>

fun set_title :: "string \<Rightarrow> wa_message \<Rightarrow> build_error + wa_message" where
  "set_title t (DocumentMessage _ n cap m u c) = Inr (DocumentMessage t n cap m u c)"
| "set_title t m = Inl Build_panic"

definition buildForwardMedia :: "media_tables \<Rightarrow> bool \<Rightarrow> forwardSource option \<Rightarrow> upload_kind \<Rightarrow> string \<Rightarrow> string \<Rightarrow> data
    \<Rightarrow> upload_response \<Rightarrow> string \<Rightarrow> outboundQuote \<Rightarrow> string list \<Rightarrow> build_error + wa_message \<times> string" where
  "buildForwardMedia tb asSticker src kind contentType path d resp caption quote mentions =
     (if asSticker then
        (case webPAnimated d of
           None \<Rightarrow> Inl Build_panic
         | Some animated \<Rightarrow>
             Inr (StickerMessage ''image/webp'' resp (Some animated) (outboundContextInfo quote mentions), []))
      else case src of
        None \<Rightarrow> buildOutboundMedia tb kind contentType path d resp caption quote mentions
      | Some source \<Rightarrow>
          (case forBytes tb (f_mediaType source) d (f_presentation source) of
             Inl _ \<Rightarrow> Inl Wrong_hash
           | Inr p \<Rightarrow>
               if f_mediaType source = ''audio'' then
                 (case forward_audio tb p contentType d resp quote of Inl e \<Rightarrow> Inl e | Inr m \<Rightarrow> Inr (m, []))
               else if f_mediaType source = ''sticker'' then
                 (if \<not> isWebP d then buildOutboundMedia tb MediaImage contentType path d resp caption quote mentions
                  else Inr (StickerMessage contentType resp (case p of Some q \<Rightarrow> p_Animated q | None \<Rightarrow> None)
                              (outboundContextInfo quote mentions), []))
               else if f_mediaType source = ''document'' then
                 (case forward_names tb p (f_filename source) of
                    (name, title) \<Rightarrow>
                      (case buildOutboundMedia tb kind contentType name d resp caption quote mentions of
                         Inl e \<Rightarrow> Inl e
                       | Inr (m, tx) \<Rightarrow>
                           (case set_title (cleanDisplayName title) m of Inl e \<Rightarrow> Inl e | Inr m' \<Rightarrow> Inr (m', tx))))
               else buildOutboundMedia tb kind contentType path d resp caption quote mentions))"

text \<open>The kind of a media message and the presentation it is stored with.\<close>

fun media_part :: "wa_message \<Rightarrow> (string \<times> upload_response) option" where
  "media_part (ImageMessage cap m u c) = Some (''image'', u)"
| "media_part (VideoMessage cap m u c) = Some (''video'', u)"
| "media_part (AudioMessage m u p s w c) = Some (''audio'', u)"
| "media_part (DocumentMessage ti n cap m u c) = Some (''document'', u)"
| "media_part (StickerMessage m u a c) = Some (''sticker'', u)"
| "media_part m = None"

definition no_presentation :: mediaPresentation where
  "no_presentation = \<lparr>p_Hash = [], p_MIME = [], p_Name = None, p_Title = None, p_PTT = None, p_Seconds = None, p_Waveform = [], p_Animated = None\<rparr>"

fun raw_presentation :: "wa_message \<Rightarrow> mediaPresentation" where
  "raw_presentation (ImageMessage cap m u c) = no_presentation\<lparr>p_MIME := m\<rparr>"
| "raw_presentation (VideoMessage cap m u c) = no_presentation\<lparr>p_MIME := m\<rparr>"
| "raw_presentation (AudioMessage m u ptt s w c) = no_presentation\<lparr>p_MIME := m, p_PTT := ptt, p_Seconds := s, p_Waveform := w\<rparr>"
| "raw_presentation (DocumentMessage ti n cap m u c) = no_presentation\<lparr>p_MIME := m, p_Name := Some n, p_Title := Some ti\<rparr>"
| "raw_presentation (StickerMessage m u a c) = no_presentation\<lparr>p_MIME := m, p_Animated := a\<rparr>"
| "raw_presentation m = no_presentation"

definition mediaPresentationOf :: "media_tables \<Rightarrow> wa_message \<Rightarrow> mediaPresentation option" where
  "mediaPresentationOf tb msg =
     (case media_part msg of
        None \<Rightarrow> None
      | Some (kind, u) \<Rightarrow>
          let p = raw_presentation msg
          in if p = no_presentation then None else forFile tb kind (u_FileSHA256 u) (Some p))"

section \<open>Lemmas\<close>

fun upload_kind_of :: "wa_message \<Rightarrow> upload_kind option" where
  "upload_kind_of (ImageMessage cap m u c) = Some MediaImage"
| "upload_kind_of (StickerMessage m u a c) = Some MediaImage"
| "upload_kind_of (VideoMessage cap m u c) = Some MediaVideo"
| "upload_kind_of (AudioMessage m u p s w c) = Some MediaAudio"
| "upload_kind_of (DocumentMessage ti n cap m u c) = Some MediaDocument"
| "upload_kind_of m = None"

fun message_text :: "wa_message \<Rightarrow> string" where
  "message_text (Conversation t) = t"
| "message_text (ExtendedText t c) = t"
| "message_text (ImageMessage cap m u c) = cap"
| "message_text (VideoMessage cap m u c) = cap"
| "message_text (DocumentMessage ti n cap m u c) = cap"
| "message_text (AudioMessage m u p s w c) = []"
| "message_text (StickerMessage m u a c) = []"

lemma read_ogg_no_panic [simp]: "read_ogg tb d \<noteq> Inl Build_panic"
  using analyzeOggOpus_total [of "waveform_of tb" d] by (auto simp: read_ogg_def split: sum.splits)

lemma isOggOpus_Some: "\<exists>b. isOggOpus d = Some b"
  using isOggOpus_total [of d] by simp

lemma webPAnimated_Some: "\<exists>b. webPAnimated d = Some b"
  using webp_chunks_total [of d 12] by (auto simp: webPAnimated_def)

lemma buildMediaMessage_shape:
  "buildMediaMessage tb k ct path d up cap \<noteq> Inl Build_panic"
  "buildMediaMessage tb k ct path d up cap = Inr m \<Longrightarrow>
     upload_kind_of m = Some k \<and> context_of m = None \<and> message_text m = (if is_audio m then [] else cap) \<and> (is_audio m \<longleftrightarrow> k = MediaAudio)"
  using read_ogg_no_panic [of tb d]
  by (auto simp: buildMediaMessage_def is_audio_def split: upload_kind.splits if_splits sum.splits)

text \<open>What a media message written through its slot keeps.\<close>

lemma mediaContextInfo_keeps [simp]:
  "upload_kind_of (mediaContextInfo f m) = upload_kind_of m" "message_text (mediaContextInfo f m) = message_text m"
  "is_audio (mediaContextInfo f m) = is_audio m"
  by (cases m; simp add: is_audio_def)+

lemma context_mediaContextInfo: "upload_kind_of m \<noteq> None \<Longrightarrow> context_of (mediaContextInfo f m) = f (context_of m)"
  by (cases m) auto

lemma buildOutboundMedia_shape:
  "buildOutboundMedia tb k ct path d up cap quote ms \<noteq> Inl Build_panic"
  "buildOutboundMedia tb k ct path d up cap quote ms = Inr (m, tx) \<Longrightarrow>
     upload_kind_of m = Some k \<and> message_text m = tx \<and> (is_audio m \<longleftrightarrow> k = MediaAudio)
     \<and> context_of m = outboundContextInfo quote (if is_audio m then [] else ms)"
  using buildMediaMessage_shape [of tb k ct path d up cap]
  by (auto simp: buildOutboundMedia_def context_mediaContextInfo split: sum.splits)

lemma set_title_shape:
  "upload_kind_of m = Some MediaDocument \<Longrightarrow> \<exists>m'. set_title t m = Inr m' \<and> upload_kind_of m' = Some MediaDocument
     \<and> message_text m' = message_text m \<and> context_of m' = context_of m \<and> is_audio m' = is_audio m"
  by (cases m) (auto simp: is_audio_def)

lemma forward_audio_shape:
  "forward_audio tb p ct d up quote \<noteq> Inl Build_panic"
  "forward_audio tb p ct d up quote = Inr m \<Longrightarrow> upload_kind_of m = Some MediaAudio \<and> is_audio m
     \<and> message_text m = [] \<and> context_of m = outboundContextInfo quote []"
  using isOggOpus_Some [of d] read_ogg_no_panic [of tb d]
  by (auto simp: forward_audio_def Let_def is_audio_def split: sum.splits if_splits option.splits prod.splits bool.splits)

lemma set_title_Inr:
  "set_title t m = Inr m' \<Longrightarrow> upload_kind_of m = Some MediaDocument \<and> upload_kind_of m' = Some MediaDocument
     \<and> message_text m' = message_text m \<and> context_of m' = context_of m \<and> is_audio m' = is_audio m"
  by (cases m) (auto simp: is_audio_def)

text \<open>The kind a source is uploaded as, for the kinds whose builder does not take it from the caller.\<close>

definition source_kind :: "upload_kind \<Rightarrow> forwardSource option \<Rightarrow> upload_kind" where
  "source_kind k src = (case src of None \<Rightarrow> k | Some s \<Rightarrow>
     if f_mediaType s = ''audio'' then MediaAudio else if f_mediaType s = ''sticker'' then MediaImage else k)"

lemma buildForwardMedia_shape:
  assumes "buildForwardMedia tb asSticker src k ct path d up cap quote ms = Inr (m, tx)"
  shows "message_text m = tx \<and> context_of m = outboundContextInfo quote (if is_audio m then [] else ms)
    \<and> upload_kind_of m = Some (if asSticker then MediaImage else source_kind k src)"
proof (cases "asSticker \<or> src = None")
  case True
  then show ?thesis
    using assms buildOutboundMedia_shape(2) [of tb k ct path d up cap quote ms m tx]
    by (auto simp: buildForwardMedia_def is_audio_def source_kind_def split: option.splits)
next
  case False
  then obtain source p where src: "\<not> asSticker" "src = Some source"
      "forBytes tb (f_mediaType source) d (f_presentation source) = Inr p"
    using assms by (auto simp: buildForwardMedia_def split: sum.splits)
  consider "f_mediaType source = ''audio''" | "f_mediaType source = ''sticker''" "isWebP d"
    | "f_mediaType source = ''sticker''" "\<not> isWebP d" | "f_mediaType source = ''document''"
    | "f_mediaType source \<notin> {''audio'', ''sticker'', ''document''}" by auto
  then show ?thesis
  proof cases
    case 1
    with assms src show ?thesis
      using forward_audio_shape(2) [of tb p ct d up quote m]
      by (auto simp: buildForwardMedia_def source_kind_def split: sum.splits)
  next
    case 2
    with assms src show ?thesis by (auto simp: buildForwardMedia_def source_kind_def is_audio_def)
  next
    case 3
    with assms src show ?thesis
      using buildOutboundMedia_shape(2) [of tb MediaImage ct path d up cap quote ms m tx]
      by (auto simp: buildForwardMedia_def source_kind_def)
  next
    case 4
    obtain name title where nt: "forward_names tb p (f_filename source) = (name, title)" by fastforce
    with assms src 4 obtain m0 where m0: "buildOutboundMedia tb k ct name d up cap quote ms = Inr (m0, tx)"
        "set_title (cleanDisplayName title) m0 = Inr m"
      by (auto simp: buildForwardMedia_def split: sum.splits prod.splits)
    from buildOutboundMedia_shape(2) [OF m0(1)] set_title_Inr [OF m0(2)] src 4 show ?thesis
      by (simp add: source_kind_def)
  next
    case 5
    with assms src show ?thesis
      using buildOutboundMedia_shape(2) [of tb k ct path d up cap quote ms m tx]
      by (auto simp: buildForwardMedia_def source_kind_def)
  qed
qed

lemma forwardMediaType_kind:
  assumes "forwardMediaType tb src cached path d = Inr (k, ct)"
  shows "source_kind k src = k"
proof (cases src)
  case (Some source)
  with assms show ?thesis
    by (auto simp: forwardMediaType_def source_kind_def Let_def split: sum.splits if_splits option.splits prod.splits)
qed (simp add: source_kind_def)

lemma forwardMediaType_source:
  assumes "forwardMediaType tb (Some source) cached path d = Inr (k, ct)"
  shows "f_mediaType source \<in> set media_prefixes \<and> (f_mediaType source = ''document'' \<longrightarrow> k = MediaDocument)
    \<and> (\<forall>p. f_presentation source = Some p \<longrightarrow> p_Hash p = [] \<or> p_Hash p = hex_encode (Sum256 tb d))"
  using assms
  by (auto simp: forwardMediaType_def media_prefixes_def forBytes_def Let_def split: sum.splits if_splits option.splits prod.splits)

lemma forwardMediaType_no_panic: "forwardMediaType tb src cached path d \<noteq> Inl Build_panic"
  using isOggOpus_Some [of d]
  by (auto simp: forwardMediaType_def Let_def split: sum.splits if_splits option.splits prod.splits)

lemma buildForwardMedia_no_panic:
  assumes "\<And>source. src = Some source \<Longrightarrow> f_mediaType source = ''document'' \<Longrightarrow> k = MediaDocument"
  shows "buildForwardMedia tb asSticker src k ct path d up cap quote ms \<noteq> Inl Build_panic"
proof
  assume fail: "buildForwardMedia tb asSticker src k ct path d up cap quote ms = Inl Build_panic"
  then obtain source p where src: "\<not> asSticker" "src = Some source"
      "forBytes tb (f_mediaType source) d (f_presentation source) = Inr p" "f_mediaType source = ''document''"
    using webPAnimated_Some [of d] buildOutboundMedia_shape(1) forward_audio_shape(1)
    by (auto simp: buildForwardMedia_def split: sum.splits if_splits option.splits)
  obtain name title where nt: "forward_names tb p (f_filename source) = (name, title)" by fastforce
  from assms src have "k = MediaDocument" by simp
  then obtain m0 tx where m0: "buildOutboundMedia tb MediaDocument ct name d up cap quote ms = Inr (m0, tx)"
      "set_title (cleanDisplayName title) m0 = Inl Build_panic"
    using fail src nt buildOutboundMedia_shape(1) by (auto simp: buildForwardMedia_def split: sum.splits)
  from buildOutboundMedia_shape(2) [OF m0(1)] have "upload_kind_of m0 = Some MediaDocument" by simp
  from set_title_shape [OF this, of "cleanDisplayName title"] m0(2) show False by auto
qed

definition timed :: "ephemeral_settings \<Rightarrow> bool" where
  "timed e \<longleftrightarrow> e_Expiration e \<noteq> 0 \<and> e_SettingTimestamp e \<noteq> 0"

text \<open>The context a message must show its recipient: the quote, the mentions and the timer of the chat, all
  three together, and none of its own.\<close>

definition carries :: "outboundQuote \<Rightarrow> string list \<Rightarrow> ephemeral_settings \<Rightarrow> context_info option \<Rightarrow> bool" where
  "carries quote ms e c \<longleftrightarrow>
     (case c of
        None \<Rightarrow> q_id quote = [] \<and> ms = [] \<and> \<not> timed e
      | Some ci \<Rightarrow>
          ci_StanzaID ci = (if q_id quote = [] then None else Some (q_id quote))
          \<and> ci_QuotedMessage ci = (if q_id quote = [] then None else
               Some (case q_preview quote of Some q \<Rightarrow> q | None \<Rightarrow> Quoted_text (q_content quote)))
          \<and> ci_MentionedJID ci = ms
          \<and> ci_Expiration ci = (if timed e then Some (e_Expiration e) else None)
          \<and> ci_SettingTimestamp ci = (if timed e then Some (e_SettingTimestamp e) else None)
          \<and> ci_Disappearing ci = timed e)"

lemma applyChatEphemeralSettings_context:
  assumes "context_of m = outboundContextInfo quote ms"
  shows "carries quote ms e (context_of (applyChatEphemeralSettings e m))"
proof -
  have base: "carries quote ms e (outboundContextInfo quote ms)" if "\<not> timed e"
    using that by (auto simp: carries_def outboundContextInfo_def empty_context_def split: option.split)
  have merge: "carries quote ms e (Some (mergeEphemeralContextInfo (outboundContextInfo quote ms) e))" if "timed e"
    using that by (auto simp: carries_def outboundContextInfo_def empty_context_def mergeEphemeralContextInfo_def split: option.split)
  show ?thesis
    using assms base merge by (cases "timed e"; cases m) (simp_all add: applyChatEphemeralSettings_def timed_def)
qed

lemma applyChatEphemeralSettings_keeps:
  "message_text (applyChatEphemeralSettings e m) = message_text m"
  "upload_kind_of (applyChatEphemeralSettings e m) = upload_kind_of m"
  by (cases m; simp add: applyChatEphemeralSettings_def)+

text \<open>Adding the timer twice is adding it once.\<close>

lemma applyChatEphemeralSettings_idem:
  "applyChatEphemeralSettings e (applyChatEphemeralSettings e m) = applyChatEphemeralSettings e m"
  by (cases m) (auto simp: applyChatEphemeralSettings_def mergeEphemeralContextInfo_def split: option.split)

section \<open>Properties\<close>

text \<open>C39. A file is sent as what it was uploaded as. Whether it is a caller's file or the forward of a stored one,
  the body of the message built has the kind the upload was encrypted for (a sticker travels as an image),
  no file makes the builders panic, a forward is one of the five stored kinds, and a presentation bound to a
  hash is used only with the bytes of that hash.\<close>

theorem message_kind_matches_upload:
  assumes "forwardMediaType tb src cached path d = Inr (k, ct)"
  shows "buildForwardMedia tb False src k ct path d up cap quote ms \<noteq> Inl Build_panic
    \<and> (\<forall>m tx. buildForwardMedia tb False src k ct path d up cap quote ms = Inr (m, tx) \<longrightarrow> upload_kind_of m = Some k)
    \<and> (\<forall>s p. src = Some s \<longrightarrow> f_mediaType s \<in> set media_prefixes
         \<and> (f_presentation s = Some p \<longrightarrow> p_Hash p = [] \<or> p_Hash p = hex_encode (Sum256 tb d)))"
proof -
  have "buildForwardMedia tb False src k ct path d up cap quote ms \<noteq> Inl Build_panic"
    using assms forwardMediaType_source by (intro buildForwardMedia_no_panic) blast
  moreover have "upload_kind_of m = Some k" if "buildForwardMedia tb False src k ct path d up cap quote ms = Inr (m, tx)" for m tx
    using buildForwardMedia_shape [OF that] forwardMediaType_kind [OF assms] by simp
  ultimately show ?thesis using assms forwardMediaType_source by blast
qed

definition plain_tables :: media_tables where
  "plain_tables = \<lparr>TypeByExtension = (\<lambda>_. []), DetectContentType = (\<lambda>_. ''image/png''), ParseMediaType = (\<lambda>s. Some (s, [])),
     Sum256 = (\<lambda>d. take 4 d), valid_stamp = (\<lambda>_. True), waveform_of = (\<lambda>_. replicate 64 (CHR 0x20))\<rparr>"

definition sample_upload :: upload_response where
  "sample_upload = \<lparr>u_URL = ''u'', u_DirectPath = ''/d'', u_MediaKey = ''k'', u_FileSHA256 = ''s'', u_FileEncSHA256 = ''e'', u_FileLength = 4\<rparr>"

definition sample_source :: forwardSource where
  "sample_source = \<lparr>f_content = [], f_mediaType = ''document'', f_filename = ''document_20260101_101010_X.pdf'', f_id = ''X'', f_presentation = None\<rparr>"

theorem message_kind_matches_upload_witness:
  "upload_kind_of (DocumentMessage [] ''file'' ''c'' ''application/octet-stream'' sample_upload None) = Some MediaDocument
   \<and> buildForwardMedia plain_tables False (Some sample_source) MediaDocument ''application/octet-stream'' ''/c/x.pdf'' ''data'' sample_upload ''c''
       \<lparr>q_id = [], q_participant = [], q_content = [], q_preview = None\<rparr> []
     = Inr (DocumentMessage [] ''file'' ''c'' ''application/octet-stream'' sample_upload None, ''c'')"
proof -
  have pdf: "lower_string ''pdf'' = ''pdf''" "Ext ''document_20260101_101010_X.pdf'' = ''.pdf''" by code_simp+
  then have ext: "forwardMediaType plain_tables (Some sample_source) False ''/c/x.pdf'' ''data'' = Inr (MediaDocument, ''application/octet-stream'')"
    by (simp add: forwardMediaType_def sample_source_def forBytes_def classifyMediaPath_def plain_tables_def)
  have gen: "generatedMediaName plain_tables ''document_20260101_101010_X.pdf''" by code_simp
  have empty: "outboundFileName [] = ''file''" "cleanDisplayName [] = []"
    by (simp_all add: outboundFileName_def cleanOutboundName_def cleanDisplayName_def boundMediaName_def after_any_def Let_def)
  have "buildForwardMedia plain_tables False (Some sample_source) MediaDocument ''application/octet-stream'' ''/c/x.pdf'' ''data'' sample_upload ''c''
       \<lparr>q_id = [], q_participant = [], q_content = [], q_preview = None\<rparr> []
     = Inr (DocumentMessage [] ''file'' ''c'' ''application/octet-stream'' sample_upload None, ''c'')"
    using gen empty
    by (simp add: buildForwardMedia_def sample_source_def forBytes_def forward_names_def buildOutboundMedia_def buildMediaMessage_def
        is_audio_def outboundContextInfo_def)
  with message_kind_matches_upload [OF ext] show ?thesis by blast
qed

text \<open>A reply is a reply whatever it carries: the message handed to the network, text or media, shows the
  quoted message, the mentions and the disappearing timer of the chat together; only a voice note, which
  has no caption, mentions nobody. And the text that travels is the text the caller is told to store.\<close>

lemma reply_mentions_and_timer_together:
  assumes "buildForwardMedia tb asSticker src k ct path d up cap quote ms = Inr (m, tx)"
  shows "carries quote (if is_audio m then [] else ms) e (context_of (applyChatEphemeralSettings e m))
    \<and> message_text (applyChatEphemeralSettings e m) = tx
    \<and> carries quote ms e (context_of (applyChatEphemeralSettings e (buildOutboundTextWithQuote body quote ms)))
    \<and> message_text (applyChatEphemeralSettings e (buildOutboundTextWithQuote body quote ms)) = body"
proof -
  have t: "context_of (buildOutboundTextWithQuote body quote ms) = outboundContextInfo quote ms"
    "message_text (buildOutboundTextWithQuote body quote ms) = body"
    by (simp_all add: buildOutboundTextWithQuote_def split: option.split)
  show ?thesis
    using buildForwardMedia_shape [OF assms] applyChatEphemeralSettings_context t applyChatEphemeralSettings_keeps(1) by simp
qed

theorem reply_mentions_and_timer_together_witness:
  "carries \<lparr>q_id = ''Q'', q_participant = [], q_content = ''hi'', q_preview = None\<rparr> [''a@lid''] \<lparr>e_Expiration = 86400, e_SettingTimestamp = 7\<rparr>
     (context_of (applyChatEphemeralSettings \<lparr>e_Expiration = 86400, e_SettingTimestamp = 7\<rparr>
        (ImageMessage ''cap'' ''image/png'' sample_upload
          (outboundContextInfo \<lparr>q_id = ''Q'', q_participant = [], q_content = ''hi'', q_preview = None\<rparr> [''a@lid'']))))"
proof -
  have "buildForwardMedia plain_tables False None MediaImage ''image/png'' ''/x.png'' ''data'' sample_upload ''cap''
      \<lparr>q_id = ''Q'', q_participant = [], q_content = ''hi'', q_preview = None\<rparr> [''a@lid'']
    = Inr (ImageMessage ''cap'' ''image/png'' sample_upload
        (outboundContextInfo \<lparr>q_id = ''Q'', q_participant = [], q_content = ''hi'', q_preview = None\<rparr> [''a@lid'']), ''cap'')"
    by (simp add: buildForwardMedia_def buildOutboundMedia_def buildMediaMessage_def is_audio_def)
  from reply_mentions_and_timer_together [OF this, of "\<lparr>e_Expiration = 86400, e_SettingTimestamp = 7\<rparr>"] show ?thesis
    by (simp add: is_audio_def)
qed

end
