(* ===== verification/Media_Cache.thy ===== *)
theory Media_Cache
  imports Outbound_Message
begin

text \<open>
  Where a cached media file is (\<^verbatim>\<open>media_cache_path.go\<close>, the names and the write of \<^verbatim>\<open>media.go\<close>, \<^verbatim>\<open>purgeOneUsing\<close> of
  \<^verbatim>\<open>media_purge.go\<close>, \<^verbatim>\<open>parseMediaURI\<close> of \<^verbatim>\<open>media_api.go\<close>). The store directory is a file system of two levels: names
  under the root, which are chat directories, links or something else, and the entries of each directory.
  A directory is an inode, so that a handle keeps meaning the directory it was opened on while names change
  under it: an operation of two system calls takes the store as each of them saw it. The wall clock part of a
  name is the argument \<open>stamp\<close>. Errors other than the absence of a file keep their class, not their wording.
\<close>

section \<open>Names\<close>

definition mediaFileName :: "('t \<Rightarrow> string) \<Rightarrow> string \<Rightarrow> 't \<Rightarrow> string \<Rightarrow> string \<Rightarrow> string" where
  "mediaFileName stamp mediaType timestamp messageID originalName =
     mediaType @ ''_'' @ stamp timestamp @ ''_'' @ messageID @
       (if mediaType = ''image'' then ''.jpg'' else if mediaType = ''video'' then ''.mp4'' else if mediaType = ''audio'' then ''.ogg''
        else if mediaType = ''sticker'' then ''.webp'' else if mediaType = ''document'' then documentExt originalName else [])"

definition legacyMediaFileName :: "('t \<Rightarrow> string) \<Rightarrow> string \<Rightarrow> 't \<Rightarrow> string \<Rightarrow> string" where
  "legacyMediaFileName stamp mediaType timestamp messageID = mediaFileName stamp mediaType timestamp messageID []"

definition mediaFileNames :: "('t \<Rightarrow> string) \<Rightarrow> string \<Rightarrow> 't \<Rightarrow> string \<Rightarrow> string \<Rightarrow> string list" where
  "mediaFileNames stamp mediaType timestamp messageID originalName =
     [mediaFileName stamp mediaType timestamp messageID originalName, legacyMediaFileName stamp mediaType timestamp messageID]"

definition chatMediaRel :: "string \<Rightarrow> string" where
  "chatMediaRel chatJID = map (\<lambda>c. if c = CHR '':'' then CHR ''_'' else c) chatJID"

definition plain_component :: "string \<Rightarrow> bool" where
  "plain_component name \<longleftrightarrow> name \<noteq> [] \<and> name \<noteq> ''.'' \<and> \<not> sublist ''..'' name \<and> CHR ''/'' \<notin> set name \<and> CHR 0x5C \<notin> set name
     \<and> \<not> list_ex (\<lambda>r. IsControl (code_point r)) (runes name)"

text \<open>\<^verbatim>\<open>checkMediaPathComponents\<close>: true when it returns no error.\<close>

definition checkMediaPathComponents :: "string \<Rightarrow> string \<Rightarrow> bool" where
  "checkMediaPathComponents chatDir filename \<longleftrightarrow>
     \<not> suffix ''.part'' filename \<and> plain_component chatDir \<and> plain_component filename"

record url_parts =
  ur_Scheme :: string
  ur_Host :: string
  ur_Path :: string
  ur_bare :: bool

text \<open>\<open>url\<close> is \<^verbatim>\<open>url.Parse\<close>; \<^const>\<open>ur_bare\<close> says there is no query, fragment and user.\<close>

definition parseMediaURI :: "(string \<Rightarrow> url_parts option) \<Rightarrow> string \<Rightarrow> (string \<times> string) option" where
  "parseMediaURI url raw =
     (case url raw of
        None \<Rightarrow> None
      | Some u \<Rightarrow>
          if ur_Scheme u \<noteq> ''whatsapp'' \<or> ur_Host u \<noteq> ''media'' \<or> \<not> ur_bare u then None
          else case Split CHR ''/'' (if prefix ''/'' (ur_Path u) then tl (ur_Path u) else ur_Path u) of
                 [chat, mid] \<Rightarrow> if checkMediaPathComponents (chatMediaRel chat) mid then Some (chat, mid) else None
               | _ \<Rightarrow> None)"

section \<open>The store directory\<close>

datatype leaf = Regular nat | Link_leaf | Other_leaf

datatype root_entry = Chat_dir nat | Link_to string | Not_dir

record media_store =
  ms_root :: "string \<rightharpoonup> root_entry"
  ms_dirs :: "nat \<Rightarrow> string \<rightharpoonup> leaf"

datatype cache_error = Absent | Bad_components | Dir_not_real | Dir_changed | Not_regular

definition requireChatMediaDir :: "media_store \<Rightarrow> string \<Rightarrow> cache_error + nat" where
  "requireChatMediaDir s chatDir =
     (case ms_root s chatDir of
        None \<Rightarrow> Inl Absent
      | Some (Chat_dir i) \<Rightarrow> Inr i
      | Some _ \<Rightarrow> Inl Dir_not_real)"

text \<open>\<^verbatim>\<open>OpenRoot\<close> follows a link that stays inside the store.\<close>

definition OpenRoot :: "media_store \<Rightarrow> string \<Rightarrow> nat option" where
  "OpenRoot s name =
     (case ms_root s name of
        Some (Chat_dir i) \<Rightarrow> Some i
      | Some (Link_to t) \<Rightarrow> (case ms_root s t of Some (Chat_dir i) \<Rightarrow> Some i | _ \<Rightarrow> None)
      | _ \<Rightarrow> None)"

text \<open>\<open>s1\<close> is the store at the check and \<open>s2\<close> at the open.\<close>

definition openChatMediaDir :: "media_store \<Rightarrow> media_store \<Rightarrow> string \<Rightarrow> cache_error + nat" where
  "openChatMediaDir s1 s2 chatDir =
     (case requireChatMediaDir s1 chatDir of
        Inl e \<Rightarrow> Inl e
      | Inr seen \<Rightarrow>
          (case OpenRoot s2 chatDir of
             None \<Rightarrow> Inl Dir_not_real
           | Some pinned \<Rightarrow> if seen \<noteq> pinned then Inl Dir_changed else Inr pinned))"

definition statCachedMedia :: "media_store \<Rightarrow> nat \<Rightarrow> string \<Rightarrow> cache_error + nat" where
  "statCachedMedia s dir name =
     (case ms_dirs s dir name of
        None \<Rightarrow> Inl Absent
      | Some (Regular n) \<Rightarrow> Inr n
      | Some _ \<Rightarrow> Inl Not_regular)"

record cachedMedia =
  cm_dir :: nat
  cm_name :: string
  cm_size :: nat

fun find_in_dir :: "media_store \<Rightarrow> nat \<Rightarrow> string list \<Rightarrow> string \<Rightarrow> cache_error option \<Rightarrow> cachedMedia option \<times> cache_error option" where
  "find_in_dir s dir [] previous refused = (None, refused)"
| "find_in_dir s dir (name # names) previous refused =
     (if name = previous then find_in_dir s dir names previous refused
      else case statCachedMedia s dir name of
             Inr n \<Rightarrow> (Some \<lparr>cm_dir = dir, cm_name = name, cm_size = n\<rparr>, None)
           | Inl e \<Rightarrow> find_in_dir s dir names name (if e = Absent then refused else Some e))"

definition findCachedMediaInDir :: "media_store \<Rightarrow> nat \<Rightarrow> string list \<Rightarrow> cachedMedia option \<times> cache_error option" where
  "findCachedMediaInDir s dir names = find_in_dir s dir names [] None"

text \<open>The store at the check, at the open and at the look into the directory.\<close>

definition findCachedMedia :: "media_store \<Rightarrow> media_store \<Rightarrow> media_store \<Rightarrow> string \<Rightarrow> string list
    \<Rightarrow> cachedMedia option \<times> cache_error option" where
  "findCachedMedia s1 s2 s3 chatDir names =
     (if \<not> list_all (checkMediaPathComponents chatDir) names then (None, Some Bad_components)
      else case openChatMediaDir s1 s2 chatDir of
             Inl Absent \<Rightarrow> (None, None)
           | Inl e \<Rightarrow> (None, Some e)
           | Inr dir \<Rightarrow> findCachedMediaInDir s3 dir names)"

text \<open>The finder keeps the directory of one chat open between rows.\<close>

type_synonym media_finder = "(string \<times> nat) option"

definition finder_find :: "media_store \<Rightarrow> media_store \<Rightarrow> media_store \<Rightarrow> media_finder \<Rightarrow> string \<Rightarrow> string list
    \<Rightarrow> (cachedMedia option \<times> cache_error option) \<times> media_finder" where
  "finder_find s1 s2 s3 f chat names =
     (if \<not> list_all (checkMediaPathComponents chat) names then ((None, Some Bad_components), f)
      else case f of
             Some (kept, dir) \<Rightarrow>
               if kept = chat then (findCachedMediaInDir s3 dir names, f)
               else (case openChatMediaDir s1 s2 chat of
                       Inl Absent \<Rightarrow> ((None, None), None)
                     | Inl e \<Rightarrow> ((None, Some e), None)
                     | Inr i \<Rightarrow> (findCachedMediaInDir s3 i names, Some (chat, i)))
           | None \<Rightarrow>
               (case openChatMediaDir s1 s2 chat of
                  Inl Absent \<Rightarrow> ((None, None), None)
                | Inl e \<Rightarrow> ((None, Some e), None)
                | Inr i \<Rightarrow> (findCachedMediaInDir s3 i names, Some (chat, i))))"

definition cachedMediaPath :: "('t \<Rightarrow> string) \<Rightarrow> media_store \<Rightarrow> media_store \<Rightarrow> media_store \<Rightarrow> string \<Rightarrow> string \<Rightarrow> 't \<Rightarrow> string \<Rightarrow> string
    \<Rightarrow> string \<times> cache_error option" where
  "cachedMediaPath stamp s1 s2 s3 chatDir mediaType timestamp messageID originalName =
     (case findCachedMedia s1 s2 s3 chatDir (mediaFileNames stamp mediaType timestamp messageID originalName) of
        (None, e) \<Rightarrow> ([], e)
      | (Some found, _) \<Rightarrow> (JoinPath [chatDir, cm_name found], None))"

definition Remove_cached :: "cachedMedia \<Rightarrow> media_store \<Rightarrow> media_store" where
  "Remove_cached c s = s\<lparr>ms_dirs := (ms_dirs s)(cm_dir c := (ms_dirs s (cm_dir c))(cm_name c := None))\<rparr>"

text \<open>\<^verbatim>\<open>eachCachedMediaContext\<close>: the names of the root and of a directory come in the order they are read; a
  directory that is not a chat's is not entered.\<close>

definition isChatDir :: "media_store \<Rightarrow> string \<Rightarrow> bool" where
  "isChatDir s name \<longleftrightarrow> (case ms_root s name of Some (Chat_dir _) \<Rightarrow> CHR ''@'' \<in> set name | _ \<Rightarrow> False)"

definition each_in_dir :: "media_tables \<Rightarrow> media_store \<Rightarrow> (nat \<Rightarrow> string list) \<Rightarrow> string \<Rightarrow> nat \<Rightarrow> (string \<times> cachedMedia) list" where
  "each_in_dir tb s entries chat dir =
     concat (map (\<lambda>name. if \<not> checkMediaPathComponents chat name \<or> \<not> generatedMediaName tb name then []
        else case statCachedMedia s dir name of
               Inr n \<Rightarrow> [(chat, \<lparr>cm_dir = dir, cm_name = name, cm_size = n\<rparr>)]
             | Inl _ \<Rightarrow> []) (entries dir))"

definition eachCachedMedia :: "media_tables \<Rightarrow> media_store \<Rightarrow> (nat \<Rightarrow> string list) \<Rightarrow> string list \<Rightarrow> (string \<times> cachedMedia) list" where
  "eachCachedMedia tb s entries names =
     concat (map (\<lambda>chat. if \<not> isChatDir s chat \<or> \<not> checkMediaPathComponents chat ''probe'' then []
        else case openChatMediaDir s s chat of Inl _ \<Rightarrow> [] | Inr dir \<Rightarrow> each_in_dir tb s entries chat dir) names)"

section \<open>Writing a file\<close>

datatype write_outcome = Written nat | Fill_failed | Create_failed | Close_failed | Rename_failed

text \<open>\<^verbatim>\<open>writeMediaFile\<close> in a directory: what is under the temporary name goes first, the bytes land in a file this
  call created, and the rename puts it in place. The flags say which system call failed, if one did.\<close>

definition writeMediaFile :: "nat \<Rightarrow> string \<Rightarrow> bool \<Rightarrow> nat option \<Rightarrow> bool \<Rightarrow> bool \<Rightarrow> bool \<Rightarrow> media_store \<Rightarrow> write_outcome \<times> media_store" where
  "writeMediaFile dir name created filled closed_ok statted renamed s =
     (let put = (\<lambda>n v st. st\<lparr>ms_dirs := (ms_dirs st)(dir := (ms_dirs st dir)(n := v))\<rparr>);
          tmp = name @ ''.part'';
          s0 = put tmp None s
      in if \<not> created then (Create_failed, s0)
         else case filled of
                None \<Rightarrow> (Fill_failed, s0)
              | Some n \<Rightarrow>
                  if \<not> closed_ok then (Close_failed, s0)
                  else if \<not> renamed then (Rename_failed, s0)
                  else (Written (if statted then n else 0), put name (Some (Regular n)) s0))"

section \<open>Purging one row\<close>

record 't mediaRow =
  mr_ID :: string
  mr_ChatJID :: string
  mr_MediaType :: string
  mr_Timestamp :: 't
  mr_Filename :: string

datatype purge_reason = Purge_ok | Not_media | Path_outside_store | Not_resolvable | Not_cached | Remove_failed

record purge_result =
  pr_MessageID :: string
  pr_ChatJID :: string
  pr_Purged :: bool
  pr_Bytes :: nat
  pr_File :: string
  pr_Reason :: purge_reason

definition purge_answer :: "'t mediaRow \<Rightarrow> purge_reason \<Rightarrow> purge_result" where
  "purge_answer row reason = \<lparr>pr_MessageID = mr_ID row, pr_ChatJID = mr_ChatJID row, pr_Purged = False, pr_Bytes = 0, pr_File = [], pr_Reason = reason\<rparr>"

text \<open>\<open>removable\<close> is whether the unlink goes through.\<close>

definition purgeOneUsing :: "('t \<Rightarrow> string) \<Rightarrow> media_store \<Rightarrow> media_store \<Rightarrow> bool \<Rightarrow> 't mediaRow \<Rightarrow> bool \<Rightarrow> media_finder \<Rightarrow> media_store
    \<Rightarrow> purge_result \<times> media_finder \<times> media_store" where
  "purgeOneUsing stamp s1 s2 removable row dryRun f s =
     (if mr_MediaType row = [] \<or> mr_MediaType row = ''reaction'' \<or> mr_MediaType row = ''poll_vote'' then (purge_answer row Not_media, f, s)
      else case finder_find s1 s2 s f (chatMediaRel (mr_ChatJID row))
                  (mediaFileNames stamp (mr_MediaType row) (mr_Timestamp row) (mr_ID row) (mr_Filename row)) of
             ((None, refused), f') \<Rightarrow>
               (purge_answer row (case refused of Some Bad_components \<Rightarrow> Path_outside_store | Some _ \<Rightarrow> Not_resolvable | None \<Rightarrow> Not_cached), f', s)
           | ((Some found, _), f') \<Rightarrow>
               let res = (purge_answer row Purge_ok)\<lparr>pr_Bytes := cm_size found, pr_File := cm_name found\<rparr>
               in if dryRun then (res\<lparr>pr_Purged := True\<rparr>, f', s)
                  else if \<not> removable then (res\<lparr>pr_Reason := Remove_failed, pr_Bytes := 0\<rparr>, f', s)
                  else (res\<lparr>pr_Purged := True\<rparr>, f', Remove_cached found s))"

section \<open>Lemmas\<close>

lemma openChatMediaDir_Inr:
  "openChatMediaDir s1 s2 chat = Inr i \<Longrightarrow> ms_root s1 chat = Some (Chat_dir i) \<and> OpenRoot s2 chat = Some i"
  by (auto simp: openChatMediaDir_def requireChatMediaDir_def split: sum.splits option.splits root_entry.splits if_splits)

lemma find_in_dir_Some:
  "find_in_dir s dir names previous refused = (Some c, e) \<Longrightarrow>
     cm_dir c = dir \<and> cm_name c \<in> set names \<and> ms_dirs s dir (cm_name c) = Some (Regular (cm_size c))"
  by (induction names arbitrary: previous refused)
    (auto simp: statCachedMedia_def split: if_splits sum.splits option.splits leaf.splits)

lemma findCachedMedia_Some:
  assumes "findCachedMedia s1 s2 s3 chat names = (Some c, e)"
  shows "list_all (checkMediaPathComponents chat) names \<and> ms_root s1 chat = Some (Chat_dir (cm_dir c)) \<and> cm_name c \<in> set names
    \<and> ms_dirs s3 (cm_dir c) (cm_name c) = Some (Regular (cm_size c))"
proof -
  from assms obtain i where "list_all (checkMediaPathComponents chat) names" "openChatMediaDir s1 s2 chat = Inr i"
      "findCachedMediaInDir s3 i names = (Some c, e)"
    by (auto simp: findCachedMedia_def split: if_splits sum.splits cache_error.splits)
  with openChatMediaDir_Inr [of s1 s2 chat i] find_in_dir_Some [of s3 i names "[]" None c e] show ?thesis
    by (auto simp: findCachedMediaInDir_def)
qed

text \<open>\<open>opened\<close> collects the pairs of a chat and a directory that a check has seen as a real directory.\<close>

definition finder_ok :: "(string \<times> nat) set \<Rightarrow> media_finder \<Rightarrow> bool" where
  "finder_ok opened f \<longleftrightarrow> (case f of None \<Rightarrow> True | Some p \<Rightarrow> p \<in> opened)"

definition real_dirs :: "media_store \<Rightarrow> (string \<times> nat) set" where
  "real_dirs s = {(c, i). ms_root s c = Some (Chat_dir i)}"

lemma finder_find_ok:
  assumes "finder_find s1 s2 s3 f chat names = (r, f')" "finder_ok opened f"
  shows "finder_ok (opened \<union> real_dirs s1) f'
    \<and> (\<forall>c e. r = (Some c, e) \<longrightarrow> (chat, cm_dir c) \<in> opened \<union> real_dirs s1 \<and> cm_name c \<in> set names
         \<and> checkMediaPathComponents chat (cm_name c) \<and> ms_dirs s3 (cm_dir c) (cm_name c) = Some (Regular (cm_size c)))"
proof -
  have dir: "(chat, i) \<in> real_dirs s1" if "openChatMediaDir s1 s2 chat = Inr i" for i
    using openChatMediaDir_Inr [OF that] by (simp add: real_dirs_def)
  have hit: "cm_dir c = i \<and> cm_name c \<in> set names \<and> ms_dirs s3 i (cm_name c) = Some (Regular (cm_size c))"
    if "findCachedMediaInDir s3 i names = (Some c, e)" for i c e
    using find_in_dir_Some that by (simp add: findCachedMediaInDir_def)
  show ?thesis
  proof (cases "list_all (checkMediaPathComponents chat) names")
    case False
    with assms show ?thesis by (auto simp: finder_find_def finder_ok_def split: option.splits)
  next
    case True
    then have ok: "checkMediaPathComponents chat n" if "n \<in> set names" for n using that by (simp add: list_all_iff)
    have fresh: ?thesis if "(case openChatMediaDir s1 s2 chat of Inl Absent \<Rightarrow> ((None, None), None) | Inl e \<Rightarrow> ((None, Some e), None)
        | Inr i \<Rightarrow> (findCachedMediaInDir s3 i names, Some (chat, i))) = (r, f')"
      using that dir hit ok by (fastforce simp: finder_ok_def split: sum.splits cache_error.splits)
    show ?thesis
    proof (cases f)
      case None
      with True assms(1) show ?thesis by (intro fresh) (simp add: finder_find_def)
    next
      case (Some p)
      obtain kept d where p: "p = (kept, d)" by (cases p)
      show ?thesis
      proof (cases "kept = chat")
        case True
        with \<open>list_all _ names\<close> assms Some p hit ok show ?thesis by (fastforce simp: finder_find_def finder_ok_def)
      next
        case False
        with True Some p assms(1) show ?thesis by (intro fresh) (simp add: finder_find_def)
      qed
    qed
  qed
qed

lemma plain_not_part: "checkMediaPathComponents chat name \<Longrightarrow> name \<noteq> other @ ''.part''"
  by (auto simp: checkMediaPathComponents_def suffix_def)

lemma writeMediaFile_entry:
  assumes "writeMediaFile dir name cr fi cl st re s = (out, s')"
  shows "ms_root s' = ms_root s \<and> (\<forall>d n. (d, n) \<notin> {(dir, name), (dir, name @ ''.part'')} \<longrightarrow> ms_dirs s' d n = ms_dirs s d n)
    \<and> ms_dirs s' dir (name @ ''.part'') = None
    \<and> (case out of Written _ \<Rightarrow> \<exists>n. fi = Some n \<and> ms_dirs s' dir name = Some (Regular n) | _ \<Rightarrow> ms_dirs s' dir name = ms_dirs s dir name)"
  using assms by (auto simp: writeMediaFile_def Let_def split: if_splits option.splits)

lemma purge_effect:
  assumes "finder_ok opened f" "purgeOneUsing stamp s1 s2 removable row dry f s = (res, f', s')"
  shows "finder_ok (opened \<union> real_dirs s1) f' \<and> ms_root s' = ms_root s \<and> (dry \<longrightarrow> s' = s) \<and> (\<not> pr_Purged res \<longrightarrow> s' = s)"
    and "ms_dirs s' d n \<noteq> ms_dirs s d n \<Longrightarrow> (chatMediaRel (mr_ChatJID row), d) \<in> opened \<union> real_dirs s1
      \<and> n \<in> set (mediaFileNames stamp (mr_MediaType row) (mr_Timestamp row) (mr_ID row) (mr_Filename row))
      \<and> ms_dirs s d n = Some (Regular (pr_Bytes res))"
proof -
  let ?names = "mediaFileNames stamp (mr_MediaType row) (mr_Timestamp row) (mr_ID row) (mr_Filename row)"
  obtain r g where fg: "finder_find s1 s2 s f (chatMediaRel (mr_ChatJID row)) ?names = (r, g)" by fastforce
  note fok = finder_find_ok [OF fg assms(1)]
  have "finder_ok (opened \<union> real_dirs s1) f"
    using assms(1) by (auto simp: finder_ok_def split: option.splits)
  with assms(2) fg fok show "finder_ok (opened \<union> real_dirs s1) f' \<and> ms_root s' = ms_root s \<and> (dry \<longrightarrow> s' = s) \<and> (\<not> pr_Purged res \<longrightarrow> s' = s)"
    by (auto simp: purgeOneUsing_def Let_def purge_answer_def Remove_cached_def split: if_splits prod.splits option.splits)
  show "(chatMediaRel (mr_ChatJID row), d) \<in> opened \<union> real_dirs s1 \<and> n \<in> set ?names \<and> ms_dirs s d n = Some (Regular (pr_Bytes res))"
    if "ms_dirs s' d n \<noteq> ms_dirs s d n"
  proof -
    from assms(2) fg that obtain c e where c: "r = (Some c, e)" "s' = Remove_cached c s" "pr_Bytes res = cm_size c"
      by (auto simp: purgeOneUsing_def Let_def split: if_splits prod.splits option.splits)
    with that have "d = cm_dir c" "n = cm_name c" by (auto simp: Remove_cached_def split: if_splits)
    with c fok show ?thesis by auto
  qed
qed

lemma purge_dry_run:
  "removable \<Longrightarrow> fst (purgeOneUsing stamp s1 s2 removable row True f s) = fst (purgeOneUsing stamp s1 s2 removable row False f s)"
  by (auto simp: purgeOneUsing_def Let_def split: prod.splits option.splits)

section \<open>Properties\<close>

text \<open>C23. No cached file is reached through a link. A file found for a chat is a regular file under one of the
  plain names asked for, in the directory that carried the chat's own name at the check and that is no
  link; removing it afterwards takes away that entry of that directory and nothing else, also when the
  names under the store root have been swapped in between.\<close>

theorem cached_media_never_through_link:
  assumes "findCachedMedia s1 s2 s3 chat names = (Some c, e)"
  shows "ms_root s1 chat = Some (Chat_dir (cm_dir c)) \<and> cm_name c \<in> set names \<and> checkMediaPathComponents chat (cm_name c)
    \<and> ms_dirs s3 (cm_dir c) (cm_name c) = Some (Regular (cm_size c))
    \<and> ms_root (Remove_cached c s4) = ms_root s4 \<and> ms_dirs (Remove_cached c s4) (cm_dir c) (cm_name c) = None
    \<and> (\<forall>d n. (d, n) \<noteq> (cm_dir c, cm_name c) \<longrightarrow> ms_dirs (Remove_cached c s4) d n = ms_dirs s4 d n)"
  using findCachedMedia_Some [OF assms] by (auto simp: Remove_cached_def list_all_iff)

definition sample_store :: media_store where
  "sample_store = \<lparr>ms_root = [''1@g.us'' \<mapsto> Chat_dir 1, ''2@g.us'' \<mapsto> Link_to ''1@g.us''], ms_dirs = (\<lambda>d. if d = 1 then [''a'' \<mapsto> Regular 5, ''b'' \<mapsto> Link_leaf] else Map.empty)\<rparr>"

lemma plain_sample: "plain_component ''1@g.us'' \<and> plain_component ''2@g.us'' \<and> plain_component ''a'' \<and> plain_component ''b''"
proof -
  have "\<not> sublist ''..'' ''1@g.us''" "\<not> sublist ''..'' ''2@g.us''" "\<not> sublist ''..'' ''a''" "\<not> sublist ''..'' ''b''" by code_simp+
  then show ?thesis
    by (simp add: plain_component_def runes_ascii_Cons byte_def code_point_def IsControl_def)
qed

lemma sample_names: "checkMediaPathComponents ''1@g.us'' ''a'' \<and> checkMediaPathComponents ''2@g.us'' ''a'' \<and> checkMediaPathComponents ''1@g.us'' ''b''"
  using plain_sample by (auto simp: checkMediaPathComponents_def suffix_def append_eq_Cons_conv)

theorem cached_media_never_through_link_witness:
  "findCachedMedia sample_store sample_store sample_store ''1@g.us'' [''b'', ''a''] = (Some \<lparr>cm_dir = 1, cm_name = ''a'', cm_size = 5\<rparr>, None)
   \<and> fst (findCachedMedia sample_store sample_store sample_store ''2@g.us'' [''a'']) = None
   \<and> ms_dirs (Remove_cached \<lparr>cm_dir = 1, cm_name = ''a'', cm_size = 5\<rparr> sample_store) 1 ''a'' = None"
proof -
  have f: "findCachedMedia sample_store sample_store sample_store ''1@g.us'' [''b'', ''a''] = (Some \<lparr>cm_dir = 1, cm_name = ''a'', cm_size = 5\<rparr>, None)"
    using sample_names
    by (simp add: findCachedMedia_def sample_store_def openChatMediaDir_def requireChatMediaDir_def OpenRoot_def findCachedMediaInDir_def statCachedMedia_def)
  have "fst (findCachedMedia sample_store sample_store sample_store ''2@g.us'' [''a'']) = None"
    using sample_names by (simp add: findCachedMedia_def sample_store_def openChatMediaDir_def requireChatMediaDir_def)
  with f cached_media_never_through_link [OF f, of sample_store] show ?thesis by simp
qed

text \<open>A download is there at once or not at all. Writing the file of a row leaves every other file alone and
  never leaves a temporary one behind; on every failure the old file is still in place; and after a success
  the lookup of the same row finds the file just written, under the name the download chose.\<close>

lemma download_atomic_and_found:
  assumes "name = mediaFileName stamp kind ts mid original" "writeMediaFile dir name cr fi cl st re s = (out, s')"
    and "ms_root s chat = Some (Chat_dir dir)" "list_all (checkMediaPathComponents chat) (mediaFileNames stamp kind ts mid original)"
  shows "(\<forall>d n. (d, n) \<notin> {(dir, name), (dir, name @ ''.part'')} \<longrightarrow> ms_dirs s' d n = ms_dirs s d n)
    \<and> ms_dirs s' dir (name @ ''.part'') = None
    \<and> (case out of
         Written _ \<Rightarrow> cachedMediaPath stamp s' s' s' chat kind ts mid original = (JoinPath [chat, name], None)
       | _ \<Rightarrow> ms_dirs s' dir name = ms_dirs s dir name)"
proof -
  note w = writeMediaFile_entry [OF assms(2)]
  have "cachedMediaPath stamp s' s' s' chat kind ts mid original = (JoinPath [chat, name], None)" if "out = Written k" for k
  proof -
    from w that obtain n where "ms_dirs s' dir name = Some (Regular n)" "ms_root s' chat = Some (Chat_dir dir)"
      using assms(3) by auto
    moreover have "name \<noteq> []" using assms(1) by (simp add: mediaFileName_def)
    ultimately show ?thesis
      using assms(1,4)
      by (simp add: cachedMediaPath_def findCachedMedia_def openChatMediaDir_def requireChatMediaDir_def OpenRoot_def
          findCachedMediaInDir_def mediaFileNames_def statCachedMedia_def)
  qed
  with w show ?thesis by (auto split: write_outcome.splits)
qed

definition sample_stamp :: "nat \<Rightarrow> string" where "sample_stamp t = ''S''"

definition photo_name :: string where "photo_name = ''image_S_A.jpg''"

lemma photo_names: "mediaFileNames sample_stamp ''image'' 0 ''A'' [] = [photo_name, photo_name]"
  by (simp add: mediaFileNames_def legacyMediaFileName_def mediaFileName_def sample_stamp_def photo_name_def)

lemma photo_ok: "checkMediaPathComponents ''1@g.us'' photo_name"
proof -
  have "\<not> sublist ''..'' photo_name" "\<not> suffix ''.part'' photo_name" by code_simp+
  moreover have "\<not> list_ex (\<lambda>r. IsControl (code_point r)) (runes photo_name)"
    by (simp add: photo_name_def runes_ascii_Cons byte_def code_point_def IsControl_def)
  ultimately show ?thesis
    using plain_sample by (simp add: checkMediaPathComponents_def plain_component_def photo_name_def)
qed

theorem download_atomic_and_found_witness:
  "cachedMediaPath sample_stamp (snd (writeMediaFile 1 photo_name True (Some 9) True True True sample_store))
     (snd (writeMediaFile 1 photo_name True (Some 9) True True True sample_store))
     (snd (writeMediaFile 1 photo_name True (Some 9) True True True sample_store)) ''1@g.us'' ''image'' 0 ''A'' []
   = (JoinPath [''1@g.us'', photo_name], None)"
proof -
  obtain s' where w: "writeMediaFile 1 photo_name True (Some 9) True True True sample_store = (Written 9, s')"
    by (simp add: writeMediaFile_def)
  have n: "photo_name = mediaFileName sample_stamp ''image'' 0 ''A'' []"
    using photo_names by (simp add: mediaFileNames_def)
  have "ms_root sample_store ''1@g.us'' = Some (Chat_dir 1)" by (simp add: sample_store_def)
  from download_atomic_and_found [OF n w this] photo_names photo_ok w show ?thesis by simp
qed

text \<open>A purge removes the file of the row it was asked for and no other. Whatever the store looked like at
  each step and whichever directory the finder kept open, a call changes at most one entry: a regular file
  under one of the row's own names in a directory that had the chat's name when it was opened. A dry run
  changes nothing and reports what the real call would remove.\<close>

lemma purge_touches_only_its_row:
  assumes "finder_ok opened f" "purgeOneUsing stamp s1 s2 removable row dry f s = (res, f', s')"
  shows "finder_ok (opened \<union> real_dirs s1) f' \<and> ms_root s' = ms_root s \<and> (dry \<longrightarrow> s' = s) \<and> (\<not> pr_Purged res \<longrightarrow> s' = s)
    \<and> (\<forall>d n. ms_dirs s' d n \<noteq> ms_dirs s d n \<longrightarrow>
         (chatMediaRel (mr_ChatJID row), d) \<in> opened \<union> real_dirs s1
         \<and> n \<in> set (mediaFileNames stamp (mr_MediaType row) (mr_Timestamp row) (mr_ID row) (mr_Filename row))
         \<and> ms_dirs s d n = Some (Regular (pr_Bytes res)))
    \<and> (removable \<longrightarrow> fst (purgeOneUsing stamp s1 s2 removable row True f s) = fst (purgeOneUsing stamp s1 s2 removable row False f s))"
  using purge_effect [OF assms] purge_dry_run by blast

definition photo_store :: media_store where
  "photo_store = \<lparr>ms_root = [''1@g.us'' \<mapsto> Chat_dir 1], ms_dirs = (\<lambda>d. if d = 1 then [photo_name \<mapsto> Regular 9] else Map.empty)\<rparr>"

definition photo_row :: "nat mediaRow" where
  "photo_row = \<lparr>mr_ID = ''A'', mr_ChatJID = ''1@g.us'', mr_MediaType = ''image'', mr_Timestamp = 0, mr_Filename = []\<rparr>"

theorem purge_touches_only_its_row_witness:
  "purgeOneUsing sample_stamp photo_store photo_store True photo_row False None photo_store
     = (\<lparr>pr_MessageID = ''A'', pr_ChatJID = ''1@g.us'', pr_Purged = True, pr_Bytes = 9, pr_File = photo_name, pr_Reason = Purge_ok\<rparr>,
        Some (''1@g.us'', 1), Remove_cached \<lparr>cm_dir = 1, cm_name = photo_name, cm_size = 9\<rparr> photo_store)
   \<and> finder_ok ({} \<union> real_dirs photo_store) (Some (''1@g.us'', 1))"
proof -
  have "photo_name \<noteq> []" by (simp add: photo_name_def)
  then have p: "purgeOneUsing sample_stamp photo_store photo_store True photo_row False None photo_store
     = (\<lparr>pr_MessageID = ''A'', pr_ChatJID = ''1@g.us'', pr_Purged = True, pr_Bytes = 9, pr_File = photo_name, pr_Reason = Purge_ok\<rparr>,
        Some (''1@g.us'', 1), Remove_cached \<lparr>cm_dir = 1, cm_name = photo_name, cm_size = 9\<rparr> photo_store)"
    using photo_names photo_ok
    by (simp add: purgeOneUsing_def photo_row_def finder_find_def photo_store_def openChatMediaDir_def requireChatMediaDir_def OpenRoot_def
        findCachedMediaInDir_def statCachedMedia_def purge_answer_def chatMediaRel_def)
  have "finder_ok {} None" by (simp add: finder_ok_def)
  from purge_touches_only_its_row [OF this p] p show ?thesis by blast
qed

end
