(* ===== verification/Media_Quota.thy ===== *)
theory Media_Quota
  imports Env_Config Work_Queues "HOL-Library.Word" "HOL-Library.Product_Lexorder" "HOL-Library.List_Lexorder"
begin

text \<open>
  The quota of the automatic media cache (\<^verbatim>\<open>media_quota.go\<close>) on local storage, its warning
  (\<^verbatim>\<open>media_quota_warning.go\<close>) and the byte cap of one transfer (\<^verbatim>\<open>media_cap.go\<close>). Byte counts are
  the 64-bit unsigned integers of the source, with its wrap-around; a file's length is the signed
  integer \<^verbatim>\<open>Stat\<close> reports. An admission snapshots the reservations, walks the cache, evicts and
  reserves; the transfers it does not control publish and finish at any moment in between, so the
  interleaving is a step relation. The walk's order, the failures of a removal, the moment a context
  ends and the settings an admission reads are arguments. Log lines and metrics rendered as text are
  left out.
\<close>

section \<open>Settings\<close>

definition mediaQuotaEnv :: string where "mediaQuotaEnv = ''WHATSAPP_MEDIA_QUOTA_BYTES''"
definition mediaEvictTypesEnv :: string where
  "mediaEvictTypesEnv = ''WHATSAPP_MEDIA_QUOTA_EVICT_TYPES''"
definition mediaEvictTargetEnv :: string where
  "mediaEvictTargetEnv = ''WHATSAPP_MEDIA_QUOTA_EVICT_TARGET_PERCENT''"

definition purgeMediaTypes :: "string list" where
  "purgeMediaTypes = [''image'', ''video'', ''audio'', ''document'', ''sticker'']"

datatype media_setting_error = BadQuota string | BadEvictTypes string | BadEvictTarget string

definition parseQuota :: "string \<Rightarrow> media_setting_error + 64 word" where
  "parseQuota raw =
     (if TrimSpace raw = [] then Inr 0
      else case ParseUint 64 (TrimSpace raw) of None \<Rightarrow> Inl (BadQuota raw) | Some n \<Rightarrow> Inr (of_nat n))"

definition parseEvictTypes :: "string \<Rightarrow> media_setting_error + string list" where
  "parseEvictTypes raw =
     (if TrimSpace raw = [] then Inr []
      else let kinds = map TrimSpace (Split CHR '','' raw)
           in if list_all (\<lambda>kind. kind = ''status'' \<or> kind \<in> set purgeMediaTypes) kinds
              then Inr (sort (remdups kinds)) else Inl (BadEvictTypes raw))"

definition parseEvictTarget :: "string \<Rightarrow> media_setting_error + int" where
  "parseEvictTarget raw =
     (if TrimSpace raw = [] then Inr 90
      else case Atoi (TrimSpace raw) of
             None \<Rightarrow> Inl (BadEvictTarget raw)
           | Some n \<Rightarrow> if n < 1 \<or> n > 99 then Inl (BadEvictTarget raw) else Inr n)"

text \<open>The media half of the runtime settings, as \<^verbatim>\<open>applyRuntimeMediaCeilings\<close> narrows them: a value
  the deployment set (\<^verbatim>\<open>Source == "env"\<close>) is a ceiling, the others are left to the runtime.\<close>

record media_settings =
  ms_status :: bool
  ms_quota :: "64 word"
  ms_evict :: "string list"
  ms_target :: int
  ms_auto :: "string list"

record media_deploy =
  md_status :: "bool option"
  md_quota :: "64 word option"
  md_evict :: "string list option"
  md_target :: "int option"
  md_auto :: "string list option"

definition applyRuntimeMediaCeilings :: "media_deploy \<Rightarrow> media_settings \<Rightarrow> media_settings" where
  "applyRuntimeMediaCeilings d s =
     \<lparr>ms_status = (case md_status d of Some False \<Rightarrow> False | _ \<Rightarrow> ms_status s),
      ms_quota = (case md_quota d of
          Some ceiling \<Rightarrow> if ceiling > 0 \<and> (ms_quota s = 0 \<or> ms_quota s > ceiling) then ceiling else ms_quota s
        | None \<Rightarrow> ms_quota s),
      ms_evict = (case md_evict d of Some ks \<Rightarrow> filter (\<lambda>k. k \<in> set ks) (ms_evict s) | None \<Rightarrow> ms_evict s),
      ms_target = (case md_target d of Some t \<Rightarrow> min (ms_target s) t | None \<Rightarrow> ms_target s),
      ms_auto = (case md_auto d of Some ks \<Rightarrow> filter (\<lambda>k. k \<in> set ks) (ms_auto s) | None \<Rightarrow> ms_auto s)\<rparr>"

text \<open>A bridge without runtime settings reads its own fields and the fixed target of 90 percent.
  \<open>settings\<close> is the outcome of reading the snapshot.\<close>

definition mediaQuotaSettings ::
  "(64 word \<times> string list) option \<Rightarrow> 'e + media_settings \<Rightarrow> 'e + 64 word \<times> string list \<times> int" where
  "mediaQuotaSettings fixed settings =
     (case fixed of
        Some (quota, types) \<Rightarrow> Inr (quota, types, 90)
      | None \<Rightarrow> (case settings of Inl e \<Rightarrow> Inl e | Inr s \<Rightarrow> Inr (ms_quota s, ms_evict s, ms_target s)))"

section \<open>Accounting\<close>

definition mediaQuotaLowWater :: "64 word \<Rightarrow> int \<Rightarrow> 64 word" where
  "mediaQuotaLowWater quota target =
     (if target < 1 \<or> target > 99 then 0
      else quota div 100 * of_int target + quota mod 100 * of_int target div 100)"

record reservation =
  rs_id :: nat
  rs_path :: string
  rs_bytes :: "64 word"
  rs_finished :: bool

record cached_file =
  cf_chat :: string
  cf_name :: string
  cf_size :: int
  cf_at :: instant

definition cf_path :: "cached_file \<Rightarrow> string" where
  "cf_path f = cf_chat f @ ''/'' @ cf_name f"

text \<open>The cache is the list of its files in the order the walk meets them.\<close>

record quota_state =
  mq_files :: "cached_file list"
  mq_reservations :: "reservation list"
  mq_needsLowWater :: bool
  mq_lastPause :: int
  mq_refusals :: nat
  mq_evicted :: "string \<Rightarrow> 64 word"
  mq_next :: nat

definition mediaScope :: "string \<Rightarrow> string \<Rightarrow> string" where
  "mediaScope chat name = (if chat = ''status@broadcast'' then ''status'' else before_first CHR ''_'' name)"

definition recordQuotaPause :: "int \<Rightarrow> quota_state \<Rightarrow> quota_state" where
  "recordQuotaPause now s =
     s\<lparr>mq_refusals := mq_refusals s + 1,
       mq_lastPause := (if now - mq_lastPause s \<ge> 60 then now else mq_lastPause s)\<rparr>"

definition recordMediaEviction :: "string \<Rightarrow> 64 word \<Rightarrow> quota_state \<Rightarrow> quota_state" where
  "recordMediaEviction kind bytes s = s\<lparr>mq_evicted := (mq_evicted s)(kind := mq_evicted s kind + bytes)\<rparr>"

definition mediaCachingPaused :: "64 word \<Rightarrow> int \<Rightarrow> string list \<Rightarrow> int \<Rightarrow> quota_state \<Rightarrow> bool" where
  "mediaCachingPaused quota bytes types target s \<longleftrightarrow>
     \<not> (quota = 0 \<or> bytes < 0) \<and>
     (let used = of_int bytes
      in used \<ge> quota
         \<or> (mq_needsLowWater s \<and> types \<noteq> [] \<and> used > mediaQuotaLowWater quota target))"

text \<open>What one admission is asked and what it meets: the caller's cap and destination, whether it may
  wait, and the outcomes of the calls it makes (the lease, the settings, the walk, the removals).
  \<open>ad_ends = Some (n, e)\<close> is a context that ends while the evictions run, after the look at \<open>n\<close>
  candidates at the latest before the final check.\<close>

datatype ctx_err = Canceled | DeadlineExceeded
datatype quota_err = QuotaFull | QuotaBusy | CtxErr ctx_err | InvalidTarget | SettingsUnread | WalkFailed

record admission =
  ad_incoming :: "64 word"
  ad_limit :: "64 word"
  ad_path :: string
  ad_try :: bool
  ad_caller_live :: bool
  ad_lock :: "quota_err option"
  ad_started :: "ctx_err option"
  ad_settings :: "quota_err + 64 word \<times> string list \<times> int"
  ad_walk :: "quota_err option"
  ad_removes :: "string \<Rightarrow> bool"
  ad_ends :: "(nat \<times> ctx_err) option"
  ad_now :: int

text \<open>What the caller gets: its context's cap and whether the quota is what bounds it, and the
  reservation its release finishes. No quota gives neither.\<close>

record grant =
  gr_limit :: "64 word"
  gr_budget :: bool
  gr_reservation :: "nat option"

definition accountingError :: "admission \<Rightarrow> quota_err \<Rightarrow> quota_err" where
  "accountingError a err =
     (if ad_try a \<and> err = CtxErr DeadlineExceeded \<and> ad_caller_live a then QuotaBusy else err)"

text \<open>The snapshot of the reservations: finished ones leave the table, the others are charged and
  their destinations left out of the walk.\<close>

definition live :: "quota_state \<Rightarrow> reservation list" where
  "live s = filter (\<lambda>r. \<not> rs_finished r) (mq_reservations s)"

definition sweep_reservations :: "quota_state \<Rightarrow> quota_state" where
  "sweep_reservations s = s\<lparr>mq_reservations := live s\<rparr>"

definition reserved_bytes :: "quota_state \<Rightarrow> 64 word" where
  "reserved_bytes s = sum_list (map rs_bytes (live s))"

definition active_paths :: "quota_state \<Rightarrow> string list" where
  "active_paths s = map rs_path (live s)"

record candidate =
  cd_chat :: string
  cd_name :: string
  cd_kind :: string
  cd_at :: instant

text \<open>The walk adds up the files that no live reservation owns and collects the evictable ones.\<close>

fun account_files :: "string list \<Rightarrow> string list \<Rightarrow> cached_file list \<Rightarrow> 64 word \<times> candidate list
    \<Rightarrow> 64 word \<times> candidate list" where
  "account_files types active [] acc = acc"
| "account_files types active (f # fs) (used, cs) =
     account_files types active fs
       (if cf_path f \<in> set active \<or> cf_size f < 0 then (used, cs)
        else (used + of_int (cf_size f),
              let kind = mediaScope (cf_chat f) (cf_name f)
              in if kind \<in> set types
                 then cs @ [\<lparr>cd_chat = cf_chat f, cd_name = cf_name f, cd_kind = kind, cd_at = cf_at f\<rparr>]
                 else cs))"

definition cd_path :: "candidate \<Rightarrow> string" where
  "cd_path c = cd_chat c @ ''/'' @ cd_name c"

definition oldest_first :: "candidate list \<Rightarrow> candidate list" where
  "oldest_first = sort_key (\<lambda>c. (cd_at c, cd_path c))"

definition find_file :: "string \<Rightarrow> quota_state \<Rightarrow> cached_file option" where
  "find_file p s = List.find (\<lambda>f. cf_path f = p) (mq_files s)"

definition remove_file :: "string \<Rightarrow> quota_state \<Rightarrow> quota_state" where
  "remove_file p s = s\<lparr>mq_files := filter (\<lambda>f. cf_path f \<noteq> p) (mq_files s)\<rparr>"

definition ended_by :: "admission \<Rightarrow> nat \<Rightarrow> bool" where
  "ended_by a n = (case ad_ends a of None \<Rightarrow> False | Some (k, _) \<Rightarrow> k \<le> n)"

text \<open>The eviction loop. \<open>n\<close> counts the candidates looked at.\<close>

fun evict :: "admission \<Rightarrow> 64 word \<Rightarrow> 64 word \<Rightarrow> nat \<Rightarrow> candidate list \<Rightarrow> 64 word \<times> quota_state
    \<Rightarrow> 64 word \<times> quota_state" where
  "evict a quota low n [] (used, s) = (used, s)"
| "evict a quota low n (c # cs) (used, s) =
     (if ended_by a n then (used, s)
      else if used \<le> low \<and> ad_incoming a \<le> quota - used then (used, s)
      else evict a quota low (Suc n) cs
        (case find_file (cd_path c) s of
           None \<Rightarrow> (used, s)
         | Some f \<Rightarrow>
             if cf_size f < 0 \<or> \<not> ad_removes a (cd_path c) then (used, s)
             else let bytes = of_int (cf_size f)
                  in (used - min used bytes,
                      recordMediaEviction (cd_kind c) bytes (remove_file (cd_path c) s))))"

text \<open>What is decided once the walk has its sum: make room when the quota or the low-water mark asks
  for it, then refuse or reserve.\<close>

definition over_quota :: "admission \<Rightarrow> 64 word \<Rightarrow> 64 word \<Rightarrow> quota_state \<Rightarrow> bool" where
  "over_quota a quota used s \<longleftrightarrow> used \<ge> quota \<or> ad_incoming a > quota - used \<or> mq_needsLowWater s"

definition make_room :: "admission \<Rightarrow> 64 word \<Rightarrow> string list \<Rightarrow> int \<Rightarrow> candidate list
    \<Rightarrow> 64 word \<times> quota_state \<Rightarrow> 64 word \<times> quota_state" where
  "make_room a quota types target cs us =
     (let low = mediaQuotaLowWater quota target;
          (used, s) = evict a quota low 0 (oldest_first cs) us
      in (used, s\<lparr>mq_needsLowWater := (types \<noteq> [] \<and> used > low)\<rparr>))"

definition reserve :: "admission \<Rightarrow> 64 word \<Rightarrow> 64 word \<Rightarrow> quota_state \<Rightarrow> quota_state \<times> grant" where
  "reserve a quota used s =
     (let room = quota - used;
          bounded = (if ad_incoming a > 0 then min room (ad_incoming a) else room);
          budget = (ad_limit a = 0 \<or> bounded < ad_limit a);
          limit = (if ad_limit a > 0 then min bounded (ad_limit a) else bounded);
          r = \<lparr>rs_id = mq_next s, rs_path = ad_path a, rs_bytes = limit, rs_finished = False\<rparr>
      in (s\<lparr>mq_reservations := mq_reservations s @ [r], mq_next := Suc (mq_next s)\<rparr>,
          \<lparr>gr_limit = limit, gr_budget = budget, gr_reservation = Some (mq_next s)\<rparr>))"

definition account_and_reserve :: "admission \<Rightarrow> 64 word \<Rightarrow> string list \<Rightarrow> int \<Rightarrow> 64 word \<Rightarrow> string list
    \<Rightarrow> quota_state \<Rightarrow> quota_state \<times> (quota_err + grant)" where
  "account_and_reserve a quota types target reserved active s =
     (let (used0, cs) = account_files types active (mq_files s) (reserved, [])
      in case ad_walk a of
           Some e \<Rightarrow> (s, Inl (accountingError a e))
         | None \<Rightarrow>
             let (used, s') = (if over_quota a quota used0 s then make_room a quota types target cs (used0, s)
                               else (used0, s))
             in case ad_ends a of
                  Some (_, e) \<Rightarrow> (s', Inl (accountingError a (CtxErr e)))
                | None \<Rightarrow>
                    if over_quota a quota used s' then (recordQuotaPause (ad_now a) s', Inl QuotaFull)
                    else (let (s'', g) = reserve a quota used s' in (s'', Inr g)))"

text \<open>The checks before the accounting. \<^term>\<open>Inr (quota, types, target)\<close> goes on to it.\<close>

definition admission_start :: "admission \<Rightarrow> quota_state
    \<Rightarrow> (quota_state \<times> (quota_err + grant)) + (64 word \<times> string list \<times> int)" where
  "admission_start a s =
     (case ad_lock a of
        Some e \<Rightarrow> Inl (s, Inl (accountingError a e))
      | None \<Rightarrow>
      (case ad_started a of
         Some e \<Rightarrow> Inl (s, Inl (accountingError a (CtxErr e)))
       | None \<Rightarrow>
       (case ad_settings a of
          Inl e \<Rightarrow> Inl (s, Inl (accountingError a e))
        | Inr (quota, types, target) \<Rightarrow>
            if quota = 0
            then Inl (s\<lparr>mq_needsLowWater := False\<rparr>,
                      Inr \<lparr>gr_limit = ad_limit a, gr_budget = False, gr_reservation = None\<rparr>)
            else if target < 1 \<or> target > 99 then Inl (s, Inl InvalidTarget)
            else if ad_incoming a > quota then Inl (recordQuotaPause (ad_now a) s, Inl QuotaFull)
            else Inr (quota, types, target))))"

text \<open>One admission on its own.\<close>

definition acquireMediaQuota :: "admission \<Rightarrow> quota_state \<Rightarrow> quota_state \<times> (quota_err + grant)" where
  "acquireMediaQuota a s =
     (case admission_start a s of
        Inl r \<Rightarrow> r
      | Inr (quota, types, target) \<Rightarrow>
          account_and_reserve a quota types target (reserved_bytes s) (active_paths s) (sweep_reservations s))"

text \<open>The release: mark the reservation, without the lease.\<close>

definition finish_reservation :: "nat \<Rightarrow> quota_state \<Rightarrow> quota_state" where
  "finish_reservation i s =
     s\<lparr>mq_reservations := map (\<lambda>r. if rs_id r = i then r\<lparr>rs_finished := True\<rparr> else r) (mq_reservations s)\<rparr>"

section \<open>The warning\<close>

datatype quota_signal = LogState string | QueueWarning string | PostState string

text \<open>State 2 is a full quota, 1 the warning threshold, 0 neither; a change of state is announced.
  \<open>posts\<close> says whether the legacy webhook takes connection events.\<close>

definition quota_warning_state :: "int \<Rightarrow> 64 word \<Rightarrow> int \<Rightarrow> nat" where
  "quota_warning_state warn quota bytes =
     (let percent = (if warn = 0 then 80 else warn)
      in if quota > 0 \<and> bytes \<ge> 0
         then let used = of_int bytes;
                  threshold = quota div 100 * of_int percent + (quota mod 100 * of_int percent + 99) div 100
              in if used \<ge> quota then 2 else if used \<ge> threshold then 1 else 0
         else 0)"

definition observeMediaQuota :: "int \<Rightarrow> bool \<Rightarrow> 64 word \<Rightarrow> int \<Rightarrow> nat \<Rightarrow> bool \<times> nat \<times> quota_signal list" where
  "observeMediaQuota warn posts quota bytes previous =
     (let state = quota_warning_state warn quota bytes;
          label = (if state = 2 then ''full'' else ''warning'');
          raised = (if state > 0 \<and> state \<noteq> previous
                    then [LogState label, QueueWarning label] @ (if posts then [PostState label] else [])
                    else []);
          cleared = (if state = 0 \<and> previous \<noteq> 0 then [QueueWarning ''''] else [])
      in (state > 0, state, raised @ cleared))"

definition observeMediaQuotaIfKnown ::
  "int \<Rightarrow> bool \<Rightarrow> 64 word \<Rightarrow> int \<Rightarrow> bool \<Rightarrow> nat \<Rightarrow> bool \<times> nat \<times> quota_signal list" where
  "observeMediaQuotaIfKnown warn posts quota bytes known previous =
     (if known then observeMediaQuota warn posts quota bytes previous else (previous > 0, previous, []))"

section \<open>The byte cap of one transfer\<close>

text \<open>A file being written is its length and its write position. Offsets and lengths are signed 64-bit
  integers; \<open>disk_full\<close> stands for the underlying file's own refusal.\<close>

record capped_file =
  cp_len :: int
  cp_pos :: int
  cp_limit :: int
  cp_exceeded :: bool

datatype cap_err = CapExceeded | FileErr

definition cap_check :: "int \<Rightarrow> int \<Rightarrow> capped_file \<Rightarrow> cap_err option \<times> capped_file" where
  "cap_check off n f =
     (if off \<ge> 0 \<and> (off > cp_limit f \<or> n > cp_limit f - off)
      then (Some CapExceeded, f\<lparr>cp_exceeded := True\<rparr>) else (None, f))"

definition file_write_at :: "bool \<Rightarrow> int \<Rightarrow> int \<Rightarrow> capped_file \<Rightarrow> cap_err option \<times> capped_file" where
  "file_write_at disk_full off n f =
     (if disk_full \<or> off < 0 then (Some FileErr, f)
      else (None, if n = 0 then f else f\<lparr>cp_len := max (cp_len f) (off + n)\<rparr>))"

definition capped_Write :: "bool \<Rightarrow> int \<Rightarrow> capped_file \<Rightarrow> cap_err option \<times> capped_file" where
  "capped_Write disk_full n f =
     (case cap_check (cp_pos f) n f of
        (Some e, f') \<Rightarrow> (Some e, f')
      | (None, f') \<Rightarrow> (case file_write_at disk_full (cp_pos f') n f' of
            (Some e, g) \<Rightarrow> (Some e, g)
          | (None, g) \<Rightarrow> (None, g\<lparr>cp_pos := cp_pos f' + n\<rparr>)))"

definition capped_WriteAt :: "bool \<Rightarrow> int \<Rightarrow> int \<Rightarrow> capped_file \<Rightarrow> cap_err option \<times> capped_file" where
  "capped_WriteAt disk_full off n f =
     (case cap_check off n f of
        (Some e, f') \<Rightarrow> (Some e, f')
      | (None, f') \<Rightarrow> file_write_at disk_full off n f')"

definition capped_Truncate :: "bool \<Rightarrow> int \<Rightarrow> capped_file \<Rightarrow> cap_err option \<times> capped_file" where
  "capped_Truncate disk_full n f =
     (case cap_check 0 n f of
        (Some e, f') \<Rightarrow> (Some e, f')
      | (None, f') \<Rightarrow> if disk_full \<or> n < 0 then (Some FileErr, f') else (None, f'\<lparr>cp_len := n\<rparr>))"

definition capped_Seek :: "int \<Rightarrow> capped_file \<Rightarrow> cap_err option \<times> capped_file" where
  "capped_Seek off f = (if off < 0 then (Some FileErr, f) else (None, f\<lparr>cp_pos := off\<rparr>))"

text \<open>What a download does with the file: any sequence of these calls.\<close>

datatype cap_op = OpWrite bool int | OpWriteAt bool int int | OpTruncate bool int | OpSeek int

fun cap_op_run :: "cap_op \<Rightarrow> capped_file \<Rightarrow> cap_err option \<times> capped_file" where
  "cap_op_run (OpWrite full n) f = capped_Write full n f"
| "cap_op_run (OpWriteAt full off n) f = capped_WriteAt full off n f"
| "cap_op_run (OpTruncate full n) f = capped_Truncate full n f"
| "cap_op_run (OpSeek off) f = capped_Seek off f"

fun cap_run :: "cap_op list \<Rightarrow> capped_file \<Rightarrow> capped_file" where
  "cap_run [] f = f"
| "cap_run (p # ps) f = cap_run ps (snd (cap_op_run p f))"

definition plain_budget :: "64 word \<Rightarrow> int" where
  "plain_budget limit = (if limit \<le> of_int max_int64 then uint limit else max_int64)"

definition wire_budget :: "64 word \<Rightarrow> int" where
  "wire_budget limit =
     (if limit \<le> of_int (max_int64 - 26) then sint ((limit div 16 + 1) * 16 + 10) else max_int64)"

text \<open>\<^verbatim>\<open>writeMediaDownload\<close> around a fill that makes the calls \<open>ops\<close> and then reports \<open>err\<close>. An error keeps
  the file from being published.\<close>

definition writeMediaDownload :: "64 word \<Rightarrow> cap_op list \<Rightarrow> cap_err option \<Rightarrow> cap_err + int" where
  "writeMediaDownload limit ops err =
     (let f = cap_run ops \<lparr>cp_len = 0, cp_pos = 0, cp_limit = wire_budget limit, cp_exceeded = False\<rparr>
      in if cp_exceeded f then Inl CapExceeded
         else case err of
                Some e \<Rightarrow> Inl e
              | None \<Rightarrow> if cp_len f > plain_budget limit then Inl CapExceeded else Inr (cp_len f))"

text \<open>A cached file or a joined transfer is checked against the caller's own cap.\<close>

definition checkCachedMediaLimit :: "64 word \<Rightarrow> int option \<Rightarrow> cap_err option" where
  "checkCachedMediaLimit limit found =
     (if limit = 0 then None
      else case found of
             None \<Rightarrow> Some FileErr
           | Some n \<Rightarrow> if n < 0 then Some FileErr else if of_int n > limit then Some CapExceeded else None)"

section \<open>Steps\<close>

text \<open>Bytes as natural numbers.\<close>

definition file_bytes :: "cached_file list \<Rightarrow> nat" where
  "file_bytes fs = sum_list (map (\<lambda>f. nat (cf_size f)) fs)"

definition live_bytes :: "quota_state \<Rightarrow> nat" where
  "live_bytes s = sum_list (map (\<lambda>r. unat (rs_bytes r)) (live s))"

text \<open>What the next admission will charge: the live reservations, and the files none of them owns.\<close>

definition charge :: "quota_state \<Rightarrow> nat" where
  "charge s = live_bytes s + file_bytes (filter (\<lambda>f. cf_path f \<notin> set (active_paths s)) (mq_files s))"

definition publish_file :: "cached_file \<Rightarrow> quota_state \<Rightarrow> quota_state" where
  "publish_file f s = s\<lparr>mq_files := filter (\<lambda>g. cf_path g \<noteq> cf_path f) (mq_files s) @ [f]\<rparr>"

text \<open>An admission holding the lease is what it read and the snapshot it took.\<close>

record held_lease =
  hl_admission :: admission
  hl_reserved :: "64 word"
  hl_active :: "string list"

text \<open>The transfers in flight and one admission at a time (the lease), each admission under the settings it
  reads: any quota up to the ceiling, or none (0). An admitted transfer writes while its reservation is
  live, within the reserved bytes, to the reserved destination: \<^verbatim>\<open>writeMediaDownload\<close> checks the length
  before the rename. A download on demand, and one admitted while there was no quota, writes the same
  cache without a reservation (\<^verbatim>\<open>media.go\<close>); the last component of the state adds up what was written
  that way. Two transfers never share a destination, because the group of transfers runs one per
  destination, and an admitted destination whose file is already cached holds no more than it is
  granted (the file of the same message). Clean-up may drop any file.\<close>

inductive quota_step :: "64 word \<Rightarrow> held_lease option \<times> quota_state \<times> nat \<Rightarrow> held_lease option \<times> quota_state \<times> nat \<Rightarrow> bool"
  for ceiling where
  refused: "admission_start a s = Inl (s', r) \<Longrightarrow> quota_step ceiling (None, s, e) (None, s', e)"
| snapshot: "admission_start a s = Inr (quota, types, target) \<Longrightarrow> quota \<le> ceiling \<Longrightarrow> ad_path a \<notin> set (active_paths s) \<Longrightarrow>
    quota_step ceiling (None, s, e)
      (Some \<lparr>hl_admission = a, hl_reserved = reserved_bytes s, hl_active = active_paths s\<rparr>, sweep_reservations s, e)"
| decide: "ad_settings (hl_admission h) = Inr (quota, types, target) \<Longrightarrow> quota \<le> ceiling \<Longrightarrow>
    account_and_reserve (hl_admission h) quota types target (hl_reserved h) (hl_active h) s = (s', r) \<Longrightarrow>
    (\<And>g f. r = Inr g \<Longrightarrow> f \<in> set (mq_files s') \<Longrightarrow> cf_path f = ad_path (hl_admission h) \<Longrightarrow>
       nat (cf_size f) \<le> unat (gr_limit g)) \<Longrightarrow>
    quota_step ceiling (Some h, s, e) (None, s', e)"
| publish: "r \<in> set (live s) \<Longrightarrow> cf_path f = rs_path r \<Longrightarrow> 0 \<le> cf_size f \<Longrightarrow> cf_size f \<le> max_int64 \<Longrightarrow>
    nat (cf_size f) \<le> unat (rs_bytes r) \<Longrightarrow>
    quota_step ceiling (h, s, e) (h, publish_file f s, e)"
| unreserved: "cf_path f \<notin> set (active_paths s) \<Longrightarrow> 0 \<le> cf_size f \<Longrightarrow> cf_size f \<le> max_int64 \<Longrightarrow>
    quota_step ceiling (h, s, e) (h, publish_file f s, e + nat (cf_size f))"
| finish: "quota_step ceiling (h, s, e) (h, finish_reservation i s, e)"
| clean_up: "quota_step ceiling (h, s, e) (h, remove_file p s, e)"

section \<open>The sum of the walk\<close>

lemma file_bytes_simps [simp]:
  "file_bytes [] = 0"
  "file_bytes (f # fs) = nat (cf_size f) + file_bytes fs"
  "file_bytes (fs @ gs) = file_bytes fs + file_bytes gs"
  by (simp_all add: file_bytes_def)

lemma file_bytes_filter_le: "file_bytes (filter P fs) \<le> file_bytes fs"
  by (induction fs) auto

lemma file_bytes_filter_mono:
  "(\<And>f. f \<in> set fs \<Longrightarrow> P f \<Longrightarrow> Q f) \<Longrightarrow> file_bytes (filter P fs) \<le> file_bytes (filter Q fs)"
  by (induction fs) auto

lemma file_bytes_split:
  "file_bytes (filter P fs) = file_bytes (filter (\<lambda>f. P f \<and> Q f) fs) + file_bytes (filter (\<lambda>f. P f \<and> \<not> Q f) fs)"
  by (induction fs) auto

lemma distinct_map_Cons_neq: "distinct (map key (x # xs)) \<Longrightarrow> y \<in> set xs \<Longrightarrow> key y \<noteq> key x"
  by (auto simp: image_iff)

text \<open>Among files with distinct paths, the ones at one path weigh no more than any of them.\<close>

lemma file_bytes_at_path:
  assumes "distinct (map cf_path fs)" "\<And>f. f \<in> set fs \<Longrightarrow> cf_path f = p \<Longrightarrow> nat (cf_size f) \<le> n"
  shows "file_bytes (filter (\<lambda>f. cf_path f = p) fs) \<le> n"
  using assms
proof (induction fs)
  case (Cons f fs)
  show ?case
  proof (cases "cf_path f = p")
    case True
    with Cons.prems(1) have "cf_path g \<noteq> p" if "g \<in> set fs" for g
      using that True distinct_map_Cons_neq by metis
    then have "filter (\<lambda>g. cf_path g = p) fs = []" by (simp add: filter_empty_conv)
    with True Cons.prems(2) [of f] show ?thesis by simp
  qed (use Cons in simp)
qed simp

lemma fst_account_files:
  "fst (account_files types active fs (used, cs)) =
     used + of_nat (file_bytes (filter (\<lambda>f. cf_path f \<notin> set active) fs))"
proof (induction fs arbitrary: used cs)
  case (Cons f fs)
  have "cf_size f < 0 \<or> (of_int (cf_size f) :: 64 word) = of_nat (nat (cf_size f))"
    by (metis int_nat_eq linorder_not_less of_int_of_nat_eq)
  then show ?case
    by (auto simp: Cons.IH simp del: of_nat_nat)
qed simp

lemma account_files_candidates:
  "c \<in> set (snd (account_files types active fs (used, cs))) \<Longrightarrow>
   c \<in> set cs \<or> (\<exists>f \<in> set fs. cf_path f = cd_path c \<and> cf_path f \<notin> set active
     \<and> cd_kind c = mediaScope (cf_chat f) (cf_name f) \<and> cd_kind c \<in> set types \<and> cd_at c = cf_at f)"
proof (induction fs arbitrary: used cs)
  case (Cons f fs)
  from Cons.prems have "c \<in> set (snd (account_files types active fs
      (if cf_path f \<in> set active \<or> cf_size f < 0 then (used, cs)
       else (used + of_int (cf_size f),
         let kind = mediaScope (cf_chat f) (cf_name f)
         in if kind \<in> set types
            then cs @ [\<lparr>cd_chat = cf_chat f, cd_name = cf_name f, cd_kind = kind, cd_at = cf_at f\<rparr>] else cs))))"
    by simp
  then show ?case
    by (auto simp: Let_def cf_path_def cd_path_def split: if_splits dest!: Cons.IH)
qed simp

section \<open>Evictions\<close>

text \<open>Only cached files leave, the accounting follows them, and nothing else changes.\<close>

definition outside :: "string list \<Rightarrow> quota_state \<Rightarrow> nat" where
  "outside active s = file_bytes (filter (\<lambda>f. cf_path f \<notin> set active) (mq_files s))"

definition evicted_from :: "quota_state \<Rightarrow> quota_state \<Rightarrow> bool" where
  "evicted_from s t \<longleftrightarrow> mq_reservations t = mq_reservations s \<and> mq_next t = mq_next s
     \<and> (\<exists>P. mq_files t = filter P (mq_files s))"

lemma evicted_from_refl: "evicted_from s s"
  by (auto simp: evicted_from_def intro: exI [of _ "\<lambda>_. True"])

lemma evicted_from_trans: "evicted_from s t \<Longrightarrow> evicted_from t u \<Longrightarrow> evicted_from s u"
  unfolding evicted_from_def by (metis filter_filter)

lemma evicted_from_remove: "evicted_from s (recordMediaEviction k b (remove_file p s))"
  by (auto simp: evicted_from_def recordMediaEviction_def remove_file_def)

lemma outside_remove:
  assumes "f \<in> set (mq_files s)" "cf_path f = p" "p \<notin> set active" "distinct (map cf_path (mq_files s))"
  shows "outside active s = nat (cf_size f) + outside active (recordMediaEviction k b (remove_file p s))"
proof -
  have "file_bytes (filter (\<lambda>g. cf_path g \<notin> set active) fs) =
      nat (cf_size f) + file_bytes (filter (\<lambda>g. cf_path g \<notin> set active \<and> cf_path g \<noteq> p) fs)"
    if "f \<in> set fs" "distinct (map cf_path fs)" for fs
    using that
  proof (induction fs)
    case (Cons g fs)
    show ?case
    proof (cases "g = f")
      case True
      with Cons.prems(2) assms(2) have "cf_path h \<noteq> p" if "h \<in> set fs" for h
        using that distinct_map_Cons_neq by metis
      then have "filter (\<lambda>g. cf_path g \<notin> set active \<and> cf_path g \<noteq> p) fs
          = filter (\<lambda>g. cf_path g \<notin> set active) fs"
        by (intro filter_cong) auto
      with True assms(2,3) show ?thesis by simp
    next
      case False
      with Cons.prems(1) have "f \<in> set fs" by simp
      with Cons.prems(2) assms(2) have "cf_path g \<noteq> p" by auto
      with False Cons show ?thesis by auto
    qed
  qed simp
  from this [OF assms(1,4)] show ?thesis
    by (simp add: outside_def recordMediaEviction_def remove_file_def conj_commute)
qed

lemma unat_file_size:
  assumes "0 \<le> cf_size f" "cf_size f \<le> max_int64"
  shows "unat (of_int (cf_size f) :: 64 word) = nat (cf_size f)"
  using assms by (simp add: unat_eq_nat_uint unsigned_of_int take_bit_int_eq_self)

lemma distinct_evicted:
  "evicted_from s t \<Longrightarrow> distinct (map cf_path (mq_files s)) \<Longrightarrow> distinct (map cf_path (mq_files t))"
  by (auto simp: evicted_from_def distinct_map_filter)

lemma files_evicted: "evicted_from s t \<Longrightarrow> set (mq_files t) \<subseteq> set (mq_files s)"
  by (auto simp: evicted_from_def)

lemma evict_sound:
  assumes "evict a quota low n cs (used, s) = (used', s')"
    and "unat used = k + outside active s"
    and "distinct (map cf_path (mq_files s))"
    and "\<And>f. f \<in> set (mq_files s) \<Longrightarrow> cf_size f \<le> max_int64"
    and "\<And>c. c \<in> set cs \<Longrightarrow> cd_path c \<notin> set active"
  shows "evicted_from s s' \<and> unat used' = k + outside active s'"
  using assms
proof (induction cs arbitrary: n used s)
  case Nil
  then show ?case by (auto simp: evicted_from_refl)
next
  case (Cons c cs)
  show ?case
  proof (cases "ended_by a n \<or> (used \<le> low \<and> ad_incoming a \<le> quota - used)")
    case True
    with Cons.prems show ?thesis by (auto simp: evicted_from_refl split: if_splits)
  next
    case False
    show ?thesis
    proof (cases "\<exists>f. find_file (cd_path c) s = Some f \<and> \<not> (cf_size f < 0 \<or> \<not> ad_removes a (cd_path c))")
      case True
      then obtain f where f: "find_file (cd_path c) s = Some f" "0 \<le> cf_size f" "ad_removes a (cd_path c)"
        by auto
      then have mem: "f \<in> set (mq_files s)" "cf_path f = cd_path c"
        by (auto simp: find_file_def find_Some_iff)
      let ?b = "of_int (cf_size f) :: 64 word"
      let ?t = "recordMediaEviction (cd_kind c) ?b (remove_file (cd_path c) s)"
      have eq: "evict a quota low (Suc n) cs (used - min used ?b, ?t) = (used', s')"
        using Cons.prems(1) False f by (auto simp: Let_def split: if_splits)
      have out: "outside active s = nat (cf_size f) + outside active ?t"
        by (rule outside_remove [OF mem _ Cons.prems(3)]) (use Cons.prems(5) in simp)
      have b: "unat ?b = nat (cf_size f)"
        using f(2) Cons.prems(4) [OF mem(1)] by (rule unat_file_size)
      have "?b \<le> used" using b out Cons.prems(2) by (simp add: word_le_nat_alt)
      then have "min used ?b = ?b" by (simp add: min_def)
      moreover have "unat (used - ?b) = unat used - unat ?b"
        using \<open>?b \<le> used\<close> by (rule unat_sub)
      ultimately have u: "unat (used - min used ?b) = k + outside active ?t"
        using b out Cons.prems(2) by simp
      have ev: "evicted_from s ?t" by (rule evicted_from_remove)
      have "cf_size g \<le> max_int64" if "g \<in> set (mq_files ?t)" for g
        using that files_evicted [OF ev] by (intro Cons.prems(4)) (rule subsetD)
      then have "evicted_from ?t s' \<and> unat used' = k + outside active s'"
        by (rule Cons.IH [OF eq u distinct_evicted [OF ev Cons.prems(3)]]) (simp_all add: Cons.prems(5))
      with evicted_from_trans [OF ev] show ?thesis by simp
    next
      case none: False
      have "(case find_file (cd_path c) s of None \<Rightarrow> (used, s)
          | Some f \<Rightarrow> if cf_size f < 0 \<or> \<not> ad_removes a (cd_path c) then (used, s)
             else let bytes = of_int (cf_size f)
                  in (used - min used bytes, recordMediaEviction (cd_kind c) bytes (remove_file (cd_path c) s)))
         = (used, s)"
        using none by (auto split: option.split)
      then have "evict a quota low (Suc n) cs (used, s) = (used', s')"
        using Cons.prems(1) False by (auto split: if_splits)
      from Cons.IH [OF this Cons.prems(2-4)] Cons.prems(5) show ?thesis by simp
    qed
  qed
qed

text \<open>The whole of \<open>make_room\<close> keeps the books the same way.\<close>

lemma make_room_sound:
  assumes "make_room a quota types target cs (used, s) = (used', s')"
    and "unat used = k + outside active s"
    and "distinct (map cf_path (mq_files s))"
    and "\<And>f. f \<in> set (mq_files s) \<Longrightarrow> cf_size f \<le> max_int64"
    and "\<And>c. c \<in> set cs \<Longrightarrow> cd_path c \<notin> set active"
  shows "evicted_from s s' \<and> unat used' = k + outside active s'"
proof -
  obtain u t where e: "evict a quota (mediaQuotaLowWater quota target) 0 (oldest_first cs) (used, s) = (u, t)"
    by fastforce
  have "evicted_from s t \<and> unat u = k + outside active t"
    by (rule evict_sound [OF e assms(2-4)]) (use assms(5) in \<open>auto simp: oldest_first_def\<close>)
  with e assms(1) show ?thesis
    by (auto simp: make_room_def Let_def evicted_from_def outside_def)
qed

section \<open>The invariant of the cache\<close>

definition quota_wf :: "quota_state \<Rightarrow> bool" where
  "quota_wf s \<longleftrightarrow> distinct (active_paths s) \<and> distinct (map cf_path (mq_files s))
     \<and> (\<forall>f \<in> set (mq_files s). cf_size f \<le> max_int64)
     \<and> (\<forall>r \<in> set (live s). \<forall>f \<in> set (mq_files s). cf_path f = rs_path r \<longrightarrow> nat (cf_size f) \<le> unat (rs_bytes r))"

text \<open>Between the snapshot and the decision the snapshot stays conservative: the reservations it saw, with
  what was written without one since, cover those still live and the files of those that finished.\<close>

definition finished_since :: "string list \<Rightarrow> quota_state \<Rightarrow> nat" where
  "finished_since active s =
     file_bytes (filter (\<lambda>f. cf_path f \<in> set active \<and> cf_path f \<notin> set (active_paths s)) (mq_files s))"

fun quota_inv :: "nat \<Rightarrow> held_lease option \<times> quota_state \<times> nat \<Rightarrow> bool" where
  "quota_inv bound (None, s, e) \<longleftrightarrow> quota_wf s \<and> charge s \<le> bound + e"
| "quota_inv bound (Some h, s, e) \<longleftrightarrow> quota_wf s \<and> set (active_paths s) \<subseteq> set (hl_active h)
     \<and> ad_path (hl_admission h) \<notin> set (hl_active h)
     \<and> (\<exists>d \<le> e. live_bytes s + finished_since (hl_active h) s \<le> unat (hl_reserved h) + d
          \<and> unat (hl_reserved h) + outside (hl_active h) s + d \<le> bound + e)"

lemma quota_inv_mono:
  assumes "quota_inv bound (h, s, e)" "quota_wf t" "charge t \<le> charge s" "set (active_paths t) \<subseteq> set (active_paths s)"
    and "\<And>A. live_bytes t + finished_since A t \<le> live_bytes s + finished_since A s"
    and "\<And>A. set (active_paths s) \<subseteq> set A \<Longrightarrow> outside A t \<le> outside A s"
  shows "quota_inv bound (h, t, e)"
proof (cases h)
  case None
  with assms show ?thesis by simp
next
  case (Some hl)
  with assms(1) obtain d where d: "d \<le> e" "live_bytes s + finished_since (hl_active hl) s \<le> unat (hl_reserved hl) + d"
    "unat (hl_reserved hl) + outside (hl_active hl) s + d \<le> bound + e" "set (active_paths s) \<subseteq> set (hl_active hl)"
    "ad_path (hl_admission hl) \<notin> set (hl_active hl)" by auto
  have "live_bytes t + finished_since (hl_active hl) t \<le> unat (hl_reserved hl) + d"
    "unat (hl_reserved hl) + outside (hl_active hl) t + d \<le> bound + e"
    using assms(5) [of "hl_active hl"] assms(6) [OF d(4)] d(2,3) by simp_all
  with d(1,4,5) assms(2,4) Some show ?thesis by auto
qed

lemma charge_outside: "charge s = live_bytes s + outside (active_paths s) s"
  by (simp add: charge_def outside_def)

lemma live_evicted: "evicted_from s t \<Longrightarrow> live t = live s"
  by (simp add: evicted_from_def live_def)

lemma active_evicted: "evicted_from s t \<Longrightarrow> active_paths t = active_paths s"
  by (simp add: active_paths_def live_evicted)

lemma live_bytes_evicted: "evicted_from s t \<Longrightarrow> live_bytes t = live_bytes s"
  by (simp add: live_bytes_def live_evicted)

lemma filter_bytes_evicted:
  assumes "evicted_from s t"
  shows "file_bytes (filter Q (mq_files t)) \<le> file_bytes (filter Q (mq_files s))"
proof -
  from assms obtain P where "mq_files t = filter P (mq_files s)" by (auto simp: evicted_from_def)
  then have "filter Q (mq_files t) = filter P (filter Q (mq_files s))" by (simp add: conj_commute)
  then show ?thesis by (simp add: file_bytes_filter_le del: filter_filter)
qed

lemma quota_wf_evicted:
  assumes "evicted_from s t" "quota_wf s"
  shows "quota_wf t"
  using assms files_evicted [OF assms(1)] distinct_evicted [OF assms(1)]
  unfolding quota_wf_def live_evicted [OF assms(1)] active_evicted [OF assms(1)] by blast

lemma quota_inv_evicted:
  assumes "evicted_from s t" "quota_inv bound (h, s, e)"
  shows "quota_inv bound (h, t, e)"
proof (rule quota_inv_mono [OF assms(2)])
  show "quota_wf t" using assms by (cases h) (auto intro: quota_wf_evicted)
  show "charge t \<le> charge s"
    unfolding charge_def live_bytes_evicted [OF assms(1)] active_evicted [OF assms(1)]
    by (intro add_left_mono filter_bytes_evicted [OF assms(1)])
  show "live_bytes t + finished_since A t \<le> live_bytes s + finished_since A s" for A
    unfolding finished_since_def live_bytes_evicted [OF assms(1)] active_evicted [OF assms(1)]
    by (intro add_left_mono filter_bytes_evicted [OF assms(1)])
  show "outside A t \<le> outside A s" for A
    unfolding outside_def by (rule filter_bytes_evicted [OF assms(1)])
qed (simp add: active_evicted [OF assms(1)])

text \<open>The files of a group of reservations weigh no more than the reservations.\<close>

lemma owned_bytes:
  assumes "distinct (map cf_path fs)"
    and "\<And>r f. r \<in> set rs \<Longrightarrow> f \<in> set fs \<Longrightarrow> cf_path f = rs_path r \<Longrightarrow> nat (cf_size f) \<le> unat (rs_bytes r)"
  shows "file_bytes (filter (\<lambda>f. cf_path f \<in> rs_path ` set rs) fs) \<le> sum_list (map (\<lambda>r. unat (rs_bytes r)) rs)"
  using assms(2)
proof (induction rs)
  case (Cons r rs)
  have "file_bytes (filter (\<lambda>f. cf_path f \<in> rs_path ` set (r # rs)) fs)
      = file_bytes (filter (\<lambda>f. cf_path f \<in> rs_path ` set (r # rs) \<and> cf_path f = rs_path r) fs)
      + file_bytes (filter (\<lambda>f. cf_path f \<in> rs_path ` set (r # rs) \<and> cf_path f \<noteq> rs_path r) fs)"
    by (rule file_bytes_split)
  also have "\<dots> \<le> file_bytes (filter (\<lambda>f. cf_path f = rs_path r) fs)
      + file_bytes (filter (\<lambda>f. cf_path f \<in> rs_path ` set rs) fs)"
    by (intro add_mono file_bytes_filter_mono) auto
  also have "\<dots> \<le> unat (rs_bytes r) + sum_list (map (\<lambda>r. unat (rs_bytes r)) rs)"
    by (intro add_mono Cons.IH file_bytes_at_path assms(1)) (simp_all add: Cons.prems)
  finally show ?case by simp
qed simp

text \<open>Everything on disk is within the charge.\<close>

lemma disk_within_charge: "quota_wf s \<Longrightarrow> file_bytes (mq_files s) \<le> charge s"
proof -
  assume wf: "quota_wf s"
  have "file_bytes (filter (\<lambda>f. cf_path f \<in> rs_path ` set (live s)) (mq_files s)) \<le> live_bytes s"
    unfolding live_bytes_def by (rule owned_bytes) (use wf in \<open>auto simp: quota_wf_def\<close>)
  moreover have "file_bytes (filter (\<lambda>_. True) (mq_files s)) =
      file_bytes (filter (\<lambda>f. True \<and> cf_path f \<in> rs_path ` set (live s)) (mq_files s))
      + file_bytes (filter (\<lambda>f. True \<and> cf_path f \<notin> rs_path ` set (live s)) (mq_files s))"
    by (rule file_bytes_split)
  ultimately show ?thesis by (simp add: charge_def active_paths_def)
qed

subsection \<open>Transfers\<close>

lemma live_publish [simp]: "live (publish_file f s) = live s"
  by (simp add: publish_file_def live_def)

lemma active_publish [simp]: "active_paths (publish_file f s) = active_paths s"
  by (simp add: active_paths_def)

lemma filter_publish:
  assumes "\<And>g. P g \<Longrightarrow> cf_path g \<noteq> cf_path f"
  shows "filter P (mq_files (publish_file f s)) = filter P (mq_files s)"
  using assms by (auto simp: publish_file_def intro: filter_cong)

lemma quota_wf_publish:
  assumes "quota_wf s" "r \<in> set (live s)" "cf_path f = rs_path r" "cf_size f \<le> max_int64"
    "nat (cf_size f) \<le> unat (rs_bytes r)"
  shows "quota_wf (publish_file f s)"
proof -
  have same: "r' = r" if "r' \<in> set (live s)" "rs_path r' = rs_path r" for r'
    using assms(1,2) that by (auto simp: quota_wf_def active_paths_def distinct_map dest: inj_onD)
  have mem: "g = f \<or> g \<in> set (mq_files s)" if "g \<in> set (mq_files (publish_file f s))" for g
    using that by (auto simp: publish_file_def)
  have "distinct (map cf_path (mq_files (publish_file f s)))"
    using assms(1) by (auto simp: publish_file_def quota_wf_def distinct_map_filter)
  with assms same mem show ?thesis unfolding quota_wf_def live_publish active_publish by metis
qed

lemma live_bytes_publish [simp]: "live_bytes (publish_file f s) = live_bytes s"
  by (simp add: live_bytes_def)

lemma quota_inv_publish:
  assumes "quota_inv bound (h, s, e)" "r \<in> set (live s)" "cf_path f = rs_path r" "cf_size f \<le> max_int64"
    "nat (cf_size f) \<le> unat (rs_bytes r)"
  shows "quota_inv bound (h, publish_file f s, e)"
proof (rule quota_inv_mono [OF assms(1)])
  have p: "cf_path f \<in> set (active_paths s)" using assms(2,3) by (simp add: active_paths_def)
  have "quota_wf s" using assms(1) by (cases h) auto
  then show "quota_wf (publish_file f s)" by (rule quota_wf_publish [OF _ assms(2-5)])
  show "charge (publish_file f s) \<le> charge s"
    using p by (simp add: charge_def) (metis (no_types, lifting) filter_publish order.refl)
  show "live_bytes (publish_file f s) + finished_since A (publish_file f s) \<le> live_bytes s + finished_since A s" for A
    unfolding finished_since_def active_publish by (subst filter_publish) (use p in auto)
  show "outside A (publish_file f s) \<le> outside A s" if "set (active_paths s) \<subseteq> set A" for A
    unfolding outside_def by (subst filter_publish) (use p that in auto)
qed simp

text \<open>A file written without a reservation adds at most its own length to any part of the disk.\<close>

lemma filter_bytes_publish:
  "file_bytes (filter P (mq_files (publish_file f s))) \<le> file_bytes (filter P (mq_files s)) + (if P f then nat (cf_size f) else 0)"
proof -
  have "filter P (filter (\<lambda>g. cf_path g \<noteq> cf_path f) (mq_files s)) = filter (\<lambda>g. cf_path g \<noteq> cf_path f) (filter P (mq_files s))"
    by (simp add: conj_commute)
  then show ?thesis
    using file_bytes_filter_le [of "\<lambda>g. cf_path g \<noteq> cf_path f" "filter P (mq_files s)"]
    by (simp add: publish_file_def del: filter_filter)
qed

lemma quota_inv_unreserved:
  assumes inv: "quota_inv bound (h, s, e)" and f: "cf_path f \<notin> set (active_paths s)" "cf_size f \<le> max_int64"
  shows "quota_inv bound (h, publish_file f s, e + nat (cf_size f))"
proof -
  let ?n = "nat (cf_size f)" and ?t = "publish_file f s"
  have wf: "quota_wf s" using inv by (cases h) auto
  have "quota_wf ?t"
    using wf f unfolding quota_wf_def by (auto simp: publish_file_def active_paths_def distinct_map_filter live_def)
  moreover have "charge ?t \<le> charge s + ?n"
    using filter_bytes_publish [of "\<lambda>g. cf_path g \<notin> set (active_paths s)" f s] f(1) by (simp add: charge_def)
  moreover have fin: "finished_since A ?t \<le> finished_since A s + (if cf_path f \<in> set A then ?n else 0)" for A
    using filter_bytes_publish [of "\<lambda>g. cf_path g \<in> set A \<and> cf_path g \<notin> set (active_paths s)" f s] f(1)
    by (simp add: finished_since_def)
  moreover have out: "outside A ?t \<le> outside A s + (if cf_path f \<in> set A then 0 else ?n)" for A
    using filter_bytes_publish [of "\<lambda>g. cf_path g \<notin> set A" f s] by (auto simp: outside_def split: if_splits)
  ultimately show ?thesis
  proof (cases h)
    case (Some hl)
    with inv obtain d where d: "d \<le> e" "live_bytes s + finished_since (hl_active hl) s \<le> unat (hl_reserved hl) + d"
      "unat (hl_reserved hl) + outside (hl_active hl) s + d \<le> bound + e" by auto
    let ?d = "d + (if cf_path f \<in> set (hl_active hl) then ?n else 0)"
    have "?d \<le> e + ?n" "live_bytes ?t + finished_since (hl_active hl) ?t \<le> unat (hl_reserved hl) + ?d"
      "unat (hl_reserved hl) + outside (hl_active hl) ?t + ?d \<le> bound + (e + ?n)"
      using d fin [of "hl_active hl"] out [of "hl_active hl"] by (auto split: if_splits)
    with \<open>quota_wf ?t\<close> Some inv show ?thesis unfolding Some quota_inv.simps active_publish by blast
  qed (use inv in simp)
qed

lemma live_finish: "live (finish_reservation i s) = filter (\<lambda>r. rs_id r \<noteq> i) (live s)"
proof -
  have "filter (\<lambda>r. \<not> rs_finished r) (map (\<lambda>r. if rs_id r = i then r\<lparr>rs_finished := True\<rparr> else r) rs)
      = filter (\<lambda>r. rs_id r \<noteq> i) (filter (\<lambda>r. \<not> rs_finished r) rs)" for rs
    by (induction rs) auto
  then show ?thesis by (simp add: live_def finish_reservation_def del: filter_filter)
qed

lemma sum_filter_split:
  "sum_list (map (g :: 'a \<Rightarrow> nat) xs) = sum_list (map g (filter P xs)) + sum_list (map g (filter (\<lambda>x. \<not> P x) xs))"
  by (induction xs) auto

text \<open>A reservation that finishes hands its bytes over to its file: what it no longer reserves covers
  the file that is counted from now on.\<close>

lemma finish_hand_over:
  assumes "quota_wf s"
  shows "live_bytes (finish_reservation i s)
      + file_bytes (filter (\<lambda>f. P f \<and> cf_path f \<notin> set (active_paths (finish_reservation i s))) (mq_files s))
    \<le> live_bytes s + file_bytes (filter (\<lambda>f. P f \<and> cf_path f \<notin> set (active_paths s)) (mq_files s))"
proof -
  let ?gone = "filter (\<lambda>r. \<not> rs_id r \<noteq> i) (live s)"
  let ?ap = "active_paths (finish_reservation i s)"
  have "live_bytes s = live_bytes (finish_reservation i s) + sum_list (map (\<lambda>r. unat (rs_bytes r)) ?gone)"
    unfolding live_bytes_def live_finish by (rule sum_filter_split)
  moreover have "file_bytes (filter (\<lambda>f. cf_path f \<in> rs_path ` set ?gone) (mq_files s))
      \<le> sum_list (map (\<lambda>r. unat (rs_bytes r)) ?gone)"
    by (rule owned_bytes) (use assms in \<open>auto simp: quota_wf_def\<close>)
  moreover have "file_bytes (filter (\<lambda>f. P f \<and> cf_path f \<notin> set ?ap) (mq_files s)) =
      file_bytes (filter (\<lambda>f. (P f \<and> cf_path f \<notin> set ?ap) \<and> cf_path f \<in> set (active_paths s)) (mq_files s))
      + file_bytes (filter (\<lambda>f. (P f \<and> cf_path f \<notin> set ?ap) \<and> cf_path f \<notin> set (active_paths s)) (mq_files s))"
    by (rule file_bytes_split)
  moreover have "file_bytes (filter (\<lambda>f. (P f \<and> cf_path f \<notin> set ?ap) \<and> cf_path f \<in> set (active_paths s)) (mq_files s))
      \<le> file_bytes (filter (\<lambda>f. cf_path f \<in> rs_path ` set ?gone) (mq_files s))"
    by (rule file_bytes_filter_mono) (auto simp: active_paths_def live_finish)
  moreover have "file_bytes (filter (\<lambda>f. (P f \<and> cf_path f \<notin> set ?ap) \<and> cf_path f \<notin> set (active_paths s)) (mq_files s))
      \<le> file_bytes (filter (\<lambda>f. P f \<and> cf_path f \<notin> set (active_paths s)) (mq_files s))"
    by (rule file_bytes_filter_mono) auto
  ultimately show ?thesis by linarith
qed

lemma files_finish [simp]: "mq_files (finish_reservation i s) = mq_files s"
  by (simp add: finish_reservation_def)

lemma quota_wf_finish: "quota_wf s \<Longrightarrow> quota_wf (finish_reservation i s)"
  by (auto simp: quota_wf_def live_finish active_paths_def distinct_map_filter)

lemma quota_inv_finish:
  assumes "quota_inv bound (h, s, e)"
  shows "quota_inv bound (h, finish_reservation i s, e)"
proof (rule quota_inv_mono [OF assms])
  have wf: "quota_wf s" using assms by (cases h) auto
  then show "quota_wf (finish_reservation i s)" by (rule quota_wf_finish)
  show "charge (finish_reservation i s) \<le> charge s"
    using finish_hand_over [OF wf, of i "\<lambda>_. True"] by (simp add: charge_def)
  show "live_bytes (finish_reservation i s) + finished_since A (finish_reservation i s)
      \<le> live_bytes s + finished_since A s" for A
    using finish_hand_over [OF wf, of i "\<lambda>f. cf_path f \<in> set A"] by (simp add: finished_since_def)
qed (auto simp: active_paths_def live_finish outside_def)

subsection \<open>Admissions\<close>

lemma unat_sum_words:
  "sum_list (map (\<lambda>r. unat (rs_bytes r)) rs) < 2 ^ 64 \<Longrightarrow>
   unat (sum_list (map rs_bytes rs)) = sum_list (map (\<lambda>r. unat (rs_bytes r)) rs)"
  by (induction rs) (auto simp: unat_word_ariths)

lemma live_sweep [simp]: "live (sweep_reservations s) = live s"
  by (simp add: live_def sweep_reservations_def)

lemma sweep_simps [simp]:
  "mq_files (sweep_reservations s) = mq_files s"
  "active_paths (sweep_reservations s) = active_paths s"
  "live_bytes (sweep_reservations s) = live_bytes s"
  by (simp_all add: sweep_reservations_def [of s] active_paths_def live_bytes_def) (simp_all add: live_def)

lemma quota_inv_snapshot:
  assumes "quota_inv bound (None, s, e)" "bound + e < 2 ^ 64" "ad_path a \<notin> set (active_paths s)"
  shows "quota_inv bound (Some \<lparr>hl_admission = a, hl_reserved = reserved_bytes s, hl_active = active_paths s\<rparr>,
    sweep_reservations s, e)"
proof -
  from assms have c: "live_bytes s + outside (active_paths s) s \<le> bound + e" and wf: "quota_wf s"
    by (simp_all add: charge_outside)
  with assms(2) have "unat (reserved_bytes s) = live_bytes s"
    unfolding reserved_bytes_def live_bytes_def by (intro unat_sum_words) linarith
  moreover have "finished_since (active_paths s) (sweep_reservations s) = 0"
    by (simp add: finished_since_def)
  moreover have "quota_wf (sweep_reservations s)" using wf by (simp add: quota_wf_def)
  ultimately show ?thesis using c assms(3) by (simp add: outside_def) (intro exI [of _ 0], simp)
qed

text \<open>What the decision works with: the true sum, and after the evictions still the true sum.\<close>

lemma decide_sum:
  assumes inv: "quota_inv bound (Some h, s, e)" "bound + e < 2 ^ 64"
    and acc: "account_files types (hl_active h) (mq_files s) (hl_reserved h, []) = (used0, cs)"
    and room: "(if over_quota a quota used0 s then make_room a quota types target cs (used0, s) else (used0, s)) = (used, t)"
  shows "evicted_from s t \<and> unat used = unat (hl_reserved h) + outside (hl_active h) t"
proof -
  have out: "unat (hl_reserved h) + outside (hl_active h) s < 2 ^ 64" and wf: "quota_wf s"
    using inv by auto
  have "used0 = hl_reserved h + of_nat (outside (hl_active h) s)"
    using fst_account_files [of types "hl_active h" "mq_files s" "hl_reserved h" "[]"] acc
    by (simp add: outside_def)
  then have u0: "unat used0 = unat (hl_reserved h) + outside (hl_active h) s"
    using out by (simp add: unat_word_ariths unsigned_of_nat take_bit_nat_eq_self)
  have cs: "cd_path c \<notin> set (hl_active h)" if "c \<in> set cs" for c
    using account_files_candidates [of c types "hl_active h" "mq_files s" "hl_reserved h" "[]"] that acc by auto
  show ?thesis
  proof (cases "over_quota a quota used0 s")
    case True
    with room have "make_room a quota types target cs (used0, s) = (used, t)" by simp
    from make_room_sound [OF this u0] wf cs show ?thesis by (auto simp: quota_wf_def)
  qed (use room u0 in \<open>auto simp: evicted_from_refl\<close>)
qed

lemma charge_decided:
  assumes "quota_inv bound (Some h, t, e)"
  shows "\<exists>d \<le> e. charge t \<le> unat (hl_reserved h) + outside (hl_active h) t + d
    \<and> unat (hl_reserved h) + outside (hl_active h) t + d \<le> bound + e"
proof -
  let ?ap = "set (active_paths t)" and ?A = "set (hl_active h)"
  obtain d where sub: "?ap \<subseteq> ?A" and d: "d \<le> e" "live_bytes t + finished_since (hl_active h) t \<le> unat (hl_reserved h) + d"
    "unat (hl_reserved h) + outside (hl_active h) t + d \<le> bound + e" using assms by auto
  have "file_bytes (filter (\<lambda>f. cf_path f \<notin> ?ap) (mq_files t))
      = file_bytes (filter (\<lambda>f. cf_path f \<notin> ?ap \<and> cf_path f \<in> ?A) (mq_files t))
      + file_bytes (filter (\<lambda>f. cf_path f \<notin> ?ap \<and> cf_path f \<notin> ?A) (mq_files t))"
    by (rule file_bytes_split)
  also have "filter (\<lambda>f. cf_path f \<notin> ?ap \<and> cf_path f \<notin> ?A) (mq_files t) = filter (\<lambda>f. cf_path f \<notin> ?A) (mq_files t)"
    using sub by (intro filter_cong) auto
  finally have "charge t = live_bytes t + finished_since (hl_active h) t + outside (hl_active h) t"
    by (simp add: charge_def finished_since_def outside_def conj_commute)
  with d show ?thesis by (intro exI [of _ d]) simp
qed

lemma quota_inv_pause:
  "quota_inv bound (None, recordQuotaPause now s, e) = quota_inv bound (None, s, e)"
  "quota_inv bound (None, s\<lparr>mq_needsLowWater := b\<rparr>, e) = quota_inv bound (None, s, e)"
  by (simp_all add: recordQuotaPause_def quota_wf_def live_def active_paths_def charge_def live_bytes_def)

lemma reserve_room:
  assumes "reserve a quota used s = (t, g)" "used \<le> quota"
  shows "unat used + unat (gr_limit g) \<le> unat quota
    \<and> t = s\<lparr>mq_reservations := mq_reservations s @
          [\<lparr>rs_id = mq_next s, rs_path = ad_path a, rs_bytes = gr_limit g, rs_finished = False\<rparr>],
        mq_next := Suc (mq_next s)\<rparr>"
proof -
  have "gr_limit g \<le> quota - used"
    using assms(1) by (auto simp: reserve_def Let_def min_def split: if_splits)
  then have "unat (gr_limit g) \<le> unat quota - unat used"
    using assms(2) by (simp add: word_le_nat_alt unat_sub)
  then show ?thesis using assms by (auto simp: reserve_def Let_def word_le_nat_alt)
qed

lemma quota_inv_reserve:
  assumes inv: "quota_inv bound (Some h, s, e)" and a: "a = hl_admission h"
    and used: "unat used = unat (hl_reserved h) + outside (hl_active h) s" "used \<le> quota" "unat quota \<le> bound"
    and r: "reserve a quota used s = (t, g)"
    and files: "\<And>f. f \<in> set (mq_files t) \<Longrightarrow> cf_path f = ad_path a \<Longrightarrow> nat (cf_size f) \<le> unat (gr_limit g)"
  shows "quota_inv bound (None, t, e)"
proof -
  from reserve_room [OF r used(2)] have room: "unat used + unat (gr_limit g) \<le> unat quota"
    and t: "t = s\<lparr>mq_reservations := mq_reservations s @
          [\<lparr>rs_id = mq_next s, rs_path = ad_path a, rs_bytes = gr_limit g, rs_finished = False\<rparr>],
        mq_next := Suc (mq_next s)\<rparr>" by simp_all
  from t have l: "live t = live s @ [\<lparr>rs_id = mq_next s, rs_path = ad_path a, rs_bytes = gr_limit g, rs_finished = False\<rparr>]"
    and f: "mq_files t = mq_files s" by (simp_all add: live_def)
  have ap: "active_paths t = active_paths s @ [ad_path a]" using l by (simp add: active_paths_def)
  have lb: "live_bytes t = live_bytes s + unat (gr_limit g)" using l by (simp add: live_bytes_def)
  have wf: "quota_wf s" and new: "ad_path a \<notin> set (active_paths s)" using inv a by auto
  have "quota_wf t"
    using wf new files unfolding quota_wf_def ap l f by (auto simp: quota_wf_def)
  moreover have "file_bytes (filter (\<lambda>f. cf_path f \<notin> set (active_paths t)) (mq_files t))
      \<le> file_bytes (filter (\<lambda>f. cf_path f \<notin> set (active_paths s)) (mq_files s))"
    unfolding f ap by (rule file_bytes_filter_mono) simp
  then have grows: "charge t \<le> charge s + unat (gr_limit g)" by (simp add: charge_def lb)
  moreover obtain d where "d \<le> e" "charge s \<le> unat (hl_reserved h) + outside (hl_active h) s + d"
    using charge_decided [OF inv] by blast
  ultimately have "charge t \<le> bound + e" using grows used room by simp
  with \<open>quota_wf t\<close> show ?thesis by simp
qed

lemma quota_inv_decide:
  assumes inv: "quota_inv bound (Some h, s, e)" and b: "bound + e < 2 ^ 64" "unat quota \<le> bound"
    and d: "account_and_reserve (hl_admission h) quota types target (hl_reserved h) (hl_active h) s = (s', r)"
    and files: "\<And>g f. r = Inr g \<Longrightarrow> f \<in> set (mq_files s') \<Longrightarrow> cf_path f = ad_path (hl_admission h) \<Longrightarrow>
       nat (cf_size f) \<le> unat (gr_limit g)"
  shows "quota_inv bound (None, s', e)"
proof -
  let ?a = "hl_admission h"
  have none: "quota_inv bound (None, t, e)" if "quota_inv bound (Some h, t, e)" for t
    using that charge_decided [OF that] by auto
  obtain used0 cs where acc: "account_files types (hl_active h) (mq_files s) (hl_reserved h, []) = (used0, cs)"
    by fastforce
  show ?thesis
  proof (cases "ad_walk ?a")
    case (Some e)
    with d acc have "s' = s" by (simp add: account_and_reserve_def)
    with none [OF inv] show ?thesis by simp
  next
    case None
    obtain used t where room: "(if over_quota ?a quota used0 s then make_room ?a quota types target cs (used0, s)
        else (used0, s)) = (used, t)" by fastforce
    from decide_sum [OF inv b(1) acc room] have t: "evicted_from s t"
      and u: "unat used = unat (hl_reserved h) + outside (hl_active h) t" by simp_all
    have inv': "quota_inv bound (Some h, t, e)" by (rule quota_inv_evicted [OF t inv])
    have d': "(s', r) = (case ad_ends ?a of Some (_, e) \<Rightarrow> (t, Inl (accountingError ?a (CtxErr e)))
        | None \<Rightarrow> if over_quota ?a quota used t then (recordQuotaPause (ad_now ?a) t, Inl QuotaFull)
                  else (let (s'', g) = reserve ?a quota used t in (s'', Inr g)))"
      using d None acc room by (simp add: account_and_reserve_def)
    show ?thesis
    proof (cases "ad_ends ?a = None \<and> \<not> over_quota ?a quota used t")
      case True
      obtain v g where v: "reserve ?a quota used t = (v, g)" by fastforce
      with d' True have sr: "s' = v" "r = Inr g" by simp_all
      from True have "used \<le> quota" by (auto simp: over_quota_def)
      from quota_inv_reserve [OF inv' refl u this b(2) v] files [OF sr(2)] sr(1) show ?thesis by simp
    next
      case False
      with d' have "s' = t \<or> s' = recordQuotaPause (ad_now ?a) t" by (auto split: option.splits)
      with none [OF inv'] show ?thesis by (auto simp: quota_inv_pause simp del: quota_inv.simps)
    qed
  qed
qed

lemma admission_start_refused:
  "admission_start a s = Inl (t, r) \<Longrightarrow> t = s \<or> t = recordQuotaPause (ad_now a) s \<or> t = s\<lparr>mq_needsLowWater := False\<rparr>"
  by (auto simp: admission_start_def split: option.splits sum.splits prod.splits if_splits)

definition unreserved_bytes :: "held_lease option \<times> quota_state \<times> nat \<Rightarrow> nat" where
  "unreserved_bytes c = snd (snd c)"

lemma quota_inv_step:
  assumes "quota_step ceiling c d" "bound + unreserved_bytes c < 2 ^ 64" "unat ceiling \<le> bound" "quota_inv bound c"
  shows "quota_inv bound d"
  using assms
proof (cases rule: quota_step.cases)
  case (refused a s s' r e)
  with admission_start_refused [OF refused(3)] assms(4) show ?thesis
    by (auto simp: quota_inv_pause simp del: quota_inv.simps)
next
  case (snapshot a s quota types target e)
  with quota_inv_snapshot [of bound s e a] assms show ?thesis by (simp add: unreserved_bytes_def)
next
  case (decide h quota types target s s' r e)
  have "unat quota \<le> bound" using decide(4) assms(3) by (simp add: word_le_nat_alt)
  with quota_inv_decide [of bound h s e quota types target s' r] decide assms(2,4) show ?thesis
    by (simp add: unreserved_bytes_def del: quota_inv.simps)
next
  case (publish r s f h e)
  with quota_inv_publish assms(4) show ?thesis by blast
next
  case (unreserved f s h e)
  with quota_inv_unreserved assms(4) show ?thesis by blast
next
  case (finish h s e i)
  with quota_inv_finish assms(4) show ?thesis by blast
next
  case (clean_up h s e p)
  have "evicted_from s (remove_file p s)" by (auto simp: evicted_from_def remove_file_def)
  with clean_up quota_inv_evicted assms(4) show ?thesis by blast
qed

lemma unreserved_grows: "quota_step ceiling c d \<Longrightarrow> unreserved_bytes c \<le> unreserved_bytes d"
  by (cases rule: quota_step.cases) (auto simp: unreserved_bytes_def)

lemma quota_inv_reached:
  assumes "steps (quota_step ceiling) c d" "quota_inv bound c" "unat ceiling \<le> bound" "bound + unreserved_bytes d < 2 ^ 64"
  shows "quota_inv bound d"
proof -
  have "bound + unreserved_bytes d < 2 ^ 64 \<longrightarrow> quota_inv bound d"
  proof (rule steps_invariant [OF assms(1), where I = "\<lambda>c. bound + unreserved_bytes c < 2 ^ 64 \<longrightarrow> quota_inv bound c"])
    fix c d assume s: "quota_step ceiling c d" and i: "bound + unreserved_bytes c < 2 ^ 64 \<longrightarrow> quota_inv bound c"
    show "bound + unreserved_bytes d < 2 ^ 64 \<longrightarrow> quota_inv bound d"
      using unreserved_grows [OF s] quota_inv_step [OF s _ assms(3)] i by (meson add_left_mono le_less_trans)
  qed (use assms(2) in simp)
  with assms(4) show ?thesis by simp
qed

lemma quota_inv_disk:
  assumes "quota_inv bound (h, s, e)"
  shows "file_bytes (mq_files s) \<le> bound + e"
proof (cases h)
  case None
  with assms disk_within_charge [of s] show ?thesis by simp
next
  case (Some hl)
  with assms disk_within_charge [of s] charge_decided [of bound hl s e] show ?thesis by auto
qed

section \<open>Further facts\<close>

subsection \<open>The low-water mark and the caps\<close>

lemma unat_of_int_small: "0 \<le> k \<Longrightarrow> k < 2 ^ 64 \<Longrightarrow> unat (of_int k :: 64 word) = nat k"
  by (simp add: unat_eq_nat_uint unsigned_of_int take_bit_int_eq_self)

text \<open>The low-water mark is the exact percentage, for the largest quota too: dividing first keeps every
  intermediate product within 64 bits.\<close>

lemma low_water_exact:
  assumes "1 \<le> target" "target \<le> 99"
  shows "unat (mediaQuotaLowWater quota target) = unat quota * nat target div 100"
proof -
  let ?q = "unat quota" and ?t = "nat target"
  have t: "unat (of_int target :: 64 word) = ?t" using assms by (intro unat_of_int_small) auto
  have tb: "?t \<le> 99" using assms by auto
  have qb: "?q < 2 ^ 64" using unsigned_less [of quota] by simp
  have d: "?q div 100 * ?t \<le> ?q div 100 * 99" using tb by simp
  have dq: "?q div 100 * 100 + ?q mod 100 = ?q" by presburger
  have m: "?q mod 100 * ?t \<le> 99 * 99" using tb by (intro mult_mono) (simp_all add: less_Suc_eq_le [symmetric])
  have mm: "?q mod 100 * ?t div 100 \<le> ?q mod 100"
  proof -
    have "?q mod 100 * ?t \<le> ?q mod 100 * 100" using tb by simp
    then have "?q mod 100 * ?t div 100 \<le> ?q mod 100 * 100 div 100" by (rule div_le_mono)
    then show ?thesis by simp
  qed
  have qd: "?q div 100 < 2 ^ 64" using dq qb by linarith
  have lt: "?q div 100 * ?t + ?q mod 100 * ?t div 100 < 2 ^ 64" using d dq qb mm by linarith
  then have lt': "?q div 100 * ?t < 2 ^ 64" by linarith
  have 1: "unat (quota div 100 * of_int target) = ?q div 100 * ?t"
    using t lt' qd by (simp add: unat_word_ariths unat_div_distrib)
  have 2: "unat (quota mod 100 * of_int target) = ?q mod 100 * ?t"
    using t m by (simp add: unat_word_ariths unat_mod_distrib)
  have "unat (mediaQuotaLowWater quota target) = ?q div 100 * ?t + ?q mod 100 * ?t div 100"
    using assms 1 2 lt by (simp add: mediaQuotaLowWater_def unat_word_ariths unat_div_distrib)
  also have "\<dots> = (100 * (?q div 100 * ?t) + ?q mod 100 * ?t) div 100" by simp
  also have "100 * (?q div 100 * ?t) + ?q mod 100 * ?t = (?q div 100 * 100 + ?q mod 100) * ?t"
    by (simp only: distrib_right mult.assoc mult.left_commute)
  finally show ?thesis by (simp only: dq)
qed

text \<open>A file written through the cap never grows past it, whatever calls the download makes.\<close>

lemma cap_op_within:
  assumes "cp_len f \<le> cp_limit f" "0 \<le> cp_limit f"
  shows "cp_limit (snd (cap_op_run p f)) = cp_limit f \<and> cp_len (snd (cap_op_run p f)) \<le> cp_limit f"
  using assms
  by (cases p) (auto simp: capped_Write_def capped_WriteAt_def capped_Truncate_def capped_Seek_def cap_check_def
      file_write_at_def)

lemma cap_run_within:
  "cp_len f \<le> cp_limit f \<Longrightarrow> 0 \<le> cp_limit f \<Longrightarrow>
   cp_limit (cap_run ps f) = cp_limit f \<and> cp_len (cap_run ps f) \<le> cp_limit f"
proof (induction ps arbitrary: f)
  case (Cons p ps)
  with cap_op_within [of f p] Cons.IH [of "snd (cap_op_run p f)"] show ?case by simp
qed simp

text \<open>The encrypted form of a plaintext adds at most one AES block and ten bytes of MAC.\<close>

definition wire_length :: "int \<Rightarrow> int" where
  "wire_length n = (n div 16 + 1) * 16 + 10"

lemma wire_budget_value:
  assumes "uint limit \<le> max_int64 - 26"
  shows "wire_budget limit = wire_length (uint limit)"
proof -
  have le: "limit \<le> of_int (max_int64 - 26)" using assms by (simp add: word_le_def)
  have d: "uint limit div 16 * 16 \<le> uint limit" by presburger
  have nn: "0 \<le> uint limit div 16 * 16" by (simp add: pos_imp_zdiv_nonneg_iff)
  have "uint ((limit div 16 + 1) * 16 + 10) = wire_length (uint limit)"
    using assms d nn by (simp add: uint_word_ariths uint_div_distrib wire_length_def)
  then show ?thesis using le assms d nn
    by (simp add: wire_budget_def sint_uint signed_take_bit_int_eq_self wire_length_def)
qed

lemma wire_budget_nonneg: "0 \<le> wire_budget limit"
proof (cases "uint limit \<le> max_int64 - 26")
  case True
  then show ?thesis by (simp add: wire_budget_value wire_length_def pos_imp_zdiv_nonneg_iff)
next
  case False
  then show ?thesis by (simp add: wire_budget_def word_le_def)
qed

lemma wire_length_mono: "m \<le> n \<Longrightarrow> wire_length m \<le> wire_length n"
  by (simp add: wire_length_def zdiv_mono1)

lemma plain_budget_le: "plain_budget limit \<le> uint limit"
  by (auto simp: plain_budget_def word_le_def)

text \<open>Sequential writes that stay within the cap all go through.\<close>

lemma cap_run_writes:
  "cp_pos f = cp_len f \<Longrightarrow> 0 \<le> cp_len f \<Longrightarrow> list_all (\<lambda>n. 0 \<le> n) ns \<Longrightarrow> cp_len f + sum_list ns \<le> cp_limit f \<Longrightarrow>
   cap_run (map (OpWrite False) ns) f = f\<lparr>cp_len := cp_len f + sum_list ns, cp_pos := cp_len f + sum_list ns\<rparr>"
proof (induction ns arbitrary: f)
  case (Cons n ns)
  have "0 \<le> sum_list ns" using Cons.prems(3) by (auto simp: list_all_iff intro: sum_list_nonneg)
  then have "snd (capped_Write False n f) = f\<lparr>cp_len := cp_len f + n, cp_pos := cp_len f + n\<rparr>"
    using Cons.prems by (auto simp: capped_Write_def cap_check_def file_write_at_def)
  with Cons show ?case by (simp add: add.assoc)
qed simp

lemma cap_run_append: "cap_run (ps @ qs) f = cap_run qs (cap_run ps f)"
  by (induction ps arbitrary: f) simp_all

subsection \<open>The order of evictions\<close>

definition removable :: "admission \<Rightarrow> quota_state \<Rightarrow> string \<Rightarrow> bool" where
  "removable a s p \<longleftrightarrow> ad_removes a p \<and> (\<exists>f. find_file p s = Some f \<and> 0 \<le> cf_size f)"

lemma find_file_None: "find_file p s = None \<longleftrightarrow> (\<forall>f \<in> set (mq_files s). cf_path f \<noteq> p)"
  by (auto simp: find_file_def find_None_iff)

lemma find_file_remove: "q \<noteq> p \<Longrightarrow> find_file q (recordMediaEviction k b (remove_file p s)) = find_file q s"
proof -
  assume "q \<noteq> p"
  then have "List.find (\<lambda>f. cf_path f = q) (filter (\<lambda>f. cf_path f \<noteq> p) fs) = List.find (\<lambda>f. cf_path f = q) fs" for fs
    by (induction fs) auto
  then show ?thesis by (simp add: find_file_def recordMediaEviction_def remove_file_def)
qed

lemma find_file_self:
  assumes "distinct (map cf_path (mq_files s))" "g \<in> set (mq_files s)"
  shows "find_file (cf_path g) s = Some g"
proof -
  have "find_file (cf_path g) s \<noteq> None" using assms(2) by (auto simp: find_file_None)
  then obtain h where h: "find_file (cf_path g) s = Some h" by blast
  then have "h \<in> set (mq_files s)" "cf_path h = cf_path g" by (auto simp: find_file_def find_Some_iff)
  with assms have "h = g" by (auto simp: distinct_map dest: inj_onD)
  with h show ?thesis by simp
qed

text \<open>The loop takes away a prefix of its list: whatever in it can be removed is gone, and what comes
  after stays.\<close>

lemma evict_prefix:
  assumes "evict a quota low n cs (used, s) = (used', s')" "distinct (map cd_path cs)"
  shows "\<exists>k. (\<forall>c \<in> set (take k cs). removable a s (cd_path c) \<longrightarrow> find_file (cd_path c) s' = None)
    \<and> (\<forall>p. p \<notin> cd_path ` set (take k cs) \<longrightarrow> find_file p s' = find_file p s)"
  using assms
proof (induction cs arbitrary: n used s)
  case (Cons c cs)
  show ?case
  proof (cases "ended_by a n \<or> (used \<le> low \<and> ad_incoming a \<le> quota - used)")
    case True
    with Cons.prems have "s' = s" by (auto split: if_splits)
    then show ?thesis by (intro exI [of _ 0]) simp
  next
    case False
    define t where "t = (if removable a s (cd_path c)
      then recordMediaEviction (cd_kind c) (of_int (cf_size (the (find_file (cd_path c) s)))) (remove_file (cd_path c) s) else s)"
    have "\<exists>u. evict a quota low (Suc n) cs (u, t) = (used', s')"
      using Cons.prems(1) False
      by (auto simp: t_def removable_def Let_def split: if_splits option.splits)
    then obtain k where k: "\<forall>d \<in> set (take k cs). removable a t (cd_path d) \<longrightarrow> find_file (cd_path d) s' = None"
      "\<forall>p. p \<notin> cd_path ` set (take k cs) \<longrightarrow> find_file p s' = find_file p t"
      using Cons.IH Cons.prems(2) by fastforce
    have other: "find_file p t = find_file p s" if "p \<noteq> cd_path c" for p
      using that by (simp add: t_def find_file_remove)
    have notin: "cd_path c \<notin> cd_path ` set (take k cs)" using Cons.prems(2) by (auto dest: in_set_takeD)
    have gone: "removable a s (cd_path c) \<Longrightarrow> find_file (cd_path c) t = None"
      by (simp add: t_def find_file_None recordMediaEviction_def remove_file_def)
    show ?thesis
    proof (intro exI [of _ "Suc k"] conjI ballI allI impI)
      fix d assume d: "d \<in> set (take (Suc k) (c # cs))" "removable a s (cd_path d)"
      show "find_file (cd_path d) s' = None"
      proof (cases "d = c")
        case True
        with d(2) gone k(2) notin show ?thesis by simp
      next
        case ne: False
        with d(1) have dk: "d \<in> set (take k cs)" by simp
        with notin imageI [OF dk, of cd_path] have "cd_path d \<noteq> cd_path c" by metis
        with d(2) other have "removable a t (cd_path d)" by (simp add: removable_def)
        with k(1) dk show ?thesis by blast
      qed
    next
      fix p assume "p \<notin> cd_path ` set (take (Suc k) (c # cs))"
      with k(2) other show "find_file p s' = find_file p s" by simp
    qed
  qed
qed (intro exI [of _ 0], simp)

lemma account_files_distinct:
  "distinct (map cf_path fs) \<Longrightarrow> distinct (map cd_path cs) \<Longrightarrow>
   cd_path ` set cs \<inter> cf_path ` set fs = {} \<Longrightarrow>
   distinct (map cd_path (snd (account_files types active fs (used, cs))))"
proof (induction fs arbitrary: used cs)
  case (Cons f fs)
  have *: "cd_path \<lparr>cd_chat = cf_chat f, cd_name = cf_name f, cd_kind = k, cd_at = x\<rparr> = cf_path f" for k x
    by (simp add: cd_path_def cf_path_def)
  show ?case
    using Cons.prems by (auto simp: Let_def * intro!: Cons.IH) (metis IntI empty_iff imageI)
qed simp

text \<open>Evictions are by age: nothing goes while an older eligible file that could be removed stays, and
  only eligible kinds go that no running transfer owns.\<close>

lemma room_oldest_first:
  assumes files: "distinct (map cf_path (mq_files s))"
    and acc: "account_files types active (mq_files s) (reserved, []) = (used0, cs)"
    and room: "make_room a quota types target cs (used0, s) = (used, t)"
    and gone: "find_file p s = Some f" "find_file p t = None"
  shows "\<exists>c \<in> set cs. cd_path c = p \<and> cd_kind c \<in> set types \<and> p \<notin> set active
    \<and> (\<forall>d \<in> set cs. (cd_at d, cd_path d) < (cd_at c, cd_path c) \<and> removable a s (cd_path d)
         \<longrightarrow> find_file (cd_path d) t = None)"
proof -
  obtain u v where e: "evict a quota (mediaQuotaLowWater quota target) 0 (oldest_first cs) (used0, s) = (u, v)"
    by fastforce
  with room have t: "find_file q t = find_file q v" for q
    by (auto simp: make_room_def Let_def find_file_def)
  have "distinct (map cd_path cs)"
    using account_files_distinct [of "mq_files s" "[]" types active reserved] files acc by simp
  then have dis: "distinct (map cd_path (oldest_first cs))"
    by (simp add: oldest_first_def distinct_map)
  have srt: "sorted (map (\<lambda>c. (cd_at c, cd_path c)) (oldest_first cs))"
    unfolding oldest_first_def by (rule sorted_sort_key)
  from evict_prefix [OF e dis] obtain k where
    k: "\<forall>c \<in> set (take k (oldest_first cs)). removable a s (cd_path c) \<longrightarrow> find_file (cd_path c) v = None"
      "\<forall>p. p \<notin> cd_path ` set (take k (oldest_first cs)) \<longrightarrow> find_file p v = find_file p s" by blast
  from k(2) gone t obtain c where c: "c \<in> set (take k (oldest_first cs))" "cd_path c = p"
    by (metis imageE option.distinct(1))
  have cs: "c \<in> set cs" using in_set_takeD [OF c(1)] by (simp add: oldest_first_def)
  have kind: "cd_kind c \<in> set types \<and> p \<notin> set active"
    using account_files_candidates [of c types active "mq_files s" reserved "[]"] acc cs c(2) by auto
  have "find_file (cd_path d) t = None"
    if d: "d \<in> set cs" "(cd_at d, cd_path d) < (cd_at c, cd_path c)" "removable a s (cd_path d)" for d
  proof -
    let ?key = "\<lambda>c. (cd_at c, cd_path c)"
    have app: "sorted (map ?key (take k (oldest_first cs)) @ map ?key (drop k (oldest_first cs)))"
      using srt by (metis append_take_drop_id map_append)
    have "d \<in> set (take k (oldest_first cs)) \<union> set (drop k (oldest_first cs))"
      using d(1) by (metis append_take_drop_id oldest_first_def set_append set_sort)
    moreover have "d \<notin> set (drop k (oldest_first cs))"
    proof
      assume "d \<in> set (drop k (oldest_first cs))"
      then have "?key c \<le> ?key d" using app c(1) unfolding sorted_append by auto
      with d(2) show False by (simp only: leD)
    qed
    ultimately show ?thesis using k(1) d(3) t by auto
  qed
  with cs c(2) kind show ?thesis by blast
qed

subsection \<open>An admission's evictions\<close>

lemma evict_files: "\<exists>v. mq_files (snd (evict a quota low n cs (used, s))) = filter v (mq_files s)"
proof (induction cs arbitrary: n used s)
  case Nil
  show ?case by (auto intro: exI [of _ "\<lambda>_. True"])
next
  case (Cons c cs)
  have keep: "\<exists>v. mq_files s = filter v (mq_files s)" by (auto intro: exI [of _ "\<lambda>_. True"])
  have drop: "\<exists>v. mq_files (snd (evict a quota low (Suc n) cs (u, recordMediaEviction k b (remove_file p s))))
      = filter v (mq_files s)" for u k b p
    using Cons.IH [of "Suc n" u "recordMediaEviction k b (remove_file p s)"]
    by (auto simp: recordMediaEviction_def remove_file_def)
  show ?case using keep drop Cons.IH by (auto simp: Let_def split: option.split)
qed

lemma account_files_keeps: "c \<in> set cs \<Longrightarrow> c \<in> set (snd (account_files types active fs (used, cs)))"
  by (induction fs arbitrary: used cs) (auto simp: Let_def)

lemma account_files_complete:
  assumes "f \<in> set fs" "cf_path f \<notin> set active" "0 \<le> cf_size f" "mediaScope (cf_chat f) (cf_name f) \<in> set types"
  shows "\<exists>c \<in> set (snd (account_files types active fs (used, cs))). cd_path c = cf_path f \<and> cd_at c = cf_at f"
  using assms
proof (induction fs arbitrary: used cs)
  case (Cons g fs)
  show ?case
  proof (cases "f = g")
    case True
    let ?c = "\<lparr>cd_chat = cf_chat g, cd_name = cf_name g, cd_kind = mediaScope (cf_chat g) (cf_name g), cd_at = cf_at g\<rparr>"
    have "?c \<in> set (snd (account_files types active (g # fs) (used, cs)))"
      using True Cons.prems by (auto simp: Let_def intro: account_files_keeps)
    then show ?thesis by (rule rev_bexI) (simp add: True cd_path_def cf_path_def)
  next
    case False
    with Cons show ?thesis by simp
  qed
qed simp

text \<open>Nothing but \<open>make_room\<close> takes a file away.\<close>

lemma admission_files:
  assumes "acquireMediaQuota a s = (t, r)" "mq_files t \<noteq> mq_files s"
  obtains quota types target cs used0 used u where
    "ad_settings a = Inr (quota, types, target)"
    "account_files types (active_paths s) (mq_files (sweep_reservations s)) (reserved_bytes s, []) = (used0, cs)"
    "make_room a quota types target cs (used0, sweep_reservations s) = (used, u)"
    "mq_files t = mq_files u"
proof -
  obtain quota types target where start: "admission_start a s = Inr (quota, types, target)"
    using assms
    by (cases "admission_start a s") (auto simp: acquireMediaQuota_def recordQuotaPause_def dest!: admission_start_refused)
  then have set: "ad_settings a = Inr (quota, types, target)"
    by (auto simp: admission_start_def split: option.splits sum.splits if_splits)
  obtain used0 cs where acc: "account_files types (active_paths s) (mq_files (sweep_reservations s)) (reserved_bytes s, []) = (used0, cs)"
    by fastforce
  obtain used u where room: "make_room a quota types target cs (used0, sweep_reservations s) = (used, u)"
    by fastforce
  have "mq_files t = mq_files s \<or> mq_files t = mq_files u"
    using assms(1) start acc room
    by (auto simp: acquireMediaQuota_def account_and_reserve_def recordQuotaPause_def reserve_def Let_def
        split: option.splits if_splits)
  with assms(2) set acc room that show ?thesis by blast
qed

section \<open>Properties\<close>


definition sample_admission :: "64 word \<Rightarrow> string \<Rightarrow> admission" where
  "sample_admission n p = \<lparr>ad_incoming = n, ad_limit = 0, ad_path = p, ad_try = False, ad_caller_live = True,
     ad_lock = None, ad_started = None, ad_settings = Inr (100, [''image''], 90), ad_walk = None,
     ad_removes = (\<lambda>_. True), ad_ends = None, ad_now = 0\<rparr>"

definition sample_cache :: quota_state where
  "sample_cache = \<lparr>mq_files = [\<lparr>cf_chat = ''a'', cf_name = ''image_1'', cf_size = 60, cf_at = 1\<rparr>,
       \<lparr>cf_chat = ''a'', cf_name = ''audio_2'', cf_size = 20, cf_at = 2\<rparr>],
     mq_reservations = [], mq_needsLowWater = False, mq_lastPause = 0, mq_refusals = 0,
     mq_evicted = (\<lambda>_. 0), mq_next = 0\<rparr>"

text \<open>A transfer of 50 bytes is admitted into a cache of 80 bytes under a quota of 100: the old image goes,
  the new file is published.\<close>

definition sample_lease :: held_lease where
  "sample_lease = \<lparr>hl_admission = sample_admission 50 ''b/image_3'', hl_reserved = 0, hl_active = []\<rparr>"

definition sample_decided :: quota_state where
  "sample_decided = fst (account_and_reserve (sample_admission 50 ''b/image_3'') 100 [''image''] 90 0 [] sample_cache)"

lemma sample_decided_eq:
  "sample_decided = sample_cache\<lparr>mq_files := [\<lparr>cf_chat = ''a'', cf_name = ''audio_2'', cf_size = 20, cf_at = 2\<rparr>],
     mq_reservations := [\<lparr>rs_id = 0, rs_path = ''b/image_3'', rs_bytes = 50, rs_finished = False\<rparr>],
     mq_evicted := (\<lambda>_. 0)(''image'' := 60), mq_next := 1\<rparr>
   \<and> account_and_reserve (sample_admission 50 ''b/image_3'') 100 [''image''] 90 0 [] sample_cache
     = (sample_decided, Inr \<lparr>gr_limit = 50, gr_budget = True, gr_reservation = Some 0\<rparr>)"
  by (simp add: sample_decided_def account_and_reserve_def sample_cache_def sample_admission_def cf_path_def
      cd_path_def mediaScope_def before_first_def over_quota_def make_room_def oldest_first_def
      mediaQuotaLowWater_def ended_by_def find_file_def recordMediaEviction_def remove_file_def reserve_def
      Let_def fun_eq_iff)


text \<open>What an admission evicts: only files of an evictable kind that no running transfer owns, the
  oldest first. A file goes only if every older eligible file that could be removed goes too.\<close>

lemma eviction_oldest_first:
  assumes "acquireMediaQuota a s = (t, r)" "distinct (map cf_path (mq_files s))"
    and "f \<in> set (mq_files s)" "f \<notin> set (mq_files t)"
  shows "\<exists>quota types target. ad_settings a = Inr (quota, types, target)
    \<and> mediaScope (cf_chat f) (cf_name f) \<in> set types \<and> cf_path f \<notin> set (active_paths s)
    \<and> (\<forall>g \<in> set (mq_files s). mediaScope (cf_chat g) (cf_name g) \<in> set types \<and> cf_path g \<notin> set (active_paths s)
         \<and> 0 \<le> cf_size g \<and> ad_removes a (cf_path g) \<and> (cf_at g, cf_path g) < (cf_at f, cf_path f)
         \<longrightarrow> g \<notin> set (mq_files t))"
proof -
  let ?s = "sweep_reservations s"
  have "mq_files t \<noteq> mq_files s" using assms(3,4) by auto
  from admission_files [OF assms(1) this] obtain quota types target cs used0 used u where
    *: "ad_settings a = Inr (quota, types, target)"
      "account_files types (active_paths s) (mq_files ?s) (reserved_bytes s, []) = (used0, cs)"
      "make_room a quota types target cs (used0, ?s) = (used, u)" "mq_files t = mq_files u" .
  have ds: "distinct (map cf_path (mq_files ?s))" using assms(2) by simp
  have same: "g = h" if "g \<in> set (mq_files s)" "h \<in> set (mq_files s)" "cf_path g = cf_path h" for g h
    using that assms(2) by (auto simp: distinct_map dest: inj_onD)
  have find: "find_file (cf_path g) ?s = Some g" if "g \<in> set (mq_files s)" for g
    using find_file_self [OF ds] that by simp
  obtain v where e: "mq_files u = filter v (mq_files s)"
  proof -
    have "\<exists>v. mq_files u = filter v (mq_files ?s)"
      using evict_files [of a quota "mediaQuotaLowWater quota target" 0 "oldest_first cs" used0 ?s] *(3)
      by (auto simp: make_room_def Let_def split: prod.splits)
    with that show thesis by auto
  qed
  have gone: "find_file (cf_path f) u = None"
    using assms(3,4) *(4) e same by (auto simp: find_file_None)
  from room_oldest_first [OF ds *(2,3) find [OF assms(3)] gone] obtain c where c: "c \<in> set cs"
    "cd_path c = cf_path f" "cd_kind c \<in> set types" "cf_path f \<notin> set (active_paths s)"
    "\<forall>d \<in> set cs. (cd_at d, cd_path d) < (cd_at c, cd_path c) \<and> removable a ?s (cd_path d)
         \<longrightarrow> find_file (cd_path d) u = None" by blast
  have cf: "cd_kind c = mediaScope (cf_chat f) (cf_name f)" "cd_at c = cf_at f"
    using account_files_candidates [of c types "active_paths s" "mq_files ?s" "reserved_bytes s" "[]"] c(1,2) *(2)
      same [OF _ assms(3)] by auto
  have "g \<notin> set (mq_files t)"
    if g: "g \<in> set (mq_files s)" "mediaScope (cf_chat g) (cf_name g) \<in> set types" "cf_path g \<notin> set (active_paths s)"
      "0 \<le> cf_size g" "ad_removes a (cf_path g)" "(cf_at g, cf_path g) < (cf_at f, cf_path f)" for g
  proof -
    obtain d where d: "d \<in> set cs" "cd_path d = cf_path g" "cd_at d = cf_at g"
      using account_files_complete [of g "mq_files ?s" "active_paths s" types "reserved_bytes s" "[]"] g *(2) by auto
    have "removable a ?s (cd_path d)" using g(4,5) find [OF g(1)] d(2) by (auto simp: removable_def)
    with c(2,5) d g(6) cf(2) have "find_file (cf_path g) u = None" by metis
    with *(4) find_file_None show ?thesis by metis
  qed
  with *(1) c(3,4) cf(1) show ?thesis by auto
qed

theorem eviction_oldest_first_witness:
  "\<exists>quota types target. ad_settings (sample_admission 50 ''b/image_3'') = Inr (quota, types, target)
    \<and> mediaScope ''a'' ''image_1'' \<in> set types \<and> ''a/image_1'' \<notin> set (active_paths sample_cache)"
proof -
  let ?f = "\<lparr>cf_chat = ''a'', cf_name = ''image_1'', cf_size = 60, cf_at = 1\<rparr>"
  have run: "acquireMediaQuota (sample_admission 50 ''b/image_3'') sample_cache
      = (sample_decided, Inr \<lparr>gr_limit = 50, gr_budget = True, gr_reservation = Some 0\<rparr>)"
  proof -
    have "admission_start (sample_admission 50 ''b/image_3'') sample_cache = Inr (100, [''image''], 90)"
      by (simp add: admission_start_def sample_admission_def)
    moreover have "reserved_bytes sample_cache = 0" "active_paths sample_cache = []"
      "sweep_reservations sample_cache = sample_cache"
      by (simp_all add: reserved_bytes_def active_paths_def live_def sweep_reservations_def sample_cache_def)
    ultimately show ?thesis using sample_decided_eq by (simp add: acquireMediaQuota_def)
  qed
  have "?f \<in> set (mq_files sample_cache)" "?f \<notin> set (mq_files sample_decided)"
    "distinct (map cf_path (mq_files sample_cache))"
    by (simp_all add: sample_decided_eq cf_path_def) (simp_all add: sample_cache_def cf_path_def)
  from eviction_oldest_first [OF run this(3,1,2)] show ?thesis by (auto simp: cf_path_def)
qed

text \<open>The byte cap of a transfer is exact: a download under a cap publishes no file longer than the cap,
  whatever it writes, seeks or truncates on the way, and a plaintext within the cap always fits, written
  in any chunks with its padding block and MAC and then cut to length.\<close>

lemma transfer_cap_exact:
  "(writeMediaDownload limit ops err = Inr n \<longrightarrow> n \<le> uint limit)
   \<and> (0 \<le> m \<and> m \<le> uint limit \<and> uint limit \<le> max_int64 - 26 \<and> list_all (\<lambda>k. 0 \<le> k) chunks
        \<and> sum_list chunks = wire_length m
      \<longrightarrow> writeMediaDownload limit (map (OpWrite False) chunks @ [OpTruncate False m]) None = Inr m)"
proof (intro conjI impI)
  assume "writeMediaDownload limit ops err = Inr n"
  then have "n \<le> plain_budget limit"
    by (auto simp: writeMediaDownload_def Let_def split: if_splits option.splits)
  with plain_budget_le [of limit] show "n \<le> uint limit" by simp
next
  assume a: "0 \<le> m \<and> m \<le> uint limit \<and> uint limit \<le> max_int64 - 26 \<and> list_all (\<lambda>k. 0 \<le> k) chunks
        \<and> sum_list chunks = wire_length m"
  let ?f = "\<lparr>cp_len = 0, cp_pos = 0, cp_limit = wire_budget limit, cp_exceeded = False\<rparr>"
  have le: "wire_length m \<le> wire_budget limit" using a by (simp add: wire_budget_value wire_length_mono)
  have "m \<le> wire_length m" unfolding wire_length_def by presburger
  with le have mb: "m \<le> wire_budget limit" by simp
  have "cap_run (map (OpWrite False) chunks) ?f = ?f\<lparr>cp_len := wire_length m, cp_pos := wire_length m\<rparr>"
    using cap_run_writes [of ?f chunks] a le by simp
  then have "cap_run (map (OpWrite False) chunks @ [OpTruncate False m]) ?f
      = ?f\<lparr>cp_len := m, cp_pos := wire_length m\<rparr>"
    using a mb by (simp add: cap_run_append capped_Truncate_def cap_check_def)
  moreover have "m \<le> plain_budget limit" using a by (simp add: plain_budget_def word_le_def)
  ultimately show "writeMediaDownload limit (map (OpWrite False) chunks @ [OpTruncate False m]) None = Inr m"
    by (simp add: writeMediaDownload_def)
qed

theorem transfer_cap_exact_witness:
  "writeMediaDownload 20 [OpWrite False 30, OpWrite False 12, OpTruncate False 20] None = Inr 20"
  using transfer_cap_exact [of 20 "[]" None 0 20 "[30, 12]"] by (simp add: wire_length_def)

text \<open>Room that is there is granted: when the files and the live reservations leave room for the
  incoming bytes and no low-water pause is on, an admission that meets no failure reserves exactly the
  incoming bytes (its caller's cap permitting) and evicts nothing.\<close>

lemma media_admission_granted:
  assumes "quota_inv bound (None, s, e)" "bound + e < 2 ^ 64" "charge s + unat (ad_incoming a) \<le> unat quota"
    and "charge s < unat quota" "0 < ad_incoming a" "\<not> mq_needsLowWater s"
    and "ad_lock a = None" "ad_started a = None" "ad_walk a = None" "ad_ends a = None"
    and "ad_settings a = Inr (quota, types, target)" "1 \<le> target" "target \<le> 99"
    and "ad_path a \<notin> set (active_paths s)"
  shows "\<exists>t g. acquireMediaQuota a s = (t, Inr g) \<and> mq_files t = mq_files s
    \<and> gr_limit g = (if ad_limit a = 0 then ad_incoming a else min (ad_incoming a) (ad_limit a))"
proof -
  let ?h = "\<lparr>hl_admission = a, hl_reserved = reserved_bytes s, hl_active = active_paths s\<rparr>" and ?s = "sweep_reservations s"
  have start: "admission_start a s = Inr (quota, types, target)"
    using assms by (auto simp: admission_start_def word_less_nat_alt)
  have inv: "quota_inv bound (Some ?h, ?s, e)" by (rule quota_inv_snapshot [OF assms(1,2,14)])
  obtain used cs where acc: "account_files types (active_paths s) (mq_files ?s) (reserved_bytes s, []) = (used, cs)"
    by fastforce
  have "unat used = unat (reserved_bytes s) + outside (active_paths s) ?s"
  proof (cases "over_quota a quota used ?s")
    case True
    have "unat (reserved_bytes s) + outside (active_paths s) ?s < 2 ^ 64" using inv assms(2) by auto
    with acc show ?thesis
      using fst_account_files [of types "active_paths s" "mq_files ?s" "reserved_bytes s" "[]"]
      by (simp add: outside_def unat_word_ariths unsigned_of_nat take_bit_nat_eq_self)
  next
    case False
    with decide_sum [OF inv assms(2), of types used cs a quota target used ?s] acc show ?thesis by simp
  qed
  moreover have "unat (reserved_bytes s) = live_bytes s"
    using assms(1,2) unfolding reserved_bytes_def live_bytes_def
    by (intro unat_sum_words) (auto simp: charge_def live_bytes_def)
  ultimately have used: "unat used = charge s" by (simp add: charge_outside outside_def)
  then have le: "used \<le> quota" "used < quota" using assms(4) by (simp_all add: word_le_nat_alt word_less_nat_alt)
  have room: "ad_incoming a \<le> quota - used"
    using assms(3) used le(1) by (simp add: word_le_nat_alt unat_sub)
  have ok: "\<not> over_quota a quota used ?s"
    using le room assms(6) by (simp add: over_quota_def sweep_reservations_def not_le not_less)
  then have "acquireMediaQuota a s = (let (t, g) = reserve a quota used ?s in (t, Inr g))"
    using start acc assms(9,10) by (simp add: acquireMediaQuota_def account_and_reserve_def)
  then show ?thesis
    using room assms(5) by (auto simp: reserve_def Let_def min_def word_gt_0)
qed

theorem media_admission_granted_witness:
  "\<exists>t g. acquireMediaQuota (sample_admission 20 ''b/image_3'') sample_cache = (t, Inr g)
     \<and> mq_files t = mq_files sample_cache \<and> gr_limit g = 20"
  using media_admission_granted [of 100 sample_cache 0 "sample_admission 20 ''b/image_3''" 100 "[''image'']" 90]
  by (simp add: quota_wf_def charge_def live_bytes_def active_paths_def live_def cf_path_def sample_admission_def
      sample_cache_def)

end
