(* ===== verification/Media_Purge.thy ===== *)
theory Media_Purge
  imports Media_Cache Chat_Policy Media_Quota
begin

text \<open>
  Bulk removal of cached media: the paged walk over the rows and the handler of \<^verbatim>\<open>POST /api/media/purge\<close>
  (\<^verbatim>\<open>media_purge.go\<close>) on local storage, the deletion batch and the byte ranges of \<^verbatim>\<open>media_storage.go\<close>, and the
  settings, the retention sweep and the cached usage of \<^verbatim>\<open>media_retention.go\<close>. A row's timestamp is kept as the
  text of its column, which SQL orders by, with the instant it reads as. A page of the walk is a query of its
  own, so the rows are the table the whole walk sees only while no other connection writes to it. The
  operator's purge (\<^verbatim>\<open>operator_media.go\<close>) is here too, because the handler's status shortcut runs it. The S3
  backend is left out, as is the progress a streamed answer reports on the way.
\<close>

type_synonym purge_row = "(string \<times> int) mediaRow"

section \<open>The walk\<close>

record purge_criteria =
  pc_chat :: string
  pc_before :: "string option"
  pc_type :: string

definition matching :: "purge_criteria \<Rightarrow> purge_row \<Rightarrow> bool" where
  "matching q r \<longleftrightarrow> mr_MediaType r \<in> set purgeMediaTypes
     \<and> (pc_chat q = [] \<or> mr_ChatJID r = pc_chat q)
     \<and> (case pc_before q of None \<Rightarrow> True | Some b \<Rightarrow> fst (mr_Timestamp r) < b)
     \<and> (pc_type q = [] \<or> mr_MediaType r = pc_type q)"

type_synonym purge_cursor = "string \<times> string \<times> string"

definition row_key :: "purge_row \<Rightarrow> purge_cursor" where
  "row_key r = (fst (mr_Timestamp r), mr_ID r, mr_ChatJID r)"

text \<open>The clause on the cursor is there only when its message id is not empty.\<close>

definition past :: "purge_cursor option \<Rightarrow> purge_row \<Rightarrow> bool" where
  "past after r = (case after of None \<Rightarrow> True | Some c \<Rightarrow> fst (snd c) = [] \<or> row_key r > c)"

definition pageSize :: nat where "pageSize = 256"

definition query_page :: "purge_criteria \<Rightarrow> purge_row list \<Rightarrow> purge_cursor option \<Rightarrow> purge_row list" where
  "query_page q table after = take pageSize (sort_key row_key (filter (\<lambda>r. matching q r \<and> past after r) table))"

text \<open>The callback: the new state and whether to go on. The left side of the answer is a walk that stopped.\<close>

type_synonym 's row_callback = "purge_row \<Rightarrow> 's \<Rightarrow> 's \<times> bool"

fun walk_page :: "chatPolicy \<Rightarrow> nat \<Rightarrow> 's row_callback \<Rightarrow> purge_row list \<Rightarrow> nat \<Rightarrow> 's \<Rightarrow> 's + nat \<times> 's" where
  "walk_page policy maxScan fn [] scanned s = Inr (scanned, s)"
| "walk_page policy maxScan fn (r # rs) scanned s =
     (if \<not> cp_Allows policy (mr_ChatJID r) then walk_page policy maxScan fn rs scanned s
      else if scanned \<ge> maxScan then Inl s
      else case fn r s of (s', go) \<Rightarrow> if go then walk_page policy maxScan fn rs (scanned + 1) s' else Inl s')"

text \<open>The loop over the pages, with fuel: \<^term>\<open>None\<close> is a walk that has not ended.\<close>

fun EachMediaRowMatching :: "nat \<Rightarrow> purge_criteria \<Rightarrow> chatPolicy \<Rightarrow> nat \<Rightarrow> 's row_callback \<Rightarrow> purge_row list \<Rightarrow> purge_cursor option
    \<Rightarrow> nat \<Rightarrow> 's \<Rightarrow> (bool \<times> 's) option" where
  "EachMediaRowMatching 0 q policy maxScan fn table after scanned s = None"
| "EachMediaRowMatching (Suc fuel) q policy maxScan fn table after scanned s =
     (let page = query_page q table after
      in case walk_page policy maxScan fn page scanned s of
           Inl s' \<Rightarrow> Some (True, s')
         | Inr (scanned', s') \<Rightarrow>
             if length page < pageSize then Some (False, s')
             else EachMediaRowMatching fuel q policy maxScan fn table
                    (if page = [] then after else Some (row_key (last page))) scanned' s')"

section \<open>The handler\<close>

definition purgeMaxFiles :: nat where "purgeMaxFiles = 500"
definition purgeMaxItems :: nat where "purgeMaxItems = 1000"
definition purgeMaxScan :: nat where "purgeMaxScan = 100000"
definition purgeMaxUnreachable :: nat where "purgeMaxUnreachable = 50"

definition purgeScanLimit :: "int \<Rightarrow> nat" where
  "purgeScanLimit n = (if n > 0 then nat n else purgeMaxScan)"

datatype item_reason = Item_result purge_result | Item_no_store | Item_incomplete | Item_bad_chat | Item_not_allowed | Item_duplicate | Item_not_found

record purge_request =
  pq_items :: "(string \<times> string) list"
  pq_chat :: string
  pq_olderThanDays :: int
  pq_minBytes :: int
  pq_type :: string
  pq_dryRun :: "bool option"
  pq_cursor :: string
  pq_scope :: string
  pq_includeOrphans :: bool

record purge_response =
  ps_DryRun :: bool
  ps_Matched :: nat
  ps_PurgedFiles :: nat
  ps_PurgedBytes :: nat
  ps_Truncated :: bool
  ps_Items :: "item_reason list"
  ps_Remaining :: int
  ps_ScanTruncated :: bool
  ps_Unreachable :: nat
  ps_Failed :: nat
  ps_NextCursor :: "purge_cursor option"
  ps_Examined :: nat

text \<open>What the handler collects while it selects.\<close>

record selection =
  sl_rows :: "purge_row list"
  sl_results :: "item_reason list"
  sl_examined :: nat
  sl_unreachable :: nat
  sl_seen :: "(string \<times> string) list"
  sl_last :: "purge_row option"
  sl_finder :: media_finder

definition no_selection :: selection where
  "no_selection = \<lparr>sl_rows = [], sl_results = [], sl_examined = 0, sl_unreachable = 0, sl_seen = [], sl_last = None, sl_finder = None\<rparr>"

type_synonym row_stamp = "string \<times> int \<Rightarrow> string"

definition probeRow :: "row_stamp \<Rightarrow> media_store \<Rightarrow> purge_row \<Rightarrow> media_finder \<Rightarrow> purge_result \<times> media_finder" where
  "probeRow stamp s row f = (case purgeOneUsing stamp s s True row True f s of (res, f', _) \<Rightarrow> (res, f'))"

definition MediaRow :: "purge_row list \<Rightarrow> string \<Rightarrow> string \<Rightarrow> purge_row option" where
  "MediaRow table mid chat = List.find (\<lambda>r. mr_ID r = mid \<and> mr_ChatJID r = chat) table"

definition reject_item :: "item_reason \<Rightarrow> selection \<Rightarrow> selection" where
  "reject_item e sl = sl\<lparr>sl_results := sl_results sl @ [e]\<rparr>"

text \<open>\<open>opened\<close> is whether the store directory could be opened, \<open>fails\<close> which lookups of a row end in an error of the
  database, for which \<^term>\<open>None\<close> stands.\<close>

definition select_item :: "jid_sdk \<Rightarrow> row_stamp \<Rightarrow> chatPolicy \<Rightarrow> bool \<Rightarrow> (string \<Rightarrow> string \<Rightarrow> bool) \<Rightarrow> media_store \<Rightarrow> purge_row list \<Rightarrow> string \<times> string
    \<Rightarrow> selection \<Rightarrow> selection option" where
  "select_item sdk stamp policy opened fails s table item sl0 =
     (let sl = sl0\<lparr>sl_examined := sl_examined sl0 + 1\<rparr>; mid = TrimSpace (fst item); chat0 = TrimSpace (snd item)
      in if mid = [] \<or> chat0 = [] then Some (reject_item Item_incomplete sl)
         else case canonicalChatJID sdk chat0 False of
                Inl _ \<Rightarrow> Some (reject_item Item_bad_chat sl)
              | Inr j \<Rightarrow>
                  let chat = JIDString sdk j
                  in if \<not> cp_Allows policy chat then Some (reject_item Item_not_allowed sl)
                     else if (mid, chat) \<in> set (sl_seen sl) then Some (reject_item Item_duplicate sl)
                     else let sl1 = sl\<lparr>sl_seen := sl_seen sl @ [(mid, chat)]\<rparr>
                          in if fails mid chat then None
                             else case MediaRow table mid chat of
                               None \<Rightarrow> Some (reject_item Item_not_found sl1)
                             | Some row \<Rightarrow>
                                 if \<not> opened then
                                   Some (reject_item
                                     (if mr_MediaType row = [] \<or> mr_MediaType row = ''reaction'' \<or> mr_MediaType row = ''poll_vote''
                                      then Item_result (purge_answer row Not_media) else Item_no_store) sl1)
                                 else (case probeRow stamp s row (sl_finder sl1) of
                                    (res, f) \<Rightarrow>
                                      let sl2 = sl1\<lparr>sl_finder := f\<rparr>
                                      in Some (if pr_Purged res then sl2\<lparr>sl_rows := sl_rows sl2 @ [row]\<rparr>
                                         else reject_item (Item_result res) sl2)))"

text \<open>The loop over the named items: the selection, the items left and whether the ceiling on rows stopped it.\<close>

fun select_items :: "jid_sdk \<Rightarrow> row_stamp \<Rightarrow> chatPolicy \<Rightarrow> bool \<Rightarrow> (string \<Rightarrow> string \<Rightarrow> bool) \<Rightarrow> media_store \<Rightarrow> purge_row list \<Rightarrow> nat
    \<Rightarrow> (string \<times> string) list \<Rightarrow> selection \<Rightarrow> (selection \<times> nat \<times> bool) option" where
  "select_items sdk stamp policy opened fails s table limit [] sl = Some (sl, 0, False)"
| "select_items sdk stamp policy opened fails s table limit (i # is) sl =
     (if length (sl_rows sl) \<ge> purgeMaxFiles \<or> sl_examined sl \<ge> limit then Some (sl, Suc (length is), sl_examined sl \<ge> limit)
      else case select_item sdk stamp policy opened fails s table i sl of
             None \<Rightarrow> None
           | Some sl' \<Rightarrow> select_items sdk stamp policy opened fails s table limit is sl')"

text \<open>The callback of the criteria form. \<open>hungup\<close> is the caller going away before the n-th row.\<close>

definition select_row :: "row_stamp \<Rightarrow> media_store \<Rightarrow> int \<Rightarrow> (nat \<Rightarrow> bool) \<Rightarrow> selection row_callback" where
  "select_row stamp s minBytes hungup row sl =
     (if hungup (sl_examined sl) then (sl, False)
      else case probeRow stamp s row (sl_finder sl) of
             (res, f) \<Rightarrow>
               let sl1 = sl\<lparr>sl_last := Some row, sl_examined := sl_examined sl + 1, sl_finder := f\<rparr>;
                   sl2 = (if pr_Purged res \<and> int (pr_Bytes res) \<ge> minBytes then sl1\<lparr>sl_rows := sl_rows sl1 @ [row]\<rparr>
                          else if pr_Purged res then sl1
                          else if pr_Reason res \<noteq> Not_cached then
                            (let n = sl_unreachable sl1 + 1
                             in sl1\<lparr>sl_unreachable := n,
                                    sl_results := (if n \<le> purgeMaxUnreachable then sl_results sl1 @ [Item_result res] else sl_results sl1)\<rparr>)
                          else sl1)
               in (sl2, length (sl_rows sl2) < purgeMaxFiles))"

fun delete_rows :: "row_stamp \<Rightarrow> (purge_row \<Rightarrow> bool) \<Rightarrow> bool \<Rightarrow> purge_row list \<Rightarrow> media_finder \<Rightarrow> media_store
    \<Rightarrow> purge_result list \<times> media_finder \<times> media_store" where
  "delete_rows stamp unlinks dry [] f s = ([], f, s)"
| "delete_rows stamp unlinks dry (r # rs) f s =
     (case purgeOneUsing stamp s s (unlinks r) r dry f s of
        (res, f1, s1) \<Rightarrow> (case delete_rows stamp unlinks dry rs f1 s1 of (ress, f2, s2) \<Rightarrow> (res # ress, f2, s2)))"

text \<open>\<open>n\<close> is how many rows were handled before the request's context ended.\<close>

definition Delete_rows :: "row_stamp \<Rightarrow> (purge_row \<Rightarrow> bool) \<Rightarrow> nat \<Rightarrow> bool \<Rightarrow> purge_row list \<Rightarrow> media_finder \<Rightarrow> media_store
    \<Rightarrow> purge_result list \<times> bool \<times> media_store" where
  "Delete_rows stamp unlinks n dry rows f s =
     (case delete_rows stamp unlinks dry (take n rows) f s of (ress, _, s') \<Rightarrow> (ress, n < length rows, s'))"

section \<open>The operator's purge\<close>

record operatorMediaPurge =
  oq_Type :: string
  oq_Chat :: string
  oq_OlderDays :: int
  oq_DryRun :: "bool option"
  oq_IncludeOrphans :: bool

record operatorMediaResult =
  ov_DryRun :: bool
  ov_Files :: nat
  ov_FreedBytes :: nat
  ov_OrphanFiles :: nat
  ov_OrphanBytes :: nat
  ov_Failed :: nat

definition statusChat :: string where "statusChat = ''status@broadcast''"

text \<open>What one such purge meets: the names the root and its directories list, the cutoff for a number of days, the
  modification time of a file and whether it can be unlinked, when the context ends or a page of rows cannot be read
  (before the n-th row, after the rows, at a file of the last walk), whether the first walk fails and whether the last
  one reports an error, and whether the streamed answer is cut before its end.\<close>

record operator_world =
  ot_tables :: media_tables
  ot_names :: "string list"
  ot_entries :: "nat \<Rightarrow> string list"
  ot_before :: "int \<Rightarrow> int"
  ot_mtime :: "cachedMedia \<Rightarrow> int"
  ot_unlinks :: "cachedMedia \<Rightarrow> bool"
  ot_removable :: "purge_row \<Rightarrow> bool"
  ot_listed :: bool
  ot_stop :: "nat \<Rightarrow> bool"
  ot_ended :: bool
  ot_skip :: "cachedMedia \<Rightarrow> bool"
  ot_error :: bool
  ot_cut :: bool
  ot_fuel :: nat

record operator_walk =
  ok_result :: operatorMediaResult
  ok_orphans :: "string list"
  ok_finder :: media_finder
  ok_store :: media_store
  ok_examined :: nat

definition count_failed :: "operator_walk \<Rightarrow> operator_walk" where
  "count_failed k = k\<lparr>ok_result := (ok_result k)\<lparr>ov_Failed := ov_Failed (ok_result k) + 1\<rparr>\<rparr>"

definition count_freed :: "nat \<Rightarrow> operator_walk \<Rightarrow> operator_walk" where
  "count_freed n k = k\<lparr>ok_result := (ok_result k)\<lparr>ov_Files := ov_Files (ok_result k) + 1, ov_FreedBytes := ov_FreedBytes (ok_result k) + n\<rparr>\<rparr>"

definition remove_found :: "operator_world \<Rightarrow> bool \<Rightarrow> cachedMedia \<Rightarrow> operator_walk \<Rightarrow> operator_walk" where
  "remove_found w dry c k =
     (if \<not> dry \<and> \<not> ot_unlinks w c then count_failed k
      else count_freed (cm_size c) (if dry then k else k\<lparr>ok_store := Remove_cached c (ok_store k)\<rparr>))"

text \<open>One of the names of a status row.\<close>

definition purge_name :: "operator_world \<Rightarrow> bool \<Rightarrow> string \<Rightarrow> string \<Rightarrow> operator_walk \<Rightarrow> operator_walk" where
  "purge_name w dry chat name k =
     (case finder_find (ok_store k) (ok_store k) (ok_store k) (ok_finder k) (chatMediaRel chat) [name] of
        ((None, err), f) \<Rightarrow> (if err = None then k\<lparr>ok_finder := f\<rparr> else count_failed (k\<lparr>ok_finder := f\<rparr>))
      | ((Some c, _), f) \<Rightarrow> remove_found w dry c (k\<lparr>ok_finder := f\<rparr>))"

definition first_of_each :: "'a list \<Rightarrow> 'a list" where
  "first_of_each xs = rev (remdups (rev xs))"

definition row_names :: "row_stamp \<Rightarrow> purge_row \<Rightarrow> string list" where
  "row_names stamp row = mediaFileNames stamp (mr_MediaType row) (mr_Timestamp row) (mr_ID row) (mr_Filename row)"

definition operator_row :: "row_stamp \<Rightarrow> operator_world \<Rightarrow> operatorMediaPurge \<Rightarrow> bool \<Rightarrow> operator_walk row_callback" where
  "operator_row stamp w req dry row k0 =
     (let k = k0\<lparr>ok_examined := ok_examined k0 + 1\<rparr>
      in if ot_stop w (ok_examined k0) then (k, False)
         else if oq_Type req \<noteq> ''all'' \<and> oq_Type req \<noteq> ''status'' \<and> mr_ChatJID row = statusChat then (k, True)
         else
           let names = row_names stamp row;
               k1 = k\<lparr>ok_orphans := filter (\<lambda>n. n \<notin> set names \<or> \<not> checkMediaPathComponents (chatMediaRel (mr_ChatJID row)) n) (ok_orphans k)\<rparr>
           in if oq_OlderDays req > 0 \<and> \<not> snd (mr_Timestamp row) < ot_before w (oq_OlderDays req) then (k1, True)
              else if oq_Type req = ''status'' then (fold (purge_name w dry (mr_ChatJID row)) (first_of_each names) k1, True)
              else case purgeOneUsing stamp (ok_store k1) (ok_store k1) (ot_removable w row) row dry (ok_finder k1) (ok_store k1) of
                     (res, f, s) \<Rightarrow>
                       let k2 = k1\<lparr>ok_finder := f, ok_store := s\<rparr>
                       in (if pr_Purged res then count_freed (pr_Bytes res) k2
                           else if pr_Reason res \<noteq> Not_cached then count_failed k2 else k2, True))"

text \<open>A file of the status chat that no row named, in the last walk.\<close>

definition purge_orphan :: "operator_world \<Rightarrow> operatorMediaPurge \<Rightarrow> bool \<Rightarrow> string \<times> cachedMedia \<Rightarrow> operator_walk \<Rightarrow> operator_walk" where
  "purge_orphan w req dry cf k =
     (case cf of (chat, file) \<Rightarrow>
        if ot_skip w file \<or> chat \<noteq> statusChat \<or> cm_name file \<notin> set (ok_orphans k)
          \<or> (oq_OlderDays req > 0 \<and> \<not> ot_mtime w file < ot_before w (oq_OlderDays req)) then k
        else let k1 = k\<lparr>ok_result := (ok_result k)\<lparr>ov_OrphanFiles := ov_OrphanFiles (ok_result k) + 1,
                    ov_OrphanBytes := ov_OrphanBytes (ok_result k) + cm_size file\<rparr>\<rparr>
             in if \<not> oq_IncludeOrphans req then k1 else remove_found w dry file k1)"

definition max_int :: nat where "max_int = 2 ^ 63 - 1"

text \<open>\<^verbatim>\<open>purgeOperatorMediaProgress\<close> on local storage: the result, whether it came with an error, and the store.\<close>

definition purgeOperatorMediaProgress :: "row_stamp \<Rightarrow> bool \<Rightarrow> operator_world \<Rightarrow> purge_row list \<Rightarrow> operatorMediaPurge \<Rightarrow> media_store
    \<Rightarrow> (operatorMediaResult \<times> bool \<times> media_store) option" where
  "purgeOperatorMediaProgress stamp opened w table req s =
     (let dry = (case oq_DryRun req of None \<Rightarrow> True | Some b \<Rightarrow> b);
          r0 = \<lparr>ov_DryRun = dry, ov_Files = 0, ov_FreedBytes = 0, ov_OrphanFiles = 0, ov_OrphanBytes = 0, ov_Failed = 0\<rparr>;
          kind = (if oq_Type req = ''all'' \<or> oq_Type req = ''status'' then [] else oq_Type req);
          listed = (if oq_Type req = ''status'' then eachCachedMedia (ot_tables w) s (ot_entries w) (ot_names w) else []);
          k0 = \<lparr>ok_result = r0, ok_orphans = map (\<lambda>(c, f). cm_name f) (filter (\<lambda>(c, f). c = statusChat) listed),
                ok_finder = None, ok_store = s, ok_examined = 0\<rparr>
      in if \<not> opened \<or> (oq_Type req = ''status'' \<and> \<not> ot_listed w) then Some (r0, True, s)
         else case EachMediaRowMatching (ot_fuel w) \<lparr>pc_chat = oq_Chat req, pc_before = None, pc_type = kind\<rparr> zero_chatPolicy max_int
                     (operator_row stamp w req dry) table None 0 k0 of
                None \<Rightarrow> None
              | Some (stopped, k) \<Rightarrow>
                  if stopped \<and> ot_stop w (ok_examined k - 1) \<or> ot_ended w then Some (ok_result k, True, ok_store k)
                  else let k' = (if oq_Type req = ''status''
                                 then fold (purge_orphan w req dry) (eachCachedMedia (ot_tables w) (ok_store k) (ot_entries w) (ot_names w)) k
                                 else k)
                       in Some (ok_result k', ot_error w, ok_store k'))"

datatype purge_answer_code =
    Purge_status nat
  | Purge_done purge_response
  | Purge_streamed operatorMediaResult bool
  | Purge_aborted

definition streamMediaPurge :: "row_stamp \<Rightarrow> bool \<Rightarrow> operator_world \<Rightarrow> purge_row list \<Rightarrow> operatorMediaPurge \<Rightarrow> media_store
    \<Rightarrow> (purge_answer_code \<times> media_store) option" where
  "streamMediaPurge stamp opened w table req s =
     (if \<not> opened then Some (Purge_status 503, s)
      else map_option (\<lambda>(result, err, s'). (if ot_cut w then Purge_aborted else Purge_streamed result (\<not> err), s'))
             (purgeOperatorMediaProgress stamp opened w table req s))"

definition handleOperatorMediaPurge :: "jid_sdk \<Rightarrow> row_stamp \<Rightarrow> bool \<Rightarrow> operator_world \<Rightarrow> purge_row list \<Rightarrow> operatorMediaPurge option \<Rightarrow> media_store
    \<Rightarrow> (purge_answer_code \<times> media_store) option" where
  "handleOperatorMediaPurge sdk stamp opened w table body s =
     (case body of
        None \<Rightarrow> Some (Purge_status 400, s)
      | Some req \<Rightarrow>
          if oq_Type req \<noteq> ''all'' \<and> oq_Type req \<noteq> ''status'' \<and> oq_Type req \<notin> set purgeMediaTypes then Some (Purge_status 400, s)
          else if oq_OlderDays req < 0 \<or> oq_OlderDays req > 106751 \<or> (oq_IncludeOrphans req \<and> oq_Type req \<noteq> ''status'')
            then Some (Purge_status 400, s)
          else case (if oq_Chat req = [] then Some []
                     else case canonicalChatJID sdk (oq_Chat req) False of
                            Inl _ \<Rightarrow> None
                          | Inr j \<Rightarrow> if checkMediaPathComponents (chatMediaRel (JIDString sdk j)) ''probe'' then Some (JIDString sdk j) else None) of
                 None \<Rightarrow> Some (Purge_status 400, s)
               | Some chat \<Rightarrow>
                   if oq_Type req = ''status'' \<and> chat \<noteq> [] \<and> chat \<noteq> statusChat then Some (Purge_status 400, s)
                   else if \<not> opened then Some (Purge_status 503, s)
                   else streamMediaPurge stamp opened w table (req\<lparr>oq_Chat := (if oq_Type req = ''status'' then statusChat else chat)\<rparr>) s)"

section \<open>The answer of the handler\<close>

definition finish_purge :: "bool \<Rightarrow> selection \<Rightarrow> bool \<Rightarrow> bool \<Rightarrow> int \<Rightarrow> purge_cursor option \<Rightarrow> purge_result list \<Rightarrow> purge_response" where
  "finish_purge dry sl truncated scanTruncated remaining cursor deleted =
     (let removed = filter pr_Purged deleted;
          failed = (if dry then 0 else length (filter (\<lambda>r. \<not> pr_Purged r) deleted));
          stuck = (\<not> dry \<and> failed > 0 \<and> removed = [])
      in \<lparr>ps_DryRun = dry, ps_Matched = length (sl_rows sl), ps_PurgedFiles = length removed,
          ps_PurgedBytes = sum_list (map pr_Bytes removed), ps_Truncated = (if stuck then False else truncated),
          ps_Items = sl_results sl @ map Item_result deleted, ps_Remaining = remaining, ps_ScanTruncated = scanTruncated,
          ps_Unreachable = sl_unreachable sl, ps_Failed = failed, ps_NextCursor = (if stuck then None else cursor),
          ps_Examined = sl_examined sl\<rparr>)"

text \<open>The world of one request: the table, whether the store directory is open and which queries fail, the clock's cutoff for a number of days, which files can be unlinked,
  when the caller hangs up, how many deletions run before the context ends and how a cursor is decoded and
  written (\<open>pw_canon\<close> is the column text of an instant and \<open>pw_zero\<close> the one of the zero time).\<close>

record purge_world =
  pw_table :: "purge_row list"
  pw_root :: bool
  pw_lookupFails :: "string \<Rightarrow> string \<Rightarrow> bool"
  pw_queryFails :: bool
  pw_operator :: operator_world
  pw_cutoff :: "int \<Rightarrow> string"
  pw_removable :: "purge_row \<Rightarrow> bool"
  pw_hungup :: "nat \<Rightarrow> bool"
  pw_deletes :: nat
  pw_decode :: "string \<Rightarrow> purge_cursor option"
  pw_canon :: "int \<Rightarrow> string"
  pw_zero :: string
  pw_limit :: int
  pw_fuel :: nat

definition decodePurgeCursor :: "purge_world \<Rightarrow> string \<Rightarrow> purge_cursor option option" where
  "decodePurgeCursor w c =
     (if c = [] then Some None
      else if length c > 4096 then None
      else case pw_decode w c of
             None \<Rightarrow> None
           | Some (t, i, ch) \<Rightarrow> if i = [] \<or> ch = [] then None else Some (Some (t, i, ch)))"

definition encodePurgeCursor :: "purge_world \<Rightarrow> purge_row \<Rightarrow> purge_cursor" where
  "encodePurgeCursor w r = (pw_canon w (snd (mr_Timestamp r)), mr_ID r, mr_ChatJID r)"

definition purge_items :: "jid_sdk \<Rightarrow> row_stamp \<Rightarrow> chatPolicy \<Rightarrow> purge_world \<Rightarrow> purge_request \<Rightarrow> media_store \<Rightarrow> purge_answer_code \<times> media_store" where
  "purge_items sdk stamp policy w req s =
     (let dry = (case pq_dryRun req of None \<Rightarrow> True | Some b \<Rightarrow> b)
      in case select_items sdk stamp policy (pw_root w) (pw_lookupFails w) s (pw_table w) (purgeScanLimit (pw_limit w)) (pq_items req) no_selection of
           None \<Rightarrow> (Purge_status 500, s)
         | Some (sl, left, scanCut) \<Rightarrow>
             (case Delete_rows stamp (pw_removable w) (pw_deletes w) dry (sl_rows sl) (sl_finder sl) s of
                (deleted, err, s') \<Rightarrow>
                  if err \<and> length deleted < length (sl_rows sl) then (Purge_status 503, s')
                  else (Purge_done (finish_purge dry sl (left > 0) scanCut (int left) None deleted), s')))"

definition purge_by_criteria :: "row_stamp \<Rightarrow> chatPolicy \<Rightarrow> purge_world \<Rightarrow> purge_request \<Rightarrow> string \<Rightarrow> purge_cursor option \<Rightarrow> media_store
    \<Rightarrow> (purge_answer_code \<times> media_store) option" where
  "purge_by_criteria stamp policy w req chat after s =
     (let dry = (case pq_dryRun req of None \<Rightarrow> True | Some b \<Rightarrow> b);
          limit = purgeScanLimit (pw_limit w);
          q = \<lparr>pc_chat = chat, pc_before = (if pq_olderThanDays req > 0 then Some (pw_cutoff w (pq_olderThanDays req)) else None),
               pc_type = TrimSpace (pq_type req)\<rparr>
      in if \<not> pw_root w \<or> pw_queryFails w then Some (Purge_status 500, s)
         else case EachMediaRowMatching (pw_fuel w) q policy limit (select_row stamp s (pq_minBytes req) (pw_hungup w)) (pw_table w) after 0 no_selection of
           None \<Rightarrow> None
         | Some (scanCut, sl) \<Rightarrow>
             let scanTruncated = (scanCut \<and> sl_examined sl \<ge> limit \<and> length (sl_rows sl) < purgeMaxFiles);
                 cursor = (if scanCut then (case sl_last sl of Some r \<Rightarrow> Some (encodePurgeCursor w r) | None \<Rightarrow> Some (pw_zero w, [], [])) else None)
             in case Delete_rows stamp (pw_removable w) (pw_deletes w) dry (sl_rows sl) (sl_finder sl) s of
                  (deleted, err, s') \<Rightarrow>
                    Some (if err \<and> length deleted < length (sl_rows sl) then (Purge_status 503, s')
                          else (Purge_done (finish_purge dry sl scanCut scanTruncated (if scanCut then -1 else 0) cursor deleted), s')))"

definition handleMediaPurge :: "jid_sdk \<Rightarrow> row_stamp \<Rightarrow> chatPolicy \<Rightarrow> purge_world \<Rightarrow> purge_request option \<Rightarrow> media_store
    \<Rightarrow> (purge_answer_code \<times> media_store) option" where
  "handleMediaPurge sdk stamp policy w body s =
     (case body of
        None \<Rightarrow> Some (Purge_status 400, s)
      | Some req \<Rightarrow>
          if pq_scope req \<noteq> [] \<or> pq_includeOrphans req then
            (if pq_scope req \<noteq> ''status'' \<or> pq_items req \<noteq> [] \<or> pq_cursor req \<noteq> [] \<or> pq_chat req \<noteq> [] \<or> pq_type req \<noteq> []
                \<or> pq_olderThanDays req \<noteq> 0 \<or> pq_minBytes req \<noteq> 0 then Some (Purge_status 400, s)
             else streamMediaPurge stamp (pw_root w) (pw_operator w) (pw_table w)
                    \<lparr>oq_Type = ''status'', oq_Chat = statusChat, oq_OlderDays = 0, oq_DryRun = pq_dryRun req,
                     oq_IncludeOrphans = pq_includeOrphans req\<rparr> s)
          else if length (pq_items req) > purgeMaxItems then Some (Purge_status 400, s)
          else case decodePurgeCursor w (pq_cursor req) of
                 None \<Rightarrow> Some (Purge_status 400, s)
               | Some after \<Rightarrow>
                   let chat = TrimSpace (pq_chat req); mtype = TrimSpace (pq_type req)
                   in if pq_cursor req \<noteq> [] \<and> pq_items req \<noteq> [] then Some (Purge_status 400, s)
                      else if mtype \<noteq> [] \<and> mtype \<notin> set purgeMediaTypes then Some (Purge_status 400, s)
                      else if pq_items req = [] \<and> chat = [] \<and> pq_olderThanDays req = 0 \<and> pq_minBytes req = 0 \<and> mtype = []
                        then Some (Purge_status 400, s)
                      else if pq_olderThanDays req < 0 \<or> pq_minBytes req < 0 then Some (Purge_status 400, s)
                      else case (if chat = [] then Inr [] else map_sum id (JIDString sdk) (authorizeChat sdk policy chat False)) of
                             Inl status \<Rightarrow> Some (Purge_status status, s)
                           | Inr chat' \<Rightarrow>
                               if pq_items req \<noteq> [] then Some (purge_items sdk stamp policy w req s)
                               else purge_by_criteria stamp policy w req chat' after s)"

section \<open>Retention\<close>

definition day :: duration where "day = 24 * hour"

text \<open>\<^verbatim>\<open>resolveMediaRetention\<close>: \<^term>\<open>None\<close> is the error that stops the start.\<close>

definition resolveMediaRetention :: "string \<Rightarrow> duration option" where
  "resolveMediaRetention setting =
     (let v = TrimSpace setting
      in if v = [] then Some 0
         else case Atoi v of
                None \<Rightarrow> None
              | Some days \<Rightarrow> if days < 0 \<or> days > max_int64 div day then None else Some (days * day))"

definition defaultMediaMaxBytes :: nat where "defaultMediaMaxBytes = 256 * 1024 * 1024"

definition resolveMediaMaxBytes :: "string \<Rightarrow> nat option" where
  "resolveMediaMaxBytes setting = (let v = TrimSpace setting in if v = [] then Some defaultMediaMaxBytes else ParseUint 64 v)"

definition isStatusChat :: "jid \<Rightarrow> bool" where
  "isStatusChat chat \<longleftrightarrow> User chat = ''status'' \<and> Server chat = ''broadcast''"

definition skipsStatusMedia :: "bool \<Rightarrow> bool \<Rightarrow> jid \<Rightarrow> bool" where
  "skipsStatusMedia autoDownload statusEnabled chat \<longleftrightarrow> isStatusChat chat \<and> \<not> (autoDownload \<and> statusEnabled)"

record sweep_result =
  sw_removed :: nat
  sw_freed :: nat
  sw_failed :: nat
  sw_store :: media_store

definition sweep_age :: "duration \<Rightarrow> duration option \<Rightarrow> string \<Rightarrow> duration" where
  "sweep_age maxAge statusAge chat =
     (if chat = ''status@broadcast'' then (case statusAge of Some a \<Rightarrow> a | None \<Rightarrow> maxAge) else maxAge)"

definition expired :: "duration \<Rightarrow> duration option \<Rightarrow> instant \<Rightarrow> (cachedMedia \<Rightarrow> instant) \<Rightarrow> string \<times> cachedMedia \<Rightarrow> bool" where
  "expired maxAge statusAge now modTime e \<longleftrightarrow>
     (let age = sweep_age maxAge statusAge (fst e) in 0 < age \<and> modTime (snd e) < now - age)"

definition sweep_file :: "duration \<Rightarrow> duration option \<Rightarrow> instant \<Rightarrow> (cachedMedia \<Rightarrow> instant) \<Rightarrow> (cachedMedia \<Rightarrow> bool)
    \<Rightarrow> string \<times> cachedMedia \<Rightarrow> sweep_result \<Rightarrow> sweep_result" where
  "sweep_file maxAge statusAge now modTime unlinks e r =
     (if \<not> expired maxAge statusAge now modTime e then r
      else if \<not> unlinks (snd e) then r\<lparr>sw_failed := sw_failed r + 1\<rparr>
      else r\<lparr>sw_removed := sw_removed r + 1, sw_freed := sw_freed r + cm_size (snd e), sw_store := Remove_cached (snd e) (sw_store r)\<rparr>)"

text \<open>\<open>walked\<close> is what the walk over the cache handed out and whether it failed.\<close>

definition sweepMediaWithStatus :: "duration \<Rightarrow> duration option \<Rightarrow> instant \<Rightarrow> (cachedMedia \<Rightarrow> instant) \<Rightarrow> (cachedMedia \<Rightarrow> bool)
    \<Rightarrow> (string \<times> cachedMedia) list \<Rightarrow> bool \<Rightarrow> media_store \<Rightarrow> sweep_result" where
  "sweepMediaWithStatus maxAge statusAge now modTime unlinks walked failed s =
     (let r = fold (sweep_file maxAge statusAge now modTime unlinks) walked \<lparr>sw_removed = 0, sw_freed = 0, sw_failed = 0, sw_store = s\<rparr>
      in if failed then r\<lparr>sw_failed := sw_failed r + 1\<rparr> else r)"

definition sweepMedia :: "duration \<Rightarrow> instant \<Rightarrow> (cachedMedia \<Rightarrow> instant) \<Rightarrow> (cachedMedia \<Rightarrow> bool)
    \<Rightarrow> (string \<times> cachedMedia) list \<Rightarrow> bool \<Rightarrow> media_store \<Rightarrow> sweep_result" where
  "sweepMedia maxAge now modTime unlinks walked failed s = sweepMediaWithStatus maxAge None now modTime unlinks walked failed s"

definition storeUsageTTL :: duration where "storeUsageTTL = 5 * minute"

record storeStats =
  sts_measuredAt :: "instant option"
  sts_usage :: "nat \<times> nat \<times> nat \<times> nat \<times> nat"

definition snapshotScoped :: "(nat \<times> nat \<times> nat \<times> nat \<times> nat) \<Rightarrow> instant \<Rightarrow> storeStats \<Rightarrow> (nat \<times> nat \<times> nat \<times> nat \<times> nat) \<times> storeStats" where
  "snapshotScoped measured now st =
     (let st' = (case sts_measuredAt st of
            Some t \<Rightarrow> if now - t > storeUsageTTL then st\<lparr>sts_measuredAt := Some now, sts_usage := measured\<rparr> else st
          | None \<Rightarrow> st\<lparr>sts_measuredAt := Some now, sts_usage := measured\<rparr>)
      in (sts_usage st', st'))"

definition invalidate_stats :: "storeStats \<Rightarrow> storeStats" where
  "invalidate_stats st = st\<lparr>sts_measuredAt := None\<rparr>"

section \<open>Byte ranges\<close>

definition maxMediaChunkBytes :: int where "maxMediaChunkBytes = 4 * 1024 * 1024"

text \<open>\<^verbatim>\<open>openMediaRange\<close> on a reader that can seek: the whole and the bytes handed out. \<open>opened\<close> is the size of the
  file, when it could be opened.\<close>

definition openMediaRange :: "int option \<Rightarrow> int \<Rightarrow> int \<Rightarrow> unit + int \<times> int" where
  "openMediaRange opened offset len =
     (if offset < 0 \<or> len < 1 \<or> len > maxMediaChunkBytes then Inl ()
      else case opened of
             None \<Rightarrow> Inl ()
           | Some whole \<Rightarrow> if offset > whole then Inl () else Inr (whole, min len (whole - offset)))"

lemma media_range_in_file:
  "openMediaRange (Some bytes) offset len = Inr (whole, n) \<Longrightarrow> 0 \<le> offset \<and> 0 \<le> n \<and> offset + n \<le> whole \<and> n \<le> maxMediaChunkBytes \<and> whole = bytes"
  by (auto simp: openMediaRange_def split: if_splits)

text \<open>The retention sweep takes away expired cached files only, and none when its age is off.\<close>

lemma sweep_only_expired:
  assumes "ms_dirs (sw_store (sweepMediaWithStatus maxAge statusAge now modTime unlinks walked failed s)) d n \<noteq> ms_dirs s d n"
  shows "\<exists>e \<in> set walked. expired maxAge statusAge now modTime e \<and> d = cm_dir (snd e) \<and> n = cm_name (snd e)"
proof -
  have run: "\<exists>e \<in> set es. expired maxAge statusAge now modTime e \<and> d = cm_dir (snd e) \<and> n = cm_name (snd e)"
    if "ms_dirs (sw_store (fold (sweep_file maxAge statusAge now modTime unlinks) es r)) d n \<noteq> ms_dirs (sw_store r) d n" for es r
    using that
  proof (induction es arbitrary: r)
    case (Cons e es)
    let ?r = "sweep_file maxAge statusAge now modTime unlinks e r"
    show ?case
    proof (cases "ms_dirs (sw_store ?r) d n = ms_dirs (sw_store r) d n")
      case True
      with Cons.IH [of ?r] Cons.prems show ?thesis by auto
    next
      case False
      then have "expired maxAge statusAge now modTime e \<and> d = cm_dir (snd e) \<and> n = cm_name (snd e)"
        by (auto simp: sweep_file_def Remove_cached_def split: if_splits)
      then show ?thesis by auto
    qed
  qed simp
  let ?r = "\<lparr>sw_removed = 0, sw_freed = 0, sw_failed = 0, sw_store = s\<rparr>"
  have "ms_dirs (sw_store (fold (sweep_file maxAge statusAge now modTime unlinks) walked ?r)) d n \<noteq> ms_dirs (sw_store ?r) d n"
    using assms by (simp add: sweepMediaWithStatus_def Let_def split: if_splits)
  then show ?thesis by (rule run)
qed

lemma resolveMediaRetention_range: "resolveMediaRetention v = Some d \<Longrightarrow> 0 \<le> d \<and> d \<le> max_int64"
proof -
  assume a: "resolveMediaRetention v = Some d"
  have pos: "0 < day" by (simp add: day_def time_unit_defs)
  have "n * day \<le> max_int64" if "n \<le> max_int64 div day" for n
  proof -
    have "n * day \<le> (max_int64 div day) * day" using that pos by (intro mult_right_mono) auto
    also have "\<dots> \<le> max_int64" using div_mult_mod_eq [of max_int64 day] pos_mod_sign [OF pos, of max_int64] by linarith
    finally show ?thesis .
  qed
  with a pos show ?thesis
    by (auto simp: resolveMediaRetention_def Let_def split: if_splits option.splits)
qed

section \<open>Pages and the whole list\<close>

definition matching_rows :: "purge_criteria \<Rightarrow> purge_row list \<Rightarrow> purge_cursor option \<Rightarrow> purge_row list" where
  "matching_rows q table after = filter (past after) (sort_key row_key (filter (matching q) table))"

definition scan_all :: "chatPolicy \<Rightarrow> nat \<Rightarrow> 's row_callback \<Rightarrow> purge_row list \<Rightarrow> nat \<Rightarrow> 's \<Rightarrow> bool \<times> 's" where
  "scan_all policy maxScan fn rs n s =
     (case walk_page policy maxScan fn rs n s of Inl s' \<Rightarrow> (True, s') | Inr (_, s') \<Rightarrow> (False, s'))"

text \<open>The table's primary key is the pair of message and chat, and every message has an id.\<close>

definition table_ok :: "purge_row list \<Rightarrow> bool" where
  "table_ok table \<longleftrightarrow> distinct (map (\<lambda>r. (mr_ID r, mr_ChatJID r)) table) \<and> list_all (\<lambda>r. mr_ID r \<noteq> []) table"

lemma query_page_rows: "query_page q table after = take pageSize (matching_rows q table after)"
  by (simp add: query_page_def matching_rows_def filter_sort conj_commute)

lemma walk_page_append:
  "walk_page policy m fn (xs @ ys) n s =
     (case walk_page policy m fn xs n s of Inl s' \<Rightarrow> Inl s' | Inr (n', s') \<Rightarrow> walk_page policy m fn ys n' s')"
  by (induction xs arbitrary: n s) (auto split: prod.split)

lemma table_ok_keys: "table_ok table \<Longrightarrow> distinct (map row_key table)"
  by (auto simp: table_ok_def distinct_map inj_on_def row_key_def)

lemma strictly_sorted: "table_ok table \<Longrightarrow> sorted_wrt (\<lambda>a b. row_key a < row_key b) (sort_key row_key (filter (matching q) table))"
proof -
  let ?S = "sort_key row_key (filter (matching q) table)"
  assume "table_ok table"
  then have "distinct (map row_key (filter (matching q) table))" by (intro distinct_map_filter table_ok_keys)
  then have "distinct (map row_key ?S)" by (simp add: distinct_map)
  then have "sorted_wrt (<) (map row_key ?S)" by (simp add: strict_sorted_iff)
  then show ?thesis by (simp add: sorted_wrt_map)
qed

lemma filter_after_last:
  assumes "sorted_wrt (\<lambda>a b. row_key a < row_key b) L" "0 < k" "k \<le> length L"
  shows "filter (\<lambda>r. row_key (L ! (k - 1)) < row_key r) L = drop k L"
proof -
  have "filter (\<lambda>r. row_key (L ! (k - 1)) < row_key r) (take k L) = []"
  proof (rule filter_False, intro ballI)
    fix r assume "r \<in> set (take k L)"
    then obtain i where "i < k" "i < length L" "r = L ! i" by (auto simp: in_set_conv_nth)
    moreover from this have "i = k - 1 \<or> i < k - 1" by auto
    moreover have "k - 1 < length L" using assms(2,3) by linarith
    ultimately show "\<not> row_key (L ! (k - 1)) < row_key r"
      using sorted_wrt_nth_less [OF assms(1), of i "k - 1"] by (auto dest: less_not_sym)
  qed
  moreover have "filter (\<lambda>r. row_key (L ! (k - 1)) < row_key r) (drop k L) = drop k L"
  proof (rule filter_True, intro ballI)
    fix r assume "r \<in> set (drop k L)"
    then obtain i where "i < length (drop k L)" "r = drop k L ! i" by (auto simp: in_set_conv_nth)
    then have "k + i < length L" "r = L ! (k + i)" by simp_all
    then show "row_key (L ! (k - 1)) < row_key r"
      using sorted_wrt_nth_less [OF assms(1), of "k - 1" "k + i"] assms(2) by simp
  qed
  ultimately show ?thesis by (metis append_Nil append_take_drop_id filter_append)
qed

text \<open>Going on behind the k-th row leaves the rows after it.\<close>

lemma matching_rows_after:
  assumes "table_ok table" "0 < k" "k \<le> length (matching_rows q table after)"
  shows "matching_rows q table (Some (row_key (matching_rows q table after ! (k - 1)))) = drop k (matching_rows q table after)"
proof -
  let ?S = "sort_key row_key (filter (matching q) table)"
  let ?L = "matching_rows q table after"
  let ?c = "row_key (?L ! (k - 1))"
  have ss: "sorted_wrt (\<lambda>a b. row_key a < row_key b) ?L"
    unfolding matching_rows_def by (intro sorted_wrt_filter strictly_sorted assms(1))
  have mem: "?L ! (k - 1) \<in> set ?L" using assms(2,3) by (intro nth_mem) simp
  have sub: "set ?L \<subseteq> set table" by (auto simp: matching_rows_def)
  have id: "mr_ID (?L ! (k - 1)) \<noteq> []" using mem sub assms(1) by (auto simp: table_ok_def list_all_iff)
  have above: "past after r" if "?c < row_key r" for r
  proof -
    have "past after (?L ! (k - 1))" using mem by (simp add: matching_rows_def)
    with that show ?thesis by (auto simp: past_def split: option.splits intro: less_trans)
  qed
  have "fst (snd ?c) \<noteq> []" using id by (simp add: row_key_def)
  then have "matching_rows q table (Some ?c) = filter (\<lambda>r. ?c < row_key r) ?S"
    unfolding matching_rows_def by (intro filter_cong) (simp_all add: past_def)
  also have "\<dots> = filter (\<lambda>r. ?c < row_key r) (filter (past after) ?S)"
    unfolding filter_filter by (intro filter_cong refl) (use above in blast)
  also have "\<dots> = filter (\<lambda>r. ?c < row_key r) ?L" by (simp only: matching_rows_def)
  also have "\<dots> = drop k ?L" by (rule filter_after_last [OF ss assms(2,3)])
  finally show ?thesis .
qed

lemma each_rows_exact:
  "table_ok table \<Longrightarrow> length (matching_rows q table after) < fuel \<Longrightarrow>
    EachMediaRowMatching fuel q policy m fn table after n s = Some (scan_all policy m fn (matching_rows q table after) n s)"
proof (induction fuel arbitrary: after n s)
  case (Suc fuel)
  let ?L = "matching_rows q table after"
  have page: "query_page q table after = take pageSize ?L" by (rule query_page_rows)
  show ?case
  proof (cases "length ?L < pageSize")
    case True
    with page show ?thesis by (auto simp: Let_def scan_all_def split: sum.split prod.split)
  next
    case False
    let ?page = "take pageSize ?L"
    have ne: "?page \<noteq> []" "length ?page = pageSize" using False by (auto simp: pageSize_def)
    have last: "last ?page = ?L ! (pageSize - 1)" using ne False by (simp add: last_conv_nth pageSize_def)
    have rest: "matching_rows q table (Some (row_key (last ?page))) = drop pageSize ?L"
      unfolding last using False Suc.prems(1) by (intro matching_rows_after) (auto simp: pageSize_def)
    have next_call: "EachMediaRowMatching fuel q policy m fn table (Some (row_key (last ?page))) n' s'
        = Some (scan_all policy m fn (drop pageSize ?L) n' s')" for n' s'
      using Suc.IH [of "Some (row_key (last ?page))"] rest Suc.prems False by (simp add: pageSize_def)
    have split: "scan_all policy m fn ?L n s = (case walk_page policy m fn ?page n s of Inl s' \<Rightarrow> (True, s')
        | Inr (n', s') \<Rightarrow> scan_all policy m fn (drop pageSize ?L) n' s')"
      using walk_page_append [of policy m fn ?page "drop pageSize ?L" n s]
      by (auto simp: scan_all_def split: sum.split prod.split)
    show ?thesis
      using page ne next_call split by (auto simp: Let_def split: sum.split prod.split)
  qed
qed simp

section \<open>What a purge may touch\<close>

text \<open>The rows selected belong to the table and to allowed chats, and the finder holds real directories.\<close>

definition selection_ok :: "chatPolicy \<Rightarrow> media_store \<Rightarrow> purge_row list \<Rightarrow> selection \<Rightarrow> bool" where
  "selection_ok policy s table sl \<longleftrightarrow> list_all (\<lambda>r. r \<in> set table \<and> cp_Allows policy (mr_ChatJID r)) (sl_rows sl)
     \<and> finder_ok (real_dirs s) (sl_finder sl)"

lemma no_selection_ok: "selection_ok policy s table no_selection \<and> length (sl_rows no_selection) < purgeMaxFiles"
  by (simp add: selection_ok_def no_selection_def finder_ok_def purgeMaxFiles_def)

lemma probeRow_finder:
  assumes "finder_ok (real_dirs s) f" "probeRow stamp s row f = (res, f')"
  shows "finder_ok (real_dirs s) f'"
proof -
  obtain s' where p: "purgeOneUsing stamp s s True row True f s = (res, f', s')"
    using assms(2) by (auto simp: probeRow_def split: prod.splits)
  from purge_effect(1) [OF assms(1) p] show ?thesis by simp
qed

lemma reject_item_ok [simp]:
  "selection_ok policy s table (reject_item e sl) = selection_ok policy s table sl" "sl_rows (reject_item e sl) = sl_rows sl"
  by (simp_all add: selection_ok_def reject_item_def)

lemma select_item_ok:
  assumes "selection_ok policy s table sl" "select_item sdk stamp policy opened fails s table i sl = Some sl'"
  shows "selection_ok policy s table sl' \<and> length (sl_rows sl') \<le> Suc (length (sl_rows sl))"
proof -
  have row: "row \<in> set table \<and> mr_ChatJID row = chat" if "MediaRow table mid chat = Some row" for row mid chat
    using that by (auto simp: MediaRow_def find_Some_iff)
  have f: "finder_ok (real_dirs s) f'" if "probeRow stamp s row (sl_finder sl) = (res, f')" for row res f'
    using probeRow_finder [OF _ that] assms(1) by (simp add: selection_ok_def)
  show ?thesis
    using assms row f unfolding selection_ok_def select_item_def Let_def reject_item_def
    by (auto split: sum.splits option.splits prod.splits if_splits)
qed

lemma select_items_ok:
  assumes "selection_ok policy s table sl" "length (sl_rows sl) \<le> purgeMaxFiles"
    "select_items sdk stamp policy opened fails s table limit is sl = Some (sl', left, stopped)"
  shows "selection_ok policy s table sl' \<and> length (sl_rows sl') \<le> purgeMaxFiles"
  using assms
proof (induction "is" arbitrary: sl)
  case (Cons i "is")
  show ?case
  proof (cases "length (sl_rows sl) \<ge> purgeMaxFiles \<or> sl_examined sl \<ge> limit")
    case False
    with Cons.prems(3) obtain sl1 where one: "select_item sdk stamp policy opened fails s table i sl = Some sl1"
      "select_items sdk stamp policy opened fails s table limit is sl1 = Some (sl', left, stopped)"
      by (auto split: option.splits)
    with select_item_ok [OF Cons.prems(1) one(1)] Cons.IH [of sl1] False show ?thesis by simp
  qed (use Cons.prems in simp)
qed simp

lemma select_row_ok:
  assumes "selection_ok policy s table sl" "length (sl_rows sl) < purgeMaxFiles" "row \<in> set table" "cp_Allows policy (mr_ChatJID row)"
    "select_row stamp s minBytes hungup row sl = (sl', go)"
  shows "selection_ok policy s table sl' \<and> length (sl_rows sl') \<le> purgeMaxFiles \<and> (go \<longrightarrow> length (sl_rows sl') < purgeMaxFiles)"
proof (cases "hungup (sl_examined sl)")
  case False
  obtain res f' where p: "probeRow stamp s row (sl_finder sl) = (res, f')" by fastforce
  have "finder_ok (real_dirs s) f'" using probeRow_finder [OF _ p] assms(1) by (simp add: selection_ok_def)
  with assms False p show ?thesis
    by (auto simp: select_row_def Let_def selection_ok_def split: if_splits)
qed (use assms in \<open>auto simp: select_row_def\<close>)

lemma walk_page_ok:
  assumes "selection_ok policy s table sl" "length (sl_rows sl) < purgeMaxFiles" "set page \<subseteq> set table"
  shows "case walk_page policy m (select_row stamp s minBytes hungup) page n sl of
      Inl sl' \<Rightarrow> selection_ok policy s table sl' \<and> length (sl_rows sl') \<le> purgeMaxFiles
    | Inr (n', sl') \<Rightarrow> selection_ok policy s table sl' \<and> length (sl_rows sl') < purgeMaxFiles"
  using assms
proof (induction page arbitrary: n sl)
  case (Cons r rs)
  obtain sl1 go where fn: "select_row stamp s minBytes hungup r sl = (sl1, go)" by fastforce
  note ok = select_row_ok [OF Cons.prems(1,2) _ _ fn]
  show ?case
  proof (cases "cp_Allows policy (mr_ChatJID r) \<and> n < m")
    case True
    with ok Cons.prems(3) have "selection_ok policy s table sl1 \<and> length (sl_rows sl1) \<le> purgeMaxFiles
        \<and> (go \<longrightarrow> length (sl_rows sl1) < purgeMaxFiles)" by simp
    with True fn Cons.IH [of sl1 "n + 1"] Cons.prems(3) show ?thesis by (cases go) auto
  next
    case False
    with Cons.IH [of sl n] Cons.prems show ?thesis by auto
  qed
qed simp

lemma each_rows_ok:
  assumes "selection_ok policy s table sl" "length (sl_rows sl) < purgeMaxFiles"
    "EachMediaRowMatching fuel q policy m (select_row stamp s minBytes hungup) table after n sl = Some (stopped, sl')"
  shows "selection_ok policy s table sl' \<and> length (sl_rows sl') \<le> purgeMaxFiles"
  using assms
proof (induction fuel arbitrary: after n sl)
  case (Suc fuel)
  let ?page = "query_page q table after"
  let ?walk = "walk_page policy m (select_row stamp s minBytes hungup) ?page n sl"
  have "set ?page \<subseteq> set table" using set_take_subset [of pageSize] by (fastforce simp: query_page_def)
  from walk_page_ok [OF Suc.prems(1,2) this, of m stamp minBytes hungup n] show ?case
  proof (cases ?walk)
    case (Inr p)
    obtain n1 sl1 where p: "p = (n1, sl1)" by (cases p)
    with Inr walk_page_ok [OF Suc.prems(1,2) \<open>set ?page \<subseteq> set table\<close>, of m stamp minBytes hungup n]
    have sl1: "selection_ok policy s table sl1" "length (sl_rows sl1) < purgeMaxFiles" by auto
    show ?thesis
    proof (cases "length ?page < pageSize")
      case True
      with Inr p Suc.prems(3) sl1 show ?thesis by (auto simp: Let_def)
    next
      case False
      with Inr p Suc.prems(3) have "EachMediaRowMatching fuel q policy m (select_row stamp s minBytes hungup) table
          (if ?page = [] then after else Some (row_key (last ?page))) n1 sl1 = Some (stopped, sl')" by (simp add: Let_def)
      from Suc.IH [OF sl1 this] show ?thesis .
    qed
  qed (use Suc.prems(3) in \<open>auto simp: Let_def\<close>)
qed simp

text \<open>An entry a purge may change: a file of an allowed row, in the directory of that row's chat.\<close>

definition purgeable :: "row_stamp \<Rightarrow> chatPolicy \<Rightarrow> media_store \<Rightarrow> purge_row list \<Rightarrow> nat \<Rightarrow> string \<Rightarrow> bool" where
  "purgeable stamp policy s table d n \<longleftrightarrow> (\<exists>row \<in> set table. cp_Allows policy (mr_ChatJID row)
     \<and> ms_root s (chatMediaRel (mr_ChatJID row)) = Some (Chat_dir d)
     \<and> n \<in> set (mediaFileNames stamp (mr_MediaType row) (mr_Timestamp row) (mr_ID row) (mr_Filename row)))"

definition only_purged :: "row_stamp \<Rightarrow> chatPolicy \<Rightarrow> purge_row list \<Rightarrow> media_store \<Rightarrow> media_store \<Rightarrow> bool" where
  "only_purged stamp policy table s s' \<longleftrightarrow> ms_root s' = ms_root s
     \<and> (\<forall>d n. ms_dirs s' d n \<noteq> ms_dirs s d n \<longrightarrow> purgeable stamp policy s table d n \<and> (\<exists>b. ms_dirs s d n = Some (Regular b)))"

lemma only_purged_refl [simp]: "only_purged stamp policy table s s"
  by (simp add: only_purged_def)

lemma only_purged_trans:
  assumes "only_purged stamp policy table s s1" "only_purged stamp policy table s1 s2"
  shows "only_purged stamp policy table s s2"
proof -
  have root: "ms_root s1 = ms_root s" "ms_root s2 = ms_root s1" using assms by (auto simp: only_purged_def)
  then have "purgeable stamp policy s1 table = purgeable stamp policy s table" by (simp add: purgeable_def fun_eq_iff)
  moreover have "ms_dirs s d n = Some (Regular b)" if "ms_dirs s1 d n = Some (Regular b)" "ms_dirs s1 d n = ms_dirs s d n" for d n b
    using that by simp
  ultimately show ?thesis using assms root unfolding only_purged_def by metis
qed

lemma delete_rows_only:
  assumes "list_all (\<lambda>r. r \<in> set table \<and> cp_Allows policy (mr_ChatJID r)) rows" "finder_ok (real_dirs s) f"
    "delete_rows stamp unlinks dry rows f s = (ress, f', s')"
  shows "only_purged stamp policy table s s' \<and> (dry \<longrightarrow> s' = s) \<and> length ress = length rows"
  using assms
proof (induction rows arbitrary: f s ress)
  case (Cons r rs)
  obtain res f1 s1 where p: "purgeOneUsing stamp s s (unlinks r) r dry f s = (res, f1, s1)" by (metis prod_cases3)
  obtain ress1 where d: "delete_rows stamp unlinks dry rs f1 s1 = (ress1, f', s')" "ress = res # ress1"
    using Cons.prems(3) p by (auto split: prod.splits)
  note e = purge_effect [OF Cons.prems(2) p]
  have root: "ms_root s1 = ms_root s" using e(1) by simp
  then have "finder_ok (real_dirs s1) f1" using e(1) by (simp add: real_dirs_def)
  from Cons.IH [OF _ this d(1)] Cons.prems(1)
  have rest: "only_purged stamp policy table s1 s' \<and> (dry \<longrightarrow> s' = s1) \<and> length ress1 = length rs" by simp
  have "only_purged stamp policy table s s1"
    unfolding only_purged_def purgeable_def using root e(2) Cons.prems(1) by (fastforce simp: real_dirs_def)
  with rest e(1) d(2) show ?case by (auto intro: only_purged_trans)
qed simp

lemma Delete_rows_only:
  assumes "selection_ok policy s table sl" "Delete_rows stamp unlinks n dry (sl_rows sl) (sl_finder sl) s = (ress, err, s')"
  shows "only_purged stamp policy table s s' \<and> (dry \<longrightarrow> s' = s) \<and> length ress \<le> length (sl_rows sl)"
proof -
  obtain f' where "delete_rows stamp unlinks dry (take n (sl_rows sl)) (sl_finder sl) s = (ress, f', s')"
    using assms(2) by (auto simp: Delete_rows_def split: prod.splits)
  moreover have "list_all (\<lambda>r. r \<in> set table \<and> cp_Allows policy (mr_ChatJID r)) (take n (sl_rows sl))" "finder_ok (real_dirs s) (sl_finder sl)"
    using assms(1) by (auto simp: selection_ok_def list_all_iff dest: in_set_takeD)
  ultimately have "only_purged stamp policy table s s' \<and> (dry \<longrightarrow> s' = s) \<and> length ress = length (take n (sl_rows sl))"
    using delete_rows_only by blast
  then show ?thesis by simp
qed

lemma finish_purge_bound: "length deleted \<le> k \<Longrightarrow> ps_PurgedFiles (finish_purge dry sl t st rem cur deleted) \<le> k"
  by (simp add: finish_purge_def Let_def le_trans [OF length_filter_le])

section \<open>What the status shortcut may touch\<close>

text \<open>A file of the status chat that a stored row names or, if row-less files are asked for too, that carries a
  generated name.\<close>

definition status_purgeable :: "row_stamp \<Rightarrow> media_tables \<Rightarrow> bool \<Rightarrow> media_store \<Rightarrow> purge_row list \<Rightarrow> nat \<Rightarrow> string \<Rightarrow> bool" where
  "status_purgeable stamp tb orphans s table d n \<longleftrightarrow> ms_root s statusChat = Some (Chat_dir d)
     \<and> ((\<exists>row \<in> set table. mr_ChatJID row = statusChat \<and> n \<in> set (row_names stamp row)) \<or> orphans \<and> generatedMediaName tb n)"

definition changes_only :: "(nat \<Rightarrow> string \<Rightarrow> bool) \<Rightarrow> media_store \<Rightarrow> media_store \<Rightarrow> bool" where
  "changes_only P s s' \<longleftrightarrow> ms_root s' = ms_root s
     \<and> (\<forall>d n. ms_dirs s' d n \<noteq> ms_dirs s d n \<longrightarrow> P d n \<and> (\<exists>b. ms_dirs s d n = Some (Regular b)))"

lemma changes_only_refl [simp]: "changes_only P s s"
  by (simp add: changes_only_def)

lemma changes_only_trans: "changes_only P s t \<Longrightarrow> changes_only P t u \<Longrightarrow> changes_only P s u"
  unfolding changes_only_def by metis

lemma changes_only_remove:
  "P (cm_dir c) (cm_name c) \<Longrightarrow> ms_dirs s (cm_dir c) (cm_name c) \<in> {None, Some (Regular b)} \<Longrightarrow> changes_only P s (Remove_cached c s)"
  by (auto simp: changes_only_def Remove_cached_def)

text \<open>A walk so far: the store has changed only where it may, and not in a dry run.\<close>

definition walk_ok :: "(nat \<Rightarrow> string \<Rightarrow> bool) \<Rightarrow> bool \<Rightarrow> media_store \<Rightarrow> operator_walk \<Rightarrow> bool" where
  "walk_ok P dry s k \<longleftrightarrow> changes_only P s (ok_store k) \<and> (dry \<longrightarrow> ok_store k = s) \<and> finder_ok (real_dirs s) (ok_finder k)"

lemma walk_ok_counts [simp]:
  "walk_ok P dry s (count_failed k) = walk_ok P dry s k" "walk_ok P dry s (count_freed n k) = walk_ok P dry s k"
  "walk_ok P dry s (k\<lparr>ok_examined := m\<rparr>) = walk_ok P dry s k" "walk_ok P dry s (k\<lparr>ok_orphans := ns\<rparr>) = walk_ok P dry s k"
  "walk_ok P dry s (k\<lparr>ok_result := r\<rparr>) = walk_ok P dry s k"
  by (simp_all add: walk_ok_def count_failed_def count_freed_def)

lemma real_dirs_root: "ms_root t = ms_root s \<Longrightarrow> real_dirs t = real_dirs s"
  by (simp add: real_dirs_def)

lemma remove_found_ok:
  assumes "walk_ok P dry s k" "\<not> dry \<Longrightarrow> P (cm_dir c) (cm_name c)"
    "ms_dirs (ok_store k) (cm_dir c) (cm_name c) \<in> {None, Some (Regular b)}"
  shows "walk_ok P dry s (remove_found w dry c k)"
proof (cases "dry \<or> \<not> ot_unlinks w c")
  case False
  then have "changes_only P (ok_store k) (Remove_cached c (ok_store k))"
    using assms(2,3) by (intro changes_only_remove) auto
  with assms(1) False show ?thesis
    by (auto simp: remove_found_def walk_ok_def count_freed_def intro: changes_only_trans)
qed (use assms(1) in \<open>auto simp: remove_found_def\<close>)

lemma purge_name_ok:
  assumes "walk_ok P dry s k" "\<And>d. (chatMediaRel chat, d) \<in> real_dirs s \<Longrightarrow> P d name"
  shows "walk_ok P dry s (purge_name w dry chat name k)"
proof -
  let ?s = "ok_store k"
  obtain r f where fg: "finder_find ?s ?s ?s (ok_finder k) (chatMediaRel chat) [name] = (r, f)" by fastforce
  have root: "real_dirs ?s = real_dirs s"
    by (rule real_dirs_root) (use assms(1) in \<open>simp add: walk_ok_def changes_only_def\<close>)
  have "finder_ok (real_dirs s) (ok_finder k)" using assms(1) by (simp add: walk_ok_def)
  from finder_find_ok [OF fg this] root have f: "finder_ok (real_dirs s) f"
    and hit: "\<And>c e. r = (Some c, e) \<Longrightarrow> (chatMediaRel chat, cm_dir c) \<in> real_dirs s \<and> cm_name c = name
        \<and> ms_dirs ?s (cm_dir c) (cm_name c) = Some (Regular (cm_size c))" by auto
  have k: "walk_ok P dry s (k\<lparr>ok_finder := f\<rparr>)" using assms(1) f by (simp add: walk_ok_def)
  show ?thesis
  proof (cases "fst r")
    case None
    then show ?thesis using fg k by (cases r) (auto simp: purge_name_def)
  next
    case (Some c)
    then obtain e where r: "r = (Some c, e)" by (cases r) auto
    with hit [OF r] assms(2) k fg show ?thesis
      by (auto simp: purge_name_def intro!: remove_found_ok)
  qed
qed

lemma fold_walk_ok: "(\<And>x k. x \<in> set xs \<Longrightarrow> I k \<Longrightarrow> I (f x k)) \<Longrightarrow> I k \<Longrightarrow> I (fold f xs k)"
  by (induction xs arbitrary: k) simp_all

lemma status_row_ok:
  assumes "walk_ok (status_purgeable stamp tb orphans s table) dry s k" "row \<in> set table" "mr_ChatJID row = statusChat"
    "oq_Type req = ''status''" "operator_row stamp w req dry row k = (k', go)"
  shows "walk_ok (status_purgeable stamp tb orphans s table) dry s k'"
proof -
  have rel: "chatMediaRel statusChat = statusChat" by (simp add: chatMediaRel_def statusChat_def)
  have "walk_ok (status_purgeable stamp tb orphans s table) dry s (fold (purge_name w dry statusChat) (first_of_each (row_names stamp row)) k1)"
    if "walk_ok (status_purgeable stamp tb orphans s table) dry s k1" for k1
  proof (rule fold_walk_ok [where I = "walk_ok (status_purgeable stamp tb orphans s table) dry s"])
    fix name k assume "name \<in> set (first_of_each (row_names stamp row))"
      and k: "walk_ok (status_purgeable stamp tb orphans s table) dry s k"
    then have "name \<in> set (row_names stamp row)" by (simp add: first_of_each_def)
    with assms(2,3) k show "walk_ok (status_purgeable stamp tb orphans s table) dry s (purge_name w dry statusChat name k)"
      by (intro purge_name_ok) (auto simp: status_purgeable_def real_dirs_def rel)
  qed (rule that)
  with assms show ?thesis by (auto simp: operator_row_def Let_def split: if_splits)
qed

lemma status_page_ok:
  assumes "walk_ok (status_purgeable stamp tb orphans s table) dry s k" "\<forall>r \<in> set page. r \<in> set table \<and> mr_ChatJID r = statusChat"
    "oq_Type req = ''status''"
  shows "case walk_page policy m (operator_row stamp w req dry) page n k of
      Inl k' \<Rightarrow> walk_ok (status_purgeable stamp tb orphans s table) dry s k'
    | Inr (n', k') \<Rightarrow> walk_ok (status_purgeable stamp tb orphans s table) dry s k'"
  using assms(1,2)
proof (induction page arbitrary: n k)
  case (Cons r rs)
  obtain k1 go where fn: "operator_row stamp w req dry r k = (k1, go)" by fastforce
  have ok: "walk_ok (status_purgeable stamp tb orphans s table) dry s k1"
    using status_row_ok [OF Cons.prems(1) _ _ assms(3) fn] Cons.prems(2) by simp
  show ?case
  proof (cases "cp_Allows policy (mr_ChatJID r) \<and> n < m")
    case True
    with ok fn Cons.IH [of k1 "n + 1"] Cons.prems(2) show ?thesis by (cases go) auto
  next
    case False
    with Cons.IH [of k n] Cons.prems show ?thesis by auto
  qed
qed simp

lemma status_rows_ok:
  assumes "walk_ok (status_purgeable stamp tb orphans s table) dry s k" "pc_chat q = statusChat" "oq_Type req = ''status''"
    "EachMediaRowMatching fuel q policy m (operator_row stamp w req dry) table after n k = Some (stopped, k')"
  shows "walk_ok (status_purgeable stamp tb orphans s table) dry s k'"
  using assms(1,4)
proof (induction fuel arbitrary: after n k)
  case (Suc fuel)
  let ?page = "query_page q table after"
  have "\<forall>r \<in> set ?page. r \<in> set table \<and> mr_ChatJID r = statusChat"
    using assms(2) by (auto simp: query_page_def matching_def statusChat_def dest!: in_set_takeD)
  note ok = status_page_ok [OF Suc.prems(1) this assms(3), of policy m w n]
  show ?case
  proof (cases "walk_page policy m (operator_row stamp w req dry) ?page n k")
    case (Inl k1)
    with ok Suc.prems(2) show ?thesis by (simp add: Let_def)
  next
    case (Inr p)
    then obtain n1 k1 where p: "walk_page policy m (operator_row stamp w req dry) ?page n k = Inr (n1, k1)" by (cases p) auto
    with ok have k1: "walk_ok (status_purgeable stamp tb orphans s table) dry s k1" by simp
    show ?thesis
    proof (cases "length ?page < pageSize")
      case True
      with p k1 Suc.prems(2) show ?thesis by (simp add: Let_def)
    next
      case False
      with p Suc.prems(2) show ?thesis by (intro Suc.IH [OF k1]) (simp add: Let_def)
    qed
  qed
qed simp

text \<open>The row-less files come from a walk of the store as the rows left it, so each is a generated name in the
  directory its chat has there.\<close>

lemma each_in_dir_file:
  "(chat', c) \<in> set (each_in_dir tb s entries chat dir) \<Longrightarrow> chat' = chat \<and> cm_dir c = dir \<and> generatedMediaName tb (cm_name c)
     \<and> ms_dirs s dir (cm_name c) = Some (Regular (cm_size c))"
proof -
  assume "(chat', c) \<in> set (each_in_dir tb s entries chat dir)"
  then obtain name n where "generatedMediaName tb name" "statCachedMedia s dir name = Inr n" "(chat', c) = (chat, \<lparr>cm_dir = dir, cm_name = name, cm_size = n\<rparr>)"
    unfolding each_in_dir_def by (auto split: if_splits sum.splits)
  then show ?thesis by (auto simp: statCachedMedia_def split: option.splits leaf.splits)
qed

lemma each_cached_file:
  assumes "(chat, c) \<in> set (eachCachedMedia tb s entries names)"
  shows "ms_root s chat = Some (Chat_dir (cm_dir c)) \<and> generatedMediaName tb (cm_name c)
    \<and> ms_dirs s (cm_dir c) (cm_name c) = Some (Regular (cm_size c))"
proof -
  obtain name where "(chat, c) \<in> set (case openChatMediaDir s s name of Inl _ \<Rightarrow> [] | Inr dir \<Rightarrow> each_in_dir tb s entries name dir)"
    using assms unfolding eachCachedMedia_def by (auto split: if_splits)
  then obtain dir where "openChatMediaDir s s name = Inr dir" "(chat, c) \<in> set (each_in_dir tb s entries name dir)"
    by (cases "openChatMediaDir s s name") simp_all
  with openChatMediaDir_Inr [of s s name dir] each_in_dir_file [of chat c tb s entries name dir] show ?thesis by simp
qed

definition shrunk_from :: "media_store \<Rightarrow> media_store \<Rightarrow> bool" where
  "shrunk_from t u \<longleftrightarrow> (\<forall>d n. ms_dirs u d n = ms_dirs t d n \<or> ms_dirs u d n = None)"

lemma remove_found_shrinks: "shrunk_from t (ok_store k) \<Longrightarrow> shrunk_from t (ok_store (remove_found w dry c k))"
  by (auto simp: shrunk_from_def remove_found_def count_failed_def count_freed_def Remove_cached_def)

lemma purge_orphan_ok:
  assumes "walk_ok (status_purgeable stamp tb (oq_IncludeOrphans req) s table) dry s k \<and> shrunk_from t (ok_store k)"
    "cf \<in> set (eachCachedMedia tb t entries names)" "ms_root t = ms_root s"
  shows "walk_ok (status_purgeable stamp tb (oq_IncludeOrphans req) s table) dry s (purge_orphan w req dry cf k)
    \<and> shrunk_from t (ok_store (purge_orphan w req dry cf k))"
proof -
  let ?P = "status_purgeable stamp tb (oq_IncludeOrphans req) s table"
  obtain chat c where cf: "cf = (chat, c)" by (cases cf)
  note cached = each_cached_file [OF assms(2) [unfolded cf]]
  have "walk_ok ?P dry s (remove_found w dry c (k\<lparr>ok_result := r\<rparr>)) \<and> shrunk_from t (ok_store (remove_found w dry c (k\<lparr>ok_result := r\<rparr>)))"
    if "chat = statusChat" "oq_IncludeOrphans req" for r
  proof
    have "ms_dirs (ok_store k) (cm_dir c) (cm_name c) \<in> {None, Some (Regular (cm_size c))}"
      using cached assms(1) unfolding shrunk_from_def by (metis insert_iff)
    moreover have "?P (cm_dir c) (cm_name c)" using cached that assms(3) by (simp add: status_purgeable_def)
    ultimately show "walk_ok ?P dry s (remove_found w dry c (k\<lparr>ok_result := r\<rparr>))"
      using assms(1) by (intro remove_found_ok) simp_all
    show "shrunk_from t (ok_store (remove_found w dry c (k\<lparr>ok_result := r\<rparr>)))"
      using assms(1) by (intro remove_found_shrinks) simp
  qed
  with assms(1) show ?thesis by (auto simp: purge_orphan_def cf Let_def)
qed

lemma status_purge_ok:
  assumes "purgeOperatorMediaProgress stamp opened w table req s = Some (result, err, s')"
    "oq_Type req = ''status''" "oq_Chat req = statusChat"
  shows "changes_only (status_purgeable stamp (ot_tables w) (oq_IncludeOrphans req) s table) s s' \<and> (oq_DryRun req \<noteq> Some False \<longrightarrow> s' = s)"
proof -
  let ?P = "status_purgeable stamp (ot_tables w) (oq_IncludeOrphans req) s table"
  define dry where "dry = (case oq_DryRun req of None \<Rightarrow> True | Some b \<Rightarrow> b)"
  have d: "dry" if "oq_DryRun req \<noteq> Some False" using that by (cases "oq_DryRun req") (auto simp: dry_def)
  have fin: ?thesis if "walk_ok ?P dry s k" "s' = ok_store k" for k using that d by (auto simp: walk_ok_def)
  show ?thesis
  proof (cases "\<not> opened \<or> \<not> ot_listed w")
    case True
    with assms have "s' = s" by (auto simp: purgeOperatorMediaProgress_def Let_def)
    then show ?thesis by simp
  next
    case False
    let ?k0 = "\<lparr>ok_result = \<lparr>ov_DryRun = dry, ov_Files = 0, ov_FreedBytes = 0, ov_OrphanFiles = 0, ov_OrphanBytes = 0, ov_Failed = 0\<rparr>,
        ok_orphans = map (\<lambda>(c, f). cm_name f) (filter (\<lambda>(c, f). c = statusChat) (eachCachedMedia (ot_tables w) s (ot_entries w) (ot_names w))),
        ok_finder = None, ok_store = s, ok_examined = 0\<rparr>"
    from assms False obtain stopped k where rows: "EachMediaRowMatching (ot_fuel w) \<lparr>pc_chat = statusChat, pc_before = None, pc_type = []\<rparr>
        zero_chatPolicy max_int (operator_row stamp w req dry) table None 0 ?k0 = Some (stopped, k)"
      by (auto simp: purgeOperatorMediaProgress_def Let_def dry_def split: option.splits)
    have k: "walk_ok ?P dry s k"
      by (rule status_rows_ok [OF _ _ assms(2) rows]) (simp_all add: walk_ok_def finder_ok_def)
    let ?k' = "fold (purge_orphan w req dry) (eachCachedMedia (ot_tables w) (ok_store k) (ot_entries w) (ot_names w)) k"
    have root: "ms_root (ok_store k) = ms_root s" using k by (simp add: walk_ok_def changes_only_def)
    have "walk_ok ?P dry s ?k' \<and> shrunk_from (ok_store k) (ok_store ?k')"
    proof (rule fold_walk_ok [where I = "\<lambda>k'. walk_ok ?P dry s k' \<and> shrunk_from (ok_store k) (ok_store k')"])
      fix cf k' assume "cf \<in> set (eachCachedMedia (ot_tables w) (ok_store k) (ot_entries w) (ot_names w))"
        and "walk_ok ?P dry s k' \<and> shrunk_from (ok_store k) (ok_store k')"
      then show "walk_ok ?P dry s (purge_orphan w req dry cf k') \<and> shrunk_from (ok_store k) (ok_store (purge_orphan w req dry cf k'))"
        using purge_orphan_ok root by blast
    qed (use k in \<open>simp add: shrunk_from_def\<close>)
    moreover have "s' = ok_store k \<or> s' = ok_store ?k'"
      using assms False rows by (auto simp: purgeOperatorMediaProgress_def Let_def dry_def [symmetric] split: if_splits)
    ultimately show ?thesis using fin k by blast
  qed
qed

text \<open>Where an answer of the handler comes from: a refusal, the status shortcut, the named items or the criteria.\<close>

definition shortcut :: "purge_request \<Rightarrow> operatorMediaPurge" where
  "shortcut req = \<lparr>oq_Type = ''status'', oq_Chat = statusChat, oq_OlderDays = 0, oq_DryRun = pq_dryRun req, oq_IncludeOrphans = pq_includeOrphans req\<rparr>"

definition purge_origin :: "jid_sdk \<Rightarrow> row_stamp \<Rightarrow> chatPolicy \<Rightarrow> purge_world \<Rightarrow> purge_request \<Rightarrow> media_store \<Rightarrow> (purge_answer_code \<times> media_store) option \<Rightarrow> bool" where
  "purge_origin sdk stamp policy w req s r \<longleftrightarrow> (\<forall>answer s'. r = Some (answer, s') \<longrightarrow>
     (s' = s \<and> (\<exists>n. answer = Purge_status n)) \<or> (answer, s') = purge_items sdk stamp policy w req s
     \<or> (\<exists>chat after. purge_by_criteria stamp policy w req chat after s = Some (answer, s')))"

lemma handleMediaPurge_origin:
  assumes "\<not> (pq_scope req \<noteq> [] \<or> pq_includeOrphans req)"
  shows "purge_origin sdk stamp policy w req s (handleMediaPurge sdk stamp policy w (Some req) s)"
proof -
  have leaves: "purge_origin sdk stamp policy w req s (Some (Purge_status n, s))"
    "purge_origin sdk stamp policy w req s (Some (purge_items sdk stamp policy w req s))"
    "purge_origin sdk stamp policy w req s (purge_by_criteria stamp policy w req chat after s)" for n chat after
    by (auto simp: purge_origin_def)
  show ?thesis
    unfolding handleMediaPurge_def Let_def option.case if_not_P [OF assms]
    by (simp only: leaves simp_thms split: if_split option.split sum.split)
qed

lemma handleMediaPurge_status:
  assumes "pq_scope req \<noteq> [] \<or> pq_includeOrphans req" "handleMediaPurge sdk stamp policy w (Some req) s = Some (answer, s')"
  shows "s' = s \<and> (\<exists>n. answer = Purge_status n)
    \<or> (\<exists>result err. purgeOperatorMediaProgress stamp (pw_root w) (pw_operator w) (pw_table w) (shortcut req) s = Some (result, err, s'))"
  using assms unfolding handleMediaPurge_def option.case if_P [OF assms(1)]
  by (auto simp: streamMediaPurge_def shortcut_def split: if_splits)

section \<open>Properties\<close>

text \<open>The paged walk is the walk over the whole list. With enough fuel it ends, and its outcome is that of one
  pass over the matching rows in the order of the index, oldest first, stopping at the ceiling or where the
  callback stops; and a walk that starts from the key of the k-th row goes over the rows behind it, so a
  continued purge neither repeats nor skips one.\<close>

lemma purge_walk_exact:
  assumes "table_ok table" "length table < fuel"
  shows "EachMediaRowMatching fuel q policy m fn table after n s = Some (scan_all policy m fn (matching_rows q table after) n s)
    \<and> (\<forall>k. 0 < k \<longrightarrow> k \<le> length (matching_rows q table after) \<longrightarrow>
         EachMediaRowMatching fuel q policy m fn table (Some (row_key (matching_rows q table after ! (k - 1)))) n s
           = Some (scan_all policy m fn (drop k (matching_rows q table after)) n s))"
proof -
  have "length (matching_rows q table c) < fuel" for c
  proof -
    have "length (matching_rows q table c) \<le> length (filter (matching q) table)"
      unfolding matching_rows_def by (rule order_trans [OF length_filter_le]) simp
    then show ?thesis using assms(2) length_filter_le [of "matching q" table] by linarith
  qed
  note exact = each_rows_exact [OF assms(1) this]
  show ?thesis
  proof (intro conjI allI impI)
    fix k assume "0 < k" "k \<le> length (matching_rows q table after)"
    from matching_rows_after [OF assms(1) this] exact
    show "EachMediaRowMatching fuel q policy m fn table (Some (row_key (matching_rows q table after ! (k - 1)))) n s
        = Some (scan_all policy m fn (drop k (matching_rows q table after)) n s)" by metis
  qed (rule exact)
qed

definition unrestricted :: chatPolicy where "unrestricted = parseChatPolicy []"

definition count_rows :: "nat row_callback" where "count_rows r n = (n + 1, True)"

definition photo_of :: "string \<Rightarrow> string \<Rightarrow> purge_row" where
  "photo_of t i = \<lparr>mr_ID = i, mr_ChatJID = ''1@g.us'', mr_MediaType = ''image'', mr_Timestamp = (t, 0), mr_Filename = []\<rparr>"

definition any_row :: purge_criteria where "any_row = \<lparr>pc_chat = [], pc_before = None, pc_type = []\<rparr>"

theorem purge_walk_exact_witness:
  "EachMediaRowMatching 3 any_row unrestricted 9 count_rows [photo_of ''t'' ''A'', photo_of ''s'' ''B''] None 0 0
     = Some (scan_all unrestricted 9 count_rows (matching_rows any_row [photo_of ''t'' ''A'', photo_of ''s'' ''B''] None) 0 0)"
proof -
  have "table_ok [photo_of ''t'' ''A'', photo_of ''s'' ''B'']" by (simp add: table_ok_def photo_of_def)
  then show ?thesis by (rule purge_walk_exact [THEN conjunct1]) simp
qed


definition quiet_operator :: operator_world where
  "quiet_operator = \<lparr>ot_tables = plain_tables, ot_names = [], ot_entries = (\<lambda>_. []), ot_before = id, ot_mtime = (\<lambda>_. 0), ot_unlinks = (\<lambda>_. True),
     ot_removable = (\<lambda>_. True), ot_listed = True, ot_stop = (\<lambda>_. False), ot_ended = False, ot_skip = (\<lambda>_. False), ot_error = False,
     ot_cut = False, ot_fuel = 2\<rparr>"

definition purge_sample_world :: purge_world where
  "purge_sample_world = \<lparr>pw_table = [photo_of ''t'' ''A''], pw_root = True, pw_lookupFails = (\<lambda>_ _. False), pw_queryFails = False,
     pw_operator = quiet_operator, pw_cutoff = (\<lambda>_. []), pw_removable = (\<lambda>_. True), pw_hungup = (\<lambda>_. False),
     pw_deletes = 9, pw_decode = (\<lambda>_. None), pw_canon = (\<lambda>_. []), pw_zero = [], pw_limit = 0, pw_fuel = 2\<rparr>"

definition purge_photos :: purge_request where
  "purge_photos = \<lparr>pq_items = [], pq_chat = [], pq_olderThanDays = 0, pq_minBytes = 1, pq_type = ''image'', pq_dryRun = Some False, pq_cursor = [],
     pq_scope = [], pq_includeOrphans = False\<rparr>"

definition short_stamp :: row_stamp where "short_stamp t = ''S''"

lemma photo_of_names: "mediaFileNames short_stamp ''image'' t ''A'' [] = [photo_name, photo_name]"
  by (simp add: mediaFileNames_def legacyMediaFileName_def mediaFileName_def short_stamp_def photo_name_def)

lemma photo_purged:
  "purgeOneUsing short_stamp photo_store photo_store True (photo_of ''t'' ''A'') dry f photo_store
     = (\<lparr>pr_MessageID = ''A'', pr_ChatJID = ''1@g.us'', pr_Purged = True, pr_Bytes = 9, pr_File = photo_name, pr_Reason = Purge_ok\<rparr>,
        Some (''1@g.us'', 1), if dry then photo_store else Remove_cached \<lparr>cm_dir = 1, cm_name = photo_name, cm_size = 9\<rparr> photo_store)"
  if "f = None \<or> f = Some (''1@g.us'', 1)"
proof -
  have "photo_name \<noteq> []" by (simp add: photo_name_def)
  then show ?thesis
    using that photo_of_names photo_ok
    by (auto simp: purgeOneUsing_def photo_of_def finder_find_def photo_store_def openChatMediaDir_def requireChatMediaDir_def OpenRoot_def
        findCachedMediaInDir_def statCachedMedia_def purge_answer_def chatMediaRel_def)
qed

text \<open>The status shortcut on a store with one status photo that a row names: it goes, although the policy does not
  allow the status chat.\<close>

definition status_photo :: purge_row where
  "status_photo = (photo_of ''t'' ''A'')\<lparr>mr_ChatJID := statusChat\<rparr>"

definition status_store :: media_store where
  "status_store = \<lparr>ms_root = [statusChat \<mapsto> Chat_dir 1], ms_dirs = (\<lambda>d. if d = 1 then [photo_name \<mapsto> Regular 9] else Map.empty)\<rparr>"

definition status_world :: purge_world where
  "status_world = purge_sample_world\<lparr>pw_table := [status_photo]\<rparr>"

definition purge_status :: purge_request where
  "purge_status = \<lparr>pq_items = [], pq_chat = [], pq_olderThanDays = 0, pq_minBytes = 0, pq_type = [], pq_dryRun = Some False, pq_cursor = [],
     pq_scope = ''status'', pq_includeOrphans = False\<rparr>"

definition direct_only :: chatPolicy where "direct_only = parseChatPolicy ''5511@s.whatsapp.net''"

lemma status_photo_found:
  "finder_find status_store status_store status_store None statusChat [photo_name]
     = ((Some \<lparr>cm_dir = 1, cm_name = photo_name, cm_size = 9\<rparr>, None), Some (statusChat, 1))"
proof -
  have "\<not> sublist ''..'' statusChat" by code_simp
  then have "plain_component statusChat"
    by (simp add: plain_component_def statusChat_def runes_ascii_Cons byte_def code_point_def IsControl_def)
  with photo_ok have "checkMediaPathComponents statusChat photo_name" by (simp add: checkMediaPathComponents_def)
  moreover have "photo_name \<noteq> []" by (simp add: photo_name_def)
  ultimately show ?thesis
    by (simp add: finder_find_def status_store_def openChatMediaDir_def requireChatMediaDir_def OpenRoot_def
        findCachedMediaInDir_def statCachedMedia_def)
qed

lemma status_shortcut_run:
  "\<exists>result. handleMediaPurge plain_sdk short_stamp direct_only status_world (Some purge_status) status_store
     = Some (Purge_streamed result True, Remove_cached \<lparr>cm_dir = 1, cm_name = photo_name, cm_size = 9\<rparr> status_store)"
proof -
  have allows: "cp_Allows zero_chatPolicy statusChat" by code_simp
  have rel: "chatMediaRel statusChat = statusChat" by (simp add: chatMediaRel_def statusChat_def)
  have names: "row_names short_stamp status_photo = [photo_name, photo_name]"
    using photo_of_names by (simp add: row_names_def status_photo_def photo_of_def)
  have chat: "mr_ChatJID status_photo = statusChat" "mr_MediaType status_photo = ''image''" by (simp_all add: status_photo_def photo_of_def)
  have name: "purge_name quiet_operator False statusChat photo_name k = count_freed 9 (k\<lparr>ok_finder := Some (statusChat, 1),
      ok_store := Remove_cached \<lparr>cm_dir = 1, cm_name = photo_name, cm_size = 9\<rparr> status_store\<rparr>)"
    if "ok_store k = status_store" "ok_finder k = None" for k
    using that status_photo_found by (simp add: purge_name_def rel remove_found_def quiet_operator_def)
  have quiet: "ot_names quiet_operator = []" "ot_listed quiet_operator" "\<not> ot_stop quiet_operator n" "\<not> ot_ended quiet_operator"
    "\<not> ot_error quiet_operator" "\<not> ot_cut quiet_operator" "ot_fuel quiet_operator = Suc (Suc 0)" "max_int \<noteq> 0" for n
    by (simp_all add: quiet_operator_def max_int_def)
  show ?thesis
    using allows names chat name
    by (simp add: quiet handleMediaPurge_def purge_status_def streamMediaPurge_def purgeOperatorMediaProgress_def status_world_def purge_sample_world_def
        eachCachedMedia_def query_page_def matching_def past_def pageSize_def
        purgeMediaTypes_def operator_row_def first_of_each_def count_freed_def Let_def)
qed


end
