(* ===== verification/Media_Transfers.thy ===== *)
theory Media_Transfers
  imports Work_Queues "HOL-Library.Word"
begin

text \<open>
  One media transfer per destination file (\<^verbatim>\<open>media_inflight.go\<close>): the group's mutex sections, the
  transfer's goroutine and the callers parked on it, as a step relation. A call has an identity of its
  own, so the model tells a caller's transfer from a later one for the same destination. \<open>m_running\<close> is a
  call whose function has not returned, \<open>m_published\<close> one between the return and the deferred clean-up.
  What a transfer writes and how it fails is the step's choice; so is the moment a caller's context ends.
\<close>

datatype transfer_err = Abandoned | AutoMediaLimit | LimitOf "64 word" | TransferFailed nat

text \<open>\<^verbatim>\<open>errors.Is(err, errAutoMediaLimit)\<close>: the refusal itself or a shared one that wraps it.\<close>

definition is_auto_limit :: "transfer_err option \<Rightarrow> bool" where
  "is_auto_limit e = (case e of Some AutoMediaLimit \<Rightarrow> True | Some (LimitOf _) \<Rightarrow> True | _ \<Rightarrow> False)"

datatype call_phase = Running_fn | Published | Closed

record mediaTransferCall =
  tc_key :: string
  tc_limit :: "64 word"
  tc_phase :: call_phase
  tc_written :: int
  tc_err :: "transfer_err option"

text \<open>A caller is parked on a call with its own cap, or has its answer: \<^term>\<open>None\<close> is the end of its own
  context.\<close>

datatype caller = Parked nat "64 word" | Answered nat "64 word" "(int \<times> transfer_err option) option" | Refused

record transfer_group =
  tg_inflight :: "string \<rightharpoonup> nat"
  tg_calls :: "mediaTransferCall list"
  tg_callers :: "caller list"
  tg_wg :: int
  tg_stopped :: bool
  tg_requestsStopped :: bool
  tg_requests :: "nat list"
  tg_nextRequest :: nat

definition zero_group :: transfer_group where
  "zero_group = \<lparr>tg_inflight = Map.empty, tg_calls = [], tg_callers = [], tg_wg = 0, tg_stopped = False,
     tg_requestsStopped = False, tg_requests = [], tg_nextRequest = 0\<rparr>"

text \<open>\<^verbatim>\<open>call.result\<close>: a success is checked against the caller's own cap, a refusal carries the starter's.\<close>

definition call_result :: "64 word \<Rightarrow> mediaTransferCall \<Rightarrow> int \<times> transfer_err option" where
  "call_result limit c =
     (if tc_err c = None \<and> tc_written c > 0 \<and> limit > 0 \<and> of_int (tc_written c) > limit
      then (tc_written c, Some AutoMediaLimit)
      else if tc_limit c > 0 \<and> is_auto_limit (tc_err c) then (tc_written c, Some (LimitOf (tc_limit c)))
      else (tc_written c, tc_err c))"

text \<open>The locked section of \<^verbatim>\<open>do\<close>: refuse, join, or start.\<close>

definition do_enter :: "string \<Rightarrow> 64 word \<Rightarrow> transfer_group \<Rightarrow> transfer_group" where
  "do_enter key limit g =
     (if tg_stopped g then g\<lparr>tg_callers := tg_callers g @ [Refused]\<rparr>
      else case tg_inflight g key of
             Some i \<Rightarrow> g\<lparr>tg_callers := tg_callers g @ [Parked i limit]\<rparr>
           | None \<Rightarrow>
               let i = length (tg_calls g);
                   call = \<lparr>tc_key = key, tc_limit = limit, tc_phase = Running_fn, tc_written = 0, tc_err = Some Abandoned\<rparr>
               in g\<lparr>tg_inflight := (tg_inflight g)(key \<mapsto> i), tg_calls := tg_calls g @ [call],
                    tg_wg := tg_wg g + 1, tg_callers := tg_callers g @ [Parked i limit]\<rparr>)"

text \<open>The function returns, or panics: then nothing was assigned and the recover wraps the error the call
  was made with.\<close>

definition fn_returns :: "nat \<Rightarrow> (int \<times> transfer_err option) option \<Rightarrow> transfer_group \<Rightarrow> transfer_group" where
  "fn_returns i out g =
     g\<lparr>tg_calls := (tg_calls g)[i := (case out of
         Some (n, e) \<Rightarrow> (tg_calls g ! i)\<lparr>tc_phase := Published, tc_written := n, tc_err := e\<rparr>
       | None \<Rightarrow> (tg_calls g ! i)\<lparr>tc_phase := Published, tc_err := Some Abandoned\<rparr>)]\<rparr>"

definition release_call :: "nat \<Rightarrow> transfer_group \<Rightarrow> transfer_group" where
  "release_call i g =
     g\<lparr>tg_inflight := (tg_inflight g)(tc_key (tg_calls g ! i) := None),
       tg_calls := (tg_calls g)[i := (tg_calls g ! i)\<lparr>tc_phase := Closed\<rparr>], tg_wg := tg_wg g - 1\<rparr>"

definition take_result :: "nat \<Rightarrow> transfer_group \<Rightarrow> transfer_group" where
  "take_result c g = (case tg_callers g ! c of
     Parked i limit \<Rightarrow> g\<lparr>tg_callers := (tg_callers g)[c := Answered i limit (Some (call_result limit (tg_calls g ! i)))]\<rparr>
   | _ \<Rightarrow> g)"

definition leave_early :: "nat \<Rightarrow> transfer_group \<Rightarrow> transfer_group" where
  "leave_early c g = (case tg_callers g ! c of
     Parked i limit \<Rightarrow> g\<lparr>tg_callers := (tg_callers g)[c := Answered i limit None]\<rparr>
   | _ \<Rightarrow> g)"

definition waiting :: "string \<Rightarrow> transfer_group \<Rightarrow> nat" where
  "waiting key g = (case tg_inflight g key of
     None \<Rightarrow> 0 | Some i \<Rightarrow> length (filter (\<lambda>c. case c of Parked j _ \<Rightarrow> j = i | _ \<Rightarrow> False) (tg_callers g)))"

definition stop :: "transfer_group \<Rightarrow> transfer_group" where
  "stop g = g\<lparr>tg_stopped := True\<rparr>"

text \<open>\<^verbatim>\<open>stopRequests\<close> also returns the requests whose contexts it cancels.\<close>

definition stopRequests :: "transfer_group \<Rightarrow> transfer_group \<times> nat list" where
  "stopRequests g = (g\<lparr>tg_requestsStopped := True\<rparr>, tg_requests g)"

definition trackRequest :: "bool \<Rightarrow> transfer_group \<Rightarrow> transfer_group \<times> nat option" where
  "trackRequest ended g =
     (if tg_stopped g \<or> tg_requestsStopped g \<or> ended then (g, None)
      else (g\<lparr>tg_requests := tg_requests g @ [tg_nextRequest g], tg_wg := tg_wg g + 1,
             tg_nextRequest := Suc (tg_nextRequest g)\<rparr>, Some (tg_nextRequest g)))"

definition untrackRequest :: "nat \<Rightarrow> transfer_group \<Rightarrow> transfer_group" where
  "untrackRequest k g = g\<lparr>tg_requests := remove1 k (tg_requests g), tg_wg := tg_wg g - 1\<rparr>"

text \<open>What a transfer's own context inherits from its starter: the cap, the automatic mark, the
  no-waiting mark and the deadline, never the cancellation. A transient download keeps its request's.\<close>

record transfer_ctx =
  tx_limit :: "64 word"
  tx_automatic :: bool
  tx_try :: bool
  tx_deadline :: "instant option"
  tx_transient :: string
  tx_cancelled_by :: "string list"

definition transferContext :: "transfer_ctx \<Rightarrow> transfer_ctx" where
  "transferContext starter =
     \<lparr>tx_limit = tx_limit starter, tx_automatic = tx_automatic starter, tx_try = tx_try starter,
      tx_deadline = tx_deadline starter, tx_transient = '''', tx_cancelled_by = [''lifecycle'']\<rparr>"

definition requestMediaContext :: "transfer_ctx \<Rightarrow> transfer_ctx" where
  "requestMediaContext starter = starter\<lparr>tx_cancelled_by := tx_cancelled_by starter @ [''lifecycle'']\<rparr>"

definition mediaDownloadContext :: "transfer_ctx \<Rightarrow> transfer_ctx" where
  "mediaDownloadContext starter =
     (if tx_transient starter \<noteq> '''' then requestMediaContext starter else transferContext starter)"

section \<open>Steps\<close>

inductive transfer_step :: "transfer_group \<Rightarrow> transfer_group \<Rightarrow> bool" where
  enter: "transfer_step g (do_enter key limit g)"
| returns: "i < length (tg_calls g) \<Longrightarrow> tc_phase (tg_calls g ! i) = Running_fn \<Longrightarrow> transfer_step g (fn_returns i out g)"
| release: "i < length (tg_calls g) \<Longrightarrow> tc_phase (tg_calls g ! i) = Published \<Longrightarrow> transfer_step g (release_call i g)"
| result: "c < length (tg_callers g) \<Longrightarrow> tg_callers g ! c = Parked i limit \<Longrightarrow> tc_phase (tg_calls g ! i) = Closed \<Longrightarrow>
    transfer_step g (take_result c g)"
| leave: "c < length (tg_callers g) \<Longrightarrow> tg_callers g ! c = Parked i limit \<Longrightarrow> transfer_step g (leave_early c g)"
| stops: "transfer_step g (stop g)"
| stops_requests: "transfer_step g (fst (stopRequests g))"
| tracks: "transfer_step g (fst (trackRequest ended g))"
| untracks: "k \<in> set (tg_requests g) \<Longrightarrow> transfer_step g (untrackRequest k g)"

text \<open>The calls that hold their key.\<close>

definition open_calls :: "transfer_group \<Rightarrow> nat set" where
  "open_calls g = {i. i < length (tg_calls g) \<and> tc_phase (tg_calls g ! i) \<noteq> Closed}"

definition caller_ok :: "transfer_group \<Rightarrow> caller \<Rightarrow> bool" where
  "caller_ok g c = (case c of
     Parked i _ \<Rightarrow> i < length (tg_calls g)
   | Answered i limit r \<Rightarrow> i < length (tg_calls g)
       \<and> (\<forall>out. r = Some out \<longrightarrow> tc_phase (tg_calls g ! i) = Closed \<and> out = call_result limit (tg_calls g ! i))
   | Refused \<Rightarrow> tg_stopped g)"

definition transfer_inv :: "transfer_group \<Rightarrow> bool" where
  "transfer_inv g \<longleftrightarrow>
     (\<forall>i \<in> open_calls g. tg_inflight g (tc_key (tg_calls g ! i)) = Some i)
     \<and> (\<forall>key i. tg_inflight g key = Some i \<longrightarrow> i \<in> open_calls g \<and> tc_key (tg_calls g ! i) = key)
     \<and> tg_wg g = int (card (open_calls g)) + int (length (tg_requests g))
     \<and> (\<forall>c \<in> set (tg_callers g). caller_ok g c)"

lemma finite_open: "finite (open_calls g)"
  by (simp add: open_calls_def)

lemma transfer_invD:
  assumes "transfer_inv g"
  shows "i \<in> open_calls g \<Longrightarrow> tg_inflight g (tc_key (tg_calls g ! i)) = Some i"
    and "tg_inflight g key = Some i \<Longrightarrow> i \<in> open_calls g"
    and "tg_inflight g key = Some i \<Longrightarrow> tc_key (tg_calls g ! i) = key"
    and "tg_wg g = int (card (open_calls g)) + int (length (tg_requests g))"
    and "c \<in> set (tg_callers g) \<Longrightarrow> caller_ok g c"
  using assms by (auto simp: transfer_inv_def)

text \<open>A group whose calls and table are unchanged keeps the invariant if its callers and its count do.\<close>

lemma transfer_inv_same_calls:
  assumes "transfer_inv g" "tg_calls h = tg_calls g" "tg_inflight h = tg_inflight g"
    and "tg_wg h - int (length (tg_requests h)) = tg_wg g - int (length (tg_requests g))"
    and "tg_stopped g \<longrightarrow> tg_stopped h"
    and "\<And>c. c \<in> set (tg_callers h) \<Longrightarrow> c \<in> set (tg_callers g) \<or> caller_ok h c"
  shows "transfer_inv h"
proof -
  have o: "open_calls h = open_calls g" using assms(2) by (simp add: open_calls_def)
  have "caller_ok g c \<Longrightarrow> caller_ok h c" for c
    using assms(2,5) by (auto simp: caller_ok_def split: caller.splits)
  with assms(6) transfer_invD(5) [OF assms(1)] have "\<forall>c \<in> set (tg_callers h). caller_ok h c" by blast
  with assms(1-4) show ?thesis unfolding transfer_inv_def o by auto
qed

lemma inv_enter:
  assumes "transfer_inv g"
  shows "transfer_inv (do_enter key limit g)"
proof (cases "tg_stopped g \<or> tg_inflight g key \<noteq> None")
  case True
  then have "\<exists>d. do_enter key limit g = g\<lparr>tg_callers := tg_callers g @ [d]\<rparr> \<and> caller_ok g d"
    using transfer_invD(2) [OF assms] by (auto simp: do_enter_def caller_ok_def open_calls_def)
  then obtain d where d: "do_enter key limit g = g\<lparr>tg_callers := tg_callers g @ [d]\<rparr>" "caller_ok g d" by blast
  have "caller_ok (g\<lparr>tg_callers := tg_callers g @ [d]\<rparr>) d"
    using d(2) by (auto simp: caller_ok_def split: caller.splits)
  with d(1) show ?thesis by (intro transfer_inv_same_calls [OF assms]) auto
next
  case False
  let ?n = "length (tg_calls g)"
  let ?h = "do_enter key limit g"
  have h: "tg_inflight ?h = (tg_inflight g)(key \<mapsto> ?n)" "tg_wg ?h = tg_wg g + 1" "tg_requests ?h = tg_requests g"
    "tg_calls ?h = tg_calls g @ [\<lparr>tc_key = key, tc_limit = limit, tc_phase = Running_fn, tc_written = 0, tc_err = Some Abandoned\<rparr>]"
    "tg_callers ?h = tg_callers g @ [Parked ?n limit]" "tg_stopped ?h = tg_stopped g"
    using False by (auto simp: do_enter_def Let_def)
  have o: "open_calls ?h = insert ?n (open_calls g)"
    unfolding open_calls_def h by (auto simp: nth_append)
  have n: "?n \<notin> open_calls g" by (simp add: open_calls_def)
  have old: "tg_calls ?h ! i = tg_calls g ! i" if "i \<in> open_calls g" for i
    using that unfolding h by (simp add: nth_append open_calls_def)
  have key: "tc_key (tg_calls g ! i) \<noteq> key" if "i \<in> open_calls g" for i
    using False transfer_invD(1) [OF assms that] by auto
  have "caller_ok ?h c" if "caller_ok g c" for c
    using that unfolding caller_ok_def h by (auto simp: nth_append split: caller.splits)
  then have "\<forall>c \<in> set (tg_callers ?h). caller_ok ?h c"
    using transfer_invD(5) [OF assms] unfolding h by (auto simp: caller_ok_def h(4))
  moreover have "tg_wg ?h = int (card (open_calls ?h)) + int (length (tg_requests ?h))"
    using transfer_invD(4) [OF assms] n finite_open [of g] by (simp add: o h(2,3))
  moreover have "\<forall>i \<in> open_calls ?h. tg_inflight ?h (tc_key (tg_calls ?h ! i)) = Some i"
    using transfer_invD(1) [OF assms] old key by (auto simp: o h(1)) (simp add: h(4))
  moreover have "\<forall>k i. tg_inflight ?h k = Some i \<longrightarrow> i \<in> open_calls ?h \<and> tc_key (tg_calls ?h ! i) = k"
    using transfer_invD(2,3) [OF assms] old by (auto simp: o h(1)) (simp add: h(4))
  ultimately show ?thesis by (simp add: transfer_inv_def)
qed

text \<open>Changing one open call without its key.\<close>

lemma caller_ok_update:
  assumes "caller_ok g c" "i \<in> open_calls g" "tg_calls h = (tg_calls g)[i := x]" "tg_stopped h = tg_stopped g"
  shows "caller_ok h c"
  using assms by (auto simp: caller_ok_def open_calls_def nth_list_update split: caller.splits)

lemma inv_returns:
  assumes "transfer_inv g" "i < length (tg_calls g)" "tc_phase (tg_calls g ! i) = Running_fn"
  shows "transfer_inv (fn_returns i out g)"
proof -
  let ?h = "fn_returns i out g"
  have i: "i \<in> open_calls g" using assms(2,3) by (simp add: open_calls_def)
  obtain x where x: "tg_calls ?h = (tg_calls g)[i := x]" "tc_key x = tc_key (tg_calls g ! i)" "tc_phase x = Published"
    by (cases out) (auto simp: fn_returns_def)
  have rest: "tg_inflight ?h = tg_inflight g" "tg_wg ?h = tg_wg g" "tg_requests ?h = tg_requests g"
    "tg_callers ?h = tg_callers g" "tg_stopped ?h = tg_stopped g" by (simp_all add: fn_returns_def)
  have o: "open_calls ?h = open_calls g"
    using assms(2,3) x by (auto simp: open_calls_def nth_list_update)
  have k: "tc_key (tg_calls ?h ! j) = tc_key (tg_calls g ! j)" for j
    using x assms(2) by (cases "j = i") simp_all
  have "\<forall>c \<in> set (tg_callers ?h). caller_ok ?h c"
    using transfer_invD(5) [OF assms(1)] caller_ok_update [OF _ i x(1) rest(5)] rest(4) by auto
  then show ?thesis using assms(1) unfolding transfer_inv_def o k rest by blast
qed

lemma inv_release:
  assumes "transfer_inv g" "i < length (tg_calls g)" "tc_phase (tg_calls g ! i) = Published"
  shows "transfer_inv (release_call i g)"
proof -
  let ?h = "release_call i g" and ?key = "tc_key (tg_calls g ! i)"
  have i: "i \<in> open_calls g" using assms(2,3) by (simp add: open_calls_def)
  have h: "tg_calls ?h = (tg_calls g)[i := (tg_calls g ! i)\<lparr>tc_phase := Closed\<rparr>]"
    "tg_inflight ?h = (tg_inflight g)(?key := None)" "tg_wg ?h = tg_wg g - 1" "tg_requests ?h = tg_requests g"
    "tg_callers ?h = tg_callers g" "tg_stopped ?h = tg_stopped g" by (simp_all add: release_call_def)
  have o: "open_calls ?h = open_calls g - {i}"
    using assms(2) by (auto simp: open_calls_def h(1) nth_list_update)
  have k: "tg_calls ?h ! j = tg_calls g ! j" if "j \<noteq> i" for j using that by (simp add: h(1))
  have ik: "tg_inflight g ?key = Some i" by (rule transfer_invD(1) [OF assms(1) i])
  have "tc_key (tg_calls g ! j) \<noteq> ?key" if "j \<in> open_calls g" "j \<noteq> i" for j
    using transfer_invD(1) [OF assms(1) that(1)] ik that(2) by auto
  then have 1: "\<forall>j \<in> open_calls ?h. tg_inflight ?h (tc_key (tg_calls ?h ! j)) = Some j"
    using transfer_invD(1) [OF assms(1)] k by (simp add: o h(2))
  have 2: "\<forall>key j. tg_inflight ?h key = Some j \<longrightarrow> j \<in> open_calls ?h \<and> tc_key (tg_calls ?h ! j) = key"
  proof (intro allI impI)
    fix key j assume "tg_inflight ?h key = Some j"
    then have "key \<noteq> ?key" "tg_inflight g key = Some j" by (auto simp: h(2) split: if_splits)
    moreover from this have "j \<noteq> i" "j \<in> open_calls g" "tc_key (tg_calls g ! j) = key"
      using transfer_invD(2,3) [OF assms(1), of key j] by auto
    ultimately show "j \<in> open_calls ?h \<and> tc_key (tg_calls ?h ! j) = key" by (simp add: o k)
  qed
  have "0 < card (open_calls g)" using i finite_open by (auto simp: card_gt_0_iff)
  then have 3: "tg_wg ?h = int (card (open_calls ?h)) + int (length (tg_requests ?h))"
    using transfer_invD(4) [OF assms(1)] i finite_open [of g] by (simp add: o h(3,4) card_Diff_singleton)
  have "\<forall>c \<in> set (tg_callers ?h). caller_ok ?h c"
    using transfer_invD(5) [OF assms(1)] caller_ok_update [OF _ i h(1) h(6)] h(5) by auto
  with 1 2 3 show ?thesis by (simp add: transfer_inv_def)
qed

lemma inv_caller:
  assumes "transfer_inv g" "c < length (tg_callers g)" "tg_callers g ! c = Parked i limit"
    and "r = None \<or> (tc_phase (tg_calls g ! i) = Closed \<and> r = Some (call_result limit (tg_calls g ! i)))"
  shows "transfer_inv (g\<lparr>tg_callers := (tg_callers g)[c := Answered i limit r]\<rparr>)"
proof -
  let ?h = "g\<lparr>tg_callers := (tg_callers g)[c := Answered i limit r]\<rparr>"
  have "caller_ok g (Parked i limit)" using transfer_invD(5) [OF assms(1)] assms(2,3) by (metis nth_mem)
  then have new: "caller_ok ?h (Answered i limit r)" using assms(4) by (auto simp: caller_ok_def)
  have "d \<in> set (tg_callers g) \<or> caller_ok ?h d" if "d \<in> set (tg_callers ?h)" for d
    using that new set_update_subset_insert [of "tg_callers g" c "Answered i limit r"] by auto
  then show ?thesis by (intro transfer_inv_same_calls [OF assms(1)]) simp_all
qed

lemma inv_requests:
  assumes "transfer_inv g"
  shows "transfer_inv (stop g)" "transfer_inv (fst (stopRequests g))" "transfer_inv (fst (trackRequest ended g))"
    and "k \<in> set (tg_requests g) \<Longrightarrow> transfer_inv (untrackRequest k g)"
proof -
  show "transfer_inv (stop g)" "transfer_inv (fst (stopRequests g))" "transfer_inv (fst (trackRequest ended g))"
    by (rule transfer_inv_same_calls [OF assms];
        auto simp: stop_def stopRequests_def trackRequest_def split: if_splits)+
next
  assume k: "k \<in> set (tg_requests g)"
  then have "length (tg_requests g) = Suc (length (remove1 k (tg_requests g)))"
    using length_pos_if_in_set [OF k] by (simp add: length_remove1)
  then show "transfer_inv (untrackRequest k g)"
    by (intro transfer_inv_same_calls [OF assms]) (simp_all add: untrackRequest_def)
qed

lemma transfer_inv_step: "transfer_step g h \<Longrightarrow> transfer_inv g \<Longrightarrow> transfer_inv h"
proof (induction rule: transfer_step.induct)
  case (result c g i limit)
  then show ?case using inv_caller [of g c i limit "Some (call_result limit (tg_calls g ! i))"]
    by (simp add: take_result_def)
next
  case (leave c g i limit)
  then show ?case using inv_caller [of g c i limit None] by (simp add: leave_early_def)
qed (blast intro: inv_enter inv_returns inv_release inv_requests)+

lemma transfer_inv_zero: "transfer_inv zero_group"
  by (simp add: transfer_inv_def zero_group_def open_calls_def)

lemma transfer_inv_reached: "steps transfer_step zero_group g \<Longrightarrow> transfer_inv g"
  by (erule steps_invariant [where I = transfer_inv]) (auto intro: transfer_inv_zero transfer_inv_step)

section \<open>Properties\<close>

text \<open>C25. No two transfers ever write the same destination at once, whoever asks: of the calls whose
  function may still be running there is at most one per destination, and it is the one every new
  caller for that destination joins. What shutdown waits for is exactly these calls and the tracked
  requests.\<close>

theorem one_transfer_per_destination:
  assumes "steps transfer_step zero_group g"
  shows "(\<forall>i < length (tg_calls g). \<forall>j < length (tg_calls g).
      tc_phase (tg_calls g ! i) \<noteq> Closed \<and> tc_phase (tg_calls g ! j) \<noteq> Closed
      \<and> tc_key (tg_calls g ! i) = tc_key (tg_calls g ! j) \<longrightarrow>
      i = j \<and> tg_inflight g (tc_key (tg_calls g ! i)) = Some i)
    \<and> tg_wg g = int (card (open_calls g)) + int (length (tg_requests g))"
proof -
  have inv: "transfer_inv g" by (rule transfer_inv_reached [OF assms])
  have "tg_inflight g (tc_key (tg_calls g ! i)) = Some i"
    if "i < length (tg_calls g)" "tc_phase (tg_calls g ! i) \<noteq> Closed" for i
    using transfer_invD(1) [OF inv] that by (simp add: open_calls_def)
  with transfer_invD(4) [OF inv] show ?thesis by (metis option.inject)
qed

definition two_callers :: transfer_group where
  "two_callers = do_enter ''a'' 5 (do_enter ''a'' 0 zero_group)"

lemma two_callers_reached: "steps transfer_step zero_group two_callers"
  unfolding two_callers_def by (meson steps.none steps.more transfer_step.enter)

theorem one_transfer_per_destination_witness:
  "length (tg_calls two_callers) = 1 \<and> length (tg_callers two_callers) = 2
   \<and> tg_wg two_callers = int (card (open_calls two_callers))"
  using one_transfer_per_destination [OF two_callers_reached]
  by (simp add: two_callers_def do_enter_def zero_group_def)

text \<open>A caller that gets an answer gets the outcome of the one transfer it joined, after that transfer
  ended, judged by its own cap: a success is a success for it only within its cap, and a transfer that
  panicked is an error for everyone who waited.\<close>

lemma callers_share_outcome:
  assumes "steps transfer_step zero_group g" "Answered i limit (Some out) \<in> set (tg_callers g)"
  shows "i < length (tg_calls g) \<and> tc_phase (tg_calls g ! i) = Closed \<and> out = call_result limit (tg_calls g ! i)
    \<and> (snd out = None \<longrightarrow> tc_err (tg_calls g ! i) = None \<and> (limit > 0 \<and> fst out > 0 \<longrightarrow> of_int (fst out) \<le> limit))"
proof -
  have "caller_ok g (Answered i limit (Some out))"
    by (rule transfer_invD(5) [OF transfer_inv_reached [OF assms(1)] assms(2)])
  then have *: "i < length (tg_calls g)" "tc_phase (tg_calls g ! i) = Closed" "out = call_result limit (tg_calls g ! i)"
    by (simp_all add: caller_ok_def del: split_paired_All)
  then show ?thesis by (auto simp: call_result_def is_auto_limit_def not_less split: if_splits)
qed

definition shared_success :: transfer_group where
  "shared_success = take_result 1 (take_result 0 (release_call 0 (fn_returns 0 (Some (7, None)) two_callers)))"

lemma shared_success_reached: "steps transfer_step zero_group shared_success"
proof -
  let ?g1 = "fn_returns 0 (Some (7, None)) two_callers"
  let ?g2 = "release_call 0 ?g1" let ?g3 = "take_result 0 ?g2"
  note defs = two_callers_def do_enter_def zero_group_def fn_returns_def release_call_def take_result_def
  have "transfer_step two_callers ?g1" by (rule transfer_step.returns) (simp_all add: defs)
  moreover have "transfer_step ?g1 ?g2" by (rule transfer_step.release) (simp_all add: defs)
  moreover have "transfer_step ?g2 ?g3" by (rule transfer_step.result [of _ _ 0 0]) (simp_all add: defs)
  moreover have "transfer_step ?g3 shared_success"
    unfolding shared_success_def by (rule transfer_step.result [of _ _ 0 5]) (simp_all add: defs)
  ultimately show ?thesis using two_callers_reached by (meson steps.more)
qed

theorem callers_share_outcome_witness:
  "(7, Some AutoMediaLimit) = call_result 5 (tg_calls shared_success ! 0)
   \<and> (7, None) = call_result 0 (tg_calls shared_success ! 0)"
proof -
  have "tg_callers shared_success = [Answered 0 0 (Some (7, None)), Answered 0 5 (Some (7, Some AutoMediaLimit))]"
    by (simp add: shared_success_def two_callers_def do_enter_def zero_group_def fn_returns_def release_call_def
        take_result_def call_result_def is_auto_limit_def)
  then show ?thesis
    using callers_share_outcome [OF shared_success_reached, of 0 5 "(7, Some AutoMediaLimit)"]
      callers_share_outcome [OF shared_success_reached, of 0 0 "(7, None)"] by simp
qed

text \<open>After \<^verbatim>\<open>stop\<close> nothing new starts, so waiting for the group ends once the running transfers and the
  tracked requests have: no step adds to what is waited for.\<close>

lemma stopped_group_drains:
  assumes "transfer_step g h" "tg_stopped g"
  shows "tg_stopped h \<and> length (tg_calls h) = length (tg_calls g) \<and> tg_wg h \<le> tg_wg g"
  using assms
  by (induction rule: transfer_step.induct)
    (auto simp: do_enter_def fn_returns_def release_call_def take_result_def leave_early_def stop_def
      stopRequests_def trackRequest_def untrackRequest_def split: option.split caller.split)

end
