(* ===== verification/Polls.thy ===== *)
theory Polls
  imports Message_Store Work_Queues Go_Utf8
begin

text \<open>
  Polls (\<^verbatim>\<open>polls.go\<close>): the creation message and its row, votes decoded by the hashes of their options,
  the table of one vote per voter, the tally of \<^verbatim>\<open>/api/poll\<close> with its handler, and the votes of a history
  sync that wait for their secrets. SHA-256 and the decryption of a vote are arguments. A JSON column holds
  the list it encodes (\<^verbatim>\<open>encoding/json\<close> gives back the strings it was given, valid UTF-8 being what the
  messages carry); \<^term>\<open>None\<close> is the \<^verbatim>\<open>NULL\<close> of a vote that could not be decrypted.
\<close>

section \<open>Creation\<close>

record pollCreation =
  pc_Question :: string
  pc_Options :: "string list"
  pc_SelectableCount :: int

text \<open>The proto's view of one creation message, and the five versions of it a message may carry.\<close>

record poll_proto =
  pp_name :: string
  pp_options :: "string list"
  pp_selectable :: int

record poll_versions =
  pv_v1 :: "poll_proto option"
  pv_v2 :: "poll_proto option"
  pv_v3 :: "poll_proto option"
  pv_v5 :: "poll_proto option"
  pv_v6 :: "poll_proto option"

definition first_some :: "'a option list \<Rightarrow> 'a option" where
  "first_some xs = (case dropWhile (\<lambda>x. x = None) xs of [] \<Rightarrow> None | x # _ \<Rightarrow> x)"

definition extractPollCreation :: "poll_versions option \<Rightarrow> pollCreation option" where
  "extractPollCreation msg =
     (case msg of
        None \<Rightarrow> None
      | Some m \<Rightarrow>
          (case first_some [pv_v1 m, pv_v2 m, pv_v3 m, pv_v5 m, pv_v6 m] of
             None \<Rightarrow> None
           | Some pc \<Rightarrow> Some \<lparr>pc_Question = TrimSpace (pp_name pc),
               pc_Options = filter (\<lambda>n. n \<noteq> []) (map TrimSpace (pp_options pc)),
               pc_SelectableCount = pp_selectable pc\<rparr>))"

definition chart_emoji :: string where "chart_emoji = [CHR 0xF0, CHR 0x9F, CHR 0x93, CHR 0x8A]"
definition ballot_emoji :: string where
  "ballot_emoji = [CHR 0xF0, CHR 0x9F, CHR 0x97, CHR 0xB3, CHR 0xEF, CHR 0xB8, CHR 0x8F]"
definition em_dash :: string where "em_dash = [CHR 0xE2, CHR 0x80, CHR 0x94]"

definition pollContent :: "pollCreation \<Rightarrow> string" where
  "pollContent p = chart_emoji @ '' '' @ pc_Question p @ '' '' @ em_dash @ '' options: '' @ Join '' | '' (pc_Options p)"

definition pollVoteContent :: "string list \<Rightarrow> string" where
  "pollVoteContent names =
     (if names = [] then ballot_emoji @ '' vote retracted'' else ballot_emoji @ '' voted: '' @ Join '', '' names)"

section \<open>Tables\<close>

record poll_row =
  po_message_id :: string
  po_chat_jid :: string
  po_question :: string
  po_options :: "string list"
  po_selectable :: int
  po_created_at :: int

record vote_row =
  vr_poll :: string
  vr_chat :: string
  vr_voter :: string
  vr_selected :: "string list option"
  vr_voted_at :: int

definition poll_key :: "poll_row \<Rightarrow> string \<times> string" where
  "poll_key r = (po_message_id r, po_chat_jid r)"

definition vote_key :: "vote_row \<Rightarrow> string \<times> string \<times> string" where
  "vote_key r = (vr_poll r, vr_chat r, vr_voter r)"

definition merge_poll :: "poll_row \<Rightarrow> poll_row \<Rightarrow> poll_row" where
  "merge_poll old new = old\<lparr>po_question := po_question new, po_options := po_options new, po_selectable := po_selectable new\<rparr>"

definition merge_vote :: "vote_row \<Rightarrow> vote_row \<Rightarrow> vote_row" where
  "merge_vote old new =
     (if vr_voted_at new \<ge> vr_voted_at old
      then old\<lparr>vr_selected := vr_selected new, vr_voted_at := vr_voted_at new\<rparr> else old)"

definition storePollWith :: "string \<Rightarrow> string \<Rightarrow> pollCreation \<Rightarrow> instant \<Rightarrow> poll_row list \<Rightarrow> poll_row list" where
  "storePollWith messageID chatJID p createdAt polls =
     upsert poll_key merge_poll
       \<lparr>po_message_id = messageID, po_chat_jid = chatJID, po_question = pc_Question p, po_options = pc_Options p,
        po_selectable = pc_SelectableCount p, po_created_at = dbTime createdAt\<rparr> polls"

text \<open>\<^term>\<open>None\<close> is \<^verbatim>\<open>sql.ErrNoRows\<close>.\<close>

definition GetPoll :: "string \<Rightarrow> string \<Rightarrow> poll_row list \<Rightarrow> pollCreation option" where
  "GetPoll messageID chatJID polls =
     map_option (\<lambda>r. \<lparr>pc_Question = po_question r, pc_Options = po_options r, pc_SelectableCount = po_selectable r\<rparr>)
       (row_of poll_key (messageID, chatJID) polls)"

definition upsertPollVote :: "string \<Rightarrow> string \<Rightarrow> string \<Rightarrow> string list option \<Rightarrow> instant \<Rightarrow> vote_row list \<Rightarrow> vote_row list" where
  "upsertPollVote pollMessageID chatJID voter selected votedAt votes =
     upsert vote_key merge_vote
       \<lparr>vr_poll = pollMessageID, vr_chat = chatJID, vr_voter = voter, vr_selected = selected,
        vr_voted_at = dbTime votedAt\<rparr> votes"

definition StorePollVote :: "string \<Rightarrow> string \<Rightarrow> string \<Rightarrow> string list \<Rightarrow> instant \<Rightarrow> vote_row list \<Rightarrow> vote_row list" where
  "StorePollVote pollMessageID chatJID voter selected votedAt =
     upsertPollVote pollMessageID chatJID voter (Some selected) votedAt"

definition StoreUndecodablePollVote :: "string \<Rightarrow> string \<Rightarrow> string \<Rightarrow> instant \<Rightarrow> vote_row list \<Rightarrow> vote_row list" where
  "StoreUndecodablePollVote pollMessageID chatJID voter votedAt =
     upsertPollVote pollMessageID chatJID voter None votedAt"

interpretation polls_table: keyed_table poll_key merge_poll
  by unfold_locales (simp add: poll_key_def merge_poll_def)

interpretation votes_table: keyed_table vote_key merge_vote
  by unfold_locales (simp add: vote_key_def merge_vote_def)

section \<open>Decoding a vote\<close>

text \<open>\<open>sha\<close> is SHA-256. The map is built in the order of the options, a later option with the same hash
  replacing an earlier one.\<close>

definition optionNamesForHashes :: "(string \<Rightarrow> string) \<Rightarrow> string list \<Rightarrow> string list \<Rightarrow> string list" where
  "optionNamesForHashes sha options hashes =
     (let byHash = map_of (rev (map (\<lambda>name. (hex_encode (sha name), name)) options))
      in List.map_filter (\<lambda>h.
           let key = hex_encode h
           in case byHash key of
                Some name \<Rightarrow> Some name
              | None \<Rightarrow> if length key \<ge> 8 then Some (''?'' @ take 8 key) else None) hashes)"

text \<open>A vote event: the poll it names and what decrypting it gives. \<open>MissingSecret\<close> is
  \<^verbatim>\<open>ErrOriginalMessageSecretNotFound\<close>.\<close>

datatype vote_error = NoDecrypter | MissingSecret | VoteUndecodable

record vote_event =
  ve_update :: "string option"
  ve_hashes :: "vote_error + string list"
  ve_at :: instant

definition decodePollVote :: "(string \<Rightarrow> string) \<Rightarrow> bool \<Rightarrow> poll_row list \<Rightarrow> vote_event \<Rightarrow> string
    \<Rightarrow> string \<times> (vote_error + string list)" where
  "decodePollVote sha decrypter polls evt chatJID =
     (case ve_update evt of
        None \<Rightarrow> ([], Inr [])
      | Some pollID \<Rightarrow>
          if pollID = [] then ([], Inr [])
          else if \<not> decrypter then (pollID, Inl NoDecrypter)
          else (case ve_hashes evt of
                  Inl e \<Rightarrow> (pollID, Inl e)
                | Inr hashes \<Rightarrow>
                    (pollID, Inr (optionNamesForHashes sha
                       (case GetPoll pollID chatJID polls of None \<Rightarrow> [] | Some p \<Rightarrow> pc_Options p) hashes))))"

section \<open>Results\<close>

record PollOptionTally =
  ot_Name :: string
  ot_Count :: nat
  ot_Voters :: "string list"

record PollVoteEntry =
  pe_Voter :: string
  pe_Selected :: "string list"
  pe_VotedAt :: int

record PollResultsResponse =
  pr_Question :: string
  pr_SelectableCount :: int
  pr_TotalVoters :: nat
  pr_UndecodableVotes :: nat
  pr_Options :: "PollOptionTally list"
  pr_Votes :: "PollVoteEntry list"

text \<open>\<^verbatim>\<open>tally[name]\<close> points at the last entry of that name.\<close>

definition last_index :: "string \<Rightarrow> PollOptionTally list \<Rightarrow> nat option" where
  "last_index name ts = List.find (\<lambda>i. ot_Name (ts ! i) = name) (rev [0 ..< length ts])"

definition tally_one :: "string \<Rightarrow> PollOptionTally list \<Rightarrow> string \<Rightarrow> PollOptionTally list" where
  "tally_one voter ts name =
     (case last_index name ts of
        None \<Rightarrow> ts
      | Some i \<Rightarrow> ts[i := (ts ! i)\<lparr>ot_Count := ot_Count (ts ! i) + 1, ot_Voters := ot_Voters (ts ! i) @ [voter]\<rparr>])"

definition count_vote :: "PollResultsResponse \<Rightarrow> vote_row \<Rightarrow> PollResultsResponse" where
  "count_vote resp v =
     (case vr_selected v of
        None \<Rightarrow> resp\<lparr>pr_UndecodableVotes := pr_UndecodableVotes resp + 1\<rparr>
      | Some selected \<Rightarrow>
          resp\<lparr>pr_Votes := pr_Votes resp @ [\<lparr>pe_Voter = vr_voter v, pe_Selected = selected, pe_VotedAt = vr_voted_at v\<rparr>],
               pr_TotalVoters := (if selected \<noteq> [] then pr_TotalVoters resp + 1 else pr_TotalVoters resp),
               pr_Options := foldl (tally_one (vr_voter v)) (pr_Options resp) selected\<rparr>)"

definition poll_votes_of :: "string \<Rightarrow> string \<Rightarrow> vote_row list \<Rightarrow> vote_row list" where
  "poll_votes_of messageID chatJID votes =
     sort_key vr_voted_at (filter (\<lambda>v. vr_poll v = messageID \<and> vr_chat v = chatJID) votes)"

definition PollResults :: "poll_row list \<Rightarrow> vote_row list \<Rightarrow> string \<Rightarrow> string \<Rightarrow> PollResultsResponse option" where
  "PollResults polls votes messageID chatJID =
     (case GetPoll messageID chatJID polls of
        None \<Rightarrow> None
      | Some poll \<Rightarrow> Some (foldl count_vote
          \<lparr>pr_Question = pc_Question poll, pr_SelectableCount = pc_SelectableCount poll, pr_TotalVoters = 0,
           pr_UndecodableVotes = 0,
           pr_Options = map (\<lambda>name. \<lparr>ot_Name = name, ot_Count = 0, ot_Voters = []\<rparr>) (pc_Options poll),
           pr_Votes = []\<rparr> (poll_votes_of messageID chatJID votes)))"

text \<open>The handler: the status of an error, or the results.\<close>

definition handlePollResults :: "jid_sdk \<Rightarrow> chatPolicy \<Rightarrow> poll_row list \<Rightarrow> vote_row list \<Rightarrow> string \<Rightarrow> string
    \<Rightarrow> nat + PollResultsResponse" where
  "handlePollResults sdk policy polls votes message_id chat_jid =
     (let messageID = TrimSpace message_id; chat = TrimSpace chat_jid
      in if messageID = [] \<or> chat = [] then Inl 400
         else case authorizeChat sdk policy chat False of
                Inl status \<Rightarrow> Inl status
              | Inr jid \<Rightarrow> (case PollResults polls votes messageID (JIDString sdk jid) of
                    None \<Rightarrow> Inl 404 | Some resp \<Rightarrow> Inr resp))"

section \<open>Votes that wait for their secrets\<close>

text \<open>A vote of a history sync is a pointer: its index in \<open>hv_works\<close>. A live vote takes part in the order
  without being registered.\<close>

type_synonym history_key = "nat \<times> string \<times> string \<times> string"

datatype work_phase = Waiting | Settled | Dropped

record historyVoteWork =
  hw_key :: history_key
  hw_at :: instant
  hw_superseded :: bool
  hw_history :: bool
  hw_phase :: work_phase

record vote_state =
  hv_works :: "historyVoteWork list"
  hv_pending :: "history_key \<rightharpoonup> nat"
  hv_votes :: "vote_row list"

definition mark_superseded :: "nat \<Rightarrow> historyVoteWork list \<Rightarrow> historyVoteWork list" where
  "mark_superseded i ws = ws[i := (ws ! i)\<lparr>hw_superseded := True\<rparr>]"

definition observeHistoryVote :: "historyVoteWork \<Rightarrow> bool \<Rightarrow> vote_state \<Rightarrow> vote_state" where
  "observeHistoryVote vote register s =
     (let n = length (hv_works s); k = hw_key vote;
          (vote', works, pending) =
            (case hv_pending s k of
               None \<Rightarrow> (vote, hv_works s, hv_pending s)
             | Some p \<Rightarrow>
                 if hw_at vote < hw_at (hv_works s ! p)
                 then (vote\<lparr>hw_superseded := True\<rparr>, hv_works s, hv_pending s)
                 else (vote, mark_superseded p (hv_works s), (hv_pending s)(k := None)))
      in s\<lparr>hv_works := works @ [vote'],
           hv_pending := (if register \<and> \<not> hw_superseded vote' then pending(k \<mapsto> n) else pending)\<rparr>)"

definition drop_pending :: "nat \<Rightarrow> vote_state \<Rightarrow> vote_state" where
  "drop_pending i s =
     (let k = hw_key (hv_works s ! i)
      in if hv_pending s k = Some i then s\<lparr>hv_pending := (hv_pending s)(k := None)\<rparr> else s)"

fun releaseHistoryVotes :: "nat list \<Rightarrow> vote_state \<Rightarrow> vote_state" where
  "releaseHistoryVotes [] s = s"
| "releaseHistoryVotes (i # is) s = releaseHistoryVotes is (drop_pending i s)"

definition set_phase :: "work_phase \<Rightarrow> nat \<Rightarrow> vote_state \<Rightarrow> vote_state" where
  "set_phase p i s = s\<lparr>hv_works := (hv_works s)[i := (hv_works s ! i)\<lparr>hw_phase := p\<rparr>]\<rparr>"

text \<open>The write of one vote, under the order's lock: \<open>selected\<close> is \<^term>\<open>None\<close> for an undecodable vote, \<open>stored\<close>
  what became of the row's write.\<close>

definition write_vote :: "nat \<Rightarrow> string list option \<Rightarrow> bool \<Rightarrow> vote_state \<Rightarrow> vote_state" where
  "write_vote i selected stored s =
     (let w = hv_works s ! i; (client, chat, poll, voter) = hw_key w; t = drop_pending i s
      in set_phase Settled i
           (if \<not> hw_superseded w \<and> stored
            then t\<lparr>hv_votes := upsertPollVote poll chat voter selected (hw_at w) (hv_votes t)\<rparr> else t))"

text \<open>The second half of a live vote: its own write, whatever waits.\<close>

definition cast_live :: "nat \<Rightarrow> string list option \<Rightarrow> bool \<Rightarrow> vote_state \<Rightarrow> vote_state" where
  "cast_live i selected stored s =
     (let w = hv_works s ! i; (client, chat, poll, voter) = hw_key w
      in set_phase Settled i
           (if stored then s\<lparr>hv_votes := upsertPollVote poll chat voter selected (hw_at w) (hv_votes s)\<rparr> else s))"

text \<open>What one vote meets in a pass: whether the bridge is stopping or logged out before and after the
  decryption, whether the client is still the one the vote came through, what it decodes to, whether the
  write gate still admits it, and what becomes of the row.\<close>

record vote_turn =
  vt_ended :: bool
  vt_current :: bool
  vt_decoded :: "string \<times> (vote_error + string list)"
  vt_ended_after :: bool
  vt_current_after :: bool
  vt_admitted :: bool
  vt_stored :: bool

text \<open>A vote that leaves a pass for good is retired: its registration is dropped and it is never looked at
  again.\<close>

definition retire :: "nat \<Rightarrow> vote_state \<Rightarrow> vote_state" where
  "retire i s =
     (let t = drop_pending i s
      in if hw_phase (hv_works t ! i) = Waiting then set_phase Dropped i t else t)"

definition retire_all :: "nat list \<Rightarrow> vote_state \<Rightarrow> vote_state" where
  "retire_all is s = foldl (\<lambda>t i. retire i t) s is"

text \<open>\<^verbatim>\<open>storeHistoryVotePassGated\<close>: the votes of \<open>work\<close> in order; the ones whose secret is missing come back
  while a retry is left.\<close>

fun vote_pass :: "nat list \<Rightarrow> bool \<Rightarrow> (nat \<Rightarrow> vote_turn) \<Rightarrow> nat list \<Rightarrow> nat list \<Rightarrow> vote_state
    \<Rightarrow> vote_state \<times> nat list" where
  "vote_pass work retry turn [] pending s = (s, pending)"
| "vote_pass work retry turn (i # is) pending s =
     (let t = turn i
      in if vt_ended t then (retire_all work s, [])
         else if \<not> vt_current t then vote_pass work retry turn is pending (retire i s)
         else if vt_ended_after t then (retire_all work s, [])
         else if \<not> vt_current_after t \<or> fst (vt_decoded t) = [] then vote_pass work retry turn is pending (retire i s)
         else if retry \<and> snd (vt_decoded t) = Inl MissingSecret then vote_pass work retry turn is (pending @ [i]) s
         else vote_pass work retry turn is pending
           (retire i (if vt_admitted t
              then write_vote i (case snd (vt_decoded t) of Inr names \<Rightarrow> Some names | Inl _ \<Rightarrow> None) (vt_stored t) s
              else s)))"

definition storeHistoryVotePass :: "nat list \<Rightarrow> bool \<Rightarrow> (nat \<Rightarrow> vote_turn) \<Rightarrow> vote_state \<Rightarrow> vote_state \<times> nat list" where
  "storeHistoryVotePass work retry turn s = vote_pass work retry turn work [] s"

text \<open>A live vote: observed, decoded, cast. The result is whether the event was a vote, the poll and the
  text of its message row.\<close>

definition fresh_work :: "bool \<Rightarrow> history_key \<Rightarrow> instant \<Rightarrow> historyVoteWork" where
  "fresh_work history k time = \<lparr>hw_key = k, hw_at = time, hw_superseded = False, hw_history = history, hw_phase = Waiting\<rparr>"

definition handlePollVote :: "(string \<Rightarrow> string) \<Rightarrow> bool \<Rightarrow> poll_row list \<Rightarrow> nat \<Rightarrow> vote_event \<Rightarrow> string \<Rightarrow> string
    \<Rightarrow> instant \<Rightarrow> bool \<Rightarrow> vote_state \<Rightarrow> (bool \<times> string \<times> string) \<times> vote_state" where
  "handlePollVote sha decrypter polls client evt chatJID sender ts stored s =
     (case ve_update evt of
        None \<Rightarrow> ((False, [], []), s)
      | Some poll \<Rightarrow>
          let n = length (hv_works s);
              s1 = observeHistoryVote (fresh_work False (client, chatJID, poll, sender) ts) False s
          in case decodePollVote sha decrypter polls evt chatJID of
               (pollID, r) \<Rightarrow>
                 if pollID = [] then ((True, [], []), s1)
                 else case r of
                        Inl _ \<Rightarrow> ((True, pollID, []), cast_live n None stored s1)
                      | Inr names \<Rightarrow> ((True, pollID, pollVoteContent names), cast_live n (Some names) stored s1))"
text \<open>A history vote arrives (the initial pass), is written or retired by some pass; a live vote is observed,
  then cast. The sections of different goroutines interleave.\<close>

definition waits :: "nat \<Rightarrow> vote_state \<Rightarrow> bool" where
  "waits i s \<longleftrightarrow> i < length (hv_works s) \<and> hw_history (hv_works s ! i) \<and> hw_phase (hv_works s ! i) = Waiting"

inductive vote_step :: "vote_state \<Rightarrow> vote_state \<Rightarrow> bool" where
  arrives: "vote_step s (observeHistoryVote (fresh_work True k t) True s)"
| writes: "waits i s \<Longrightarrow> vote_step s (write_vote i selected stored s)"
| retires: "i < length (hv_works s) \<Longrightarrow> hw_history (hv_works s ! i) \<Longrightarrow> vote_step s (retire i s)"
| live_observed: "vote_step s (observeHistoryVote (fresh_work False k t) False s)"
| live_cast: "i < length (hv_works s) \<Longrightarrow> \<not> hw_history (hv_works s ! i) \<Longrightarrow> vote_step s (cast_live i selected stored s)"

definition no_votes :: vote_state where
  "no_votes = \<lparr>hv_works = [], hv_pending = Map.empty, hv_votes = []\<rparr>"

section \<open>The order of waiting votes\<close>

definition eligible :: "vote_state \<Rightarrow> nat \<Rightarrow> bool" where
  "eligible s i \<longleftrightarrow> waits i s \<and> \<not> hw_superseded (hv_works s ! i)"

text \<open>The registered vote of a key is its one eligible vote, and everything observed after an eligible vote
  is older than it.\<close>

definition vote_inv :: "vote_state \<Rightarrow> bool" where
  "vote_inv s \<longleftrightarrow>
     (\<forall>k i. hv_pending s k = Some i \<longrightarrow> eligible s i \<and> hw_key (hv_works s ! i) = k)
     \<and> (\<forall>i. eligible s i \<longrightarrow> hv_pending s (hw_key (hv_works s ! i)) = Some i)
     \<and> (\<forall>i j. eligible s i \<and> i < j \<and> j < length (hv_works s) \<and> hw_key (hv_works s ! j) = hw_key (hv_works s ! i)
          \<longrightarrow> hw_at (hv_works s ! j) < hw_at (hv_works s ! i))"

lemma vote_invD:
  assumes "vote_inv s"
  shows "hv_pending s k = Some i \<Longrightarrow> eligible s i" "hv_pending s k = Some i \<Longrightarrow> hw_key (hv_works s ! i) = k"
    and "eligible s i \<Longrightarrow> hv_pending s (hw_key (hv_works s ! i)) = Some i"
    and "eligible s i \<Longrightarrow> i < j \<Longrightarrow> j < length (hv_works s) \<Longrightarrow> hw_key (hv_works s ! j) = hw_key (hv_works s ! i) \<Longrightarrow>
      hw_at (hv_works s ! j) < hw_at (hv_works s ! i)"
  using assms unfolding vote_inv_def by blast+

text \<open>A state where one vote stopped being eligible and lost its registration.\<close>

lemma vote_inv_settle:
  assumes inv: "vote_inv s" and t: "length (hv_works t) = length (hv_works s)"
    "\<And>j. j < length (hv_works s) \<Longrightarrow> hw_key (hv_works t ! j) = hw_key (hv_works s ! j) \<and> hw_at (hv_works t ! j) = hw_at (hv_works s ! j)"
    and elig: "\<And>j. eligible t j \<longleftrightarrow> eligible s j \<and> j \<noteq> i"
    and pend: "\<And>k. hv_pending t k = (if hv_pending s k = Some i then None else hv_pending s k)"
  shows "vote_inv t"
proof -
  have lt: "j < length (hv_works s)" if "eligible t j" for j using that t(1) by (simp add: eligible_def waits_def)
  show ?thesis unfolding vote_inv_def
  proof (intro conjI allI impI)
    fix k j assume "hv_pending t k = Some j"
    then have "hv_pending s k = Some j" "j \<noteq> i" by (auto simp: pend split: if_splits)
    then have "eligible t j \<and> hw_key (hv_works t ! j) = k"
      using vote_invD(1,2) [OF inv, of k j] elig [of j] lt [of j] t(2) [of j] by simp
    then show "eligible t j" "hw_key (hv_works t ! j) = k" by simp_all
  next
    fix j assume "eligible t j"
    then show "hv_pending t (hw_key (hv_works t ! j)) = Some j"
      using vote_invD(3) [OF inv, of j] elig [of j] lt [of j] t(2) [of j] by (auto simp: pend)
  next
    fix a b assume "eligible t a \<and> a < b \<and> b < length (hv_works t) \<and> hw_key (hv_works t ! b) = hw_key (hv_works t ! a)"
    then show "hw_at (hv_works t ! b) < hw_at (hv_works t ! a)"
      using vote_invD(4) [OF inv, of a b] elig [of a] lt [of a] t by auto
  qed
qed

lemma waits_append: "waits i (s\<lparr>hv_works := hv_works s @ [w], hv_pending := p\<rparr>) \<longleftrightarrow>
    waits i s \<or> (i = length (hv_works s) \<and> hw_history w \<and> hw_phase w = Waiting)"
  by (auto simp: waits_def nth_append)

lemma eligible_append: "eligible (s\<lparr>hv_works := hv_works s @ [w], hv_pending := p\<rparr>) i \<longleftrightarrow>
    eligible s i \<or> (i = length (hv_works s) \<and> hw_history w \<and> hw_phase w = Waiting \<and> \<not> hw_superseded w)"
  unfolding eligible_def waits_append by (auto simp: nth_append waits_def)

lemma eligible_lt: "eligible s i \<Longrightarrow> i < length (hv_works s)"
  by (simp add: eligible_def waits_def)

lemma vote_inv_append:
  assumes inv: "vote_inv s"
    and old: "\<And>i. eligible s i \<Longrightarrow> hw_key (hv_works s ! i) = hw_key w \<Longrightarrow> hw_at w < hw_at (hv_works s ! i)"
    and new: "if hw_history w \<and> hw_phase w = Waiting \<and> \<not> hw_superseded w
      then p = (hv_pending s)(hw_key w \<mapsto> length (hv_works s)) \<and> hv_pending s (hw_key w) = None
      else p = hv_pending s"
  shows "vote_inv (s\<lparr>hv_works := hv_works s @ [w], hv_pending := p\<rparr>)" (is "vote_inv ?t")
proof -
  let ?n = "length (hv_works s)" and ?e = "hw_history w \<and> hw_phase w = Waiting \<and> \<not> hw_superseded w"
  have nth: "hv_works ?t ! i = hv_works s ! i" if "i < ?n" for i using that by (simp add: nth_append)
  have nthn: "hv_works ?t ! ?n = w" by simp
  have other: "hw_key (hv_works s ! i) \<noteq> hw_key w" if "eligible s i" ?e for i
    using vote_invD(3) [OF inv that(1)] new that(2) by auto
  show ?thesis unfolding vote_inv_def
  proof (intro conjI allI impI)
    fix k i assume p: "hv_pending ?t k = Some i"
    have "eligible ?t i \<and> hw_key (hv_works ?t ! i) = k"
    proof (cases "hv_pending s k = Some i")
      case True
      with vote_invD(1,2) [OF inv True] eligible_lt show ?thesis by (simp add: eligible_append nth_append)
    next
      case False
      with p new have "?e" "i = ?n" "k = hw_key w" by (auto split: if_splits)
      then show ?thesis by (simp add: eligible_append)
    qed
    then show "eligible ?t i" "hw_key (hv_works ?t ! i) = k" by blast+
  next
    fix i assume e: "eligible ?t i"
    show "hv_pending ?t (hw_key (hv_works ?t ! i)) = Some i"
    proof (cases "eligible s i")
      case True
      with vote_invD(3) [OF inv True] other [OF True] eligible_lt [OF True] new show ?thesis
        by (auto simp: nth_append split: if_splits)
    next
      case False
      with e have "i = ?n" ?e by (auto simp: eligible_append)
      with new show ?thesis by simp
    qed
  next
    fix i j assume a: "eligible ?t i \<and> i < j \<and> j < length (hv_works ?t) \<and> hw_key (hv_works ?t ! j) = hw_key (hv_works ?t ! i)"
    then have i: "eligible s i" "i < ?n" using eligible_lt by (auto simp: eligible_append)
    show "hw_at (hv_works ?t ! j) < hw_at (hv_works ?t ! i)"
    proof (cases "j = ?n")
      case True
      with a old [OF i(1)] i(2) show ?thesis by (simp add: nth_append)
    next
      case False
      with a have j: "j < ?n" "i < j" by simp_all
      with a i(2) have "hw_key (hv_works s ! j) = hw_key (hv_works s ! i)" by (simp add: nth_append)
      with vote_invD(4) [OF inv i(1) j(2,1)] i(2) j(1) show ?thesis by (simp add: nth_append)
    qed
  qed
qed

lemma eligible_update:
  assumes "i < length (hv_works s)" "\<not> (hw_history w \<and> hw_phase w = Waiting \<and> \<not> hw_superseded w)"
  shows "eligible (s\<lparr>hv_works := (hv_works s)[i := w], hv_pending := p, hv_votes := v\<rparr>) j \<longleftrightarrow> eligible s j \<and> j \<noteq> i"
  using assms by (auto simp: eligible_def waits_def nth_list_update)

text \<open>One work loses its eligibility, with its registration.\<close>

lemma vote_inv_ends:
  assumes "vote_inv s" "i < length (hv_works s)" "\<not> (hw_history w \<and> hw_phase w = Waiting \<and> \<not> hw_superseded w)"
    and "hw_key w = hw_key (hv_works s ! i)" "hw_at w = hw_at (hv_works s ! i)"
    and "p = (if hv_pending s (hw_key w) = Some i then (hv_pending s)(hw_key w := None) else hv_pending s)"
  shows "vote_inv (s\<lparr>hv_works := (hv_works s)[i := w], hv_pending := p, hv_votes := v\<rparr>)"
proof (rule vote_inv_settle [OF assms(1), where i = i])
  fix k
  have k: "hv_pending s k = Some i \<Longrightarrow> k = hw_key w" using vote_invD(2) [OF assms(1), of k i] assms(4) by simp
  show "hv_pending (s\<lparr>hv_works := (hv_works s)[i := w], hv_pending := p, hv_votes := v\<rparr>) k
      = (if hv_pending s k = Some i then None else hv_pending s k)"
  proof (cases "hv_pending s k = Some i")
    case True
    with k have "k = hw_key w" by blast
    with True show ?thesis unfolding assms(6) by simp
  next
    case False
    then show ?thesis unfolding assms(6) by (auto simp: fun_upd_apply)
  qed
next
  fix j
  show "eligible (s\<lparr>hv_works := (hv_works s)[i := w], hv_pending := p, hv_votes := v\<rparr>) j \<longleftrightarrow> eligible s j \<and> j \<noteq> i"
    by (rule eligible_update [OF assms(2,3)])
next
  fix j assume "j < length (hv_works s)"
  show "hw_key (hv_works (s\<lparr>hv_works := (hv_works s)[i := w], hv_pending := p, hv_votes := v\<rparr>) ! j) = hw_key (hv_works s ! j)
      \<and> hw_at (hv_works (s\<lparr>hv_works := (hv_works s)[i := w], hv_pending := p, hv_votes := v\<rparr>) ! j) = hw_at (hv_works s ! j)"
    using assms(2,4,5) by (cases "j = i") simp_all
qed simp

lemma vote_inv_observe: "vote_inv s \<Longrightarrow> vote_inv (observeHistoryVote (fresh_work history k t) history s)"
proof -
  assume inv: "vote_inv s"
  let ?w = "fresh_work history k t"
  have own: "hv_pending s k = Some i" if "eligible s i" "hw_key (hv_works s ! i) = k" for i
    using vote_invD(3) [OF inv that(1)] that(2) by simp
  show ?thesis
  proof (cases "hv_pending s k")
    case None
    then have "vote_inv (s\<lparr>hv_works := hv_works s @ [?w], hv_pending := (if history then (hv_pending s)(k \<mapsto> length (hv_works s)) else hv_pending s)\<rparr>)"
      by (intro vote_inv_append [OF inv]) (use own in \<open>auto simp: fresh_work_def\<close>)
    with None show ?thesis by (simp add: observeHistoryVote_def fresh_work_def)
  next
    case (Some p)
    have p: "p < length (hv_works s)" "hw_key (hv_works s ! p) = k"
      using vote_invD(1,2) [OF inv Some] eligible_lt by blast+
    show ?thesis
    proof (cases "t < hw_at (hv_works s ! p)")
      case True
      have "vote_inv (s\<lparr>hv_works := hv_works s @ [?w\<lparr>hw_superseded := True\<rparr>], hv_pending := hv_pending s\<rparr>)"
        by (intro vote_inv_append [OF inv]) (use own Some True in \<open>auto simp: fresh_work_def\<close>)
      with Some True show ?thesis by (simp add: observeHistoryVote_def fresh_work_def)
    next
      case False
      let ?s = "s\<lparr>hv_works := mark_superseded p (hv_works s), hv_pending := (hv_pending s)(k := None)\<rparr>"
      have "vote_inv (s\<lparr>hv_works := mark_superseded p (hv_works s), hv_pending := (hv_pending s)(k := None), hv_votes := hv_votes s\<rparr>)"
        unfolding mark_superseded_def by (rule vote_inv_ends [OF inv p(1)]) (use Some p in auto)
      moreover have "s\<lparr>hv_works := mark_superseded p (hv_works s), hv_pending := (hv_pending s)(k := None), hv_votes := hv_votes s\<rparr> = ?s"
        by (rule vote_state.equality) simp_all
      ultimately have inv': "vote_inv ?s" by simp
      have "eligible ?s i \<Longrightarrow> hw_key (hv_works ?s ! i) \<noteq> k" for i
        using vote_invD(3) [OF inv', of i] by auto
      then have "vote_inv (?s\<lparr>hv_works := hv_works ?s @ [?w],
          hv_pending := (if history then (hv_pending ?s)(k \<mapsto> length (hv_works ?s)) else hv_pending ?s)\<rparr>)"
        by (intro vote_inv_append [OF inv']) (auto simp: fresh_work_def)
      moreover have "observeHistoryVote ?w history s = ?s\<lparr>hv_works := hv_works ?s @ [?w],
          hv_pending := (if history then (hv_pending ?s)(k \<mapsto> length (hv_works ?s)) else hv_pending ?s)\<rparr>"
        using Some False by (simp add: observeHistoryVote_def fresh_work_def mark_superseded_def)
      ultimately show ?thesis by metis
    qed
  qed
qed

text \<open>Dropping a registration and ending a work, in either order, is one such end.\<close>

lemma ended_form:
  "\<exists>v. set_phase ph i (t\<lparr>hv_votes := u\<rparr>) = s\<lparr>hv_works := (hv_works s)[i := (hv_works s ! i)\<lparr>hw_phase := ph\<rparr>],
      hv_pending := (if hv_pending s (hw_key (hv_works s ! i)) = Some i
        then (hv_pending s)(hw_key (hv_works s ! i) := None) else hv_pending s), hv_votes := v\<rparr>"
  if "t = drop_pending i s"
  using that by (intro exI [of _ u], intro vote_state.equality) (simp_all add: set_phase_def drop_pending_def Let_def)

lemma votes_self: "(s :: vote_state) = s\<lparr>hv_votes := hv_votes s\<rparr>"
  by simp

lemma vote_inv_end:
  assumes "vote_inv s" "i < length (hv_works s)" "ph \<noteq> Waiting"
  shows "vote_inv (set_phase ph i ((drop_pending i s)\<lparr>hv_votes := u\<rparr>))"
proof -
  let ?w = "(hv_works s ! i)\<lparr>hw_phase := ph\<rparr>"
  obtain v where e: "set_phase ph i ((drop_pending i s)\<lparr>hv_votes := u\<rparr>) = s\<lparr>hv_works := (hv_works s)[i := ?w],
      hv_pending := (if hv_pending s (hw_key (hv_works s ! i)) = Some i
        then (hv_pending s)(hw_key (hv_works s ! i) := None) else hv_pending s), hv_votes := v\<rparr>"
    using ended_form [OF refl, where ph = ph and i = i and s = s and u = u] by blast
  show ?thesis unfolding e by (rule vote_inv_ends [OF assms(1,2)]) (use assms(3) in \<open>simp_all cong: if_cong\<close>)
qed

lemma drop_pending_works [simp]: "hv_works (drop_pending i s) = hv_works s" "hv_votes (drop_pending i s) = hv_votes s"
  by (simp_all add: drop_pending_def Let_def)

lemma drop_pending_self: "(drop_pending i s)\<lparr>hv_votes := hv_votes s\<rparr> = drop_pending i s"
  by (rule vote_state.equality) simp_all

lemma vote_inv_write:
  assumes "vote_inv s" "waits i s"
  shows "vote_inv (write_vote i selected stored s)"
proof -
  have "\<exists>u. write_vote i selected stored s = set_phase Settled i ((drop_pending i s)\<lparr>hv_votes := u\<rparr>)"
    by (cases "hw_key (hv_works s ! i)") (auto simp: write_vote_def Let_def intro: votes_self [THEN arg_cong])
  with vote_inv_end [OF assms(1), of i Settled] assms(2) show ?thesis by (auto simp: waits_def)
qed

lemma not_pending_other:
  "vote_inv s \<Longrightarrow> \<not> waits i s \<Longrightarrow> hv_pending s k \<noteq> Some i"
  using vote_invD(1) eligible_def by blast

lemma vote_inv_retire:
  assumes "vote_inv s" "i < length (hv_works s)" "hw_history (hv_works s ! i)"
  shows "vote_inv (retire i s)"
proof (cases "hw_phase (hv_works s ! i) = Waiting")
  case True
  then have "retire i s = set_phase Dropped i ((drop_pending i s)\<lparr>hv_votes := hv_votes (drop_pending i s)\<rparr>)"
    by (simp add: retire_def Let_def drop_pending_self)
  with vote_inv_end [OF assms(1,2), of Dropped] show ?thesis by simp
next
  case False
  then have "hv_pending s k \<noteq> Some i" for k using not_pending_other [OF assms(1)] by (simp add: waits_def)
  with False have "retire i s = s" by (simp add: retire_def drop_pending_def Let_def)
  with assms(1) show ?thesis by simp
qed

lemma vote_inv_cast:
  assumes "vote_inv s" "i < length (hv_works s)" "\<not> hw_history (hv_works s ! i)"
  shows "vote_inv (cast_live i selected stored s)"
proof -
  have none: "hv_pending s k \<noteq> Some i" for k using not_pending_other [OF assms(1)] assms(3) by (simp add: waits_def)
  then have d: "drop_pending i s = s" by (simp add: drop_pending_def Let_def)
  have "\<exists>u. cast_live i selected stored s = set_phase Settled i (s\<lparr>hv_votes := u\<rparr>)"
    by (cases "hw_key (hv_works s ! i)") (auto simp: cast_live_def Let_def intro: votes_self [THEN arg_cong])
  with vote_inv_end [OF assms(1,2), of Settled] d show ?thesis by auto
qed

lemma vote_inv_step: "vote_step s t \<Longrightarrow> vote_inv s \<Longrightarrow> vote_inv t"
  by (induction rule: vote_step.induct)
    (simp_all add: vote_inv_write vote_inv_retire vote_inv_cast
      vote_inv_observe [of _ True, simplified] vote_inv_observe [of _ False, simplified])

lemma vote_inv_reached: "steps vote_step no_votes s \<Longrightarrow> vote_inv s"
proof (erule steps_invariant [where I = vote_inv])
  show "vote_inv no_votes" by (simp add: vote_inv_def no_votes_def eligible_def waits_def)
qed (rule vote_inv_step)

section \<open>The passes are made of these steps\<close>

lemma works_write: "hv_works (write_vote i selected stored s) = (hv_works s)[i := (hv_works s ! i)\<lparr>hw_phase := Settled\<rparr>]"
  by (simp add: write_vote_def set_phase_def Let_def split: prod.split)

lemma works_retire: "hv_works (retire i s) =
    (if hw_phase (hv_works s ! i) = Waiting then (hv_works s)[i := (hv_works s ! i)\<lparr>hw_phase := Dropped\<rparr>] else hv_works s)"
  by (simp add: retire_def set_phase_def Let_def)

lemma waits_retire: "waits j s \<Longrightarrow> j \<noteq> i \<Longrightarrow> waits j (retire i s)"
  by (auto simp: waits_def works_retire nth_list_update)

lemma waits_write: "waits j s \<Longrightarrow> j \<noteq> i \<Longrightarrow> waits j (write_vote i selected stored s)"
  by (auto simp: waits_def works_write nth_list_update)

lemma steps_one: "step s t \<Longrightarrow> steps step s t"
  by (meson steps.none steps.more)

lemma steps_trans: "steps step t u \<Longrightarrow> steps step s t \<Longrightarrow> steps step s u"
  by (induction rule: steps.induct) (auto intro: steps.more)

definition known_history :: "vote_state \<Rightarrow> nat \<Rightarrow> bool" where
  "known_history s i \<longleftrightarrow> i < length (hv_works s) \<and> hw_history (hv_works s ! i)"

lemma known_retire [simp]: "known_history (retire i s) j = known_history s j"
  by (cases "i = j") (auto simp: known_history_def works_retire nth_list_update)

lemma known_write [simp]: "known_history (write_vote i selected stored s) j = known_history s j"
  by (cases "i = j") (auto simp: known_history_def works_write nth_list_update)

lemma retire_all_steps: "\<forall>i \<in> set is. known_history s i \<Longrightarrow> steps vote_step s (retire_all is s)"
proof (induction "is" arbitrary: s)
  case Nil
  show ?case by (simp add: retire_all_def steps.none)
next
  case (Cons i "is")
  have "steps vote_step (retire i s) (retire_all is (retire i s))" using Cons by simp
  moreover have "vote_step s (retire i s)"
    using Cons.prems by (intro vote_step.retires) (simp_all add: known_history_def)
  ultimately show ?case by (auto simp: retire_all_def intro: steps_trans steps_one)
qed

lemma vote_pass_steps:
  assumes "distinct is" "\<forall>i \<in> set is. waits i s" "\<forall>i \<in> set work. known_history s i"
  shows "steps vote_step s (fst (vote_pass work retry turn is pending s))"
  using assms
proof (induction "is" arbitrary: pending s)
  case Nil
  show ?case by (simp add: steps.none)
next
  case (Cons i "is")
  have w: "waits i s" and k: "i < length (hv_works s)" "hw_history (hv_works s ! i)"
    using Cons.prems(2) by (auto simp: waits_def)
  have all: "steps vote_step s (retire_all work s)" by (rule retire_all_steps [OF Cons.prems(3)])
  have ret: "steps vote_step s (fst (vote_pass work retry turn is p (retire i s)))" for p
  proof -
    have "steps vote_step (retire i s) (fst (vote_pass work retry turn is p (retire i s)))"
      using Cons.prems by (intro Cons.IH) (auto intro!: waits_retire)
    then show ?thesis by (rule steps_trans) (intro steps_one vote_step.retires k)
  qed
  have wr: "steps vote_step s (fst (vote_pass work retry turn is p (retire i (write_vote i sel st s))))" for p sel st
  proof -
    let ?t = "write_vote i sel st s"
    have "steps vote_step (retire i ?t) (fst (vote_pass work retry turn is p (retire i ?t)))"
      using Cons.prems by (intro Cons.IH) (auto intro!: waits_retire waits_write)
    moreover have "vote_step ?t (retire i ?t)"
      using k by (intro vote_step.retires) (simp_all add: works_write)
    moreover have "vote_step s ?t" by (rule vote_step.writes [OF w])
    ultimately show ?thesis by (metis steps_trans steps_one)
  qed
  have keep: "steps vote_step s (fst (vote_pass work retry turn is p s))" for p
    using Cons.prems by (intro Cons.IH) auto
  show ?case using all ret wr keep by (cases retry) (simp_all add: Let_def)
qed

lemma handlePollVote_steps:
  "steps vote_step s (snd (handlePollVote sha decrypter polls client evt chatJID sender ts stored s))"
proof (cases "ve_update evt")
  case None
  then show ?thesis by (simp add: handlePollVote_def steps.none)
next
  case (Some poll)
  let ?w = "fresh_work False (client, chatJID, poll, sender) ts" let ?s1 = "observeHistoryVote ?w False s"
  let ?n = "length (hv_works s)"
  have one: "steps vote_step s ?s1" by (intro steps_one vote_step.live_observed)
  have n: "?n < length (hv_works ?s1)" "\<not> hw_history (hv_works ?s1 ! ?n)"
    by (auto simp: observeHistoryVote_def fresh_work_def mark_superseded_def Let_def nth_append split: option.split)
  have "steps vote_step s (cast_live ?n sel stored ?s1)" for sel
    by (rule steps_trans [OF _ one]) (intro steps_one vote_step.live_cast n)
  with one Some show ?thesis by (auto simp: handlePollVote_def Let_def split: prod.split sum.split)
qed

section \<open>One row per voter\<close>

definition store_votes :: "vote_row list \<Rightarrow> vote_row list \<Rightarrow> vote_row list" where
  "store_votes vs table = foldl (\<lambda>t v. upsert vote_key merge_vote v t) table vs"

lemma merge_vote_cases:
  "vote_key old = vote_key new \<Longrightarrow> merge_vote old new = (if vr_voted_at new \<ge> vr_voted_at old then new else old)"
  by (auto simp: merge_vote_def vote_key_def)

lemma store_votes_snoc: "store_votes (vs @ [v]) t = upsert vote_key merge_vote v (store_votes vs t)"
  by (simp add: store_votes_def)

lemma store_votes_keyed: "keyed vote_key t \<Longrightarrow> keyed vote_key (store_votes vs t)"
  by (induction vs rule: rev_induct) (simp_all add: store_votes_snoc votes_table.upsert_keyed, simp add: store_votes_def)

text \<open>What is stored for a voter is a vote of theirs no other of theirs is later than.\<close>

lemma store_votes_latest:
  "(\<forall>v \<in> set vs. vote_key v \<noteq> k) \<and> row_of vote_key k (store_votes vs []) = None
   \<or> (\<exists>r \<in> set vs. row_of vote_key k (store_votes vs []) = Some r \<and> vote_key r = k
       \<and> (\<forall>u \<in> set vs. vote_key u = k \<longrightarrow> vr_voted_at u \<le> vr_voted_at r))"
proof (induction vs rule: rev_induct)
  case Nil
  show ?case by (simp add: store_votes_def row_of_def)
next
  case (snoc v vs)
  let ?t = "store_votes vs []"
  have kt: "keyed vote_key ?t" by (rule store_votes_keyed) simp
  show ?case
  proof (cases "vote_key v = k")
    case False
    then have "row_of vote_key k (store_votes (vs @ [v]) []) = row_of vote_key k ?t"
      by (simp add: store_votes_snoc votes_table.row_of_upsert_other)
    with snoc False show ?thesis by auto
  next
    case True
    have row: "row_of vote_key k (store_votes (vs @ [v]) []) =
        Some (case row_of vote_key k ?t of None \<Rightarrow> v | Some old \<Rightarrow> merge_vote old v)"
      using votes_table.row_of_upsert_same [OF kt, of v] True by (simp add: store_votes_snoc)
    show ?thesis
    proof (cases "row_of vote_key k ?t")
      case None
      with snoc.IH have "\<forall>u \<in> set vs. vote_key u \<noteq> k" by auto
      with row None True show ?thesis by auto
    next
      case (Some old)
      with snoc.IH have old: "old \<in> set vs" "vote_key old = k"
        "\<forall>u \<in> set vs. vote_key u = k \<longrightarrow> vr_voted_at u \<le> vr_voted_at old" by auto
      have "merge_vote old v = (if vr_voted_at v \<ge> vr_voted_at old then v else old)"
        by (rule merge_vote_cases) (simp add: old(2) True)
      with row Some old True show ?thesis by (auto intro: order_trans)
    qed
  qed
qed

section \<open>The tally\<close>

definition chose :: "string \<Rightarrow> vote_row \<Rightarrow> bool" where
  "chose name v \<longleftrightarrow> (case vr_selected v of None \<Rightarrow> False | Some sel \<Rightarrow> name \<in> set sel)"

lemma last_index_distinct:
  assumes "distinct (map ot_Name ts)"
  shows "last_index name ts = Some i \<longleftrightarrow> i < length ts \<and> ot_Name (ts ! i) = name"
proof
  assume "last_index name ts = Some i"
  then show "i < length ts \<and> ot_Name (ts ! i) = name"
    unfolding last_index_def find_Some_iff by (auto simp: rev_nth)
next
  assume i: "i < length ts \<and> ot_Name (ts ! i) = name"
  then have "last_index name ts \<noteq> None" by (auto simp: last_index_def find_None_iff)
  then obtain j where j: "last_index name ts = Some j" by blast
  then have "j < length ts" "ot_Name (ts ! j) = name"
    unfolding last_index_def find_Some_iff by (auto simp: rev_nth)
  with i assms have "i = j" by (auto simp: distinct_conv_nth)
  with j show "last_index name ts = Some i" by simp
qed

lemma tally_one_entry:
  assumes "distinct (map ot_Name ts)" "i < length ts"
  shows "map ot_Name (tally_one voter ts name) = map ot_Name ts \<and> length (tally_one voter ts name) = length ts
    \<and> tally_one voter ts name ! i = (if ot_Name (ts ! i) = name
        then (ts ! i)\<lparr>ot_Count := ot_Count (ts ! i) + 1, ot_Voters := ot_Voters (ts ! i) @ [voter]\<rparr> else ts ! i)"
proof (cases "last_index name ts")
  case None
  then have "ot_Name (ts ! i) \<noteq> name"
    using last_index_distinct [OF assms(1), of name i] assms(2) by auto
  with None show ?thesis by (simp add: tally_one_def)
next
  case (Some j)
  then have "j < length ts" "ot_Name (ts ! j) = name" using last_index_distinct [OF assms(1)] by auto
  moreover have "ot_Name (ts ! i) = name \<longleftrightarrow> i = j"
    using last_index_distinct [OF assms(1), of name i] Some assms(2) by auto
  moreover have "map ot_Name (ts[j := (ts ! j)\<lparr>ot_Count := c, ot_Voters := v\<rparr>]) = map ot_Name ts" for c v
    using calculation(1) by (intro nth_equalityI) (auto simp: nth_list_update)
  ultimately show ?thesis using Some by (auto simp: tally_one_def)
qed

lemma tally_ballot:
  assumes "distinct (map ot_Name ts)" "i < length ts"
  shows "map ot_Name (foldl (tally_one voter) ts sel) = map ot_Name ts
    \<and> ot_Count (foldl (tally_one voter) ts sel ! i) = ot_Count (ts ! i) + count_list sel (ot_Name (ts ! i))
    \<and> ot_Voters (foldl (tally_one voter) ts sel ! i)
        = ot_Voters (ts ! i) @ replicate (count_list sel (ot_Name (ts ! i))) voter"
  using assms
proof (induction sel arbitrary: ts)
  case (Cons name sel)
  let ?u = "tally_one voter ts name"
  note e = tally_one_entry [OF Cons.prems, of voter name]
  have "distinct (map ot_Name ?u)" "i < length ?u" using e Cons.prems by simp_all
  from Cons.IH [OF this] e show ?case
    by (auto simp: replicate_app_Cons_same)
qed simp

lemma count_list_distinct: "distinct xs \<Longrightarrow> count_list xs x = (if x \<in> set xs then 1 else 0)"
  by (induction xs) auto

lemma count_votes:
  assumes "distinct (map ot_Name (pr_Options resp))" "i < length (pr_Options resp)"
    and "\<And>v sel. v \<in> set vs \<Longrightarrow> vr_selected v = Some sel \<Longrightarrow> distinct sel"
  shows "map ot_Name (pr_Options (foldl count_vote resp vs)) = map ot_Name (pr_Options resp)
    \<and> ot_Count (pr_Options (foldl count_vote resp vs) ! i)
        = ot_Count (pr_Options resp ! i) + length (filter (chose (ot_Name (pr_Options resp ! i))) vs)
    \<and> ot_Voters (pr_Options (foldl count_vote resp vs) ! i)
        = ot_Voters (pr_Options resp ! i) @ map vr_voter (filter (chose (ot_Name (pr_Options resp ! i))) vs)
    \<and> pr_TotalVoters (foldl count_vote resp vs)
        = pr_TotalVoters resp + length (filter (\<lambda>v. vr_selected v \<noteq> None \<and> vr_selected v \<noteq> Some []) vs)
    \<and> pr_UndecodableVotes (foldl count_vote resp vs)
        = pr_UndecodableVotes resp + length (filter (\<lambda>v. vr_selected v = None) vs)"
  using assms
proof (induction vs arbitrary: resp)
  case (Cons v vs)
  have d: "distinct sel" if "u \<in> set vs" "vr_selected u = Some sel" for u sel
    using Cons.prems(3) [of u sel] that by simp
  show ?case
  proof (cases "vr_selected v")
    case None
    have c: "count_vote resp v = resp\<lparr>pr_UndecodableVotes := pr_UndecodableVotes resp + 1\<rparr>"
      using None by (simp add: count_vote_def)
    have "\<not> chose n v" for n using None by (simp add: chose_def)
    with Cons.IH [of "count_vote resp v", OF _ _ d] Cons.prems(1,2) None show ?thesis by (simp add: c)
  next
    case (Some sel)
    let ?name = "ot_Name (pr_Options resp ! i)"
    note b = tally_ballot [OF Cons.prems(1,2), of "vr_voter v" sel]
    have opts: "pr_Options (count_vote resp v) = foldl (tally_one (vr_voter v)) (pr_Options resp) sel"
      using Some by (simp add: count_vote_def)
    have len: "length (pr_Options (count_vote resp v)) = length (pr_Options resp)"
      unfolding opts using b by (metis length_map)
    have nm: "ot_Name (pr_Options (count_vote resp v) ! i) = ?name"
      unfolding opts using b Cons.prems(2) len opts by (metis nth_map)
    have tot: "pr_TotalVoters (count_vote resp v) = pr_TotalVoters resp + (if sel \<noteq> [] then 1 else 0)"
      "pr_UndecodableVotes (count_vote resp v) = pr_UndecodableVotes resp"
      using Some by (simp_all add: count_vote_def)
    have cnt: "count_list sel ?name = (if ?name \<in> set sel then 1 else 0)"
      using Cons.prems(3) [of v sel] Some by (simp add: count_list_distinct)
    have "distinct (map ot_Name (pr_Options (count_vote resp v)))" using b Cons.prems(1) opts by simp
    from Cons.IH [OF this _ d] len Cons.prems(2)
    have ih: "map ot_Name (pr_Options (foldl count_vote (count_vote resp v) vs)) = map ot_Name (pr_Options resp)"
      "ot_Count (pr_Options (foldl count_vote (count_vote resp v) vs) ! i)
        = ot_Count (pr_Options resp ! i) + count_list sel ?name + length (filter (chose ?name) vs)"
      "ot_Voters (pr_Options (foldl count_vote (count_vote resp v) vs) ! i)
        = ot_Voters (pr_Options resp ! i) @ replicate (count_list sel ?name) (vr_voter v) @ map vr_voter (filter (chose ?name) vs)"
      "pr_TotalVoters (foldl count_vote (count_vote resp v) vs) = pr_TotalVoters (count_vote resp v)
        + length (filter (\<lambda>v. vr_selected v \<noteq> None \<and> vr_selected v \<noteq> Some []) vs)"
      "pr_UndecodableVotes (foldl count_vote (count_vote resp v) vs) = pr_UndecodableVotes (count_vote resp v)
        + length (filter (\<lambda>v. vr_selected v = None) vs)"
      unfolding nm using b by (simp_all add: opts)
    have "chose ?name v \<longleftrightarrow> ?name \<in> set sel" using Some by (simp add: chose_def)
    with ih cnt Some tot show ?thesis by auto
  qed
qed simp

section \<open>Options and hashes\<close>

lemma of_char_hex_digit: "n < 16 \<Longrightarrow> (of_char (hex_digit n) :: nat) = (if n < 10 then 48 + n else 87 + n)"
  by (simp add: hex_digit_def)

lemma hex_digit_inj: "m < 16 \<Longrightarrow> n < 16 \<Longrightarrow> hex_digit m = hex_digit n \<Longrightarrow> m = n"
proof -
  assume b: "m < 16" "n < 16" and e: "hex_digit m = hex_digit n"
  have "(of_char (hex_digit m) :: nat) = of_char (hex_digit n)" by (simp only: e)
  then show "m = n" unfolding of_char_hex_digit [OF b(1)] of_char_hex_digit [OF b(2)] using b by (simp split: if_splits)
qed

lemma hex_byte_inj:
  assumes "hex_digit (of_char a div 16) = hex_digit (of_char b div 16)" "hex_digit (of_char a mod 16) = hex_digit (of_char b mod 16)"
  shows "a = b"
proof -
  have b: "(of_char c :: nat) div 16 < 16" for c
  proof -
    have "(of_char c :: nat) mod 256 < 256" by (rule mod_less_divisor) simp
    then show ?thesis by (simp add: less_mult_imp_div_less)
  qed
  have "(of_char a :: nat) div 16 = of_char b div 16" "(of_char a :: nat) mod 16 = of_char b mod 16"
    using hex_digit_inj [OF b b assms(1)] hex_digit_inj [OF _ _ assms(2)] by simp_all
  then have "(of_char a :: nat) = of_char b" by (metis div_mult_mod_eq)
  then show ?thesis by simp
qed

lemma hex_encode_inj: "hex_encode a = hex_encode b \<longleftrightarrow> a = b"
proof
  assume "hex_encode a = hex_encode b"
  then show "a = b"
  proof (induction a arbitrary: b)
    case Nil
    then show ?case by (cases b) (simp_all add: hex_encode_def)
  next
    case (Cons x a)
    then obtain y c where b: "b = y # c" by (cases b) (simp_all add: hex_encode_def)
    with Cons.prems have "x = y" "hex_encode a = hex_encode c"
      by (auto simp: hex_encode_def intro: hex_byte_inj)
    with Cons.IH b show ?case by simp
  qed
qed simp

lemma optionNames_known:
  assumes "set picked \<subseteq> set options" "inj_on sha (set options)"
  shows "optionNamesForHashes sha options (map sha picked) = picked"
proof -
  let ?m = "map_of (rev (map (\<lambda>name. (hex_encode (sha name), name)) options))"
  have m: "?m (hex_encode (sha name)) = Some name" if "name \<in> set options" for name
  proof -
    have "?m (hex_encode (sha name)) \<noteq> None" using that by (auto simp: map_of_eq_None_iff image_image)
    then obtain n where n: "?m (hex_encode (sha name)) = Some n" by blast
    then have "(hex_encode (sha name), n) \<in> set (map (\<lambda>name. (hex_encode (sha name), name)) options)"
      using map_of_SomeD by fastforce
    then have "n \<in> set options" "sha n = sha name" by (auto simp: hex_encode_inj)
    with assms(2) that n show ?thesis by (auto dest: inj_onD)
  qed
  show ?thesis
    using assms(1) by (induction picked) (simp_all add: optionNamesForHashes_def map_filter_simps Let_def m)
qed

section \<open>Why a waiting vote is passed over\<close>

definition stamps :: "vote_state \<Rightarrow> (history_key \<times> instant \<times> bool) list" where
  "stamps s = map (\<lambda>w. (hw_key w, hw_at w, hw_superseded w)) (hv_works s)"

definition later_vote :: "nat \<Rightarrow> nat \<Rightarrow> (history_key \<times> instant \<times> bool) list \<Rightarrow> bool" where
  "later_vote i j xs \<longleftrightarrow> i < length xs \<and> j < length xs \<and> fst (xs ! j) = fst (xs ! i)
     \<and> (if i < j then fst (snd (xs ! i)) \<le> fst (snd (xs ! j)) else fst (snd (xs ! i)) < fst (snd (xs ! j)))"

definition passed_over_for_later :: "vote_state \<Rightarrow> bool" where
  "passed_over_for_later s \<longleftrightarrow> (\<forall>i < length (stamps s). snd (snd (stamps s ! i)) \<longrightarrow> (\<exists>j. later_vote i j (stamps s)))"

lemma stamps_phase: "i < length ws \<Longrightarrow> map (\<lambda>w. (hw_key w, hw_at w, hw_superseded w)) (ws[i := (ws ! i)\<lparr>hw_phase := ph\<rparr>])
    = map (\<lambda>w. (hw_key w, hw_at w, hw_superseded w)) ws"
  by (rule nth_equalityI) (simp_all add: nth_list_update)

lemma stamps_kept:
  "waits i s \<Longrightarrow> stamps (write_vote i selected stored s) = stamps s"
  "i < length (hv_works s) \<Longrightarrow> stamps (retire i s) = stamps s"
  "i < length (hv_works s) \<Longrightarrow> stamps (cast_live i selected stored s) = stamps s"
  by (simp_all add: stamps_def works_write works_retire stamps_phase waits_def)
    (simp add: cast_live_def set_phase_def Let_def stamps_phase split: prod.split)

lemma later_vote_grows:
  "later_vote i j xs \<Longrightarrow> \<forall>k < length xs. fst (ys ! k) = fst (xs ! k) \<and> fst (snd (ys ! k)) = fst (snd (xs ! k)) \<Longrightarrow>
     length xs \<le> length ys \<Longrightarrow> later_vote i j ys"
  by (auto simp: later_vote_def)

lemma passed_over_observe:
  assumes inv: "passed_over_for_later s" and vote: "vote_inv s"
  shows "passed_over_for_later (observeHistoryVote (fresh_work history k t) history s)"
proof (cases "hv_pending s k")
  case None
  then have "stamps (observeHistoryVote (fresh_work history k t) history s) = stamps s @ [(k, t, False)]"
    by (simp add: observeHistoryVote_def fresh_work_def stamps_def)
  moreover have "later_vote i j (stamps s) \<Longrightarrow> later_vote i j (stamps s @ [(k, t, False)])" for i j
    by (erule later_vote_grows) (simp_all add: nth_append)
  ultimately show ?thesis using inv unfolding passed_over_for_later_def
    by (auto simp: nth_append less_Suc_eq) blast
next
  case (Some p)
  have p: "p < length (hv_works s)" "hw_key (hv_works s ! p) = k"
    using vote_invD(1,2) [OF vote Some] eligible_lt by blast+
  let ?t = "stamps (observeHistoryVote (fresh_work history k t) history s)" and ?n = "length (stamps s)"
  have same: "length ?t = Suc ?n" "\<forall>i < ?n. fst (?t ! i) = fst (stamps s ! i) \<and> fst (snd (?t ! i)) = fst (snd (stamps s ! i))"
    "fst (?t ! ?n) = k" "fst (snd (?t ! ?n)) = t"
    using p Some by (auto simp: observeHistoryVote_def fresh_work_def stamps_def mark_superseded_def nth_append nth_list_update Let_def)
  have old: "later_vote i j (stamps s) \<Longrightarrow> \<exists>j. later_vote i j ?t" for i j
    using later_vote_grows [of i j "stamps s" ?t] same by auto
  have at_p: "fst (snd (stamps s ! p)) = hw_at (hv_works s ! p)" "fst (stamps s ! p) = k" "p < ?n"
    using p by (simp_all add: stamps_def)
  show ?thesis
  proof (cases "t < hw_at (hv_works s ! p)")
    case True
    then have e: "?t = stamps s @ [(k, t, True)]"
      using Some by (simp add: observeHistoryVote_def fresh_work_def stamps_def)
    have "later_vote ?n p ?t" using True same at_p by (simp add: later_vote_def)
    with inv old show ?thesis unfolding passed_over_for_later_def e by (auto simp: nth_append less_Suc_eq)
  next
    case False
    then have e: "?t = (stamps s)[p := (k, hw_at (hv_works s ! p), True)] @ [(k, t, False)]"
      using Some p by (simp add: observeHistoryVote_def fresh_work_def stamps_def mark_superseded_def map_update)
    have "later_vote p ?n ?t" using False same at_p by (simp add: later_vote_def)
    with inv old at_p(3) show ?thesis unfolding passed_over_for_later_def e
      by (auto simp: nth_append nth_list_update less_Suc_eq split: if_splits)
  qed
qed

lemma passed_over_step: "vote_step s t \<Longrightarrow> vote_inv s \<Longrightarrow> passed_over_for_later s \<Longrightarrow> passed_over_for_later t"
  by (induction rule: vote_step.induct)
    (simp_all add: passed_over_observe [of _ True, simplified] passed_over_observe [of _ False, simplified],
     simp_all add: passed_over_for_later_def stamps_kept)

lemma passed_over_reached: "steps vote_step no_votes s \<Longrightarrow> passed_over_for_later s"
proof -
  assume r: "steps vote_step no_votes s"
  have "vote_inv s \<and> passed_over_for_later s"
  proof (rule steps_invariant [OF r, where I = "\<lambda>s. vote_inv s \<and> passed_over_for_later s"])
    show "vote_inv no_votes \<and> passed_over_for_later no_votes"
      using vote_inv_reached [OF steps.none] by (simp add: passed_over_for_later_def stamps_def no_votes_def)
  qed (use vote_inv_step passed_over_step in blast)
  then show ?thesis by simp
qed

section \<open>Properties\<close>


definition overtaken :: vote_state where
  "overtaken = observeHistoryVote (fresh_work False (0, ''c'', ''p'', ''v'') 5) False
     (observeHistoryVote (fresh_work True (0, ''c'', ''p'', ''v'') 5) True no_votes)"

definition not_overtaken :: vote_state where
  "not_overtaken = observeHistoryVote (fresh_work False (0, ''c'', ''p'', ''v'') 4) False
     (observeHistoryVote (fresh_work True (0, ''c'', ''p'', ''v'') 5) True no_votes)"


text \<open>The vote kept for a voter is the latest one, in whatever order the votes arrive: after any sequence
  of stored votes the row of a voter is one of their votes that none of their others is later than, and
  two orders of the same votes agree when a voter's votes have different times.\<close>

lemma poll_latest_vote_wins:
  assumes "v \<in> set vs" "mset us = mset vs"
    and "\<forall>a \<in> set vs. \<forall>b \<in> set vs. vote_key a = vote_key b \<and> vr_voted_at a = vr_voted_at b \<longrightarrow> a = b"
  shows "\<exists>r \<in> set vs. row_of vote_key (vote_key v) (store_votes vs []) = Some r
    \<and> row_of vote_key (vote_key v) (store_votes us []) = Some r \<and> vote_key r = vote_key v
    \<and> (\<forall>u \<in> set vs. vote_key u = vote_key v \<longrightarrow> vr_voted_at u \<le> vr_voted_at r)"
proof -
  have set: "set us = set vs" using assms(2) by (metis set_mset_mset)
  from store_votes_latest [of vs "vote_key v"] assms(1) obtain r where
    r: "r \<in> set vs" "row_of vote_key (vote_key v) (store_votes vs []) = Some r" "vote_key r = vote_key v"
      "\<forall>u \<in> set vs. vote_key u = vote_key v \<longrightarrow> vr_voted_at u \<le> vr_voted_at r" by blast
  from store_votes_latest [of us "vote_key v"] assms(1) set obtain q where
    q: "q \<in> set vs" "row_of vote_key (vote_key v) (store_votes us []) = Some q" "vote_key q = vote_key v"
      "\<forall>u \<in> set vs. vote_key u = vote_key v \<longrightarrow> vr_voted_at u \<le> vr_voted_at q" by blast
  have "vr_voted_at r = vr_voted_at q" using r q by (meson order.antisym)
  with assms(3) r q have "r = q" by metis
  with r q show ?thesis by blast
qed

definition sample_vote :: "string \<Rightarrow> string list option \<Rightarrow> int \<Rightarrow> vote_row" where
  "sample_vote voter sel t = \<lparr>vr_poll = ''p'', vr_chat = ''c'', vr_voter = voter, vr_selected = sel, vr_voted_at = t\<rparr>"

theorem poll_latest_vote_wins_witness:
  "\<exists>r. row_of vote_key (''p'', ''c'', ''v'') (store_votes [sample_vote ''v'' (Some [''a'']) 2, sample_vote ''v'' None 1] []) = Some r
     \<and> row_of vote_key (''p'', ''c'', ''v'') (store_votes [sample_vote ''v'' None 1, sample_vote ''v'' (Some [''a'']) 2] []) = Some r"
  using poll_latest_vote_wins [of "sample_vote ''v'' None 1" "[sample_vote ''v'' (Some [''a'']) 2, sample_vote ''v'' None 1]"
      "[sample_vote ''v'' None 1, sample_vote ''v'' (Some [''a'']) 2]"]
  by (auto simp: sample_vote_def vote_key_def)

text \<open>What \<^verbatim>\<open>/api/poll\<close> reports is the tally of the stored votes: for each option the voters whose stored
  vote chose it, each once, with a count that agrees; the total counts the voters who chose something and
  the undecodable votes are the rest that could not be read.\<close>

lemma poll_results_tally:
  assumes "PollResults polls votes messageID chatJID = Some resp" "keyed vote_key votes"
    and "GetPoll messageID chatJID polls = Some poll" "distinct (pc_Options poll)"
    and "\<forall>v \<in> set votes. \<forall>sel. vr_selected v = Some sel \<longrightarrow> distinct sel"
    and "i < length (pc_Options poll)"
  shows "map ot_Name (pr_Options resp) = pc_Options poll
    \<and> set (ot_Voters (pr_Options resp ! i))
        = {vr_voter v | v. v \<in> set votes \<and> vr_poll v = messageID \<and> vr_chat v = chatJID \<and> chose (pc_Options poll ! i) v}
    \<and> distinct (ot_Voters (pr_Options resp ! i)) \<and> ot_Count (pr_Options resp ! i) = length (ot_Voters (pr_Options resp ! i))
    \<and> pr_TotalVoters resp + pr_UndecodableVotes resp
        \<le> length (filter (\<lambda>v. vr_poll v = messageID \<and> vr_chat v = chatJID) votes)"
proof -
  let ?vs = "poll_votes_of messageID chatJID votes" and ?name = "pc_Options poll ! i"
  define r0 where "r0 = \<lparr>pr_Question = pc_Question poll, pr_SelectableCount = pc_SelectableCount poll, pr_TotalVoters = 0,
    pr_UndecodableVotes = 0, pr_Options = map (\<lambda>name. \<lparr>ot_Name = name, ot_Count = 0, ot_Voters = []\<rparr>) (pc_Options poll),
    pr_Votes = []\<rparr>"
  have resp: "resp = foldl count_vote r0 ?vs" using assms(1,3) by (simp add: PollResults_def r0_def)
  have o: "map ot_Name (pr_Options r0) = pc_Options poll" by (simp add: r0_def comp_def)
  have vs: "set ?vs = {v \<in> set votes. vr_poll v = messageID \<and> vr_chat v = chatJID}" by (simp add: poll_votes_of_def)
  have nm: "pr_Options r0 ! i = \<lparr>ot_Name = ?name, ot_Count = 0, ot_Voters = []\<rparr>" using assms(6) by (simp add: r0_def)
  have ds: "distinct sel" if "v \<in> set ?vs" "vr_selected v = Some sel" for v sel using that assms(5) vs by auto
  have od: "distinct (map ot_Name (pr_Options r0))" "i < length (pr_Options r0)"
    using assms(4,6) o by (simp_all add: r0_def)
  note cv = count_votes [OF od ds]
  have *: "map ot_Name (pr_Options resp) = pc_Options poll" "ot_Count (pr_Options resp ! i) = length (filter (chose ?name) ?vs)"
    "ot_Voters (pr_Options resp ! i) = map vr_voter (filter (chose ?name) ?vs)"
    "pr_TotalVoters resp = length (filter (\<lambda>v. vr_selected v \<noteq> None \<and> vr_selected v \<noteq> Some []) ?vs)"
    "pr_UndecodableVotes resp = length (filter (\<lambda>v. vr_selected v = None) ?vs)"
    using cv unfolding resp o nm by (simp_all add: r0_def)
  have inj: "inj_on vr_voter (set ?vs)"
    unfolding vs using keyed_inj [OF assms(2)] by (intro inj_onI) (auto simp: vote_key_def)
  have "distinct votes" using assms(2) by (auto simp: keyed_def distinct_map)
  then have "distinct ?vs" by (simp add: poll_votes_of_def)
  with inj have d: "distinct (map vr_voter (filter (chose ?name) ?vs))"
    by (simp add: distinct_map) (erule inj_on_subset, auto)
  have le: "length (filter (\<lambda>v. vr_selected v \<noteq> None \<and> vr_selected v \<noteq> Some []) xs)
      + length (filter (\<lambda>v. vr_selected v = None) xs) \<le> length xs" for xs by (induction xs) auto
  have len: "length ?vs = length (filter (\<lambda>v. vr_poll v = messageID \<and> vr_chat v = chatJID) votes)"
    by (simp add: poll_votes_of_def)
  have st: "set (ot_Voters (pr_Options resp ! i))
      = {vr_voter v | v. v \<in> set votes \<and> vr_poll v = messageID \<and> vr_chat v = chatJID \<and> chose ?name v}"
    unfolding *(3) using vs by auto
  have cnt: "ot_Count (pr_Options resp ! i) = length (ot_Voters (pr_Options resp ! i))" by (simp add: *(2,3))
  have dv: "distinct (ot_Voters (pr_Options resp ! i))" using d by (simp add: *(3))
  have tot: "pr_TotalVoters resp + pr_UndecodableVotes resp
      \<le> length (filter (\<lambda>v. vr_poll v = messageID \<and> vr_chat v = chatJID) votes)"
    unfolding *(4,5) len [symmetric] by (rule le)
  show ?thesis by (intro conjI *(1) st dv cnt tot)
qed

theorem poll_results_tally_witness:
  "\<exists>resp. PollResults [\<lparr>po_message_id = ''p'', po_chat_jid = ''c'', po_question = ''q'', po_options = [''a'', ''b''],
        po_selectable = 1, po_created_at = 0\<rparr>]
      [sample_vote ''v'' (Some [''b'']) 1, sample_vote ''w'' None 2] ''p'' ''c'' = Some resp
    \<and> ot_Count (pr_Options resp ! 1) = length (ot_Voters (pr_Options resp ! 1))
    \<and> set (ot_Voters (pr_Options resp ! 1)) = {''v''}"
proof -
  let ?polls = "[\<lparr>po_message_id = ''p'', po_chat_jid = ''c'', po_question = ''q'', po_options = [''a'', ''b''],
        po_selectable = 1, po_created_at = 0\<rparr>]"
  let ?votes = "[sample_vote ''v'' (Some [''b'']) 1, sample_vote ''w'' None 2]"
  have g: "GetPoll ''p'' ''c'' ?polls = Some \<lparr>pc_Question = ''q'', pc_Options = [''a'', ''b''], pc_SelectableCount = 1\<rparr>"
    by (simp add: GetPoll_def row_of_def poll_key_def)
  then obtain resp where r: "PollResults ?polls ?votes ''p'' ''c'' = Some resp" by (simp add: PollResults_def)
  have "ot_Count (pr_Options resp ! 1) = length (ot_Voters (pr_Options resp ! 1))
    \<and> set (ot_Voters (pr_Options resp ! 1)) = {vr_voter v | v. v \<in> set ?votes \<and> vr_poll v = ''p'' \<and> vr_chat v = ''c'' \<and> chose ''b'' v}"
    using poll_results_tally [OF r _ g, of 1] by (simp add: keyed_def vote_key_def sample_vote_def)
  moreover have "{vr_voter v | v. v \<in> set ?votes \<and> vr_poll v = ''p'' \<and> vr_chat v = ''c'' \<and> chose ''b'' v} = {''v''}"
    by (auto simp: sample_vote_def chose_def intro!: exI [of _ "sample_vote ''v'' (Some [''b'']) 1"])
  ultimately show ?thesis using r by auto
qed

text \<open>Votes decode back: as long as SHA-256 does not collide on the options of the poll, a vote that
  carries the hashes of some of its options decodes to exactly those options, in the vote's order.\<close>

lemma poll_vote_roundtrip:
  assumes "GetPoll pollID chatJID polls = Some poll" "pollID \<noteq> []" "inj_on sha (set (pc_Options poll))"
    and "set picked \<subseteq> set (pc_Options poll)"
  shows "decodePollVote sha True polls \<lparr>ve_update = Some pollID, ve_hashes = Inr (map sha picked), ve_at = t\<rparr> chatJID
    = (pollID, Inr picked)"
  using assms by (simp add: decodePollVote_def optionNames_known)

theorem poll_vote_roundtrip_witness:
  "decodePollVote (\<lambda>s. s @ s) True [\<lparr>po_message_id = ''p'', po_chat_jid = ''c'', po_question = ''q'',
        po_options = [''a'', ''b''], po_selectable = 1, po_created_at = 0\<rparr>]
      \<lparr>ve_update = Some ''p'', ve_hashes = Inr (map (\<lambda>s. s @ s) [''b'']), ve_at = 0\<rparr> ''c'' = (''p'', Inr [''b''])"
  by (rule poll_vote_roundtrip [where poll = "\<lparr>pc_Question = ''q'', pc_Options = [''a'', ''b''], pc_SelectableCount = 1\<rparr>"])
    (simp_all add: GetPoll_def row_of_def poll_key_def inj_on_def)

end
