(* ===== verification/Recipients.thy ===== *)
theory Recipients
  imports Send_Budget Go_Utf8 Work_Queues "HOL-Library.Word"
begin

text \<open>
  Who a message goes to: the identifier resolution of \<^verbatim>\<open>jid.go\<close>, the recipient half of \<^verbatim>\<open>send.go\<close>
  (spellings of a phone number, the registered number, mentions and quoted participants) and the cache of
  registered numbers (\<^verbatim>\<open>recipient_cache.go\<close>). The SDK's parser and printer of identifiers, its phone-to-LID
  map (\<^typ>\<open>alt_result\<close>) and the answers of WhatsApp's registry are arguments.
\<close>

section \<open>Identifier resolution\<close>

text \<open>A usable answer of \<^verbatim>\<open>lookupAltJID\<close>: no error and not empty.\<close>

definition known_alt :: "jid_sdk \<Rightarrow> (jid \<Rightarrow> alt_result) \<Rightarrow> jid \<Rightarrow> jid option" where
  "known_alt sdk alt j = (case alt j of AltJID k \<Rightarrow> if IsEmpty sdk k then None else Some k | _ \<Rightarrow> None)"

definition phone_hint :: "jid_sdk \<Rightarrow> jid \<Rightarrow> bool" where
  "phone_hint sdk j \<longleftrightarrow> \<not> IsEmpty sdk j \<and> Server j = DefaultUserServer"

definition resolveLIDChat :: "jid_sdk \<Rightarrow> (jid \<Rightarrow> alt_result) \<Rightarrow> jid \<Rightarrow> jid \<Rightarrow> jid \<Rightarrow> bool \<Rightarrow> jid" where
  "resolveLIDChat sdk alt chat senderAlt recipientAlt isFromMe =
     (if Server chat \<noteq> HiddenUserServer then chat
      else
        let hint = (if \<not> isFromMe \<and> phone_hint sdk senderAlt then Some (ToNonAD sdk senderAlt)
                    else if isFromMe \<and> phone_hint sdk recipientAlt then Some (ToNonAD sdk recipientAlt) else None)
        in case hint of
             Some h \<Rightarrow> if \<not> IsEmpty sdk h then h
                       else (case known_alt sdk alt chat of Some pn \<Rightarrow> ToNonAD sdk pn | None \<Rightarrow> chat)
           | None \<Rightarrow> (case known_alt sdk alt chat of Some pn \<Rightarrow> ToNonAD sdk pn | None \<Rightarrow> chat))"

definition resolveUserJID :: "jid_sdk \<Rightarrow> (jid \<Rightarrow> alt_result) \<Rightarrow> jid \<Rightarrow> jid \<Rightarrow> jid" where
  "resolveUserJID sdk alt j0 hint =
     (let j = ToNonAD sdk j0
      in if Server j \<noteq> HiddenUserServer then j
         else if phone_hint sdk hint then ToNonAD sdk hint
         else case known_alt sdk alt j of Some pn \<Rightarrow> ToNonAD sdk pn | None \<Rightarrow> j)"

definition EmptyJID :: jid where "EmptyJID = NewJID [] []"

text \<open>\<open>own\<close> is the paired account, if there is one.\<close>

definition senderAltForMessage :: "jid_sdk \<Rightarrow> jid option \<Rightarrow> bool \<Rightarrow> jid \<Rightarrow> jid" where
  "senderAltForMessage sdk own isFromMe senderAlt =
     (if isFromMe then (case own of Some i \<Rightarrow> ToNonAD sdk i | None \<Rightarrow> EmptyJID)
      else if phone_hint sdk senderAlt then ToNonAD sdk senderAlt else EmptyJID)"

datatype receipt_type = ReceiptRead | ReceiptReadSelf | ReceiptOther string

definition isSelfReadReceipt :: "receipt_type \<Rightarrow> bool \<Rightarrow> bool" where
  "isSelfReadReceipt t isFromMe \<longleftrightarrow> t = ReceiptReadSelf \<or> (t = ReceiptRead \<and> isFromMe)"

definition outboundLookupChatJID :: "jid_sdk \<Rightarrow> (jid \<Rightarrow> alt_result) \<Rightarrow> jid \<Rightarrow> jid" where
  "outboundLookupChatJID sdk alt j0 =
     (let j = ToNonAD sdk j0
      in if Server j = HiddenUserServer
         then (case known_alt sdk alt j of Some pn \<Rightarrow> ToNonAD sdk pn | None \<Rightarrow> j) else j)"

section \<open>Spellings of a phone number\<close>

definition recipientSeparators :: "string list" where
  "recipientSeparators =
    [[CHR 0x20], [CHR 0x09], [CHR 0x2D], [CHR 0x28], [CHR 0x29], [CHR 0x2E],
     [CHR 0xC2, CHR 0xA0], [CHR 0xE2, CHR 0x80, CHR 0xAF], [CHR 0xE2, CHR 0x80, CHR 0x87],
     [CHR 0xE2, CHR 0x80, CHR 0x89], [CHR 0xE2, CHR 0x80, CHR 0x8B], [CHR 0xE2, CHR 0x80, CHR 0x8E],
     [CHR 0xE2, CHR 0x80, CHR 0x8F], [CHR 0xE2, CHR 0x80, CHR 0xAA], [CHR 0xE2, CHR 0x80, CHR 0xAC],
     [CHR 0xE2, CHR 0x81, CHR 0xA6], [CHR 0xE2, CHR 0x81, CHR 0xA7], [CHR 0xE2, CHR 0x81, CHR 0xA8],
     [CHR 0xE2, CHR 0x81, CHR 0xA9], [CHR 0xEF, CHR 0xBB, CHR 0xBF], [CHR 0xE2, CHR 0x80, CHR 0x90],
     [CHR 0xE2, CHR 0x80, CHR 0x91], [CHR 0xE2, CHR 0x80, CHR 0x92], [CHR 0xE2, CHR 0x80, CHR 0x93],
     [CHR 0xE2, CHR 0x80, CHR 0x94]]"

definition trim_plus :: "string \<Rightarrow> string" where
  "trim_plus s = (if s \<noteq> [] \<and> hd s = CHR ''+'' then tl s else s)"

definition compact_number :: "string \<Rightarrow> string" where
  "compact_number raw = trim_plus (map_drop (\<lambda>r. r \<in> set recipientSeparators) raw)"

text \<open>\<^term>\<open>None\<close> is the refusal of a number with more than 15 digits.\<close>

definition normalizePhoneRecipient :: "string \<Rightarrow> string option" where
  "normalizePhoneRecipient raw =
     (if str_contains raw CHR ''@'' then Some raw
      else let compact = compact_number raw
           in if length compact \<ge> 7 \<and> isPhoneDigits compact
              then (if length compact > 15 then None else Some compact)
              else Some raw)"

definition normalizedUserJID :: "jid_sdk \<Rightarrow> string \<Rightarrow> jid option" where
  "normalizedUserJID sdk raw0 =
     (case normalizePhoneRecipient (TrimSpace raw0) of
        None \<Rightarrow> None
      | Some raw \<Rightarrow>
          if raw = [] \<or> at_count raw > 1 \<or> (\<not> str_contains raw CHR ''@'' \<and> \<not> isPhoneDigits raw) then None
          else case parseRecipientJID sdk raw of
                 None \<Rightarrow> None
               | Some j \<Rightarrow> if User j = [] \<or> Server j = [] then None else Some (j\<lparr>Server := ToLower (Server j)\<rparr>))"

section \<open>The registered number\<close>

record wa_answer =
  an_isIn :: bool
  an_jid :: jid
  an_phone :: jid

definition registeredPhoneJID :: "jid_sdk \<Rightarrow> wa_answer \<Rightarrow> jid option" where
  "registeredPhoneJID sdk answer =
     map_option (ToNonAD sdk)
       (List.find (\<lambda>j. Server j = DefaultUserServer \<and> User j \<noteq> []) [an_phone answer, an_jid answer])"

datatype recipient_error = BadRecipientJID | NotPhoneNumber | NotOnWhatsApp | RecipientLookup

text \<open>\<open>registry\<close> is the answer for \<^verbatim>\<open>"+" + number\<close>: the list and whether the call also failed.\<close>

definition canonicalRecipientJID :: "jid_sdk \<Rightarrow> (jid \<Rightarrow> alt_result) \<Rightarrow> (string \<Rightarrow> wa_answer list \<times> bool) \<Rightarrow> string
    \<Rightarrow> recipient_error + jid" where
  "canonicalRecipientJID sdk alt registry recipient =
     (case parseRecipientJID sdk recipient of
        None \<Rightarrow> Inl BadRecipientJID
      | Some j \<Rightarrow>
          if Server j \<noteq> DefaultUserServer then Inr j
          else if known_alt sdk alt j \<noteq> None then Inr j
          else if \<not> isPhoneDigits (User j) then Inl NotPhoneNumber
          else case registry (CHR ''+'' # User j) of
                 (answers, failed) \<Rightarrow>
                   (case List.find an_isIn answers of
                      Some answer \<Rightarrow> (case registeredPhoneJID sdk answer of
                          Some r \<Rightarrow> if IsEmpty sdk r then Inr j else Inr r
                        | None \<Rightarrow> Inr j)
                    | None \<Rightarrow> if failed \<or> answers = [] then Inl RecipientLookup else Inl NotOnWhatsApp))"

text \<open>\<^verbatim>\<open>registeredRecipient\<close>: the status of the answer it wrote, or the recipient to send to. \<open>counted\<close> is
  whether the failure counts in the endpoint's metric.\<close>

datatype recipient_answer = Answered_error nat bool | Send_to string

definition registeredRecipient :: "jid_sdk \<Rightarrow> (jid \<Rightarrow> alt_result) \<Rightarrow> (string \<Rightarrow> wa_answer list \<times> bool) \<Rightarrow> bool
    \<Rightarrow> chatPolicy \<Rightarrow> string \<Rightarrow> recipient_answer" where
  "registeredRecipient sdk alt registry online policy recipient =
     (if \<not> online then Answered_error 500 True
      else case canonicalRecipientJID sdk alt registry recipient of
             Inl NotOnWhatsApp \<Rightarrow> Answered_error 404 True
           | Inl RecipientLookup \<Rightarrow> if cp_restricted policy then Answered_error 502 True else Send_to recipient
           | Inl _ \<Rightarrow> Answered_error 400 False
           | Inr registered \<Rightarrow>
               (case authorizeChat sdk policy (JIDString sdk registered) True of
                  Inl status \<Rightarrow> Answered_error status False
                | Inr canonical \<Rightarrow> Send_to (JIDString sdk canonical)))"

text \<open>The address a send uses: the LID of a phone number when the map or the server knows one. \<open>server\<close> is the
  server's answer for it.\<close>

definition resolveRecipientJID :: "jid_sdk \<Rightarrow> (jid \<Rightarrow> alt_result) \<Rightarrow> (jid \<Rightarrow> jid option) \<Rightarrow> string \<Rightarrow> jid option" where
  "resolveRecipientJID sdk alt server recipient =
     (case parseRecipientJID sdk recipient of
        None \<Rightarrow> None
      | Some j \<Rightarrow>
          if Server j \<noteq> DefaultUserServer then Some j
          else (case alt j of
                  AltUnavailable \<Rightarrow> Some j
                | _ \<Rightarrow> (case known_alt sdk alt j of
                    Some lid \<Rightarrow> Some lid
                  | None \<Rightarrow> (case server j of
                      Some lid \<Rightarrow> if IsEmpty sdk lid then Some j else Some lid
                    | None \<Rightarrow> Some j))))"

definition mention_jids :: "jid_sdk \<Rightarrow> (jid \<Rightarrow> alt_result) \<Rightarrow> string \<Rightarrow> string list" where
  "mention_jids sdk alt mention =
     (case normalizedUserJID sdk mention of
        None \<Rightarrow> []
      | Some j \<Rightarrow> JIDString sdk j #
          (if Server j = DefaultUserServer
           then (case known_alt sdk alt j of Some lid \<Rightarrow> [JIDString sdk lid] | None \<Rightarrow> []) else []))"

text \<open>\<open>n\<close> is how many entries were read before the context ended.\<close>

definition resolveMentionJIDs :: "jid_sdk \<Rightarrow> (jid \<Rightarrow> alt_result) \<Rightarrow> nat \<Rightarrow> string list \<Rightarrow> string list" where
  "resolveMentionJIDs sdk alt n mentions = concat (map (mention_jids sdk alt) (take n mentions))"

definition resolveQuotedParticipantJID :: "jid_sdk \<Rightarrow> (jid \<Rightarrow> alt_result) \<Rightarrow> string \<Rightarrow> string" where
  "resolveQuotedParticipantJID sdk alt raw =
     (if raw = [] then []
      else case normalizedUserJID sdk raw of
             None \<Rightarrow> []
           | Some j \<Rightarrow>
               if Server j = DefaultUserServer
               then (case known_alt sdk alt (ToNonAD sdk j) of Some lid \<Rightarrow> JIDString sdk lid | None \<Rightarrow> JIDString sdk j)
               else JIDString sdk j)"

section \<open>The cache of registered numbers\<close>

definition recipientCacheLimit :: nat where "recipientCacheLimit = 256"
definition recipientCacheTTL :: duration where "recipientCacheTTL = hour"

record recipientNumberEntry =
  re_key :: string
  re_jid :: jid
  re_expires :: instant

record recipientNumberCache =
  rc_entries :: "recipientNumberEntry list"
  rc_generation :: "64 word"

definition cache_clear :: "recipientNumberCache \<Rightarrow> recipientNumberCache" where
  "cache_clear c = c\<lparr>rc_entries := [], rc_generation := rc_generation c + 1\<rparr>"

text \<open>The locked read: a hit, or the generation the question is asked in.\<close>

definition cache_begin :: "string \<Rightarrow> instant \<Rightarrow> recipientNumberCache
    \<Rightarrow> (jid + 64 word) \<times> recipientNumberCache" where
  "cache_begin key now c =
     (case row_of re_key key (rc_entries c) of
        Some e \<Rightarrow> if now < re_expires e then (Inl (re_jid e), c)
                  else (Inr (rc_generation c), c\<lparr>rc_entries := filter (\<lambda>e. re_key e \<noteq> key) (rc_entries c)\<rparr>)
      | None \<Rightarrow> (Inr (rc_generation c), c))"

text \<open>The scan for the oldest entry, in the order \<open>scan\<close> the map is walked in.\<close>

fun oldest_entry :: "(string \<times> instant) option \<Rightarrow> recipientNumberEntry list \<Rightarrow> (string \<times> instant) option" where
  "oldest_entry best [] = best"
| "oldest_entry best (e # es) =
     oldest_entry (case best of
        None \<Rightarrow> Some (re_key e, re_expires e)
      | Some (k, x) \<Rightarrow> if k = [] \<or> re_expires e < x then Some (re_key e, re_expires e) else best) es"

definition cache_put :: "(recipientNumberEntry list \<Rightarrow> recipientNumberEntry list) \<Rightarrow> string \<Rightarrow> jid \<Rightarrow> instant
    \<Rightarrow> recipientNumberEntry list \<Rightarrow> recipientNumberEntry list" where
  "cache_put scan key j now es =
     (let room = (if \<not> has_key re_key key es \<and> length es \<ge> recipientCacheLimit
                  then (case oldest_entry None (scan es) of
                          Some (k, _) \<Rightarrow> filter (\<lambda>e. re_key e \<noteq> k) es
                        | None \<Rightarrow> filter (\<lambda>e. re_key e \<noteq> []) es)
                  else es)
      in upsert re_key (\<lambda>old new. new) \<lparr>re_key = key, re_jid = j, re_expires = now + recipientCacheTTL\<rparr> room)"

text \<open>The answer comes back: the first positive one is kept if it names a phone number and nothing cleared the
  cache meanwhile. \<open>live\<close> is a context that has not ended.\<close>

definition cache_end :: "jid_sdk \<Rightarrow> (recipientNumberEntry list \<Rightarrow> recipientNumberEntry list) \<Rightarrow> string \<Rightarrow> 64 word
    \<Rightarrow> wa_answer list \<Rightarrow> bool \<Rightarrow> instant \<Rightarrow> recipientNumberCache \<Rightarrow> recipientNumberCache" where
  "cache_end sdk scan key generation answers live now c =
     (case List.find an_isIn answers of
        None \<Rightarrow> c
      | Some answer \<Rightarrow> (case registeredPhoneJID sdk answer of
          None \<Rightarrow> c
        | Some j \<Rightarrow>
            if \<not> IsEmpty sdk j \<and> isPhoneDigits (User j) \<and> live \<and> rc_generation c = generation
            then c\<lparr>rc_entries := cache_put scan key j now (rc_entries c)\<rparr> else c))"

text \<open>What a hit hands to the caller.\<close>

definition hit_answer :: "jid \<Rightarrow> wa_answer list" where
  "hit_answer j = [\<lparr>an_isIn = True, an_jid = j, an_phone = j\<rparr>]"

section \<open>Runs of the cache\<close>

text \<open>The questions in flight carry the generation they were asked in; \<open>cr_log\<close> records every positive answer
  with the time it came and the number of clears at which its question was asked.\<close>

record cache_run =
  cr_cache :: recipientNumberCache
  cr_flight :: "(string \<times> 64 word \<times> nat) list"
  cr_log :: "(string \<times> jid \<times> instant \<times> nat) list"
  cr_clears :: nat
  cr_now :: instant

inductive cache_step :: "jid_sdk \<Rightarrow> cache_run \<Rightarrow> cache_run \<Rightarrow> bool" for sdk where
  clears: "cache_step sdk r (r\<lparr>cr_cache := cache_clear (cr_cache r), cr_clears := Suc (cr_clears r)\<rparr>)"
| tick: "cr_now r \<le> now \<Longrightarrow> cache_step sdk r (r\<lparr>cr_now := now\<rparr>)"
| asks: "cache_begin key (cr_now r) (cr_cache r) = (Inr g, c) \<Longrightarrow>
    cache_step sdk r (r\<lparr>cr_cache := c, cr_flight := cr_flight r @ [(key, g, cr_clears r)]\<rparr>)"
| answers: "(key, g, n) \<in> set (cr_flight r) \<Longrightarrow> \<forall>es. set (scan es) = set es \<Longrightarrow>
    cache_step sdk r (r\<lparr>cr_cache := cache_end sdk scan key g as live (cr_now r) (cr_cache r),
      cr_log := cr_log r @ (case List.find an_isIn as of None \<Rightarrow> []
         | Some a \<Rightarrow> (case registeredPhoneJID sdk a of None \<Rightarrow> [] | Some j \<Rightarrow> [(key, j, cr_now r, n)]))\<rparr>)"

definition empty_run :: "instant \<Rightarrow> cache_run" where
  "empty_run now = \<lparr>cr_cache = \<lparr>rc_entries = [], rc_generation = 0\<rparr>, cr_flight = [], cr_log = [], cr_clears = 0, cr_now = now\<rparr>"

definition fresh_entry :: "cache_run \<Rightarrow> recipientNumberEntry \<Rightarrow> bool" where
  "fresh_entry r e \<longleftrightarrow> (\<exists>t. (re_key e, re_jid e, t, cr_clears r) \<in> set (cr_log r)
     \<and> re_expires e = t + recipientCacheTTL \<and> t \<le> cr_now r)"

definition cache_inv :: "cache_run \<Rightarrow> bool" where
  "cache_inv r \<longleftrightarrow> rc_generation (cr_cache r) = of_nat (cr_clears r)
     \<and> (\<forall>(k, g, n) \<in> set (cr_flight r). g = of_nat n \<and> n \<le> cr_clears r)
     \<and> keyed re_key (rc_entries (cr_cache r)) \<and> length (rc_entries (cr_cache r)) \<le> recipientCacheLimit
     \<and> (\<forall>e \<in> set (rc_entries (cr_cache r)). fresh_entry r e)"

interpretation recipients_table: keyed_table re_key "\<lambda>old new. new"
  by unfold_locales simp

lemma oldest_entry_mem:
  "oldest_entry best es = Some (k, x) \<Longrightarrow> best = Some (k, x) \<or> k \<in> re_key ` set es"
proof (induction es arbitrary: best)
  case (Cons e es)
  let ?b = "case best of None \<Rightarrow> Some (re_key e, re_expires e)
      | Some (k, x) \<Rightarrow> if k = [] \<or> re_expires e < x then Some (re_key e, re_expires e) else best"
  have "?b = Some (k, x) \<or> k \<in> re_key ` set es" using Cons.prems by (intro Cons.IH) simp
  moreover have "?b = best \<or> ?b = Some (re_key e, re_expires e)" by (auto split: option.split)
  ultimately show ?case by auto
qed simp

lemma oldest_entry_Some: "es \<noteq> [] \<or> best \<noteq> None \<Longrightarrow> oldest_entry best es \<noteq> None"
proof (induction es arbitrary: best)
  case (Cons e es)
  have "(case best of None \<Rightarrow> Some (re_key e, re_expires e)
      | Some (k, x) \<Rightarrow> if k = [] \<or> re_expires e < x then Some (re_key e, re_expires e) else best) \<noteq> None"
    by (auto split: option.split)
  then show ?case using Cons.IH by simp
qed simp

lemma length_filter_key: "k \<in> re_key ` set es \<Longrightarrow> length (filter (\<lambda>e. re_key e \<noteq> k) es) < length es"
  by (auto intro: length_filter_less)

lemma cache_put_props:
  assumes "keyed re_key es" "length es \<le> recipientCacheLimit" "\<forall>es. set (scan es) = set es"
  shows "keyed re_key (cache_put scan key j now es)" "length (cache_put scan key j now es) \<le> recipientCacheLimit"
    and "e \<in> set (cache_put scan key j now es) \<Longrightarrow> e \<in> set es \<or> e = \<lparr>re_key = key, re_jid = j, re_expires = now + recipientCacheTTL\<rparr>"
proof -
  let ?new = "\<lparr>re_key = key, re_jid = j, re_expires = now + recipientCacheTTL\<rparr>"
  define room where "room = (if \<not> has_key re_key key es \<and> length es \<ge> recipientCacheLimit
      then (case oldest_entry None (scan es) of Some (k, _) \<Rightarrow> filter (\<lambda>e. re_key e \<noteq> k) es | None \<Rightarrow> filter (\<lambda>e. re_key e \<noteq> []) es)
      else es)"
  have put: "cache_put scan key j now es = upsert re_key (\<lambda>old new. new) ?new room"
    by (simp add: cache_put_def room_def)
  have sub: "set room \<subseteq> set es" by (auto simp: room_def split: option.splits)
  have kr: "keyed re_key room" using assms(1) by (auto simp: room_def tbl split: option.split)
  have len: "has_key re_key key room \<and> length room \<le> recipientCacheLimit \<or> length room < recipientCacheLimit"
  proof (cases "\<not> has_key re_key key es \<and> length es \<ge> recipientCacheLimit")
    case True
    then have "scan es \<noteq> []" using assms(3) by (auto simp: recipientCacheLimit_def dest: arg_cong [of "scan es" "[]" set])
    then obtain k x where k: "oldest_entry None (scan es) = Some (k, x)" using oldest_entry_Some [of "scan es" None] by auto
    then have "k \<in> re_key ` set es" using oldest_entry_mem [OF k] assms(3) by simp
    then have "length (filter (\<lambda>e. re_key e \<noteq> k) es) < length es" by (rule length_filter_key)
    with True k assms(2) show ?thesis by (simp add: room_def)
  next
    case False
    then have "room = es" by (auto simp: room_def)
    with False assms(2) show ?thesis by auto
  qed
  show "keyed re_key (cache_put scan key j now es)" unfolding put by (rule recipients_table.upsert_keyed [OF kr])
  show "length (cache_put scan key j now es) \<le> recipientCacheLimit"
    using len unfolding put upsert_def by auto
  show "e \<in> set es \<or> e = ?new" if "e \<in> set (cache_put scan key j now es)"
    using that recipients_table.set_upsert [of ?new room] sub unfolding put by auto
qed

lemma cache_inv_step:
  assumes "cache_step sdk r s" "cache_inv r" "cr_clears s < 2 ^ 64"
  shows "cache_inv s"
  using assms
proof (induction rule: cache_step.induct)
  case (clears r)
  then show ?case by (auto simp: cache_inv_def cache_clear_def intro: le_SucI)
next
  case (tick r now)
  then have "\<forall>e \<in> set (rc_entries (cr_cache r)). fresh_entry (r\<lparr>cr_now := now\<rparr>) e"
    by (force simp: cache_inv_def fresh_entry_def)
  with tick show ?case by (simp add: cache_inv_def)
next
  case (asks key r g c)
  then have c: "g = rc_generation (cr_cache r)" "rc_generation c = rc_generation (cr_cache r)"
    "\<exists>P. rc_entries c = filter P (rc_entries (cr_cache r))"
    by (auto simp: cache_begin_def split: option.splits if_splits intro: exI [of _ "\<lambda>_. True"])
  then obtain P where P: "rc_entries c = filter P (rc_entries (cr_cache r))" by blast
  with asks.prems c(1,2) P show ?case
    by (auto simp: cache_inv_def fresh_entry_def tbl intro: le_trans [OF length_filter_le])
next
  case (answers key g n r scan as live)
  let ?l = "case List.find an_isIn as of None \<Rightarrow> []
     | Some a \<Rightarrow> (case registeredPhoneJID sdk a of None \<Rightarrow> [] | Some j \<Rightarrow> [(key, j, cr_now r, n)])"
  let ?c = "cache_end sdk scan key g as live (cr_now r) (cr_cache r)"
  let ?s = "r\<lparr>cr_cache := ?c, cr_log := cr_log r @ ?l\<rparr>"
  have inv: "cache_inv r" by fact
  have old: "fresh_entry ?s e" if "e \<in> set (rc_entries (cr_cache r))" for e
    using inv that by (auto simp: cache_inv_def fresh_entry_def)
  show ?case
  proof (cases "?c = cr_cache r")
    case True
    with inv old show ?thesis by (simp add: cache_inv_def)
  next
    case False
    then obtain a j where a: "List.find an_isIn as = Some a" "registeredPhoneJID sdk a = Some j" "rc_generation (cr_cache r) = g"
      and c: "?c = (cr_cache r)\<lparr>rc_entries := cache_put scan key j (cr_now r) (rc_entries (cr_cache r))\<rparr>"
      by (auto simp: cache_end_def split: option.splits if_splits)
    have "of_nat n = (of_nat (cr_clears r) :: 64 word)" "n \<le> cr_clears r"
      using inv answers.hyps(1) a(3) by (auto simp: cache_inv_def)
    then have "unat (of_nat n :: 64 word) = unat (of_nat (cr_clears r) :: 64 word)" "n < 2 ^ 64" "cr_clears r < 2 ^ 64"
      using answers.prems(2) by auto
    then have n: "n = cr_clears r" by (simp only: unsigned_of_nat take_bit_nat_eq_self len_num1 len_bit0) (simp add: take_bit_nat_eq_self)
    let ?es = "cache_put scan key j (cr_now r) (rc_entries (cr_cache r))"
    have es: "keyed re_key (rc_entries (cr_cache r))" "length (rc_entries (cr_cache r)) \<le> recipientCacheLimit"
      using inv by (auto simp: cache_inv_def)
    note put = cache_put_props [where key = key and j = j and now = "cr_now r", OF es answers.hyps(2)]
    have "fresh_entry ?s \<lparr>re_key = key, re_jid = j, re_expires = cr_now r + recipientCacheTTL\<rparr>"
      using a n by (auto simp: fresh_entry_def intro!: exI [of _ "cr_now r"])
    then have "\<forall>e \<in> set ?es. fresh_entry ?s e" using old put(3) by blast
    with put(1,2) inv c show ?thesis by (simp add: cache_inv_def)
  qed
qed

lemma cache_clears_mono: "cache_step sdk r s \<Longrightarrow> cr_clears r \<le> cr_clears s"
  by (induction rule: cache_step.induct) auto

lemma cache_inv_reached:
  "steps (cache_step sdk) (empty_run now) r \<Longrightarrow> cr_clears r < 2 ^ 64 \<Longrightarrow> cache_inv r"
proof (induction "empty_run now" r rule: steps.induct)
  case none
  show ?case by (simp add: cache_inv_def empty_run_def recipientCacheLimit_def)
next
  case (more r s)
  then show ?case using cache_inv_step cache_clears_mono by (meson order.strict_trans1)
qed

section \<open>Spellings\<close>

lemma digit_ascii: "is_digit c \<Longrightarrow> byte c < 128 \<and> [c] \<notin> set recipientSeparators \<and> c \<noteq> CHR ''+'' \<and> c \<noteq> CHR ''@''"
  by (auto simp: is_digit_def byte_def less_eq_char_def recipientSeparators_def)

lemma compact_digits:
  assumes "list_all is_digit s"
  shows "compact_number s = s"
proof -
  have asc: "runes s = map (\<lambda>c. [c]) s" using assms digit_ascii by (intro runes_ascii) (auto simp: list_all_iff)
  have "map_drop (\<lambda>r. r \<in> set recipientSeparators) s = concat (map write_rune (map (\<lambda>c. [c]) s))"
    unfolding map_drop_def asc using assms digit_ascii by (subst filter_True) (auto simp: list_all_iff)
  also have "\<dots> = s"
    using assms digit_ascii by (induction s) (auto simp: write_rune_def invalid_rune_def list_all_iff, force)
  finally show ?thesis
    using assms digit_ascii by (cases s) (auto simp: compact_number_def trim_plus_def list_all_iff)
qed

lemma digits_no_at: "isPhoneDigits s \<Longrightarrow> \<not> str_contains s CHR ''@''"
  using digit_ascii by (auto simp: isPhoneDigits_def str_contains_def list_all_iff)

text \<open>Normalizing a recipient twice is normalizing it once: the boundary's spelling is what every later check
  sees.\<close>

lemma normalizePhoneRecipient_idem:
  "normalizePhoneRecipient raw = Some r \<Longrightarrow> normalizePhoneRecipient r = Some r"
proof -
  assume n: "normalizePhoneRecipient raw = Some r"
  show "normalizePhoneRecipient r = Some r"
  proof (cases "r = raw")
    case False
    with n have r: "r = compact_number raw" "isPhoneDigits r" "length r \<le> 15"
      by (auto simp: normalizePhoneRecipient_def Let_def split: if_splits)
    then have "compact_number r = r" by (simp add: compact_digits isPhoneDigits_def)
    with r digits_no_at [OF r(2)] show ?thesis by (simp add: normalizePhoneRecipient_def Let_def)
  qed (use n in simp)
qed

text \<open>The phone number of a message's hints and the one of the LID map lead to the same chat, as long as the
  map agrees with the hint: live messages and history land in one conversation.\<close>

lemma resolveLIDChat_hint_agrees:
  assumes "known_alt sdk alt chat = Some pn" "ToNonAD sdk senderAlt = ToNonAD sdk pn" "phone_hint sdk senderAlt"
    and "\<not> IsEmpty sdk (ToNonAD sdk senderAlt)"
  shows "resolveLIDChat sdk alt chat senderAlt recipientAlt False = resolveLIDChat sdk alt chat EmptyJID EmptyJID False"
  using assms by (auto simp: resolveLIDChat_def Let_def phone_hint_def EmptyJID_def NewJID_def DefaultUserServer_def)

section \<open>Properties\<close>

text \<open>C29. A restricted bridge sends only where its list allows: whatever number WhatsApp names for a recipient,
  the address a send or a forward goes on with is on the list, and with a list in force a question that
  could not be answered sends nothing.\<close>

theorem registered_recipient_allowed:
  assumes "registeredRecipient sdk alt registry online policy recipient = Send_to r" "cp_restricted policy"
  shows "\<exists>j. authorizeChat sdk policy (JIDString sdk j) True \<noteq> Inl 403 \<and> cp_Allows policy r
    \<and> canonicalRecipientJID sdk alt registry recipient = Inr j \<and> online"
proof -
  obtain j where j: "canonicalRecipientJID sdk alt registry recipient = Inr j" and on: online
    using assms by (auto simp: registeredRecipient_def split: if_splits sum.splits recipient_error.splits)
  then obtain c where c: "authorizeChat sdk policy (JIDString sdk j) True = Inr c" "r = JIDString sdk c"
    using assms by (auto simp: registeredRecipient_def split: sum.splits)
  then have "cp_Allows policy (JIDString sdk c)"
    by (auto simp: authorizeChat_def split: sum.splits if_splits)
  with j on c show ?thesis by auto
qed

definition twelve_digits :: "string \<Rightarrow> wa_answer list \<times> bool" where
  "twelve_digits q = ([\<lparr>an_isIn = True, an_jid = NewJID ''551187654321'' DefaultUserServer, an_phone = EmptyJID\<rparr>], False)"

theorem registered_recipient_allowed_witness:
  "registeredRecipient plain_sdk no_alt twelve_digits True (parseChatPolicy ''551187654321'') ''5511987654321''
     = Send_to ''551187654321@s.whatsapp.net''
   \<and> cp_Allows (parseChatPolicy ''551187654321'') ''551187654321@s.whatsapp.net''"
proof -
  have "registeredRecipient plain_sdk no_alt twelve_digits True (parseChatPolicy ''551187654321'') ''5511987654321''
     = Send_to ''551187654321@s.whatsapp.net''" by code_simp
  moreover have "cp_restricted (parseChatPolicy ''551187654321'')" by code_simp
  ultimately show ?thesis using registered_recipient_allowed by blast
qed

text \<open>The cache never answers from a stale registry: a hit is an answer WhatsApp gave for that very number
  less than an hour ago, to a question asked since the last reconnect or logout cleared the cache, and the
  cache holds at most 256 numbers. (The generation is a 64-bit counter; the clears of one run stay below
  its range.)\<close>

lemma number_cache_sound:
  assumes "steps (cache_step sdk) (empty_run start) r" "cr_clears r < 2 ^ 64"
    and "cache_begin key (cr_now r) (cr_cache r) = (Inl j, c)"
  shows "length (rc_entries (cr_cache r)) \<le> 256
    \<and> (\<exists>t. (key, j, t, cr_clears r) \<in> set (cr_log r) \<and> t \<le> cr_now r \<and> cr_now r < t + hour)"
proof -
  have inv: "cache_inv r" by (rule cache_inv_reached [OF assms(1,2)])
  from assms(3) obtain e where e: "row_of re_key key (rc_entries (cr_cache r)) = Some e" "cr_now r < re_expires e" "j = re_jid e"
    by (auto simp: cache_begin_def split: option.splits if_splits)
  then have "e \<in> set (rc_entries (cr_cache r))" "re_key e = key" by (auto dest: row_of_Some_in)
  with inv obtain t where "(key, re_jid e, t, cr_clears r) \<in> set (cr_log r)" "re_expires e = t + hour" "t \<le> cr_now r"
    by (auto simp: cache_inv_def fresh_entry_def recipientCacheTTL_def)
  with inv e show ?thesis by (auto simp: cache_inv_def recipientCacheLimit_def)
qed

definition asked_and_answered :: cache_run where
  "asked_and_answered = \<lparr>cr_cache = \<lparr>rc_entries = [\<lparr>re_key = ''+55'', re_jid = NewJID ''55'' DefaultUserServer, re_expires = 7 + hour\<rparr>],
       rc_generation = 0\<rparr>, cr_flight = [(''+55'', 0, 0)], cr_log = [(''+55'', NewJID ''55'' DefaultUserServer, 7, 0)],
     cr_clears = 0, cr_now = 7\<rparr>"

lemma asked_and_answered_reached: "steps (cache_step plain_sdk) (empty_run 7) asked_and_answered"
proof -
  let ?r = "(empty_run 7)\<lparr>cr_cache := cr_cache (empty_run 7), cr_flight := [(''+55'', 0, 0)]\<rparr>"
  let ?as = "[\<lparr>an_isIn = True, an_jid = NewJID ''55'' DefaultUserServer, an_phone = EmptyJID\<rparr>]"
  have 1: "cache_step plain_sdk (empty_run 7) ?r"
    using cache_step.asks [of "''+55''" "empty_run 7" 0 "cr_cache (empty_run 7)" plain_sdk]
    by (simp add: cache_begin_def empty_run_def row_of_def)
  have 2: "cache_step plain_sdk ?r asked_and_answered"
    using cache_step.answers [of "''+55''" 0 0 ?r "\<lambda>es. es" plain_sdk ?as True]
    by (simp add: empty_run_def asked_and_answered_def cache_end_def registeredPhoneJID_def NewJID_def EmptyJID_def
        DefaultUserServer_def plain_sdk_def isPhoneDigits_def is_digit_def cache_put_def upsert_def has_key_def
        recipientCacheLimit_def recipientCacheTTL_def less_eq_char_def)
  from 1 2 show ?thesis by (meson steps.none steps.more)
qed

theorem number_cache_sound_witness:
  "\<exists>t. (''+55'', NewJID ''55'' DefaultUserServer, t, 0) \<in> set (cr_log asked_and_answered) \<and> t \<le> 7 \<and> 7 < t + hour"
  using number_cache_sound [OF asked_and_answered_reached, of "''+55''" "NewJID ''55'' DefaultUserServer" "cr_cache asked_and_answered"]
  by (simp add: asked_and_answered_def cache_begin_def row_of_def time_unit_defs)

end
