(* ===== verification/Sending.thy ===== *)
theory Sending
  imports Media_Cache Recipients Send_Gate Pending_Edits Chat_Rows Retry_Limits
begin

text \<open>
  One send, from the request to the archive (\<^verbatim>\<open>send.go\<close>, \<^verbatim>\<open>outbound_quote.go\<close>): the quote and the chat's settings
  read before anything leaves, the file read and uploaded, the message built and handed to the network, the
  refund of a send that provably did not leave, the row it is archived under, and the handler of
  \<^verbatim>\<open>POST /api/send\<close> around it with its checks of recipient, media path and budget. What the network, the disk and
  the database answer is one record of arguments, with the context's state at each point the source looks at
  it. The cached source of a \<^verbatim>\<open>whatsapp://\<close> path comes with it. Messages to the caller keep their class, not
  their wording; metrics and logs are left out.
\<close>

section \<open>Errors of the network\<close>

datatype send_error =
    ErrNoPermissionInGroup | ErrClientIsNil | ErrNotLoggedIn | ErrRecipientADJID | ErrInvalidInlineBotID
  | ErrUnknownServer | ErrBroadcastListUnsupported | ErrNotInGroup | ErrGroupNotFound
  | Other_send_error string

definition definitiveSendRefusal :: "send_error \<Rightarrow> bool" where
  "definitiveSendRefusal err \<longleftrightarrow> err \<in> {ErrNoPermissionInGroup, ErrClientIsNil, ErrNotLoggedIn, ErrRecipientADJID, ErrInvalidInlineBotID,
     ErrUnknownServer, ErrBroadcastListUnsupported, ErrNotInGroup, ErrGroupNotFound}"

definition groupPermissionCode :: string where "groupPermissionCode = ''group_admin_required''"

definition sendErrorStatus :: "string \<Rightarrow> nat" where
  "sendErrorStatus code =
     (if code = groupPermissionCode then 403
      else if code = ''media_unavailable'' \<or> code = ''media_refused'' then 500
      else if code = ''bridge_unavailable'' then 502 else 400)"

datatype media_error = Media_refused | Media_unavailable | Media_other

definition permanentMediaCode :: "media_error \<Rightarrow> string" where
  "permanentMediaCode e = (case e of Media_refused \<Rightarrow> ''media_refused'' | Media_unavailable \<Rightarrow> ''media_unavailable'' | Media_other \<Rightarrow> [])"

definition cachedSendErrorCode :: "media_error \<Rightarrow> string" where
  "cachedSendErrorCode e = (let code = permanentMediaCode e in if code \<noteq> [] then code else ''bridge_unavailable'')"

section \<open>Quotes\<close>

definition storedQuoteParticipant :: "jid_sdk \<Rightarrow> (jid \<Rightarrow> alt_result) \<Rightarrow> jid option \<Rightarrow> string \<Rightarrow> string \<Rightarrow> bool \<Rightarrow> string" where
  "storedQuoteParticipant sdk alt own sender server fromMe =
     (if fromMe then (case own of None \<Rightarrow> [] | Some i \<Rightarrow> resolveQuotedParticipantJID sdk alt (storedSender (ToNonAD sdk i)))
      else if sender = [] then []
      else if \<not> str_contains sender CHR ''@'' \<and> server = [] then []
      else let full = (if str_contains sender CHR ''@'' then sender else sender @ ''@'' @ server)
           in case normalizedUserJID sdk full of
                None \<Rightarrow> []
              | Some j \<Rightarrow> resolveQuotedParticipantJID sdk alt (JIDString sdk j))"

definition text_of :: "string option \<Rightarrow> string" where "text_of c = (case c of Some t \<Rightarrow> t | None \<Rightarrow> [])"

text \<open>The typed preview of a stored row.\<close>

definition quote_preview :: "media_tables \<Rightarrow> mediaPresentation option \<Rightarrow> string \<Rightarrow> string \<Rightarrow> string \<Rightarrow> quoted_message" where
  "quote_preview tb p kind content filename =
     (let mime = (case p of Some q \<Rightarrow> if p_MIME q \<noteq> [] then Some (p_MIME q) else None | None \<Rightarrow> None)
      in if kind = ''image'' then Quoted_image content mime
         else if kind = ''video'' then Quoted_video content mime
         else if kind = ''audio'' then Quoted_audio (map_option (\<lambda>q. (p_MIME q, p_PTT q, p_Seconds q, p_Waveform q)) p)
         else if kind = ''sticker'' then Quoted_sticker (map_option (\<lambda>q. (p_MIME q, p_Animated q)) p)
         else if kind = ''document'' then
           (let name = (case p of
                  Some q \<Rightarrow> (case p_Name q of Some n \<Rightarrow> outboundFileName n
                            | None \<Rightarrow> if generatedMediaName tb filename then [] else outboundFileName filename)
                | None \<Rightarrow> if generatedMediaName tb filename then [] else outboundFileName filename)
            in Quoted_document content name (map_option (\<lambda>q. (p_MIME q, p_Title q)) p))
         else Quoted_text content)"

definition loadOutboundQuote :: "(string \<Rightarrow> mediaPresentation option option) \<Rightarrow> media_tables \<Rightarrow> jid_sdk \<Rightarrow> (jid \<Rightarrow> alt_result) \<Rightarrow> jid option
    \<Rightarrow> message_row list \<Rightarrow> string \<Rightarrow> outboundQuote \<Rightarrow> bool \<Rightarrow> outboundQuote" where
  "loadOutboundQuote decode tb sdk alt own rows chat quote deriveParticipant =
     (if q_id quote = [] then quote
      else case row_of message_key (q_id quote, chat) rows of
             None \<Rightarrow> quote
           | Some r \<Rightarrow>
               let kind = text_of (m_mtype r);
                   p = readMediaPresentation decode tb (text_of (m_presentation r)) kind (text_of (m_sha r));
                   quote1 = (if deriveParticipant
                     then quote\<lparr>q_participant := storedQuoteParticipant sdk alt own (text_of (m_sender r)) (text_of (m_server r)) (m_own r)\<rparr>
                     else quote)
               in quote1\<lparr>q_preview := Some (quote_preview tb p kind (text_of (m_content r)) (text_of (m_filename r)))\<rparr>)"

definition outboundChatSettings :: "chat_row list \<Rightarrow> string \<Rightarrow> ephemeral_settings" where
  "outboundChatSettings chats chat =
     (case row_of c_jid chat chats of
        None \<Rightarrow> \<lparr>e_Expiration = 0, e_SettingTimestamp = 0\<rparr>
      | Some c \<Rightarrow> \<lparr>e_Expiration = nat (c_ephemeral c), e_SettingTimestamp = c_ephemeralAt c\<rparr>)"

section \<open>The row of a sent message\<close>

record sentMessage =
  sm_ID :: string
  sm_ChatJID :: string
  sm_Timestamp :: instant
  sm_ErrorCode :: string

definition no_message :: sentMessage where "no_message = \<lparr>sm_ID = [], sm_ChatJID = [], sm_Timestamp = 0, sm_ErrorCode = []\<rparr>"

record outboundMedia =
  om_mediaType :: string
  om_filename :: string
  om_url :: string
  om_directPath :: string
  om_keys :: "(data \<times> data \<times> data) option"
  om_fileLength :: nat
  om_presentation :: "mediaPresentation option"
  om_retryChat :: string
  om_retrySender :: string

definition no_media :: outboundMedia where
  "no_media = \<lparr>om_mediaType = [], om_filename = [], om_url = [], om_directPath = [], om_keys = None, om_fileLength = 0,
     om_presentation = None, om_retryChat = [], om_retrySender = []\<rparr>"

definition mediaCDNHost :: string where "mediaCDNHost = ''https://mmg.whatsapp.net''"

definition mediaURLFromDirectPath :: "string \<Rightarrow> string" where
  "mediaURLFromDirectPath p = mediaCDNHost @ (if prefix ''/'' p then p else CHR ''/'' # p)"

text \<open>The key, the plaintext hash and the encrypted hash stay in this order.\<close>

definition outboundMediaColumns :: "media_tables \<Rightarrow> string \<Rightarrow> upload_response \<Rightarrow> outboundMedia" where
  "outboundMediaColumns tb mediaPath up =
     (if mediaPath = [] then no_media
      else no_media\<lparr>om_mediaType := snd (snd (classifyMediaPath tb mediaPath)), om_filename := outboundFileName mediaPath,
             om_url := (if u_URL up = [] \<and> u_DirectPath up \<noteq> [] then mediaURLFromDirectPath (u_DirectPath up) else u_URL up),
             om_directPath := u_DirectPath up, om_keys := Some (u_MediaKey up, u_FileSHA256 up, u_FileEncSHA256 up),
             om_fileLength := u_FileLength up\<rparr>)"

definition outbound_row :: "(mediaPresentation \<Rightarrow> string) \<Rightarrow> outboundMedia \<Rightarrow> string \<Rightarrow> string \<Rightarrow> string \<Rightarrow> string \<Rightarrow> instant \<Rightarrow> string \<Rightarrow> storedMessage" where
  "outbound_row column m mid chatJID senderJID content timestamp quotedMsgID =
     \<lparr>ID = mid, ChatJID = chatJID, Sender = senderJID, Content = content, Timestamp = timestamp, IsFromMe = True,
      MediaType = om_mediaType m, Filename = om_filename m, URL = om_url m,
      MediaKey = map_option fst (om_keys m), FileSHA256 = map_option (fst \<circ> snd) (om_keys m), FileEncSHA256 = map_option (snd \<circ> snd) (om_keys m),
      FileLength = Some (om_fileLength m), QuotedMessageID = quotedMsgID, directPath = om_directPath m,
      presentation = map_option column (om_presentation m), location = None, retryChat = om_retryChat m, retrySender = om_retrySender m,
      Mentions = [], EditAuthorAlias = [], EditChatAlias = [], EditPreparation = None, HistoryReplay = False\<rparr>"

text \<open>The store a send writes to, with the answers the database will give to the writes still to come (no answer
  left is a success).\<close>

record outbox_db =
  ob_chats :: "chat_row list"
  ob_archive :: archive
  ob_answers :: "store_error option list"

definition db_write :: "(outbox_db \<Rightarrow> outbox_db) \<Rightarrow> outbox_db store_write" where
  "db_write f db =
     (case ob_answers db of
        [] \<Rightarrow> (None, f db)
      | a # as \<Rightarrow> (let db' = db\<lparr>ob_answers := as\<rparr> in case a of None \<Rightarrow> (None, f db') | Some e \<Rightarrow> (Some e, db')))"

definition retryOutbound :: "duration list \<Rightarrow> outbox_db store_write \<Rightarrow> outbox_db store_write \<Rightarrow> outbox_db store_write" where
  "retryOutbound delays chatWrite messageWrite =
     retryBusyWithWait (\<lambda>db. case chatWrite db of (Some e, db') \<Rightarrow> (Some e, db') | (None, db') \<Rightarrow> messageWrite db') delays (\<lambda>_ db. (True, db))"

record archive_tools =
  at_sqlite :: sqlite
  at_scan :: scan
  at_column :: "mediaPresentation \<Rightarrow> string"
  at_delays :: "duration list"

definition persistOutbound :: "archive_tools \<Rightarrow> jid_sdk \<Rightarrow> (jid \<Rightarrow> alt_result) \<Rightarrow> jid \<Rightarrow> jid \<Rightarrow> sentMessage \<Rightarrow> string \<Rightarrow> outboundMedia \<Rightarrow> string
    \<Rightarrow> outbox_db \<Rightarrow> string \<times> store_error option \<times> outbox_db" where
  "persistOutbound tools sdk alt own storageJID sent content media quotedMsgID db =
     (let chatJID = JIDString sdk (resolveUserJID sdk alt storageJID EmptyJID);
          row = outbound_row (at_column tools) media (sm_ID sent) chatJID (storedSender (ToNonAD sdk own)) content (sm_Timestamp sent) quotedMsgID;
          chatWrite = db_write (\<lambda>db. db\<lparr>ob_chats := storeChatWith chatJID [] (Some (sm_Timestamp sent)) (ob_chats db)\<rparr>);
          messageWrite = db_write (\<lambda>db. db\<lparr>ob_archive := commit_batch (ob_archive db)
             (StoreMessage (at_sqlite tools) sdk (at_scan tools) (sm_Timestamp sent) row (new_batch (ob_archive db)))\<rparr>)
      in case retryOutbound (at_delays tools) chatWrite messageWrite db of (err, db') \<Rightarrow> (chatJID, err, db'))"

section \<open>The send\<close>

record send_job =
  sj_recipient :: string
  sj_message :: string
  sj_mediaPath :: string
  sj_quotedID :: string
  sj_quotedSender :: string
  sj_quotedContent :: string
  sj_mentions :: "string list"
  sj_asSticker :: bool
  sj_source :: "forwardSource option"
  sj_cachedSource :: "forwardSource option"
  sj_cachedMIME :: bool

record send_response =
  rs_ID :: string
  rs_Timestamp :: "instant option"
  rs_Chat :: jid
  rs_Sender :: jid

text \<open>What the send meets: the context at each of its looks, the connection, how many mentions it read before the
  context ended, the two queries, the files by their paths, the upload and the network's answer.\<close>

record send_world =
  sw_live :: "nat \<Rightarrow> bool"
  sw_connected :: bool
  sw_mentionsRead :: nat
  sw_quoteReadable :: bool
  sw_settingsReadable :: bool
  sw_file :: "string \<Rightarrow> data option"
  sw_upload :: "upload_response option"
  sw_send :: "send_error + send_response"
  sw_now :: instant
  sw_own :: "jid option"
  sw_serverLID :: "jid \<Rightarrow> jid option"

datatype send_status =
    Context_ended | Not_connected | Bad_recipient | Quote_unreadable | Settings_unreadable | File_unreadable
  | Cached_unreadable | Media_rejected build_error | Upload_failed | Group_admin_required | Send_failed send_error | Message_sent bool

record send_tools =
  tl_sdk :: jid_sdk
  tl_alt :: "jid \<Rightarrow> alt_result"
  tl_tables :: media_tables
  tl_decode :: "string \<Rightarrow> mediaPresentation option option"
  tl_archive :: archive_tools

record prepared_send =
  pp_storage :: jid
  pp_recipient :: jid
  pp_message :: wa_message
  pp_content :: string
  pp_upload :: "upload_response option"

text \<open>The body: the text, or the file with its caption.\<close>

definition send_body :: "media_tables \<Rightarrow> send_job \<Rightarrow> send_world \<Rightarrow> outboundQuote \<Rightarrow> string list
    \<Rightarrow> send_status + wa_message \<times> string \<times> upload_response option" where
  "send_body tb job w quote mentionedJIDs =
     (if sj_mediaPath job = [] then Inr (buildOutboundTextWithQuote (sj_message job) quote mentionedJIDs, sj_message job, None)
      else case sw_file w (sj_mediaPath job) of
             None \<Rightarrow> Inl File_unreadable
           | Some d \<Rightarrow>
               (case (if sj_asSticker job then Inr (MediaImage, ''image/webp'')
                      else forwardMediaType tb (sj_source job) (sj_cachedMIME job) (sj_mediaPath job) d) of
                  Inl e \<Rightarrow> Inl (Media_rejected e)
                | Inr (kind, mime) \<Rightarrow>
                    if \<not> sw_live w 5 then Inl Context_ended
                    else case sw_upload w of
                           None \<Rightarrow> Inl Upload_failed
                         | Some up \<Rightarrow>
                             (case buildForwardMedia tb (sj_asSticker job) (sj_source job) kind mime (sj_mediaPath job) d up (sj_message job) quote mentionedJIDs of
                                Inl e \<Rightarrow> Inl (Media_rejected e)
                              | Inr (m, caption) \<Rightarrow> Inr (m, caption, Some up))))"

definition prepareSend :: "send_tools \<Rightarrow> send_job \<Rightarrow> send_world \<Rightarrow> outbox_db \<Rightarrow> send_status + prepared_send" where
  "prepareSend t job w db =
     (let sdk = tl_sdk t; alt = tl_alt t
      in if \<not> sw_live w 0 then Inl Context_ended
         else if \<not> sw_connected w then Inl Not_connected
         else let mentionedJIDs = resolveMentionJIDs sdk alt (sw_mentionsRead w) (sj_mentions job)
              in case parseRecipientJID sdk (sj_recipient job) of
                   None \<Rightarrow> Inl Bad_recipient
                 | Some storageJID \<Rightarrow>
                     if \<not> sw_live w 1 then Inl Context_ended
                     else case resolveRecipientJID sdk alt (sw_serverLID w) (sj_recipient job) of
                            None \<Rightarrow> Inl Bad_recipient
                          | Some recipientJID \<Rightarrow>
                              let quote0 = \<lparr>q_id = sj_quotedID job,
                                    q_participant = (if sj_quotedID job \<noteq> [] then resolveQuotedParticipantJID sdk alt (sj_quotedSender job) else []),
                                    q_content = sj_quotedContent job, q_preview = None\<rparr>
                              in if \<not> sw_live w 2 then Inl Context_ended
                                 else let chat = JIDString sdk (outboundLookupChatJID sdk alt storageJID)
                                      in if \<not> sw_quoteReadable w then Inl Quote_unreadable
                                         else let quote = loadOutboundQuote (tl_decode t) (tl_tables t) sdk alt (sw_own w) (messages (ob_archive db)) chat quote0 (sj_quotedSender job = [])
                                              in if \<not> sw_settingsReadable w then Inl Settings_unreadable
                                                 else let settings = outboundChatSettings (ob_chats db) chat
                                                      in if \<not> sw_live w 4 then Inl Context_ended
                                                         else case send_body (tl_tables t) job w quote mentionedJIDs of
                                                                Inl e \<Rightarrow> Inl e
                                                              | Inr (m, content, up) \<Rightarrow>
                                                                  if \<not> sw_live w 6 then Inl Context_ended
                                                                  else Inr \<lparr>pp_storage = storageJID, pp_recipient = recipientJID,
                                                                         pp_message = applyChatEphemeralSettings settings m, pp_content = content, pp_upload = up\<rparr>)"

text \<open>What a send did: its answer, how often it released the reservation, what it handed to the network and the
  store afterwards.\<close>

record send_trace =
  tr_status :: send_status
  tr_sent :: sentMessage
  tr_released :: nat
  tr_wire :: "(jid \<times> wa_message) option"
  tr_db :: outbox_db

definition sent_media :: "media_tables \<Rightarrow> jid_sdk \<Rightarrow> send_job \<Rightarrow> jid \<Rightarrow> send_response \<Rightarrow> prepared_send \<Rightarrow> outboundMedia" where
  "sent_media tb sdk job own resp p =
     (let media0 = (case pp_upload p of Some up \<Rightarrow> outboundMediaColumns tb (sj_mediaPath job) up | None \<Rightarrow> no_media);
          media1 = (case sj_cachedSource job of Some s \<Rightarrow> media0\<lparr>om_filename := f_filename s\<rparr> | None \<Rightarrow> media0);
          retryC = (if IsEmpty sdk (rs_Chat resp) then pp_recipient p else rs_Chat resp);
          retryS = (if IsEmpty sdk (rs_Sender resp) then own else rs_Sender resp);
          media2 = media1\<lparr>om_retryChat := JIDString sdk (ToNonAD sdk retryC), om_retrySender := JIDString sdk (ToNonAD sdk retryS)\<rparr>
      in if sj_mediaPath job = [] then media2
         else let media3 = media2\<lparr>om_mediaType := (case media_part (pp_message p) of Some (k, _) \<Rightarrow> k | None \<Rightarrow> []),
                     om_presentation := mediaPresentationOf tb (pp_message p)\<rparr>
              in case pp_message p of DocumentMessage _ name _ _ _ _ \<Rightarrow> media3\<lparr>om_filename := name\<rparr> | _ \<Rightarrow> media3)"

definition sendWhatsAppMessageWithNetwork :: "send_tools \<Rightarrow> send_job \<Rightarrow> send_world \<Rightarrow> outbox_db \<Rightarrow> send_trace" where
  "sendWhatsAppMessageWithNetwork t job w db =
     (case prepareSend t job w db of
        Inl status \<Rightarrow> \<lparr>tr_status = status, tr_sent = no_message, tr_released = 1, tr_wire = None, tr_db = db\<rparr>
      | Inr p \<Rightarrow>
          (let wire = Some (pp_recipient p, pp_message p)
           in case sw_send w of
                Inl err \<Rightarrow>
                  \<lparr>tr_status = (if err = ErrNoPermissionInGroup then Group_admin_required else Send_failed err),
                   tr_sent = (if err = ErrNoPermissionInGroup then no_message\<lparr>sm_ErrorCode := groupPermissionCode\<rparr> else no_message),
                   tr_released = (if definitiveSendRefusal err then 1 else 0), tr_wire = wire, tr_db = db\<rparr>
              | Inr resp \<Rightarrow>
                  (let sent = \<lparr>sm_ID = rs_ID resp, sm_ChatJID = JIDString (tl_sdk t) (pp_storage p),
                          sm_Timestamp = (case rs_Timestamp resp of Some ts \<Rightarrow> ts | None \<Rightarrow> sw_now w), sm_ErrorCode = []\<rparr>
                   in case sw_own w of
                        None \<Rightarrow> \<lparr>tr_status = Message_sent True, tr_sent = sent, tr_released = 0, tr_wire = wire, tr_db = db\<rparr>
                      | Some own \<Rightarrow>
                          (case persistOutbound (tl_archive t) (tl_sdk t) (tl_alt t) own (pp_storage p) sent (pp_content p)
                                  (sent_media (tl_tables t) (tl_sdk t) job own resp p) (sj_quotedID job) db of
                             (chat, err, db') \<Rightarrow>
                               \<lparr>tr_status = Message_sent (err = None), tr_sent = sent\<lparr>sm_ChatJID := chat\<rparr>, tr_released = 0, tr_wire = wire, tr_db = db'\<rparr>))))"

definition succeeded :: "send_trace \<Rightarrow> bool" where
  "succeeded tr \<longleftrightarrow> (case tr_status tr of Message_sent _ \<Rightarrow> True | _ \<Rightarrow> False)"

text \<open>The file of a \<^verbatim>\<open>whatsapp://\<close> reference is brought to a local spool first (\<open>spool\<close> is the outcome of that
  download); its stored presentation goes with the job.\<close>

definition resolveSendMedia :: "(string \<Rightarrow> media_error + string \<times> forwardSource) \<Rightarrow> send_job \<Rightarrow> media_error + send_job" where
  "resolveSendMedia spool job =
     (if \<not> prefix ''whatsapp://'' (sj_mediaPath job) then Inr job
      else case spool (sj_mediaPath job) of
             Inl e \<Rightarrow> Inl e
           | Inr (local, source) \<Rightarrow>
               Inr (job\<lparr>sj_mediaPath := local, sj_cachedSource := Some source, sj_cachedMIME := True,
                        sj_source := (case sj_source job of None \<Rightarrow> Some source | Some s \<Rightarrow> Some s)\<rparr>))"

definition sendWhatsAppMessage :: "(string \<Rightarrow> media_error + string \<times> forwardSource) \<Rightarrow> send_tools \<Rightarrow> send_job \<Rightarrow> send_world \<Rightarrow> outbox_db \<Rightarrow> send_trace" where
  "sendWhatsAppMessage spool t job w db =
     (case resolveSendMedia spool job of
        Inl e \<Rightarrow> \<lparr>tr_status = Cached_unreadable, tr_sent = no_message\<lparr>sm_ErrorCode := cachedSendErrorCode e\<rparr>, tr_released = 1, tr_wire = None, tr_db = db\<rparr>
      | Inr job' \<Rightarrow> sendWhatsAppMessageWithNetwork t job' w db)"

definition maxStickerBytes :: nat where "maxStickerBytes = 1048576"

text \<open>A file as the sticker reader meets it: its size when asked, and the bytes that are then read.\<close>

definition readStickerMedia :: "(string \<Rightarrow> (nat \<times> data) option) \<Rightarrow> string \<Rightarrow> bool \<Rightarrow> data option" where
  "readStickerMedia file path preview =
     (case file path of
        None \<Rightarrow> None
      | Some (bytes, d) \<Rightarrow>
          if bytes > maxStickerBytes then None
          else let d' = take (if preview then 30 else maxStickerBytes + 1) d
               in if length d' > maxStickerBytes \<or> \<not> isWebP d' then None else Some d')"

section \<open>The endpoint\<close>

record send_request =
  rq_AsSticker :: bool
  rq_DryRun :: bool
  rq_Recipient :: string
  rq_Message :: string
  rq_MediaPath :: string
  rq_QuotedMessageID :: string
  rq_QuotedSenderJID :: string
  rq_QuotedContent :: string
  rq_Mentions :: "string list"

text \<open>What the budget's gate meets: the settings before, in and after the reservation, whether the database could
  be reached, and the limits and the outcome of a later release.\<close>

record gate_world =
  gw_hasStore :: bool
  gw_hasDefaults :: bool
  gw_before :: "unit + snapshot"
  gw_reached :: bool
  gw_snapshot :: "snapshot option"
  gw_now :: instant
  gw_after :: "unit + snapshot"
  gw_releases :: bool
  gw_releaseLimits :: send_limits
  gw_releaseNow :: instant

record handler_world =
  hw_url :: "string \<Rightarrow> url_parts option"
  hw_fs :: file_system
  hw_roots :: "string list"
  hw_registry :: "string \<Rightarrow> wa_answer list \<times> bool"
  hw_online :: bool
  hw_spool :: "string \<Rightarrow> media_error + string \<times> forwardSource"
  hw_sticker :: "string \<Rightarrow> (nat \<times> data) option"
  hw_gate :: gate_world
  hw_send :: send_world

definition gate_answer :: "jid_sdk \<Rightarrow> (jid \<Rightarrow> alt_result) \<Rightarrow> gate_world \<Rightarrow> string \<Rightarrow> send_store \<Rightarrow> send_answer \<times> sendReservation option \<times> send_store" where
  "gate_answer sdk alt g recipient db =
     (if (\<not> gw_hasStore g \<and> \<not> gw_hasDefaults g) \<or> (gw_hasDefaults g \<and> isl (gw_before g))
      then (allowSend (gw_hasStore g) (gw_hasDefaults g) (gw_before g) Unreachable (gw_after g), None, db)
      else let (attempt, db') = (if gw_reached g then attempt_reserve sdk alt (gw_snapshot g) (gw_now g) [recipient] db else (Unreachable, db))
           in (allowSend (gw_hasStore g) (gw_hasDefaults g) (gw_before g) attempt (gw_after g),
               (case attempt of Attempted _ (Reserved r) \<Rightarrow> Some r | _ \<Rightarrow> None), db'))"

definition releaseSend :: "gate_world \<Rightarrow> sendReservation option \<Rightarrow> send_store \<Rightarrow> send_store" where
  "releaseSend g receipt db =
     (case receipt of
        None \<Rightarrow> db
      | Some r \<Rightarrow> if \<not> gw_hasStore g \<or> \<not> gw_releases g then db else snd (releaseSendReservation (gw_releaseLimits g) (gw_releaseNow g) r db))"

definition answer_status :: "send_answer \<Rightarrow> nat" where
  "answer_status a = (case a of Unavailable \<Rightarrow> 503 | BatchTooLarge \<Rightarrow> 429 | RateLimited _ _ \<Rightarrow> 429 | _ \<Rightarrow> 200)"

datatype send_reply = Reply_error nat string | Reply_dry string | Reply_sent string string instant

record send_outcome =
  so_reply :: send_reply
  so_budget :: send_store
  so_receipt :: "sendReservation option"
  so_trace :: "send_trace option"
  so_db :: outbox_db

definition send_stops :: "nat \<Rightarrow> send_store \<Rightarrow> outbox_db \<Rightarrow> send_outcome" where
  "send_stops status bud db = \<lparr>so_reply = Reply_error status [], so_budget = bud, so_receipt = None, so_trace = None, so_db = db\<rparr>"

text \<open>Which file the send may read: a reference into an allowed chat's cache, or a path inside the roots.\<close>

definition media_of_request :: "jid_sdk \<Rightarrow> chatPolicy \<Rightarrow> handler_world \<Rightarrow> string \<Rightarrow> nat + string" where
  "media_of_request sdk policy h path =
     (if path = [] then Inr []
      else if prefix ''whatsapp://'' path then
        (case parseMediaURI (hw_url h) path of
           None \<Rightarrow> Inl 400
         | Some (chat, _) \<Rightarrow> (case authorizeChat sdk policy chat False of Inl status \<Rightarrow> Inl status | Inr _ \<Rightarrow> Inr path))
      else case validateMediaPath (hw_fs h) path (hw_roots h) of Inl _ \<Rightarrow> Inl 403 | Inr canonical \<Rightarrow> Inr canonical)"

definition job_of :: "send_request \<Rightarrow> string \<Rightarrow> string \<Rightarrow> send_job" where
  "job_of req recipient path =
     \<lparr>sj_recipient = recipient, sj_message = rq_Message req, sj_mediaPath = path, sj_quotedID = rq_QuotedMessageID req,
      sj_quotedSender = rq_QuotedSenderJID req, sj_quotedContent = rq_QuotedContent req, sj_mentions = rq_Mentions req,
      sj_asSticker = rq_AsSticker req, sj_source = None, sj_cachedSource = None, sj_cachedMIME = False\<rparr>"

text \<open>A sticker's bytes are read and checked before the budget is asked; what was read is what is sent.\<close>

definition sticker_job :: "handler_world \<Rightarrow> send_request \<Rightarrow> send_job \<Rightarrow> (nat \<times> string) + send_job \<times> send_world" where
  "sticker_job h req job =
     (if \<not> rq_AsSticker req then Inr (job, hw_send h)
      else case resolveSendMedia (hw_spool h) job of
             Inl e \<Rightarrow> Inl (sendErrorStatus (cachedSendErrorCode e), cachedSendErrorCode e)
           | Inr job' \<Rightarrow>
               (case readStickerMedia (hw_sticker h) (sj_mediaPath job') (rq_DryRun req) of
                  None \<Rightarrow> Inl (400, [])
                | Some d \<Rightarrow> Inr (job', (hw_send h)\<lparr>sw_file := (\<lambda>_. Some d)\<rparr>)))"

definition reply_of :: "send_trace \<Rightarrow> send_reply" where
  "reply_of tr =
     (if succeeded tr then Reply_sent (sm_ID (tr_sent tr)) (sm_ChatJID (tr_sent tr)) (sm_Timestamp (tr_sent tr))
      else if sm_ErrorCode (tr_sent tr) \<noteq> [] then Reply_error (sendErrorStatus (sm_ErrorCode (tr_sent tr))) (sm_ErrorCode (tr_sent tr))
      else Reply_error 500 [])"

text \<open>The last part of the handler: budget, send, refund and answer.\<close>

definition charge_and_send :: "send_tools \<Rightarrow> handler_world \<Rightarrow> send_job \<Rightarrow> send_world \<Rightarrow> string \<Rightarrow> send_store \<Rightarrow> outbox_db \<Rightarrow> send_outcome" where
  "charge_and_send t h job w recipient bud db =
     (case gate_answer (tl_sdk t) (tl_alt t) (hw_gate h) recipient bud of
        (answer, receipt, bud') \<Rightarrow>
          if answer \<noteq> Allowed \<and> answer \<noteq> AllowedUncounted then send_stops (answer_status answer) bud' db
          else let tr = sendWhatsAppMessage (hw_spool h) t job w db
               in \<lparr>so_reply = reply_of tr, so_budget = (if tr_released tr > 0 then releaseSend (hw_gate h) receipt bud' else bud'),
                   so_receipt = receipt, so_trace = Some tr, so_db = tr_db tr\<rparr>)"

definition handleSend :: "send_tools \<Rightarrow> chatPolicy \<Rightarrow> handler_world \<Rightarrow> send_request option \<Rightarrow> send_store \<Rightarrow> outbox_db \<Rightarrow> send_outcome" where
  "handleSend t policy h body bud db =
     (case body of
        None \<Rightarrow> send_stops 400 bud db
      | Some req \<Rightarrow>
          (case normalizePhoneRecipient (rq_Recipient req) of
             None \<Rightarrow> send_stops 400 bud db
           | Some given \<Rightarrow>
               if given = [] then send_stops 400 bud db
               else case authorizeChat (tl_sdk t) policy given True of
                      Inl status \<Rightarrow> send_stops status bud db
                    | Inr typed \<Rightarrow>
                        if rq_AsSticker req \<and> (rq_Message req \<noteq> [] \<or> rq_MediaPath req = []) then send_stops 400 bud db
                        else if rq_Message req = [] \<and> rq_MediaPath req = [] then send_stops 400 bud db
                        else case media_of_request (tl_sdk t) policy h (rq_MediaPath req) of
                               Inl status \<Rightarrow> send_stops status bud db
                             | Inr path \<Rightarrow>
                                 (case registeredRecipient (tl_sdk t) (tl_alt t) (hw_registry h) (hw_online h) policy (JIDString (tl_sdk t) typed) of
                                    Answered_error status _ \<Rightarrow> send_stops status bud db
                                  | Send_to recipient \<Rightarrow>
                                      (case sticker_job h req (job_of req recipient path) of
                                         Inl (status, code) \<Rightarrow> (send_stops status bud db)\<lparr>so_reply := Reply_error status code\<rparr>
                                       | Inr (job, w) \<Rightarrow>
                                           if rq_DryRun req then (send_stops 200 bud db)\<lparr>so_reply := Reply_dry recipient\<rparr>
                                           else charge_and_send t h job w recipient bud db))))"

section \<open>The archive write\<close>

definition outbound_writes :: "outbox_db store_write \<Rightarrow> outbox_db store_write \<Rightarrow> outbox_db store_write" where
  "outbound_writes chatWrite messageWrite = (\<lambda>db. case chatWrite db of (Some e, db') \<Rightarrow> (Some e, db') | (None, db') \<Rightarrow> messageWrite db')"

definition applies_once :: "(archive \<Rightarrow> archive) \<Rightarrow> outbox_db \<Rightarrow> store_error option \<times> outbox_db \<Rightarrow> bool" where
  "applies_once g db out \<longleftrightarrow> ob_archive (snd out) = (if fst out = None then g (ob_archive db) else ob_archive db)"

lemma outbound_writes_once:
  assumes "\<And>db. ob_archive (f db) = ob_archive db" "\<And>db. ob_archive (m db) = g (ob_archive db)"
  shows "applies_once g db (outbound_writes (db_write f) (db_write m) db)"
  by (auto simp: applies_once_def outbound_writes_def db_write_def Let_def assms split: list.splits option.splits)

lemma retry_loop_once:
  assumes "\<And>db. applies_once g db (write db)" "applies_once g db0 (err, db)"
  shows "applies_once g db0 (retry_busy_loop write (\<lambda>_ db. (True, db)) err delays db)"
  using assms(2)
proof (induction delays arbitrary: err db)
  case (Cons d delays)
  show ?case
  proof (cases "\<exists>e. err = Some e \<and> isBusyError e")
    case True
    then have "ob_archive db = ob_archive db0" using Cons.prems by (auto simp: applies_once_def)
    then have "applies_once g db0 (write db)" using assms(1) [of db] by (simp add: applies_once_def)
    then show ?thesis using True Cons.IH [of "fst (write db)" "snd (write db)"] by (auto simp: case_prod_unfold Let_def)
  next
    case False
    then show ?thesis using Cons.prems by (auto split: option.splits)
  qed
qed simp

lemma retryOutbound_once:
  assumes "\<And>db. ob_archive (f db) = ob_archive db" "\<And>db. ob_archive (m db) = g (ob_archive db)"
  shows "applies_once g db (retryOutbound delays (db_write f) (db_write m) db)"
proof -
  let ?w = "outbound_writes (db_write f) (db_write m)"
  have "retryOutbound delays (db_write f) (db_write m) db = retry_busy_loop ?w (\<lambda>_ db. (True, db)) (fst (?w db)) delays (snd (?w db))"
    unfolding retryOutbound_def retryBusyWithWait_def outbound_writes_def [symmetric] by (simp add: Let_def split: prod.split)
  then show ?thesis
    using retry_loop_once [of g ?w db "fst (?w db)" "snd (?w db)" delays] outbound_writes_once [of f m g] assms by simp
qed

lemma persistOutbound_archive:
  assumes "persistOutbound tools sdk alt own storageJID sent content media quoted db = (chat, err, db')"
  shows "chat = JIDString sdk (resolveUserJID sdk alt storageJID EmptyJID)
    \<and> ob_archive db' = (if err = None then commit_batch (ob_archive db) (StoreMessage (at_sqlite tools) sdk (at_scan tools) (sm_Timestamp sent)
          (outbound_row (at_column tools) media (sm_ID sent) chat (storedSender (ToNonAD sdk own)) content (sm_Timestamp sent) quoted) (new_batch (ob_archive db)))
        else ob_archive db)"
proof -
  let ?chat = "JIDString sdk (resolveUserJID sdk alt storageJID EmptyJID)"
  let ?row = "outbound_row (at_column tools) media (sm_ID sent) ?chat (storedSender (ToNonAD sdk own)) content (sm_Timestamp sent) quoted"
  let ?f = "\<lambda>db. db\<lparr>ob_chats := storeChatWith ?chat [] (Some (sm_Timestamp sent)) (ob_chats db)\<rparr>"
  let ?g = "\<lambda>a. commit_batch a (StoreMessage (at_sqlite tools) sdk (at_scan tools) (sm_Timestamp sent) ?row (new_batch a))"
  let ?m = "\<lambda>db. db\<lparr>ob_archive := ?g (ob_archive db)\<rparr>"
  have "applies_once ?g db (retryOutbound (at_delays tools) (db_write ?f) (db_write ?m) db)"
    by (rule retryOutbound_once) simp_all
  then show ?thesis
    using assms by (auto simp: persistOutbound_def Let_def applies_once_def split: prod.splits)
qed

section \<open>What travels is what is recorded\<close>

lemma applyChatEphemeral_text: "message_text (applyChatEphemeralSettings e (buildOutboundTextWithQuote body quote ms)) = body"
  by (simp add: applyChatEphemeralSettings_keeps(1) buildOutboundTextWithQuote_def split: option.split)

lemma send_body_text:
  assumes "send_body tb job w quote ms = Inr (m, content, up)"
  shows "message_text (applyChatEphemeralSettings e m) = content"
proof (cases "sj_mediaPath job = []")
  case True
  then show ?thesis using assms applyChatEphemeral_text by (auto simp: send_body_def)
next
  case False
  then obtain kind mime d upl where "buildForwardMedia tb (sj_asSticker job) (sj_source job) kind mime (sj_mediaPath job) d upl (sj_message job) quote ms = Inr (m, content)"
    using assms by (auto simp: send_body_def split: option.splits sum.splits if_splits prod.splits)
  from reply_mentions_and_timer_together [OF this] show ?thesis by blast
qed

lemma prepareSend_facts:
  assumes "prepareSend t job w db = Inr p"
  shows "message_text (pp_message p) = pp_content p \<and> parseRecipientJID (tl_sdk t) (sj_recipient job) = Some (pp_storage p)
    \<and> resolveRecipientJID (tl_sdk t) (tl_alt t) (sw_serverLID w) (sj_recipient job) = Some (pp_recipient p) \<and> sw_connected w"
  using assms send_body_text
  by (auto simp: prepareSend_def Let_def split: if_splits option.splits sum.splits prod.splits)


lemma prepareSend_not_sent: "prepareSend t job w db = Inl st \<Longrightarrow> (case st of Message_sent _ \<Rightarrow> False | _ \<Rightarrow> True)"
  by (auto simp: prepareSend_def send_body_def Let_def split: if_splits option.splits sum.splits prod.splits)

lemma sent_trace:
  assumes "tr = sendWhatsAppMessageWithNetwork t job w db" "succeeded tr"
  shows "\<exists>p resp. prepareSend t job w db = Inr p \<and> sw_send w = Inr resp \<and> tr_wire tr = Some (pp_recipient p, pp_message p)
    \<and> sm_ID (tr_sent tr) = rs_ID resp \<and> tr_released tr = 0"
  using assms by (auto simp: sendWhatsAppMessageWithNetwork_def succeeded_def Let_def split: sum.splits option.splits prod.splits if_splits send_status.splits
      dest: prepareSend_not_sent)

definition could_have_left :: "send_world \<Rightarrow> send_trace \<Rightarrow> bool" where
  "could_have_left w tr \<longleftrightarrow> tr_wire tr \<noteq> None \<and> (case sw_send w of Inl e \<Rightarrow> \<not> definitiveSendRefusal e | Inr _ \<Rightarrow> True)"

lemma trace_accounts:
  assumes "tr = sendWhatsAppMessageWithNetwork t job w db"
  shows "(tr_released tr > 0 \<longleftrightarrow> \<not> could_have_left w tr) \<and> (succeeded tr \<longrightarrow> could_have_left w tr) \<and> (\<not> succeeded tr \<longrightarrow> tr_db tr = db)
    \<and> (tr_wire tr \<noteq> None \<longrightarrow> (\<exists>p. prepareSend t job w db = Inr p \<and> tr_wire tr = Some (pp_recipient p, pp_message p)))"
  using assms
  by (auto simp: sendWhatsAppMessageWithNetwork_def succeeded_def could_have_left_def Let_def split: sum.splits option.splits prod.splits if_splits send_status.splits
      dest: prepareSend_not_sent)

lemma spooled_accounts:
  assumes "tr = sendWhatsAppMessage spool t job w db"
  shows "(tr_released tr > 0 \<longleftrightarrow> \<not> could_have_left w tr) \<and> (succeeded tr \<longrightarrow> could_have_left w tr) \<and> (\<not> succeeded tr \<longrightarrow> tr_db tr = db)
    \<and> (tr_wire tr \<noteq> None \<longrightarrow> (\<exists>p job'. resolveSendMedia spool job = Inr job' \<and> prepareSend t job' w db = Inr p
         \<and> tr_wire tr = Some (pp_recipient p, pp_message p)))"
proof (cases "resolveSendMedia spool job")
  case (Inl e)
  then show ?thesis using assms by (simp add: sendWhatsAppMessage_def could_have_left_def succeeded_def)
next
  case (Inr job')
  then have "tr = sendWhatsAppMessageWithNetwork t job' w db" using assms by (simp add: sendWhatsAppMessage_def)
  from trace_accounts [OF this] Inr show ?thesis by auto
qed

lemma resolveSendMedia_recipient: "resolveSendMedia spool job = Inr job' \<Longrightarrow> sj_recipient job' = sj_recipient job"
  by (auto simp: resolveSendMedia_def split: if_splits sum.splits prod.splits)

text \<open>How a request reaches the network: what the handler has established by then.\<close>

lemma handleSend_reaches:
  assumes "so_trace (handleSend t policy h (Some req) bud db) = Some tr"
  obtains given typed recipient path job w answer receipt bud' where
    "normalizePhoneRecipient (rq_Recipient req) = Some given" "authorizeChat (tl_sdk t) policy given True = Inr typed"
    "media_of_request (tl_sdk t) policy h (rq_MediaPath req) = Inr path" "\<not> rq_DryRun req"
    "registeredRecipient (tl_sdk t) (tl_alt t) (hw_registry h) (hw_online h) policy (JIDString (tl_sdk t) typed) = Send_to recipient"
    "sticker_job h req (job_of req recipient path) = Inr (job, w)"
    "gate_answer (tl_sdk t) (tl_alt t) (hw_gate h) recipient bud = (answer, receipt, bud')" "answer \<in> {Allowed, AllowedUncounted}"
    "tr = sendWhatsAppMessage (hw_spool h) t job w db"
    "handleSend t policy h (Some req) bud db = \<lparr>so_reply = reply_of tr,
       so_budget = (if tr_released tr > 0 then releaseSend (hw_gate h) receipt bud' else bud'), so_receipt = receipt, so_trace = Some tr, so_db = tr_db tr\<rparr>"
  using assms
  by (auto simp: handleSend_def send_stops_def charge_and_send_def Let_def split: if_splits option.splits sum.splits prod.splits recipient_answer.splits)

lemma sticker_job_keeps:
  assumes "sticker_job h req job = Inr (job', w)"
  shows "sw_send w = sw_send (hw_send h) \<and> sw_serverLID w = sw_serverLID (hw_send h) \<and> sj_recipient job' = sj_recipient job"
  using assms resolveSendMedia_recipient by (auto simp: sticker_job_def split: if_splits sum.splits option.splits)

lemma authorized_allows: "authorizeChat sdk policy raw ph = Inr j \<Longrightarrow> cp_Allows policy (JIDString sdk j)"
  by (auto simp: authorizeChat_def split: sum.splits if_splits)

lemma registered_allows:
  assumes "registeredRecipient sdk alt registry online policy r0 = Send_to r" "cp_Allows policy r0"
  shows "cp_Allows policy r"
  using assms authorized_allows by (auto simp: registeredRecipient_def split: if_splits sum.splits recipient_error.splits)

lemma prepareSend_body:
  assumes "prepareSend t job w db = Inr p"
  shows "\<exists>quote ms m up e. send_body (tl_tables t) job w quote ms = Inr (m, pp_content p, up) \<and> pp_message p = applyChatEphemeralSettings e m"
  using assms by (auto simp: prepareSend_def Let_def split: if_splits option.splits sum.splits prod.splits) blast+

lemma send_body_row:
  assumes "send_body tb job w quote ms = Inr (m, content, up)" "sj_mediaPath job \<noteq> []"
  shows "\<exists>k u. media_part (applyChatEphemeralSettings e m) = Some (k, u) \<and> k \<noteq> []"
proof -
  obtain kind mime d upl where "buildForwardMedia tb (sj_asSticker job) (sj_source job) kind mime (sj_mediaPath job) d upl (sj_message job) quote ms = Inr (m, content)"
    using assms by (auto simp: send_body_def split: option.splits sum.splits if_splits prod.splits)
  from buildForwardMedia_shape [OF this] have "upload_kind_of (applyChatEphemeralSettings e m) \<noteq> None"
    by (simp add: applyChatEphemeralSettings_keeps(2))
  then show ?thesis by (cases "applyChatEphemeralSettings e m") simp_all
qed

lemma prepared_row_not_empty:
  assumes "prepareSend t job w db = Inr p" "sj_message job \<noteq> [] \<or> sj_mediaPath job \<noteq> []"
  shows "pp_content p \<noteq> [] \<or> om_mediaType (sent_media tb sdk job own resp p) \<noteq> []"
proof (cases "sj_mediaPath job = []")
  case True
  then show ?thesis
    using assms by (auto simp: prepareSend_def send_body_def Let_def split: if_splits option.splits sum.splits prod.splits)
next
  case False
  obtain quote ms m up e where "send_body (tl_tables t) job w quote ms = Inr (m, pp_content p, up)" "pp_message p = applyChatEphemeralSettings e m"
    using prepareSend_body [OF assms(1)] by blast
  with send_body_row [OF _ False, of "tl_tables t" w quote ms m "pp_content p" up e] obtain k u
    where "media_part (pp_message p) = Some (k, u)" "k \<noteq> []" by auto
  then show ?thesis using False by (simp add: sent_media_def Let_def split: wa_message.split)
qed

lemma store_new_row:
  assumes "row_of message_key (ID m, ChatJID m) (messages a) = None" "\<And>u. mset (scan u) = mset u"
    and "EditPreparation m = None" "HistoryReplay m = False" "Content m \<noteq> [] \<or> MediaType m \<noteq> []"
    and "\<forall>p \<in> set (pending a). p_target p \<noteq> ID m"
  shows "messages (commit_batch a (StoreMessage q sdk scan now m (new_batch a))) = messages a @ [messageArgs sdk m]"
proof -
  have "messages (run_batch q sdk extr scan [BatchStore now m] a) = messages a @ [messageArgs sdk m]" for extr :: "unit extractor"
    using idle_store [of m a scan q sdk extr now] assms by blast
  then show ?thesis by (simp add: run_batch_def)
qed

lemma sent_and_kept:
  assumes "tr = sendWhatsAppMessageWithNetwork t job w db" "tr_status tr = Message_sent True" "sw_own w = Some own"
  obtains p resp chat where "prepareSend t job w db = Inr p" "tr_wire tr = Some (pp_recipient p, pp_message p)"
    "sm_ChatJID (tr_sent tr) = chat"
    "persistOutbound (tl_archive t) (tl_sdk t) (tl_alt t) own (pp_storage p) ((tr_sent tr)\<lparr>sm_ChatJID := JIDString (tl_sdk t) (pp_storage p)\<rparr>)
       (pp_content p) (sent_media (tl_tables t) (tl_sdk t) job own resp p) (sj_quotedID job) db = (chat, None, tr_db tr)"
  using assms
  by (auto simp: sendWhatsAppMessageWithNetwork_def Let_def split: sum.splits option.splits prod.splits if_splits dest: prepareSend_not_sent)

section \<open>The properties of a send\<close>

text \<open>Which files a request reads: with every other file replaced, a run of the handler is the same run.\<close>

definition with_files :: "handler_world \<Rightarrow> (string \<Rightarrow> data option) \<Rightarrow> (string \<Rightarrow> (nat \<times> data) option) \<Rightarrow> handler_world" where
  "with_files h files stickers = h\<lparr>hw_sticker := stickers, hw_send := (hw_send h)\<lparr>sw_file := files\<rparr>\<rparr>"

definition reads_only :: "string set \<Rightarrow> (handler_world \<Rightarrow> send_outcome) \<Rightarrow> handler_world \<Rightarrow> bool" where
  "reads_only paths run h \<longleftrightarrow> (\<forall>files stickers. (\<forall>p \<in> paths. files p = sw_file (hw_send h) p \<and> stickers p = hw_sticker h p)
     \<longrightarrow> run (with_files h files stickers) = run h)"

lemma with_files_simps [simp]:
  "hw_url (with_files h files stickers) = hw_url h" "hw_fs (with_files h files stickers) = hw_fs h"
  "hw_roots (with_files h files stickers) = hw_roots h" "hw_registry (with_files h files stickers) = hw_registry h"
  "hw_online (with_files h files stickers) = hw_online h" "hw_spool (with_files h files stickers) = hw_spool h"
  "hw_gate (with_files h files stickers) = hw_gate h" "hw_sticker (with_files h files stickers) = stickers"
  "hw_send (with_files h files stickers) = (hw_send h)\<lparr>sw_file := files\<rparr>"
  by (simp_all add: with_files_def)

lemma send_body_file:
  "sj_mediaPath job = [] \<or> files (sj_mediaPath job) = sw_file w (sj_mediaPath job)
    \<Longrightarrow> send_body tb job (w\<lparr>sw_file := files\<rparr>) quote ms = send_body tb job w quote ms"
  by (auto simp: send_body_def split: option.split sum.split)

lemma network_file:
  assumes "sj_mediaPath job = [] \<or> files (sj_mediaPath job) = sw_file w (sj_mediaPath job)"
  shows "sendWhatsAppMessageWithNetwork t job (w\<lparr>sw_file := files\<rparr>) db = sendWhatsAppMessageWithNetwork t job w db"
proof -
  have "prepareSend t job (w\<lparr>sw_file := files\<rparr>) db = prepareSend t job w db"
    by (simp add: prepareSend_def Let_def send_body_file [where files = files, OF assms] cong: option.case_cong sum.case_cong prod.case_cong if_cong)
  then show ?thesis
    by (simp add: sendWhatsAppMessageWithNetwork_def Let_def cong: option.case_cong sum.case_cong)
qed

lemma handleSend_with_files:
  assumes "normalizePhoneRecipient (rq_Recipient req) = Some given" "authorizeChat (tl_sdk t) policy given True = Inr typed"
    and "media_of_request (tl_sdk t) policy h (rq_MediaPath req) = Inr path"
    and "registeredRecipient (tl_sdk t) (tl_alt t) (hw_registry h) (hw_online h) policy (JIDString (tl_sdk t) typed) = Send_to recipient"
    and "sticker_job h req (job_of req recipient path) = Inr (job, w)"
    and "sticker_job (with_files h files stickers) req (job_of req recipient path) = Inr (job, w')"
    and "sendWhatsAppMessage (hw_spool h) t job w' db = sendWhatsAppMessage (hw_spool h) t job w db"
  shows "handleSend t policy (with_files h files stickers) (Some req) bud db = handleSend t policy h (Some req) bud db"
proof -
  have "media_of_request (tl_sdk t) policy (with_files h files stickers) (rq_MediaPath req) = Inr path"
    using assms(3) by (simp add: media_of_request_def cong: if_cong)
  with assms show ?thesis by (simp add: handleSend_def charge_and_send_def Let_def split: prod.split)
qed

lemma sticker_job_with_files:
  assumes "sticker_job h req job = Inr (job', w)" "resolveSendMedia (hw_spool h) job = Inr spooled"
    and "if rq_AsSticker req then stickers (sj_mediaPath spooled) = hw_sticker h (sj_mediaPath spooled)
      else sj_mediaPath spooled = [] \<or> files (sj_mediaPath spooled) = sw_file (hw_send h) (sj_mediaPath spooled)"
  shows "\<exists>w'. sticker_job (with_files h files stickers) req job = Inr (job', w')
    \<and> sendWhatsAppMessage (hw_spool h) t job' w' db = sendWhatsAppMessage (hw_spool h) t job' w db"
proof (cases "rq_AsSticker req")
  case True
  have read: "readStickerMedia stickers (sj_mediaPath spooled) (rq_DryRun req) = readStickerMedia (hw_sticker h) (sj_mediaPath spooled) (rq_DryRun req)"
    using assms(3) True by (simp add: readStickerMedia_def)
  obtain d where "readStickerMedia (hw_sticker h) (sj_mediaPath spooled) (rq_DryRun req) = Some d" "job' = spooled"
      "w = (hw_send h)\<lparr>sw_file := (\<lambda>_. Some d)\<rparr>"
    using assms(1,2) True by (auto simp: sticker_job_def split: option.splits)
  with True read assms(2) show ?thesis by (simp add: sticker_job_def)
next
  case False
  then have "job' = job" "w = hw_send h" using assms(1) by (simp_all add: sticker_job_def)
  with False assms(2,3) network_file [of spooled files "hw_send h" t db] show ?thesis
    by (auto simp: sticker_job_def sendWhatsAppMessage_def)
qed

lemma validated_not_reference:
  assumes "fs_ok fs" "resolveMediaRootsValue fs setting False = Inr roots" "validateMediaPath fs path roots = Inr p"
  shows "\<not> prefix ''whatsapp://'' p \<and> p \<noteq> []"
proof -
  from assms(3) obtain target where t: "EvalSymlinks fs path = Some target" "IsAbs path"
    and p: "p = confine (Clean target) roots" "p \<noteq> []"
    by (auto simp: validateMediaPath_def Let_def split: if_splits option.splits)
  with assms(1) have "IsAbs target" by (auto simp: fs_ok_def)
  then obtain cs where cs: "list_all plain cs" "Clean target = absp cs" using Clean_abs by blast
  then have "p = absp cs" using confine_descendant [OF media_roots_clean [OF assms(1,2)] cs(1)] p by simp
  then show ?thesis by (simp add: absp_def sep_def)
qed

text \<open>Where the recipient of a send comes from.\<close>

lemma registeredRecipient_cases:
  assumes "registeredRecipient sdk alt registry online policy r0 = Send_to r"
  shows "online \<and> ((\<exists>registered canonical. canonicalRecipientJID sdk alt registry r0 = Inr registered
        \<and> canonicalChatJID sdk (JIDString sdk registered) True = Inr canonical \<and> r = JIDString sdk canonical)
      \<or> (canonicalRecipientJID sdk alt registry r0 = Inl RecipientLookup \<and> \<not> cp_restricted policy \<and> r = r0))"
  using assms by (auto simp: registeredRecipient_def authorizeChat_def split: if_splits sum.splits recipient_error.splits)

text \<open>Which local file stands behind the media of a request: the validated path, or the spooled copy of a
  reference into the cache of an allowed chat.\<close>

definition allowed_file :: "jid_sdk \<Rightarrow> chatPolicy \<Rightarrow> handler_world \<Rightarrow> string \<Rightarrow> string \<Rightarrow> bool" where
  "allowed_file sdk policy h path local \<longleftrightarrow>
     (if prefix ''whatsapp://'' path
      then (case (parseMediaURI (hw_url h) path, hw_spool h path) of
              (Some (chat, _), Inr (spooled, _)) \<Rightarrow>
                (case canonicalChatJID sdk chat False of Inl _ \<Rightarrow> False | Inr j \<Rightarrow> cp_Allows policy (JIDString sdk j)) \<and> local = spooled
            | _ \<Rightarrow> False)
      else validateMediaPath (hw_fs h) path (hw_roots h) = Inr local)"

lemma spooled_allowed_file:
  assumes "media_of_request sdk policy h path = Inr path'" "path \<noteq> []" "sj_mediaPath job = path'"
    and "resolveSendMedia (hw_spool h) job = Inr spooled" "fs_ok (hw_fs h)" "resolveMediaRootsValue (hw_fs h) setting False = Inr (hw_roots h)"
  shows "allowed_file sdk policy h path (sj_mediaPath spooled)"
proof (cases "prefix ''whatsapp://'' path")
  case True
  then show ?thesis
    using assms(1-4) by (auto simp: media_of_request_def authorizeChat_def allowed_file_def resolveSendMedia_def split: option.splits sum.splits if_splits)
next
  case False
  then have "validateMediaPath (hw_fs h) path (hw_roots h) = Inr path'"
    using assms(1,2) by (auto simp: media_of_request_def split: sum.splits)
  with validated_not_reference [OF assms(5,6) this] assms(3,4) False show ?thesis
    by (simp add: allowed_file_def resolveSendMedia_def)
qed

lemma request_reads_only:
  assumes "so_trace (handleSend t policy h (Some req) bud db) = Some tr" "tr_wire tr \<noteq> None"
    and "fs_ok (hw_fs h)" "resolveMediaRootsValue (hw_fs h) setting False = Inr (hw_roots h)"
  shows "if rq_MediaPath req = [] then reads_only {} (\<lambda>h. handleSend t policy h (Some req) bud db) h
    else \<exists>local. allowed_file (tl_sdk t) policy h (rq_MediaPath req) local \<and> reads_only {local} (\<lambda>h. handleSend t policy h (Some req) bud db) h"
  using assms(1)
proof (cases rule: handleSend_reaches)
  case (1 given typed recipient path job w answer receipt bud')
  let ?job = "job_of req recipient path"
  obtain spooled where sp: "resolveSendMedia (hw_spool h) ?job = Inr spooled"
    using 1(6) spooled_accounts [OF 1(9)] assms(2) by (auto simp: sticker_job_def split: if_splits sum.splits)
  have path: "sj_mediaPath ?job = path" by (simp add: job_of_def)
  have same: "handleSend t policy (with_files h files stickers) (Some req) bud db = handleSend t policy h (Some req) bud db"
    if "if rq_AsSticker req then stickers (sj_mediaPath spooled) = hw_sticker h (sj_mediaPath spooled)
      else sj_mediaPath spooled = [] \<or> files (sj_mediaPath spooled) = sw_file (hw_send h) (sj_mediaPath spooled)" for files stickers
    using sticker_job_with_files [where files = files and stickers = stickers and t = t and db = db, OF 1(6) sp that] handleSend_with_files [OF 1(1,2,3,5,6)] by blast
  show ?thesis
  proof (cases "rq_MediaPath req = []")
    case True
    have "\<not> rq_AsSticker req" using assms(1) True by (auto simp: handleSend_def send_stops_def split: option.splits sum.splits if_splits)
    moreover have "sj_mediaPath spooled = []"
      using sp path 1(3) True by (simp add: resolveSendMedia_def media_of_request_def)
    ultimately show ?thesis using same True by (simp add: reads_only_def)
  next
    case False
    have ok: "allowed_file (tl_sdk t) policy h (rq_MediaPath req) (sj_mediaPath spooled)"
      by (rule spooled_allowed_file [OF 1(3) False path sp assms(3,4)])
    have "reads_only {sj_mediaPath spooled} (\<lambda>h. handleSend t policy h (Some req) bud db) h"
      using same by (simp add: reads_only_def)
    with ok False show ?thesis by auto
  qed
qed


text \<open>C15. A charge is given back exactly when nothing can have left. Once the budget has granted a send, its
  reservation is released if and only if no message was handed to the network or the network refused it
  before sending; an answer that leaves this open keeps the charge. A send that is reported as failed has
  archived nothing, and one reported as sent is charged.\<close>

theorem charge_kept_if_it_may_have_left:
  assumes "so_trace (handleSend t policy h (Some req) bud db) = Some tr"
  shows "\<exists>recipient answer receipt bud'. gate_answer (tl_sdk t) (tl_alt t) (hw_gate h) recipient bud = (answer, receipt, bud')
    \<and> so_budget (handleSend t policy h (Some req) bud db)
        = (if could_have_left (hw_send h) tr then bud' else releaseSend (hw_gate h) receipt bud')
    \<and> (case so_reply (handleSend t policy h (Some req) bud db) of
         Reply_sent _ _ _ \<Rightarrow> could_have_left (hw_send h) tr
       | _ \<Rightarrow> so_db (handleSend t policy h (Some req) bud db) = db)"
  using assms
proof (cases rule: handleSend_reaches)
  case (1 given typed recipient path job w answer receipt bud')
  have left: "could_have_left w tr = could_have_left (hw_send h) tr"
    using sticker_job_keeps [OF 1(6)] by (simp add: could_have_left_def)
  show ?thesis
    using 1(7) spooled_accounts [OF 1(9)] left
    by (intro exI [of _ recipient] exI [of _ answer] exI [of _ receipt] exI [of _ bud'])
      (auto simp: 1(10) reply_of_def split: if_splits)
qed

text \<open>C16. What the archive says was sent is what was sent. When a send of a new message reports that its row was
  stored, the archive has gained exactly one row, under the message's identifier and the chat the caller is
  told, marked as our own, with the quote asked for and, as its text, the text or caption of the message that
  went to the network, whatever the database made the bridge retry.\<close>

theorem sent_text_is_archived:
  assumes "tr = sendWhatsAppMessageWithNetwork t job w db" "tr_status tr = Message_sent True" "sw_own w = Some own"
    and "tr_wire tr = Some (address, m)" "sj_message job \<noteq> [] \<or> sj_mediaPath job \<noteq> []"
    and "row_of message_key (sm_ID (tr_sent tr), sm_ChatJID (tr_sent tr)) (messages (ob_archive db)) = None"
    and "\<forall>p \<in> set (pending (ob_archive db)). p_target p \<noteq> sm_ID (tr_sent tr)" "\<And>u. mset (at_scan (tl_archive t) u) = mset u"
  shows "\<exists>r. messages (ob_archive (tr_db tr)) = messages (ob_archive db) @ [r] \<and> m_content r = Some (message_text m)
    \<and> m_id r = sm_ID (tr_sent tr) \<and> m_chat r = sm_ChatJID (tr_sent tr) \<and> m_own r \<and> m_quoted r = text_arg (sj_quotedID job)"
  using assms(1-3)
proof (cases rule: sent_and_kept)
  case (1 p resp chat)
  let ?row = "outbound_row (at_column (tl_archive t)) (sent_media (tl_tables t) (tl_sdk t) job own resp p) (sm_ID (tr_sent tr)) chat
    (storedSender (ToNonAD (tl_sdk t) own)) (pp_content p) (sm_Timestamp (tr_sent tr)) (sj_quotedID job)"
  have same: "pp_content p = message_text m" using prepareSend_facts [OF 1(1)] 1(2) assms(4) by simp
  have some: "Content ?row \<noteq> [] \<or> MediaType ?row \<noteq> []"
    using prepared_row_not_empty [OF 1(1) assms(5)] by (simp add: outbound_row_def)
  have "ob_archive (tr_db tr) = commit_batch (ob_archive db) (StoreMessage (at_sqlite (tl_archive t)) (tl_sdk t) (at_scan (tl_archive t))
      (sm_Timestamp (tr_sent tr)) ?row (new_batch (ob_archive db)))"
    using persistOutbound_archive [OF 1(4)] by simp
  also have "messages \<dots> = messages (ob_archive db) @ [messageArgs (tl_sdk t) ?row]"
    using store_new_row [of ?row "ob_archive db" "at_scan (tl_archive t)"] some assms(6-8) 1(3) by (simp add: outbound_row_def)
  finally show ?thesis
    using same 1(3) by (auto simp: messageArgs_def Let_def outbound_row_def split: prod.split)
qed

section \<open>A text to a group\<close>

definition group_tools :: send_tools where
  "group_tools = \<lparr>tl_sdk = plain_sdk, tl_alt = no_alt, tl_tables = plain_tables, tl_decode = (\<lambda>_. None),
     tl_archive = \<lparr>at_sqlite = opaque_sqlite, at_scan = (\<lambda>u. u), at_column = (\<lambda>_. []), at_delays = defaultStoreRetryDelays\<rparr>\<rparr>"

definition group_send :: "send_error + send_response \<Rightarrow> send_world" where
  "group_send answer = \<lparr>sw_live = (\<lambda>_. True), sw_connected = True, sw_mentionsRead = 0, sw_quoteReadable = True, sw_settingsReadable = True,
     sw_file = (\<lambda>_. None), sw_upload = None, sw_send = answer, sw_now = 5, sw_own = Some (NewJID ''5511'' DefaultUserServer), sw_serverLID = (\<lambda>_. None)\<rparr>"

definition group_world :: "send_error + send_response \<Rightarrow> handler_world" where
  "group_world answer = \<lparr>hw_url = (\<lambda>_. None), hw_fs = \<lparr>EvalSymlinks = (\<lambda>_. None), Stat_regular = (\<lambda>_. None), MkdirAll = (\<lambda>_. False), UserHomeDir = None, Getwd = None\<rparr>,
     hw_roots = [], hw_registry = (\<lambda>_. ([], True)), hw_online = True, hw_spool = (\<lambda>_. Inl Media_other), hw_sticker = (\<lambda>_. None),
     hw_gate = \<lparr>gw_hasStore = True, gw_hasDefaults = False, gw_before = Inl (), gw_reached = False, gw_snapshot = None, gw_now = 5, gw_after = Inl (),
       gw_releases = True, gw_releaseLimits = no_limits, gw_releaseNow = 5\<rparr>, hw_send = group_send answer\<rparr>"

definition group_request :: send_request where
  "group_request = \<lparr>rq_AsSticker = False, rq_DryRun = False, rq_Recipient = ''12@g.us'', rq_Message = ''hi'', rq_MediaPath = [], rq_QuotedMessageID = [],
     rq_QuotedSenderJID = [], rq_QuotedContent = [], rq_Mentions = []\<rparr>"

definition group_answer :: send_response where
  "group_answer = \<lparr>rs_ID = ''A'', rs_Timestamp = None, rs_Chat = NewJID ''12'' ''g.us'', rs_Sender = NewJID ''5511'' DefaultUserServer\<rparr>"

definition busy_outbox :: outbox_db where
  "busy_outbox = \<lparr>ob_chats = [], ob_archive = \<lparr>messages = [], pending = []\<rparr>, ob_answers = [None, Some (Some 5)]\<rparr>"

text \<open>A picture sent to the same group from inside the only media root; the server refuses it after the upload.\<close>

definition picture_world :: handler_world where
  "picture_world = (group_world (Inl ErrNotInGroup))\<lparr>hw_fs := outbox_only, hw_roots := [''/out''],
     hw_send := (group_send (Inl ErrNotInGroup))\<lparr>sw_file := (\<lambda>p. if p = ''/out/a/b.jpg'' then Some ''jpeg'' else None), sw_upload := Some sample_upload\<rparr>\<rparr>"

definition picture_request :: send_request where "picture_request = group_request\<lparr>rq_MediaPath := ''/out/link''\<rparr>"


theorem charge_kept_if_it_may_have_left_witness:
  "\<exists>tr. so_trace (handleSend group_tools (parseChatPolicy []) (group_world (Inl ErrNotInGroup)) (Some group_request) fresh_store busy_outbox) = Some tr
     \<and> \<not> could_have_left (hw_send (group_world (Inl ErrNotInGroup))) tr
     \<and> (\<exists>recipient answer receipt bud'. gate_answer (tl_sdk group_tools) (tl_alt group_tools) (hw_gate (group_world (Inl ErrNotInGroup))) recipient fresh_store = (answer, receipt, bud')
         \<and> so_budget (handleSend group_tools (parseChatPolicy []) (group_world (Inl ErrNotInGroup)) (Some group_request) fresh_store busy_outbox)
             = releaseSend (hw_gate (group_world (Inl ErrNotInGroup))) receipt bud')"
proof -
  let ?h = "handleSend group_tools (parseChatPolicy []) (group_world (Inl ErrNotInGroup)) (Some group_request) fresh_store busy_outbox"
  have "map_option (could_have_left (hw_send (group_world (Inl ErrNotInGroup)))) (so_trace ?h) = Some False" by code_simp
  then obtain tr where tr: "so_trace ?h = Some tr" "\<not> could_have_left (hw_send (group_world (Inl ErrNotInGroup))) tr" by auto
  from charge_kept_if_it_may_have_left [OF tr(1)] tr show ?thesis by auto
qed

definition group_job :: send_job where "group_job = job_of group_request ''12@g.us'' []"

theorem sent_text_is_archived_witness:
  "\<exists>r. messages (ob_archive (tr_db (sendWhatsAppMessageWithNetwork group_tools group_job (group_send (Inr group_answer)) busy_outbox))) = [r]
     \<and> m_content r = Some ''hi'' \<and> m_own r"
proof -
  let ?tr = "sendWhatsAppMessageWithNetwork group_tools group_job (group_send (Inr group_answer)) busy_outbox"
  have st: "tr_status ?tr = Message_sent True" by code_simp
  have own: "sw_own (group_send (Inr group_answer)) = Some (NewJID ''5511'' DefaultUserServer)" by (simp add: group_send_def)
  have wire: "tr_wire ?tr = Some (NewJID ''12'' ''g.us'', Conversation ''hi'')" by code_simp
  have job: "sj_message group_job \<noteq> [] \<or> sj_mediaPath group_job \<noteq> []" by (simp add: group_job_def job_of_def group_request_def)
  have empty: "messages (ob_archive busy_outbox) = []" "pending (ob_archive busy_outbox) = []" by (simp_all add: busy_outbox_def)
  have scan: "\<And>u. mset (at_scan (tl_archive group_tools) u) = mset u" by (simp add: group_tools_def)
  show ?thesis
    using sent_text_is_archived [OF refl st own wire job _ _ scan] by (auto simp: empty row_of_def)
qed

end
