(* ===== verification/Group_Members.thy ===== *)
theory Group_Members
  imports Recipients Chat_Rows "HOL-Library.List_Lexorder" "HOL-Library.Product_Lexorder" "HOL-Library.Char_ord"
begin

text \<open>
  Who is in which group (\<^verbatim>\<open>group_members.go\<close>, \<^verbatim>\<open>group_members_store.go\<close>): the participants of a group as the
  endpoint shows them, the rows they are cached as, and the four writes of the \<^verbatim>\<open>group_members\<close> table. A roster
  replaces what it does not list, joins add, departures remove by any address form, a message notes a sender nobody
  has listed. Stamps are whole seconds; the clock of the host and the clock of WhatsApp are separate arguments.
\<close>

section \<open>Participants\<close>

record groupMember =
  gm_JID :: string
  gm_PhoneNumber :: string
  gm_LID :: string
  gm_Name :: string
  gm_IsAdmin :: bool
  gm_IsSuperAdmin :: bool

text \<open>A participant and a group as the SDK reports them.\<close>

record participant =
  pt_JID :: jid
  pt_PhoneNumber :: jid
  pt_LID :: jid
  pt_DisplayName :: string
  pt_IsAdmin :: bool
  pt_IsSuperAdmin :: bool

record group_info =
  gi_JID :: jid
  gi_Name :: string
  gi_Topic :: string
  gi_Owner :: jid
  gi_Participants :: "participant list"
  gi_IsAnnounce :: bool
  gi_IsLocked :: bool
  gi_IsJoinApprovalRequired :: bool

record groupOwner =
  go_JID :: string
  go_PhoneNumber :: string
  go_LID :: string
  go_Name :: string

record groupMembersResponse =
  gs_GroupJID :: string
  gs_Name :: string
  gs_Topic :: string
  gs_OwnerJID :: string
  gs_Owner :: "groupOwner option"
  gs_Participant :: nat
  gs_Members :: "groupMember list"

text \<open>\<open>nameOf\<close> and \<open>altOf\<close> are absent for a background refresh.\<close>

definition build_member :: "jid_sdk \<Rightarrow> (jid \<Rightarrow> string) option \<Rightarrow> participant \<Rightarrow> groupMember" where
  "build_member sdk nameOf p =
     (let phone = (if IsEmpty sdk (pt_PhoneNumber p) \<and> Server (pt_JID p) = DefaultUserServer then pt_JID p else pt_PhoneNumber p);
          lid = (if IsEmpty sdk (pt_LID p) \<and> Server (pt_JID p) = HiddenUserServer then pt_JID p else pt_LID p);
          display = TrimSpace (pt_DisplayName p)
      in \<lparr>gm_JID = JIDString sdk (ToNonAD sdk (pt_JID p)),
          gm_PhoneNumber = (if IsEmpty sdk phone then [] else User (ToNonAD sdk phone)),
          gm_LID = (if IsEmpty sdk lid then [] else JIDString sdk (ToNonAD sdk lid)),
          gm_Name = (if display = [] \<and> \<not> IsEmpty sdk phone then (case nameOf of None \<Rightarrow> [] | Some f \<Rightarrow> f (ToNonAD sdk phone)) else display),
          gm_IsAdmin = (pt_IsAdmin p \<or> pt_IsSuperAdmin p), gm_IsSuperAdmin = pt_IsSuperAdmin p\<rparr>)"

text \<open>What the roster knows about the owner's addresses held so far: the first member that shares one.\<close>

definition owner_matches :: "groupOwner \<Rightarrow> groupMember \<Rightarrow> bool" where
  "owner_matches out m \<longleftrightarrow> (go_LID out \<noteq> [] \<and> gm_LID m = go_LID out) \<or> (go_PhoneNumber out \<noteq> [] \<and> gm_PhoneNumber m = go_PhoneNumber out)"

definition fromRoster :: "groupMember list \<Rightarrow> groupOwner \<Rightarrow> groupOwner" where
  "fromRoster members out =
     (case List.find (owner_matches out) members of
        None \<Rightarrow> out
      | Some m \<Rightarrow> out\<lparr>go_LID := (if go_LID out = [] then gm_LID m else go_LID out),
                     go_PhoneNumber := (if go_PhoneNumber out = [] then gm_PhoneNumber m else go_PhoneNumber out),
                     go_Name := (if go_Name out = [] then gm_Name m else go_Name out)\<rparr>)"

definition owner_alt :: "jid_sdk \<Rightarrow> jid \<Rightarrow> groupOwner \<Rightarrow> groupOwner" where
  "owner_alt sdk alt0 out =
     (let alt = ToNonAD sdk alt0
      in if Server alt = DefaultUserServer then (if go_PhoneNumber out = [] then out\<lparr>go_PhoneNumber := User alt\<rparr> else out)
         else if Server alt = HiddenUserServer then (if go_LID out = [] then out\<lparr>go_LID := JIDString sdk alt\<rparr> else out)
         else out)"

definition buildGroupOwner :: "jid_sdk \<Rightarrow> jid \<Rightarrow> groupMember list \<Rightarrow> (jid \<Rightarrow> string) option \<Rightarrow> (jid \<Rightarrow> jid) option \<Rightarrow> groupOwner option" where
  "buildGroupOwner sdk owner0 members nameOf altOf =
     (let owner = ToNonAD sdk owner0; none = \<lparr>go_JID = [], go_PhoneNumber = [], go_LID = [], go_Name = []\<rparr>
      in if IsEmpty sdk owner then None
         else if Server owner \<noteq> HiddenUserServer \<and> Server owner \<noteq> DefaultUserServer then Some (none\<lparr>go_JID := JIDString sdk owner\<rparr>)
         else
           let out0 = (if Server owner = HiddenUserServer then none\<lparr>go_LID := JIDString sdk owner\<rparr> else none\<lparr>go_PhoneNumber := User owner\<rparr>);
               out1 = fromRoster members out0;
               out2 = (case altOf of
                         None \<Rightarrow> out1
                       | Some f \<Rightarrow> if go_PhoneNumber out1 = [] \<or> go_LID out1 = [] then fromRoster members (owner_alt sdk (f owner) out1) else out1)
           in if go_PhoneNumber out2 \<noteq> []
              then let phone = NewJID (go_PhoneNumber out2) DefaultUserServer
                   in Some (out2\<lparr>go_JID := JIDString sdk phone,
                                go_Name := (if go_Name out2 = [] then (case nameOf of None \<Rightarrow> [] | Some f \<Rightarrow> f phone) else go_Name out2)\<rparr>)
              else Some (out2\<lparr>go_JID := go_LID out2\<rparr>))"

definition buildGroupMembers :: "jid_sdk \<Rightarrow> group_info \<Rightarrow> (jid \<Rightarrow> string) option \<Rightarrow> (jid \<Rightarrow> jid) option \<Rightarrow> groupMembersResponse" where
  "buildGroupMembers sdk info nameOf altOf =
     (let members = map (build_member sdk nameOf) (gi_Participants info);
          owner = buildGroupOwner sdk (gi_Owner info) members nameOf altOf
      in \<lparr>gs_GroupJID = JIDString sdk (gi_JID info), gs_Name = gi_Name info, gs_Topic = gi_Topic info,
          gs_OwnerJID = (case owner of None \<Rightarrow> [] | Some g \<Rightarrow> go_JID g), gs_Owner = owner,
          gs_Participant = length members, gs_Members = members\<rparr>)"

definition storeAltJID :: "jid_sdk \<Rightarrow> (jid \<Rightarrow> alt_result) \<Rightarrow> jid \<Rightarrow> jid" where
  "storeAltJID sdk alt j = (case alt j of AltJID a \<Rightarrow> a | _ \<Rightarrow> EmptyJID)"

section \<open>The endpoint\<close>

datatype members_answer = Members_error nat | Members_of groupMembersResponse int

definition GroupServer :: string where "GroupServer = ''g.us''"

text \<open>\<open>raw\<close> is the group named by the query or the body; \<open>fetch\<close> the SDK's answer. The second component is what is
  handed to the roster cache: the group, its members, and the time read before the question.\<close>

definition handleGroupMembers :: "jid_sdk \<Rightarrow> chatPolicy \<Rightarrow> (jid \<Rightarrow> string) option \<Rightarrow> (jid \<Rightarrow> jid) option \<Rightarrow> (jid \<Rightarrow> group_info option)
    \<Rightarrow> instant \<Rightarrow> string \<Rightarrow> members_answer \<times> (string \<times> groupMember list \<times> instant) option" where
  "handleGroupMembers sdk policy nameOf altOf fetch asked raw0 =
     (let raw = TrimSpace raw0
      in if raw = [] then (Members_error 400, None)
         else case authorizeChat sdk policy raw False of
                Inl status \<Rightarrow> (Members_error status, None)
              | Inr j \<Rightarrow>
                  if Server j \<noteq> GroupServer then (Members_error 400, None)
                  else case fetch j of
                         None \<Rightarrow> (Members_error 502, None)
                       | Some info \<Rightarrow>
                           let resp = buildGroupMembers sdk info nameOf altOf
                           in (Members_of resp (dbTime asked), Some (JIDString sdk (ToNonAD sdk j), gs_Members resp, asked)))"

section \<open>Rows\<close>

record groupMemberRow =
  mw_User :: string
  mw_Phone :: string
  mw_LID :: string
  mw_Name :: string
  mw_IsAdmin :: bool
  mw_IsSuperAdmin :: bool

definition bareUser :: "string \<Rightarrow> string" where
  "bareUser j = before_first CHR ''@'' (TrimSpace j)"

definition newGroupMemberRow :: "string \<Rightarrow> string \<Rightarrow> string \<Rightarrow> groupMemberRow option" where
  "newGroupMemberRow j pn hidden =
     (let user = (if bareUser pn \<noteq> [] then bareUser pn else if bareUser hidden \<noteq> [] then bareUser hidden else bareUser j)
      in if user = [] then None
         else Some \<lparr>mw_User = user, mw_Phone = bareUser pn, mw_LID = bareUser hidden, mw_Name = [], mw_IsAdmin = False, mw_IsSuperAdmin = False\<rparr>)"

definition groupMemberRows :: "groupMember list \<Rightarrow> groupMemberRow list" where
  "groupMemberRows = List.map_filter (\<lambda>m. map_option
     (\<lambda>row. row\<lparr>mw_Name := TrimSpace (gm_Name m), mw_IsAdmin := gm_IsAdmin m, mw_IsSuperAdmin := gm_IsSuperAdmin m\<rparr>)
     (newGroupMemberRow (gm_JID m) (gm_PhoneNumber m) (gm_LID m)))"

datatype member_source = Source_roster | Source_event | Source_message

record member_row =
  mb_group :: string
  mb_user :: string
  mb_lid :: "string option"
  mb_phone :: "string option"
  mb_name :: "string option"
  mb_admin :: bool
  mb_super :: bool
  mb_first :: "int option"
  mb_last :: "int option"
  mb_source :: "member_source option"

definition member_key :: "member_row \<Rightarrow> string \<times> string" where
  "member_key r = (mb_group r, mb_user r)"

definition member_values :: "string \<Rightarrow> groupMemberRow \<Rightarrow> member_source \<Rightarrow> int \<Rightarrow> member_row" where
  "member_values grp row source stamp =
     \<lparr>mb_group = grp, mb_user = mw_User row, mb_lid = Some (mw_LID row), mb_phone = Some (mw_Phone row), mb_name = Some (mw_Name row),
      mb_admin = mw_IsAdmin row, mb_super = mw_IsSuperAdmin row, mb_first = Some stamp, mb_last = Some stamp, mb_source = Some source\<rparr>"

text \<open>The two \<^verbatim>\<open>ON CONFLICT\<close> clauses: a roster also settles the admin flags and the source, a join leaves them.\<close>

definition merge_joined :: "member_row \<Rightarrow> member_row \<Rightarrow> member_row" where
  "merge_joined old new =
     old\<lparr>mb_lid := coalesce (nullif_empty (mb_lid new)) (mb_lid old), mb_phone := coalesce (nullif_empty (mb_phone new)) (mb_phone old),
         mb_name := coalesce (nullif_empty (mb_name new)) (mb_name old), mb_last := mb_last new\<rparr>"

definition merge_roster :: "member_row \<Rightarrow> member_row \<Rightarrow> member_row" where
  "merge_roster old new =
     (merge_joined old new)\<lparr>mb_admin := mb_admin new, mb_super := mb_super new, mb_source := mb_source new\<rparr>"

interpretation roster_rows: keyed_table member_key merge_roster
  by unfold_locales (simp add: member_key_def merge_roster_def merge_joined_def)

interpretation joined_rows: keyed_table member_key merge_joined
  by unfold_locales (simp add: member_key_def merge_joined_def)

definition upsertGroupMember :: "string \<Rightarrow> int \<Rightarrow> groupMemberRow \<Rightarrow> member_row list \<Rightarrow> member_row list" where
  "upsertGroupMember grp stamp row = upsert member_key merge_roster (member_values grp row Source_roster stamp)"

definition addGroupMember :: "string \<Rightarrow> int \<Rightarrow> groupMemberRow \<Rightarrow> member_row list \<Rightarrow> member_row list" where
  "addGroupMember grp stamp row = upsert member_key merge_joined (member_values grp row Source_event stamp)"

definition seen_before :: "int \<Rightarrow> member_row \<Rightarrow> bool" where
  "seen_before stamp r \<longleftrightarrow> (case mb_last r of None \<Rightarrow> True | Some l \<Rightarrow> l < stamp)"

text \<open>The transaction of a roster: \<open>failed\<close> is an error of any of its statements.\<close>

definition ReplaceGroupRoster :: "bool \<Rightarrow> string \<Rightarrow> groupMemberRow list \<Rightarrow> instant \<Rightarrow> member_row list \<Rightarrow> (unit + nat) \<times> member_row list" where
  "ReplaceGroupRoster failed grp rows now t =
     (if grp = [] \<or> rows = [] then (Inr 0, t)
      else if failed then (Inl (), t)
      else (Inr (length rows), filter (\<lambda>r. \<not> (mb_group r = grp \<and> seen_before (dbTime now) r)) (fold (upsertGroupMember grp (dbTime now)) rows t)))"

text \<open>The other writes go row by row; after an error the rows written so far stay (\<open>done_rows\<close>).\<close>

definition done_rows :: "nat option \<Rightarrow> 'a list \<Rightarrow> 'a list" where
  "done_rows failed_at rows = (case failed_at of None \<Rightarrow> rows | Some n \<Rightarrow> take n rows)"

definition AddGroupMembers :: "nat option \<Rightarrow> string \<Rightarrow> groupMemberRow list \<Rightarrow> instant \<Rightarrow> member_row list \<Rightarrow> member_row list" where
  "AddGroupMembers failed_at grp rows now t =
     (if grp = [] then t else fold (addGroupMember grp (dbTime now)) (done_rows failed_at rows) t)"

definition DropGroupRoster :: "string \<Rightarrow> member_row list \<Rightarrow> member_row list" where
  "DropGroupRoster grp t = (if grp = [] then t else filter (\<lambda>r. mb_group r \<noteq> grp) t)"

definition memberMatch :: "groupMemberRow \<Rightarrow> member_row \<Rightarrow> bool" where
  "memberMatch row r \<longleftrightarrow> mb_user r = mw_User row
     \<or> (mb_phone r \<noteq> Some [] \<and> mb_phone r = Some (mw_Phone row)) \<or> (mb_lid r \<noteq> Some [] \<and> mb_lid r = Some (mw_LID row))"

definition groupLeaveClockSkew :: duration where "groupLeaveClockSkew = 5 * minute"

definition RemoveGroupMembers :: "nat option \<Rightarrow> string \<Rightarrow> groupMemberRow list \<Rightarrow> instant \<Rightarrow> member_row list \<Rightarrow> member_row list" where
  "RemoveGroupMembers failed_at grp rows leftAt t =
     (if grp = [] then t
      else fold (\<lambda>row. filter (\<lambda>r. \<not> (mb_group r = grp \<and> memberMatch row r
               \<and> (case mb_last r of None \<Rightarrow> True | Some l \<Rightarrow> l \<le> dbTime (leftAt + groupLeaveClockSkew)))))
             (filter (\<lambda>row. mw_User row \<noteq> []) (done_rows failed_at rows)) t)"

definition SetGroupMemberAdmin :: "nat option \<Rightarrow> string \<Rightarrow> groupMemberRow list \<Rightarrow> bool \<Rightarrow> member_row list \<Rightarrow> member_row list" where
  "SetGroupMemberAdmin failed_at grp rows isAdmin t =
     (if grp = [] then t
      else fold (\<lambda>row. map (\<lambda>r. if mb_group r = grp \<and> memberMatch row r
               then r\<lparr>mb_admin := isAdmin, mb_super := (if isAdmin then mb_super r else False)\<rparr> else r))
             (filter (\<lambda>row. mw_User row \<noteq> []) (done_rows failed_at rows)) t)"

definition NoteGroupParticipant :: "string \<Rightarrow> groupMemberRow \<Rightarrow> instant \<Rightarrow> member_row list \<Rightarrow> member_row list" where
  "NoteGroupParticipant grp row now t =
     (if grp = [] \<or> mw_User row = [] \<or> list_ex (\<lambda>r. mb_group r = grp \<and> memberMatch row r) t then t
      else t @ [(member_values grp row Source_message (dbTime now))\<lparr>mb_name := Some [], mb_admin := False, mb_super := False\<rparr>])"

section \<open>Stale rosters\<close>

definition refreshed :: "member_row list \<Rightarrow> string \<Rightarrow> int option" where
  "refreshed t grp = foldl (\<lambda>m r. later m (mb_last r)) None (filter (\<lambda>r. mb_group r = grp \<and> mb_source r = Some Source_roster) t)"

definition activity_order :: "chat_row \<Rightarrow> bool \<times> int \<times> string" where
  "activity_order c = (c_last c = None, (case c_last c of None \<Rightarrow> 0 | Some l \<Rightarrow> - l), c_jid c)"

definition StaleGroupRosters :: "chat_row list \<Rightarrow> member_row list \<Rightarrow> instant \<Rightarrow> string list" where
  "StaleGroupRosters chats t cutoff =
     map c_jid (sort_key activity_order (filter (\<lambda>c. has_suffix (ToLower (c_jid c)) ''@g.us''
       \<and> (case refreshed t (c_jid c) of None \<Rightarrow> True | Some l \<Rightarrow> l < dbTime cutoff)) chats))"

section \<open>Lemmas\<close>

lemma key_values [simp]: "member_key (member_values g row src st) = (g, mw_User row)"
  by (simp add: member_key_def member_values_def)

lemma row_of_filter:
  assumes "keyed key t"
  shows "row_of key k (filter P t) = (case row_of key k t of None \<Rightarrow> None | Some r \<Rightarrow> if P r then Some r else None)"
proof (cases "row_of key k t")
  case None
  then have "k \<notin> key ` set (filter P t)" by (auto simp: row_of_None)
  then have "row_of key k (filter P t) = None" by (simp only: row_of_None not_False_eq_True)
  with None show ?thesis by simp
next
  case (Some r)
  then have r: "r \<in> set t" "key r = k" by (auto dest: row_of_Some_in)
  have "row_of key k (filter P t) = (if P r then Some r else None)"
  proof (cases "P r")
    case True
    then show ?thesis using r row_of_eq_Some [OF keyed_filter [OF assms], of k P r] by simp
  next
    case False
    then have "k \<notin> key ` set (filter P t)" using r keyed_inj [OF assms] by auto
    then show ?thesis using False by (simp add: row_of_None)
  qed
  with Some show ?thesis by simp
qed

lemma roster_fold_keyed: "keyed member_key t \<Longrightarrow> keyed member_key (fold (upsertGroupMember g st) rows t)"
  by (induction rows arbitrary: t) (simp_all add: upsertGroupMember_def roster_rows.upsert_keyed)

lemma roster_fold_other:
  "g' \<noteq> g \<or> u \<notin> mw_User ` set rows \<Longrightarrow> row_of member_key (g', u) (fold (upsertGroupMember g st) rows t) = row_of member_key (g', u) t"
  by (induction rows arbitrary: t) (auto simp: upsertGroupMember_def roster_rows.row_of_upsert_other)

lemma roster_fold_row:
  assumes "keyed member_key t" "u \<in> mw_User ` set rows"
  shows "\<exists>r row. row_of member_key (g, u) (fold (upsertGroupMember g st) rows t) = Some r \<and> row \<in> set rows \<and> mw_User row = u
    \<and> mb_admin r = mw_IsAdmin row \<and> mb_super r = mw_IsSuperAdmin row \<and> mb_last r = Some st \<and> mb_source r = Some Source_roster
    \<and> mb_first r = (case row_of member_key (g, u) t of None \<Rightarrow> Some st | Some old \<Rightarrow> mb_first old)"
  using assms(2)
proof (induction rows rule: rev_induct)
  case (snoc x rows)
  let ?T = "fold (upsertGroupMember g st) rows t"
  have keyed: "keyed member_key ?T" by (rule roster_fold_keyed [OF assms(1)])
  show ?case
  proof (cases "mw_User x = u")
    case True
    define r where "r = (case row_of member_key (g, u) ?T of None \<Rightarrow> member_values g x Source_roster st
       | Some old \<Rightarrow> merge_roster old (member_values g x Source_roster st))"
    have "row_of member_key (g, u) (upsertGroupMember g st x ?T) = Some r"
      using roster_rows.row_of_upsert_same [OF keyed, of "member_values g x Source_roster st"] True
      by (simp add: upsertGroupMember_def r_def)
    moreover have "mb_admin r = mw_IsAdmin x \<and> mb_super r = mw_IsSuperAdmin x \<and> mb_last r = Some st \<and> mb_source r = Some Source_roster"
      by (simp add: r_def merge_roster_def merge_joined_def member_values_def split: option.split)
    moreover have "mb_first r = (case row_of member_key (g, u) t of None \<Rightarrow> Some st | Some old \<Rightarrow> mb_first old)"
    proof (cases "u \<in> mw_User ` set rows")
      case True
      then show ?thesis using snoc.IH by (auto simp: r_def merge_roster_def merge_joined_def)
    next
      case False
      then show ?thesis
        by (simp add: r_def roster_fold_other merge_roster_def merge_joined_def member_values_def split: option.split)
    qed
    ultimately show ?thesis using True by auto
  next
    case False
    then have "row_of member_key (g, u) (upsertGroupMember g st x ?T) = row_of member_key (g, u) ?T"
      by (simp add: upsertGroupMember_def roster_rows.row_of_upsert_other)
    moreover have "u \<in> mw_User ` set rows" using snoc.prems False by auto
    ultimately show ?thesis using snoc.IH by fastforce
  qed
qed simp

section \<open>The properties of the cache\<close>

text \<open>A roster makes the group's cached members what WhatsApp just listed. After it is stored, every member it
  lists has a row that is stamped with its time and keeps when the member was first seen, with the admin flags of
  the roster; a row it does not list is gone unless it was confirmed at or after that time, so a member who joined
  while the question was under way stays; and the rows of other groups are untouched.\<close>

lemma roster_replaces_members:
  assumes "keyed member_key t" "grp \<noteq> []" "rows \<noteq> []" "ReplaceGroupRoster False grp rows now t = (out, t')"
  shows "out = Inr (length rows) \<and> keyed member_key t'
    \<and> (\<forall>u. if u \<in> mw_User ` set rows
         then \<exists>r row. row_of member_key (grp, u) t' = Some r \<and> row \<in> set rows \<and> mw_User row = u
           \<and> mb_admin r = mw_IsAdmin row \<and> mb_super r = mw_IsSuperAdmin row \<and> mb_last r = Some (dbTime now) \<and> mb_source r = Some Source_roster
           \<and> mb_first r = (case row_of member_key (grp, u) t of None \<Rightarrow> Some (dbTime now) | Some old \<Rightarrow> mb_first old)
         else row_of member_key (grp, u) t' = (case row_of member_key (grp, u) t of
             None \<Rightarrow> None | Some old \<Rightarrow> if seen_before (dbTime now) old then None else Some old))
    \<and> (\<forall>g u. g \<noteq> grp \<longrightarrow> row_of member_key (g, u) t' = row_of member_key (g, u) t)"
proof -
  let ?T = "fold (upsertGroupMember grp (dbTime now)) rows t"
  let ?P = "\<lambda>r. \<not> (mb_group r = grp \<and> seen_before (dbTime now) r)"
  have t': "t' = filter ?P ?T" "out = Inr (length rows)" using assms(2-4) by (auto simp: ReplaceGroupRoster_def)
  have keyed: "keyed member_key ?T" by (rule roster_fold_keyed [OF assms(1)])
  have in_group: "mb_group r = g" if "row_of member_key (g, u) T = Some r" for g u T r
    using row_of_Some_in [OF that] by (simp add: member_key_def)
  have listed: "\<exists>r row. row_of member_key (grp, u) t' = Some r \<and> row \<in> set rows \<and> mw_User row = u
           \<and> mb_admin r = mw_IsAdmin row \<and> mb_super r = mw_IsSuperAdmin row \<and> mb_last r = Some (dbTime now) \<and> mb_source r = Some Source_roster
           \<and> mb_first r = (case row_of member_key (grp, u) t of None \<Rightarrow> Some (dbTime now) | Some old \<Rightarrow> mb_first old)"
    if "u \<in> mw_User ` set rows" for u
    using roster_fold_row [OF assms(1) that, of grp "dbTime now"]
    by (auto simp: t'(1) row_of_filter [OF keyed] seen_before_def)
  have unlisted: "row_of member_key (grp, u) t' = (case row_of member_key (grp, u) t of
             None \<Rightarrow> None | Some old \<Rightarrow> if seen_before (dbTime now) old then None else Some old)"
    if "u \<notin> mw_User ` set rows" for u
    using that in_group [of grp u t] by (auto simp: t'(1) row_of_filter [OF keyed] roster_fold_other split: option.split)
  have other: "row_of member_key (g, u) t' = row_of member_key (g, u) t" if "g \<noteq> grp" for g u
    using that in_group [of g u t] by (auto simp: t'(1) row_of_filter [OF keyed] roster_fold_other split: option.split)
  show ?thesis using t'(2) keyed_filter [OF keyed, of ?P] listed unlisted other by (simp add: t'(1))
qed

lemma fold_filter_set: "r \<in> set (fold (\<lambda>x. filter (P x)) qs t) \<longleftrightarrow> r \<in> set t \<and> (\<forall>x \<in> set qs. P x r)"
  by (induction qs arbitrary: t) auto

text \<open>A departure takes away the rows of the member under any address form it is known by, and spares a row that
  was confirmed more than the clock grace after it: a notification delivered again does not undo a later roster.\<close>

lemma departure_by_any_address:
  assumes "grp \<noteq> []"
  shows "r \<in> set (RemoveGroupMembers None grp rows leftAt t) \<longleftrightarrow> r \<in> set t \<and>
    (mb_group r \<noteq> grp \<or> (\<forall>row \<in> set rows. mw_User row \<noteq> [] \<longrightarrow> \<not> memberMatch row r)
      \<or> (\<exists>l. mb_last r = Some l \<and> dbTime (leftAt + groupLeaveClockSkew) < l))"
  using assms by (auto simp: RemoveGroupMembers_def done_rows_def fold_filter_set not_le split: option.splits)

lemma keyed_set_flags: "keyed member_key (SetGroupMemberAdmin f grp rows a t) = keyed member_key t"
proof -
  have "keyed member_key (fold (\<lambda>row. map (\<lambda>r. if mb_group r = grp \<and> memberMatch row r
      then r\<lparr>mb_admin := a, mb_super := (if a then mb_super r else False)\<rparr> else r)) qs t) = keyed member_key t" for qs :: "groupMemberRow list"
  proof (induction qs arbitrary: t)
    case (Cons q qs)
    have "keyed member_key (map (\<lambda>r. if mb_group r = grp \<and> memberMatch q r
      then r\<lparr>mb_admin := a, mb_super := (if a then mb_super r else False)\<rparr> else r) t) = keyed member_key t"
      by (rule keyed_map_same_key) (simp add: member_key_def)
    then show ?case using Cons.IH by simp
  qed simp
  then show ?thesis by (simp add: SetGroupMemberAdmin_def)
qed

lemma keyed_joined: "keyed member_key t \<Longrightarrow> keyed member_key (AddGroupMembers f grp rows now t)"
proof -
  have "keyed member_key t \<Longrightarrow> keyed member_key (fold (addGroupMember grp st) qs t)" for st qs
    by (induction qs arbitrary: t) (simp_all add: addGroupMember_def joined_rows.upsert_keyed)
  then show "keyed member_key t \<Longrightarrow> ?thesis" by (simp add: AddGroupMembers_def)
qed

lemma keyed_removed: "keyed member_key t \<Longrightarrow> keyed member_key (RemoveGroupMembers f grp rows at_time t)"
proof -
  have "keyed member_key t \<Longrightarrow> keyed member_key (fold (\<lambda>row. filter (P row)) qs t)" for P and qs :: "groupMemberRow list"
    by (induction qs arbitrary: t) (simp_all add: keyed_filter)
  then show "keyed member_key t \<Longrightarrow> ?thesis" by (simp add: RemoveGroupMembers_def)
qed

lemma keyed_noted: "keyed member_key t \<Longrightarrow> keyed member_key (NoteGroupParticipant grp row now t)"
  by (auto simp: NoteGroupParticipant_def keyed_append_row member_key_def member_values_def list_ex_iff memberMatch_def)

text \<open>No write of the table but these; none makes two rows of one member of one group.\<close>

lemmas keyed_writes = roster_fold_keyed keyed_set_flags keyed_joined keyed_removed keyed_noted keyed_filter

definition sample_members :: "member_row list" where
  "sample_members = [(member_values ''1@g.us'' \<lparr>mw_User = ''55'', mw_Phone = ''55'', mw_LID = [], mw_Name = [], mw_IsAdmin = True, mw_IsSuperAdmin = False\<rparr> Source_roster 1),
     (member_values ''1@g.us'' \<lparr>mw_User = ''66'', mw_Phone = ''66'', mw_LID = [], mw_Name = [], mw_IsAdmin = False, mw_IsSuperAdmin = False\<rparr> Source_event 9)]"

definition sample_roster :: "groupMemberRow list" where
  "sample_roster = [\<lparr>mw_User = ''77'', mw_Phone = ''77'', mw_LID = [], mw_Name = [], mw_IsAdmin = False, mw_IsSuperAdmin = False\<rparr>]"

theorem roster_replaces_members_witness:
  "map mb_user (snd (ReplaceGroupRoster False ''1@g.us'' sample_roster (5 * second) sample_members)) = [''66'', ''77'']
   \<and> row_of member_key (''1@g.us'', ''55'') (snd (ReplaceGroupRoster False ''1@g.us'' sample_roster (5 * second) sample_members)) = None"
proof -
  have "keyed member_key sample_members" "sample_roster \<noteq> []" by (code_simp, simp add: sample_roster_def)
  moreover have "row_of member_key (''1@g.us'', ''55'') sample_members = Some (hd sample_members)" by code_simp
  moreover have "seen_before (dbTime (5 * second)) (hd sample_members)" "''55'' \<notin> mw_User ` set sample_roster" by (code_simp, simp add: sample_roster_def)
  ultimately have "row_of member_key (''1@g.us'', ''55'') (snd (ReplaceGroupRoster False ''1@g.us'' sample_roster (5 * second) sample_members)) = None"
    using roster_replaces_members [of sample_members "''1@g.us''" sample_roster "5 * second",
        OF _ _ _ prod.collapse [symmetric]] by (simp split: if_splits)
  moreover have "map mb_user (snd (ReplaceGroupRoster False ''1@g.us'' sample_roster (5 * second) sample_members)) = [''66'', ''77'']" by code_simp
  ultimately show ?thesis by simp
qed

end
