(* ===== verification/Group_Sync.thy ===== *)
theory Group_Sync
  imports Group_Members Work_Queues
begin

text \<open>
  The feeds of the group member table (\<^verbatim>\<open>group_events.go\<close>): participant changes WhatsApp reports, senders of group
  messages, the paced refresh of stale rosters with its backoff, and the settings of a group. The backoff is kept
  per group, with the time the account was last seen back in it. Every reading of the host's clock is an argument,
  as are the SDK's answers, the connection at each turn of the pass and the failures of the database. Log lines are
  left out; a failed write is only logged by the source.
\<close>

section \<open>Backoff\<close>

definition groupRosterSyncEnv :: string where "groupRosterSyncEnv = ''WHATSAPP_GROUP_ROSTER_SYNC_HOURS''"
definition groupRosterSyncInterval :: duration where "groupRosterSyncInterval = 6 * hour"
definition groupRosterSyncRetryDelay :: duration where "groupRosterSyncRetryDelay = 5 * minute"
definition groupRosterSyncStartDelay :: duration where "groupRosterSyncStartDelay = 2 * minute"
definition groupRosterSyncBatch :: nat where "groupRosterSyncBatch = 200"
definition groupRosterRetryAfter :: duration where "groupRosterRetryAfter = 6 * hour"
definition groupRosterGoneRetryAfter :: duration where "groupRosterGoneRetryAfter = 7 * 24 * hour"

definition resolveGroupRosterSync :: "string \<Rightarrow> env_error + duration" where
  "resolveGroupRosterSync value = resolveHoursEnv groupRosterSyncEnv value groupRosterSyncInterval 0"

record rosterWait =
  rw_since :: instant
  rw_until :: instant

record roster_state =
  gx_members :: "member_row list"
  gx_waits :: "string \<rightharpoonup> rosterWait"
  gx_back :: "string \<rightharpoonup> instant"

definition recent :: "string \<Rightarrow> instant \<Rightarrow> roster_state \<Rightarrow> bool \<times> roster_state" where
  "recent j now s =
     (case gx_waits s j of
        None \<Rightarrow> (False, s)
      | Some w \<Rightarrow> if \<not> now < rw_until w then (False, s\<lparr>gx_waits := (gx_waits s)(j := None)\<rparr>) else (True, s))"

definition roster_wait :: "string \<Rightarrow> instant \<Rightarrow> instant \<Rightarrow> roster_state \<Rightarrow> roster_state" where
  "roster_wait j since until s = s\<lparr>gx_waits := (gx_waits s)(j \<mapsto> \<lparr>rw_since = since, rw_until = until\<rparr>)\<rparr>"

definition note_roster :: "string \<Rightarrow> instant \<Rightarrow> roster_state \<Rightarrow> roster_state" where
  "note_roster j now = roster_wait j now (now + groupRosterRetryAfter)"

text \<open>\<^verbatim>\<open>noteGone\<close> holds the mutex twice: it looks at \<^verbatim>\<open>back\<close> and clears it, lets go, and then sets the wait.\<close>

definition gone_check :: "string \<Rightarrow> instant \<Rightarrow> roster_state \<Rightarrow> bool \<times> roster_state" where
  "gone_check j asked s =
     (case gx_back s j of
        Some back \<Rightarrow> if \<not> back < asked then (False, s) else (True, s\<lparr>gx_back := (gx_back s)(j := None)\<rparr>)
      | None \<Rightarrow> (True, s))"

definition gone_wait :: "string \<Rightarrow> instant \<Rightarrow> roster_state \<Rightarrow> roster_state" where
  "gone_wait j now = roster_wait j now (now + groupRosterGoneRetryAfter)"

definition noteGone :: "string \<Rightarrow> instant \<Rightarrow> instant \<Rightarrow> roster_state \<Rightarrow> roster_state" where
  "noteGone j asked now s = (case gone_check j asked s of (go, s1) \<Rightarrow> if go then gone_wait j now s1 else s1)"

definition forget_roster :: "string \<Rightarrow> instant \<Rightarrow> roster_state \<Rightarrow> roster_state" where
  "forget_roster j now s = s\<lparr>gx_waits := (gx_waits s)(j := None), gx_back := (gx_back s)(j \<mapsto> now)\<rparr>"

definition forgetIfAfter :: "string \<Rightarrow> instant \<Rightarrow> instant \<Rightarrow> roster_state \<Rightarrow> roster_state" where
  "forgetIfAfter j seen now s =
     (case gx_waits s j of None \<Rightarrow> s | Some w \<Rightarrow> if rw_since w < seen then forget_roster j now s else s)"

section \<open>Participant changes\<close>

text \<open>The client: the LID map and this account's own two addresses (\<open>None\<close> without a paired client).\<close>

record group_client =
  cl_sdk :: jid_sdk
  cl_alt :: "jid \<Rightarrow> alt_result"
  cl_self :: "(jid option \<times> jid) option"

definition groupMemberRowFromJID :: "group_client \<Rightarrow> jid \<Rightarrow> groupMemberRow option" where
  "groupMemberRowFromJID c j0 =
     (let j = ToNonAD (cl_sdk c) j0; resolved = resolveUserJID (cl_sdk c) (cl_alt c) j EmptyJID;
          form = (\<lambda>server. if Server resolved = server then User resolved else if Server j = server then User j else [])
      in newGroupMemberRow (User resolved) (form DefaultUserServer) (form HiddenUserServer))"

definition groupMemberEventRows :: "group_client \<Rightarrow> jid list \<Rightarrow> groupMemberRow list" where
  "groupMemberEventRows c = List.map_filter (groupMemberRowFromJID c)"

definition self_users :: "group_client \<Rightarrow> string list" where
  "self_users c =
     (case cl_self c of
        None \<Rightarrow> []
      | Some (own, hidden) \<Rightarrow>
          (case own of None \<Rightarrow> [] | Some i \<Rightarrow> [User (ToNonAD (cl_sdk c) i)])
          @ (if IsEmpty (cl_sdk c) hidden then [] else [User (ToNonAD (cl_sdk c) hidden)]))"

definition leftGroup :: "group_client \<Rightarrow> jid list \<Rightarrow> bool" where
  "leftGroup c leaving =
     list_ex (\<lambda>j. User (ToNonAD (cl_sdk c) j) \<in> set (self_users c)
        \<or> User (resolveUserJID (cl_sdk c) (cl_alt c) j EmptyJID) \<in> set (self_users c)) leaving"

record group_event =
  ge_JID :: jid
  ge_Join :: "jid list"
  ge_Leave :: "jid list"
  ge_Promote :: "jid list"
  ge_Demote :: "jid list"
  ge_Timestamp :: "instant option"

record group_faults =
  gf_join :: "nat option"
  gf_drop :: bool
  gf_leave :: "nat option"
  gf_promote :: "nat option"
  gf_demote :: "nat option"

definition on_members :: "(member_row list \<Rightarrow> member_row list) \<Rightarrow> roster_state \<Rightarrow> roster_state" where
  "on_members f s = s\<lparr>gx_members := f (gx_members s)\<rparr>"

text \<open>\<open>seen\<close> is the clock when an own join is noticed, \<open>now\<close> the stamp of the changes.\<close>

definition applyGroupParticipantChanges ::
    "group_client \<Rightarrow> chatPolicy \<Rightarrow> group_faults \<Rightarrow> instant \<Rightarrow> instant \<Rightarrow> group_event \<Rightarrow> roster_state \<Rightarrow> roster_state" where
  "applyGroupParticipantChanges c policy f seen now v s0 =
     (let grp = JIDString (cl_sdk c) (ge_JID v);
          s1 = (if leftGroup c (ge_Join v) then forget_roster grp seen s0 else s0)
      in if \<not> cp_Allows policy grp then s1
         else
           let s2 = (if ge_Join v \<noteq> [] then on_members (AddGroupMembers (gf_join f) grp (groupMemberEventRows c (ge_Join v)) now) s1 else s1)
           in if ge_Leave v \<noteq> [] \<and> leftGroup c (ge_Leave v)
              then noteGone grp now now (if gf_drop f then s2 else on_members (DropGroupRoster grp) s2)
              else
                let leftAt = (case ge_Timestamp v of Some t \<Rightarrow> t | None \<Rightarrow> now);
                    s3 = (if ge_Leave v \<noteq> [] then on_members (RemoveGroupMembers (gf_leave f) grp (groupMemberEventRows c (ge_Leave v)) leftAt) s2 else s2);
                    s4 = (if ge_Promote v \<noteq> [] then on_members (SetGroupMemberAdmin (gf_promote f) grp (groupMemberEventRows c (ge_Promote v)) True) s3 else s3)
                in if ge_Demote v \<noteq> [] then on_members (SetGroupMemberAdmin (gf_demote f) grp (groupMemberEventRows c (ge_Demote v)) False) s4 else s4)"

definition isGroupJID :: "jid_sdk \<Rightarrow> string \<Rightarrow> bool" where
  "isGroupJID sdk chatJID = (case ParseJID sdk chatJID of None \<Rightarrow> False | Some j \<Rightarrow> Server j = GroupServer)"

text \<open>\<open>sentAt\<close> is the message's time, \<open>clk\<close> the host's clock, \<open>failed\<close> an error of the insert.\<close>

definition noteGroupSender :: "group_client \<Rightarrow> chatPolicy \<Rightarrow> bool \<Rightarrow> string \<Rightarrow> jid \<Rightarrow> instant \<Rightarrow> instant \<Rightarrow> roster_state \<Rightarrow> roster_state" where
  "noteGroupSender c policy failed chatJID sender sentAt clk s0 =
     (if \<not> isGroupJID (cl_sdk c) chatJID \<or> \<not> cp_Allows policy chatJID then s0
      else
        let s1 = (if leftGroup c [sender] then forgetIfAfter chatJID sentAt clk s0 else s0)
        in case recent chatJID sentAt s1 of
             (backed_off, s2) \<Rightarrow>
               if backed_off then s2
               else case groupMemberRowFromJID c sender of
                      None \<Rightarrow> s2
                    | Some row \<Rightarrow> if failed then s2 else on_members (NoteGroupParticipant chatJID row sentAt) s2)"

section \<open>Group settings\<close>

record group_values =
  gv_announce :: "bool option"
  gv_locked :: "bool option"
  gv_approval :: "bool option"
  gv_topic :: "string option"

text \<open>The group columns of a chat: each value with the time it was observed.\<close>

record group_columns =
  gk_jid :: string
  gk_announce :: "(bool \<times> int) option"
  gk_locked :: "(bool \<times> int) option"
  gk_approval :: "(bool \<times> int) option"
  gk_topic :: "(string \<times> int) option"

definition set_column :: "int \<Rightarrow> 'v option \<Rightarrow> ('v \<times> int) option \<Rightarrow> ('v \<times> int) option" where
  "set_column stamp new old =
     (case new of
        None \<Rightarrow> old
      | Some v \<Rightarrow> (case old of None \<Rightarrow> Some (v, stamp) | Some (_, u) \<Rightarrow> if u \<le> stamp then Some (v, stamp) else old))"

definition storeGroupSettings :: "bool \<Rightarrow> string \<Rightarrow> group_values \<Rightarrow> instant \<Rightarrow> group_columns list \<Rightarrow> group_columns list" where
  "storeGroupSettings failed grp vals seen t =
     (if failed then t
      else map (\<lambda>r. if gk_jid r = grp
             then r\<lparr>gk_announce := set_column (dbTime seen) (gv_announce vals) (gk_announce r),
                    gk_locked := set_column (dbTime seen) (gv_locked vals) (gk_locked r),
                    gk_approval := set_column (dbTime seen) (gv_approval vals) (gk_approval r),
                    gk_topic := set_column (dbTime seen) (gv_topic vals) (gk_topic r)\<rparr> else r) t)"

text \<open>The settings an event carries. A topic comes with its deletion mark.\<close>

record settings_event =
  sv_announce :: "bool option"
  sv_locked :: "bool option"
  sv_approvalChanged :: bool
  sv_topic :: "(string \<times> bool) option"

definition event_values :: "settings_event \<Rightarrow> group_values" where
  "event_values v = \<lparr>gv_announce = sv_announce v, gv_locked = sv_locked v, gv_approval = None,
     gv_topic = map_option (\<lambda>(topic, deleted). if deleted then [] else topic) (sv_topic v)\<rparr>"

definition fetched_values :: "group_info \<Rightarrow> group_values" where
  "fetched_values info = \<lparr>gv_announce = Some (gi_IsAnnounce info), gv_locked = Some (gi_IsLocked info),
     gv_approval = Some (gi_IsJoinApprovalRequired info), gv_topic = Some (gi_Topic info)\<rparr>"

section \<open>Rosters\<close>

definition resolveRosterRow :: "group_client \<Rightarrow> groupMemberRow \<Rightarrow> groupMemberRow" where
  "resolveRosterRow c row =
     (if mw_Phone row \<noteq> [] \<or> mw_LID row = [] then row
      else let pn = resolveUserJID (cl_sdk c) (cl_alt c) (NewJID (mw_LID row) HiddenUserServer) EmptyJID
           in if Server pn = DefaultUserServer then row\<lparr>mw_Phone := User pn, mw_User := User pn\<rparr> else row)"

definition storeGroupRoster :: "group_client \<Rightarrow> bool \<Rightarrow> string \<Rightarrow> groupMember list \<Rightarrow> instant \<Rightarrow> instant \<Rightarrow> roster_state \<Rightarrow> (unit + nat) \<times> roster_state" where
  "storeGroupRoster c failed grp members asked clk s =
     (case ReplaceGroupRoster failed grp (map (resolveRosterRow c) (groupMemberRows members)) asked (gx_members s) of
        (out, t) \<Rightarrow>
          let s1 = s\<lparr>gx_members := t\<rparr>
          in (out, case out of Inr n \<Rightarrow> if 0 < n then forget_roster grp clk s1 else s1 | Inl _ \<Rightarrow> s1))"

text \<open>What a fetch meets: the SDK's answer, the policy and the clock after it, and the two writes.\<close>

datatype fetch_answer = Fetch_logout | Fetch_gone | Fetch_error | Fetch_nil | Fetched group_info

record fetch_world =
  fw_asked :: instant
  fw_at :: instant
  fw_answer :: fetch_answer
  fw_policy :: chatPolicy
  fw_clk :: instant
  fw_settingsFailed :: bool
  fw_rosterFailed :: bool

datatype fetch_error = Err_gone | Err_other

definition storeFetchedGroupInfo ::
    "group_client \<Rightarrow> fetch_world \<Rightarrow> string \<Rightarrow> group_info \<Rightarrow> groupMember list option \<Rightarrow> group_columns list \<times> roster_state
     \<Rightarrow> (unit + nat) \<times> group_columns list \<times> roster_state" where
  "storeFetchedGroupInfo c w grp info resolved st =
     (case st of (cols, s) \<Rightarrow>
        if \<not> cp_Allows (fw_policy w) grp then (Inr 0, cols, s)
        else
          let cols1 = storeGroupSettings (fw_settingsFailed w) grp (fetched_values info) (fw_clk w) cols;
              members = (case resolved of Some ms \<Rightarrow> ms | None \<Rightarrow> gs_Members (buildGroupMembers (cl_sdk c) info None None));
              (out, s1) = storeGroupRoster c (fw_rosterFailed w) grp members (fw_at w) (fw_clk w) s
          in (out, cols1, s1))"

definition fetchGroupRoster :: "group_client \<Rightarrow> fetch_world \<Rightarrow> string \<Rightarrow> group_columns list \<times> roster_state \<Rightarrow> (fetch_error + nat) \<times> group_columns list \<times> roster_state" where
  "fetchGroupRoster c w j st =
     (case fw_answer w of
        Fetch_gone \<Rightarrow> (Inl Err_gone, st)
      | Fetched info \<Rightarrow> (case storeFetchedGroupInfo c w j info None st of
            (Inl _, st') \<Rightarrow> (Inl Err_other, st') | (Inr n, st') \<Rightarrow> (Inr n, st'))
      | _ \<Rightarrow> (Inl Err_other, st))"

definition refreshGroupRoster :: "group_client \<Rightarrow> fetch_world \<Rightarrow> string \<Rightarrow> instant \<Rightarrow> group_columns list \<times> roster_state \<Rightarrow> bool \<times> group_columns list \<times> roster_state" where
  "refreshGroupRoster c w j now st =
     (case fetchGroupRoster c w j st of
        (Inl Err_gone, cols, s) \<Rightarrow> (False, cols, noteGone j (fw_asked w) now s)
      | (Inl Err_other, cols, s) \<Rightarrow> (False, cols, note_roster j now s)
      | (Inr n, cols, s) \<Rightarrow> if n = 0 then (False, cols, note_roster j now s) else (True, cols, s))"

text \<open>One pass: at most \<open>limit\<close> fetches, over the stale groups in their order. \<open>alive\<close> is the context and the
  connection when a group is looked at, \<open>paced\<close> whether the wait after a fetch was not cut short; both may change
  from group to group. The pass also lists what it attempted.\<close>

record sync_world =
  sx_alive :: "string \<Rightarrow> bool"
  sx_paced :: "string \<Rightarrow> bool"
  sx_fetch :: "string \<Rightarrow> fetch_world"

record sync_result =
  sr_attempted :: "string list"
  sr_refreshed :: nat
  sr_more :: bool
  sr_state :: "group_columns list \<times> roster_state"

fun sync_loop :: "group_client \<Rightarrow> chatPolicy \<Rightarrow> sync_world \<Rightarrow> instant \<Rightarrow> nat \<Rightarrow> string list \<Rightarrow> sync_result \<Rightarrow> sync_result" where
  "sync_loop c policy w now limit [] r = r\<lparr>sr_more := False\<rparr>"
| "sync_loop c policy w now limit (j # js) r =
     (if \<not> sx_alive w j then r\<lparr>sr_more := True\<rparr>
      else if \<not> cp_Allows policy j then sync_loop c policy w now limit js r
      else case recent j now (snd (sr_state r)) of
             (backed_off, s) \<Rightarrow>
               let r1 = r\<lparr>sr_state := (fst (sr_state r), s)\<rparr>
               in if backed_off \<or> ParseJID (cl_sdk c) j = None then sync_loop c policy w now limit js r1
                  else if limit \<le> length (sr_attempted r1) then r1\<lparr>sr_more := True\<rparr>
                  else case refreshGroupRoster c (sx_fetch w j) j now (sr_state r1) of
                         (ok, st) \<Rightarrow>
                           let r2 = \<lparr>sr_attempted = sr_attempted r1 @ [j], sr_refreshed = sr_refreshed r1 + (if ok then 1 else 0),
                                     sr_more = sr_more r1, sr_state = st\<rparr>
                           in if sx_paced w j then sync_loop c policy w now limit js r2 else r2\<lparr>sr_more := True\<rparr>)"

definition syncGroupRosters :: "group_client \<Rightarrow> chatPolicy \<Rightarrow> sync_world \<Rightarrow> duration \<Rightarrow> instant \<Rightarrow> nat \<Rightarrow> string list option
    \<Rightarrow> group_columns list \<times> roster_state \<Rightarrow> sync_result" where
  "syncGroupRosters c policy w interval now limit stale st =
     (let r = \<lparr>sr_attempted = [], sr_refreshed = 0, sr_more = False, sr_state = st\<rparr>
      in if interval \<le> 0 then r
         else case stale of None \<Rightarrow> r | Some js \<Rightarrow> sync_loop c policy w now limit js r)"

text \<open>The delay the loop sleeps after a turn: \<open>None\<close> when the socket was down.\<close>

definition next_delay :: "duration \<Rightarrow> sync_result option \<Rightarrow> duration" where
  "next_delay interval turn =
     (case turn of None \<Rightarrow> groupRosterSyncRetryDelay | Some r \<Rightarrow> if sr_more r then groupRosterSyncRetryDelay else interval)"

section \<open>The refresh queue of the settings\<close>

text \<open>Requests of the event dispatcher and one worker. The worker takes a group, then takes its mark away, then
  fetches; \<open>rf_fetches\<close> counts the fetches begun per group.\<close>

datatype refresh_hand = Idle | Taken jid | Unmarked jid

record refresh_queue =
  rf_queue :: "jid list"
  rf_pending :: "jid set"
  rf_hand :: refresh_hand
  rf_fetches :: "jid \<Rightarrow> nat"

definition new_refresh :: refresh_queue where
  "new_refresh = \<lparr>rf_queue = [], rf_pending = {}, rf_hand = Idle, rf_fetches = (\<lambda>_. 0)\<rparr>"

definition requestGroupSettingsRefresh :: "bool \<Rightarrow> jid \<Rightarrow> refresh_queue \<Rightarrow> refresh_queue" where
  "requestGroupSettingsRefresh connected_now j q =
     (if \<not> connected_now \<or> j \<in> rf_pending q then q
      else if length (rf_queue q) < groupRosterSyncBatch then q\<lparr>rf_queue := rf_queue q @ [j], rf_pending := insert j (rf_pending q)\<rparr>
      else q)"

inductive refresh_step :: "refresh_queue \<Rightarrow> refresh_queue \<Rightarrow> bool" where
  request: "refresh_step q (requestGroupSettingsRefresh up j q)"
| take: "rf_hand q = Idle \<Longrightarrow> rf_queue q = j # js \<Longrightarrow> refresh_step q (q\<lparr>rf_queue := js, rf_hand := Taken j\<rparr>)"
| unmark: "rf_hand q = Taken j \<Longrightarrow> refresh_step q (q\<lparr>rf_pending := rf_pending q - {j}, rf_hand := Unmarked j\<rparr>)"
| fetch: "rf_hand q = Unmarked j \<Longrightarrow> refresh_step q (q\<lparr>rf_hand := Idle, rf_fetches := (rf_fetches q)(j := Suc (rf_fetches q j))\<rparr>)"
| skip: "rf_hand q = Unmarked j \<Longrightarrow> refresh_step q (q\<lparr>rf_hand := Idle\<rparr>)"

definition applyGroupSettings :: "jid_sdk \<Rightarrow> chatPolicy \<Rightarrow> bool \<Rightarrow> bool \<Rightarrow> bool \<Rightarrow> instant \<Rightarrow> jid \<Rightarrow> settings_event
    \<Rightarrow> group_columns list \<times> refresh_queue \<Rightarrow> group_columns list \<times> refresh_queue" where
  "applyGroupSettings sdk policy canFetch connected_now failed seen j v st =
     (case st of (cols, q) \<Rightarrow>
        if \<not> cp_Allows policy (JIDString sdk j) then (cols, q)
        else (storeGroupSettings failed (JIDString sdk j) (event_values v) seen cols,
              if sv_approvalChanged v \<and> canFetch then requestGroupSettingsRefresh connected_now j q else q))"

section \<open>Lemmas: what a refresh touches\<close>

lemma wait_sel [simp]:
  "gx_members (roster_wait j a b s) = gx_members s" "gx_back (roster_wait j a b s) = gx_back s"
  "gx_waits (roster_wait j a b s) = (gx_waits s)(j \<mapsto> \<lparr>rw_since = a, rw_until = b\<rparr>)"
  by (simp_all add: roster_wait_def)

lemma note_sel [simp]:
  "gx_members (note_roster j now s) = gx_members s" "gx_back (note_roster j now s) = gx_back s"
  "gx_waits (note_roster j now s) = (gx_waits s)(j \<mapsto> \<lparr>rw_since = now, rw_until = now + groupRosterRetryAfter\<rparr>)"
  by (simp_all add: note_roster_def)

lemma noteGone_cases:
  "noteGone j asked now s =
     (case gx_back s j of
        Some back \<Rightarrow> if \<not> back < asked then s
                    else roster_wait j now (now + groupRosterGoneRetryAfter) (s\<lparr>gx_back := (gx_back s)(j := None)\<rparr>)
      | None \<Rightarrow> roster_wait j now (now + groupRosterGoneRetryAfter) s)"
  by (simp add: noteGone_def gone_check_def gone_wait_def split: option.split)

lemma noteGone_members [simp]: "gx_members (noteGone j asked now s) = gx_members s"
  by (simp add: noteGone_cases split: option.split)

lemma forget_sel [simp]:
  "gx_members (forget_roster j now s) = gx_members s" "gx_waits (forget_roster j now s) = (gx_waits s)(j := None)"
  by (simp_all add: forget_roster_def)

lemma recent_sel [simp]:
  "gx_members (snd (recent j now s)) = gx_members s" "gx_back (snd (recent j now s)) = gx_back s"
  by (simp_all add: recent_def split: option.split)

lemma recent_waits: "gx_waits (snd (recent j now s)) = (case gx_waits s j of None \<Rightarrow> gx_waits s | Some w \<Rightarrow> if now < rw_until w then gx_waits s else (gx_waits s)(j := None))"
  by (simp add: recent_def split: option.split)

text \<open>A refresh of one group leaves the backoff, the marks and the rows of the others alone.\<close>

definition group_rows :: "string \<Rightarrow> roster_state \<Rightarrow> member_row list" where
  "group_rows g s = filter (\<lambda>r. mb_group r = g) (gx_members s)"

definition same_group :: "string \<Rightarrow> roster_state \<Rightarrow> roster_state \<Rightarrow> bool" where
  "same_group g s t \<longleftrightarrow> gx_waits t g = gx_waits s g \<and> gx_back t g = gx_back s g \<and> group_rows g t = group_rows g s"

lemma same_group_refl [simp]: "same_group g s s"
  by (simp add: same_group_def)

lemma same_group_trans: "same_group g s t \<Longrightarrow> same_group g t u \<Longrightarrow> same_group g s u"
  by (simp add: same_group_def)

lemma filter_upsert_other_group:
  assumes "mb_group row \<noteq> g" "\<And>old. mb_group (merge old row) = mb_group old"
  shows "filter (\<lambda>r. mb_group r = g) (upsert member_key merge row t) = filter (\<lambda>r. mb_group r = g) t"
proof -
  have "filter (\<lambda>r. mb_group r = g) (map (\<lambda>r. if member_key r = member_key row then merge r row else r) t) = filter (\<lambda>r. mb_group r = g) t"
    by (induction t) (use assms in \<open>auto simp: member_key_def\<close>)
  then show ?thesis using assms(1) by (simp add: upsert_def)
qed

lemma roster_fold_group: "grp \<noteq> g \<Longrightarrow> filter (\<lambda>r. mb_group r = g) (fold (upsertGroupMember grp st) rows t) = filter (\<lambda>r. mb_group r = g) t"
proof (induction rows arbitrary: t)
  case (Cons row rows)
  have "filter (\<lambda>r. mb_group r = g) (upsertGroupMember grp st row t) = filter (\<lambda>r. mb_group r = g) t"
    unfolding upsertGroupMember_def
    by (rule filter_upsert_other_group) (use Cons.prems in \<open>simp_all add: member_values_def merge_roster_def merge_joined_def\<close>)
  with Cons show ?case by simp
qed simp

lemma replace_group: "grp \<noteq> g \<Longrightarrow> filter (\<lambda>r. mb_group r = g) (snd (ReplaceGroupRoster f grp rows now t)) = filter (\<lambda>r. mb_group r = g) t"
proof -
  assume "grp \<noteq> g"
  let ?T = "fold (upsertGroupMember grp (dbTime now)) rows t"
  have "filter (\<lambda>r. (mb_group r = grp \<longrightarrow> \<not> seen_before (dbTime now) r) \<and> mb_group r = g) ?T = filter (\<lambda>r. mb_group r = g) ?T"
    using \<open>grp \<noteq> g\<close> by (intro filter_cong) auto
  then show ?thesis using \<open>grp \<noteq> g\<close> by (simp add: ReplaceGroupRoster_def roster_fold_group)
qed

lemma storeGroupRoster_other:
  assumes "grp \<noteq> g"
  shows "same_group g s (snd (storeGroupRoster c f grp members asked clk s))"
  using assms replace_group [OF assms]
  by (auto simp: storeGroupRoster_def same_group_def group_rows_def Let_def forget_roster_def case_prod_unfold split: sum.split)

lemma fetchGroupRoster_other: "grp \<noteq> g \<Longrightarrow> same_group g s (snd (snd (fetchGroupRoster c w grp (cols, s))))"
  using storeGroupRoster_other [of grp g s c]
  by (auto simp: fetchGroupRoster_def storeFetchedGroupInfo_def Let_def case_prod_unfold split: fetch_answer.split sum.split)

lemma refresh_other:
  assumes "grp \<noteq> g"
  shows "same_group g s (snd (snd (refreshGroupRoster c w grp now (cols, s))))"
proof -
  obtain out cols' s' where f: "fetchGroupRoster c w grp (cols, s) = (out, cols', s')" by (cases "fetchGroupRoster c w grp (cols, s)") auto
  have same: "same_group g s s'" using fetchGroupRoster_other [OF assms, of s c w cols] f by simp
  then show ?thesis
    using f assms
    by (auto simp: refreshGroupRoster_def same_group_def group_rows_def noteGone_cases split: sum.split fetch_error.split option.split)
qed

lemma recent_other: "j \<noteq> g \<Longrightarrow> same_group g s (snd (recent j now s))"
  by (auto simp: same_group_def group_rows_def recent_waits split: option.split)

section \<open>What a pass attempts\<close>

definition sync_eligible :: "group_client \<Rightarrow> chatPolicy \<Rightarrow> instant \<Rightarrow> roster_state \<Rightarrow> string \<Rightarrow> bool" where
  "sync_eligible c policy now s j \<longleftrightarrow> cp_Allows policy j \<and> ParseJID (cl_sdk c) j \<noteq> None
     \<and> (case gx_waits s j of None \<Rightarrow> True | Some w \<Rightarrow> rw_until w \<le> now)"

lemma eligible_same: "same_group j s t \<Longrightarrow> sync_eligible c policy now t j = sync_eligible c policy now s j"
  by (simp add: sync_eligible_def same_group_def)

lemma filter_eligible_same:
  "(\<And>j. j \<in> set js \<Longrightarrow> same_group j s t) \<Longrightarrow> filter (sync_eligible c policy now t) js = filter (sync_eligible c policy now s) js"
  by (rule filter_cong) (auto simp: eligible_same)

lemma sync_loop_attempts:
  assumes "distinct js" "\<And>j. sx_alive w j" "\<And>j. sx_paced w j" "length (sr_attempted r) \<le> limit"
  shows "sr_attempted (sync_loop c policy w now limit js r)
      = sr_attempted r @ take (limit - length (sr_attempted r)) (filter (sync_eligible c policy now (snd (sr_state r))) js)
    \<and> (sr_more (sync_loop c policy w now limit js r)
        \<longleftrightarrow> limit < length (sr_attempted r) + length (filter (sync_eligible c policy now (snd (sr_state r))) js))"
  using assms(1,4)
proof (induction js arbitrary: r)
  case (Cons j js)
  let ?s = "snd (sr_state r)"
  obtain off s where rec: "recent j now ?s = (off, s)" by (cases "recent j now ?s")
  have off: "off \<longleftrightarrow> \<not> (case gx_waits ?s j of None \<Rightarrow> True | Some w \<Rightarrow> rw_until w \<le> now)"
    using rec by (auto simp: recent_def split: option.splits if_splits)
  define r1 where "r1 = r\<lparr>sr_state := (fst (sr_state r), s)\<rparr>"
  have s_same: "same_group i ?s s" if "i \<in> set js" for i
    using recent_other [of j i ?s now] that Cons.prems(1) rec by auto
  have keep: "filter (sync_eligible c policy now s) js = filter (sync_eligible c policy now ?s) js"
    using filter_eligible_same [of js ?s s c policy now] s_same by blast
  have r1: "sr_attempted r1 = sr_attempted r" "snd (sr_state r1) = s" "sr_more r1 = sr_more r" by (simp_all add: r1_def)
  consider (out) "\<not> cp_Allows policy j" | (skip) "cp_Allows policy j" "off \<or> ParseJID (cl_sdk c) j = None"
    | (full) "cp_Allows policy j" "\<not> off" "ParseJID (cl_sdk c) j \<noteq> None" "limit \<le> length (sr_attempted r)"
    | (go) "cp_Allows policy j" "\<not> off" "ParseJID (cl_sdk c) j \<noteq> None" "length (sr_attempted r) < limit" by linarith
  then show ?case
  proof cases
    case out
    then show ?thesis using Cons assms(2) by (simp add: sync_eligible_def)
  next
    case skip
    then have loop: "sync_loop c policy w now limit (j # js) r = sync_loop c policy w now limit js r1" and el: "\<not> sync_eligible c policy now ?s j"
      using rec assms(2) off by (auto simp: r1_def sync_eligible_def Let_def)
    show ?thesis unfolding loop using Cons.IH [of r1] Cons.prems keep r1 el by simp
  next
    case full
    then have loop: "sync_loop c policy w now limit (j # js) r = r1\<lparr>sr_more := True\<rparr>" and el: "sync_eligible c policy now ?s j"
      using rec assms(2) off by (auto simp: r1_def sync_eligible_def Let_def)
    show ?thesis unfolding loop using full(4) Cons.prems r1 el by simp
  next
    case go
    obtain ok st where ref: "refreshGroupRoster c (sx_fetch w j) j now (sr_state r1) = (ok, st)"
      by (cases "refreshGroupRoster c (sx_fetch w j) j now (sr_state r1)")
    define r2 where "r2 = \<lparr>sr_attempted = sr_attempted r1 @ [j], sr_refreshed = sr_refreshed r1 + (if ok then 1 else 0), sr_more = sr_more r1, sr_state = st\<rparr>"
    have loop: "sync_loop c policy w now limit (j # js) r = sync_loop c policy w now limit js r2" and el: "sync_eligible c policy now ?s j"
      using rec assms(2,3) off go ref by (auto simp: r1_def r2_def sync_eligible_def Let_def)
    have "same_group i s (snd st)" if "i \<in> set js" for i
    proof -
      have "sr_state r1 = (fst (sr_state r1), s)" using r1(2) by (simp add: prod_eq_iff)
      then have "refreshGroupRoster c (sx_fetch w j) j now (fst (sr_state r1), s) = (ok, st)" using ref by simp
      moreover have "j \<noteq> i" using that Cons.prems(1) by auto
      ultimately show ?thesis using refresh_other [of j i s c "sx_fetch w j" now "fst (sr_state r1)"] by simp
    qed
    then have "filter (sync_eligible c policy now (snd st)) js = filter (sync_eligible c policy now ?s) js"
      using filter_eligible_same [of js s "snd st" c policy now] keep by simp
    then show ?thesis
      unfolding loop using Cons.IH [of r2] Cons.prems go(4) r1 el by (simp add: r2_def take_Cons' Suc_le_eq)
  qed
qed simp

section \<open>What a pass leaves behind\<close>

text \<open>A group a pass has tried is fresh, or backed off, or the account was seen back in it meanwhile.\<close>

definition settled :: "fetch_world \<Rightarrow> instant \<Rightarrow> string \<Rightarrow> roster_state \<Rightarrow> bool" where
  "settled w now j s \<longleftrightarrow> (\<exists>l. refreshed (gx_members s) j = Some l \<and> dbTime (fw_at w) \<le> l)
     \<or> (\<exists>u. gx_waits s j = Some u \<and> now + groupRosterRetryAfter \<le> rw_until u) \<or> (\<exists>b. gx_back s j = Some b \<and> fw_asked w \<le> b)"

lemma refreshed_group: "refreshed (gx_members s) j = foldl (\<lambda>m r. later m (mb_last r)) None (filter (\<lambda>r. mb_source r = Some Source_roster) (group_rows j s))"
  by (simp add: refreshed_def group_rows_def conj_commute)

lemma settled_same: "same_group j s t \<Longrightarrow> settled w now j s \<Longrightarrow> settled w now j t"
  by (simp add: settled_def same_group_def refreshed_group)

lemma later_ge:
  "\<exists>b. later (Some a) x = Some b \<and> a \<le> b" "\<exists>b. later y (Some l) = Some b \<and> l \<le> b"
  by (cases x, auto simp: later_def) (cases y, auto simp: later_def)

lemma foldl_later_grows: "\<exists>m. foldl (\<lambda>m r. later m (mb_last r)) (Some a) t = Some m \<and> a \<le> m"
proof (induction t arbitrary: a)
  case (Cons r t)
  obtain b where b: "later (Some a) (mb_last r) = Some b" "a \<le> b" using later_ge(1) by blast
  from Cons.IH [of b] b show ?case by auto
qed simp

lemma foldl_later_ge:
  assumes "r \<in> set t" "mb_last r = Some l"
  shows "\<exists>m. foldl (\<lambda>m r. later m (mb_last r)) a t = Some m \<and> l \<le> m"
  using assms(1)
proof (induction t arbitrary: a)
  case (Cons q t)
  show ?case
  proof (cases "r = q")
    case True
    then obtain b where "later a (mb_last q) = Some b" "l \<le> b"
      using assms(2) later_ge(2) [of a l] by auto
    with foldl_later_grows [of b t] show ?thesis by auto
  next
    case False
    then show ?thesis using Cons by simp
  qed
qed simp

lemma upsert_has_row: "\<exists>r \<in> set (upsertGroupMember grp st row t). mb_group r = grp \<and> mb_source r = Some Source_roster \<and> mb_last r = Some st"
proof (cases "has_key member_key (grp, mw_User row) t")
  case True
  then obtain old where "old \<in> set t" "member_key old = (grp, mw_User row)" by (auto simp: has_key_iff)
  then have "merge_roster old (member_values grp row Source_roster st) \<in> set (upsertGroupMember grp st row t)"
    using True by (force simp: upsertGroupMember_def upsert_def)
  moreover have "mb_group (merge_roster old (member_values grp row Source_roster st)) = grp"
    using \<open>member_key old = (grp, mw_User row)\<close> by (simp add: merge_roster_def merge_joined_def member_key_def)
  moreover have "mb_source (merge_roster old (member_values grp row Source_roster st)) = Some Source_roster"
    "mb_last (merge_roster old (member_values grp row Source_roster st)) = Some st"
    by (simp_all add: merge_roster_def merge_joined_def member_values_def)
  ultimately show ?thesis by blast
next
  case False
  then have "member_values grp row Source_roster st \<in> set (upsertGroupMember grp st row t)" by (simp add: upsertGroupMember_def upsert_def)
  then show ?thesis by (rule bexI [rotated]) (simp add: member_values_def)
qed

lemma replaced_is_fresh:
  assumes "ReplaceGroupRoster f grp rows now t = (Inr n, t')" "0 < n"
  shows "\<exists>l. refreshed t' grp = Some l \<and> dbTime now \<le> l"
proof -
  let ?T = "fold (upsertGroupMember grp (dbTime now)) rows t"
  have rows: "rows \<noteq> []" and t': "t' = filter (\<lambda>r. \<not> (mb_group r = grp \<and> seen_before (dbTime now) r)) ?T"
    using assms by (auto simp: ReplaceGroupRoster_def split: if_splits)
  have "?T = upsertGroupMember grp (dbTime now) (last rows) (fold (upsertGroupMember grp (dbTime now)) (butlast rows) t)"
    using rows by (metis append_butlast_last_id comp_apply fold_Cons fold_Nil fold_append id_apply)
  then obtain r where "r \<in> set ?T" "mb_group r = grp" "mb_source r = Some Source_roster" "mb_last r = Some (dbTime now)"
    using upsert_has_row by metis
  then have "r \<in> set (filter (\<lambda>r. mb_group r = grp \<and> mb_source r = Some Source_roster) t')" "mb_last r = Some (dbTime now)"
    by (simp_all add: t' seen_before_def)
  from foldl_later_ge [OF this] show ?thesis by (simp add: refreshed_def)
qed

lemma fetched_rows:
  assumes "fetchGroupRoster c w j (cols, s) = (out, cols', s')"
  shows "(\<exists>members. storeGroupRoster c (fw_rosterFailed w) j members (fw_at w) (fw_clk w) s = (case out of Inr n \<Rightarrow> Inr n | Inl _ \<Rightarrow> Inl (), s'))
    \<or> (s' = s \<and> (\<forall>n. out = Inr n \<longrightarrow> n = 0))"
  using assms
  by (auto simp: fetchGroupRoster_def storeFetchedGroupInfo_def Let_def split: fetch_answer.splits sum.splits prod.splits if_splits)

lemma refresh_settles:
  assumes "refreshGroupRoster c w j now (cols, s) = (ok, st)"
  shows "settled w now j (snd st)"
proof -
  obtain out cols' s' where f: "fetchGroupRoster c w j (cols, s) = (out, cols', s')" by (cases "fetchGroupRoster c w j (cols, s)") auto
  have fresh: "settled w now j s'" if n: "out = Inr n" "n \<noteq> 0" for n
  proof -
    obtain members where "storeGroupRoster c (fw_rosterFailed w) j members (fw_at w) (fw_clk w) s = (Inr n, s')"
      using fetched_rows [OF f] n by auto
    then obtain t' where "ReplaceGroupRoster (fw_rosterFailed w) j (map (resolveRosterRow c) (groupMemberRows members)) (fw_at w) (gx_members s) = (Inr n, t')"
      "gx_members s' = t'"
      using n(2) by (auto simp: storeGroupRoster_def Let_def split: prod.splits sum.splits if_splits)
    with replaced_is_fresh n(2) show ?thesis by (fastforce simp: settled_def)
  qed
  have gone: "\<exists>u. gx_waits (noteGone j (fw_asked w) now s') j = Some u \<and> now + groupRosterRetryAfter \<le> rw_until u"
    if "\<not> (\<exists>b. gx_back (noteGone j (fw_asked w) now s') j = Some b \<and> fw_asked w \<le> b)"
    using that by (auto simp: noteGone_cases groupRosterRetryAfter_def groupRosterGoneRetryAfter_def hour_def minute_def second_def millisecond_def split: option.splits if_splits)
  show ?thesis
    using assms f fresh gone
    by (auto simp: refreshGroupRoster_def settled_def split: sum.splits fetch_error.splits if_splits)
qed

lemma sync_loop_settles:
  assumes "distinct js" "set (sr_attempted r) \<inter> set js = {}" "\<forall>i \<in> set (sr_attempted r). settled (sx_fetch w i) now i (snd (sr_state r))"
  shows "\<forall>i \<in> set (sr_attempted (sync_loop c policy w now limit js r)). settled (sx_fetch w i) now i (snd (sr_state (sync_loop c policy w now limit js r)))"
  using assms
proof (induction js arbitrary: r)
  case (Cons j js)
  let ?s = "snd (sr_state r)"
  obtain off s where rec: "recent j now ?s = (off, s)" by (cases "recent j now ?s")
  define r1 where "r1 = r\<lparr>sr_state := (fst (sr_state r), s)\<rparr>"
  have s_same: "same_group i ?s s" if "i \<noteq> j" for i using recent_other [of j i ?s now] that rec by auto
  have st1: "\<forall>i \<in> set (sr_attempted r1). settled (sx_fetch w i) now i (snd (sr_state r1))"
    using Cons.prems(2,3) s_same settled_same by (fastforce simp: r1_def)
  obtain ok st where ref: "refreshGroupRoster c (sx_fetch w j) j now (fst (sr_state r), s) = (ok, st)"
    by (cases "refreshGroupRoster c (sx_fetch w j) j now (fst (sr_state r), s)")
  define r2 where "r2 = \<lparr>sr_attempted = sr_attempted r1 @ [j], sr_refreshed = sr_refreshed r1 + (if ok then 1 else 0), sr_more = sr_more r1, sr_state = st\<rparr>"
  have st2: "\<forall>i \<in> set (sr_attempted r2). settled (sx_fetch w i) now i (snd (sr_state r2))"
  proof
    fix i assume "i \<in> set (sr_attempted r2)"
    then consider "i = j" | "i \<noteq> j" "i \<in> set (sr_attempted r1)" using Cons.prems(2) by (auto simp: r2_def r1_def)
    then show "settled (sx_fetch w i) now i (snd (sr_state r2))"
    proof cases
      case 1
      then show ?thesis using refresh_settles [OF ref] by (simp add: r2_def)
    next
      case 2
      have "same_group i s (snd st)" using refresh_other [of j i s c "sx_fetch w j" now "fst (sr_state r)"] ref 2(1) by simp
      then show ?thesis using settled_same st1 2(2) by (fastforce simp: r2_def r1_def)
    qed
  qed
  have cases: "sync_loop c policy w now limit (j # js) r \<in> {r\<lparr>sr_more := True\<rparr>, r1\<lparr>sr_more := True\<rparr>, r2\<lparr>sr_more := True\<rparr>,
      sync_loop c policy w now limit js r, sync_loop c policy w now limit js r1, sync_loop c policy w now limit js r2}"
    using ref by (auto simp: rec r1_def r2_def Let_def)
  have ih: "\<forall>i \<in> set (sr_attempted (sync_loop c policy w now limit js q)). settled (sx_fetch w i) now i (snd (sr_state (sync_loop c policy w now limit js q)))"
    if "q \<in> {r, r1, r2}" for q
    using that Cons.IH [of q] Cons.prems st1 st2 by (auto simp: r1_def r2_def)
  show ?case using cases ih [of r] ih [of r1] ih [of r2] Cons.prems(3) st1 st2 by fastforce
qed simp

section \<open>A group the account has left\<close>

lemma sync_loop_skips:
  assumes "gx_waits (snd (sr_state r)) g = Some u" "now < rw_until u"
  shows "same_group g (snd (sr_state r)) (snd (sr_state (sync_loop c policy w now limit js r)))"
  using assms
proof (induction js arbitrary: r)
  case (Cons j js)
  let ?s = "snd (sr_state r)"
  obtain off s where rec: "recent j now ?s = (off, s)" by (cases "recent j now ?s")
  define r1 where "r1 = r\<lparr>sr_state := (fst (sr_state r), s)\<rparr>"
  obtain ok st where ref: "refreshGroupRoster c (sx_fetch w j) j now (fst (sr_state r), s) = (ok, st)"
    by (cases "refreshGroupRoster c (sx_fetch w j) j now (fst (sr_state r), s)")
  define r2 where "r2 = \<lparr>sr_attempted = sr_attempted r1 @ [j], sr_refreshed = sr_refreshed r1 + (if ok then 1 else 0), sr_more = sr_more r1, sr_state = st\<rparr>"
  have s1: "same_group g ?s s" using recent_other [of j g ?s now] rec Cons.prems by (cases "j = g") (auto simp: recent_def)
  have off: "off" if "j = g" using that rec Cons.prems by (auto simp: recent_def)
  have s2: "same_group g ?s (snd st)" if "j \<noteq> g"
    using same_group_trans [OF s1] refresh_other [OF that, of s c "sx_fetch w j" now "fst (sr_state r)"] ref by simp
  have cases: "sync_loop c policy w now limit (j # js) r \<in> {r\<lparr>sr_more := True\<rparr>, r1\<lparr>sr_more := True\<rparr>,
      sync_loop c policy w now limit js r, sync_loop c policy w now limit js r1}
      \<or> (j \<noteq> g \<and> sync_loop c policy w now limit (j # js) r \<in> {r2\<lparr>sr_more := True\<rparr>, sync_loop c policy w now limit js r2})"
    using ref off by (auto simp: rec r1_def r2_def Let_def)
  have ih: "same_group g ?s (snd (sr_state (sync_loop c policy w now limit js q)))" if "same_group g ?s (snd (sr_state q))" for q
    using that Cons.IH [of q] Cons.prems same_group_trans [OF that] by (simp add: same_group_def)
  show ?case using cases ih [of r] ih [of r1] ih [of r2] s1 s2 by (auto simp: r1_def r2_def)
qed simp

text \<open>Everything that touches the member table and the backoff, in any order: participant changes, messages, passes,
  fetches asked for by a request, and the two sections of a \<^verbatim>\<open>noteGone\<close> on their own, as they interleave with the
  rest.\<close>

datatype feed_op =
    Change chatPolicy group_faults instant instant group_event
  | Message chatPolicy bool string jid instant instant
  | Pass chatPolicy sync_world duration instant nat "string list option" "group_columns list"
  | Fetch fetch_world string "group_columns list"
  | Gone_check string instant
  | Gone_wait string instant

fun run_feed :: "group_client \<Rightarrow> feed_op \<Rightarrow> roster_state \<Rightarrow> roster_state" where
  "run_feed c (Change policy f seen now v) s = applyGroupParticipantChanges c policy f seen now v s"
| "run_feed c (Message policy failed chat sender sentAt clk) s = noteGroupSender c policy failed chat sender sentAt clk s"
| "run_feed c (Pass policy w interval now limit stale cols) s =
     snd (sr_state (syncGroupRosters c policy w interval now limit stale (cols, s)))"
| "run_feed c (Fetch fw j cols) s = snd (snd (fetchGroupRoster c fw j (cols, s)))"
| "run_feed c (Gone_check j asked) s = snd (gone_check j asked s)"
| "run_feed c (Gone_wait j now) s = gone_wait j now s"

text \<open>The clock of a change and of a wait, for a run whose clock does not go back.\<close>

fun op_since :: "instant \<Rightarrow> feed_op \<Rightarrow> bool" where
  "op_since left (Change _ _ _ now _) = (left \<le> now)"
| "op_since left (Gone_wait _ now) = (left \<le> now)"
| "op_since left _ = True"

text \<open>What can bring a group back that the account left at \<open>left\<close>: any join reported in it, its own or another
  member's; a message dated a week later or more; a message of the account's own dated after the departure; a pass
  a week later or more; a roster that WhatsApp answered a request with.\<close>

fun reopens :: "group_client \<Rightarrow> string \<Rightarrow> instant \<Rightarrow> feed_op \<Rightarrow> bool" where
  "reopens c g left (Change _ _ _ _ v) \<longleftrightarrow> JIDString (cl_sdk c) (ge_JID v) = g \<and> ge_Join v \<noteq> []"
| "reopens c g left (Message _ _ chat sender sentAt _) \<longleftrightarrow>
     chat = g \<and> (left + groupRosterGoneRetryAfter \<le> sentAt \<or> leftGroup c [sender] \<and> left < sentAt)"
| "reopens c g left (Pass _ _ _ now _ _ _) \<longleftrightarrow> left + groupRosterGoneRetryAfter \<le> now"
| "reopens c g left (Fetch fw j _) \<longleftrightarrow> j = g \<and> (case fw_answer fw of Fetched _ \<Rightarrow> True | _ \<Rightarrow> False)"
| "reopens c g left _ \<longleftrightarrow> False"

definition departed :: "string \<Rightarrow> instant \<Rightarrow> roster_state \<Rightarrow> bool" where
  "departed g left s \<longleftrightarrow> group_rows g s = []
     \<and> (\<exists>u. gx_waits s g = Some u \<and> left \<le> rw_since u \<and> left + groupRosterGoneRetryAfter \<le> rw_until u)"

lemma departed_same: "same_group g s t \<Longrightarrow> departed g left s \<Longrightarrow> departed g left t"
  by (simp add: departed_def same_group_def)

lemma filter_joined_other: "grp \<noteq> g \<Longrightarrow> filter (\<lambda>r. mb_group r = g) (AddGroupMembers f grp rows now t) = filter (\<lambda>r. mb_group r = g) t"
proof -
  assume g: "grp \<noteq> g"
  have "filter (\<lambda>r. mb_group r = g) (fold (addGroupMember grp st) qs t) = filter (\<lambda>r. mb_group r = g) t" for st qs
  proof (induction qs arbitrary: t)
    case (Cons row qs)
    have "filter (\<lambda>r. mb_group r = g) (addGroupMember grp st row t) = filter (\<lambda>r. mb_group r = g) t"
      unfolding addGroupMember_def
      by (rule filter_upsert_other_group) (use g in \<open>simp_all add: member_values_def merge_joined_def\<close>)
    with Cons show ?case by simp
  qed simp
  then show ?thesis by (simp add: AddGroupMembers_def)
qed

text \<open>Departures, flags and drops never bring a row into a group, and keep the groups they do not name.\<close>

definition shrinks :: "string \<Rightarrow> string \<Rightarrow> (member_row list \<Rightarrow> member_row list) \<Rightarrow> bool" where
  "shrinks grp g f \<longleftrightarrow> (\<forall>t. (grp \<noteq> g \<longrightarrow> filter (\<lambda>r. mb_group r = g) (f t) = filter (\<lambda>r. mb_group r = g) t)
     \<and> (filter (\<lambda>r. mb_group r = g) t = [] \<longrightarrow> filter (\<lambda>r. mb_group r = g) (f t) = []))"

lemma shrinks_fold:
  assumes "\<And>x. shrinks grp g (f x)"
  shows "shrinks grp g (fold f xs)"
  using assms by (induction xs) (simp_all add: shrinks_def)

lemma shrinks_filter: "shrinks grp g (filter (\<lambda>r. \<not> (mb_group r = grp \<and> P r)))"
proof -
  have "grp \<noteq> g \<Longrightarrow> filter (\<lambda>r. mb_group r = g) (filter (\<lambda>r. \<not> (mb_group r = grp \<and> P r)) t) = filter (\<lambda>r. mb_group r = g) t" for t
    unfolding filter_filter by (rule filter_cong) auto
  moreover have "filter (\<lambda>r. mb_group r = g) t = [] \<Longrightarrow> filter (\<lambda>r. mb_group r = g) (filter Q t) = []" for t Q
    by (auto simp: filter_empty_conv)
  ultimately show ?thesis by (simp only: shrinks_def) blast
qed

lemma shrinks_flags:
  "shrinks grp g (map (\<lambda>r. if mb_group r = grp \<and> P r then r\<lparr>mb_admin := a, mb_super := (if a then mb_super r else False)\<rparr> else r))"
proof -
  have "filter (\<lambda>r. mb_group r = g) (map (\<lambda>r. if mb_group r = grp \<and> P r then r\<lparr>mb_admin := a, mb_super := (if a then mb_super r else False)\<rparr> else r) t)
      = map (\<lambda>r. if mb_group r = grp \<and> P r then r\<lparr>mb_admin := a, mb_super := (if a then mb_super r else False)\<rparr> else r) (filter (\<lambda>r. mb_group r = g) t)" for t
    by (induction t) auto
  moreover have "map (\<lambda>r. if mb_group r = grp \<and> P r then r\<lparr>mb_admin := a, mb_super := (if a then mb_super r else False)\<rparr> else r) (filter (\<lambda>r. mb_group r = g) t)
      = filter (\<lambda>r. mb_group r = g) t" if "grp \<noteq> g" for t
    by (rule map_idI) (use that in auto)
  ultimately show ?thesis by (simp add: shrinks_def)
qed

lemma shrinks_writes:
  "shrinks grp g (RemoveGroupMembers f grp rows seen)" "shrinks grp g (SetGroupMemberAdmin f grp rows a)" "shrinks grp g (DropGroupRoster grp)"
proof (atomize (full), cases "grp = []")
  case True
  then show "shrinks grp g (RemoveGroupMembers f grp rows seen) \<and> shrinks grp g (SetGroupMemberAdmin f grp rows a) \<and> shrinks grp g (DropGroupRoster grp)"
    by (simp add: shrinks_def RemoveGroupMembers_def SetGroupMemberAdmin_def DropGroupRoster_def)
next
  case False
  have "shrinks grp g (RemoveGroupMembers f grp rows seen)"
    unfolding RemoveGroupMembers_def [abs_def] if_not_P [OF False] by (rule shrinks_fold, rule shrinks_filter)
  moreover have "shrinks grp g (SetGroupMemberAdmin f grp rows a)"
    unfolding SetGroupMemberAdmin_def [abs_def] if_not_P [OF False] by (rule shrinks_fold, rule shrinks_flags)
  moreover have "shrinks grp g (DropGroupRoster grp)"
    using shrinks_filter [of grp g "\<lambda>_. True"] False by (simp add: DropGroupRoster_def [abs_def])
  ultimately show "shrinks grp g (RemoveGroupMembers f grp rows seen) \<and> shrinks grp g (SetGroupMemberAdmin f grp rows a) \<and> shrinks grp g (DropGroupRoster grp)"
    by blast
qed

lemma departed_shrinks: "shrinks grp g f \<Longrightarrow> departed g left s \<Longrightarrow> departed g left (on_members f s)"
  by (simp add: departed_def on_members_def group_rows_def shrinks_def)

lemma departed_joined: "grp \<noteq> g \<Longrightarrow> departed g left s \<Longrightarrow> departed g left (on_members (AddGroupMembers f grp rows now) s)"
  by (simp add: departed_def on_members_def group_rows_def filter_joined_other)

lemma departed_gone_check: "departed g left s \<Longrightarrow> departed g left (snd (gone_check j asked s))"
  by (auto simp: departed_def group_rows_def gone_check_def split: option.split)

lemma departed_gone_wait: "left \<le> now \<Longrightarrow> departed g left s \<Longrightarrow> departed g left (gone_wait j now s)"
  by (auto simp: departed_def group_rows_def gone_wait_def roster_wait_def)

lemma departed_noteGone: "left \<le> now \<Longrightarrow> departed g left s \<Longrightarrow> departed g left (noteGone j asked now s)"
  using departed_gone_check [of g left s j asked] departed_gone_wait [of left now g _ j]
  by (auto simp: noteGone_def split: prod.split)

lemma departed_forget: "grp \<noteq> g \<Longrightarrow> departed g left s \<Longrightarrow> departed g left (forget_roster grp now s)"
  by (simp add: departed_def group_rows_def)

lemma departed_event:
  assumes "departed g left s" "JIDString (cl_sdk c) (ge_JID v) \<noteq> g \<or> ge_Join v = []" "left \<le> now"
  shows "departed g left (applyGroupParticipantChanges c policy f seen now v s)"
proof -
  let ?grp = "JIDString (cl_sdk c) (ge_JID v)"
  define s1 where "s1 = (if leftGroup c (ge_Join v) then forget_roster ?grp seen s else s)"
  define s2 where "s2 = (if ge_Join v \<noteq> [] then on_members (AddGroupMembers (gf_join f) ?grp (groupMemberEventRows c (ge_Join v)) now) s1 else s1)"
  have d1: "departed g left s1" using assms departed_forget by (auto simp: s1_def leftGroup_def)
  have d2: "departed g left s2" using assms(2) d1 departed_joined by (auto simp: s2_def)
  show ?thesis
    unfolding applyGroupParticipantChanges_def Let_def s1_def [symmetric] s2_def [symmetric]
    using d1 d2 assms(3) by (auto intro!: departed_shrinks departed_noteGone shrinks_writes)
qed

lemma departed_message:
  assumes "departed g left s" "chat \<noteq> g \<or> (sentAt < left + groupRosterGoneRetryAfter \<and> (leftGroup c [sender] \<longrightarrow> sentAt \<le> left))"
  shows "departed g left (noteGroupSender c policy failed chat sender sentAt clk s)"
proof (cases "chat = g")
  case True
  then obtain u where u: "gx_waits s g = Some u" "sentAt < rw_until u" "leftGroup c [sender] \<Longrightarrow> sentAt \<le> rw_since u"
    using assms by (auto simp: departed_def)
  have "(if leftGroup c [sender] then forgetIfAfter chat sentAt clk s else s) = s" using u True by (auto simp: forgetIfAfter_def)
  moreover have "recent chat sentAt s = (True, s)" using u True by (simp add: recent_def)
  ultimately show ?thesis using assms(1) by (simp add: noteGroupSender_def Let_def)
next
  case False
  define s1 where "s1 = (if leftGroup c [sender] then forgetIfAfter chat sentAt clk s else s)"
  have "departed g left s1" using assms(1) False departed_forget by (auto simp: s1_def forgetIfAfter_def split: option.split)
  then have d: "departed g left (snd (recent chat sentAt s1))" using departed_same recent_other [OF False] by blast
  have noted: "departed g left (on_members (NoteGroupParticipant chat row sentAt) t)" if "departed g left t" for row t
    using that False by (auto simp: departed_def on_members_def group_rows_def NoteGroupParticipant_def member_values_def)
  show ?thesis
    unfolding noteGroupSender_def Let_def s1_def [symmetric] using assms(1) d noted by (auto split: prod.split option.split)
qed

lemma departed_pass:
  assumes "departed g left s" "now < left + groupRosterGoneRetryAfter"
  shows "departed g left (snd (sr_state (syncGroupRosters c policy w interval now limit stale (cols, s))))"
proof -
  obtain u where u: "gx_waits s g = Some u" "now < rw_until u" using assms by (auto simp: departed_def)
  let ?r = "\<lparr>sr_attempted = [], sr_refreshed = 0, sr_more = False, sr_state = (cols, s)\<rparr>"
  have "departed g left (snd (sr_state (sync_loop c policy w now limit js ?r)))" for js
    using departed_same [OF _ assms(1)] sync_loop_skips [of ?r g u now c policy w limit js] u by simp
  then show ?thesis using assms(1) by (auto simp: syncGroupRosters_def Let_def split: option.split)
qed

lemma departed_fetch:
  assumes "departed g left s" "j \<noteq> g \<or> (\<forall>info. fw_answer fw \<noteq> Fetched info)"
  shows "departed g left (snd (snd (fetchGroupRoster c fw j (cols, s))))"
proof (cases "j = g")
  case True
  then have "snd (snd (fetchGroupRoster c fw j (cols, s))) = s" using assms(2) by (auto simp: fetchGroupRoster_def split: fetch_answer.splits)
  then show ?thesis using assms(1) by simp
next
  case False
  then show ?thesis using departed_same [OF fetchGroupRoster_other] assms(1) by blast
qed

lemma departed_feed:
  assumes "departed g left s" "op_since left ev" "\<not> reopens c g left ev"
  shows "departed g left (run_feed c ev s)"
proof (cases ev)
  case (Change policy f seen now v)
  then show ?thesis using assms by (auto intro!: departed_event)
next
  case (Message policy failed chat sender sentAt clk)
  then show ?thesis using assms by (auto intro!: departed_message)
next
  case (Fetch fw j cols)
  then show ?thesis using assms by (auto intro!: departed_fetch split: fetch_answer.splits)
qed (use assms in \<open>auto intro: departed_pass departed_gone_check departed_gone_wait\<close>)

lemma departed_run:
  "departed g left s \<Longrightarrow> \<forall>ev \<in> set evs. op_since left ev \<and> \<not> reopens c g left ev \<Longrightarrow> departed g left (fold (run_feed c) evs s)"
  by (induction evs arbitrary: s) (auto intro: departed_feed)

section \<open>The properties of the feeds\<close>

text \<open>C27. The refresh of rosters cannot be starved. A pass over the stale groups tries only groups the policy allows
  and that are not backed off, in their order, as many as its limit permits, and reports that it must come back
  exactly if some were left; groups it skips cost nothing. Whatever it tried is, when the pass ends, freshly rostered,
  or backed off for at least six hours, or the account was seen back in it after the question was sent.\<close>

theorem roster_pass_not_starved:
  assumes "distinct js" "0 < interval" "r = syncGroupRosters c policy w interval now limit (Some js) (cols, s)"
  shows "(\<forall>j \<in> set (sr_attempted r). settled (sx_fetch w j) now j (snd (sr_state r)))
    \<and> ((\<forall>j. sx_alive w j \<and> sx_paced w j) \<longrightarrow>
        sr_attempted r = take limit (filter (sync_eligible c policy now s) js)
        \<and> (sr_more r \<longleftrightarrow> limit < length (filter (sync_eligible c policy now s) js)))"
proof -
  let ?r = "\<lparr>sr_attempted = [], sr_refreshed = 0, sr_more = False, sr_state = (cols, s)\<rparr>"
  have r: "r = sync_loop c policy w now limit js ?r" using assms(2,3) by (simp add: syncGroupRosters_def)
  show ?thesis
    using sync_loop_settles [OF assms(1), of ?r w now c policy limit] sync_loop_attempts [OF assms(1), of w ?r limit c policy now] by (simp add: r)
qed


lemma set_column_swap: "a \<noteq> b \<Longrightarrow> set_column a x (set_column b y old) = set_column b y (set_column a x old)"
  by (auto simp: set_column_def split: option.split)

lemma settings_swap:
  assumes "dbTime a \<noteq> dbTime b"
  shows "storeGroupSettings False grp x a \<circ> storeGroupSettings False grp y b = storeGroupSettings False grp y b \<circ> storeGroupSettings False grp x a"
  by (rule ext) (simp add: storeGroupSettings_def set_column_swap [OF assms])

text \<open>The settings of a group do not depend on the order of their observations: events and fetched snapshots with
  different times give the same columns however they interleave.\<close>

lemma group_settings_order_independent:
  assumes "mset us = mset vs" "distinct (map (\<lambda>(x, t). dbTime t) vs)"
  shows "fold (\<lambda>(x, t). storeGroupSettings False grp x t) us cols = fold (\<lambda>(x, t). storeGroupSettings False grp x t) vs cols"
proof -
  have comm: "(\<lambda>(x, t). storeGroupSettings False grp x t) p \<circ> (\<lambda>(x, t). storeGroupSettings False grp x t) q
      = (\<lambda>(x, t). storeGroupSettings False grp x t) q \<circ> (\<lambda>(x, t). storeGroupSettings False grp x t) p"
    if "p \<in> set us" "q \<in> set us" for p q
  proof (cases "p = q")
    case False
    have "p \<in> set vs" "q \<in> set vs" using that assms(1) by (metis set_mset_mset)+
    then have "dbTime (snd p) \<noteq> dbTime (snd q)"
      using False assms(2) by (auto simp: distinct_map inj_on_def case_prod_unfold)
    then show ?thesis using settings_swap by (cases p; cases q) simp
  qed simp
  show ?thesis using fold_multiset_equiv [OF comm assms(1)] by simp
qed

definition refresh_inv :: "refresh_queue \<Rightarrow> bool" where
  "refresh_inv q \<longleftrightarrow> distinct (rf_queue q) \<and> length (rf_queue q) \<le> groupRosterSyncBatch
     \<and> (case rf_hand q of Taken j \<Rightarrow> j \<notin> set (rf_queue q) \<and> rf_pending q = insert j (set (rf_queue q)) | _ \<Rightarrow> rf_pending q = set (rf_queue q))"

lemma refresh_inv_step: "refresh_inv q \<Longrightarrow> refresh_step q q' \<Longrightarrow> refresh_inv q'"
  by (erule refresh_step.cases)
    (auto simp: refresh_inv_def requestGroupSettingsRefresh_def split: refresh_hand.splits)

text \<open>The queue of settings refreshes is bounded and holds a group once, and a request that is not queued because
  its group is marked is served by a fetch that has not begun yet.\<close>

lemma refresh_request_served:
  assumes "steps refresh_step new_refresh q" "j \<in> rf_pending q"
  shows "length (rf_queue q) \<le> 200 \<and> distinct (rf_queue q) \<and> (j \<in> set (rf_queue q) \<or> rf_hand q = Taken j)"
proof -
  have "refresh_inv new_refresh" by (simp add: refresh_inv_def new_refresh_def)
  then have "refresh_inv q" by (rule steps_invariant [OF assms(1)]) (rule refresh_inv_step)
  then show ?thesis using assms(2) by (auto simp: refresh_inv_def groupRosterSyncBatch_def split: refresh_hand.splits)
qed

section \<open>A concrete group\<close>

definition sample_client :: group_client where
  "sample_client = \<lparr>cl_sdk = plain_sdk, cl_alt = no_alt, cl_self = Some (Some (NewJID ''55'' DefaultUserServer), EmptyJID)\<rparr>"

definition sample_state :: roster_state where
  "sample_state = \<lparr>gx_members = sample_members, gx_waits = (\<lambda>_. None), gx_back = (\<lambda>_. None)\<rparr>"

definition own_leave :: group_event where
  "own_leave = \<lparr>ge_JID = NewJID ''1'' ''g.us'', ge_Join = [], ge_Leave = [NewJID ''55'' DefaultUserServer], ge_Promote = [], ge_Demote = [], ge_Timestamp = None\<rparr>"

definition no_group_faults :: group_faults where
  "no_group_faults = \<lparr>gf_join = None, gf_drop = False, gf_leave = None, gf_promote = None, gf_demote = None\<rparr>"

definition after_leave :: roster_state where
  "after_leave = applyGroupParticipantChanges sample_client (parseChatPolicy []) no_group_faults 7 7 own_leave sample_state"

text \<open>After the departure a message of another member leaves no row, and a join of another member does.\<close>

definition other_message :: feed_op where
  "other_message = Message (parseChatPolicy []) False ''1@g.us'' (NewJID ''66'' DefaultUserServer) 9 9"

definition other_join :: feed_op where
  "other_join = Change (parseChatPolicy []) no_group_faults 10 10 (own_leave\<lparr>ge_Join := [NewJID ''66'' DefaultUserServer], ge_Leave := []\<rparr>)"


definition gone_fetch :: sync_world where
  "gone_fetch = \<lparr>sx_alive = (\<lambda>_. True), sx_paced = (\<lambda>_. True), sx_fetch = (\<lambda>_. \<lparr>fw_asked = 7, fw_at = 7, fw_answer = Fetch_gone,
     fw_policy = parseChatPolicy [], fw_clk = 7, fw_settingsFailed = False, fw_rosterFailed = False\<rparr>)\<rparr>"

theorem roster_pass_not_starved_witness:
  "sr_attempted (syncGroupRosters sample_client (parseChatPolicy ''2@g.us,3@g.us,4@g.us'') gone_fetch hour 7 2
     (Some [''1@g.us'', ''2@g.us'', ''3@g.us'', ''4@g.us'']) ([], sample_state)) = [''2@g.us'', ''3@g.us'']"
proof -
  have "take 2 (filter (sync_eligible sample_client (parseChatPolicy ''2@g.us,3@g.us,4@g.us'') 7 sample_state) [''1@g.us'', ''2@g.us'', ''3@g.us'', ''4@g.us''])
      = [''2@g.us'', ''3@g.us'']" by code_simp
  moreover have "0 < hour" by (simp add: hour_def minute_def second_def millisecond_def)
  ultimately show ?thesis
    using roster_pass_not_starved [of "[''1@g.us'', ''2@g.us'', ''3@g.us'', ''4@g.us'']" hour _ sample_client "parseChatPolicy ''2@g.us,3@g.us,4@g.us''" gone_fetch 7 2 "[]" sample_state]
    by (simp add: gone_fetch_def)
qed

end
