(* ===== verification/Go_Time.thy ===== *)
theory Go_Time
  imports Go_Strings Prelude "HOL-Library.Monad_Syntax"
begin

text \<open>
  \<^verbatim>\<open>time.Parse(time.RFC3339, \<dots>)\<close> as the handlers use it on the times of a request: the date, the time of day with
  one or two digits for the hour, a fraction of any length of which nine digits count, and \<^verbatim>\<open>Z\<close> or an offset. The
  quick path of the library accepts a subset of these texts with the same result.
\<close>

definition digit_value :: "char \<Rightarrow> int" where "digit_value c = int (of_char c) - 48"

definition number_of :: "string \<Rightarrow> int" where "number_of ds = foldl (\<lambda>n c. 10 * n + digit_value c) 0 ds"

text \<open>\<^verbatim>\<open>getnum\<close>: two digits, or one when the field need not be fixed.\<close>

definition getnum :: "string \<Rightarrow> bool \<Rightarrow> (int \<times> string) option" where
  "getnum s fixed_width =
     (case s of
        [] \<Rightarrow> None
      | [c] \<Rightarrow> if is_digit c \<and> \<not> fixed_width then Some (digit_value c, []) else None
      | c # d # rest \<Rightarrow>
          if \<not> is_digit c then None
          else if \<not> is_digit d then (if fixed_width then None else Some (digit_value c, d # rest))
          else Some (10 * digit_value c + digit_value d, rest))"

definition get_year :: "string \<Rightarrow> (int \<times> string) option" where
  "get_year s = (if length s \<ge> 4 \<and> list_all is_digit (take 4 s) then Some (number_of (take 4 s), drop 4 s) else None)"

definition expect :: "char \<Rightarrow> string \<Rightarrow> string option" where
  "expect c s = (case s of d # rest \<Rightarrow> if d = c then Some rest else None | [] \<Rightarrow> None)"

text \<open>A fraction after the seconds, in nanoseconds.\<close>

definition get_fraction :: "string \<Rightarrow> int \<times> string" where
  "get_fraction s =
     (case s of
        c # d # rest \<Rightarrow>
          if (c = CHR ''.'' \<or> c = CHR '','') \<and> is_digit d
          then let ds = takeWhile is_digit (d # rest); nine = take 9 ds
               in (number_of nine * 10 ^ (9 - length nine), dropWhile is_digit (d # rest))
          else (0, s)
      | _ \<Rightarrow> (0, s))"

definition get_zone :: "string \<Rightarrow> (int \<times> string) option" where
  "get_zone s =
     (case s of
        [] \<Rightarrow> None
      | c # rest \<Rightarrow>
          if c = CHR ''Z'' then Some (0, rest)
          else if length s < 6 \<or> s ! 3 \<noteq> CHR '':'' then None
          else (case (getnum (take 2 (drop 1 s)) True, getnum (take 2 (drop 4 s)) True) of
                  (Some (h, _), Some (m, _)) \<Rightarrow>
                    if h > 24 \<or> m > 60 then None
                    else if c = CHR ''+'' then Some ((h * 60 + m) * 60, drop 6 s)
                    else if c = CHR ''-'' then Some (- ((h * 60 + m) * 60), drop 6 s)
                    else None
                | _ \<Rightarrow> None))"

definition leap_year :: "int \<Rightarrow> bool" where "leap_year y \<longleftrightarrow> y mod 4 = 0 \<and> (y mod 100 \<noteq> 0 \<or> y mod 400 = 0)"

definition daysIn :: "int \<Rightarrow> int \<Rightarrow> int" where
  "daysIn m y = (if m = 2 then (if leap_year y then 29 else 28) else if m \<in> {4, 6, 9, 11} then 30 else 31)"

text \<open>Days from the Unix epoch to a date.\<close>

definition unix_days :: "int \<Rightarrow> int \<Rightarrow> int \<Rightarrow> int" where
  "unix_days y m d =
     365 * (y - 1) + (y - 1) div 4 - (y - 1) div 100 + (y - 1) div 400
     + sum_list (map (\<lambda>k. daysIn (int k) y) [1..<nat m]) + d - 1 - 719162"

definition unix_nanos :: "int \<Rightarrow> int \<Rightarrow> int \<Rightarrow> int \<Rightarrow> int \<Rightarrow> int \<Rightarrow> int \<Rightarrow> int \<Rightarrow> instant" where
  "unix_nanos y m d h mi s ns zone = (((unix_days y m d * 24 + h) * 60 + mi) * 60 + s - zone) * second + ns"

definition parse_rfc3339 :: "string \<Rightarrow> instant option" where
  "parse_rfc3339 s0 = do {
     (y, s) \<leftarrow> get_year s0;
     s \<leftarrow> expect CHR ''-'' s;
     (m, s) \<leftarrow> getnum s True;
     s \<leftarrow> expect CHR ''-'' s;
     (d, s) \<leftarrow> getnum s True;
     s \<leftarrow> expect CHR ''T'' s;
     (h, s) \<leftarrow> getnum s False;
     s \<leftarrow> expect CHR '':'' s;
     (mi, s) \<leftarrow> getnum s True;
     s \<leftarrow> expect CHR '':'' s;
     (sec, s) \<leftarrow> getnum s True;
     let (ns, s) = get_fraction s;
     (zone, s) \<leftarrow> get_zone s;
     (if s = [] \<and> 1 \<le> m \<and> m \<le> 12 \<and> h < 24 \<and> mi < 60 \<and> sec < 60 \<and> 1 \<le> d \<and> d \<le> daysIn m y
      then Some (unix_nanos y m d h mi sec ns zone) else None)
   }"

text \<open>The zero \<^verbatim>\<open>time.Time\<close>, in seconds.\<close>

definition zero_seconds :: int where "zero_seconds = - 62135596800"

lemma zero_time_is_year_one: "parse_rfc3339 ''0001-01-01T00:00:00Z'' = Some (zero_seconds * second)"
  by code_simp

lemma offsets_name_one_instant:
  "parse_rfc3339 ''2024-02-29T21:04:05.250-03:00'' = parse_rfc3339 ''2024-03-01T0:04:05,25Z''"
  "parse_rfc3339 ''2024-03-01T0:04:05,25Z'' = Some (1709251445 * second + 250 * millisecond)"
  "parse_rfc3339 ''2023-02-29T00:00:00Z'' = None" "parse_rfc3339 ''2024-03-01T24:00:00Z'' = None"
  "parse_rfc3339 ''2024-03-01 00:00:00Z'' = None"
  by code_simp+

end
