(* ===== verification/Read_Receipts.thy ===== *)
theory Read_Receipts
  imports Recipients Chat_Rows Retry_Limits Go_Time "HOL-Library.List_Lexorder" "HOL-Library.Product_Lexorder"
begin

text \<open>
  Read receipts (\<^verbatim>\<open>mark_read.go\<close>, with the queries of \<^verbatim>\<open>store.go\<close> it selects messages with): the receipt for a listed
  set of messages, the receipts for a whole chat grouped by sender and sent in batches, the local read marker
  they advance, and the progress kept when the send budget refuses in the middle of a run. The state is the rows of
  \<^verbatim>\<open>messages\<close> and \<^verbatim>\<open>chats\<close> with the keys whose \<^verbatim>\<open>read_receipt_sent\<close> is set; times of the database are whole
  seconds. The answers of the budget, of the network and of the database are arguments, one for each call of a
  run, and a write goes through \<^const>\<open>storeLive\<close>. The wording of the responses is left out.
\<close>

section \<open>The archive the receipts read and write\<close>

record receipt_db =
  rd_rows :: "message_row list"
  rd_flagged :: "(string \<times> string) set"
  rd_chats :: "chat_row list"

record unreadInboundMessage =
  u_ID :: string
  u_Sender :: string
  u_Timestamp :: instant

text \<open>\<^verbatim>\<open>anchorTime\<close> of a canonical value; the zero time reads as absent.\<close>

definition anchorTime :: "int option \<Rightarrow> instant option" where
  "anchorTime raw = (case raw of None \<Rightarrow> None | Some s \<Rightarrow> if s = zero_seconds then None else Some (s * second))"

definition inbound_in :: "string \<Rightarrow> message_row \<Rightarrow> bool" where
  "inbound_in chat r \<longleftrightarrow> m_chat r = chat \<and> \<not> m_own r \<and> m_deleted r = None"

definition time_in :: "int option \<Rightarrow> int \<Rightarrow> message_row \<Rightarrow> bool" where
  "time_in marker upTo r =
     (case m_timestamp r of None \<Rightarrow> False | Some s \<Rightarrow> s \<le> upTo \<and> (case marker of None \<Rightarrow> True | Some k \<Rightarrow> k < s))"

definition unread_row :: "receipt_db \<Rightarrow> string \<Rightarrow> instant \<Rightarrow> message_row \<Rightarrow> bool" where
  "unread_row d chat upTo r \<longleftrightarrow>
     inbound_in chat r \<and> message_key r \<notin> rd_flagged d \<and> time_in (last_read_time chat (rd_chats d)) (dbTime upTo) r"

definition page_order :: "message_row \<Rightarrow> int \<times> string" where
  "page_order r = (case m_timestamp r of None \<Rightarrow> 0 | Some s \<Rightarrow> s, m_id r)"

definition unread_of :: "message_row \<Rightarrow> unreadInboundMessage option" where
  "unread_of r = map_option (\<lambda>ts. \<lparr>u_ID = m_id r, u_Sender = bareSenderUser (case m_sender r of Some s \<Rightarrow> s | None \<Rightarrow> []), u_Timestamp = ts\<rparr>)
     (anchorTime (m_timestamp r))"

definition UnreadInboundMessages :: "receipt_db \<Rightarrow> string \<Rightarrow> instant \<Rightarrow> nat \<Rightarrow> unreadInboundMessage list" where
  "UnreadInboundMessages d chat upTo limit =
     (let rows = sort_key page_order (filter (unread_row d chat upTo) (rd_rows d))
      in List.map_filter unread_of (if limit > 0 then take limit rows else rows))"

text \<open>The saved progress: the latest flagged message above the marker, before the first one still pending. The
  bound on it when nothing is pending is the last second of the year 9999.\<close>

definition far_future :: int where "far_future = 253402300799"

definition flagged_times :: "receipt_db \<Rightarrow> string \<Rightarrow> instant \<Rightarrow> int list" where
  "flagged_times d chat upTo = map (the \<circ> m_timestamp)
     (filter (\<lambda>r. inbound_in chat r \<and> message_key r \<in> rd_flagged d \<and> time_in (last_read_time chat (rd_chats d)) (dbTime upTo) r) (rd_rows d))"

definition pending_times :: "receipt_db \<Rightarrow> string \<Rightarrow> instant \<Rightarrow> int list" where
  "pending_times d chat upTo = map (the \<circ> m_timestamp) (filter (unread_row d chat upTo) (rd_rows d))"

definition AcknowledgedReceiptPrefix :: "receipt_db \<Rightarrow> string \<Rightarrow> instant \<Rightarrow> instant option" where
  "AcknowledgedReceiptPrefix d chat upTo =
     (let waiting = pending_times d chat upTo;
          bound = (case waiting of [] \<Rightarrow> far_future | t # ts \<Rightarrow> foldl min t ts)
      in case filter (\<lambda>s. s < bound) (flagged_times d chat upTo) of
           [] \<Rightarrow> None
         | t # ts \<Rightarrow> anchorTime (Some (foldl max t ts)))"

definition maxMessageTimestampWith :: "message_row list \<Rightarrow> string \<Rightarrow> string list \<Rightarrow> instant option" where
  "maxMessageTimestampWith rows chat ids =
     (if ids = [] then None
      else case List.map_filter m_timestamp (filter (\<lambda>r. m_chat r = chat \<and> m_id r \<in> set ids) rows) of
             [] \<Rightarrow> None
           | t # ts \<Rightarrow> anchorTime (Some (foldl max t ts)))"

definition ValidateInboundMarkRead :: "jid_sdk \<Rightarrow> message_row list \<Rightarrow> string \<Rightarrow> string \<Rightarrow> string list \<Rightarrow> bool" where
  "ValidateInboundMarkRead sdk rows chat senderHint ids =
     (let hint = bareSenderUser senderHint;
          expected = (if hint = [] then (case ParseJID sdk chat of Some j \<Rightarrow> User j | None \<Rightarrow> []) else hint)
      in expected \<noteq> []
         \<and> list_all (\<lambda>i. case row_of message_key (i, chat) rows of
                          None \<Rightarrow> False
                        | Some r \<Rightarrow> m_sender r \<noteq> None \<and> \<not> m_own r \<and> bareSenderUser (the (m_sender r)) = expected) ids)"

section \<open>Grouping and coverage\<close>

definition markReadBatch :: nat where "markReadBatch = 100"
definition markReadMaxMessages :: nat where "markReadMaxMessages = 2000"

record senderBatch =
  sb_sender :: string
  sb_ids :: "string list"

text \<open>\<open>add_to_batch\<close> is one step of the loop: the message joins its sender's batch, or opens one at the end.\<close>

fun add_to_batch :: "string \<Rightarrow> string \<Rightarrow> senderBatch list \<Rightarrow> senderBatch list" where
  "add_to_batch sender i [] = [\<lparr>sb_sender = sender, sb_ids = [i]\<rparr>]"
| "add_to_batch sender i (g # gs) = (if sb_sender g = sender then g\<lparr>sb_ids := sb_ids g @ [i]\<rparr> # gs else g # add_to_batch sender i gs)"

definition unaddressed :: "jid \<Rightarrow> unreadInboundMessage \<Rightarrow> bool" where
  "unaddressed chatJID u \<longleftrightarrow> u_Sender u = [] \<or> u_Sender u = User chatJID"

definition one_to_one :: "jid \<Rightarrow> bool" where
  "one_to_one chatJID \<longleftrightarrow> Server chatJID = DefaultUserServer \<or> Server chatJID = HiddenUserServer"

definition groupBySender :: "unreadInboundMessage list \<Rightarrow> jid \<Rightarrow> senderBatch list \<times> string list" where
  "groupBySender pending chatJID =
     (if one_to_one chatJID then ([\<lparr>sb_sender = [], sb_ids = map u_ID pending\<rparr>], [])
      else (foldl (\<lambda>gs u. if unaddressed chatJID u then gs else add_to_batch (u_Sender u) (u_ID u) gs) [] pending,
            map u_ID (filter (unaddressed chatJID) pending)))"

fun trim_tie :: "unreadInboundMessage list \<Rightarrow> instant \<Rightarrow> nat \<Rightarrow> nat" where
  "trim_tie pending boundary 0 = 0"
| "trim_tie pending boundary (Suc n) =
     (if u_Timestamp (pending ! n) < boundary then Suc n else trim_tie pending boundary n)"

definition coveredPrefix :: "unreadInboundMessage list \<Rightarrow> string set \<Rightarrow> unreadInboundMessage option \<Rightarrow> nat" where
  "coveredPrefix pending acked overflow =
     (let covered = length (takeWhile (\<lambda>u. u_ID u \<in> acked) pending);
          boundary = (if covered < length pending then Some (u_Timestamp (pending ! covered)) else map_option u_Timestamp overflow)
      in case boundary of
           None \<Rightarrow> covered
         | Some b \<Rightarrow>
             let trimmed = trim_tie pending b covered
             in if trimmed = 0 \<and> covered = length pending then covered else trimmed)"

section \<open>The runtime\<close>

datatype receipt_query = Q_unread | Q_prefix | Q_validate | Q_max

record markReadDeps =
  md_sdk :: jid_sdk
  md_allowSend :: "nat \<Rightarrow> nat option"
  md_policy :: chatPolicy
  md_connected :: bool
  md_resolve :: "string \<Rightarrow> jid option"
  md_markRead :: "nat \<Rightarrow> bool"
  md_query :: "receipt_query \<Rightarrow> bool"
  md_verdict :: "nat \<Rightarrow> store_error option"
  md_wait :: "duration \<Rightarrow> bool"

text \<open>One receipt the network accepted.\<close>

record receipt =
  rc_ids :: "string list"
  rc_readAt :: instant
  rc_chat :: jid
  rc_sender :: jid

definition EmptyJID :: jid where "EmptyJID = NewJID [] []"

definition addressable :: "jid option \<Rightarrow> jid option" where
  "addressable j = (case j of None \<Rightarrow> None | Some k \<Rightarrow> if User k = [] \<or> Server k = [] then None else Some k)"

definition store_live :: "markReadDeps \<Rightarrow> (receipt_db \<Rightarrow> receipt_db) \<Rightarrow> receipt_db store \<Rightarrow> bool \<times> receipt_db store" where
  "store_live deps f s = storeLive (tx_write (md_verdict deps) f) (\<lambda>delay s. (md_wait deps delay, s)) s"

definition mark_chat :: "string \<Rightarrow> instant \<Rightarrow> receipt_db \<Rightarrow> receipt_db" where
  "mark_chat chat readAt d = d\<lparr>rd_chats := markChatReadWith chat readAt (rd_chats d)\<rparr>"

text \<open>The writes answer whether a warning goes with the response.\<close>

definition persistReadMarker :: "markReadDeps \<Rightarrow> string \<Rightarrow> instant \<Rightarrow> receipt_db store \<Rightarrow> bool \<times> receipt_db store" where
  "persistReadMarker deps chat readAt s = (let (ok, s1) = store_live deps (mark_chat chat readAt) s in (\<not> ok, s1))"

definition persistAcknowledgedReceiptPrefix :: "markReadDeps \<Rightarrow> string \<Rightarrow> instant \<Rightarrow> receipt_db store \<Rightarrow> bool \<times> receipt_db store" where
  "persistAcknowledgedReceiptPrefix deps chat upTo s =
     (if \<not> md_query deps Q_prefix then (True, s)
      else case AcknowledgedReceiptPrefix (st_data s) chat upTo of
             None \<Rightarrow> (False, s)
           | Some readAt \<Rightarrow> persistReadMarker deps chat readAt s)"

definition flag_receipts :: "string \<Rightarrow> string set \<Rightarrow> receipt_db \<Rightarrow> receipt_db" where
  "flag_receipts chat ids d =
     d\<lparr>rd_flagged := rd_flagged d \<union> set (map message_key (filter (\<lambda>r. m_chat r = chat \<and> m_id r \<in> ids \<and> \<not> m_own r) (rd_rows d)))\<rparr>"

definition receipt_progress :: "string \<Rightarrow> unreadInboundMessage list \<Rightarrow> string set \<Rightarrow> unreadInboundMessage option \<Rightarrow> receipt_db \<Rightarrow> receipt_db" where
  "receipt_progress chat pending acked overflow d =
     (let covered = coveredPrefix pending acked overflow;
          d1 = flag_receipts chat (set (filter (\<lambda>i. i \<in> acked) (map u_ID pending))) d
      in if covered > 0 then mark_chat chat (u_Timestamp (pending ! (covered - 1))) d1 else d1)"

definition persistRefusedReceiptProgress :: "markReadDeps \<Rightarrow> string \<Rightarrow> unreadInboundMessage list \<Rightarrow> string set
    \<Rightarrow> unreadInboundMessage option \<Rightarrow> receipt_db store \<Rightarrow> receipt_db store" where
  "persistRefusedReceiptProgress deps chat pending acked overflow s =
     (if acked = {} then s else snd (store_live deps (receipt_progress chat pending acked overflow) s))"

section \<open>The receipts of a whole chat\<close>

text \<open>What the loop over the senders keeps: the acknowledged messages, the receipts so far, the calls of the gate,
  and whether something failed.\<close>

record receipt_run =
  rr_acked :: "string set"
  rr_receipts :: "receipt list"
  rr_gates :: nat
  rr_failed :: bool

datatype run_end = Run_on | Run_fatal | Run_refused nat

function chunks_of :: "'a list \<Rightarrow> 'a list list" where
  "chunks_of ids = (if ids = [] then [] else take markReadBatch ids # chunks_of (drop markReadBatch ids))"
  by pat_completeness auto

termination chunks_of
  by (relation "measure length") (auto simp: markReadBatch_def)

declare chunks_of.simps [simp del]

fun send_chunks :: "markReadDeps \<Rightarrow> instant \<Rightarrow> jid \<Rightarrow> jid \<Rightarrow> string list list \<Rightarrow> receipt_run \<Rightarrow> run_end \<times> receipt_run" where
  "send_chunks deps readAt chat sender [] st = (Run_on, st)"
| "send_chunks deps readAt chat sender (chunk # rest) st =
     (case md_allowSend deps (rr_gates st) of
        Some status \<Rightarrow> (Run_refused status, st)
      | None \<Rightarrow>
          let st1 = st\<lparr>rr_gates := rr_gates st + 1\<rparr>
          in if \<not> md_markRead deps (length (rr_receipts st)) then (Run_fatal, st1\<lparr>rr_failed := True\<rparr>)
             else send_chunks deps readAt chat sender rest
                    (st1\<lparr>rr_acked := rr_acked st \<union> set chunk,
                         rr_receipts := rr_receipts st @ [\<lparr>rc_ids = chunk, rc_readAt = readAt, rc_chat = chat, rc_sender = sender\<rparr>]\<rparr>))"

fun send_groups :: "markReadDeps \<Rightarrow> instant \<Rightarrow> jid \<Rightarrow> senderBatch list \<Rightarrow> receipt_run \<Rightarrow> run_end \<times> receipt_run" where
  "send_groups deps readAt chat [] st = (Run_on, st)"
| "send_groups deps readAt chat (g # gs) st =
     (case (if sb_sender g = [] then Some EmptyJID else addressable (md_resolve deps (sb_sender g))) of
        None \<Rightarrow> send_groups deps readAt chat gs (st\<lparr>rr_failed := True\<rparr>)
      | Some sender \<Rightarrow>
          (case send_chunks deps readAt chat sender (chunks_of (sb_ids g)) st of
             (Run_on, st1) \<Rightarrow> send_groups deps readAt chat gs st1
           | stopped \<Rightarrow> stopped))"

record MarkReadRequest =
  mr_MessageIDs :: "string list"
  mr_ChatJID :: string
  mr_SenderJID :: string
  mr_Timestamp :: string
  mr_UpTo :: string

record MarkReadResponse =
  mp_Success :: bool
  mp_Messages :: nat
  mp_Senders :: nat
  mp_Batches :: nat
  mp_Truncated :: bool
  mp_warning :: bool

definition no_response :: MarkReadResponse where
  "no_response = \<lparr>mp_Success = False, mp_Messages = 0, mp_Senders = 0, mp_Batches = 0, mp_Truncated = False, mp_warning = False\<rparr>"

record mark_outcome =
  mo_status :: nat
  mo_response :: MarkReadResponse
  mo_receipts :: "receipt list"
  mo_store :: "receipt_db store"

definition mark_stops :: "nat \<Rightarrow> receipt_db store \<Rightarrow> mark_outcome" where
  "mark_stops status s = \<lparr>mo_status = status, mo_response = no_response, mo_receipts = [], mo_store = s\<rparr>"

definition save_marker :: "markReadDeps \<Rightarrow> string \<Rightarrow> instant \<Rightarrow> unreadInboundMessage list \<Rightarrow> nat \<Rightarrow> receipt_db store \<Rightarrow> bool \<times> receipt_db store" where
  "save_marker deps chat upTo pending covered s =
     (case (if covered > 0 then persistReadMarker deps chat (u_Timestamp (pending ! (covered - 1))) s else (False, s)) of
        (w1, s1) \<Rightarrow> if w1 then (True, s1) else persistAcknowledgedReceiptPrefix deps chat upTo s1)"

definition finish_run :: "markReadDeps \<Rightarrow> string \<Rightarrow> instant \<Rightarrow> unreadInboundMessage list \<Rightarrow> unreadInboundMessage option \<Rightarrow> nat
    \<Rightarrow> run_end \<times> receipt_run \<Rightarrow> receipt_db store \<Rightarrow> mark_outcome" where
  "finish_run deps chat upTo pending overflow senders run s =
     (let st = snd run
      in case fst run of
           Run_refused status \<Rightarrow>
             let s1 = persistRefusedReceiptProgress deps chat pending (rr_acked st) overflow s
             in \<lparr>mo_status = status, mo_response = no_response, mo_receipts = rr_receipts st,
                 mo_store = snd (persistAcknowledgedReceiptPrefix deps chat upTo s1)\<rparr>
         | _ \<Rightarrow>
             let covered = coveredPrefix pending (rr_acked st) overflow;
                 saved = save_marker deps chat upTo pending covered s
             in \<lparr>mo_status = (if rr_failed st then 500 else 200),
                 mo_response = \<lparr>mp_Success = \<not> rr_failed st, mp_Messages = covered, mp_Senders = senders,
                   mp_Batches = length (rr_receipts st), mp_Truncated = (overflow \<noteq> None), mp_warning = fst saved\<rparr>,
                 mo_receipts = rr_receipts st, mo_store = snd saved\<rparr>)"

definition send_pending :: "markReadDeps \<Rightarrow> string \<Rightarrow> jid \<Rightarrow> jid \<Rightarrow> instant \<Rightarrow> instant \<Rightarrow> unreadInboundMessage list
    \<Rightarrow> unreadInboundMessage option \<Rightarrow> receipt_db store \<Rightarrow> mark_outcome" where
  "send_pending deps chat chatJID receiptChat readAt upTo pending overflow s =
     (let (groups, unaddressable) = groupBySender pending chatJID;
          st = \<lparr>rr_acked = set unaddressable, rr_receipts = [], rr_gates = 0, rr_failed = False\<rparr>
      in finish_run deps chat upTo pending overflow (length groups) (send_groups deps readAt receiptChat groups st) s)"

definition markWholeChatRead :: "markReadDeps \<Rightarrow> MarkReadRequest \<Rightarrow> jid \<Rightarrow> instant \<Rightarrow> instant \<Rightarrow> receipt_db store \<Rightarrow> mark_outcome" where
  "markWholeChatRead deps req chatJID readAt now s =
     (if TrimSpace (mr_SenderJID req) \<noteq> [] then mark_stops 400 s
      else case (if TrimSpace (mr_UpTo req) = [] then Some now else parse_rfc3339 (TrimSpace (mr_UpTo req))) of
        None \<Rightarrow> mark_stops 400 s
      | Some upTo \<Rightarrow>
          if \<not> md_connected deps then mark_stops 503 s
          else if \<not> md_query deps Q_unread then mark_stops 500 s
          else
            let page = UnreadInboundMessages (st_data s) (mr_ChatJID req) upTo (markReadMaxMessages + 1);
                overflow = (if length page > markReadMaxMessages then Some (page ! markReadMaxMessages) else None);
                pending = take markReadMaxMessages page
            in if pending = []
               then let (w, s1) = persistAcknowledgedReceiptPrefix deps (mr_ChatJID req) upTo s
                    in \<lparr>mo_status = 200, mo_response = no_response\<lparr>mp_Success := True, mp_warning := w\<rparr>, mo_receipts = [], mo_store = s1\<rparr>
               else case addressable (md_resolve deps (mr_ChatJID req)) of
                      None \<Rightarrow> mark_stops 400 s
                    | Some receiptChat \<Rightarrow> send_pending deps (mr_ChatJID req) chatJID receiptChat readAt upTo pending overflow s)"

section \<open>The receipt of a list\<close>

definition parseSenderJID :: "jid_sdk \<Rightarrow> string \<Rightarrow> jid option" where
  "parseSenderJID sdk sender = addressable (parseRecipientJID sdk (TrimSpace sender))"

definition listed_sender_fits :: "jid_sdk \<Rightarrow> jid \<Rightarrow> string \<Rightarrow> bool" where
  "listed_sender_fits sdk chatJID sender =
     (if sender \<noteq> [] then parseSenderJID sdk sender \<noteq> None else Server chatJID \<noteq> ''g.us'')"

definition send_listed :: "markReadDeps \<Rightarrow> MarkReadRequest \<Rightarrow> instant \<Rightarrow> jid \<Rightarrow> jid \<Rightarrow> receipt_db store \<Rightarrow> mark_outcome" where
  "send_listed deps req readAt receiptChat receiptSender s =
     (case md_allowSend deps 0 of
        Some status \<Rightarrow> mark_stops status s
      | None \<Rightarrow>
          if \<not> md_markRead deps 0 then mark_stops 500 s
          else
            let found = (if md_query deps Q_max then maxMessageTimestampWith (rd_rows (st_data s)) (mr_ChatJID req) (mr_MessageIDs req) else None);
                (w, s1) = persistReadMarker deps (mr_ChatJID req) (case found of Some ts \<Rightarrow> ts | None \<Rightarrow> readAt) s
            in \<lparr>mo_status = 200,
                mo_response = \<lparr>mp_Success = True, mp_Messages = length (mr_MessageIDs req), mp_Senders = 1, mp_Batches = 1,
                  mp_Truncated = False, mp_warning = w\<rparr>,
                mo_receipts = [\<lparr>rc_ids = mr_MessageIDs req, rc_readAt = readAt, rc_chat = receiptChat, rc_sender = receiptSender\<rparr>],
                mo_store = s1\<rparr>)"

definition markListedRead :: "markReadDeps \<Rightarrow> MarkReadRequest \<Rightarrow> jid \<Rightarrow> instant \<Rightarrow> receipt_db store \<Rightarrow> mark_outcome" where
  "markListedRead deps req chatJID readAt s =
     (if TrimSpace (mr_UpTo req) \<noteq> [] then mark_stops 400 s
      else if list_ex (\<lambda>i. TrimSpace i = []) (mr_MessageIDs req) then mark_stops 400 s
      else if \<not> listed_sender_fits (md_sdk deps) chatJID (mr_SenderJID req) then mark_stops 400 s
      else if \<not> md_connected deps then mark_stops 503 s
      else if \<not> md_query deps Q_validate
           \<or> \<not> ValidateInboundMarkRead (md_sdk deps) (rd_rows (st_data s)) (mr_ChatJID req) (mr_SenderJID req) (mr_MessageIDs req)
      then mark_stops 400 s
      else case addressable (md_resolve deps (mr_ChatJID req)) of
             None \<Rightarrow> mark_stops 400 s
           | Some receiptChat \<Rightarrow>
               (case (if mr_SenderJID req = [] then Some EmptyJID else addressable (md_resolve deps (mr_SenderJID req))) of
                  None \<Rightarrow> mark_stops 400 s
                | Some receiptSender \<Rightarrow> send_listed deps req readAt receiptChat receiptSender s))"

definition markReadHandler :: "markReadDeps \<Rightarrow> MarkReadRequest option \<Rightarrow> instant \<Rightarrow> receipt_db store \<Rightarrow> mark_outcome" where
  "markReadHandler deps body now s =
     (case body of
        None \<Rightarrow> mark_stops 400 s
      | Some req0 \<Rightarrow>
          let req = req0\<lparr>mr_ChatJID := TrimSpace (mr_ChatJID req0)\<rparr>
          in if mr_ChatJID req = [] then mark_stops 400 s
             else case authorizeChat (md_sdk deps) (md_policy deps) (mr_ChatJID req) False of
                    Inl status \<Rightarrow> mark_stops status s
                  | Inr chatJID \<Rightarrow>
                      (case (if mr_Timestamp req = [] then Some now else parse_rfc3339 (mr_Timestamp req)) of
                         None \<Rightarrow> mark_stops 400 s
                       | Some readAt \<Rightarrow>
                           if mr_MessageIDs req = [] then markWholeChatRead deps req chatJID readAt now s
                           else markListedRead deps req chatJID readAt s))"

section \<open>The page\<close>

lemma dbTime_seconds [simp]: "dbTime (s * second) = s"
  by (simp add: dbTime_def time_unit_defs)

definition no_zero_time :: "receipt_db \<Rightarrow> bool" where
  "no_zero_time d \<longleftrightarrow> list_all (\<lambda>r. m_timestamp r \<noteq> Some zero_seconds) (rd_rows d)"

definition row_sender :: "message_row \<Rightarrow> string" where
  "row_sender r = bareSenderUser (case m_sender r of Some s \<Rightarrow> s | None \<Rightarrow> [])"

definition row_second :: "message_row \<Rightarrow> int" where
  "row_second r = (case m_timestamp r of None \<Rightarrow> 0 | Some s \<Rightarrow> s)"

definition unread_entry :: "message_row \<Rightarrow> unreadInboundMessage" where
  "unread_entry r = \<lparr>u_ID = m_id r, u_Sender = row_sender r, u_Timestamp = row_second r * second\<rparr>"

definition unread_rows :: "receipt_db \<Rightarrow> string \<Rightarrow> instant \<Rightarrow> message_row list" where
  "unread_rows d chat upTo = sort_key page_order (filter (unread_row d chat upTo) (rd_rows d))"

lemma entry_sel [simp]:
  "u_ID (unread_entry r) = m_id r" "u_Sender (unread_entry r) = row_sender r" "u_Timestamp (unread_entry r) = row_second r * second"
  by (simp_all add: unread_entry_def)

lemma set_unread_rows [simp]: "set (unread_rows d chat upTo) = {r \<in> set (rd_rows d). unread_row d chat upTo r}"
  by (auto simp: unread_rows_def)

lemma unread_rows_sorted: "sorted (map row_second (unread_rows d chat upTo))"
proof -
  have "sorted (map page_order (unread_rows d chat upTo))"
    by (simp add: unread_rows_def)
  then show ?thesis
    unfolding sorted_map by (rule sorted_wrt_mono_rel [rotated]) (auto simp: page_order_def row_second_def less_eq_prod_def)
qed

lemma unread_row_time:
  "unread_row d chat upTo r \<Longrightarrow>
     m_timestamp r = Some (row_second r) \<and> row_second r \<le> dbTime upTo \<and> inbound_in chat r \<and> message_key r \<notin> rd_flagged d
     \<and> (\<forall>k. last_read_time chat (rd_chats d) = Some k \<longrightarrow> k < row_second r)"
  by (auto simp: unread_row_def time_in_def row_second_def split: option.splits)

lemma map_filter_total: "(\<And>x. x \<in> set xs \<Longrightarrow> f x = Some (g x)) \<Longrightarrow> List.map_filter f xs = map g xs"
  by (induction xs) (simp_all add: List.map_filter_simps)

lemma page_eq:
  assumes "no_zero_time d" "n > 0"
  shows "UnreadInboundMessages d chat upTo n = map unread_entry (take n (unread_rows d chat upTo))"
proof -
  have "unread_of r = Some (unread_entry r)" if r: "r \<in> set (take n (unread_rows d chat upTo))" for r
  proof -
    from r have "r \<in> set (unread_rows d chat upTo)" by (rule in_set_takeD)
    then have "r \<in> set (rd_rows d)" "m_timestamp r = Some (row_second r)"
      using unread_row_time [of d chat upTo r] by auto
    then show ?thesis using assms(1)
      by (auto simp: unread_of_def anchorTime_def no_zero_time_def list_all_iff unread_entry_def row_sender_def)
  qed
  then show ?thesis using assms(2)
    by (simp add: UnreadInboundMessages_def unread_rows_def Let_def map_filter_total)
qed

lemma page_sound:
  assumes "u \<in> set (UnreadInboundMessages d chat upTo n)"
  obtains r where "r \<in> set (rd_rows d)" "unread_row d chat upTo r" "u_ID u = m_id r" "u_Sender u = row_sender r"
proof -
  from assms obtain r where r: "unread_of r = Some u" "r \<in> set (unread_rows d chat upTo)"
    by (auto simp: UnreadInboundMessages_def Let_def List.map_filter_def unread_rows_def split: if_splits dest: in_set_takeD)
  then have "u_ID u = m_id r" "u_Sender u = row_sender r" by (auto simp: unread_of_def row_sender_def)
  with r(2) show thesis by (intro that [of r]) simp_all
qed

section \<open>Coverage of the marker\<close>

lemma trim_tie_le: "trim_tie p b n \<le> n"
  by (induction n) (simp_all add: le_SucI)

lemma trim_tie_before: "trim_tie p b n > 0 \<Longrightarrow> u_Timestamp (p ! (trim_tie p b n - 1)) < b"
  by (induction n) (simp_all split: if_splits)

lemma trim_tie_none: "trim_tie p b n = 0 \<Longrightarrow> i < n \<Longrightarrow> b \<le> u_Timestamp (p ! i)"
  by (induction n) (auto split: if_splits simp: less_Suc_eq)

lemma takeWhile_index: "i < length (takeWhile P xs) \<Longrightarrow> P (xs ! i)"
  by (metis nth_mem set_takeWhileD takeWhile_nth)

lemma covered_le: "coveredPrefix p acked over \<le> length p"
proof -
  have c: "length (takeWhile (\<lambda>u. u_ID u \<in> acked) p) \<le> length p" by (rule length_takeWhile_le)
  show ?thesis
    by (auto simp: coveredPrefix_def Let_def c split: option.split intro: order_trans [OF trim_tie_le c])
qed

lemma covered_acked:
  assumes srt: "sorted (map u_Timestamp p)" and pos: "coveredPrefix p acked over > 0"
    and i: "i < length p" "u_Timestamp (p ! i) \<le> u_Timestamp (p ! (coveredPrefix p acked over - 1))"
  shows "u_ID (p ! i) \<in> acked"
proof -
  define c where "c = length (takeWhile (\<lambda>u. u_ID u \<in> acked) p)"
  have front: "u_ID (p ! j) \<in> acked" if "j < c" for j
    using that takeWhile_index [of j "\<lambda>u. u_ID u \<in> acked" p] by (simp add: c_def)
  show ?thesis
  proof (cases "c < length p")
    case False
    with i(1) show ?thesis by (intro front) linarith
  next
    case True
    let ?b = "u_Timestamp (p ! c)"
    have eq: "coveredPrefix p acked over = trim_tie p ?b c"
      using True by (simp add: coveredPrefix_def Let_def c_def [symmetric])
    have "u_Timestamp (p ! i) < ?b" using trim_tie_before [of p ?b c] pos i(2) eq by simp
    then have "i < c" using srt True i(1) by (metis length_map linorder_not_le nth_map sorted_nth_mono)
    then show ?thesis by (rule front)
  qed
qed

lemma covered_overflow:
  assumes srt: "sorted (map u_Timestamp (p @ [x]))" and pos: "coveredPrefix p acked (Some x) > 0"
  shows "u_Timestamp (p ! (coveredPrefix p acked (Some x) - 1)) < u_Timestamp x
     \<or> coveredPrefix p acked (Some x) = length p \<and> (\<forall>u \<in> set p. u_Timestamp u = u_Timestamp x)"
proof -
  define c where "c = length (takeWhile (\<lambda>u. u_ID u \<in> acked) p)"
  define b where "b = (if c < length p then u_Timestamp (p ! c) else u_Timestamp x)"
  define k where "k = trim_tie p b c"
  have le: "u_Timestamp u \<le> u_Timestamp x" if "u \<in> set p" for u
    using srt that by (auto simp: sorted_append)
  have c: "c \<le> length p" by (simp add: c_def length_takeWhile_le)
  have eq: "coveredPrefix p acked (Some x) = (if k = 0 \<and> c = length p then c else k)"
    using c by (auto simp: coveredPrefix_def Let_def c_def [symmetric] k_def b_def)
  have bx: "b \<le> u_Timestamp x" by (simp add: b_def le)
  show ?thesis
  proof (cases "k = 0")
    case True
    then have full: "c = length p" using pos eq by (auto split: if_splits)
    have "u_Timestamp u = u_Timestamp x" if "u \<in> set p" for u
    proof -
      from that obtain j where j: "j < length p" "u = p ! j" by (auto simp: in_set_conv_nth)
      then have "b \<le> u_Timestamp u" using trim_tie_none [of p b c j] True full by (simp add: k_def)
      with full le [OF that] show ?thesis by (simp add: b_def)
    qed
    with eq True full show ?thesis by simp
  next
    case False
    then have "u_Timestamp (p ! (k - 1)) < b" using trim_tie_before [of p b c] by (simp add: k_def)
    with False eq bx show ?thesis by simp
  qed
qed

lemma covered_all:
  assumes "p \<noteq> []" "\<forall>u \<in> set p. u_ID u \<in> acked"
  shows "coveredPrefix p acked over > 0"
proof -
  have all: "takeWhile (\<lambda>u. u_ID u \<in> acked) p = p" using assms(2) by (simp add: takeWhile_eq_all_conv)
  show ?thesis unfolding coveredPrefix_def all using assms(1) by (simp add: Let_def split: option.split)
qed

section \<open>The effect of the writes\<close>

lemma store_live_effect:
  assumes "store_live deps f s = (ok, t)"
  shows "st_data t = (if ok then f (st_data s) else st_data s)" "st_failures t = st_failures s + (if ok then 0 else 1)"
  using storeLive_effect [OF _ assms [unfolded store_live_def]] by simp_all

lemma mark_chat_sel [simp]:
  "rd_rows (mark_chat chat at_time d) = rd_rows d" "rd_flagged (mark_chat chat at_time d) = rd_flagged d"
  by (simp_all add: mark_chat_def)

lemma mark_chat_marker:
  assumes "keyed c_jid (rd_chats d)"
  shows "last_read_time chat (rd_chats (mark_chat chat at_time d)) = later (last_read_time chat (rd_chats d)) (Some (dbTime at_time))"
    and "keyed c_jid (rd_chats (mark_chat chat at_time d))"
  using last_read_time_op [OF assms, of chat "MarkChatRead chat at_time"] run_op_keyed [OF assms, of "MarkChatRead chat at_time"]
  by (simp_all add: mark_chat_def)

lemma later_bound: "later a (Some b) = Some k \<Longrightarrow> k = b \<or> a = Some k"
  by (auto simp: later_def split: option.splits if_splits)

lemma later_reaches: "\<exists>k. later a (Some b) = Some k \<and> b \<le> k"
  by (auto simp: later_def split: option.split)

text \<open>Marking a chat keeps every later message unread, and makes no message unread.\<close>

lemma mark_keeps_unread:
  assumes "keyed c_jid (rd_chats d)" "unread_row d chat u r" "dbTime at_time < row_second r"
  shows "unread_row (mark_chat chat at_time d) chat u r"
proof -
  have "k < row_second r" if "last_read_time chat (rd_chats (mark_chat chat at_time d)) = Some k" for k
    using that mark_chat_marker(1) [OF assms(1)] later_bound [of "last_read_time chat (rd_chats d)" "dbTime at_time" k]
      unread_row_time [OF assms(2)] assms(3) by auto
  with unread_row_time [OF assms(2)] show ?thesis
    by (auto simp: unread_row_def time_in_def split: option.split)
qed

lemma mark_only_reads:
  assumes "keyed c_jid (rd_chats d)" "unread_row (mark_chat chat at_time d) chat u r"
  shows "unread_row d chat u r \<and> dbTime at_time < row_second r"
proof -
  obtain k where k: "last_read_time chat (rd_chats (mark_chat chat at_time d)) = Some k" "dbTime at_time \<le> k"
    using mark_chat_marker(1) [OF assms(1)] later_reaches [of "last_read_time chat (rd_chats d)" "dbTime at_time"] by auto
  have old: "j \<le> k" if "last_read_time chat (rd_chats d) = Some j" for j
    using that k(1) mark_chat_marker(1) [OF assms(1), of chat at_time] by (auto simp: later_def split: if_splits)
  from unread_row_time [OF assms(2)] k old show ?thesis
    by (fastforce simp: unread_row_def time_in_def split: option.split)
qed

lemma foldl_extremes:
  "foldl min (t :: int) ts = Min (set (t # ts))" "foldl max (t :: int) ts = Max (set (t # ts))"
  unfolding Min.set_eq_fold Max.set_eq_fold foldl_conv_fold by (simp_all only: min.commute max.commute)

text \<open>The saved progress never passes a message that is still unread.\<close>

lemma prefix_before_unread:
  assumes "AcknowledgedReceiptPrefix d chat upTo = Some x" "r \<in> set (rd_rows d)" "unread_row d chat u r"
  shows "dbTime x < row_second r"
proof -
  define waiting where "waiting = pending_times d chat upTo"
  define bound where "bound = (case waiting of [] \<Rightarrow> far_future | t # ts \<Rightarrow> foldl min t ts)"
  define below where "below = filter (\<lambda>s. s < bound) (flagged_times d chat upTo)"
  from assms(1) obtain t ts where b: "below = t # ts" and x: "anchorTime (Some (foldl max t ts)) = Some x"
    by (auto simp: AcknowledgedReceiptPrefix_def Let_def waiting_def bound_def below_def split: list.splits)
  define m where "m = Max (set below)"
  have m: "m \<in> set below" using b by (simp add: m_def del: list.set)
  have xm: "dbTime x = m" using x b by (auto simp: anchorTime_def foldl_extremes m_def split: if_splits)
  have flagged: "m \<in> set (flagged_times d chat upTo)" "m < bound" using m by (auto simp: below_def)
  have up: "m \<le> dbTime upTo" using flagged(1) by (auto simp: flagged_times_def time_in_def split: option.splits)
  note row = unread_row_time [OF assms(3)]
  show ?thesis
  proof (cases "row_second r \<le> dbTime upTo")
    case False
    with up xm show ?thesis by simp
  next
    case True
    then have "unread_row d chat upTo r" using assms(3) row by (auto simp: unread_row_def time_in_def split: option.splits)
    then have w: "row_second r \<in> set waiting"
      using assms(2) row by (force simp: waiting_def pending_times_def)
    then have "bound \<le> row_second r" by (cases waiting) (auto simp: bound_def foldl_extremes)
    with flagged(2) xm show ?thesis by simp
  qed
qed

text \<open>A write that leaves the rows and the flags alone and never reads past an unread message.\<close>

definition gentle :: "string \<Rightarrow> receipt_db \<Rightarrow> receipt_db \<Rightarrow> bool" where
  "gentle chat d e \<longleftrightarrow> rd_rows e = rd_rows d \<and> rd_flagged d \<subseteq> rd_flagged e \<and> keyed c_jid (rd_chats e)
     \<and> (\<forall>u r. unread_row e chat u r \<longrightarrow> unread_row d chat u r)"

lemma gentle_refl: "keyed c_jid (rd_chats d) \<Longrightarrow> gentle chat d d"
  by (simp add: gentle_def)

lemma gentle_trans: "gentle chat d e \<Longrightarrow> gentle chat e f \<Longrightarrow> gentle chat d f"
  by (auto simp: gentle_def)

lemma gentle_mark: "keyed c_jid (rd_chats d) \<Longrightarrow> gentle chat d (mark_chat chat at_time d)"
  using mark_only_reads [of d chat at_time] by (auto simp: gentle_def mark_chat_marker)

lemma gentle_flag: "keyed c_jid (rd_chats d) \<Longrightarrow> gentle chat d (flag_receipts chat ids d)"
  by (auto simp: gentle_def flag_receipts_def unread_row_def)

lemma persist_marker_effect:
  assumes "persistReadMarker deps chat at_time s = (w, t)"
  shows "st_data t = (if w then st_data s else mark_chat chat at_time (st_data s))" "st_failures t = st_failures s + (if w then 1 else 0)"
proof -
  from assms have "store_live deps (mark_chat chat at_time) s = (\<not> w, t)"
    by (auto simp: persistReadMarker_def split: prod.splits)
  from store_live_effect [OF this]
  show "st_data t = (if w then st_data s else mark_chat chat at_time (st_data s))" "st_failures t = st_failures s + (if w then 1 else 0)"
    by auto
qed

lemma persist_prefix_effect:
  assumes "persistAcknowledgedReceiptPrefix deps chat upTo s = (w, t)" and k: "keyed c_jid (rd_chats (st_data s))"
  shows "gentle chat (st_data s) (st_data t)" "rd_flagged (st_data t) = rd_flagged (st_data s)"
    "r \<in> set (rd_rows (st_data s)) \<Longrightarrow> unread_row (st_data s) chat u r \<Longrightarrow> unread_row (st_data t) chat u r"
    "st_failures s \<le> st_failures t"
proof -
  have "t = s \<or> (\<exists>x. AcknowledgedReceiptPrefix (st_data s) chat upTo = Some x \<and> persistReadMarker deps chat x s = (w, t))"
    using assms(1) by (auto simp: persistAcknowledgedReceiptPrefix_def split: if_splits option.splits)
  then have t: "st_failures s \<le> st_failures t \<and> (st_data t = st_data s
      \<or> (\<exists>x. AcknowledgedReceiptPrefix (st_data s) chat upTo = Some x \<and> st_data t = mark_chat chat x (st_data s)))"
    using persist_marker_effect [of deps chat _ s w t] by (cases w) auto
  then show "gentle chat (st_data s) (st_data t)" "rd_flagged (st_data t) = rd_flagged (st_data s)" "st_failures s \<le> st_failures t"
    using gentle_refl [OF k] gentle_mark [OF k] by auto
  show "unread_row (st_data t) chat u r" if "r \<in> set (rd_rows (st_data s))" "unread_row (st_data s) chat u r"
    using t that prefix_before_unread mark_keeps_unread [OF k] by auto
qed

section \<open>The receipts of a run\<close>

definition receipt_ids :: "receipt list \<Rightarrow> string set" where
  "receipt_ids rs = (\<Union>rc \<in> set rs. set (rc_ids rc))"

lemma receipt_ids_simps [simp]:
  "receipt_ids [] = {}" "receipt_ids (rs @ qs) = receipt_ids rs \<union> receipt_ids qs" "receipt_ids [rc] = set (rc_ids rc)"
  by (auto simp: receipt_ids_def)

lemma concat_chunks: "concat (chunks_of ids) = ids"
  by (induction ids rule: chunks_of.induct) (subst chunks_of.simps, simp)

lemma chunk_small: "c \<in> set (chunks_of ids) \<Longrightarrow> length c \<le> markReadBatch"
  by (induction ids rule: chunks_of.induct) (subst (asm) (2) chunks_of.simps, auto split: if_splits)

lemma chunk_ids: "c \<in> set (chunks_of ids) \<Longrightarrow> set c \<subseteq> set ids"
  using concat_chunks [of ids] by (metis UN_upper set_concat)

text \<open>What a run adds: receipts for the chunks, each to the sender it was resolved for.\<close>

definition chunk_receipt :: "instant \<Rightarrow> jid \<Rightarrow> jid \<Rightarrow> string list list \<Rightarrow> receipt \<Rightarrow> bool" where
  "chunk_receipt readAt chat sender chunks rc \<longleftrightarrow>
     rc_ids rc \<in> set chunks \<and> rc_readAt rc = readAt \<and> rc_chat rc = chat \<and> rc_sender rc = sender"

definition group_receipt :: "markReadDeps \<Rightarrow> jid \<Rightarrow> senderBatch list \<Rightarrow> receipt \<Rightarrow> bool" where
  "group_receipt deps chat groups rc \<longleftrightarrow>
     (\<exists>g \<in> set groups. set (rc_ids rc) \<subseteq> set (sb_ids g) \<and> length (rc_ids rc) \<le> markReadBatch \<and> rc_chat rc = chat
        \<and> (if sb_sender g = [] then rc_sender rc = EmptyJID else addressable (md_resolve deps (sb_sender g)) = Some (rc_sender rc)))"

lemma send_chunks_run:
  assumes "send_chunks deps readAt chat sender chunks st = (e, st')"
  shows "\<exists>new. rr_receipts st' = rr_receipts st @ new \<and> rr_acked st' = rr_acked st \<union> receipt_ids new
      \<and> (\<forall>rc \<in> set new. chunk_receipt readAt chat sender chunks rc)
      \<and> (rr_failed st' \<longleftrightarrow> rr_failed st \<or> e = Run_fatal) \<and> (e = Run_on \<longrightarrow> receipt_ids new = set (concat chunks))"
  using assms
proof (induction chunks arbitrary: st)
  case Nil
  then show ?case by (auto intro: exI [of _ "[]"])
next
  case (Cons c chunks)
  show ?case
  proof (cases "md_allowSend deps (rr_gates st) = None \<and> md_markRead deps (length (rr_receipts st))")
    case False
    then have "rr_receipts st' = rr_receipts st \<and> rr_acked st' = rr_acked st \<and> e \<noteq> Run_on \<and> (rr_failed st' \<longleftrightarrow> rr_failed st \<or> e = Run_fatal)"
      using Cons.prems by (auto simp: Let_def split: option.splits if_splits)
    then show ?thesis by (auto intro!: exI [of _ "[]"])
  next
    case True
    let ?rc = "\<lparr>rc_ids = c, rc_readAt = readAt, rc_chat = chat, rc_sender = sender\<rparr>"
    let ?st = "st\<lparr>rr_gates := rr_gates st + 1, rr_acked := rr_acked st \<union> set c, rr_receipts := rr_receipts st @ [?rc]\<rparr>"
    from True Cons.prems have "send_chunks deps readAt chat sender chunks ?st = (e, st')"
      by (simp add: Let_def)
    from Cons.IH [OF this] obtain new where new: "rr_receipts st' = rr_receipts ?st @ new" "rr_acked st' = rr_acked ?st \<union> receipt_ids new"
      "\<forall>rc \<in> set new. chunk_receipt readAt chat sender chunks rc" "rr_failed st' \<longleftrightarrow> rr_failed ?st \<or> e = Run_fatal"
      "e = Run_on \<longrightarrow> receipt_ids new = set (concat chunks)" by blast
    show ?thesis
      using new by (intro exI [of _ "?rc # new"]) (auto simp: chunk_receipt_def receipt_ids_def)
  qed
qed

lemma send_groups_run:
  assumes "send_groups deps readAt chat groups st = (e, st')"
  shows "\<exists>new. rr_receipts st' = rr_receipts st @ new \<and> rr_acked st' = rr_acked st \<union> receipt_ids new
      \<and> (\<forall>rc \<in> set new. group_receipt deps chat groups rc) \<and> (rr_failed st \<longrightarrow> rr_failed st')
      \<and> (e = Run_on \<and> \<not> rr_failed st' \<longrightarrow> receipt_ids new = (\<Union>g \<in> set groups. set (sb_ids g)))
      \<and> (e = Run_fatal \<longrightarrow> rr_failed st')"
  using assms
proof (induction groups arbitrary: st)
  case Nil
  then show ?case by (auto intro: exI [of _ "[]"])
next
  case (Cons g gs)
  show ?case
  proof (cases "if sb_sender g = [] then Some EmptyJID else addressable (md_resolve deps (sb_sender g))")
    case None
    with Cons.prems have "send_groups deps readAt chat gs (st\<lparr>rr_failed := True\<rparr>) = (e, st')" by simp
    from Cons.IH [OF this] show ?thesis by (fastforce simp: group_receipt_def)
  next
    case (Some sender)
    obtain e1 st1 where run: "send_chunks deps readAt chat sender (chunks_of (sb_ids g)) st = (e1, st1)" by fastforce
    from send_chunks_run [OF run] obtain new where new: "rr_receipts st1 = rr_receipts st @ new"
      "rr_acked st1 = rr_acked st \<union> receipt_ids new" "\<forall>rc \<in> set new. chunk_receipt readAt chat sender (chunks_of (sb_ids g)) rc"
      "rr_failed st1 \<longleftrightarrow> rr_failed st \<or> e1 = Run_fatal" "e1 = Run_on \<longrightarrow> receipt_ids new = set (sb_ids g)"
      by (auto simp only: concat_chunks)
    have own: "group_receipt deps chat (g # gs) rc" if "rc \<in> set new" for rc
      using new(3) that Some chunk_small [of "rc_ids rc"] chunk_ids [of "rc_ids rc"]
      by (auto simp: group_receipt_def chunk_receipt_def split: if_splits)
    show ?thesis
    proof (cases "e1 = Run_on")
      case False
      then have "e = e1" "st' = st1" using Cons.prems Some run by (auto split: run_end.splits)
      with new own False show ?thesis by (intro exI [of _ new]) auto
    next
      case True
      with Cons.prems Some run have "send_groups deps readAt chat gs st1 = (e, st')" by simp
      from Cons.IH [OF this] obtain more where more: "rr_receipts st' = rr_receipts st1 @ more" "rr_acked st' = rr_acked st1 \<union> receipt_ids more"
        "\<forall>rc \<in> set more. group_receipt deps chat gs rc" "rr_failed st1 \<longrightarrow> rr_failed st'"
        "e = Run_on \<and> \<not> rr_failed st' \<longrightarrow> receipt_ids more = (\<Union>g \<in> set gs. set (sb_ids g))" "e = Run_fatal \<longrightarrow> rr_failed st'" by blast
      have "group_receipt deps chat (g # gs) rc" if "rc \<in> set more" for rc
        using more(3) that by (auto simp: group_receipt_def)
      with new more own True show ?thesis by (intro exI [of _ "new @ more"]) auto
    qed
  qed
qed

text \<open>The groups as pairs of sender and message.\<close>

definition batch_pairs :: "senderBatch list \<Rightarrow> (string \<times> string) set" where
  "batch_pairs gs = (\<Union>g \<in> set gs. Pair (sb_sender g) ` set (sb_ids g))"

lemma batch_pairs_add: "batch_pairs (add_to_batch sender i gs) = insert (sender, i) (batch_pairs gs)"
  by (induction gs) (auto simp: batch_pairs_def)

lemma batch_pairs_fold:
  "batch_pairs (foldl (\<lambda>gs u. if unaddressed c u then gs else add_to_batch (u_Sender u) (u_ID u) gs) gs p)
   = batch_pairs gs \<union> (\<lambda>u. (u_Sender u, u_ID u)) ` {u \<in> set p. \<not> unaddressed c u}"
  by (induction p arbitrary: gs) (auto simp: batch_pairs_add)

lemma batch_pairs_ids: "(\<Union>g \<in> set gs. set (sb_ids g)) = snd ` batch_pairs gs"
  by (auto simp: batch_pairs_def image_image image_UN)

lemma grouped_all:
  assumes "groupBySender p c = (gs, un)"
  shows "(\<Union>g \<in> set gs. set (sb_ids g)) \<union> set un = u_ID ` set p"
proof (cases "one_to_one c")
  case True
  with assms show ?thesis by (auto simp: groupBySender_def)
next
  case False
  with assms have "batch_pairs gs = (\<lambda>u. (u_Sender u, u_ID u)) ` {u \<in> set p. \<not> unaddressed c u}" "un = map u_ID (filter (unaddressed c) p)"
    by (auto simp: groupBySender_def batch_pairs_fold batch_pairs_def [of "[]"])
  then show ?thesis unfolding batch_pairs_ids by (auto simp: image_image)
qed

lemma grouped_by_sender:
  assumes "groupBySender p c = (gs, un)" "g \<in> set gs" "i \<in> set (sb_ids g)"
  shows "\<exists>u \<in> set p. u_ID u = i \<and> (if one_to_one c then sb_sender g = [] else sb_sender g = u_Sender u \<and> u_Sender u \<noteq> [])"
proof (cases "one_to_one c")
  case True
  with assms show ?thesis by (auto simp: groupBySender_def)
next
  case False
  with assms(1) have "batch_pairs gs = (\<lambda>u. (u_Sender u, u_ID u)) ` {u \<in> set p. \<not> unaddressed c u}"
    by (auto simp: groupBySender_def batch_pairs_fold batch_pairs_def [of "[]"])
  moreover have "(sb_sender g, i) \<in> batch_pairs gs" using assms(2,3) by (auto simp: batch_pairs_def)
  ultimately show ?thesis using False by (auto simp: unaddressed_def)
qed

lemma unaddressable_rows:
  assumes "groupBySender p c = (gs, un)" "i \<in> set un"
  shows "\<not> one_to_one c \<and> (\<exists>u \<in> set p. u_ID u = i \<and> unaddressed c u)"
  using assms by (auto simp: groupBySender_def split: if_splits)

section \<open>One run over a page\<close>

text \<open>The facts a run of the whole-chat form leaves behind, whichever way it ended.\<close>

definition acknowledged :: "jid \<Rightarrow> mark_outcome \<Rightarrow> message_row \<Rightarrow> bool" where
  "acknowledged chatJID out r \<longleftrightarrow>
     m_id r \<in> receipt_ids (mo_receipts out) \<or> \<not> one_to_one chatJID \<and> (row_sender r = [] \<or> row_sender r = User chatJID)"

definition flooded_second :: "receipt_db \<Rightarrow> string \<Rightarrow> message_row \<Rightarrow> bool" where
  "flooded_second d chat r \<longleftrightarrow>
     markReadMaxMessages < length (filter (\<lambda>x. inbound_in chat x \<and> message_key x \<notin> rd_flagged d \<and> m_timestamp x = m_timestamp r) (rd_rows d))"

lemma page_split:
  assumes "no_zero_time d" "page = UnreadInboundMessages d chat upTo (markReadMaxMessages + 1)"
  shows "take markReadMaxMessages page = map unread_entry (take markReadMaxMessages (unread_rows d chat upTo))"
    and "length page > markReadMaxMessages \<longleftrightarrow> length (unread_rows d chat upTo) > markReadMaxMessages"
    and "length page > markReadMaxMessages \<Longrightarrow> page ! markReadMaxMessages = unread_entry (unread_rows d chat upTo ! markReadMaxMessages)"
  using page_eq [OF assms(1), of "markReadMaxMessages + 1" chat upTo] assms(2)
  by (simp_all add: take_map markReadMaxMessages_def min_def)

lemma filter_bounds:
  "length (filter P (take n xs)) \<le> length (filter P xs)" "length (filter P (filter Q xs)) \<le> length (filter P xs)"
proof -
  show "length (filter P (take n xs)) \<le> length (filter P xs)"
  proof -
    have "filter P xs = filter P (take n xs) @ filter P (drop n xs)" by (simp flip: filter_append)
    then show ?thesis by simp
  qed
  show "length (filter P (filter Q xs)) \<le> length (filter P xs)" by (induction xs) auto
qed

lemma same_second_rows:
  assumes "length (unread_rows d chat upTo) > markReadMaxMessages"
    and "\<And>x. x \<in> set (take (markReadMaxMessages + 1) (unread_rows d chat upTo)) \<Longrightarrow> row_second x = row_second r"
    and "m_timestamp r = Some (row_second r)"
  shows "flooded_second d chat r"
proof -
  let ?P = "\<lambda>x. inbound_in chat x \<and> message_key x \<notin> rd_flagged d \<and> m_timestamp x = m_timestamp r"
  let ?T = "take (markReadMaxMessages + 1) (unread_rows d chat upTo)"
  have "?P x" if x: "x \<in> set ?T" for x
  proof -
    have "unread_row d chat upTo x" using in_set_takeD [OF x] by simp
    from unread_row_time [OF this] assms(2) [OF x] assms(3) show ?thesis by simp
  qed
  then have all: "filter ?P ?T = ?T" by (intro filter_True) blast
  have "markReadMaxMessages < length (filter ?P ?T)" unfolding all using assms(1) by simp
  also have "\<dots> \<le> length (filter ?P (unread_rows d chat upTo))" by (rule filter_bounds)
  also have "\<dots> = length (filter ?P (filter (unread_row d chat upTo) (rd_rows d)))"
    unfolding unread_rows_def filter_sort length_sort ..
  also have "\<dots> \<le> length (filter ?P (rd_rows d))" by (rule filter_bounds)
  finally show ?thesis by (simp add: flooded_second_def)
qed

definition overflow_of :: "unreadInboundMessage list \<Rightarrow> unreadInboundMessage option" where
  "overflow_of page = (if length page > markReadMaxMessages then Some (page ! markReadMaxMessages) else None)"

lemma marker_before_unread:
  assumes nz: "no_zero_time d" and page: "page = UnreadInboundMessages d chat upTo (markReadMaxMessages + 1)"
    and p: "p = take markReadMaxMessages page" and pos: "coveredPrefix p A (overflow_of page) > 0"
    and r: "r \<in> set (rd_rows d)" "unread_row d chat u r" "m_id r \<notin> A" "\<not> flooded_second d chat r"
  shows "dbTime (u_Timestamp (p ! (coveredPrefix p A (overflow_of page) - 1))) < row_second r"
proof (rule ccontr)
  let ?S = "unread_rows d chat upTo" and ?N = markReadMaxMessages
  define T where "T = take ?N ?S"
  define k where "k = coveredPrefix p A (overflow_of page) - 1"
  have pT: "p = map unread_entry T" using page_split(1) [OF nz page] p by (simp add: T_def)
  have k: "k < length T" using covered_le [of p A "overflow_of page"] pos by (simp add: k_def pT)
  have ts: "u_Timestamp (p ! j) = row_second (T ! j) * second" if "j < length T" for j using that by (simp add: pT)
  have le_iff: "a * second \<le> b * second \<longleftrightarrow> a \<le> b" "a * second < b * second \<longleftrightarrow> a < b" "a * second = b * second \<longleftrightarrow> a = b" for a b :: int
    by (auto simp: time_unit_defs)
  assume "\<not> ?thesis"
  then have rk: "row_second r \<le> row_second (T ! k)" using ts [OF k] by (simp add: k_def)
  have "T ! k \<in> set T" using k by simp
  then have "T ! k \<in> set ?S" unfolding T_def by (rule in_set_takeD)
  then have "row_second (T ! k) \<le> dbTime upTo" using unread_row_time [of d chat upTo "T ! k"] by simp
  with rk unread_row_time [OF r(2)] r(2) have "unread_row d chat upTo r" by (auto simp: unread_row_def time_in_def split: option.splits)
  then have rS: "r \<in> set ?S" using r(1) by simp
  have srt: "sorted (map row_second ?S)" by (rule unread_rows_sorted)
  have srtp: "sorted (map u_Timestamp p)"
    using sorted_wrt_take [OF srt, of ?N] by (simp add: pT T_def take_map sorted_map le_iff sorted_wrt_map)
  show False
  proof (cases "r \<in> set T")
    case True
    then obtain i where i: "i < length T" "T ! i = r" by (auto simp: in_set_conv_nth)
    have "u_Timestamp (p ! i) \<le> u_Timestamp (p ! k)" using i rk ts [OF k] ts [OF i(1)] by (simp add: le_iff)
    then have "u_ID (p ! i) \<in> A" using covered_acked [OF srtp pos, of i] i(1) by (simp add: k_def pT)
    with i r(3) show False by (simp add: pT)
  next
    case False
    obtain i where i: "i < length ?S" "?S ! i = r" using rS unfolding in_set_conv_nth by blast
    have iN: "i \<ge> ?N" using False i by (metis T_def in_set_conv_nth length_take linorder_not_le min_less_iff_conj nth_take)
    then have long: "length page > ?N" using page_split(2) [OF nz page] i(1) by simp
    define x where "x = ?S ! ?N"
    have over: "overflow_of page = Some (unread_entry x)" using long page_split(3) [OF nz page long] by (simp add: overflow_of_def x_def)
    have xr: "row_second x \<le> row_second r" using sorted_nth_mono [OF srt iN] i iN by (simp add: x_def)
    have long': "?N < length ?S" using long page_split(2) [OF nz page] by simp
    have TS: "T @ [x] = take (?N + 1) ?S" using long' by (simp add: T_def x_def take_Suc_conv_app_nth)
    have "sorted (map u_Timestamp (p @ [unread_entry x]))"
    proof -
      have "sorted (map row_second (T @ [x]))" unfolding TS take_map [symmetric] using srt by (rule sorted_wrt_take)
      then show ?thesis by (simp add: pT sorted_append sorted_map sorted_wrt_map le_iff)
    qed
    from covered_overflow [OF this, of A] pos over
    have "u_Timestamp (p ! k) < row_second x * second \<or> (\<forall>v \<in> set p. u_Timestamp v = row_second x * second)"
      by (auto simp: k_def)
    then consider "row_second (T ! k) < row_second x" | "\<forall>y \<in> set T. row_second y = row_second x"
      using ts [OF k] by (auto simp: le_iff pT ball_simps) (simp_all add: time_unit_defs)
    then show False
    proof cases
      case 1
      with rk xr show False by simp
    next
      case 2
      then have "row_second (T ! k) = row_second x" using k by simp
      with rk xr have "row_second r = row_second x" by simp
      with 2 have "row_second y = row_second r" if "y \<in> set (take (?N + 1) ?S)" for y using that unfolding TS [symmetric] by auto
      then have "flooded_second d chat r" using same_second_rows [OF long'] unread_row_time [OF r(2)] by blast
      with r(4) show False by simp
    qed
  qed
qed

lemma flag_keeps_unread: "unread_row d chat u r \<Longrightarrow> m_id r \<notin> ids \<Longrightarrow> unread_row (flag_receipts chat ids d) chat u r"
  by (auto simp: unread_row_def flag_receipts_def message_key_def)

lemma refused_progress_effect:
  assumes "keyed c_jid (rd_chats (st_data s))" "persistRefusedReceiptProgress deps chat p A over s = t"
  shows "st_data t = st_data s \<or> st_data t = receipt_progress chat p A over (st_data s)"
    and "st_failures s \<le> st_failures t"
    and "A \<noteq> {} \<Longrightarrow> st_failures t = st_failures s \<Longrightarrow> st_data t = receipt_progress chat p A over (st_data s)"
  using assms(2) store_live_effect [OF surjective_pairing, of deps "receipt_progress chat p A over" s]
  by (auto simp: persistRefusedReceiptProgress_def split: if_splits)

lemma progress_keyed:
  assumes "keyed c_jid (rd_chats d)"
  shows "keyed c_jid (rd_chats (receipt_progress chat p A over d))" "rd_rows (receipt_progress chat p A over d) = rd_rows d"
  using assms mark_chat_marker(2) [of "flag_receipts chat (set (filter (\<lambda>i. i \<in> A) (map u_ID p))) d" chat]
  by (auto simp: receipt_progress_def Let_def flag_receipts_def)

lemma ordinary_end:
  assumes "\<And>status. fst run \<noteq> Run_refused status" "keyed c_jid (rd_chats (st_data s))"
    and "out = finish_run deps chat upTo p over n run s"
  obtains s1 where "st_data s1 = st_data s
      \<or> coveredPrefix p (rr_acked (snd run)) over > 0
        \<and> st_data s1 = mark_chat chat (u_Timestamp (p ! (coveredPrefix p (rr_acked (snd run)) over - 1))) (st_data s)"
    and "st_failures s1 = st_failures s \<Longrightarrow> coveredPrefix p (rr_acked (snd run)) over > 0 \<Longrightarrow>
        st_data s1 = mark_chat chat (u_Timestamp (p ! (coveredPrefix p (rr_acked (snd run)) over - 1))) (st_data s)"
    and "keyed c_jid (rd_chats (st_data s1))" "rd_rows (st_data s1) = rd_rows (st_data s)" "st_failures s \<le> st_failures s1"
    and "mo_store out = s1 \<or> mo_store out = snd (persistAcknowledgedReceiptPrefix deps chat upTo s1)"
proof -
  define c where "c = coveredPrefix p (rr_acked (snd run)) over"
  define mid where "mid = (if c > 0 then persistReadMarker deps chat (u_Timestamp (p ! (c - 1))) s else (False, s))"
  obtain w1 s1 where m: "mid = (w1, s1)" by fastforce
  have "mo_store out = snd (save_marker deps chat upTo p c s)"
    using assms(1,3) by (cases "fst run") (auto simp: finish_run_def Let_def c_def)
  also have "save_marker deps chat upTo p c s = (if w1 then (True, s1) else persistAcknowledgedReceiptPrefix deps chat upTo s1)"
    unfolding save_marker_def mid_def [symmetric] m by simp
  finally have out: "mo_store out = s1 \<or> mo_store out = snd (persistAcknowledgedReceiptPrefix deps chat upTo s1)"
    by (simp split: if_splits)
  show thesis
  proof (cases "c > 0")
    case False
    with m have "s1 = s" by (simp add: mid_def)
    with out False assms(2) show thesis by (intro that [of s1]) (auto simp: c_def)
  next
    case True
    with m have w: "persistReadMarker deps chat (u_Timestamp (p ! (c - 1))) s = (w1, s1)" by (simp add: mid_def)
    from persist_marker_effect [OF w] out True mark_chat_marker(2) [OF assms(2)] assms(2) show thesis
      by (intro that [of s1]) (auto simp: c_def [symmetric] split: if_splits)
  qed
qed

lemma finish_keeps_unread:
  assumes key: "keyed c_jid (rd_chats (st_data s))" and nz: "no_zero_time (st_data s)"
    and page: "page = UnreadInboundMessages (st_data s) chat upTo (markReadMaxMessages + 1)"
    and p: "p = take markReadMaxMessages page"
    and r: "r \<in> set (rd_rows (st_data s))" "unread_row (st_data s) chat u r" "m_id r \<notin> rr_acked (snd run)" "\<not> flooded_second (st_data s) chat r"
  shows "unread_row (st_data (mo_store (finish_run deps chat upTo p (overflow_of page) n run s))) chat u r"
proof -
  define A where "A = rr_acked (snd run)"
  define c where "c = coveredPrefix p A (overflow_of page)"
  let ?at = "u_Timestamp (p ! (c - 1))"
  have ahead: "c > 0 \<Longrightarrow> dbTime ?at < row_second r"
    using marker_before_unread [OF nz page p _ r(1,2) _ r(4), of A] r(3) by (simp add: A_def c_def)
  have prefix: "unread_row (st_data (snd (persistAcknowledgedReceiptPrefix deps chat upTo s1))) chat u r"
    if "keyed c_jid (rd_chats (st_data s1))" "rd_rows (st_data s1) = rd_rows (st_data s)" "unread_row (st_data s1) chat u r" for s1
    using persist_prefix_effect(3) [OF surjective_pairing that(1)] that r(1) by simp
  show ?thesis
  proof (cases "\<exists>status. fst run = Run_refused status")
    case True
    let ?f = "receipt_progress chat p A (overflow_of page)"
    let ?flag = "flag_receipts chat (set (filter (\<lambda>i. i \<in> A) (map u_ID p))) (st_data s)"
    define s1 where "s1 = persistRefusedReceiptProgress deps chat p A (overflow_of page) s"
    have out: "mo_store (finish_run deps chat upTo p (overflow_of page) n run s) = snd (persistAcknowledgedReceiptPrefix deps chat upTo s1)"
      using True by (auto simp: finish_run_def Let_def s1_def A_def)
    have key1: "keyed c_jid (rd_chats ?flag)" using key by (simp add: flag_receipts_def)
    have unread1: "unread_row ?flag chat u r"
      using r(3) by (intro flag_keeps_unread [OF r(2)]) (auto simp: A_def)
    have unread2: "unread_row (?f (st_data s)) chat u r"
      using unread1 ahead mark_keeps_unread [OF key1 unread1] by (auto simp: receipt_progress_def Let_def c_def)
    from refused_progress_effect(1) [OF key, of deps chat p A "overflow_of page"]
    have "st_data s1 = st_data s \<or> st_data s1 = ?f (st_data s)" by (simp add: s1_def)
    with unread2 progress_keyed [OF key] key r(2) show ?thesis unfolding out by (intro prefix) auto
  next
    case False
    then obtain s1 where s1: "st_data s1 = st_data s \<or> c > 0 \<and> st_data s1 = mark_chat chat ?at (st_data s)"
      "keyed c_jid (rd_chats (st_data s1))" "rd_rows (st_data s1) = rd_rows (st_data s)"
      and out: "mo_store (finish_run deps chat upTo p (overflow_of page) n run s) = s1
        \<or> mo_store (finish_run deps chat upTo p (overflow_of page) n run s) = snd (persistAcknowledgedReceiptPrefix deps chat upTo s1)"
      using ordinary_end [where run = run and s = s and deps = deps and chat = chat and upTo = upTo and p = p and over = "overflow_of page" and n = n,
          OF _ key refl] by (auto simp: A_def c_def)
    have "unread_row (st_data s1) chat u r" using s1(1) r(2) ahead mark_keeps_unread [OF key r(2)] by auto
    with out prefix [OF s1(2,3)] show ?thesis by auto
  qed
qed

section \<open>A whole-chat request\<close>

definition up_to_of :: "MarkReadRequest \<Rightarrow> instant \<Rightarrow> instant option" where
  "up_to_of req now = (if TrimSpace (mr_UpTo req) = [] then Some now else parse_rfc3339 (TrimSpace (mr_UpTo req)))"

text \<open>A request ends early and changes nothing, finds nothing pending, or makes one run over its page.\<close>

lemma whole_chat_cases:
  assumes "out = markWholeChatRead deps req chatJID readAt now s"
  obtains
    (stop) status where "out = mark_stops status s" "status \<noteq> 200"
  | (empty) upTo w where "up_to_of req now = Some upTo"
      "take markReadMaxMessages (UnreadInboundMessages (st_data s) (mr_ChatJID req) upTo (markReadMaxMessages + 1)) = []"
      "persistAcknowledgedReceiptPrefix deps (mr_ChatJID req) upTo s = (w, mo_store out)" "mo_receipts out = []"
  | (run) upTo page receiptChat groups un run where "up_to_of req now = Some upTo"
      "page = UnreadInboundMessages (st_data s) (mr_ChatJID req) upTo (markReadMaxMessages + 1)"
      "take markReadMaxMessages page \<noteq> []" "addressable (md_resolve deps (mr_ChatJID req)) = Some receiptChat"
      "groupBySender (take markReadMaxMessages page) chatJID = (groups, un)"
      "run = send_groups deps readAt receiptChat groups \<lparr>rr_acked = set un, rr_receipts = [], rr_gates = 0, rr_failed = False\<rparr>"
      "out = finish_run deps (mr_ChatJID req) upTo (take markReadMaxMessages page) (overflow_of page) (length groups) run s"
proof -
  have step: "out = (if TrimSpace (mr_SenderJID req) \<noteq> [] then mark_stops 400 s else case up_to_of req now of None \<Rightarrow> mark_stops 400 s
      | Some upTo \<Rightarrow> if \<not> md_connected deps then mark_stops 503 s else if \<not> md_query deps Q_unread then mark_stops 500 s else
          let page = UnreadInboundMessages (st_data s) (mr_ChatJID req) upTo (markReadMaxMessages + 1); p = take markReadMaxMessages page
          in if p = [] then let (w, s1) = persistAcknowledgedReceiptPrefix deps (mr_ChatJID req) upTo s
               in \<lparr>mo_status = 200, mo_response = no_response\<lparr>mp_Success := True, mp_warning := w\<rparr>, mo_receipts = [], mo_store = s1\<rparr>
             else case addressable (md_resolve deps (mr_ChatJID req)) of None \<Rightarrow> mark_stops 400 s
               | Some receiptChat \<Rightarrow> send_pending deps (mr_ChatJID req) chatJID receiptChat readAt upTo p (overflow_of page) s)"
    unfolding assms markWholeChatRead_def up_to_of_def overflow_of_def Let_def ..
  show thesis
  proof (cases "TrimSpace (mr_SenderJID req) \<noteq> [] \<or> up_to_of req now = None \<or> \<not> md_connected deps \<or> \<not> md_query deps Q_unread")
    case True
    then show thesis using step by (intro stop [of "mo_status out"]) (auto simp: mark_stops_def split: option.splits)
  next
    case False
    then obtain upTo where up: "up_to_of req now = Some upTo" by auto
    define page where "page = UnreadInboundMessages (st_data s) (mr_ChatJID req) upTo (markReadMaxMessages + 1)"
    let ?p = "take markReadMaxMessages page"
    have conds: "TrimSpace (mr_SenderJID req) = []" "md_connected deps" "md_query deps Q_unread" using False by auto
    have out: "out = (if ?p = [] then let (w, s1) = persistAcknowledgedReceiptPrefix deps (mr_ChatJID req) upTo s
               in \<lparr>mo_status = 200, mo_response = no_response\<lparr>mp_Success := True, mp_warning := w\<rparr>, mo_receipts = [], mo_store = s1\<rparr>
             else case addressable (md_resolve deps (mr_ChatJID req)) of None \<Rightarrow> mark_stops 400 s
               | Some receiptChat \<Rightarrow> send_pending deps (mr_ChatJID req) chatJID receiptChat readAt upTo ?p (overflow_of page) s)"
      using conds(2,3) unfolding step up conds(1) page_def Let_def by simp
    show thesis
    proof (cases "?p = []")
      case True
      obtain w s1 where ps: "persistAcknowledgedReceiptPrefix deps (mr_ChatJID req) upTo s = (w, s1)" by fastforce
      with out True show thesis by (intro empty [OF up, of w]) (simp_all add: page_def)
    next
      case nonempty: False
      show thesis
      proof (cases "addressable (md_resolve deps (mr_ChatJID req))")
        case None
        with out nonempty show thesis by (intro stop [of 400]) simp_all
      next
        case (Some receiptChat)
        obtain groups un where g: "groupBySender ?p chatJID = (groups, un)" by fastforce
        from out nonempty Some have "out = send_pending deps (mr_ChatJID req) chatJID receiptChat readAt upTo ?p (overflow_of page) s" by simp
        then have "out = finish_run deps (mr_ChatJID req) upTo ?p (overflow_of page) (length groups)
            (send_groups deps readAt receiptChat groups \<lparr>rr_acked = set un, rr_receipts = [], rr_gates = 0, rr_failed = False\<rparr>) s"
          by (simp add: send_pending_def g)
        then show thesis by (intro run [OF up page_def nonempty Some g refl])
      qed
    qed
  qed
qed

lemma finish_receipts [simp]: "mo_receipts (finish_run deps chat upTo p over n run s) = rr_receipts (snd run)"
  by (cases "fst run") (simp_all add: finish_run_def Let_def)

text \<open>C17. A message stops being unread only when it was acknowledged: after any whole-chat request, whatever the budget, the
  network and the database answered, a message that was unread before is still unread, or its receipt was accepted, or it
  is a group message whose participant is unknown, or its second alone holds more messages than one request marks.\<close>

theorem unread_until_acknowledged:
  assumes "keyed message_key (rd_rows (st_data s))" "keyed c_jid (rd_chats (st_data s))" "no_zero_time (st_data s)"
    and "out = markWholeChatRead deps req chatJID readAt now s"
    and "r \<in> set (rd_rows (st_data s))" "unread_row (st_data s) (mr_ChatJID req) u r"
  shows "unread_row (st_data (mo_store out)) (mr_ChatJID req) u r
    \<or> acknowledged chatJID out r \<or> flooded_second (st_data s) (mr_ChatJID req) r"
  using assms(4)
proof (cases rule: whole_chat_cases)
  case (stop status)
  then show ?thesis using assms(6) by (simp add: mark_stops_def)
next
  case (empty upTo w)
  show ?thesis using persist_prefix_effect(3) [OF empty(3) assms(2) assms(5,6)] by simp
next
  case (run upTo page receiptChat groups un run)
  obtain e st' where st': "run = (e, st')" by fastforce
  from send_groups_run [OF run(6) [symmetric, unfolded st']] have
    acked: "rr_acked st' = set un \<union> receipt_ids (rr_receipts st')" by auto
  show ?thesis
  proof (cases "m_id r \<in> rr_acked st'")
    case False
    then show ?thesis using finish_keeps_unread [OF assms(2,3) run(2) refl assms(5,6), of run] run(7) st' by auto
  next
    case True
    show ?thesis
    proof (cases "m_id r \<in> receipt_ids (rr_receipts st')")
      case True
      then show ?thesis using run(7) st' by (simp add: acknowledged_def)
    next
      case False
      with True acked have "m_id r \<in> set un" by simp
      from unaddressable_rows [OF run(5) this] obtain v where v: "\<not> one_to_one chatJID" "v \<in> set page" "u_ID v = m_id r" "unaddressed chatJID v"
        by (auto dest: in_set_takeD)
      obtain q where q: "q \<in> set (rd_rows (st_data s))" "unread_row (st_data s) (mr_ChatJID req) upTo q" "u_ID v = m_id q" "u_Sender v = row_sender q"
        using v(2) unfolding run(2) by (rule page_sound)
      have "q = r" using keyed_inj [OF assms(1) q(1) assms(5)] q v(3) unread_row_time [OF q(2)] unread_row_time [OF assms(6)]
        by (simp add: message_key_def inbound_in_def)
      with v q show ?thesis by (auto simp: acknowledged_def unaddressed_def)
    qed
  qed
qed

lemma run_receipts:
  assumes "groupBySender p c = (groups, un)"
    and "send_groups deps readAt chat groups \<lparr>rr_acked = set un, rr_receipts = [], rr_gates = 0, rr_failed = False\<rparr> = (e, st)"
  shows "rr_acked st = set un \<union> receipt_ids (rr_receipts st)" "receipt_ids (rr_receipts st) \<subseteq> u_ID ` set p"
    "rc \<in> set (rr_receipts st) \<Longrightarrow> group_receipt deps chat groups rc"
    "e = Run_on \<Longrightarrow> \<not> rr_failed st \<Longrightarrow> rr_acked st = u_ID ` set p"
    "e = Run_fatal \<Longrightarrow> rr_failed st"
proof -
  from send_groups_run [OF assms(2)]
  have new: "rr_acked st = set un \<union> receipt_ids (rr_receipts st)" "\<forall>rc \<in> set (rr_receipts st). group_receipt deps chat groups rc"
    "e = Run_on \<and> \<not> rr_failed st \<longrightarrow> receipt_ids (rr_receipts st) = (\<Union>g \<in> set groups. set (sb_ids g))" "e = Run_fatal \<longrightarrow> rr_failed st"
    by auto
  then show "rr_acked st = set un \<union> receipt_ids (rr_receipts st)" "rc \<in> set (rr_receipts st) \<Longrightarrow> group_receipt deps chat groups rc"
    "e = Run_fatal \<Longrightarrow> rr_failed st" by simp_all
  have "receipt_ids (rr_receipts st) \<subseteq> (\<Union>g \<in> set groups. set (sb_ids g))"
    using new(2) by (fastforce simp: receipt_ids_def group_receipt_def)
  then show "receipt_ids (rr_receipts st) \<subseteq> u_ID ` set p" using grouped_all [OF assms(1)] by blast
  show "rr_acked st = u_ID ` set p" if "e = Run_on" "\<not> rr_failed st"
    using new(1,3) that grouped_all [OF assms(1)] by auto
qed

text \<open>C18. Receipts are not repeated after a refusal: when the send budget stops a whole-chat request in the middle and its
  progress is saved, no message whose receipt was accepted is selected again, even one in the same second as a message
  still waiting.\<close>

theorem refused_receipts_not_repeated:
  assumes "keyed c_jid (rd_chats (st_data s))"
    and "out = markWholeChatRead deps req chatJID readAt now s" "mo_status out \<noteq> 200" "mo_status out \<noteq> 500"
    and "st_failures (mo_store out) = st_failures s" "r \<in> set (rd_rows (st_data s))" "m_id r \<in> receipt_ids (mo_receipts out)"
  shows "\<not> unread_row (st_data (mo_store out)) (mr_ChatJID req) u r"
  using assms(2)
proof (cases rule: whole_chat_cases)
  case (run upTo page receiptChat groups un run)
  let ?p = "take markReadMaxMessages page" and ?chat = "mr_ChatJID req"
  obtain e st where st: "run = (e, st)" by fastforce
  note R = run_receipts [OF run(5) run(6) [symmetric, unfolded st]]
  obtain status where e: "e = Run_refused status"
    using assms(3,4) run(7) st by (cases e) (auto simp: finish_run_def Let_def split: if_splits)
  define s1 where "s1 = persistRefusedReceiptProgress deps ?chat ?p (rr_acked st) (overflow_of page) s"
  have store: "persistAcknowledgedReceiptPrefix deps ?chat upTo s1 = (fst (persistAcknowledgedReceiptPrefix deps ?chat upTo s1), mo_store out)"
    using run(7) st e by (simp add: finish_run_def Let_def s1_def)
  have acked: "m_id r \<in> rr_acked st" "m_id r \<in> u_ID ` set ?p" using assms(7) run(7) st R(1,2) by auto
  have key1: "keyed c_jid (rd_chats (st_data s1))"
    using refused_progress_effect(1) [OF assms(1) s1_def [symmetric]] progress_keyed(1) [OF assms(1)] assms(1) by auto
  have "st_failures s1 = st_failures s"
    using refused_progress_effect(2) [OF assms(1) s1_def [symmetric]] persist_prefix_effect(4) [OF store key1] assms(5) by simp
  then have "st_data s1 = receipt_progress ?chat ?p (rr_acked st) (overflow_of page) (st_data s)"
    using refused_progress_effect(3) [OF assms(1) s1_def [symmetric]] acked(1) by blast
  then have "rd_flagged (st_data (mo_store out)) = rd_flagged (flag_receipts ?chat (set (filter (\<lambda>i. i \<in> rr_acked st) (map u_ID ?p))) (st_data s))"
    using persist_prefix_effect(2) [OF store key1] by (simp add: receipt_progress_def Let_def)
  then show ?thesis using acked assms(6) by (auto simp: unread_row_def inbound_in_def flag_receipts_def)
qed (use assms(7) in \<open>auto simp: mark_stops_def\<close>)

text \<open>C19. A successful whole-chat request makes progress: when messages were pending and its writes are in the store,
  strictly fewer are pending afterwards, so repeating a truncated request comes to an end.\<close>

theorem whole_chat_request_progresses:
  assumes "keyed c_jid (rd_chats (st_data s))" "no_zero_time (st_data s)"
    and "out = markWholeChatRead deps req chatJID readAt now s" "mp_Success (mo_response out)"
    and "st_failures (mo_store out) = st_failures s" "up_to_of req now = Some upTo" "unread_rows (st_data s) (mr_ChatJID req) upTo \<noteq> []"
  shows "length (unread_rows (st_data (mo_store out)) (mr_ChatJID req) upTo) < length (unread_rows (st_data s) (mr_ChatJID req) upTo)"
  using assms(3)
proof (cases rule: whole_chat_cases)
  case (stop status)
  then show ?thesis using assms(4) by (simp add: mark_stops_def no_response_def)
next
  case (empty upTo' w)
  then show ?thesis using assms(6,7) page_split(1) [OF assms(2) refl, of "mr_ChatJID req" upTo] by (simp add: markReadMaxMessages_def)
next
  case (run upTo' page receiptChat groups un run)
  let ?chat = "mr_ChatJID req" and ?S = "unread_rows (st_data s) (mr_ChatJID req) upTo"
  define p where "p = take markReadMaxMessages page"
  define T where "T = take markReadMaxMessages ?S"
  obtain e st where st: "run = (e, st)" by fastforce
  have up: "upTo' = upTo" using run(1) assms(6) by simp
  note R = run_receipts [OF run(5) run(6) [symmetric, unfolded st]]
  have ok: "e = Run_on" "\<not> rr_failed st"
    using assms(4) run(7) st R(5) by (cases e; auto simp: finish_run_def Let_def no_response_def)+
  define c where "c = coveredPrefix p (rr_acked st) (overflow_of page)"
  have c: "c > 0" unfolding c_def using run(3) R(4) [OF ok] by (intro covered_all) (auto simp: p_def)
  let ?at = "u_Timestamp (p ! (c - 1))"
  obtain s1 where s1: "st_failures s1 = st_failures s \<Longrightarrow> st_data s1 = mark_chat ?chat ?at (st_data s)"
      "keyed c_jid (rd_chats (st_data s1))" "rd_rows (st_data s1) = rd_rows (st_data s)" "st_failures s \<le> st_failures s1"
      "mo_store out = s1 \<or> mo_store out = snd (persistAcknowledgedReceiptPrefix deps ?chat upTo s1)"
    using ordinary_end [OF _ assms(1) run(7)] st ok(1) c unfolding p_def [symmetric] up by (auto simp: c_def)
  have after: "gentle ?chat (st_data s1) (st_data (mo_store out))" "st_failures s1 \<le> st_failures (mo_store out)"
    using s1(5) gentle_refl [OF s1(2)] persist_prefix_effect(1,4) [OF surjective_pairing s1(2)] by auto
  have s1_data: "st_data s1 = mark_chat ?chat ?at (st_data s)" using s1(1,4) after(2) assms(5) by simp
  have only: "unread_row (st_data s) ?chat upTo r \<and> dbTime ?at < row_second r" if "unread_row (st_data (mo_store out)) ?chat upTo r" for r
    using that after(1) mark_only_reads [OF assms(1), of ?chat ?at upTo r] by (auto simp: gentle_def s1_data)
  have pT: "p = map unread_entry T" using page_split(1) [OF assms(2) run(2)] by (simp add: p_def T_def up)
  have cT: "c - 1 < length T" using covered_le [of p "rr_acked st" "overflow_of page"] c by (simp add: c_def pT)
  have T0: "T \<noteq> []" using cT by auto
  have "sorted (map row_second T)" unfolding T_def take_map [symmetric] using unread_rows_sorted by (rule sorted_wrt_take)
  then have first: "row_second (T ! 0) \<le> dbTime ?at"
    using sorted_nth_mono [of "map row_second T" 0 "c - 1"] cT T0 by (simp add: pT)
  have "T ! 0 \<in> set T" using T0 by simp
  then have "T ! 0 \<in> set ?S" unfolding T_def by (rule in_set_takeD)
  then have x: "T ! 0 \<in> set (filter (unread_row (st_data s) ?chat upTo) (rd_rows (st_data s)))" by simp
  have rows: "rd_rows (st_data (mo_store out)) = rd_rows (st_data s)" using after(1) s1(3) by (simp add: gentle_def)
  have "filter (unread_row (st_data (mo_store out)) ?chat upTo) (rd_rows (st_data s))
      = filter (unread_row (st_data (mo_store out)) ?chat upTo) (filter (unread_row (st_data s) ?chat upTo) (rd_rows (st_data s)))"
    using only by (auto simp: filter_filter intro: filter_cong)
  also have "length \<dots> < length (filter (unread_row (st_data s) ?chat upTo) (rd_rows (st_data s)))"
    using x only [of "T ! 0"] first by (intro length_filter_less [of "T ! 0"]) auto
  finally show ?thesis by (simp add: unread_rows_def rows)
qed

definition request_chat :: "MarkReadRequest \<Rightarrow> string" where "request_chat req = TrimSpace (mr_ChatJID req)"

lemma listed_receipts:
  assumes "rc \<in> set (mo_receipts (markListedRead deps req chatJID readAt s))"
  shows "addressable (md_resolve deps (mr_ChatJID req)) = Some (rc_chat rc) \<and> rc_ids rc = mr_MessageIDs req
    \<and> ValidateInboundMarkRead (md_sdk deps) (rd_rows (st_data s)) (mr_ChatJID req) (mr_SenderJID req) (mr_MessageIDs req)"
  using assms
  by (auto simp: markListedRead_def send_listed_def mark_stops_def Let_def split: if_splits option.splits prod.splits)

lemma validated_inbound:
  assumes "ValidateInboundMarkRead sdk rows chat sender ids" "i \<in> set ids"
  shows "\<exists>r \<in> set rows. m_id r = i \<and> m_chat r = chat \<and> \<not> m_own r"
proof -
  have "row_of message_key (i, chat) rows \<noteq> None \<and> \<not> m_own (the (row_of message_key (i, chat) rows))"
    using assms by (cases "row_of message_key (i, chat) rows") (auto simp: ValidateInboundMarkRead_def Let_def list_all_iff)
  then obtain r where r: "row_of message_key (i, chat) rows = Some r" "\<not> m_own r" by auto
  from row_of_Some_in [OF r(1)] r(2) show ?thesis by (auto simp: message_key_def)
qed

lemma whole_chat_receipts:
  assumes "rc \<in> set (mo_receipts (markWholeChatRead deps req chatJID readAt now s))"
  shows "addressable (md_resolve deps (mr_ChatJID req)) = Some (rc_chat rc) \<and> length (rc_ids rc) \<le> markReadBatch
    \<and> (\<forall>i \<in> set (rc_ids rc). \<exists>r \<in> set (rd_rows (st_data s)). m_id r = i \<and> m_chat r = mr_ChatJID req \<and> \<not> m_own r
          \<and> (if one_to_one chatJID then rc_sender rc = EmptyJID else addressable (md_resolve deps (row_sender r)) = Some (rc_sender rc)))"
  using refl [of "markWholeChatRead deps req chatJID readAt now s"]
proof (cases rule: whole_chat_cases)
  case (run upTo page receiptChat groups un run)
  let ?p = "take markReadMaxMessages page"
  obtain e st where st: "run = (e, st)" by fastforce
  from assms run(7) st have "rc \<in> set (rr_receipts st)" by simp
  then have "group_receipt deps receiptChat groups rc" by (rule run_receipts(3) [OF run(5) run(6) [symmetric, unfolded st]])
  then obtain g where g: "g \<in> set groups" "set (rc_ids rc) \<subseteq> set (sb_ids g)" "length (rc_ids rc) \<le> markReadBatch" "rc_chat rc = receiptChat"
    "if sb_sender g = [] then rc_sender rc = EmptyJID else addressable (md_resolve deps (sb_sender g)) = Some (rc_sender rc)"
    by (auto simp: group_receipt_def)
  have "\<exists>r \<in> set (rd_rows (st_data s)). m_id r = i \<and> m_chat r = mr_ChatJID req \<and> \<not> m_own r
          \<and> (if one_to_one chatJID then rc_sender rc = EmptyJID else addressable (md_resolve deps (row_sender r)) = Some (rc_sender rc))"
    if i: "i \<in> set (rc_ids rc)" for i
  proof -
    obtain v where v: "v \<in> set ?p" "u_ID v = i"
      "if one_to_one chatJID then sb_sender g = [] else sb_sender g = u_Sender v \<and> u_Sender v \<noteq> []"
      using grouped_by_sender [OF run(5) g(1), of i] g(2) i by blast
    from in_set_takeD [OF v(1)] obtain r where r: "r \<in> set (rd_rows (st_data s))" "unread_row (st_data s) (mr_ChatJID req) upTo r"
      "u_ID v = m_id r" "u_Sender v = row_sender r" unfolding run(2) by (rule page_sound)
    from unread_row_time [OF r(2)] v r g(5) show ?thesis
      by (intro bexI [OF _ r(1)]) (auto simp: inbound_in_def split: if_splits)
  qed
  with g run(4) show ?thesis by blast
qed (use assms in \<open>auto simp: mark_stops_def\<close>)

text \<open>C20. A receipt goes only to a chat the policy allows and names only messages others sent there: each message of an
  accepted receipt is an inbound row of the requested chat; the receipts of a whole chat hold at most 100
  messages and are addressed to the sender of each of them, or to nobody in a one-to-one chat.\<close>

theorem receipts_name_inbound_messages:
  assumes "rc \<in> set (mo_receipts (markReadHandler deps (Some req) now s))"
  shows "\<exists>chatJID. authorizeChat (md_sdk deps) (md_policy deps) (request_chat req) False = Inr chatJID
     \<and> addressable (md_resolve deps (request_chat req)) = Some (rc_chat rc)
     \<and> (\<forall>i \<in> set (rc_ids rc). \<exists>r \<in> set (rd_rows (st_data s)). m_id r = i \<and> m_chat r = request_chat req \<and> \<not> m_own r
          \<and> (mr_MessageIDs req = [] \<longrightarrow>
               (if one_to_one chatJID then rc_sender rc = EmptyJID else addressable (md_resolve deps (row_sender r)) = Some (rc_sender rc))))
     \<and> (if mr_MessageIDs req = [] then length (rc_ids rc) \<le> markReadBatch else rc_ids rc = mr_MessageIDs req)"
proof -
  let ?req = "req\<lparr>mr_ChatJID := request_chat req\<rparr>"
  from assms obtain chatJID readAt where a: "authorizeChat (md_sdk deps) (md_policy deps) (request_chat req) False = Inr chatJID"
    and rc: "rc \<in> set (mo_receipts (if mr_MessageIDs req = [] then markWholeChatRead deps ?req chatJID readAt now s else markListedRead deps ?req chatJID readAt s))"
    by (auto simp: markReadHandler_def mark_stops_def request_chat_def Let_def split: if_splits sum.splits option.splits)
  show ?thesis
  proof (cases "mr_MessageIDs req = []")
    case True
    with rc whole_chat_receipts [of rc deps ?req chatJID readAt now s] a show ?thesis by (intro exI [of _ chatJID]) auto
  next
    case False
    with rc listed_receipts [of rc deps ?req chatJID readAt s]
    have l: "addressable (md_resolve deps (request_chat req)) = Some (rc_chat rc)" "rc_ids rc = mr_MessageIDs req"
      "ValidateInboundMarkRead (md_sdk deps) (rd_rows (st_data s)) (request_chat req) (mr_SenderJID req) (mr_MessageIDs req)" by auto
    from l(1,2) validated_inbound [OF l(3)] False a show ?thesis by (intro exI [of _ chatJID]) auto
  qed
qed

section \<open>Two senders in a group\<close>

definition plain_row :: "string \<Rightarrow> string \<Rightarrow> int \<Rightarrow> message_row" where
  "plain_row i sender at_second = \<lparr>m_id = i, m_chat = ''12@g.us'', m_sender = Some sender, m_server = None, m_content = Some ''hi'', m_timestamp = Some at_second,
     m_own = False, m_mtype = None, m_filename = None, m_url = None, m_key = None, m_sha = None, m_enc = None, m_length = None, m_quoted = None, m_path = None,
     m_presentation = None, m_location = None, m_retryChat = None, m_retrySender = None, m_mentions = None, m_editTimestamp = 0, m_deleted = None\<rparr>"

definition two_unread :: "receipt_db store" where
  "two_unread = \<lparr>st_data = \<lparr>rd_rows = [plain_row ''A'' ''5511'' 9, plain_row ''B'' ''5522'' 9], rd_flagged = {}, rd_chats = []\<rparr>, st_writes = 0, st_failures = 0\<rparr>"

definition group_deps :: "nat \<Rightarrow> markReadDeps" where
  "group_deps budget = \<lparr>md_sdk = plain_sdk, md_allowSend = (\<lambda>n. if n < budget then None else Some 429), md_policy = parseChatPolicy ''12@g.us'', md_connected = True,
     md_resolve = parseRecipientJID plain_sdk, md_markRead = (\<lambda>_. True), md_query = (\<lambda>_. True), md_verdict = (\<lambda>_. None), md_wait = (\<lambda>_. True)\<rparr>"

definition group_mark :: MarkReadRequest where
  "group_mark = \<lparr>mr_MessageIDs = [], mr_ChatJID = ''12@g.us'', mr_SenderJID = [], mr_Timestamp = [], mr_UpTo = ''1970-01-01T00:01:00Z''\<rparr>"

definition group_out :: "nat \<Rightarrow> mark_outcome" where
  "group_out budget = markWholeChatRead (group_deps budget) group_mark (NewJID ''12'' ''g.us'') 0 0 two_unread"

lemma two_unread_ok:
  "keyed message_key (rd_rows (st_data two_unread))" "keyed c_jid (rd_chats (st_data two_unread))" "no_zero_time (st_data two_unread)"
  by code_simp+

theorem unread_until_acknowledged_witness:
  "unread_row (st_data (mo_store (group_out 1))) ''12@g.us'' (60 * second) (plain_row ''B'' ''5522'' 9)"
proof -
  have row: "plain_row ''B'' ''5522'' 9 \<in> set (rd_rows (st_data two_unread))" by (simp add: two_unread_def)
  have unread: "unread_row (st_data two_unread) (mr_ChatJID group_mark) (60 * second) (plain_row ''B'' ''5522'' 9)" by code_simp
  have "m_id (plain_row ''B'' ''5522'' 9) \<notin> set (concat (map rc_ids (mo_receipts (group_out 1))))" by code_simp
  then have no_receipt: "m_id (plain_row ''B'' ''5522'' 9) \<notin> receipt_ids (mo_receipts (group_out 1))" by (simp add: receipt_ids_def)
  have "row_sender (plain_row ''B'' ''5522'' 9) \<noteq> [] \<and> row_sender (plain_row ''B'' ''5522'' 9) \<noteq> ''12''" by code_simp
  with no_receipt have unacked: "\<not> acknowledged (NewJID ''12'' ''g.us'') (group_out 1) (plain_row ''B'' ''5522'' 9)"
    by (auto simp: acknowledged_def NewJID_def)
  have calm: "\<not> flooded_second (st_data two_unread) (mr_ChatJID group_mark) (plain_row ''B'' ''5522'' 9)" by code_simp
  from unread_until_acknowledged [OF two_unread_ok group_out_def [of 1] row unread] unacked calm
  show ?thesis by (simp add: group_mark_def)
qed

theorem refused_receipts_not_repeated_witness:
  "mo_status (group_out 1) = 429 \<and> \<not> unread_row (st_data (mo_store (group_out 1))) ''12@g.us'' (60 * second) (plain_row ''A'' ''5511'' 9)"
proof -
  have row: "plain_row ''A'' ''5511'' 9 \<in> set (rd_rows (st_data two_unread))" by (simp add: two_unread_def)
  have st: "mo_status (group_out 1) = 429" by code_simp
  have ok: "st_failures (mo_store (group_out 1)) = st_failures two_unread" by code_simp
  have "m_id (plain_row ''A'' ''5511'' 9) \<in> set (concat (map rc_ids (mo_receipts (group_out 1))))" by code_simp
  then have "m_id (plain_row ''A'' ''5511'' 9) \<in> receipt_ids (mo_receipts (group_out 1))" by (simp add: receipt_ids_def)
  from refused_receipts_not_repeated [OF two_unread_ok(2) group_out_def _ _ ok row this] st show ?thesis by (simp add: group_mark_def)
qed

theorem whole_chat_request_progresses_witness:
  "length (unread_rows (st_data (mo_store (group_out 2))) ''12@g.us'' (60 * second)) < 2"
proof -
  have ok: "st_failures (mo_store (group_out 2)) = st_failures two_unread" "mp_Success (mo_response (group_out 2))" by code_simp+
  have up: "up_to_of group_mark 0 = Some (60 * second)" by code_simp
  have two: "length (unread_rows (st_data two_unread) (mr_ChatJID group_mark) (60 * second)) = 2" by code_simp
  then have some: "unread_rows (st_data two_unread) (mr_ChatJID group_mark) (60 * second) \<noteq> []" by auto
  from whole_chat_request_progresses [OF two_unread_ok(2,3) group_out_def ok(2,1) up some] two show ?thesis
    by (simp add: group_mark_def)
qed

theorem receipts_name_inbound_messages_witness:
  "\<exists>r \<in> set (rd_rows (st_data two_unread)). m_id r = ''B'' \<and> \<not> m_own r
     \<and> addressable (md_resolve (group_deps 2) (row_sender r)) = Some (NewJID ''5522'' DefaultUserServer)"
proof -
  let ?rc = "\<lparr>rc_ids = [''B''], rc_readAt = 0, rc_chat = NewJID ''12'' ''g.us'', rc_sender = NewJID ''5522'' DefaultUserServer\<rparr>"
  have rc: "?rc \<in> set (mo_receipts (markReadHandler (group_deps 2) (Some group_mark) 0 two_unread))" by code_simp
  have auth: "authorizeChat (md_sdk (group_deps 2)) (md_policy (group_deps 2)) (request_chat group_mark) False = Inr (NewJID ''12'' ''g.us'')" by code_simp
  have "\<not> one_to_one (NewJID ''12'' ''g.us'')" "mr_MessageIDs group_mark = []" by code_simp+
  with receipts_name_inbound_messages [OF rc] auth show ?thesis by auto
qed

end
