(* ===== verification/Operator_Pairing.thy ===== *)
theory Operator_Pairing
  imports Connection_Handler Message_Store
begin

text \<open>
  Pairing under the operator's control (\<^verbatim>\<open>operator_pairing.go\<close>, \<^verbatim>\<open>operator_logout.go\<close>, and the QR flow of
  \<^verbatim>\<open>pairing.go\<close>): the state shown to the operator, the events of the QR channel and of the connection, the admission of a
  scanned device, the five actions of the operator's interface, and the loop that dials, retries and parks. Each
  section under the mutex \<^verbatim>\<open>mu\<close> is one function; the relation \<open>pairing_step\<close> interleaves them. The action mutex is the
  hand of the system: at most one action, or the loop between choosing a client and opening an attempt, is between its
  sections. A context is whether it is still alive, a client or a challenge is its address. What the SDK, the
  database and the clock answer are arguments. The wording of failure reasons and log lines are left out.
\<close>

section \<open>State\<close>

datatype pairing_phase =
    Starting | Awaiting_qr | Code_issued | Passkey_required | Passkey_submitted | Passkey_confirm | Passkey_failed
  | Completing | Paired | Connected | Expired | Logged_out | Pairing_required | Logged_out_by_operator

record webauthn_key =
  wk_address :: nat
  wk_RelyingPartID :: string
  wk_Challenge :: string
  wk_Timeout :: int

record operatorQR =
  qr_Payload :: string
  qr_Sequence :: nat
  qr_ExpiresAt :: instant

datatype failure_reason = No_reason | Step_expired | Step_failed | Step_ended

record operatorPairingState =
  ps_State :: pairing_phase
  ps_Attempt :: nat
  ps_Generation :: nat
  ps_QR :: "operatorQR option"
  ps_PairCode :: "instant option"
  ps_Passkey :: "webauthn_key option"
  ps_ConfirmationCode :: string
  ps_StepExpiresAt :: "instant option"
  ps_FailureReason :: failure_reason

definition pairing_attempts :: nat where "pairing_attempts = 3"
definition attemptTimeout :: duration where "attemptTimeout = 5 * minute"
definition retryDelay :: duration where "retryDelay = 5 * second"

text \<open>The controller with the fields of the bridge it reads and writes: the flag of a paired session, the operator's saved
  idle row (whether the session is wiped), the connection state, whose \<open>cn_retired\<close> says that the current client
  was retired. \<open>op_attempt\<close> is the attempt's context: absent before the first, else whether it is alive.\<close>

record operatorPairing =
  op_state :: operatorPairingState
  op_client :: nat
  op_fresh :: nat
  op_runtimePaired :: bool
  op_connected :: bool
  op_stopped :: bool
  op_attempt :: "bool option"
  op_kick :: bool
  op_codeCalls :: nat
  op_sequence :: nat
  op_completing :: bool
  op_conn :: conn
  op_wiped :: bool
  op_idle :: "bool option"

definition isPaired :: "operatorPairing \<Rightarrow> bool" where
  "isPaired p \<longleftrightarrow> \<not> cn_retired (op_conn p) \<and> op_runtimePaired p"

definition on_state :: "(operatorPairingState \<Rightarrow> operatorPairingState) \<Rightarrow> operatorPairing \<Rightarrow> operatorPairing" where
  "on_state f p = p\<lparr>op_state := f (op_state p)\<rparr>"

definition on_conn :: "(conn \<Rightarrow> conn) \<Rightarrow> operatorPairing \<Rightarrow> operatorPairing" where
  "on_conn f p = p\<lparr>op_conn := f (op_conn p)\<rparr>"

definition invalidateLocked :: "pairing_phase \<Rightarrow> operatorPairingState \<Rightarrow> operatorPairingState" where
  "invalidateLocked st s = s\<lparr>ps_State := st, ps_QR := None, ps_PairCode := None, ps_Passkey := None,
     ps_ConfirmationCode := [], ps_StepExpiresAt := None, ps_FailureReason := No_reason\<rparr>"

definition attemptActiveLocked :: "operatorPairing \<Rightarrow> bool" where
  "attemptActiveLocked p \<longleftrightarrow> op_attempt p = Some True"

definition cancelAttempt :: "operatorPairing \<Rightarrow> operatorPairing" where
  "cancelAttempt p = p\<lparr>op_attempt := map_option (\<lambda>_. False) (op_attempt p)\<rparr>"

definition new_generation :: "operatorPairingState \<Rightarrow> operatorPairingState" where
  "new_generation s = s\<lparr>ps_Generation := ps_Generation s + 1\<rparr>"

definition newOperatorPairing :: "nat \<Rightarrow> bool \<Rightarrow> bool \<Rightarrow> conn \<Rightarrow> operatorPairing" where
  "newOperatorPairing client paired online c =
     \<lparr>op_state = \<lparr>ps_State = Starting, ps_Attempt = 0, ps_Generation = 0, ps_QR = None, ps_PairCode = None, ps_Passkey = None,
        ps_ConfirmationCode = [], ps_StepExpiresAt = None, ps_FailureReason = No_reason\<rparr>,
      op_client = client, op_fresh = client + 1, op_runtimePaired = paired, op_connected = online, op_stopped = False, op_attempt = None,
      op_kick = False, op_codeCalls = 0, op_sequence = 0, op_completing = False, op_conn = c, op_wiped = False, op_idle = None\<rparr>"

section \<open>The QR channel\<close>

text \<open>Items of the channel: a code, a passkey request with its key, a passkey answer (the code to compare and whether the
  SDK confirms it itself), success, and the others, which end the flow when they are a timeout or carry an
  error.\<close>

datatype qr_item =
    Item_code string duration
  | Item_request "webauthn_key option"
  | Item_response "(string \<times> bool) option"
  | Item_success
  | Item_other bool bool

definition passkey_phases :: "pairing_phase list" where
  "passkey_phases = [Passkey_required, Passkey_submitted, Passkey_confirm, Passkey_failed]"

definition passkey_wait :: "webauthn_key option \<Rightarrow> duration" where
  "passkey_wait key = (case key of
       Some k \<Rightarrow> if wk_Timeout k > 0 then min (wk_Timeout k) (5 * minute div millisecond) * millisecond else attemptTimeout
     | None \<Rightarrow> attemptTimeout)"

fun observe_item :: "instant \<Rightarrow> qr_item \<Rightarrow> operatorPairing \<Rightarrow> operatorPairing" where
  "observe_item now (Item_code payload timeout) p =
     (if op_completing p \<or> ps_State (op_state p) \<in> {Passkey_required, Passkey_submitted, Passkey_confirm} then p
      else (on_state (\<lambda>s. s\<lparr>ps_QR := Some \<lparr>qr_Payload = payload, qr_Sequence = op_sequence p + 1, qr_ExpiresAt = now + timeout\<rparr>,
               ps_State := (if ps_PairCode s = None then Awaiting_qr else ps_State s)\<rparr>) p)\<lparr>op_sequence := op_sequence p + 1\<rparr>)"
| "observe_item now (Item_request key) p =
     on_state (\<lambda>s. (invalidateLocked Passkey_required s)\<lparr>ps_Passkey := key, ps_StepExpiresAt := Some (now + passkey_wait key)\<rparr>) p"
| "observe_item now (Item_response None) p = p"
| "observe_item now (Item_response (Some (code, skip))) p =
     (if skip then p else on_state (\<lambda>s. s\<lparr>ps_State := Passkey_confirm, ps_Passkey := None, ps_ConfirmationCode := code\<rparr>) p)"
| "observe_item now Item_success p = on_conn (setPairingState []) (on_state (invalidateLocked Paired) p)"
| "observe_item now (Item_other timeout failed) p =
     (if timeout \<or> failed
      then on_state (\<lambda>s. if ps_State s \<in> set passkey_phases
               then (invalidateLocked Passkey_failed s)\<lparr>ps_FailureReason := (if failed then Step_failed else Step_expired)\<rparr>
               else invalidateLocked Expired s) p
      else p)"

definition observe :: "instant \<Rightarrow> nat \<Rightarrow> qr_item \<Rightarrow> operatorPairing \<Rightarrow> operatorPairing" where
  "observe now generation item p = (if generation \<noteq> ps_Generation (op_state p) then p else observe_item now item p)"

text \<open>One turn of the loop of \<^verbatim>\<open>pairOnce\<close>: its result, if it ends, and whether the passkey step has begun.\<close>

datatype pair_result = Pair_ok | Pair_timeout | Pair_transport | Pair_operator | Pair_cancelled | Pair_failed

datatype pair_input = In_cancelled | In_timer | In_closed | In_item qr_item

fun pair_turn :: "instant \<Rightarrow> nat \<Rightarrow> bool \<Rightarrow> pair_input \<Rightarrow> operatorPairing \<Rightarrow> pair_result option \<times> bool \<times> operatorPairing" where
  "pair_turn now g passkey In_cancelled p = (Some Pair_cancelled, passkey, p)"
| "pair_turn now g passkey In_timer p =
     (if passkey then (Some Pair_operator, passkey, on_conn (setPairingState ''passkey_failed'') p) else (Some Pair_timeout, passkey, p))"
| "pair_turn now g passkey In_closed p =
     (if passkey then (Some Pair_operator, passkey, on_conn (setPairingState ''passkey_failed'') p) else (Some Pair_timeout, passkey, p))"
| "pair_turn now g passkey (In_item item) p0 =
     (let p = observe now g item p0
      in case item of
           Item_request _ \<Rightarrow> (None, True, on_conn (setPairingState ''passkey_required'') p)
         | Item_response _ \<Rightarrow> (None, True, on_conn (setPairingState ''passkey_confirm'') p)
         | Item_code _ _ \<Rightarrow> (None, passkey, p)
         | Item_success \<Rightarrow> (Some Pair_ok, passkey, on_conn (setPairingState []) p)
         | Item_other timeout failed \<Rightarrow>
             if \<not> timeout \<and> \<not> failed then (None, passkey, p)
             else if passkey then (Some Pair_operator, passkey, on_conn (setPairingState ''passkey_failed'') p)
             else (Some (if timeout then Pair_timeout else Pair_failed), passkey, p))"

text \<open>The flow up to the loop: the dial gate, the QR channel and the connection. A paired client only connects.\<close>

record dial_world =
  dw_gate :: bool
  dw_channel :: bool
  dw_connect :: bool

definition dial_start :: "dial_world \<Rightarrow> bool \<Rightarrow> pair_result option" where
  "dial_start w paired =
     (if \<not> dw_gate w then Some Pair_cancelled
      else if paired then Some (if dw_connect w then Pair_ok else Pair_transport)
      else if \<not> dw_channel w then Some Pair_failed
      else if \<not> dw_connect w then Some Pair_transport else None)"

section \<open>Connection events and the admission of a device\<close>

definition completeLocked :: "operatorPairing \<Rightarrow> operatorPairing" where
  "completeLocked p = p\<lparr>op_completing := False\<rparr>"

datatype pairing_event = Ev_connected | Ev_pair_success | Ev_pair_error | Ev_logged_out int bool

fun connectionEvent :: "pairing_event \<Rightarrow> operatorPairing \<Rightarrow> operatorPairing" where
  "connectionEvent Ev_connected p = on_state (invalidateLocked Connected) p"
| "connectionEvent Ev_pair_success p = completeLocked (on_state (invalidateLocked Paired) p)"
| "connectionEvent Ev_pair_error p = completeLocked (on_state (invalidateLocked Expired) p)"
| "connectionEvent (Ev_logged_out reason onConnect) p =
     (let p1 = cancelAttempt (on_state (\<lambda>s. new_generation (invalidateLocked Logged_out s)) p)
      in if reason = 401 \<or> \<not> onConnect \<and> reason = 0 then (on_state (invalidateLocked Pairing_required) p1)\<lparr>op_kick := True\<rparr> else p1)"

definition admissible :: "pairing_phase \<Rightarrow> bool" where
  "admissible st \<longleftrightarrow> st \<in> {Awaiting_qr, Code_issued, Passkey_submitted, Passkey_confirm}"

definition beginCompletion :: "nat \<Rightarrow> operatorPairing \<Rightarrow> bool \<times> operatorPairing" where
  "beginCompletion client p =
     (if op_stopped p \<or> \<not> attemptActiveLocked p \<or> op_client p \<noteq> client \<or> op_completing p \<or> isPaired p
         \<or> \<not> admissible (ps_State (op_state p)) then (False, p)
      else (True, (on_state (invalidateLocked Completing) p)\<lparr>op_completing := True\<rparr>))"

definition finishRetiredCompletion :: "nat \<Rightarrow> operatorPairing \<Rightarrow> operatorPairing" where
  "finishRetiredCompletion client p = (if op_client p = client then completeLocked p else p)"

text \<open>An event of a client: one of a retired client only ends its completion. \<open>event_conn\<close> is what \<^verbatim>\<open>handleEvent\<close> does to the
  connection state for these events.\<close>

fun event_conn :: "conn_env \<Rightarrow> pairing_event \<Rightarrow> conn \<Rightarrow> conn" where
  "event_conn e Ev_connected c = clearConnectionProblem e c"
| "event_conn e (Ev_logged_out reason onConnect) c =
     (if cn_logout c then c
      else let code = (if \<not> onConnect \<and> reason = 0 then 401 else reason)
           in if code = 401 then (if cn_retired c then c
                else setPairingState ''pairing_required'' (snd (recordConnectionProblem e code 0 0 (c\<lparr>cn_retired := True\<rparr>))))
              else snd (recordConnectionProblem e code 0 0 c))"
| "event_conn e _ c = c"

fun event_pairs :: "pairing_event \<Rightarrow> bool \<Rightarrow> bool" where
  "event_pairs Ev_connected _ = True"
| "event_pairs Ev_pair_success _ = True"
| "event_pairs Ev_pair_error paired = paired"
| "event_pairs (Ev_logged_out _ _) _ = False"

definition handleClientEvent :: "conn_env \<Rightarrow> nat \<Rightarrow> pairing_event \<Rightarrow> operatorPairing \<Rightarrow> operatorPairing" where
  "handleClientEvent e client ev p =
     (if cn_logout (op_conn p) \<or> op_client p \<noteq> client \<or> cn_retired (op_conn p)
      then (if ev = Ev_pair_success \<or> ev = Ev_pair_error then finishRetiredCompletion client p else p)
      else connectionEvent ev (on_conn (event_conn e ev) (p\<lparr>op_runtimePaired := event_pairs ev (op_runtimePaired p)\<rparr>)))"

text \<open>\<^verbatim>\<open>waitCompletion\<close> blocks while a device is being saved.\<close>

definition waitCompletion :: "operatorPairing \<Rightarrow> bool option" where
  "waitCompletion p = (if \<not> op_completing p then Some (\<not> op_stopped p) else if op_stopped p then Some False else None)"

definition fresh_until :: "instant \<Rightarrow> ('a \<Rightarrow> instant) \<Rightarrow> 'a option \<Rightarrow> 'a option" where
  "fresh_until now expiry x = (case x of None \<Rightarrow> None | Some v \<Rightarrow> if now < expiry v then Some v else None)"

definition pairing_snapshot :: "instant \<Rightarrow> operatorPairing \<Rightarrow> operatorPairingState" where
  "pairing_snapshot now p =
     (let s = op_state p;
          s1 = s\<lparr>ps_QR := fresh_until now qr_ExpiresAt (ps_QR s), ps_PairCode := fresh_until now id (ps_PairCode s)\<rparr>;
          s2 = (if ps_StepExpiresAt s \<noteq> None \<and> \<not> now < the (ps_StepExpiresAt s)
                then s1\<lparr>ps_Passkey := None, ps_ConfirmationCode := []\<rparr> else s1)
      in if \<not> cn_logout (op_conn p) \<and> isPaired p
         then s2\<lparr>ps_State := (if op_connected p then Connected else Paired), ps_QR := None, ps_PairCode := None, ps_Passkey := None,
                ps_ConfirmationCode := []\<rparr>
         else s2)"

section \<open>Passkey assertions\<close>

fun sextets :: "nat list \<Rightarrow> nat list" where
  "sextets [] = []"
| "sextets [a] = [a div 4, a mod 4 * 16]"
| "sextets [a, b] = [a div 4, a mod 4 * 16 + b div 16, b mod 16 * 4]"
| "sextets (a # b # c # rest) = [a div 4, a mod 4 * 16 + b div 16, b mod 16 * 4 + c div 64, c mod 64] @ sextets rest"

definition RawURLEncoding :: "string \<Rightarrow> string" where
  "RawURLEncoding s = map (\<lambda>k. ''ABCDEFGHIJKLMNOPQRSTUVWXYZabcdefghijklmnopqrstuvwxyz0123456789-_'' ! k) (sextets (map of_char s))"

record webauthn_response =
  wr_Type :: string
  wr_ID :: string
  wr_RawID :: string
  wr_AuthenticatorData :: string
  wr_Signature :: string
  wr_ClientDataJSON :: string

record client_data =
  wd_Type :: string
  wd_Challenge :: string
  wd_Origin :: string
  wd_CrossOrigin :: bool

record origin_url =
  ou_Scheme :: string
  ou_User :: bool
  ou_Path :: string
  ou_RawQuery :: string
  ou_Fragment :: string
  ou_Port :: string
  ou_Hostname :: string

text \<open>The decoders and the hash the check uses.\<close>

record assertion_tools =
  at_unmarshal :: "string \<Rightarrow> client_data option"
  at_parseURL :: "string \<Rightarrow> origin_url option"
  at_sha256 :: "string \<Rightarrow> string"

definition origin_fits :: "origin_url \<Rightarrow> string \<Rightarrow> bool" where
  "origin_fits u rp \<longleftrightarrow> ou_Scheme u = ''https'' \<and> \<not> ou_User u \<and> ou_Path u = [] \<and> ou_RawQuery u = [] \<and> ou_Fragment u = [] \<and> ou_Port u = []
     \<and> (ou_Hostname u = rp \<or> has_suffix (ou_Hostname u) (CHR ''.'' # rp))"

definition validPasskeyResponse :: "assertion_tools \<Rightarrow> webauthn_response \<Rightarrow> webauthn_key option \<Rightarrow> bool" where
  "validPasskeyResponse tools response request =
     (case request of
        None \<Rightarrow> False
      | Some k \<Rightarrow>
          wk_RelyingPartID k = ''whatsapp.com'' \<and> wr_Type response = ''public-key'' \<and> wr_RawID response \<noteq> []
          \<and> wr_ID response = RawURLEncoding (wr_RawID response) \<and> length (wr_AuthenticatorData response) \<ge> 37 \<and> wr_Signature response \<noteq> []
          \<and> (case at_unmarshal tools (wr_ClientDataJSON response) of
               None \<Rightarrow> False
             | Some d \<Rightarrow> wd_Type d = ''webauthn.get'' \<and> \<not> wd_CrossOrigin d \<and> wd_Challenge d = RawURLEncoding (wk_Challenge k)
                 \<and> (case at_parseURL tools (wd_Origin d) of None \<Rightarrow> False | Some u \<Rightarrow> origin_fits u (wk_RelyingPartID k)))
          \<and> at_sha256 tools (wk_RelyingPartID k) = take 32 (wr_AuthenticatorData response))"

section \<open>Actions of the operator\<close>

text \<open>An action between two of its sections, while it holds the action mutex; \<open>Hand_loop\<close> is the loop itself, which takes the
  same mutex to begin an attempt.\<close>

datatype hand =
    Hand_code nat nat instant
  | Hand_check webauthn_response nat nat "webauthn_key option"
  | Hand_send nat nat "webauthn_key option"
  | Hand_confirm nat
  | Hand_restart "(nat \<times> ConnectionProblem) option"
  | Hand_logout bool
  | Hand_loop

definition valid_phone :: "string \<Rightarrow> bool" where
  "valid_phone s \<longleftrightarrow> 7 \<le> length s \<and> length s \<le> 15 \<and> hd s \<noteq> CHR ''0'' \<and> list_all is_digit s"

definition code_begin :: "instant \<Rightarrow> string \<Rightarrow> operatorPairing \<Rightarrow> (nat + hand) \<times> operatorPairing" where
  "code_begin now phone p =
     (let s = op_state p
      in if \<not> valid_phone phone then (Inl 400, p)
         else case ps_QR s of
           None \<Rightarrow> (Inl 409, p)
         | Some q \<Rightarrow>
             if \<not> attemptActiveLocked p \<or> isPaired p \<or> (ps_State s \<noteq> Awaiting_qr \<and> ps_State s \<noteq> Code_issued) \<or> \<not> now < qr_ExpiresAt q
             then (Inl 409, p)
             else if op_codeCalls p \<ge> 3 then (Inl 429, p)
             else (Inr (Hand_code (op_client p) (ps_Generation s) (qr_ExpiresAt q)), p\<lparr>op_codeCalls := op_codeCalls p + 1\<rparr>))"

definition code_finish :: "instant \<Rightarrow> bool \<Rightarrow> nat \<Rightarrow> instant \<Rightarrow> operatorPairing \<Rightarrow> nat \<times> operatorPairing" where
  "code_finish now issued generation expires p =
     (let s = op_state p
      in if \<not> issued then (502, p)
         else if attemptActiveLocked p \<and> generation = ps_Generation s \<and> \<not> isPaired p \<and> \<not> op_completing p
              \<and> (ps_State s = Awaiting_qr \<or> ps_State s = Code_issued) \<and> now < expires
         then (200, on_state (\<lambda>s. s\<lparr>ps_State := Code_issued, ps_PairCode := Some expires\<rparr>) p)
         else (409, p))"

definition step_open :: "instant \<Rightarrow> operatorPairingState \<Rightarrow> bool" where
  "step_open now s \<longleftrightarrow> (case ps_StepExpiresAt s of None \<Rightarrow> False | Some e \<Rightarrow> now < e)"

definition passkey_begin :: "instant \<Rightarrow> nat \<Rightarrow> webauthn_response \<Rightarrow> operatorPairing \<Rightarrow> (nat + hand) \<times> operatorPairing" where
  "passkey_begin now generation response p =
     (let s = op_state p
      in if attemptActiveLocked p \<and> \<not> isPaired p \<and> ps_State s = Passkey_required \<and> generation = ps_Generation s \<and> step_open now s
         then (Inr (Hand_check response generation (op_client p) (ps_Passkey s)), p) else (Inl 409, p))"

definition passkey_claim :: "assertion_tools \<Rightarrow> instant \<Rightarrow> webauthn_response \<Rightarrow> nat \<Rightarrow> nat \<Rightarrow> webauthn_key option \<Rightarrow> operatorPairing
    \<Rightarrow> (nat + hand) \<times> operatorPairing" where
  "passkey_claim tools now response generation client request p =
     (let s = op_state p
      in if \<not> validPasskeyResponse tools response request then (Inl 400, p)
         else if attemptActiveLocked p \<and> \<not> isPaired p \<and> op_client p = client \<and> ps_Generation s = generation \<and> ps_State s = Passkey_required
                 \<and> ps_Passkey s = request \<and> step_open now s
         then (Inr (Hand_send generation client request), on_state (\<lambda>s. s\<lparr>ps_State := Passkey_submitted, ps_Passkey := None\<rparr>) p)
         else (Inl 409, p))"

definition passkey_finish :: "bool \<Rightarrow> nat \<Rightarrow> nat \<Rightarrow> webauthn_key option \<Rightarrow> operatorPairing \<Rightarrow> nat \<times> operatorPairing" where
  "passkey_finish sent generation client request p =
     (let s = op_state p
      in if sent then (202, p)
         else (502, if attemptActiveLocked p \<and> ps_Generation s = generation \<and> op_client p = client \<and> ps_State s = Passkey_submitted
                       \<and> \<not> op_completing p \<and> \<not> isPaired p
                    then on_state (\<lambda>s. s\<lparr>ps_State := Passkey_required, ps_Passkey := request\<rparr>) p else p))"

definition confirm_begin :: "instant \<Rightarrow> nat \<Rightarrow> string \<Rightarrow> operatorPairing \<Rightarrow> (nat + hand) \<times> operatorPairing" where
  "confirm_begin now generation code p =
     (let s = op_state p
      in if attemptActiveLocked p \<and> \<not> isPaired p \<and> ps_State s = Passkey_confirm \<and> generation = ps_Generation s \<and> ps_ConfirmationCode s \<noteq> []
            \<and> code = ps_ConfirmationCode s \<and> step_open now s
         then (Inr (Hand_confirm generation), p) else (Inl 409, p))"

definition confirm_finish :: "bool \<Rightarrow> nat \<Rightarrow> operatorPairing \<Rightarrow> nat \<times> operatorPairing" where
  "confirm_finish sent generation p =
     (let s = op_state p
      in if \<not> sent then (502, p)
         else (202, if ps_Generation s = generation \<and> ps_State s = Passkey_confirm
                    then on_state (\<lambda>s. s\<lparr>ps_State := Passkey_submitted, ps_ConfirmationCode := []\<rparr>) p else p))"

definition restartable :: "pairing_phase \<Rightarrow> bool" where
  "restartable st \<longleftrightarrow> st \<in> {Expired, Passkey_failed, Logged_out, Pairing_required, Logged_out_by_operator}"

definition restart_begin :: "instant \<Rightarrow> operatorPairing \<Rightarrow> (nat + hand) \<times> operatorPairing" where
  "restart_begin now p =
     (let problem = cn_problem (op_conn p)
      in if cn_logout (op_conn p) \<and> \<not> op_wiped p then (Inl 409, p)
         else if isPaired p then (Inl 409, p)
         else if held (\<lambda>q. Kind q = ''temporarily_banned'' \<and> ExpiresAt q \<noteq> None \<and> now < the (ExpiresAt q)) problem then (Inl 409, p)
         else if held (\<lambda>q. Kind q = ''client_outdated'') problem then (Inl 409, p)
         else if op_completing p \<or> \<not> restartable (ps_State (op_state p)) \<and> \<not> held (\<lambda>q. restrictsAccountAt q now) problem then (Inl 409, p)
         else (Inr (Hand_restart problem), p))"

definition restart_finish :: "conn_env \<Rightarrow> bool \<Rightarrow> (nat \<times> ConnectionProblem) option \<Rightarrow> operatorPairing \<Rightarrow> nat \<times> operatorPairing" where
  "restart_finish e deleted problem p =
     (case resolveConnectionProblemIf e problem (op_conn p) of
        (ok, c) \<Rightarrow>
          let p1 = p\<lparr>op_conn := c\<rparr>
          in if \<not> ok then (409, p1)
             else if cn_failed c then (503, p1)
             else if cn_logout c \<and> \<not> deleted then (503, p1)
             else let p2 = (if cn_logout c then p1\<lparr>op_idle := None, op_conn := c\<lparr>cn_logout := False\<rparr>\<rparr> else p1)
                  in (202, (cancelAttempt (on_state (\<lambda>s. invalidateLocked Starting (new_generation s)) p2))\<lparr>op_kick := True\<rparr>))"

section \<open>The operator's logout\<close>

definition park_logged_out :: "operatorPairing \<Rightarrow> operatorPairing" where
  "park_logged_out p = on_conn (\<lambda>c. connectionChangedLocked (c\<lparr>cn_pairing := ''logged_out_by_operator''\<rparr>)) (on_state (invalidateLocked Logged_out_by_operator) p)"

definition logout_begin :: "bool \<Rightarrow> bool \<Rightarrow> bool \<Rightarrow> operatorPairing \<Rightarrow> (nat + hand) \<times> operatorPairing" where
  "logout_begin exits saved drained p =
     (let out = cn_logout (op_conn p)
      in if out \<and> op_wiped p \<or> \<not> out \<and> \<not> isPaired p then (Inl 409, p)
         else if \<not> saved then (Inl 503, p)
         else let p1 = (on_conn (\<lambda>c. c\<lparr>cn_logout := True, cn_retired := True\<rparr>) p)\<lparr>op_idle := Some False, op_wiped := (if out then op_wiped p else False)\<rparr>
              in if \<not> drained then (Inl 503, p1)
                 else (Inr (Hand_logout exits), park_logged_out (cancelAttempt (on_state new_generation p1))))"

record logout_world =
  lw_drained :: bool
  lw_wiped :: bool
  lw_snapshots :: bool
  lw_marked :: bool
  lw_cleared :: bool

definition logout_finish :: "bool \<Rightarrow> logout_world \<Rightarrow> operatorPairing \<Rightarrow> nat \<times> operatorPairing" where
  "logout_finish exits w p =
     (if \<not> lw_drained w then (503, p)
      else let p1 = park_logged_out p
           in if lw_wiped w \<and> lw_snapshots w \<and> lw_marked w
              then (200, p1\<lparr>op_wiped := True, op_runtimePaired := False, op_idle := (if exits \<and> lw_cleared w then None else Some True)\<rparr>)
              else (500, p1))"

definition restoreOperatorIdle :: "operatorPairing \<Rightarrow> operatorPairing" where
  "restoreOperatorIdle p =
     (case op_idle p of
        None \<Rightarrow> p
      | Some wiped \<Rightarrow> (on_conn (\<lambda>c. c\<lparr>cn_logout := True, cn_pairing := ''logged_out_by_operator''\<rparr>)
                        (on_state (\<lambda>s. s\<lparr>ps_State := Logged_out_by_operator\<rparr>) p))\<lparr>op_wiped := wiped \<and> \<not> isPaired p\<rparr>)"

section \<open>The loop\<close>

text \<open>Where the loop is: before attempt \<open>n\<close>; about to begin it, with its client chosen and the problem seen; dialing it, with its generation, its client, the problem seen at its start and whether
  the passkey step has begun; ended with a result; waiting to retry; parked until a kick; returned.\<close>

datatype run_pos =
    Run_top nat
  | Run_begin nat "(nat \<times> ConnectionProblem) option"
  | Run_dial nat nat nat "(nat \<times> ConnectionProblem) option" bool
  | Run_closing nat nat nat "(nat \<times> ConnectionProblem) option" pair_result
  | Run_retry nat
  | Run_transport nat
  | Run_parked
  | Run_done

record pairing_sys =
  sy_p :: operatorPairing
  sy_run :: run_pos
  sy_first :: bool
  sy_failures :: nat
  sy_hand :: "hand option"
  sy_asked :: "nat list"

text \<open>\<open>sy_asked\<close> is no field of the code: it records, for the statements below, the generation of every request for a
  pairing code that was passed to the SDK.\<close>

text \<open>Leaving the attempts: an expired sequence asks for a pairing.\<close>

definition park :: "instant \<Rightarrow> operatorPairing \<Rightarrow> operatorPairing" where
  "park now p = (if \<not> op_stopped p \<and> \<not> isPaired p \<and> \<not> cn_logout (op_conn p) \<and> ps_State (pairing_snapshot now p) = Expired
     then on_conn (setPairingState ''pairing_required'') p else p)"

definition parked :: "instant \<Rightarrow> pairing_sys \<Rightarrow> pairing_sys" where
  "parked now s = s\<lparr>sy_p := park now (sy_p s), sy_run := (if op_stopped (sy_p s) then Run_done else Run_parked)\<rparr>"

text \<open>The factory installs a client for a new device, or one it found, or fails.\<close>

definition install_client :: "bool \<Rightarrow> conn \<Rightarrow> operatorPairing \<Rightarrow> operatorPairing" where
  "install_client paired c p = p\<lparr>op_client := op_fresh p, op_fresh := op_fresh p + 1, op_runtimePaired := paired,
     op_conn := setPairingState [] (c\<lparr>cn_retired := False\<rparr>)\<rparr>"

definition begin_attempt :: "nat \<Rightarrow> operatorPairing \<Rightarrow> operatorPairing" where
  "begin_attempt attempt p =
     (on_state (\<lambda>s. invalidateLocked Starting ((new_generation s)\<lparr>ps_Attempt := attempt\<rparr>)) p)
       \<lparr>op_codeCalls := 0, op_sequence := 0, op_attempt := Some (\<not> op_stopped p)\<rparr>"

text \<open>The section that opens an attempt, under the controller's mutex: a new generation, no code asked yet, a live context.\<close>

definition dialing :: "nat \<Rightarrow> (nat \<times> ConnectionProblem) option \<Rightarrow> pairing_sys \<Rightarrow> pairing_sys" where
  "dialing attempt problem s =
     (let p1 = begin_attempt attempt (sy_p s)
      in s\<lparr>sy_p := p1, sy_hand := None, sy_run := Run_dial attempt (ps_Generation (op_state p1)) (op_client p1) problem False\<rparr>)"

definition ready :: "nat \<Rightarrow> operatorPairing \<Rightarrow> pairing_sys \<Rightarrow> pairing_sys" where
  "ready attempt p s = s\<lparr>sy_p := p, sy_first := False, sy_hand := Some Hand_loop, sy_run := Run_begin attempt (cn_problem (op_conn p))\<rparr>"

text \<open>The section before it, up to the client: the checks, the factory and the installed client. The loop holds the action
  mutex from here to the end of \<open>dialing\<close>, so no action of the operator falls in between, while events, a shutdown and the
  other writers of the connection state may come between the two. Inside this section they come before or after it: the
  factory's own run is not cut, because the old client has just been disconnected with no completion pending and no live
  attempt, so that nothing can be admitted on it, and the new client has not been dialled and raises no event.\<close>

definition run_top :: "instant \<Rightarrow> (bool \<times> conn) option \<Rightarrow> nat \<Rightarrow> pairing_sys \<Rightarrow> pairing_sys" where
  "run_top now made attempt s =
     (let p = sy_p s
      in if attempt > pairing_attempts then parked now s
         else if op_stopped p then s\<lparr>sy_run := Run_done\<rparr>
         else if cn_logout (op_conn p) then parked now s
         else if sy_first s \<and> cn_pairing (op_conn p) = ''pairing_required''
         then parked now (s\<lparr>sy_first := False, sy_p := on_state (invalidateLocked Pairing_required) p\<rparr>)
         else if \<not> sy_first s \<and> isPaired p then parked now s
         else if \<not> sy_first s \<or> cn_retired (op_conn p)
         then (case made of
                 None \<Rightarrow> parked now (s\<lparr>sy_p := on_state (invalidateLocked Expired) p\<rparr>)
               | Some (paired, c) \<Rightarrow> ready attempt (install_client paired c p) s)
         else ready attempt p s)"

definition run_returned :: "instant \<Rightarrow> nat \<Rightarrow> nat \<Rightarrow> nat \<Rightarrow> (nat \<times> ConnectionProblem) option \<Rightarrow> pair_result \<Rightarrow> pairing_sys \<Rightarrow> pairing_sys" where
  "run_returned now attempt g client problem result s =
     (let s1 = s\<lparr>sy_p := cancelAttempt (sy_p s)\<rparr>
      in if op_stopped (sy_p s) then s1\<lparr>sy_run := Run_done\<rparr>
         else if result = Pair_ok then parked now s1
         else s1\<lparr>sy_run := Run_closing attempt g client problem result\<rparr>)"

definition failed_state :: "pair_result \<Rightarrow> operatorPairingState \<Rightarrow> operatorPairingState" where
  "failed_state result s =
     (if result = Pair_operator
      then (invalidateLocked Passkey_failed s)\<lparr>ps_FailureReason := (if ps_FailureReason s = No_reason then Step_ended else ps_FailureReason s)\<rparr>
      else invalidateLocked Expired s)"

definition run_close :: "instant \<Rightarrow> nat \<Rightarrow> nat \<Rightarrow> (nat \<times> ConnectionProblem) option \<Rightarrow> pair_result \<Rightarrow> pairing_sys \<Rightarrow> pairing_sys" where
  "run_close now attempt g problem0 result s =
     (let p = sy_p s; problem = cn_problem (op_conn p); cancelled = (g \<noteq> ps_Generation (op_state p))
      in if op_stopped p then s\<lparr>sy_run := Run_done\<rparr>
         else if cancelled then parked now s
         else if isPaired p then parked now (s\<lparr>sy_p := on_conn (setPairingState []) (on_state (invalidateLocked Paired) p)\<rparr>)
         else let p1 = on_state (failed_state result) p
              in if result \<noteq> Pair_operator \<and> held (\<lambda>q. Kind q = ''temporarily_banned'') problem \<and> problem \<noteq> problem0
                 then s\<lparr>sy_p := on_conn (setPairingState []) p1, sy_run := Run_top 1\<rparr>
                 else if result = Pair_operator \<or> held (\<lambda>q. restrictsAccount q \<and> Kind q \<noteq> ''temporarily_banned'') problem
                 then parked now (s\<lparr>sy_p := p1\<rparr>)
                 else if result = Pair_transport
                 then s\<lparr>sy_p := on_conn (setPairingState []) (on_state (invalidateLocked Starting) p1),
                        sy_failures := sy_failures s + 1, sy_run := Run_transport (attempt - 1)\<rparr>
                 else if attempt < pairing_attempts then s\<lparr>sy_p := p1, sy_failures := 0, sy_run := Run_retry attempt\<rparr>
                 else s\<lparr>sy_p := p1, sy_failures := 0, sy_run := Run_top (attempt + 1)\<rparr>)"

text \<open>The pause after transport failures doubles up to a minute.\<close>

fun double_delay :: "nat \<Rightarrow> duration \<Rightarrow> duration" where
  "double_delay 0 d = d"
| "double_delay (Suc n) d = (if d < minute then double_delay n (min (d * 2) minute) else d)"

definition transport_delay :: "duration \<Rightarrow> nat \<Rightarrow> duration" where
  "transport_delay delay failures =
     (let d = min delay minute in double_delay (failures - 1) (if d \<le> 0 then second else d))"

section \<open>Interleavings\<close>

definition with_p :: "(operatorPairing \<Rightarrow> operatorPairing) \<Rightarrow> pairing_sys \<Rightarrow> pairing_sys" where
  "with_p f s = s\<lparr>sy_p := f (sy_p s)\<rparr>"

definition begun :: "(nat + hand) \<times> operatorPairing \<Rightarrow> pairing_sys \<Rightarrow> pairing_sys" where
  "begun r s = s\<lparr>sy_p := snd r, sy_hand := (case fst r of Inl _ \<Rightarrow> None | Inr h \<Rightarrow> Some h),
     sy_asked := (case fst r of Inr (Hand_code _ g _) \<Rightarrow> g # sy_asked s | _ \<Rightarrow> sy_asked s)\<rparr>"

definition ended :: "nat \<times> operatorPairing \<Rightarrow> pairing_sys \<Rightarrow> pairing_sys" where
  "ended r s = s\<lparr>sy_p := snd r, sy_hand := None\<rparr>"

definition same_flags :: "conn \<Rightarrow> conn \<Rightarrow> bool" where
  "same_flags c d \<longleftrightarrow> cn_logout d = cn_logout c \<and> cn_retired d = cn_retired c"

inductive pairing_step :: "pairing_sys \<Rightarrow> pairing_sys \<Rightarrow> bool" where
  event: "pairing_step s (with_p (handleClientEvent e client ev) s)"
| admit: "pairing_step s (with_p (\<lambda>p. snd (beginCompletion client p)) s)"
| network: "pairing_step s (with_p (\<lambda>p. p\<lparr>op_connected := b\<rparr>) s)"
| others: "same_flags (op_conn (sy_p s)) c \<Longrightarrow> pairing_step s (with_p (\<lambda>p. p\<lparr>op_conn := c\<rparr>) s)"
| shutdown: "pairing_step s (with_p (\<lambda>p. cancelAttempt (p\<lparr>op_stopped := True\<rparr>)) s)"
| code: "sy_hand s = None \<Longrightarrow> pairing_step s (begun (code_begin now phone (sy_p s)) s)"
| code_done: "sy_hand s = Some (Hand_code client g expires) \<Longrightarrow> pairing_step s (ended (code_finish now issued g expires (sy_p s)) s)"
| passkey: "sy_hand s = None \<Longrightarrow> pairing_step s (begun (passkey_begin now g response (sy_p s)) s)"
| passkey_checked: "sy_hand s = Some (Hand_check response g client request) \<Longrightarrow>
    pairing_step s (begun (passkey_claim tools now response g client request (sy_p s)) s)"
| passkey_done: "sy_hand s = Some (Hand_send g client request) \<Longrightarrow> pairing_step s (ended (passkey_finish sent g client request (sy_p s)) s)"
| confirm: "sy_hand s = None \<Longrightarrow> pairing_step s (begun (confirm_begin now g text_code (sy_p s)) s)"
| confirm_done: "sy_hand s = Some (Hand_confirm g) \<Longrightarrow> pairing_step s (ended (confirm_finish sent g (sy_p s)) s)"
| restart: "sy_hand s = None \<Longrightarrow> pairing_step s (begun (restart_begin now (sy_p s)) s)"
| restart_done: "sy_hand s = Some (Hand_restart problem) \<Longrightarrow> pairing_step s (ended (restart_finish e deleted problem (sy_p s)) s)"
| logout: "sy_hand s = None \<Longrightarrow> pairing_step s (begun (logout_begin exits saved drained (sy_p s)) s)"
| logout_done: "sy_hand s = Some (Hand_logout exits) \<Longrightarrow> pairing_step s (ended (logout_finish exits w (sy_p s)) s)"
| top: "sy_run s = Run_top n \<Longrightarrow> sy_hand s = None \<Longrightarrow> waitCompletion (sy_p s) = Some going \<Longrightarrow>
    (case made of None \<Rightarrow> True | Some (_, c) \<Rightarrow> same_flags (op_conn (sy_p s)) c) \<Longrightarrow> pairing_step s (run_top now made n s)"
| generation: "sy_run s = Run_begin n problem \<Longrightarrow> pairing_step s (dialing n problem s)"
| dial: "sy_run s = Run_dial n g client problem passkey \<Longrightarrow> dial_start w (isPaired (sy_p s)) = Some result \<Longrightarrow>
    pairing_step s (run_returned now n g client problem result s)"
| channel: "sy_run s = Run_dial n g client problem passkey \<Longrightarrow> pair_turn now g passkey input (sy_p s) = (None, passkey', p) \<Longrightarrow>
    pairing_step s (s\<lparr>sy_p := p, sy_run := Run_dial n g client problem passkey'\<rparr>)"
| returned: "sy_run s = Run_dial n g client problem passkey \<Longrightarrow> pair_turn now g passkey input (sy_p s) = (Some result, passkey', p) \<Longrightarrow>
    pairing_step s (run_returned now n g client problem result (s\<lparr>sy_p := p\<rparr>))"
| close: "sy_run s = Run_closing n g client problem result \<Longrightarrow> sy_hand s = None \<Longrightarrow> waitCompletion (sy_p s) = Some going \<Longrightarrow>
    pairing_step s (run_close now n g problem result s)"
| retry: "sy_run s = Run_retry n \<or> sy_run s = Run_transport n \<Longrightarrow> pairing_step s (s\<lparr>sy_run := Run_top (n + 1)\<rparr>)"
| kick: "sy_run s = Run_retry n \<or> sy_run s = Run_transport n \<or> sy_run s = Run_parked \<Longrightarrow> op_kick (sy_p s) \<Longrightarrow>
    pairing_step s (s\<lparr>sy_p := (sy_p s)\<lparr>op_kick := False\<rparr>, sy_run := Run_top 1,
      sy_failures := (if sy_run s = Run_transport n then 0 else sy_failures s)\<rparr>)"
| stop: "op_stopped (sy_p s) \<Longrightarrow> sy_run s = Run_retry n \<or> sy_run s = Run_transport n \<or> sy_run s = Run_parked \<Longrightarrow>
    pairing_step s (s\<lparr>sy_run := Run_done\<rparr>)"

inductive pairing_reachable :: "pairing_sys \<Rightarrow> bool" where
  restored: "\<not> cn_logout c \<Longrightarrow> pairing_reachable \<lparr>sy_p = restoreOperatorIdle ((newOperatorPairing client paired online c)\<lparr>op_idle := idle\<rparr>), sy_run = Run_top 1,
    sy_first = True, sy_failures = 0, sy_hand = None, sy_asked = []\<rparr>"
| step: "pairing_reachable s \<Longrightarrow> pairing_step s t \<Longrightarrow> pairing_reachable t"

section \<open>Invariants\<close>

definition shown_ok :: "operatorPairingState \<Rightarrow> bool" where
  "shown_ok s \<longleftrightarrow> (ps_Passkey s \<noteq> None \<longrightarrow> ps_State s = Passkey_required) \<and> (ps_ConfirmationCode s \<noteq> [] \<longrightarrow> ps_State s = Passkey_confirm)"

definition op_ok :: "operatorPairing \<Rightarrow> bool" where
  "op_ok p \<longleftrightarrow> shown_ok (op_state p) \<and> op_codeCalls p \<le> 3 \<and> (attemptActiveLocked p \<longrightarrow> \<not> op_stopped p) \<and> op_client p < op_fresh p"

text \<open>What no section other than the loop's own changes.\<close>

definition op_quiet :: "operatorPairing \<Rightarrow> operatorPairing \<Rightarrow> bool" where
  "op_quiet p q \<longleftrightarrow> op_client q = op_client p \<and> op_fresh q = op_fresh p \<and> ps_Generation (op_state p) \<le> ps_Generation (op_state q)
     \<and> (attemptActiveLocked q \<longrightarrow> attemptActiveLocked p \<and> ps_Generation (op_state q) = ps_Generation (op_state p))
     \<and> op_codeCalls p \<le> op_codeCalls q"

definition op_idle_same :: "operatorPairing \<Rightarrow> operatorPairing \<Rightarrow> bool" where
  "op_idle_same p q \<longleftrightarrow> cn_logout (op_conn q) = cn_logout (op_conn p) \<and> op_wiped q = op_wiped p \<and> op_idle q = op_idle p"

lemma op_quiet_refl [simp]: "op_quiet p p" "op_idle_same p p"
  by (simp_all add: op_quiet_def op_idle_same_def)

lemma invalidated [simp]:
  "shown_ok (invalidateLocked st s)" "ps_State (invalidateLocked st s) = st" "ps_Generation (invalidateLocked st s) = ps_Generation s"
  "ps_Passkey (invalidateLocked st s) = None" "ps_ConfirmationCode (invalidateLocked st s) = []"
  by (simp_all add: invalidateLocked_def shown_ok_def)

lemma shown_more [simp]:
  "shown_ok (s\<lparr>ps_Generation := g\<rparr>) = shown_ok s" "shown_ok (s\<lparr>ps_Attempt := n\<rparr>) = shown_ok s"
  by (simp_all add: shown_ok_def)

lemmas pairing_defs = on_state_def on_conn_def attemptActiveLocked_def cancelAttempt_def new_generation_def completeLocked_def

lemma flags_kept [simp]:
  "cn_logout (setPairingState st c) = cn_logout c" "cn_retired (setPairingState st c) = cn_retired c"
  "cn_logout (connectionChangedLocked c) = cn_logout c" "cn_retired (connectionChangedLocked c) = cn_retired c"
  "cn_logout (clearConnectionSnapshot e b c) = cn_logout c"
  "cn_logout (clearConnectionProblem e c) = cn_logout c"
  by (simp_all add: setPairingState_def connectionChangedLocked_def clearConnectionSnapshot_def clearConnectionProblem_def)

lemma resolve_keeps_logout [simp]: "cn_logout (snd (resolveConnectionProblemIf e problem c)) = cn_logout c"
  by (auto simp: resolveConnectionProblemIf_def clearConnectionProblemIf_def persist_flags publish_def case_prod_unfold split: option.split)

lemma event_keeps_logout [simp]: "cn_logout (event_conn e ev c) = cn_logout c"
  by (cases "(e, ev, c)" rule: event_conn.cases) (auto simp: Let_def record_flags)

text \<open>Every section of an event, of the QR channel and of an action keeps the invariant and begins no attempt.\<close>

lemma observe_item_ok:
  "op_ok p \<Longrightarrow> op_ok (observe_item now item p) \<and> op_quiet p (observe_item now item p) \<and> op_idle_same p (observe_item now item p)"
  by (induction now item p rule: observe_item.induct)
    (auto simp: op_ok_def op_quiet_def op_idle_same_def pairing_defs shown_ok_def passkey_phases_def invalidateLocked_def)

lemma observe_ok: "op_ok p \<Longrightarrow> op_ok (observe now g item p) \<and> op_quiet p (observe now g item p) \<and> op_idle_same p (observe now g item p)"
  by (simp add: observe_def observe_item_ok)

lemma on_conn_ok:
  "op_ok (on_conn f p) = op_ok p" "op_quiet q (on_conn f p) = op_quiet q p"
  "(\<And>c. cn_logout (f c) = cn_logout c) \<Longrightarrow> op_idle_same q (on_conn f p) = op_idle_same q p"
  by (simp_all add: on_conn_def op_ok_def op_quiet_def op_idle_same_def attemptActiveLocked_def)

lemma pair_turn_ok:
  assumes "op_ok p" "pair_turn now g passkey input p = (result, passkey', q)"
  shows "op_ok q \<and> op_quiet p q \<and> op_idle_same p q"
proof (cases input)
  case (In_item item)
  with assms observe_ok [OF assms(1), of now g item] show ?thesis
    by (auto simp: Let_def on_conn_ok split: qr_item.splits if_splits)
qed (use assms in \<open>auto simp: on_conn_ok split: if_splits\<close>)

lemma connectionEvent_ok:
  "op_ok p \<Longrightarrow> op_ok (connectionEvent ev p) \<and> op_quiet p (connectionEvent ev p) \<and> op_idle_same p (connectionEvent ev p)"
  by (cases ev) (auto simp: op_ok_def op_quiet_def op_idle_same_def pairing_defs Let_def)

lemma handleClientEvent_ok:
  assumes "op_ok p"
  shows "op_ok (handleClientEvent e client ev p) \<and> op_quiet p (handleClientEvent e client ev p) \<and> op_idle_same p (handleClientEvent e client ev p)"
proof -
  let ?q = "on_conn (event_conn e ev) (p\<lparr>op_runtimePaired := event_pairs ev (op_runtimePaired p)\<rparr>)"
  have q: "op_ok ?q" "op_quiet p ?q" "op_idle_same p ?q"
    using assms by (simp_all add: on_conn_def op_ok_def op_quiet_def op_idle_same_def attemptActiveLocked_def)
  have "op_ok (finishRetiredCompletion client p) \<and> op_quiet p (finishRetiredCompletion client p) \<and> op_idle_same p (finishRetiredCompletion client p)"
    using assms by (simp add: finishRetiredCompletion_def completeLocked_def op_ok_def op_quiet_def op_idle_same_def attemptActiveLocked_def)
  with connectionEvent_ok [OF q(1), of ev] q(2,3) assms show ?thesis
    by (auto simp: handleClientEvent_def op_quiet_def op_idle_same_def)
qed

lemma beginCompletion_ok:
  "op_ok p \<Longrightarrow> op_ok (snd (beginCompletion client p)) \<and> op_quiet p (snd (beginCompletion client p)) \<and> op_idle_same p (snd (beginCompletion client p))"
  by (auto simp: beginCompletion_def op_ok_def op_quiet_def op_idle_same_def pairing_defs)

lemma action_ok:
  assumes "op_ok p"
  shows "op_ok (snd (code_begin now phone p)) \<and> op_quiet p (snd (code_begin now phone p)) \<and> op_idle_same p (snd (code_begin now phone p))"
    and "op_ok (snd (code_finish now issued g expires p)) \<and> op_quiet p (snd (code_finish now issued g expires p)) \<and> op_idle_same p (snd (code_finish now issued g expires p))"
    and "snd (passkey_begin now g response p) = p"
    and "op_ok (snd (passkey_claim tools now response g client request p)) \<and> op_quiet p (snd (passkey_claim tools now response g client request p))
       \<and> op_idle_same p (snd (passkey_claim tools now response g client request p))"
    and "op_ok (snd (passkey_finish sent g client request p)) \<and> op_quiet p (snd (passkey_finish sent g client request p))
       \<and> op_idle_same p (snd (passkey_finish sent g client request p))"
    and "snd (confirm_begin now g code p) = p"
    and "op_ok (snd (confirm_finish sent g p)) \<and> op_quiet p (snd (confirm_finish sent g p)) \<and> op_idle_same p (snd (confirm_finish sent g p))"
    and "snd (restart_begin now p) = p"
  using assms
  by (auto simp: code_begin_def code_finish_def passkey_begin_def passkey_claim_def passkey_finish_def confirm_begin_def confirm_finish_def
      restart_begin_def Let_def op_ok_def op_quiet_def op_idle_same_def pairing_defs shown_ok_def split: option.split)

fun run_ok :: "operatorPairing \<Rightarrow> run_pos \<Rightarrow> bool" where
  "run_ok p (Run_top n) = (1 \<le> n \<and> n \<le> Suc pairing_attempts)"
| "run_ok p (Run_begin n problem) = (1 \<le> n \<and> n \<le> pairing_attempts)"
| "run_ok p (Run_dial n g client problem k) = (1 \<le> n \<and> n \<le> pairing_attempts \<and> client = op_client p \<and> g \<le> ps_Generation (op_state p))"
| "run_ok p (Run_closing n g client problem result) = (1 \<le> n \<and> n \<le> pairing_attempts)"
| "run_ok p (Run_retry n) = (1 \<le> n \<and> n < pairing_attempts)"
| "run_ok p (Run_transport n) = (n < pairing_attempts)"
| "run_ok p Run_parked = True"
| "run_ok p Run_done = True"

definition alive_ok :: "pairing_sys \<Rightarrow> bool" where
  "alive_ok s \<longleftrightarrow> (attemptActiveLocked (sy_p s) \<longrightarrow> (\<exists>n problem k. sy_run s = Run_dial n (ps_Generation (op_state (sy_p s))) (op_client (sy_p s)) problem k))"

definition idle_ok :: "operatorPairing \<Rightarrow> hand option \<Rightarrow> bool" where
  "idle_ok p h \<longleftrightarrow> (cn_logout (op_conn p) \<and> \<not> op_wiped p \<longrightarrow> op_idle p \<noteq> None)
     \<and> (\<forall>problem. h = Some (Hand_restart problem) \<longrightarrow> cn_logout (op_conn p) \<longrightarrow> op_wiped p)"

definition sys_ok :: "pairing_sys \<Rightarrow> bool" where
  "sys_ok s \<longleftrightarrow> op_ok (sy_p s) \<and> run_ok (sy_p s) (sy_run s) \<and> alive_ok s \<and> idle_ok (sy_p s) (sy_hand s)"

lemma sys_ok_asked [simp]: "sys_ok (s\<lparr>sy_asked := a\<rparr>) = sys_ok s"
  by (simp add: sys_ok_def alive_ok_def)

lemma run_ok_quiet: "op_quiet p q \<Longrightarrow> run_ok p r \<Longrightarrow> run_ok q r"
  by (cases r) (auto simp: op_quiet_def)

lemma quiet_step:
  assumes "sys_ok s" "op_ok q" "op_quiet (sy_p s) q" "idle_ok q h"
  shows "sys_ok (s\<lparr>sy_p := q, sy_hand := h\<rparr>)"
proof -
  from assms(1) have r: "run_ok (sy_p s) (sy_run s)" and a: "alive_ok s" by (auto simp: sys_ok_def)
  have "alive_ok (s\<lparr>sy_p := q, sy_hand := h\<rparr>)" using a assms(3) by (auto simp: alive_ok_def op_quiet_def)
  with assms(2,4) run_ok_quiet [OF assms(3) r] show ?thesis by (simp add: sys_ok_def)
qed

lemma idle_same: "idle_ok p h \<Longrightarrow> op_idle_same p q \<Longrightarrow> (\<And>problem. h' = Some (Hand_restart problem) \<Longrightarrow> h' = h) \<Longrightarrow> idle_ok q h'"
  by (auto simp: idle_ok_def op_idle_same_def)

lemma quiet_p:
  assumes "sys_ok s" "op_ok q \<and> op_quiet (sy_p s) q \<and> op_idle_same (sy_p s) q"
  shows "sys_ok (s\<lparr>sy_p := q\<rparr>)"
proof -
  from assms have "idle_ok q (sy_hand s)" by (auto simp: sys_ok_def intro: idle_same)
  with assms have "sys_ok (s\<lparr>sy_p := q, sy_hand := sy_hand s\<rparr>)" by (intro quiet_step) auto
  then show ?thesis by simp
qed

lemma quiet_hand:
  assumes "sys_ok s" "op_ok q \<and> op_quiet (sy_p s) q \<and> op_idle_same (sy_p s) q" "\<And>problem. h \<noteq> Some (Hand_restart problem)"
  shows "sys_ok (s\<lparr>sy_p := q, sy_hand := h\<rparr>)"
proof -
  from assms have "idle_ok q h" by (auto simp: sys_ok_def intro: idle_same)
  with assms(1,2) show ?thesis by (intro quiet_step) auto
qed

text \<open>The sections of restart and logout.\<close>

lemma restart_finish_ok:
  assumes "op_ok p" "idle_ok p (Some (Hand_restart problem))"
  shows "op_ok (snd (restart_finish e deleted problem p)) \<and> op_quiet p (snd (restart_finish e deleted problem p))
    \<and> idle_ok (snd (restart_finish e deleted problem p)) None"
proof -
  obtain ok c where r: "resolveConnectionProblemIf e problem (op_conn p) = (ok, c)" by fastforce
  then have c: "cn_logout c = cn_logout (op_conn p)" using resolve_keeps_logout [of e problem "op_conn p"] by simp
  from assms c show ?thesis
    by (auto simp: restart_finish_def r Let_def op_ok_def op_quiet_def idle_ok_def pairing_defs)
qed

lemma logout_begin_ok:
  "op_ok p \<Longrightarrow> idle_ok p None \<Longrightarrow> op_ok (snd (logout_begin exits saved drained p)) \<and> op_quiet p (snd (logout_begin exits saved drained p))
    \<and> idle_ok (snd (logout_begin exits saved drained p)) (case fst (logout_begin exits saved drained p) of Inl _ \<Rightarrow> None | Inr h \<Rightarrow> Some h)"
  by (auto simp: logout_begin_def Let_def op_ok_def op_quiet_def idle_ok_def pairing_defs park_logged_out_def)

lemma logout_finish_ok:
  "op_ok p \<Longrightarrow> idle_ok p (Some (Hand_logout exits)) \<Longrightarrow> op_ok (snd (logout_finish exits w p)) \<and> op_quiet p (snd (logout_finish exits w p))
    \<and> idle_ok (snd (logout_finish exits w p)) None"
  by (auto simp: logout_finish_def Let_def op_ok_def op_quiet_def idle_ok_def pairing_defs park_logged_out_def)

lemma restart_begin_hand:
  "fst (restart_begin now p) = Inr h \<Longrightarrow> (\<exists>problem. h = Hand_restart problem) \<and> (cn_logout (op_conn p) \<longrightarrow> op_wiped p)"
  by (auto simp: restart_begin_def Let_def split: if_splits)

text \<open>The sections of the loop.\<close>

definition idle_run :: "pairing_sys \<Rightarrow> bool" where
  "idle_run s \<longleftrightarrow> op_ok (sy_p s) \<and> \<not> attemptActiveLocked (sy_p s) \<and> idle_ok (sy_p s) (sy_hand s)"

lemma idle_run_ok: "idle_run s \<Longrightarrow> run_ok (sy_p s) (sy_run s) \<Longrightarrow> sys_ok s"
  by (simp add: idle_run_def sys_ok_def alive_ok_def)

lemma not_dialing: "sys_ok s \<Longrightarrow> (\<And>n g client problem k. sy_run s \<noteq> Run_dial n g client problem k) \<Longrightarrow> idle_run s"
  by (auto simp: sys_ok_def alive_ok_def idle_run_def)

lemma park_keeps:
  "op_ok (park now p) = op_ok p" "attemptActiveLocked (park now p) = attemptActiveLocked p" "idle_ok (park now p) h = idle_ok p h"
  by (auto simp: park_def on_conn_def op_ok_def idle_ok_def attemptActiveLocked_def)

lemma parked_ok: "idle_run s \<Longrightarrow> sys_ok (parked now s)"
  by (auto simp: parked_def idle_run_def sys_ok_def alive_ok_def park_keeps)

lemma idle_run_state:
  "idle_run s \<Longrightarrow> (\<And>x. shown_ok x \<Longrightarrow> shown_ok (f x)) \<Longrightarrow> idle_run (s\<lparr>sy_p := on_state f (sy_p s)\<rparr>)"
  "idle_run s \<Longrightarrow> (\<And>c. cn_logout (g c) = cn_logout c) \<Longrightarrow> idle_run (s\<lparr>sy_p := on_conn g (sy_p s)\<rparr>)"
  by (auto simp: idle_run_def op_ok_def idle_ok_def on_state_def on_conn_def attemptActiveLocked_def)

lemma idle_run_more [simp]:
  "idle_run (s\<lparr>sy_run := r\<rparr>) = idle_run s" "idle_run (s\<lparr>sy_first := b\<rparr>) = idle_run s" "idle_run (s\<lparr>sy_failures := k\<rparr>) = idle_run s"
  by (simp_all add: idle_run_def)

lemma failed_shown [simp]: "shown_ok (failed_state result s)"
  by (simp add: failed_state_def shown_ok_def invalidateLocked_def)

lemma dialing_ok:
  assumes "sys_ok s" "sy_run s = Run_begin n problem"
  shows "sys_ok (dialing n problem s)"
  using assms
  by (auto simp: dialing_def Let_def begin_attempt_def sys_ok_def op_ok_def alive_ok_def idle_ok_def on_state_def new_generation_def attemptActiveLocked_def)

lemma ready_ok:
  assumes "op_ok p" "\<not> attemptActiveLocked p" "idle_ok p h" "1 \<le> n" "n \<le> pairing_attempts"
  shows "sys_ok (ready n p s)"
  using assms by (auto simp: ready_def sys_ok_def alive_ok_def idle_ok_def)

lemma run_top_ok:
  assumes "sys_ok s" "sy_run s = Run_top n" "case made of None \<Rightarrow> True | Some (_, c) \<Rightarrow> same_flags (op_conn (sy_p s)) c"
  shows "sys_ok (run_top now made n s)"
proof -
  have i: "idle_run s" using not_dialing [OF assms(1)] assms(2) by simp
  have n: "1 \<le> n" using assms(1,2) by (simp add: sys_ok_def)
  have ok: "op_ok (sy_p s)" "\<not> attemptActiveLocked (sy_p s)" "idle_ok (sy_p s) (sy_hand s)" using i by (simp_all add: idle_run_def)
  have inst: "op_ok (install_client b c (sy_p s)) \<and> \<not> attemptActiveLocked (install_client b c (sy_p s)) \<and> idle_ok (install_client b c (sy_p s)) (sy_hand s)"
    if "same_flags (op_conn (sy_p s)) c" for b c
    using ok that by (auto simp: install_client_def op_ok_def idle_ok_def same_flags_def attemptActiveLocked_def)
  have park1: "sys_ok (parked now (s\<lparr>sy_first := False, sy_p := on_state (invalidateLocked Pairing_required) (sy_p s)\<rparr>))"
    using parked_ok [OF idle_run_state(1) [of "s\<lparr>sy_first := False\<rparr>" "invalidateLocked Pairing_required"]] i by simp
  have park2: "sys_ok (parked now (s\<lparr>sy_p := on_state (invalidateLocked Expired) (sy_p s)\<rparr>))"
    using parked_ok [OF idle_run_state(1) [OF i]] by simp
  have done_ok: "sys_ok (s\<lparr>sy_run := Run_done\<rparr>)" using i by (intro idle_run_ok) simp_all
  have fresh: "sys_ok (ready n (install_client b c (sy_p s)) s)" if "same_flags (op_conn (sy_p s)) c" "n \<le> pairing_attempts" for b c
    using inst [OF that(1), of b] n that(2) by (auto intro: ready_ok)
  show ?thesis
    unfolding run_top_def Let_def
    using parked_ok [OF i] park1 park2 done_ok ready_ok [OF ok n] fresh assms(3)
    by (auto split: option.split)
qed

lemma run_returned_ok:
  assumes "op_ok (sy_p s)" "idle_ok (sy_p s) (sy_hand s)" "1 \<le> n" "n \<le> pairing_attempts"
  shows "sys_ok (run_returned now n g client problem result s)"
proof -
  have i: "idle_run (s\<lparr>sy_p := cancelAttempt (sy_p s)\<rparr>)"
    using assms(1,2) by (auto simp: idle_run_def op_ok_def idle_ok_def cancelAttempt_def attemptActiveLocked_def)
  from parked_ok [OF i] i assms(3,4) show ?thesis
    by (auto simp: run_returned_def Let_def intro!: idle_run_ok)
qed

lemma run_close_ok:
  assumes "sys_ok s" "sy_run s = Run_closing n g client problem result"
  shows "sys_ok (run_close now n g problem result s)"
proof -
  have i: "idle_run s" using not_dialing [OF assms(1)] assms(2) by simp
  have n: "1 \<le> n" "n \<le> pairing_attempts" using assms by (simp_all add: sys_ok_def)
  let ?p1 = "on_state (failed_state result) (sy_p s)"
  have j: "idle_run (s\<lparr>sy_p := ?p1\<rparr>)" using idle_run_state(1) [OF i] by simp
  have k: "idle_run (s\<lparr>sy_p := on_conn (setPairingState []) ?p1\<rparr>)" using idle_run_state(2) [OF j, of "setPairingState []"] by simp
  have l: "idle_run (s\<lparr>sy_p := on_conn (setPairingState []) (on_state (invalidateLocked Starting) ?p1)\<rparr>)"
    using idle_run_state(2) [OF idle_run_state(1) [OF j, of "invalidateLocked Starting"], of "setPairingState []"] by simp
  have q: "idle_run (s\<lparr>sy_p := on_conn (setPairingState []) (on_state (invalidateLocked Paired) (sy_p s))\<rparr>)"
    using idle_run_state(2) [OF idle_run_state(1) [OF i, of "invalidateLocked Paired"], of "setPairingState []"] by simp
  have "sys_ok (s\<lparr>sy_run := Run_done\<rparr>)" "sys_ok (s\<lparr>sy_p := on_conn (setPairingState []) ?p1, sy_run := Run_top 1\<rparr>)"
    "sys_ok (s\<lparr>sy_p := on_conn (setPairingState []) (on_state (invalidateLocked Starting) ?p1), sy_failures := sy_failures s + 1, sy_run := Run_transport (n - 1)\<rparr>)"
    "n < pairing_attempts \<Longrightarrow> sys_ok (s\<lparr>sy_p := ?p1, sy_failures := 0, sy_run := Run_retry n\<rparr>)"
    "sys_ok (s\<lparr>sy_p := ?p1, sy_failures := 0, sy_run := Run_top (n + 1)\<rparr>)"
    using i j k l n by (simp_all add: idle_run_ok)
  then show ?thesis
    unfolding run_close_def Let_def
    using parked_ok [OF i, of now] parked_ok [OF j, of now] parked_ok [OF q, of now] by (simp split: if_split) auto
qed

lemma client_sel [simp]:
  "op_client (on_state f p) = op_client p" "op_client (on_conn h p) = op_client p" "op_client (cancelAttempt p) = op_client p"
  "op_client (park now p) = op_client p" "op_client (sy_p (parked now s)) = op_client (sy_p s)"
  "op_client (sy_p (run_returned now n g client problem result s)) = op_client (sy_p s)"
  "op_client (sy_p (run_close now n g problem result s)) = op_client (sy_p s)"
  by (simp_all add: on_state_def on_conn_def cancelAttempt_def park_def parked_def run_returned_def run_close_def Let_def)

lemma pairing_step_ok:
  assumes "pairing_step s t" "sys_ok s"
  shows "sys_ok t"
proof -
  from assms(2) have ok: "op_ok (sy_p s)" and idle: "idle_ok (sy_p s) (sy_hand s)" and run: "run_ok (sy_p s) (sy_run s)"
    by (simp_all add: sys_ok_def)
  note A = action_ok [OF ok] and Q = quiet_p [OF assms(2)] and H = quiet_hand [OF assms(2)]
  from assms(1) show ?thesis
  proof cases
    case (event e client ev)
    then show ?thesis using Q [OF handleClientEvent_ok [OF ok]] by (simp add: with_p_def)
  next
    case (admit client)
    then show ?thesis using Q [OF beginCompletion_ok [OF ok]] by (simp add: with_p_def)
  next
    case (network b)
    then show ?thesis unfolding with_p_def using ok
      by (simp, intro Q) (simp add: op_ok_def op_quiet_def op_idle_same_def attemptActiveLocked_def)
  next
    case (others c)
    then show ?thesis unfolding with_p_def using ok
      by (simp, intro Q) (simp add: op_ok_def op_quiet_def op_idle_same_def attemptActiveLocked_def same_flags_def)
  next
    case shutdown
    then show ?thesis unfolding with_p_def using ok
      by (simp, intro Q) (auto simp: op_ok_def op_quiet_def op_idle_same_def attemptActiveLocked_def cancelAttempt_def)
  next
    case (code now phone)
    then show ?thesis unfolding begun_def
      by (simp, intro H [OF A(1)]) (auto simp: code_begin_def Let_def split: option.splits if_splits)
  next
    case (code_done client g expires now issued)
    then show ?thesis unfolding ended_def using H [OF A(2)] by simp
  next
    case (passkey now g response)
    then show ?thesis unfolding begun_def
      by (simp, intro H) (use ok in \<open>auto simp: A(3) passkey_begin_def Let_def split: if_splits\<close>)
  next
    case (passkey_checked response g client request tools now)
    then show ?thesis unfolding begun_def
      by (simp, intro H [OF A(4)]) (auto simp: passkey_claim_def Let_def split: if_splits)
  next
    case (passkey_done g client request sent)
    then show ?thesis unfolding ended_def using H [OF A(5)] by simp
  next
    case (confirm now g code)
    then show ?thesis unfolding begun_def
      by (simp, intro H) (use ok in \<open>auto simp: A(6) confirm_begin_def Let_def split: if_splits\<close>)
  next
    case (confirm_done g sent)
    then show ?thesis unfolding ended_def using H [OF A(7)] by simp
  next
    case (restart now)
    have "idle_ok (sy_p s) (case fst (restart_begin now (sy_p s)) of Inl _ \<Rightarrow> None | Inr h \<Rightarrow> Some h)"
      using idle restart_begin_hand [of now "sy_p s"] by (auto simp: idle_ok_def split: sum.split)
    from quiet_step [OF assms(2) ok op_quiet_refl(1) this] restart show ?thesis by (simp add: begun_def A(8))
  next
    case (restart_done problem e deleted)
    with restart_finish_ok [OF ok, of problem e deleted] idle assms(2) show ?thesis unfolding ended_def
      by simp (intro quiet_step, simp_all)
  next
    case (logout exits saved drained)
    with logout_begin_ok [OF ok, of exits saved drained] idle assms(2) show ?thesis unfolding begun_def
      by simp (intro quiet_step, simp_all)
  next
    case (logout_done exits w)
    with logout_finish_ok [OF ok, of exits w] idle assms(2) show ?thesis unfolding ended_def
      by simp (intro quiet_step, simp_all)
  next
    case (top n going made now)
    then show ?thesis using run_top_ok [OF assms(2)] by simp
  next
    case (generation n problem)
    then show ?thesis using dialing_ok [OF assms(2)] by simp
  next
    case (dial n g client problem passkey w result now)
    then show ?thesis using run_returned_ok [OF ok idle] run by simp
  next
    case (channel n g client problem passkey now input passkey' p)
    note pt = pair_turn_ok [OF ok channel(3)]
    have "sys_ok (s\<lparr>sy_p := p\<rparr>)" by (rule Q [OF pt])
    then show ?thesis using channel by (auto simp: sys_ok_def alive_ok_def)
  next
    case (returned n g client problem passkey now input result passkey' p)
    note pt = pair_turn_ok [OF ok returned(3)]
    have "idle_ok p (sy_hand s)" using pt idle by (auto intro: idle_same)
    with pt returned run show ?thesis by (simp add: run_returned_ok)
  next
    case (close n g client problem result going now)
    then show ?thesis using run_close_ok [OF assms(2)] by simp
  next
    case (retry n)
    have "idle_run s" using not_dialing [OF assms(2)] retry by auto
    then show ?thesis using retry run by (auto intro!: idle_run_ok simp: pairing_attempts_def)
  next
    case (kick n)
    have "idle_run s" using not_dialing [OF assms(2)] kick by auto
    then have "idle_run t" using kick by (auto simp: idle_run_def op_ok_def idle_ok_def attemptActiveLocked_def)
    then show ?thesis using kick by (auto intro!: idle_run_ok)
  next
    case (stop n)
    have "idle_run s" using not_dialing [OF assms(2)] stop by auto
    then show ?thesis using stop by (auto intro!: idle_run_ok)
  qed
qed

lemma reachable_ok: "pairing_reachable s \<Longrightarrow> sys_ok s"
proof (induction rule: pairing_reachable.induct)
  case (restored c idle client paired online)
  then show ?case
    by (cases idle) (simp_all add: sys_ok_def op_ok_def alive_ok_def idle_ok_def restoreOperatorIdle_def newOperatorPairing_def on_conn_def on_state_def
        shown_ok_def attemptActiveLocked_def pairing_attempts_def)
next
  case (step s t)
  from step.hyps(2) step.IH show ?case by (rule pairing_step_ok)
qed

text \<open>What the record of the codes asked for says, and what the loop owns while it begins an attempt.\<close>

definition codes_ok :: "operatorPairing \<Rightarrow> nat list \<Rightarrow> bool" where
  "codes_ok p asked \<longleftrightarrow> (\<forall>g \<in> set asked. g \<le> ps_Generation (op_state p)) \<and> count_list asked (ps_Generation (op_state p)) \<le> op_codeCalls p
     \<and> (\<forall>g. count_list asked g \<le> 3)"

definition loop_ok :: "pairing_sys \<Rightarrow> bool" where
  "loop_ok s \<longleftrightarrow> (\<forall>n problem. sy_run s = Run_begin n problem \<longrightarrow> sy_hand s = Some Hand_loop \<and> \<not> cn_logout (op_conn (sy_p s)))"

lemma codes_later:
  assumes "codes_ok p asked" "ps_Generation (op_state p) \<le> ps_Generation (op_state q)"
    and "ps_Generation (op_state q) = ps_Generation (op_state p) \<Longrightarrow> op_codeCalls p \<le> op_codeCalls q"
  shows "codes_ok q asked"
proof (cases "ps_Generation (op_state q) = ps_Generation (op_state p)")
  case False
  then have "ps_Generation (op_state q) \<notin> set asked" using assms(1,2) by (fastforce simp: codes_ok_def)
  then have "count_list asked (ps_Generation (op_state q)) = 0" by simp
  with assms(1,2) show ?thesis by (fastforce simp: codes_ok_def)
qed (use assms in \<open>auto simp: codes_ok_def\<close>)

lemma codes_quiet: "codes_ok p asked \<Longrightarrow> op_quiet p q \<Longrightarrow> codes_ok q asked"
  by (rule codes_later) (auto simp: op_quiet_def)

lemma code_begin_codes:
  assumes "codes_ok p asked" "op_ok p"
  shows "codes_ok (snd (code_begin now phone p)) (case fst (code_begin now phone p) of Inr (Hand_code _ g _) \<Rightarrow> g # asked | _ \<Rightarrow> asked)"
  using assms by (auto simp: code_begin_def Let_def codes_ok_def le_Suc_eq split: option.split)

text \<open>The loop's own sections: they keep the generation and the count of codes, except the one that opens an attempt.\<close>

definition calls_same :: "operatorPairing \<Rightarrow> operatorPairing \<Rightarrow> bool" where
  "calls_same p q \<longleftrightarrow> ps_Generation (op_state q) = ps_Generation (op_state p) \<and> op_codeCalls q = op_codeCalls p"

lemma calls_same_simps [simp]:
  "calls_same p p" "calls_same p (on_conn h q) = calls_same p q" "calls_same p (cancelAttempt q) = calls_same p q"
  "calls_same p (on_state (invalidateLocked st) q) = calls_same p q" "calls_same p (on_state (failed_state result) q) = calls_same p q"
  "calls_same p (park now q) = calls_same p q" "calls_same p (sy_p (parked now u)) = calls_same p (sy_p u)"
  "calls_same p (install_client b c q) = calls_same p q" "sy_asked (parked now u) = sy_asked u"
  by (auto simp: calls_same_def on_conn_def on_state_def cancelAttempt_def failed_state_def park_def parked_def install_client_def)

lemma codes_same: "codes_ok p asked \<Longrightarrow> calls_same p q \<Longrightarrow> codes_ok q asked"
  by (simp add: codes_ok_def calls_same_def)

lemma loop_sections:
  "calls_same (sy_p s) (sy_p (run_top now made n s)) \<and> sy_asked (run_top now made n s) = sy_asked s"
  "calls_same (sy_p s) (sy_p (run_returned now n g client problem result s)) \<and> sy_asked (run_returned now n g client problem result s) = sy_asked s"
  "calls_same (sy_p s) (sy_p (run_close now n g problem result s)) \<and> sy_asked (run_close now n g problem result s) = sy_asked s"
  by (simp_all add: run_top_def ready_def run_returned_def run_close_def Let_def split: option.split)

lemma loop_not_begun [simp]:
  "loop_ok (parked now u)" "sy_run (run_returned now n g client problem result u) \<noteq> Run_begin k q"
  "sy_run (run_close now n g problem result u) \<noteq> Run_begin k q"
  by (auto simp: loop_ok_def parked_def run_returned_def run_close_def Let_def)

lemma run_top_loop:
  assumes "case made of None \<Rightarrow> True | Some (_, c) \<Rightarrow> same_flags (op_conn (sy_p s)) c"
  shows "loop_ok (run_top now made n s)"
proof -
  have "loop_ok (ready n q s)" if "\<not> cn_logout (op_conn q)" for q using that by (simp add: loop_ok_def ready_def)
  moreover have "loop_ok (s\<lparr>sy_run := Run_done\<rparr>)" by (simp add: loop_ok_def)
  ultimately show ?thesis
    using assms by (auto simp: run_top_def Let_def install_client_def same_flags_def split: option.split)
qed

lemma loop_keeps:
  assumes "loop_ok s"
  shows "op_idle_same (sy_p s) q \<Longrightarrow> loop_ok (s\<lparr>sy_p := q\<rparr>)"
    and "sy_hand s \<noteq> Some Hand_loop \<Longrightarrow> loop_ok (begun r s)" "sy_hand s \<noteq> Some Hand_loop \<Longrightarrow> loop_ok (ended e s)"
  using assms by (auto simp: loop_ok_def op_idle_same_def begun_def ended_def)

lemma begun_codes:
  assumes "codes_ok (snd r) (sy_asked s)" "\<And>c g e. fst r \<noteq> Inr (Hand_code c g e)"
  shows "codes_ok (sy_p (begun r s)) (sy_asked (begun r s))"
  using assms by (auto simp: begun_def split: sum.split hand.split)

lemma no_code_hand:
  "fst (passkey_begin now g response p) \<noteq> Inr (Hand_code c k e)" "fst (passkey_claim tools now response g client request p) \<noteq> Inr (Hand_code c k e)"
  "fst (confirm_begin now g code p) \<noteq> Inr (Hand_code c k e)" "fst (restart_begin now p) \<noteq> Inr (Hand_code c k e)"
  "fst (logout_begin exits saved drained p) \<noteq> Inr (Hand_code c k e)"
  by (simp_all add: passkey_begin_def passkey_claim_def confirm_begin_def restart_begin_def logout_begin_def Let_def)

lemma pairing_step_loop:
  assumes "pairing_step s t" "sys_ok s" "loop_ok s"
  shows "loop_ok t"
proof -
  from assms(2) have ok: "op_ok (sy_p s)" by (simp add: sys_ok_def)
  note L = loop_keeps [OF assms(3)]
  from assms(1) show ?thesis
  proof cases
    case (event e client ev)
    then show ?thesis using L(1) handleClientEvent_ok [OF ok] by (simp add: with_p_def)
  next
    case (admit client)
    then show ?thesis using L(1) beginCompletion_ok [OF ok] by (simp add: with_p_def)
  next
    case (network b)
    then show ?thesis using L(1) by (simp add: with_p_def op_idle_same_def)
  next
    case (others c)
    then show ?thesis using L(1) by (simp add: with_p_def op_idle_same_def same_flags_def)
  next
    case shutdown
    then show ?thesis using L(1) by (simp add: with_p_def op_idle_same_def cancelAttempt_def)
  next
    case (top n going made now)
    then show ?thesis using run_top_loop by simp
  next
    case (channel n g client problem passkey now input passkey' p)
    then show ?thesis by (simp add: loop_ok_def)
  qed (use L(2,3) in \<open>auto simp: loop_ok_def dialing_def Let_def\<close>)
qed

lemma pairing_step_codes:
  assumes "pairing_step s t" "sys_ok s" "codes_ok (sy_p s) (sy_asked s)"
  shows "codes_ok (sy_p t) (sy_asked t)"
proof -
  from assms(2) have ok: "op_ok (sy_p s)" and idle: "idle_ok (sy_p s) (sy_hand s)" by (simp_all add: sys_ok_def)
  note A = action_ok [OF ok] and Q = codes_quiet [OF assms(3)] and S = codes_same [OF assms(3)]
  from assms(1) show ?thesis
  proof cases
    case (event e client ev)
    then show ?thesis using Q handleClientEvent_ok [OF ok] by (simp add: with_p_def)
  next
    case (admit client)
    then show ?thesis using Q beginCompletion_ok [OF ok] by (simp add: with_p_def)
  next
    case (network b)
    then show ?thesis using S by (simp add: with_p_def calls_same_def)
  next
    case (others c)
    then show ?thesis using S by (simp add: with_p_def calls_same_def)
  next
    case shutdown
    then show ?thesis using S by (simp add: with_p_def calls_same_def cancelAttempt_def)
  next
    case (code now phone)
    then show ?thesis using code_begin_codes [OF assms(3) ok] by (simp add: begun_def)
  next
    case (code_done client g expires now issued)
    then show ?thesis using Q A(2) by (simp add: ended_def)
  next
    case (passkey now g response)
    then show ?thesis using begun_codes assms(3) A(3) no_code_hand(1) by simp
  next
    case (passkey_checked response g client request tools now)
    then show ?thesis using begun_codes [OF Q no_code_hand(2)] A(4) by simp
  next
    case (passkey_done g client request sent)
    then show ?thesis using Q A(5) by (simp add: ended_def)
  next
    case (confirm now g text_code)
    then show ?thesis using begun_codes assms(3) A(6) no_code_hand(3) by simp
  next
    case (confirm_done g sent)
    then show ?thesis using Q A(7) by (simp add: ended_def)
  next
    case (restart now)
    then show ?thesis using begun_codes assms(3) A(8) no_code_hand(4) by simp
  next
    case (restart_done problem e deleted)
    with restart_finish_ok [OF ok, of problem e deleted] idle Q show ?thesis by (simp add: ended_def)
  next
    case (logout exits saved drained)
    with logout_begin_ok [OF ok, of exits saved drained] idle Q
    have "codes_ok (snd (logout_begin exits saved drained (sy_p s))) (sy_asked s)" by simp
    then show ?thesis using begun_codes [OF _ no_code_hand(5)] logout by simp
  next
    case (logout_done exits w)
    with logout_finish_ok [OF ok, of exits w] idle Q show ?thesis by (simp add: ended_def)
  next
    case (generation n problem)
    have "codes_ok (begin_attempt n (sy_p s)) (sy_asked s)"
      using assms(3) by (rule codes_later) (simp_all add: begin_attempt_def on_state_def new_generation_def)
    with generation show ?thesis by (simp add: dialing_def Let_def)
  next
    case (channel n g client problem passkey now input passkey' p)
    then show ?thesis using Q pair_turn_ok [OF ok channel(3)] by simp
  next
    case (returned n g client problem passkey now input result passkey' p)
    have "codes_ok p (sy_asked s)" using Q pair_turn_ok [OF ok returned(3)] by simp
    from codes_same [OF this] loop_sections(2) [where s = "s\<lparr>sy_p := p\<rparr>"] returned show ?thesis by simp
  qed (use S loop_sections in \<open>simp_all add: calls_same_def\<close>)
qed

lemma reachable_traces: "pairing_reachable s \<Longrightarrow> loop_ok s \<and> codes_ok (sy_p s) (sy_asked s)"
proof (induction rule: pairing_reachable.induct)
  case (restored c idle client paired online)
  then show ?case by (simp add: loop_ok_def codes_ok_def)
next
  case (step s t)
  with reachable_ok [OF step.hyps(1)] show ?case using pairing_step_loop pairing_step_codes by blast
qed


text \<open>C11. A device that has been scanned is never replaced: a step installs another client only when no session is paired, no
  device is being saved, and no attempt could admit one.\<close>

theorem linked_device_not_replaced:
  assumes "pairing_reachable s" "pairing_step s t" "op_client (sy_p t) \<noteq> op_client (sy_p s)"
  shows "\<not> isPaired (sy_p s) \<and> \<not> op_completing (sy_p s) \<and> (\<forall>client. \<not> fst (beginCompletion client (sy_p s)))"
proof -
  have ok: "sys_ok s" by (rule reachable_ok [OF assms(1)])
  have p: "op_ok (sy_p s)" and idle: "idle_ok (sy_p s) (sy_hand s)" using ok by (simp_all add: sys_ok_def)
  note A = action_ok [OF p]
  have q: "op_client (sy_p t) = op_client (sy_p s)" if "op_quiet (sy_p s) (sy_p t)" using that by (simp add: op_quiet_def)
  from assms(2) obtain n going made now where top: "t = run_top now made n s" "sy_run s = Run_top n" "waitCompletion (sy_p s) = Some going"
  proof cases
    case (event e client ev)
    then have False using assms(3) q handleClientEvent_ok [OF p] by (simp add: with_p_def)
    then show thesis ..
  next
    case (admit client)
    then have False using assms(3) q beginCompletion_ok [OF p] by (simp add: with_p_def)
    then show thesis ..
  next
    case (code now phone)
    then have False using assms(3) q A(1) by (simp add: begun_def)
    then show thesis ..
  next
    case (code_done client g expires now issued)
    then have False using assms(3) q A(2) by (simp add: ended_def)
    then show thesis ..
  next
    case (passkey_checked response g client request tools now)
    then have False using assms(3) q A(4) by (simp add: begun_def)
    then show thesis ..
  next
    case (passkey_done g client request sent)
    then have False using assms(3) q A(5) by (simp add: ended_def)
    then show thesis ..
  next
    case (confirm_done g sent)
    then have False using assms(3) q A(7) by (simp add: ended_def)
    then show thesis ..
  next
    case (restart_done problem e deleted)
    then have False using assms(3) q restart_finish_ok [OF p, of problem e deleted] idle by (simp add: ended_def)
    then show thesis ..
  next
    case (logout exits saved drained)
    then have False using assms(3) q logout_begin_ok [OF p, of exits saved drained] idle by (simp add: begun_def)
    then show thesis ..
  next
    case (logout_done exits w)
    then have False using assms(3) q logout_finish_ok [OF p, of exits w] idle by (simp add: ended_def)
    then show thesis ..
  next
    case (channel n g client problem passkey now input passkey' p')
    then have False using assms(3) q pair_turn_ok [OF p channel(3)] by simp
    then show thesis ..
  next
    case (returned n g client problem passkey now input result passkey' p')
    then have False using assms(3) pair_turn_ok [OF p returned(3)] by (simp add: op_quiet_def)
    then show thesis ..
  qed (use assms(3) A(3,6,8) in \<open>simp_all add: with_p_def begun_def dialing_def begin_attempt_def Let_def\<close>)
  have i: "\<not> attemptActiveLocked (sy_p s)" using not_dialing [OF ok] top(2) by (simp add: idle_run_def)
  have "\<not> isPaired (sy_p s) \<and> \<not> op_stopped (sy_p s)"
    using assms(3) unfolding top(1)
    by (simp add: run_top_def Let_def ready_def isPaired_def split: if_splits) blast
  with top(3) i show ?thesis by (auto simp: waitCompletion_def beginCompletion_def split: if_splits)
qed

text \<open>What a step can do to the operator's idle state.\<close>

lemma logout_stays:
  assumes "cn_logout (op_conn p)"
  shows "cn_logout (op_conn (snd (logout_begin exits saved drained p)))" "cn_logout (op_conn (snd (logout_finish exits w p)))"
  using assms by (simp_all add: logout_begin_def logout_finish_def Let_def on_conn_def on_state_def cancelAttempt_def park_logged_out_def)

lemma step_while_unwiped:
  assumes "sys_ok s" "pairing_step s t" "cn_logout (op_conn (sy_p s))" "\<not> op_wiped (sy_p s)" "loop_ok s"
  shows "cn_logout (op_conn (sy_p t)) \<and> (attemptActiveLocked (sy_p t) \<longrightarrow> attemptActiveLocked (sy_p s))"
proof -
  have ok: "op_ok (sy_p s)" and idle: "idle_ok (sy_p s) (sy_hand s)" using assms(1) by (simp_all add: sys_ok_def)
  note A = action_ok [OF ok]
  have same: ?thesis if "op_quiet (sy_p s) (sy_p t) \<and> op_idle_same (sy_p s) (sy_p t)"
    using that assms(3) by (simp add: op_quiet_def op_idle_same_def)
  have parks: "cn_logout (op_conn (sy_p (parked now u))) = cn_logout (op_conn (sy_p u))"
    "attemptActiveLocked (sy_p (parked now u)) = attemptActiveLocked (sy_p u)" for now u
    by (simp_all add: parked_def park_def on_conn_def attemptActiveLocked_def)
  have cancels: "\<not> attemptActiveLocked (cancelAttempt p)" "op_conn (cancelAttempt p) = op_conn p" for p
    by (auto simp: attemptActiveLocked_def cancelAttempt_def)
  have keeps: "attemptActiveLocked (on_conn h p) = attemptActiveLocked p" "attemptActiveLocked (on_state f p) = attemptActiveLocked p"
    "op_conn (on_state f p) = op_conn p" "cn_logout (op_conn (on_conn (setPairingState st) p)) = cn_logout (op_conn p)" for h f p st
    by (simp_all add: attemptActiveLocked_def on_conn_def on_state_def)
  from assms(2) show ?thesis
  proof cases
    case (event e client ev)
    then show ?thesis using same handleClientEvent_ok [OF ok] by (simp add: with_p_def)
  next
    case (admit client)
    then show ?thesis using same beginCompletion_ok [OF ok] by (simp add: with_p_def)
  next
    case (network b)
    then show ?thesis using assms(3) by (simp add: with_p_def attemptActiveLocked_def)
  next
    case (others c)
    then show ?thesis using assms(3) by (simp add: with_p_def attemptActiveLocked_def same_flags_def)
  next
    case shutdown
    then show ?thesis using assms(3) by (auto simp: with_p_def attemptActiveLocked_def cancelAttempt_def)
  next
    case (code now phone)
    then show ?thesis using same A(1) by (simp add: begun_def)
  next
    case (code_done client g expires now issued)
    then show ?thesis using same A(2) by (simp add: ended_def)
  next
    case (passkey now g response)
    then show ?thesis using same A(3) by (simp add: begun_def)
  next
    case (passkey_checked response g client request tools now)
    then show ?thesis using same A(4) by (simp add: begun_def)
  next
    case (passkey_done g client request sent)
    then show ?thesis using same A(5) by (simp add: ended_def)
  next
    case (confirm now g code)
    then show ?thesis using same A(6) by (simp add: begun_def)
  next
    case (confirm_done g sent)
    then show ?thesis using same A(7) by (simp add: ended_def)
  next
    case (restart now)
    then show ?thesis using same A(8) by (simp add: begun_def)
  next
    case (restart_done problem e deleted)
    then show ?thesis using idle assms(3,4) by (simp add: idle_ok_def)
  next
    case (logout exits saved drained)
    with logout_begin_ok [OF ok, of exits saved drained] idle have "op_quiet (sy_p s) (snd (logout_begin exits saved drained (sy_p s)))" by simp
    with logout logout_stays(1) [OF assms(3)] show ?thesis by (simp add: begun_def op_quiet_def)
  next
    case (logout_done exits w)
    with logout_finish_ok [OF ok, of exits w] idle have "op_quiet (sy_p s) (snd (logout_finish exits w (sy_p s)))" by simp
    with logout_done logout_stays(2) [OF assms(3)] show ?thesis by (simp add: ended_def op_quiet_def)
  next
    case (top n going made now)
    then show ?thesis using assms(3) by (simp add: run_top_def Let_def parks)
  next
    case (generation n problem)
    then show ?thesis using assms(3,5) by (simp add: loop_ok_def)
  next
    case (dial n g client problem passkey w result now)
    then show ?thesis using assms(3) by (simp add: run_returned_def Let_def parks cancels)
  next
    case (channel n g client problem passkey now input passkey' p)
    then show ?thesis using same pair_turn_ok [OF ok channel(3)] by simp
  next
    case (returned n g client problem passkey now input result passkey' p)
    then show ?thesis using assms(3) pair_turn_ok [OF ok returned(3)]
      by (simp add: run_returned_def Let_def parks cancels op_idle_same_def)
  next
    case (close n g client problem result going now)
    have "cn_logout (op_conn (sy_p t)) = cn_logout (op_conn (sy_p s)) \<and> attemptActiveLocked (sy_p t) = attemptActiveLocked (sy_p s)"
      unfolding close(1) run_close_def Let_def
      by (simp add: if_distrib [of sy_p] if_distrib [of op_conn] if_distrib [of cn_logout] if_distrib [of attemptActiveLocked] parks keeps
          split del: if_split cong: if_cong)
    with assms(3) show ?thesis by simp
  qed (use assms(3) in \<open>simp_all add: attemptActiveLocked_def\<close>)
qed

text \<open>C12. A logged-out bridge stays parked until its session is wiped: while the operator's logout is in force and the local
  session not wiped, no step ends the logout, starts an attempt or lets a restart through, and a process started
  from the saved row is logged out again.\<close>

theorem logout_holds_until_wiped:
  assumes "pairing_reachable s" "cn_logout (op_conn (sy_p s))" "\<not> op_wiped (sy_p s)"
  shows "(\<forall>t. pairing_step s t \<longrightarrow> cn_logout (op_conn (sy_p t)) \<and> (attemptActiveLocked (sy_p t) \<longrightarrow> attemptActiveLocked (sy_p s)))
     \<and> (\<forall>now. fst (restart_begin now (sy_p s)) = Inl 409)
     \<and> (\<forall>client paired online c. cn_logout (op_conn (restoreOperatorIdle ((newOperatorPairing client paired online c)\<lparr>op_idle := op_idle (sy_p s)\<rparr>))))"
proof -
  have ok: "sys_ok s" by (rule reachable_ok [OF assms(1)])
  then obtain w where w: "op_idle (sy_p s) = Some w" using assms(2,3) by (auto simp: sys_ok_def idle_ok_def)
  show ?thesis
    using step_while_unwiped [OF ok _ assms(2,3)] reachable_traces [OF assms(1)] assms(2,3) w
    by (auto simp: restart_begin_def restoreOperatorIdle_def on_conn_def)
qed

text \<open>The pause after transport failures is between a second and a minute, for a delay of at least a second.\<close>

lemma double_delay_bounds: "0 < d \<Longrightarrow> d \<le> minute \<Longrightarrow> d \<le> double_delay n d \<and> double_delay n d \<le> minute"
proof (induction n arbitrary: d)
  case (Suc n)
  show ?case
  proof (cases "d < minute")
    case True
    have "min (d * 2) minute \<le> double_delay n (min (d * 2) minute) \<and> double_delay n (min (d * 2) minute) \<le> minute"
      using Suc.prems by (intro Suc.IH) (auto simp: time_unit_defs)
    moreover have "d \<le> min (d * 2) minute" using True Suc.prems by simp
    ultimately have "d \<le> double_delay n (min (d * 2) minute)" "double_delay n (min (d * 2) minute) \<le> minute" by linarith+
    with True show ?thesis by simp
  qed (use Suc.prems in simp)
qed simp

lemma transport_delay_bounds: "0 < transport_delay retry failures \<and> transport_delay retry failures \<le> minute"
proof -
  let ?d = "min retry minute" and ?e = "if min retry minute \<le> 0 then second else min retry minute"
  have e: "0 < ?e" "?e \<le> minute" by (auto simp: time_unit_defs)
  from double_delay_bounds [OF e, of "failures - 1"] e show ?thesis unfolding transport_delay_def Let_def by linarith
qed

section \<open>A first pairing and a logout\<close>

definition quiet_conn :: conn where
  "quiet_conn = \<lparr>cn_problem = None, cn_fresh = 1, cn_pairing = [], cn_failed = False, cn_changed = 0, cn_retired = False, cn_logout = False,
     cn_device = None, cn_tempBans = (\<lambda>_. 0), cn_dir = None\<rparr>"

definition start_sys :: "bool \<Rightarrow> pairing_sys" where
  "start_sys paired = \<lparr>sy_p = restoreOperatorIdle ((newOperatorPairing 0 paired False quiet_conn)\<lparr>op_idle := None\<rparr>), sy_run = Run_top 1,
     sy_first = True, sy_failures = 0, sy_hand = None, sy_asked = []\<rparr>"

definition ready_sys :: pairing_sys where "ready_sys = run_top 0 None 1 (start_sys False)"
definition dialing_sys :: pairing_sys where "dialing_sys = dialing 1 None ready_sys"

definition scanned_sys :: pairing_sys where
  "scanned_sys = dialing_sys\<lparr>sy_p := observe 0 1 (Item_code ''qr'' second) (sy_p dialing_sys), sy_run := Run_dial 1 1 0 None False\<rparr>"

definition failed_sys :: pairing_sys where "failed_sys = run_returned 0 1 1 0 None Pair_transport dialing_sys"
definition waiting_sys :: pairing_sys where "waiting_sys = run_close 0 1 1 None Pair_transport failed_sys"
definition again_sys :: pairing_sys where "again_sys = waiting_sys\<lparr>sy_run := Run_top 1\<rparr>"

lemma start_reachable: "pairing_reachable (start_sys paired)"
  unfolding start_sys_def by (rule restored) (simp add: quiet_conn_def)

lemma dialing_reachable: "pairing_reachable dialing_sys"
proof -
  have "pairing_step (start_sys False) ready_sys"
    unfolding ready_sys_def by (rule top [where going = True]) (simp_all add: start_sys_def restoreOperatorIdle_def newOperatorPairing_def waitCompletion_def)
  then have r: "pairing_reachable ready_sys" by (rule pairing_reachable.step [OF start_reachable])
  have "sy_run ready_sys = Run_begin 1 None" by code_simp
  then have "pairing_step ready_sys dialing_sys" unfolding dialing_sys_def by (rule generation)
  then show ?thesis by (rule pairing_reachable.step [OF r])
qed

lemma dialing_values: "sy_run dialing_sys = Run_dial 1 1 0 None False" "op_client (sy_p dialing_sys) = 0" "\<not> isPaired (sy_p dialing_sys)"
  by code_simp+

lemma scanned_reachable: "pairing_reachable scanned_sys"
proof (rule pairing_reachable.step [OF dialing_reachable])
  show "pairing_step dialing_sys scanned_sys"
    unfolding scanned_sys_def by (rule channel [where now = 0 and input = "In_item (Item_code ''qr'' second)" and passkey = False]) (simp_all add: dialing_values Let_def)
qed

definition coded_sys :: pairing_sys where "coded_sys = begun (code_begin 0 ''5511987654321'' (sy_p scanned_sys)) scanned_sys"


lemma again_reachable: "pairing_reachable again_sys"
proof -
  have "pairing_step dialing_sys failed_sys"
    unfolding failed_sys_def by (rule dial [where passkey = False and w = "\<lparr>dw_gate = True, dw_channel = True, dw_connect = False\<rparr>"])
      (simp_all add: dialing_values dial_start_def)
  then have f: "pairing_reachable failed_sys" by (rule pairing_reachable.step [OF dialing_reachable])
  have fv: "sy_run failed_sys = Run_closing 1 1 0 None Pair_transport" "sy_hand failed_sys = None" "waitCompletion (sy_p failed_sys) = Some True"
    by code_simp+
  have "pairing_step failed_sys waiting_sys" unfolding waiting_sys_def by (rule close [OF fv])
  then have w: "pairing_reachable waiting_sys" by (rule pairing_reachable.step [OF f])
  have wv: "sy_run waiting_sys = Run_transport 0" by code_simp
  have "pairing_step waiting_sys again_sys" unfolding again_sys_def using retry [of waiting_sys 0] wv by simp
  then show ?thesis by (rule pairing_reachable.step [OF w])
qed

theorem linked_device_not_replaced_witness:
  "op_client (sy_p (run_top 0 (Some (False, quiet_conn)) 1 again_sys)) \<noteq> op_client (sy_p again_sys) \<and> \<not> isPaired (sy_p again_sys) \<and> \<not> op_completing (sy_p again_sys)"
proof -
  have v: "sy_run again_sys = Run_top 1" "sy_hand again_sys = None" "waitCompletion (sy_p again_sys) = Some True"
    "same_flags (op_conn (sy_p again_sys)) quiet_conn"
    "op_client (sy_p (run_top 0 (Some (False, quiet_conn)) 1 again_sys)) \<noteq> op_client (sy_p again_sys)"
    by code_simp+
  have "pairing_step again_sys (run_top 0 (Some (False, quiet_conn)) 1 again_sys)"
    using v by (intro top [where going = True]) simp_all
  from linked_device_not_replaced [OF again_reachable this v(5)] v(5) show ?thesis by blast
qed

definition leaving_sys :: pairing_sys where "leaving_sys = begun (logout_begin False True True (sy_p (start_sys True))) (start_sys True)"

theorem logout_holds_until_wiped_witness:
  "fst (restart_begin 0 (sy_p leaving_sys)) = Inl 409 \<and> cn_logout (op_conn (restoreOperatorIdle ((newOperatorPairing 0 True False quiet_conn)\<lparr>op_idle := op_idle (sy_p leaving_sys)\<rparr>)))"
proof -
  have "pairing_step (start_sys True) leaving_sys" unfolding leaving_sys_def by (rule logout) (simp add: start_sys_def)
  then have r: "pairing_reachable leaving_sys" by (rule pairing_reachable.step [OF start_reachable])
  have "cn_logout (op_conn (sy_p leaving_sys))" "\<not> op_wiped (sy_p leaving_sys)" by code_simp+
  from logout_holds_until_wiped [OF r this] show ?thesis by blast
qed

end
