(* ===== verification/Spec2Isabelle.thy ===== *)
theory Spec2Isabelle
  imports Send_Gate Pending_Edits Work_Queues Retry_Limits Sender_Namespace
    Connection_Handler Session_Keepalive Webhook_Queue Media_Purge Media_Transfers Polls Sending Group_Sync Read_Receipts Operator_Pairing
begin

text \<open>
  A verification library of the WhatsApp bridge, the Go program under \<^verbatim>\<open>src/whatsapp-bridge\<close>.

  \<^bold>\<open>The program.\<close> The bridge is a linked WhatsApp device: it receives events from the SDK
  (\<^verbatim>\<open>whatsmeow\<close>), archives messages in SQLite, answers a local REST interface, and tells webhook
  receivers what happens. A request of the REST interface passes a chain of guards (host, token,
  read-only switch, runtime settings, tool policy), names a chat that the chat policy must admit,
  and if it sends something reserves it in a budget. An SDK event becomes writes of chat and message
  rows, retried when the database is busy; edits that overtake their message wait in a table; media
  transfers and history imports run in bounded worker pools. The state of the connection (bans,
  unlinks, pairing) is saved in the store directory, gates every dial, and is announced to
  receivers.

  \<^bold>\<open>Theories, from the bottom.\<close>

  \<^item> \<open>Prelude\<close>: instants and durations, tables of keyed rows with \<^verbatim>\<open>INSERT ... ON CONFLICT\<close>
    (locale \<open>keyed_table\<close>, interpreted for every table of the development), shared list facts.
    \<open>Go_Strings\<close>: the functions of Go's \<^verbatim>\<open>strings\<close> and \<^verbatim>\<open>strconv\<close> packages the bridge uses, on
    byte strings.
  \<^item> \<open>Env_Config\<close> (\<^verbatim>\<open>env_bool.go\<close>, \<^verbatim>\<open>hours_env.go\<close>, \<^verbatim>\<open>read_only.go\<close>): strict switches and intervals.
  \<^item> \<open>Rest_Guards\<close> (\<^verbatim>\<open>auth.go\<close>, \<^verbatim>\<open>rest_bind.go\<close>, \<^verbatim>\<open>rest_middleware.go\<close>): handlers as state transformers,
    the locale \<open>request_guard\<close> of a guard that either answers or passes the request on, and its
    instances. \<open>Tool_Policy\<close> (\<^verbatim>\<open>tool_policy.go\<close>), \<open>Chat_Policy\<close> and \<open>Identity_Search\<close>
    (\<^verbatim>\<open>chat_policy.go\<close>): lists of permitted tools and chats and the search for a user's other
    identities. \<open>Runtime_Settings\<close> (\<^verbatim>\<open>runtime_settings.go\<close>, \<^verbatim>\<open>rest.go\<close>): settings rows, how they
    narrow the deployment's configuration, and the whole chain of a mutating endpoint.
  \<^item> \<open>Float64\<close>, \<open>Send_Budget\<close>, \<open>Send_Gate\<close> (\<^verbatim>\<open>send_limits.go\<close>): rounding of Go's \<^verbatim>\<open>float64\<close>, the token
    bucket and the daily counts, and the gate a send passes with the settings of that moment.
  \<^item> \<open>Message_Store\<close>, \<open>Chat_Rows\<close> (\<^verbatim>\<open>store.go\<close>, \<^verbatim>\<open>store_batch.go\<close>): the upserts of messages and chats.
    \<open>Pending_Edits\<close> (\<^verbatim>\<open>pending_edits.go\<close>, \<^verbatim>\<open>edit_forward.go\<close>): edits that wait for their message.
    \<open>Sender_Namespace\<close> (\<^verbatim>\<open>sender_namespace.go\<close>): the backfill of sender namespaces.
  \<^item> \<open>Work_Queues\<close> (\<^verbatim>\<open>media_budget.go\<close>, \<^verbatim>\<open>history_share_budget.go\<close>): the two worker pools as step
    relations, with the locale \<open>fifo_pool\<close>. \<open>Retry_Limits\<close> (\<^verbatim>\<open>media_retry_cooldown.go\<close>,
    \<^verbatim>\<open>store_failures.go\<close>): the cooldown of media retries and the retries of a busy database.
  \<^item> \<open>Connection_Problem\<close> (\<^verbatim>\<open>connection_problem.go\<close>, \<^verbatim>\<open>pairing.go\<close>): restrictions and unlinks, their file,
    the dial gate, the cleanup of a revoked session. \<open>Connection_Events\<close> (\<^verbatim>\<open>connection_events.go\<close>):
    announcements with their debounce and order. \<open>Connection_Handler\<close> (\<^verbatim>\<open>events.go\<close>): what each
    connection event does to both.
  \<^item> \<open>Operator_Pairing\<close> (\<^verbatim>\<open>operator_pairing.go\<close>, \<^verbatim>\<open>operator_logout.go\<close>, \<^verbatim>\<open>pairing.go\<close>, \<^verbatim>\<open>runtime_client.go\<close>): the pairing
    controller as a step relation that interleaves the loop of attempts, the operator's actions and the SDK's events.
  \<^item> \<open>Session_Keepalive\<close> (\<^verbatim>\<open>session_keepalive.go\<close>): the presence loop.
  \<^item> \<open>Webhook_Receiver\<close>, \<open>Webhook_Queue\<close> (\<^verbatim>\<open>webhook_runtime.go\<close>): which addresses a webhook may reach, on
    machine words, and the queue, worker and generations of a receiver.
  \<^item> \<open>Go_Utf8\<close>: runes of Go strings. \<open>Polls\<close> (\<^verbatim>\<open>polls.go\<close>): polls, votes and tallies, and the order in which
    live votes and the waiting votes of a history sync are written. \<open>Recipients\<close> (\<^verbatim>\<open>jid.go\<close>, \<^verbatim>\<open>send.go\<close>,
    \<^verbatim>\<open>recipient_cache.go\<close>): phone and LID identities, the registration lookup and its cache.
  \<^item> \<open>Group_Members\<close> (\<^verbatim>\<open>group_members.go\<close>, \<^verbatim>\<open>group_members_store.go\<close>): the cached members of groups. \<open>Group_Sync\<close>
    (\<^verbatim>\<open>group_events.go\<close>): the feeds of that table, the backoff of groups that cannot be fetched, the paced
    refresh, group settings.
  \<^item> \<open>Media_Path\<close> (\<^verbatim>\<open>media_path.go\<close>): which local files may be sent and under which name. \<open>Media_Bytes\<close>
    (\<^verbatim>\<open>send.go\<close>, \<^verbatim>\<open>forward_media.go\<close>): the headers of voice notes and stickers, byte by byte.
    \<open>Outbound_Message\<close> (\<^verbatim>\<open>send.go\<close>, \<^verbatim>\<open>send_mime.go\<close>, \<^verbatim>\<open>forward_media.go\<close>, \<^verbatim>\<open>media_presentation.go\<close>): the
    messages built for texts, files and forwards.
    \<open>Sending\<close> (\<^verbatim>\<open>send.go\<close>, \<^verbatim>\<open>outbound_quote.go\<close>): the endpoint \<^verbatim>\<open>/api/send\<close> from the request through
    recipient, file, budget, upload and network to the archived row, with the refund of a send that did not leave.
  \<^item> \<open>Go_Time\<close>: RFC 3339 times. \<open>Read_Receipts\<close> (\<^verbatim>\<open>mark_read.go\<close>, \<^verbatim>\<open>store.go\<close>): receipts for listed messages and for
    whole chats, the read marker, and the progress saved when the budget refuses.
  \<^item> \<open>Media_Quota\<close> (\<^verbatim>\<open>media_quota.go\<close>, \<^verbatim>\<open>media_cap.go\<close>): reservations, eviction and byte caps on 64-bit words.
    \<open>Media_Transfers\<close> (\<^verbatim>\<open>media_inflight.go\<close>): the single-flight group of transfers as a step relation.
    \<open>Media_Cache\<close> (\<^verbatim>\<open>media_cache_path.go\<close>, \<^verbatim>\<open>media.go\<close>): the files of a chat on disk, with directories that
    may be swapped between two system calls. \<open>Media_Purge\<close> (\<^verbatim>\<open>media_purge.go\<close>, \<^verbatim>\<open>media_retention.go\<close>,
    \<^verbatim>\<open>media_storage.go\<close>): the purge endpoint, the retention sweep and byte ranges.

  \<^bold>\<open>Modelling.\<close> Structs are records, errors are values of a sum or option type, SQL tables are lists of
  rows in insertion order, goroutines and lock sections are steps of a relation, map iteration
  in Go's unspecified order is an argument \<open>scan\<close> of which only the set or multiset of results is
  assumed. The SDK's JID functions, SQLite's \<^verbatim>\<open>json_patch\<close>, URL parsing, DNS and the clock are
  arguments. Disk operations take the faults that occur as an argument. Counters that only
  metrics read are left out or unbounded; durations and instants are integers, and where the code
  guards against overflow the bound is proved.

  \<^bold>\<open>What the theorems show.\<close> For each component, what the numbered claims state: authentication,
  policies and runtime settings admit exactly what the deployment and the operator allow, and the
  latter can only narrow the former; a send that is let through is within every limit and is
  charged first; message rows converge whatever the order and repetition of deliveries, never mix
  two media snapshots and never lose an edit; pending edits are bounded, isolated per author and
  applied only on behalf of the message's author; worker pools account for every job and stop; one
  of them can strand a job during shutdown, which the code's comments exclude; a restart never
  forgets a restriction, no dial passes one, a revoked client cannot come back; a scanned device is admitted
  only by the attempt that showed its code and is never replaced, and a logout holds until the session is wiped; announcements are
  ordered and debounced; the keepalive always takes its presence back; webhook events are delivered
  to the receiver they were admitted for or counted as dropped, and no receiver name leads a
  delivery into a private network; the tally of a poll is the latest vote of each voter, also when
  votes wait for their secrets; a send goes only to a listed, registered recipient and only with a file
  inside the media roots, its charge is given back exactly when nothing can have left, and the text
  archived is the text sent; a message is marked read only when its receipt was accepted, and no receipt
  accepted before a refusal is sent again; the cache stays within its quota, one transfer writes a destination at a
  time, a cached file is never reached through a link, and a purge removes only what its policy and
  its criteria name; a roster replaces what it does not list, a group the account has left stays
  forgotten, and the refresh of rosters cannot be starved.

  \<^bold>\<open>Fuel and termination.\<close> The identity search takes fuel, and beyond one plus three times the number of
  reachable identities it always answers. The paged walk of the purge takes fuel, and beyond the number
  of rows of the table it always ends. The dial gate runs over a given list of turns, since it may
  wait forever by design. Every other function terminates.

  \<^bold>\<open>Not modelled.\<close> Decoding of SDK messages into rows, object storage, history imports, group
  management and labels, the rest of the operator's interface, logging and metrics, and the MCP server in Python.
\<close>

end
